(* ===== verification/Prelude.thy ===== *)
theory Prelude
  imports Main "HOL-Library.Word"
begin

text \<open>
  The material every component of the development shares.

  \<^item> Rust's \<^verbatim>\<open>Result<T, E>\<close> is the sum \<open>'e + 'a\<close> with the error on the left; the question-mark
    operator is \<open>res_bind\<close>, whose inversion rules are in the collection \<open>result_simps\<close>.
  \<^item> A \<^verbatim>\<open>u8\<close> is an \<open>8 word\<close>. The \<^verbatim>\<open>to_be_bytes\<close> and \<^verbatim>\<open>from_be_bytes\<close> family of the unsigned
    integers is \<open>be_bytes\<close> and \<open>be_nat\<close>.
  \<^item> A Rust \<^verbatim>\<open>String\<close> is a list of UTF-8 bytes; it is modelled by HOL's \<open>string\<close>, each \<open>char\<close>
    being one byte. \<open>as_bytes\<close> and \<open>of_bytes\<close> convert, and \<open>utf8_valid\<close> is the check that
    \<^verbatim>\<open>std::str::from_utf8\<close> makes.
  \<^item> \<open>show_nat\<close>, \<open>show_int\<close> and \<open>parse_digits\<close> are decimal \<^verbatim>\<open>Display\<close> and \<^verbatim>\<open>parse\<close>.
\<close>

section \<open>Collections\<close>

named_theorems result_simps \<open>inversion of computations in the result type\<close>

section \<open>The result type\<close>

type_synonym byte = "8 word"

definition res_bind :: "'e + 'a \<Rightarrow> ('a \<Rightarrow> 'e + 'b) \<Rightarrow> 'e + 'b" where
  "res_bind m f = (case m of Inl e \<Rightarrow> Inl e | Inr a \<Rightarrow> f a)"

lemma res_bind_simps [simp]:
  "res_bind (Inl e) f = Inl e"
  "res_bind (Inr a) f = f a"
  by (simp_all add: res_bind_def)

lemma res_bind_Inr_iff [result_simps]:
  "res_bind m f = Inr y \<longleftrightarrow> (\<exists>x. m = Inr x \<and> f x = Inr y)"
  by (cases m) auto

lemma res_bind_Inl_iff [result_simps]:
  "res_bind m f = Inl e \<longleftrightarrow> m = Inl e \<or> (\<exists>x. m = Inr x \<and> f x = Inl e)"
  by (cases m) auto

lemma res_bind_cong [fundef_cong]:
  assumes "m = m'" and "\<And>x. m' = Inr x \<Longrightarrow> f x = g x"
  shows "res_bind m f = res_bind m' g"
  using assms by (cases m') auto

lemma res_bind_assoc: "res_bind (res_bind m f) g = res_bind m (\<lambda>x. res_bind (f x) g)"
  by (cases m) auto

definition map_err :: "('e \<Rightarrow> 'f) \<Rightarrow> 'e + 'a \<Rightarrow> 'f + 'a" where
  "map_err h m = (case m of Inl e \<Rightarrow> Inl (h e) | Inr a \<Rightarrow> Inr a)"

lemma map_err_simps [simp]:
  "map_err h (Inl e) = Inl (h e)"
  "map_err h (Inr a) = Inr a"
  by (simp_all add: map_err_def)

lemma map_err_Inr_iff [result_simps]: "map_err h m = Inr a \<longleftrightarrow> m = Inr a"
  by (cases m) auto

definition ok_or :: "'a option \<Rightarrow> 'e \<Rightarrow> 'e + 'a" where
  "ok_or m e = (case m of None \<Rightarrow> Inl e | Some a \<Rightarrow> Inr a)"

lemma ok_or_simps [simp]:
  "ok_or None e = Inl e"
  "ok_or (Some a) e = Inr a"
  by (simp_all add: ok_or_def)

lemma ok_or_Inr_iff [result_simps]: "ok_or m e = Inr a \<longleftrightarrow> m = Some a"
  by (cases m) auto

text \<open>\<^verbatim>\<open>Iterator::try_for_each\<close> stops at the first error.\<close>

fun try_for_each :: "('a \<Rightarrow> 'e + unit) \<Rightarrow> 'a list \<Rightarrow> 'e + unit" where
  "try_for_each f [] = Inr ()"
| "try_for_each f (x # xs) = res_bind (f x) (\<lambda>_. try_for_each f xs)"

lemma try_for_each_cong [fundef_cong]:
  "\<lbrakk>xs = ys; \<And>x. x \<in> set ys \<Longrightarrow> f x = g x\<rbrakk> \<Longrightarrow> try_for_each f xs = try_for_each g ys"
proof (induction xs arbitrary: ys)
  case (Cons a xs)
  then show ?case by (cases ys) (auto intro!: Cons.IH arg_cong [where f = "res_bind (g a)"])
qed simp

lemma try_for_each_Inr_iff [result_simps]:
  "try_for_each f xs = Inr u \<longleftrightarrow> (\<forall>x\<in>set xs. f x = Inr ())"
  by (induction xs) (auto simp: result_simps)

lemma try_for_each_append:
  "try_for_each f (xs @ ys) = res_bind (try_for_each f xs) (\<lambda>_. try_for_each f ys)"
  by (induction xs) (auto simp: res_bind_assoc)

section \<open>Big-endian bytes\<close>

fun be_bytes :: "nat \<Rightarrow> nat \<Rightarrow> byte list" where
  "be_bytes 0 n = []"
| "be_bytes (Suc k) n = be_bytes k (n div 256) @ [word_of_nat n]"

lemma be_bytes_numeral:
  "be_bytes (numeral k) n = be_bytes (pred_numeral k) (n div 256) @ [word_of_nat n]"
  by (simp only: numeral_eq_Suc [of k] be_bytes.simps)

definition be_nat :: "byte list \<Rightarrow> nat" where
  "be_nat bs = foldl (\<lambda>a b. a * 256 + unat b) 0 bs"

lemma be_nat_Nil [simp]: "be_nat [] = 0"
  by (simp add: be_nat_def)

lemma be_nat_snoc [simp]: "be_nat (bs @ [b]) = be_nat bs * 256 + unat b"
  by (simp add: be_nat_def)

lemma length_be_bytes [simp]: "length (be_bytes k n) = k"
  by (induction k arbitrary: n) auto

lemma unat_byte_less [simp]: "unat (b :: byte) < 256"
  using unsigned_less [of b, where ?'a = nat] by simp

lemma unat_byte_of_nat [simp]: "unat (word_of_nat n :: byte) = n mod 256"
  by (simp add: unat_of_nat)

lemma be_nat_be_bytes: "be_nat (be_bytes k n) = n mod 256 ^ k"
proof (induction k arbitrary: n)
  case 0
  then show ?case by simp
next
  case (Suc k)
  have "n mod 256 ^ Suc k = n mod (256 * 256 ^ k)" by simp
  also have "\<dots> = 256 * (n div 256 mod 256 ^ k) + n mod 256"
    by (rule mod_mult2_eq)
  finally show ?case by (simp add: Suc)
qed

lemma be_nat_be_bytes_less: "n < 256 ^ k \<Longrightarrow> be_nat (be_bytes k n) = n"
  by (simp add: be_nat_be_bytes)

lemma be_bytes_be_nat: "be_bytes (length bs) (be_nat bs) = bs"
proof (induction bs rule: rev_induct)
  case Nil
  then show ?case by simp
next
  case (snoc b bs)
  have "(be_nat bs * 256 + unat b) div 256 = be_nat bs"
    using unat_byte_less [of b] by simp
  moreover have "(word_of_nat (be_nat bs * 256 + unat b) :: byte) = b"
    by (rule word_unat_eq_iff [THEN iffD2]) (simp only: unat_byte_of_nat, simp)
  ultimately show ?case using snoc by simp
qed

lemma be_nat_less: "be_nat bs < 256 ^ length bs"
  by (metis be_bytes_be_nat be_nat_be_bytes mod_less_divisor zero_less_numeral zero_less_power)

section \<open>Strings as UTF-8 bytes\<close>

definition as_bytes :: "string \<Rightarrow> byte list" where
  "as_bytes s = map (\<lambda>c. word_of_nat (of_char c)) s"

definition of_bytes :: "byte list \<Rightarrow> string" where
  "of_bytes bs = map (\<lambda>b. char_of (unat b)) bs"

lemma length_as_bytes [simp]: "length (as_bytes s) = length s"
  by (simp add: as_bytes_def)

lemma length_of_bytes [simp]: "length (of_bytes bs) = length bs"
  by (simp add: of_bytes_def)

lemma of_char_nat_less [simp]: "(of_char c :: nat) < 256"
  using nat_of_char_less_256 by simp

lemma of_bytes_as_bytes [simp]: "of_bytes (as_bytes s) = s"
  by (induction s) (simp_all add: of_bytes_def as_bytes_def)

lemma as_bytes_of_bytes [simp]: "as_bytes (of_bytes bs) = bs"
  by (induction bs) (simp_all add: of_bytes_def as_bytes_def)

lemma as_bytes_inject [simp]: "as_bytes s = as_bytes t \<longleftrightarrow> s = t"
  by (metis of_bytes_as_bytes)

text \<open>
  The well-formed byte sequences of UTF-8: no overlong form, no surrogate, nothing above
  U+10FFFF, no stray continuation byte.
\<close>

definition utf8_cont :: "nat \<Rightarrow> bool" where
  "utf8_cont b \<longleftrightarrow> 128 \<le> b \<and> b \<le> 191"

fun utf8_chunk :: "nat \<Rightarrow> nat list \<Rightarrow> nat list option" where
  "utf8_chunk b rest =
     (if b < 128 then Some rest
      else if 194 \<le> b \<and> b \<le> 223 then
        (case rest of
           c # r \<Rightarrow> if utf8_cont c then Some r else None
         | _ \<Rightarrow> None)
      else if 224 \<le> b \<and> b \<le> 239 then
        (case rest of
           c # d # r \<Rightarrow>
             if utf8_cont c \<and> utf8_cont d \<and> (b = 224 \<longrightarrow> 160 \<le> c) \<and> (b = 237 \<longrightarrow> c \<le> 159)
             then Some r else None
         | _ \<Rightarrow> None)
      else if 240 \<le> b \<and> b \<le> 244 then
        (case rest of
           c # d # e # r \<Rightarrow>
             if utf8_cont c \<and> utf8_cont d \<and> utf8_cont e \<and> (b = 240 \<longrightarrow> 144 \<le> c) \<and>
                (b = 244 \<longrightarrow> c \<le> 143)
             then Some r else None
         | _ \<Rightarrow> None)
      else None)"

lemma utf8_chunk_length: "utf8_chunk b rest = Some r \<Longrightarrow> length r \<le> length rest"
  by (auto split: if_splits list.splits)

declare utf8_chunk.simps [simp del]

function utf8_scan :: "nat list \<Rightarrow> bool" where
  "utf8_scan [] = True"
| "utf8_scan (b # rest) = (case utf8_chunk b rest of None \<Rightarrow> False | Some r \<Rightarrow> utf8_scan r)"
  by pat_completeness auto
termination
  by (relation "measure length") (auto dest: utf8_chunk_length)

definition utf8_valid :: "byte list \<Rightarrow> bool" where
  "utf8_valid bs = utf8_scan (map unat bs)"

lemma utf8_scan_ascii: "\<forall>b\<in>set bs. b < 128 \<Longrightarrow> utf8_scan bs"
  by (induction bs) (auto simp: utf8_chunk.simps)

lemma utf8_valid_Nil [simp]: "utf8_valid []"
  by (simp add: utf8_valid_def)

lemma utf8_chunk_append: "utf8_chunk b rest = Some r \<Longrightarrow> utf8_chunk b (rest @ ys) = Some (r @ ys)"
  by (auto simp: utf8_chunk.simps split: if_splits list.splits)

lemma utf8_scan_append: "utf8_scan xs \<Longrightarrow> utf8_scan (xs @ ys) = utf8_scan ys"
  by (induction xs rule: utf8_scan.induct) (auto simp: utf8_chunk_append split: option.splits)

lemma utf8_valid_append [simp]: "utf8_valid xs \<Longrightarrow> utf8_valid (xs @ ys) = utf8_valid ys"
  by (simp add: utf8_valid_def utf8_scan_append)

definition utf8_text :: "string \<Rightarrow> bool" where
  "utf8_text s = utf8_valid (as_bytes s)"

lemma utf8_text_append [simp]: "utf8_text s \<Longrightarrow> utf8_text (s @ t) = utf8_text t"
  by (simp add: utf8_text_def as_bytes_def)

lemma utf8_text_Nil [simp]: "utf8_text []"
  by (simp add: utf8_text_def as_bytes_def)

lemma utf8_text_ascii: "list_all (\<lambda>c. (of_char c :: nat) < 128) s \<Longrightarrow> utf8_text s"
  unfolding utf8_text_def utf8_valid_def as_bytes_def
  by (rule utf8_scan_ascii) (auto simp: list_all_iff unsigned_of_nat take_bit_nat_eq_self)

section \<open>Characters of a string\<close>

text \<open>\<^verbatim>\<open>chars().count()\<close> and \<^verbatim>\<open>chars().take(n)\<close> on UTF-8 bytes: a continuation byte extends the
  character before it.\<close>

definition is_cont_char :: "char \<Rightarrow> bool" where
  "is_cont_char c = utf8_cont (of_char c)"

definition chars_count :: "string \<Rightarrow> nat" where
  "chars_count s = length (filter (\<lambda>c. \<not> is_cont_char c) s)"

fun take_chars :: "nat \<Rightarrow> string \<Rightarrow> string" where
  "take_chars n [] = []"
| "take_chars n (c # s) =
     (if is_cont_char c then c # take_chars n s
      else case n of 0 \<Rightarrow> [] | Suc m \<Rightarrow> c # take_chars m s)"

lemma chars_count_take: "chars_count (take_chars n s) \<le> n"
  by (induction n s rule: take_chars.induct) (auto simp: chars_count_def split: nat.splits)

section \<open>Lists\<close>

text \<open>\<^verbatim>\<open>Iterator::find_map\<close> and \<^verbatim>\<open>[String]::join\<close>; a range of a slice, \<open>None\<close> where it panics.\<close>

fun find_map :: "('a \<Rightarrow> 'b option) \<Rightarrow> 'a list \<Rightarrow> 'b option" where
  "find_map f [] = None"
| "find_map f (x # xs) = (case f x of Some y \<Rightarrow> Some y | None \<Rightarrow> find_map f xs)"

fun join_with :: "string \<Rightarrow> string list \<Rightarrow> string" where
  "join_with sep [] = []"
| "join_with sep [t] = t"
| "join_with sep (t # ts) = t @ sep @ join_with sep ts"

definition slice_range :: "'a list \<Rightarrow> nat \<Rightarrow> nat \<Rightarrow> 'a list option" where
  "slice_range xs lo hi =
     (if lo \<le> hi \<and> hi \<le> length xs then Some (take (hi - lo) (drop lo xs)) else None)"

lemma find_split:
  "find p xs = Some x \<Longrightarrow> \<exists>us vs. xs = us @ x # vs \<and> p x \<and> (\<forall>u\<in>set us. \<not> p u)"
proof (induction xs)
  case (Cons a xs)
  show ?case
  proof (cases "p a")
    case True
    with Cons.prems show ?thesis by (intro exI [of _ "[]"] exI [of _ xs]) simp
  next
    case False
    with Cons obtain us vs where "xs = us @ x # vs" "p x" "\<forall>u\<in>set us. \<not> p u" by auto
    with False show ?thesis by (intro exI [of _ "a # us"] exI [of _ vs]) simp
  qed
qed simp

lemma find_map_Some:
  "find_map f xs = Some y \<Longrightarrow>
     \<exists>pre x post. xs = pre @ x # post \<and> f x = Some y \<and> (\<forall>z\<in>set pre. f z = None)"
proof (induction xs)
  case (Cons a xs)
  show ?case
  proof (cases "f a")
    case None
    with Cons obtain pre x post where "xs = pre @ x # post" "f x = Some y" "\<forall>z\<in>set pre. f z = None"
      by auto
    with None show ?thesis by (intro exI [of _ "a # pre"] exI [of _ x] exI [of _ post]) simp
  next
    case (Some b)
    with Cons.prems show ?thesis by (intro exI [of _ "[]"] exI [of _ a] exI [of _ xs]) simp
  qed
qed simp

lemma find_map_None_iff: "find_map f xs = None \<longleftrightarrow> (\<forall>x\<in>set xs. f x = None)"
  by (induction xs) (auto split: option.splits)

lemma map_filter_append [simp]:
  "List.map_filter f (xs @ ys) = List.map_filter f xs @ List.map_filter f ys"
  by (simp add: List.map_filter_def)

lemma map_filter_Cons:
  "List.map_filter f (x # xs) =
     (case f x of Some y \<Rightarrow> y # List.map_filter f xs | None \<Rightarrow> List.map_filter f xs)"
  by (simp add: List.map_filter_def split: option.splits)

lemma map_filter_Nil [simp]: "List.map_filter f [] = []"
  by (simp add: List.map_filter_def)

lemma set_map_filter: "set (List.map_filter f xs) = {y. \<exists>x\<in>set xs. f x = Some y}"
  by (force simp: List.map_filter_def)

section \<open>Decimal numbers\<close>

fun show_nat :: "nat \<Rightarrow> string" where
  "show_nat n =
     (if n < 10 then [char_of (48 + n)]
      else show_nat (n div 10) @ [char_of (48 + n mod 10)])"

declare show_nat.simps [simp del]

definition show_int :: "int \<Rightarrow> string" where
  "show_int i = (if i < 0 then ''-'' @ show_nat (nat (- i)) else show_nat (nat i))"

definition is_ascii_digit :: "char \<Rightarrow> bool" where
  "is_ascii_digit c \<longleftrightarrow> 48 \<le> (of_char c :: nat) \<and> (of_char c :: nat) \<le> 57"

definition parse_digits :: "string \<Rightarrow> nat" where
  "parse_digits s = foldl (\<lambda>a c. a * 10 + (of_char c - 48)) 0 s"

lemma parse_digits_Nil [simp]: "parse_digits [] = 0"
  by (simp add: parse_digits_def)

lemma parse_digits_snoc [simp]:
  "parse_digits (s @ [c]) = parse_digits s * 10 + (of_char c - 48)"
  by (simp add: parse_digits_def)

lemma parse_digits_show_nat: "parse_digits (show_nat n) = n"
proof (induction n rule: show_nat.induct)
  case (1 n)
  have digit: "parse_digits [char_of (48 + m)] = m" if "m < 10" for m :: nat
    using parse_digits_snoc [of "[]"] that by simp
  show ?case
  proof (cases "n < 10")
    case True
    then show ?thesis by (simp add: show_nat.simps [of n] digit)
  next
    case False
    with 1 show ?thesis by (simp add: show_nat.simps [of n])
  qed
qed

lemma show_nat_digits: "c \<in> set (show_nat n) \<Longrightarrow> is_ascii_digit c"
proof (induction n rule: show_nat.induct)
  case (1 n)
  then show ?case
    by (cases "n < 10") (auto simp: show_nat.simps [of n] is_ascii_digit_def)
qed

lemma show_nat_not_Nil [simp]: "show_nat n \<noteq> []"
  by (simp add: show_nat.simps)

lemma show_nat_inject [simp]: "show_nat m = show_nat n \<longleftrightarrow> m = n"
  by (metis parse_digits_show_nat)

lemma minus_not_in_show_nat: "CHR ''-'' \<notin> set (show_nat n)"
  using show_nat_digits [of "CHR ''-''" n] by (auto simp: is_ascii_digit_def)

lemma show_int_inject [simp]: "show_int i = show_int j \<longleftrightarrow> i = j"
proof -
  have "CHR ''-'' # show_nat m \<noteq> show_nat n" for m n
    using minus_not_in_show_nat [of n] by (metis list.set_intros(1))
  from this this [symmetric] show ?thesis by (auto simp: show_int_def)
qed

lemma nul_not_in_show_int: "CHR 0x00 \<notin> set (show_int i)"
  using show_nat_digits [of "CHR 0x00"] by (auto simp: show_int_def is_ascii_digit_def)

section \<open>Signed 64-bit arithmetic\<close>

text \<open>
  \<^verbatim>\<open>i64\<close> values are integers; \<open>i64_wrap\<close> is what an addition leaves in an \<^verbatim>\<open>i64\<close> in a build without
  overflow checks (the workspace's release profile).
\<close>

definition i64_wrap :: "int \<Rightarrow> int" where
  "i64_wrap x = (x + 2 ^ 63) mod 2 ^ 64 - 2 ^ 63"

abbreviation i64_range :: "int \<Rightarrow> bool" where
  "i64_range x \<equiv> - (2 ^ 63) \<le> x \<and> x < 2 ^ 63"

lemma i64_wrap_id [simp]: "i64_range x \<Longrightarrow> i64_wrap x = x"
  by (simp add: i64_wrap_def)

lemma i64_wrap_range: "i64_range (i64_wrap x)"
  using pos_mod_bound [of "2 ^ 64" "x + 2 ^ 63"] pos_mod_sign [of "2 ^ 64" "x + 2 ^ 63"]
  by (simp add: i64_wrap_def)

lemma i64_wrap_add_left [simp]: "i64_wrap (i64_wrap a + b) = i64_wrap (a + b)"
proof -
  have "(i64_wrap a + b + 2 ^ 63) mod 2 ^ 64 = ((a + 2 ^ 63) mod 2 ^ 64 + b) mod 2 ^ 64"
    by (simp add: i64_wrap_def)
  also have "\<dots> = (a + b + 2 ^ 63) mod 2 ^ 64" 
    using mod_add_left_eq [of "a + 2 ^ 63" "2 ^ 64" b] by (simp add: ac_simps)
  finally show ?thesis by (simp add: i64_wrap_def [of "i64_wrap a + b"] i64_wrap_def [of "a + b"])
qed

lemma i64_wrap_add_right [simp]: "i64_wrap (a + i64_wrap b) = i64_wrap (a + b)"
  using i64_wrap_add_left [of b a] by (simp only: add.commute)

section \<open>Lines\<close>

text \<open>\<^verbatim>\<open>str::split\<close> at newlines, which has one piece more than there are newlines, and \<^verbatim>\<open>join\<close>.\<close>

abbreviation newline :: char where
  "newline \<equiv> CHR 0x0A"

fun split_lines :: "string \<Rightarrow> string list" where
  "split_lines [] = [[]]"
| "split_lines (c # s) =
     (if c = newline then [] # split_lines s
      else case split_lines s of [] \<Rightarrow> [[c]] | l # ls \<Rightarrow> (c # l) # ls)"

fun join_lines :: "string list \<Rightarrow> string" where
  "join_lines [] = []"
| "join_lines [l] = l"
| "join_lines (l # ls) = l @ newline # join_lines ls"

lemma split_lines_ne: "split_lines s \<noteq> []"
  by (induction s) (auto split: list.splits)

lemma split_lines_no: "newline \<notin> set t \<Longrightarrow> split_lines t = [t]"
  by (induction t) auto

lemma split_lines_line: "newline \<notin> set t \<Longrightarrow> split_lines (t @ newline # s) = t # split_lines s"
  by (induction t) auto

lemma join_lines_Cons: "ls \<noteq> [] \<Longrightarrow> join_lines (l # ls) = l @ newline # join_lines ls"
  by (cases ls) simp_all

lemma join_split_lines [simp]: "join_lines (split_lines s) = s"
proof (induction s)
  case (Cons c s)
  then show ?case
    using split_lines_ne [of s] by (cases "split_lines s"; cases "tl (split_lines s)") (auto simp: join_lines_Cons)
qed simp

lemma split_lines_clean: "l \<in> set (split_lines s) \<Longrightarrow> newline \<notin> set l"
  by (induction s arbitrary: l) (auto split: if_splits list.splits)

lemma split_join_lines: "ls \<noteq> [] \<Longrightarrow> \<forall>l\<in>set ls. newline \<notin> set l \<Longrightarrow> split_lines (join_lines ls) = ls"
  by (induction ls rule: join_lines.induct) (simp_all add: split_lines_no split_lines_line)

lemma length_split_lines: "length (split_lines s) = Suc (count_list s newline)"
  by (induction s) (auto split: list.splits)

lemma join_lines_append:
  "xs \<noteq> [] \<Longrightarrow> ys \<noteq> [] \<Longrightarrow> join_lines (xs @ ys) = join_lines xs @ newline # join_lines ys"
  by (induction xs rule: join_lines.induct) (auto simp: join_lines_Cons)

end
