(* ===== verification/Stream_Decoder.thy ===== *)
theory Stream_Decoder
  imports Prelude
begin

text \<open>
  The interface of an incremental decoder: an object that is fed the chunks of a byte stream,
  keeps the bytes of an unfinished item between calls and hands out the items each chunk
  completes. The frame decoder and the two message decoders of \<^verbatim>\<open>pi-protocol\<close> provide it; the
  connection layers rely on it. The contract compares \<open>push\<close> with \<open>split\<close>, a decoder of the
  whole stream: the lemmas of the locale say that feeding a stream chunk by chunk gives what
  \<open>split\<close> gives on the concatenation, however the stream is cut.
\<close>

text \<open>Feeding a list of chunks, up to the first error; \<open>None\<close> where a \<open>push\<close> does not return.\<close>

fun push_all ::
  "('s \<Rightarrow> 'b list \<Rightarrow> ('s \<times> ('e + 'o list)) option) \<Rightarrow> 's \<Rightarrow> 'b list list \<Rightarrow>
   ('s \<times> ('e + 'o list)) option" where
  "push_all push s [] = Some (s, Inr [])"
| "push_all push s (c # cs) =
     (case push s c of
        None \<Rightarrow> None
      | Some (s', Inl e) \<Rightarrow> Some (s', Inl e)
      | Some (s', Inr out) \<Rightarrow>
          (case push_all push s' cs of
             None \<Rightarrow> None
           | Some (s'', Inl e) \<Rightarrow> Some (s'', Inl e)
           | Some (s'', Inr out') \<Rightarrow> Some (s'', Inr (out @ out'))))"

locale incremental_decoder =
  fixes push :: "'s \<Rightarrow> 'b list \<Rightarrow> ('s \<times> ('e + 'o list)) option"
    and ready :: "'s \<Rightarrow> bool"
    and pending :: "'s \<Rightarrow> 'b list"
    and split :: "'b list \<Rightarrow> 'o list \<times> 'b list option"
  assumes push_ok:
      "\<lbrakk>ready s; split (pending s @ c) = (out, Some rest)\<rbrakk> \<Longrightarrow>
         \<exists>s'. push s c = Some (s', Inr out) \<and> ready s' \<and> pending s' = rest"
    and push_error:
      "\<lbrakk>ready s; split (pending s @ c) = (out, None)\<rbrakk> \<Longrightarrow> \<exists>s' e. push s c = Some (s', Inl e)"
    and split_pending: "ready s \<Longrightarrow> split (pending s) = ([], Some (pending s))"
    and split_resume:
      "\<lbrakk>split a = (out, Some rest); split (rest @ b) = (out', Some rest')\<rbrakk> \<Longrightarrow>
         split (a @ b) = (out @ out', Some rest')"
    and split_resume_failed:
      "\<lbrakk>split a = (out, Some rest); snd (split (rest @ b)) = None\<rbrakk> \<Longrightarrow>
         snd (split (a @ b)) = None"
    and split_failed: "split a = (out, None) \<Longrightarrow> snd (split (a @ b)) = None"
begin

lemma push_all_ok:
  assumes "ready s" and "split (pending s @ concat cs) = (out, Some rest)"
  shows "\<exists>s'. push_all push s cs = Some (s', Inr out) \<and> ready s' \<and> pending s' = rest"
  using assms
proof (induction cs arbitrary: s out)
  case Nil
  with split_pending [OF Nil.prems(1)] show ?case by simp
next
  case (Cons c cs)
  obtain out1 t1 where s1: "split (pending s @ c) = (out1, t1)" by fastforce
  have whole: "split ((pending s @ c) @ concat cs) = (out, Some rest)"
    using Cons.prems(2) by simp
  show ?case
  proof (cases t1)
    case None
    with s1 split_failed [of "pending s @ c" out1 "concat cs"] whole show ?thesis by simp
  next
    case (Some r1)
    obtain s1' where push1: "push s c = Some (s1', Inr out1)"
      and ready1: "ready s1'" and pend1: "pending s1' = r1"
      using push_ok [OF Cons.prems(1)] s1 Some by blast
    obtain out2 t2 where s2: "split (r1 @ concat cs) = (out2, t2)" by fastforce
    have "t2 \<noteq> None"
      using split_resume_failed [of "pending s @ c" out1 r1 "concat cs"] s1 Some s2 whole by auto
    then obtain r2 where r2: "t2 = Some r2" by blast
    have "split ((pending s @ c) @ concat cs) = (out1 @ out2, Some r2)"
      using split_resume [of "pending s @ c" out1 r1 "concat cs"] s1 Some s2 r2 by simp
    with whole r2 have out: "out = out1 @ out2" and t2: "t2 = Some rest" by auto
    obtain s2' where "push_all push s1' cs = Some (s2', Inr out2)"
      and "ready s2'" and "pending s2' = rest"
      using Cons.IH [OF ready1, of out2] s2 t2 pend1 by auto
    with push1 out show ?thesis by simp
  qed
qed

lemma push_all_error:
  assumes "ready s" and "snd (split (pending s @ concat cs)) = None"
  shows "\<exists>s' e. push_all push s cs = Some (s', Inl e)"
  using assms
proof (induction cs arbitrary: s)
  case Nil
  with split_pending [OF Nil.prems(1)] show ?case by simp
next
  case (Cons c cs)
  obtain out1 t1 where s1: "split (pending s @ c) = (out1, t1)" by fastforce
  show ?case
  proof (cases t1)
    case None
    with s1 push_error [OF Cons.prems(1)] obtain s' e where "push s c = Some (s', Inl e)"
      by blast
    then show ?thesis by simp
  next
    case (Some r1)
    obtain s1' where push1: "push s c = Some (s1', Inr out1)"
      and ready1: "ready s1'" and pend1: "pending s1' = r1"
      using push_ok [OF Cons.prems(1)] s1 Some by blast
    have "snd (split (r1 @ concat cs)) = None"
    proof (rule ccontr)
      assume "snd (split (r1 @ concat cs)) \<noteq> None"
      then obtain o2 r2 where "split (r1 @ concat cs) = (o2, Some r2)"
        by (metis not_Some_eq prod.collapse)
      from split_resume [of "pending s @ c" out1 r1, OF _ this] s1 Some Cons.prems(2)
      show False by simp
    qed
    then obtain s'' e where "push_all push s1' cs = Some (s'', Inl e)"
      using Cons.IH [OF ready1] pend1 by auto
    with push1 show ?thesis by simp
  qed
qed

text \<open>Two ways of cutting the same stream give the same items and leave the same bytes behind.\<close>

lemma push_all_chunking:
  assumes "ready s" and "concat cs = concat ds"
    and "push_all push s cs = Some (s', Inr out)"
  shows "\<exists>s''. push_all push s ds = Some (s'', Inr out) \<and> pending s'' = pending s'"
proof (cases "snd (split (pending s @ concat cs))")
  case None
  from push_all_error [OF assms(1) None] assms(3) show ?thesis by auto
next
  case (Some rest)
  then obtain o1 where sp: "split (pending s @ concat cs) = (o1, Some rest)"
    by (metis prod.collapse)
  from push_all_ok [OF assms(1) sp] assms(3) have "o1 = out" and "pending s' = rest" by auto
  with push_all_ok [OF assms(1), of ds] sp assms(2) show ?thesis by auto
qed

end

text \<open>
  The interface of an incremental parser that cannot fail: feeding it is an action of the monoid of
  byte strings on the parser states for which \<open>ok\<close> holds, so cuts between chunks are invisible.
\<close>

fun feed_all :: "('s \<Rightarrow> 'b list \<Rightarrow> 's \<times> 'o list) \<Rightarrow> 's \<Rightarrow> 'b list list \<Rightarrow> 's \<times> 'o list" where
  "feed_all feed s [] = (s, [])"
| "feed_all feed s (c # cs) =
     (let (s', out) = feed s c; (s'', out') = feed_all feed s' cs in (s'', out @ out'))"

locale incremental_parser =
  fixes feed :: "'s \<Rightarrow> 'b list \<Rightarrow> 's \<times> 'o list"
    and ok :: "'s \<Rightarrow> bool"
  assumes feed_ok: "ok s \<Longrightarrow> ok (fst (feed s c))"
    and feed_Nil: "ok s \<Longrightarrow> feed s [] = (s, [])"
    and feed_append:
      "ok s \<Longrightarrow> feed s (a @ b) =
         (let (s', out) = feed s a; (s'', out') = feed s' b in (s'', out @ out'))"
begin

lemma feed_all_concat: "ok s \<Longrightarrow> feed_all feed s cs = feed s (concat cs)"
proof (induction cs arbitrary: s)
  case Nil
  then show ?case by (simp add: feed_Nil)
next
  case (Cons c cs)
  obtain s' out where c: "feed s c = (s', out)" by fastforce
  with feed_ok [OF Cons.prems, of c] have "ok s'" by simp
  from Cons.IH [OF this] show ?case
    using feed_append [OF Cons.prems] by (simp add: c)
qed

lemma feed_all_ok: "ok s \<Longrightarrow> ok (fst (feed_all feed s cs))"
  by (simp add: feed_all_concat feed_ok)

lemma feed_all_chunking:
  "\<lbrakk>ok s; concat cs = concat ds\<rbrakk> \<Longrightarrow> feed_all feed s cs = feed_all feed s ds"
  by (simp add: feed_all_concat)

end

end
