(* ===== verification/Framing.thy ===== *)
theory Framing
  imports Stream_Decoder
begin

text \<open>
  Length framing: \<^verbatim>\<open>pi-rs/crates/pi-protocol/src/framing.rs\<close>. Every frame is an unsigned 32-bit
  big-endian byte count followed by exactly that many payload bytes. \<open>frame_decoder\<close> is the
  struct \<^verbatim>\<open>FrameDecoder\<close> with its fixed four-byte header buffer; the \<^verbatim>\<open>while\<close> loop of
  \<^verbatim>\<open>FrameDecoder::push\<close> is \<open>push_loop\<close>, whose argument \<open>rest\<close> is the part of the chunk at and
  behind \<^verbatim>\<open>offset\<close>. The loop is a partial function, \<open>None\<close> where it would not return: the
  refinement lemma shows that it always returns on the states a decoder can be in.

  The reference is \<open>split_frames\<close>, which decodes a whole byte stream at once;
  \<open>frame_push_refines\<close> says that \<open>push\<close> implements it.
\<close>

section \<open>The code\<close>

definition FRAME_HEADER_LENGTH :: nat where
  "FRAME_HEADER_LENGTH = 4"

definition DEFAULT_MAX_FRAME_LENGTH :: nat where
  "DEFAULT_MAX_FRAME_LENGTH = 16 * 1024 * 1024"

record frame_decoder_options =
  max_frame_length :: nat

definition default_frame_options :: frame_decoder_options where
  "default_frame_options = \<lparr>max_frame_length = DEFAULT_MAX_FRAME_LENGTH\<rparr>"

definition with_max_frame_length :: "nat \<Rightarrow> frame_decoder_options" where
  "with_max_frame_length n = \<lparr>max_frame_length = n\<rparr>"

datatype frame_error =
    PayloadTooLarge
  | IncompleteLengthPrefix
  | FrameLengthLimit nat nat
  | NotExactlyOnePayload
  | Ended
  | Failed
  | TruncatedStream

fun frame_error_code :: "frame_error \<Rightarrow> string" where
  "frame_error_code PayloadTooLarge = ''frame_payload_too_large''"
| "frame_error_code IncompleteLengthPrefix = ''frame_incomplete_length_prefix''"
| "frame_error_code (FrameLengthLimit _ _) = ''frame_length_limit''"
| "frame_error_code NotExactlyOnePayload = ''frame_not_exactly_one_payload''"
| "frame_error_code Ended = ''frame_decoder_ended''"
| "frame_error_code Failed = ''frame_decoder_failed''"
| "frame_error_code TruncatedStream = ''frame_truncated_stream''"

definition encode_frame :: "byte list \<Rightarrow> frame_error + byte list" where
  "encode_frame payload =
     (if length payload < 2 ^ 32 then Inr (be_bytes 4 (length payload) @ payload)
      else Inl PayloadTooLarge)"

definition assert_complete_frame ::
  "byte list \<Rightarrow> frame_decoder_options \<Rightarrow> frame_error + unit" where
  "assert_complete_frame frame options =
     (if length frame < FRAME_HEADER_LENGTH then Inl IncompleteLengthPrefix
      else let len = be_nat [frame ! 0, frame ! 1, frame ! 2, frame ! 3] in
        if len > max_frame_length options
        then Inl (FrameLengthLimit len (max_frame_length options))
        else if length frame \<noteq> FRAME_HEADER_LENGTH + len then Inl NotExactlyOnePayload
        else Inr ())"

datatype decoder_state = StateOpen | StateEnded | StateFailed

record frame_decoder =
  header :: "byte list"
  header_length :: nat
  fd_max_frame_length :: nat
  payload :: "byte list"
  expected_payload_length :: "nat option"
  fd_state :: decoder_state

definition frame_decoder_with_options :: "frame_decoder_options \<Rightarrow> frame_decoder" where
  "frame_decoder_with_options options =
     \<lparr>header = replicate FRAME_HEADER_LENGTH 0, header_length = 0,
      fd_max_frame_length = max_frame_length options, payload = [],
      expected_payload_length = None, fd_state = StateOpen\<rparr>"

definition frame_decoder_new :: frame_decoder where
  "frame_decoder_new = frame_decoder_with_options default_frame_options"

definition frame_fail :: "frame_decoder \<Rightarrow> frame_error \<Rightarrow> frame_decoder \<times> frame_error" where
  "frame_fail d error =
     (d\<lparr>fd_state := StateFailed, header_length := 0, payload := [],
        expected_payload_length := None\<rparr>, error)"

text \<open>
  The first half of the loop body, entered when no payload length is known: copy header bytes;
  on a complete header either fail, or emit an empty frame and continue, or fall through to the
  payload half (\<open>Inr (Inr _)\<close>).
\<close>

definition push_header ::
  "frame_decoder \<Rightarrow> byte list \<Rightarrow> byte list list \<Rightarrow>
   (frame_decoder \<times> frame_error) +
   ((frame_decoder \<times> byte list \<times> byte list list) +
    (frame_decoder \<times> byte list \<times> byte list list))" where
  "push_header d rest frames =
     (let n = min (FRAME_HEADER_LENGTH - header_length d) (length rest);
          d1 = d\<lparr>header := take (header_length d) (header d) @ take n rest @
                           drop (header_length d + n) (header d),
                 header_length := header_length d + n\<rparr>;
          rest1 = drop n rest
      in if header_length d1 < FRAME_HEADER_LENGTH then Inr (Inl (d1, rest1, frames))
         else
           let frame_length = be_nat (header d1);
               d2 = d1\<lparr>header_length := 0\<rparr>
           in if frame_length > fd_max_frame_length d2
              then Inl (frame_fail d2 (FrameLengthLimit frame_length (fd_max_frame_length d2)))
              else if frame_length = 0 then Inr (Inl (d2, rest1, frames @ [[]]))
              else Inr (Inr (d2\<lparr>expected_payload_length := Some frame_length, payload := []\<rparr>,
                             rest1, frames)))"

text \<open>The second half of the loop body: append payload bytes and emit a complete payload.\<close>

definition push_payload ::
  "nat \<Rightarrow> frame_decoder \<Rightarrow> byte list \<Rightarrow> byte list list \<Rightarrow>
   frame_decoder \<times> byte list \<times> byte list list" where
  "push_payload expected d rest frames =
     (let (d1, rest1) =
        (if rest \<noteq> [] \<and> length (payload d) < expected
         then let n = min (expected - length (payload d)) (length rest)
              in (d\<lparr>payload := payload d @ take n rest\<rparr>, drop n rest)
         else (d, rest))
      in if length (payload d1) = expected
         then (d1\<lparr>payload := [], expected_payload_length := None\<rparr>, rest1,
               frames @ [payload d1])
         else (d1, rest1, frames))"

definition push_body ::
  "frame_decoder \<Rightarrow> byte list \<Rightarrow> byte list list \<Rightarrow>
   (frame_decoder \<times> frame_error) + (frame_decoder \<times> byte list \<times> byte list list)" where
  "push_body d rest frames =
     (case expected_payload_length d of
        Some expected \<Rightarrow> Inr (push_payload expected d rest frames)
      | None \<Rightarrow>
          (case push_header d rest frames of
             Inl failure \<Rightarrow> Inl failure
           | Inr (Inl continue) \<Rightarrow> Inr continue
           | Inr (Inr (d', rest', frames')) \<Rightarrow>
               Inr (push_payload (the (expected_payload_length d')) d' rest' frames')))"

partial_function (option) push_loop ::
  "frame_decoder \<Rightarrow> byte list \<Rightarrow> byte list list \<Rightarrow>
   (frame_decoder \<times> (frame_error + byte list list)) option" where
  "push_loop d rest frames =
     (if rest = [] then Some (d, Inr frames)
      else case push_body d rest frames of
             Inl (d', e) \<Rightarrow> Some (d', Inl e)
           | Inr (d', rest', frames') \<Rightarrow> push_loop d' rest' frames')"

definition frame_push ::
  "frame_decoder \<Rightarrow> byte list \<Rightarrow> (frame_decoder \<times> (frame_error + byte list list)) option" where
  "frame_push d chunk =
     (case fd_state d of
        StateEnded \<Rightarrow> Some (d, Inl Ended)
      | StateFailed \<Rightarrow> Some (d, Inl Failed)
      | StateOpen \<Rightarrow> push_loop d chunk [])"

definition frame_end :: "frame_decoder \<Rightarrow> frame_decoder \<times> (frame_error + unit)" where
  "frame_end d =
     (case fd_state d of
        StateEnded \<Rightarrow> (d, Inl Ended)
      | StateFailed \<Rightarrow> (d, Inl Failed)
      | StateOpen \<Rightarrow>
          if header_length d \<noteq> 0 \<or> expected_payload_length d \<noteq> None
          then (case frame_fail d TruncatedStream of (d', e) \<Rightarrow> (d', Inl e))
          else (d\<lparr>fd_state := StateEnded\<rparr>, Inr ()))"

section \<open>The reference: splitting a whole stream\<close>

text \<open>
  \<open>split_frames limit bs\<close> is the list of complete payloads at the front of \<open>bs\<close> and the bytes of
  the unfinished frame behind them, or \<open>Inl n\<close> when a header announces \<open>n > limit\<close> bytes.
\<close>

function split_frames :: "nat \<Rightarrow> byte list \<Rightarrow> byte list list \<times> (nat + byte list)" where
  "split_frames limit bs =
     (if length bs < 4 then ([], Inr bs)
      else let n = be_nat (take 4 bs) in
        if n > limit then ([], Inl n)
        else if length bs < 4 + n then ([], Inr bs)
        else case split_frames limit (drop (4 + n) bs) of
               (fs, t) \<Rightarrow> (take n (drop 4 bs) # fs, t))"
  by pat_completeness auto
termination
  by (relation "measure (\<lambda>(limit, bs). length bs)") auto

declare split_frames.simps [simp del]

lemma split_frames_short: "length bs < 4 \<Longrightarrow> split_frames limit bs = ([], Inr bs)"
  by (simp add: split_frames.simps [of limit bs])

lemma split_frames_partial:
  "\<lbrakk>n < 256 ^ 4; n \<le> limit; length p < n\<rbrakk> \<Longrightarrow>
     split_frames limit (be_bytes 4 n @ p) = ([], Inr (be_bytes 4 n @ p))"
  by (subst split_frames.simps) (simp add: be_nat_be_bytes_less)

lemma split_frames_complete:
  "\<lbrakk>length p < 256 ^ 4; length p \<le> limit\<rbrakk> \<Longrightarrow>
     split_frames limit (be_bytes 4 (length p) @ p @ r) =
       (p # fst (split_frames limit r), snd (split_frames limit r))"
  by (subst split_frames.simps) (simp add: be_nat_be_bytes_less split: prod.splits)

lemma split_frames_oversize:
  "\<lbrakk>length h = 4; be_nat h > limit\<rbrakk> \<Longrightarrow>
     split_frames limit (h @ r) = ([], Inl (be_nat h))"
  by (subst split_frames.simps) simp

lemma split_frames_resume:
  "split_frames limit a = (out, Inr rest) \<Longrightarrow>
     split_frames limit (a @ b) =
       (out @ fst (split_frames limit (rest @ b)), snd (split_frames limit (rest @ b)))"
proof (induction limit a arbitrary: out rest rule: split_frames.induct)
  case (1 limit a)
  let ?n = "be_nat (take 4 a)"
  consider "length a < 4 \<or> \<not> ?n > limit \<and> length a < 4 + ?n"
    | "\<not> length a < 4" "?n > limit"
    | "\<not> length a < 4" "\<not> ?n > limit" "\<not> length a < 4 + ?n"
    by linarith
  then show ?case
  proof cases
    case 1
    with "1.prems" show ?thesis
      by (auto simp: split_frames.simps [of limit a] Let_def split: if_splits)
  next
    case 2
    with "1.prems" show ?thesis by (simp add: split_frames.simps [of limit a] Let_def)
  next
    case 3
    obtain fs where fs: "split_frames limit (drop (4 + ?n) a) = (fs, Inr rest)"
      and out: "out = take ?n (drop 4 a) # fs"
      using "1.prems" 3 by (auto simp: split_frames.simps [of limit a] Let_def split: prod.splits)
    have IH: "split_frames limit (drop (4 + ?n) a @ b) =
        (fs @ fst (split_frames limit (rest @ b)), snd (split_frames limit (rest @ b)))"
      using "1.IH" 3 fs by blast
    have "split_frames limit (a @ b) =
        (case split_frames limit (drop (4 + ?n) a @ b) of
           (fs, t) \<Rightarrow> (take ?n (drop 4 a) # fs, t))"
      using 3 by (subst split_frames.simps) (simp add: Let_def)
    with IH out show ?thesis by simp
  qed
qed

lemma split_frames_failed:
  "split_frames limit a = (out, Inl n) \<Longrightarrow> split_frames limit (a @ b) = (out, Inl n)"
proof (induction limit a arbitrary: out rule: split_frames.induct)
  case (1 limit a)
  let ?n = "be_nat (take 4 a)"
  from "1.prems" have long: "\<not> length a < 4"
    by (auto simp: split_frames.simps [of limit a])
  show ?case
  proof (cases "?n > limit")
    case True
    with long "1.prems" show ?thesis
      by (simp add: split_frames.simps [of limit a] split_frames.simps [of limit "a @ b"])
  next
    case False
    with long "1.prems" have full: "\<not> length a < 4 + ?n"
      by (auto simp: split_frames.simps [of limit a] Let_def split: if_splits)
    obtain fs where fs: "split_frames limit (drop (4 + ?n) a) = (fs, Inl n)"
      and out: "out = take ?n (drop 4 a) # fs"
      using "1.prems" long False full
      by (auto simp: split_frames.simps [of limit a] Let_def split: prod.splits)
    have IH: "split_frames limit (drop (4 + ?n) a @ b) = (fs, Inl n)"
      using "1.IH" long False full fs by blast
    have "split_frames limit (a @ b) =
        (case split_frames limit (drop (4 + ?n) a @ b) of
           (fs, t) \<Rightarrow> (take ?n (drop 4 a) # fs, t))"
      using long False full by (subst split_frames.simps) (simp add: Let_def)
    with IH out show ?thesis by simp
  qed
qed

section \<open>The decoder's invariant and what it has buffered\<close>

definition frame_inv :: "frame_decoder \<Rightarrow> bool" where
  "frame_inv d \<longleftrightarrow>
     length (header d) = 4 \<and> header_length d < 4 \<and> fd_max_frame_length d < 2 ^ 32 \<and>
     (case expected_payload_length d of
        None \<Rightarrow> payload d = []
      | Some n \<Rightarrow>
          header_length d = 0 \<and> length (payload d) < n \<and> n \<le> fd_max_frame_length d)"

definition frame_pending :: "frame_decoder \<Rightarrow> byte list" where
  "frame_pending d =
     (case expected_payload_length d of
        None \<Rightarrow> take (header_length d) (header d)
      | Some n \<Rightarrow> be_bytes 4 n @ payload d)"

lemma frame_inv_new: "max_frame_length options < 2 ^ 32 \<Longrightarrow>
  frame_inv (frame_decoder_with_options options)"
  by (simp add: frame_inv_def frame_decoder_with_options_def FRAME_HEADER_LENGTH_def)

lemma split_frames_pending:
  assumes "frame_inv d"
  shows "split_frames (fd_max_frame_length d) (frame_pending d) = ([], Inr (frame_pending d))"
proof (cases "expected_payload_length d")
  case None
  with assms show ?thesis
    by (simp add: frame_inv_def frame_pending_def split_frames_short)
next
  case (Some n)
  with assms show ?thesis
    by (simp add: frame_inv_def frame_pending_def split_frames_partial)
qed

text \<open>
  What an iteration that does not fail achieves: the invariant, the same limit and state, and
  the emitted frames are those the reference finds first.
\<close>

definition frame_progress ::
  "frame_decoder \<Rightarrow> byte list \<Rightarrow> byte list list \<Rightarrow>
   frame_decoder \<Rightarrow> byte list \<Rightarrow> byte list list \<Rightarrow> bool" where
  "frame_progress d rest frames d' rest' frames' \<longleftrightarrow>
     frame_inv d' \<and> fd_max_frame_length d' = fd_max_frame_length d \<and> fd_state d' = fd_state d \<and>
     (\<exists>gs. frames' = frames @ gs \<and>
        split_frames (fd_max_frame_length d) (frame_pending d @ rest) =
          (gs @ fst (split_frames (fd_max_frame_length d) (frame_pending d' @ rest')),
           snd (split_frames (fd_max_frame_length d) (frame_pending d' @ rest'))))"

lemma frame_progress_same:
  assumes "frame_inv d'" "fd_max_frame_length d' = fd_max_frame_length d"
    "fd_state d' = fd_state d" "frame_pending d' @ rest' = frame_pending d @ rest"
  shows "frame_progress d rest frames d' rest' frames"
  using assms by (simp add: frame_progress_def)

lemma frame_progress_trans:
  assumes "frame_progress d rest frames d1 rest1 frames1"
    and "frame_progress d1 rest1 frames1 d2 rest2 frames2"
  shows "frame_progress d rest frames d2 rest2 frames2"
proof -
  obtain g1 g2 where "frames1 = frames @ g1" "frames2 = frames1 @ g2"
    using assms by (auto simp: frame_progress_def)
  then show ?thesis using assms by (auto simp: frame_progress_def)
qed

lemma push_payload_step:
  assumes inv: "frame_inv d" and exp: "expected_payload_length d = Some n"
    and step: "push_payload n d rest frames = (d', rest', frames')"
  shows "frame_progress d rest frames d' rest' frames' \<and> length rest' \<le> length rest \<and>
    (rest \<noteq> [] \<longrightarrow> length rest' < length rest)"
proof -
  let ?k = "min (n - length (payload d)) (length rest)"
  have bounds: "length (payload d) < n" "n \<le> fd_max_frame_length d" "n < 2 ^ 32"
      "header_length d = 0"
    using inv exp by (auto simp: frame_inv_def)
  show ?thesis
  proof (cases "length rest < n - length (payload d)")
    case True
    then have "d' = d\<lparr>payload := payload d @ rest\<rparr>" "rest' = []" "frames' = frames"
      using step bounds by (auto simp: push_payload_def Let_def split: if_splits)
    with True bounds inv exp show ?thesis
      by (auto intro!: frame_progress_same simp: frame_inv_def frame_pending_def)
  next
    case False
    then have "?k = n - length (payload d)" and ne: "rest \<noteq> []" using bounds by auto
    then have d': "d' = d\<lparr>payload := [], expected_payload_length := None\<rparr>"
        and rest': "rest' = drop (n - length (payload d)) rest"
        and frames': "frames' = frames @ [payload d @ take (n - length (payload d)) rest]"
      using step bounds False by (auto simp: push_payload_def Let_def)
    let ?p = "payload d @ take (n - length (payload d)) rest"
    have len: "length ?p = n" using False bounds by simp
    have "frame_pending d @ rest = be_bytes 4 (length ?p) @ ?p @ rest'"
      using exp len rest' by (simp add: frame_pending_def)
    then have "split_frames (fd_max_frame_length d) (frame_pending d @ rest) =
        (?p # fst (split_frames (fd_max_frame_length d) rest'),
         snd (split_frames (fd_max_frame_length d) rest'))"
      using split_frames_complete [of ?p "fd_max_frame_length d" rest'] len bounds by simp
    moreover have "frame_pending d' = []" "frame_inv d'"
      using d' bounds inv by (simp_all add: frame_pending_def frame_inv_def)
    ultimately show ?thesis
      using frames' d' rest' ne False bounds by (auto simp: frame_progress_def)
  qed
qed

lemma push_header_step:
  assumes inv: "frame_inv d" and exp: "expected_payload_length d = None" and ne: "rest \<noteq> []"
  shows "case push_header d rest frames of
      Inl (d', e) \<Rightarrow> (\<exists>n. e = FrameLengthLimit n (fd_max_frame_length d) \<and>
        split_frames (fd_max_frame_length d) (frame_pending d @ rest) = ([], Inl n)) \<and>
        fd_state d' = StateFailed
    | Inr (Inl (d', rest', frames')) \<Rightarrow>
        frame_progress d rest frames d' rest' frames' \<and> length rest' < length rest
    | Inr (Inr (d', rest', frames')) \<Rightarrow>
        frame_progress d rest frames d' rest' frames' \<and> length rest' < length rest \<and>
        expected_payload_length d' \<noteq> None"
proof -
  have len4: "length (header d) = 4" and hl: "header_length d < 4" and pl: "payload d = []"
    and lim: "fd_max_frame_length d < 2 ^ 32"
    using inv exp by (auto simp: frame_inv_def)
  show ?thesis
  proof (cases "header_length d + length rest < 4")
    case True
    then have k: "min (4 - header_length d) (length rest) = length rest" by simp
    show ?thesis
      using True len4 hl pl lim exp ne
      by (auto simp: push_header_def Let_def k FRAME_HEADER_LENGTH_def frame_inv_def
          frame_pending_def intro!: frame_progress_same)
  next
    case False
    then have k: "min (4 - header_length d) (length rest) = 4 - header_length d" by simp
    let ?h = "take (header_length d) (header d) @ take (4 - header_length d) rest"
    let ?r = "drop (4 - header_length d) rest"
    have lenh: "length ?h = 4" using len4 hl False by simp
    have pend: "frame_pending d @ rest = ?h @ ?r" using exp by (simp add: frame_pending_def)
    have hb: "be_bytes 4 (be_nat ?h) = ?h" using be_bytes_be_nat [of ?h] unfolding lenh .
    have shrink: "length ?r < length rest" using False hl by simp
    consider (big) "be_nat ?h > fd_max_frame_length d" | (zero) "be_nat ?h = 0"
      | (body) "be_nat ?h \<noteq> 0" "be_nat ?h \<le> fd_max_frame_length d" by linarith
    then show ?thesis
    proof cases
      case big
      have "split_frames (fd_max_frame_length d) (frame_pending d @ rest) =
          ([], Inl (be_nat ?h))"
        unfolding pend by (rule split_frames_oversize [OF lenh big])
      with big hl len4 show ?thesis
        by (simp add: push_header_def Let_def k FRAME_HEADER_LENGTH_def frame_fail_def)
    next
      case zero
      have h0: "?h = be_bytes 4 0" using hb unfolding zero by simp
      have "split_frames (fd_max_frame_length d) (frame_pending d @ rest) =
          ([] # fst (split_frames (fd_max_frame_length d) ?r),
           snd (split_frames (fd_max_frame_length d) ?r))"
        unfolding pend h0 using split_frames_complete [of "[]" "fd_max_frame_length d" ?r]
        by (simp del: be_bytes.simps)
      with zero shrink len4 hl pl lim exp False show ?thesis
        by (simp add: push_header_def Let_def k FRAME_HEADER_LENGTH_def frame_progress_def
            frame_inv_def frame_pending_def)
    next
      case body
      let ?d = "d\<lparr>header := ?h, header_length := 0,
                   expected_payload_length := Some (be_nat ?h), payload := []\<rparr>"
      have eq: "push_header d rest frames = Inr (Inr (?d, ?r, frames))"
        using body len4 hl by (simp add: push_header_def Let_def k FRAME_HEADER_LENGTH_def)
      have "frame_progress d rest frames ?d ?r frames"
        using body lenh lim pend hb
        by (intro frame_progress_same) (simp_all add: frame_inv_def frame_pending_def)
      with eq shrink show ?thesis by simp
    qed
  qed
qed

lemma push_body_step:
  assumes inv: "frame_inv d" and ne: "rest \<noteq> []"
  shows "case push_body d rest frames of
      Inl (d', e) \<Rightarrow> (\<exists>n. e = FrameLengthLimit n (fd_max_frame_length d) \<and>
        split_frames (fd_max_frame_length d) (frame_pending d @ rest) = ([], Inl n)) \<and>
        fd_state d' = StateFailed
    | Inr (d', rest', frames') \<Rightarrow>
        frame_progress d rest frames d' rest' frames' \<and> length rest' < length rest"
proof (cases "expected_payload_length d")
  case (Some n)
  obtain d' rest' frames' where p: "push_payload n d rest frames = (d', rest', frames')"
    by (metis prod_cases3)
  from push_payload_step [OF inv Some p] ne p Some show ?thesis
    by (simp add: push_body_def)
next
  case None
  note h = push_header_step [OF inv None ne, of frames]
  show ?thesis
  proof (cases "push_header d rest frames")
    case (Inl f)
    with h None show ?thesis by (auto simp: push_body_def split: prod.splits)
  next
    case (Inr c)
    show ?thesis
    proof (cases c)
      case (Inl c1)
      with h Inr None show ?thesis by (auto simp: push_body_def split: prod.splits)
    next
      case cc: (Inr c2)
      obtain d1 rest1 frames1 where c2: "c2 = (d1, rest1, frames1)" by (metis prod_cases3)
      from h Inr cc c2 obtain n where prog: "frame_progress d rest frames d1 rest1 frames1"
        and shrink: "length rest1 < length rest" and n: "expected_payload_length d1 = Some n"
        by auto
      obtain d2 rest2 frames2 where p: "push_payload n d1 rest1 frames1 = (d2, rest2, frames2)"
        by (metis prod_cases3)
      have "frame_inv d1" using prog by (simp add: frame_progress_def)
      from push_payload_step [OF this n p]
      have "frame_progress d1 rest1 frames1 d2 rest2 frames2" "length rest2 \<le> length rest1"
        by auto
      with frame_progress_trans [OF prog] shrink Inr cc c2 n p None show ?thesis
        by (auto simp: push_body_def)
    qed
  qed
qed

text \<open>The loop returns, and returns what the reference says.\<close>

lemma push_loop_refines:
  assumes "frame_inv d" and "fd_state d = StateOpen"
  shows "\<exists>d'. push_loop d rest frames =
       Some (d', case split_frames (fd_max_frame_length d) (frame_pending d @ rest) of
                   (fs, Inr p) \<Rightarrow> Inr (frames @ fs)
                 | (fs, Inl n) \<Rightarrow> Inl (FrameLengthLimit n (fd_max_frame_length d))) \<and>
     (case snd (split_frames (fd_max_frame_length d) (frame_pending d @ rest)) of
        Inr p \<Rightarrow> frame_inv d' \<and> fd_state d' = StateOpen \<and>
          fd_max_frame_length d' = fd_max_frame_length d \<and> frame_pending d' = p
      | Inl n \<Rightarrow> fd_state d' = StateFailed)"
  using assms
proof (induction "length rest" arbitrary: d rest frames rule: less_induct)
  case less
  show ?case
  proof (cases "rest = []")
    case True
    with split_frames_pending [OF less.prems(1)] less.prems show ?thesis
      by (simp add: push_loop.simps)
  next
    case ne: False
    note b = push_body_step [OF less.prems(1) ne, of frames]
    show ?thesis
    proof (cases "push_body d rest frames")
      case (Inl f)
      with b ne show ?thesis by (auto simp: push_loop.simps [of d rest] split: prod.splits)
    next
      case (Inr c)
      obtain d1 rest1 frames1 where c: "c = (d1, rest1, frames1)" by (metis prod_cases3)
      from b Inr c obtain gs where inv1: "frame_inv d1"
        and max1: "fd_max_frame_length d1 = fd_max_frame_length d"
        and open1: "fd_state d1 = StateOpen" and f1: "frames1 = frames @ gs"
        and sp: "split_frames (fd_max_frame_length d) (frame_pending d @ rest) =
          (gs @ fst (split_frames (fd_max_frame_length d) (frame_pending d1 @ rest1)),
           snd (split_frames (fd_max_frame_length d) (frame_pending d1 @ rest1)))"
        and shrink: "length rest1 < length rest"
        using less.prems(2) by (auto simp: frame_progress_def)
      have unroll: "push_loop d rest frames = push_loop d1 rest1 frames1"
        using ne Inr c by (simp add: push_loop.simps [of d rest])
      obtain fs t where s1:
        "split_frames (fd_max_frame_length d) (frame_pending d1 @ rest1) = (fs, t)" by fastforce
      from less.hyps [OF shrink inv1 open1, of frames1] show ?thesis
        unfolding unroll sp max1 s1 f1 by (cases t) auto
    qed
  qed
qed

section \<open>The decoder as an incremental decoder\<close>

definition frame_ready :: "nat \<Rightarrow> frame_decoder \<Rightarrow> bool" where
  "frame_ready limit d \<longleftrightarrow>
     frame_inv d \<and> fd_state d = StateOpen \<and> fd_max_frame_length d = limit"

definition frame_split :: "nat \<Rightarrow> byte list \<Rightarrow> byte list list \<times> byte list option" where
  "frame_split limit bs =
     (case split_frames limit bs of (fs, Inr p) \<Rightarrow> (fs, Some p) | (fs, Inl n) \<Rightarrow> (fs, None))"

lemma frame_split_Some_iff:
  "frame_split limit bs = (out, Some rest) \<longleftrightarrow> split_frames limit bs = (out, Inr rest)"
  by (auto simp: frame_split_def split: prod.splits sum.splits)

lemma frame_split_None_iff:
  "frame_split limit bs = (out, None) \<longleftrightarrow> (\<exists>n. split_frames limit bs = (out, Inl n))"
  by (auto simp: frame_split_def split: prod.splits sum.splits)

lemma frame_push_refines:
  assumes "frame_ready limit d"
  shows "\<exists>d'. frame_push d chunk =
       Some (d', case split_frames limit (frame_pending d @ chunk) of
                   (fs, Inr p) \<Rightarrow> Inr fs
                 | (fs, Inl n) \<Rightarrow> Inl (FrameLengthLimit n limit)) \<and>
     (case snd (split_frames limit (frame_pending d @ chunk)) of
        Inr p \<Rightarrow> frame_ready limit d' \<and> frame_pending d' = p
      | Inl n \<Rightarrow> fd_state d' = StateFailed)"
proof -
  have prems: "frame_inv d" "fd_state d = StateOpen" "fd_max_frame_length d = limit"
    using assms by (simp_all add: frame_ready_def)
  from push_loop_refines [OF prems(1,2), of chunk "[]"] show ?thesis
    unfolding prems(3)
    by (cases "snd (split_frames limit (frame_pending d @ chunk))")
      (auto simp: frame_push_def prems frame_ready_def)
qed

interpretation frames: incremental_decoder frame_push "frame_ready limit" frame_pending
  "frame_split limit" for limit
proof (unfold_locales, goal_cases)
  case (1 s c out rest)
  with frame_push_refines [of limit s c] show ?case
    by (auto simp: frame_split_Some_iff)
next
  case (2 s c out)
  with frame_push_refines [of limit s c] show ?case
    by (auto simp: frame_split_None_iff)
next
  case (3 s)
  with split_frames_pending [of s] show ?case
    by (simp add: frame_ready_def frame_split_Some_iff)
next
  case (4 a out rest b out' rest')
  then have "split_frames limit a = (out, Inr rest)" by (simp add: frame_split_Some_iff)
  from split_frames_resume [OF this, of b] 4(2) show ?case
    by (auto simp: frame_split_Some_iff)
next
  case (5 a out rest b)
  then have "split_frames limit a = (out, Inr rest)" by (simp add: frame_split_Some_iff)
  from split_frames_resume [OF this, of b] 5(2) show ?case
    by (auto simp: frame_split_def split: prod.splits sum.splits)
next
  case (6 a out b)
  then obtain n where "split_frames limit a = (out, Inl n)"
    by (auto simp: frame_split_None_iff)
  from split_frames_failed [OF this, of b] show ?case
    by (simp add: frame_split_def)
qed

lemma frame_ready_new:
  "n < 2 ^ 32 \<Longrightarrow> frame_ready n (frame_decoder_with_options (with_max_frame_length n))"
  by (simp add: frame_ready_def frame_inv_new with_max_frame_length_def)
    (simp add: frame_decoder_with_options_def)

lemma frame_pending_new [simp]: "frame_pending (frame_decoder_with_options options) = []"
  by (simp add: frame_pending_def frame_decoder_with_options_def)

lemma encode_frame_Inr_iff:
  "encode_frame p = Inr f \<longleftrightarrow> length p < 2 ^ 32 \<and> f = be_bytes 4 (length p) @ p"
  by (auto simp: encode_frame_def)

lemma split_frames_encoded:
  "\<lbrakk>limit < 2 ^ 32; list_all2 (\<lambda>p f. length p \<le> limit \<and> encode_frame p = Inr f) ps fs\<rbrakk> \<Longrightarrow>
     split_frames limit (concat fs) = (ps, Inr [])"
proof (induction ps arbitrary: fs)
  case Nil
  then show ?case by (simp add: split_frames_short)
next
  case (Cons p ps)
  from Cons.prems(2) obtain f fs' where fs: "fs = f # fs'" "length p \<le> limit"
      "encode_frame p = Inr f"
      "list_all2 (\<lambda>p f. length p \<le> limit \<and> encode_frame p = Inr f) ps fs'"
    by (auto simp: list_all2_Cons1)
  with Cons.IH [OF Cons.prems(1) fs(4)] split_frames_complete [of p limit "concat fs'"]
  show ?case by (auto simp: encode_frame_Inr_iff)
qed

lemma frame_end_ready:
  assumes "frame_ready limit d"
  shows "snd (frame_end d) = (if frame_pending d = [] then Inr () else Inl TruncatedStream)"
proof (cases "expected_payload_length d")
  case None
  with assms show ?thesis
    by (auto simp: frame_ready_def frame_inv_def frame_end_def frame_fail_def frame_pending_def)
next
  case (Some n)
  have "be_bytes 4 n \<noteq> []" by (metis length_be_bytes list.size(3) zero_neq_numeral)
  with Some assms show ?thesis
    by (auto simp: frame_ready_def frame_end_def frame_fail_def frame_pending_def)
qed

lemma split_frames_lengths:
  "split_frames limit bs = (fs, t) \<Longrightarrow> \<forall>f\<in>set fs. length f \<le> limit"
proof (induction limit bs arbitrary: fs t rule: split_frames.induct)
  case (1 limit bs)
  from "1.prems" show ?case
    by (subst (asm) split_frames.simps)
      (auto simp: Let_def split: if_splits prod.splits dest!: "1.IH" [rotated -1])
qed

section \<open>Decoders in use\<close>

text \<open>
  The states of a decoder that a connection can see: created with a \<^verbatim>\<open>u32\<close> limit, then any
  sequence of \<open>push\<close> and \<open>end\<close> calls, whatever they return.
\<close>

inductive frame_reachable :: "nat \<Rightarrow> frame_decoder \<Rightarrow> bool" for limit where
  fr_new: "frame_reachable limit (frame_decoder_with_options (with_max_frame_length limit))"
| fr_push: "\<lbrakk>frame_reachable limit d; frame_push d chunk = Some (d', r)\<rbrakk> \<Longrightarrow>
    frame_reachable limit d'"
| fr_end: "\<lbrakk>frame_reachable limit d; frame_end d = (d', r)\<rbrakk> \<Longrightarrow> frame_reachable limit d'"

lemma frame_reachable_ready:
  assumes "frame_reachable limit d" and "limit < 2 ^ 32"
  shows "fd_state d = StateOpen \<longrightarrow> frame_ready limit d"
  using assms
proof (induction rule: frame_reachable.induct)
  case fr_new
  then show ?case by (simp add: frame_ready_new)
next
  case (fr_push d chunk d' r)
  show ?case
  proof (cases "fd_state d = StateOpen")
    case True
    with fr_push have "frame_ready limit d" by simp
    from frame_push_refines [OF this, of chunk] fr_push.hyps(2) show ?thesis
      by (auto split: sum.splits)
  next
    case False
    with fr_push.hyps(2) show ?thesis
      by (cases "fd_state d") (auto simp: frame_push_def)
  qed
next
  case (fr_end d d' r)
  then show ?case
    by (cases "fd_state d") (auto simp: frame_end_def frame_fail_def split: if_splits)
qed

lemma frame_push_lengths:
  assumes "frame_ready limit d" and "frame_push d chunk = Some (d', Inr fs)"
  shows "\<forall>f\<in>set fs. length f \<le> limit"
proof -
  obtain gs t where sp: "split_frames limit (frame_pending d @ chunk) = (gs, t)" by fastforce
  from frame_push_refines [OF assms(1), of chunk] assms(2) sp have "gs = fs"
    by (cases t) auto
  with split_frames_lengths [OF sp] show ?thesis by simp
qed

lemma split_frames_limit: "split_frames limit bs = (fs, Inl n) \<Longrightarrow> limit < n"
proof (induction limit bs arbitrary: fs rule: split_frames.induct)
  case (1 limit bs)
  from "1.prems" show ?case
    by (subst (asm) split_frames.simps)
      (auto simp: Let_def split: if_splits prod.splits dest!: "1.IH" [rotated -1])
qed

text \<open>The header buffer keeps its size on every path, and a failure empties the other one.\<close>

definition header_fits :: "frame_decoder \<Rightarrow> bool" where
  "header_fits d \<longleftrightarrow> length (header d) = 4 \<and> header_length d < 4"

lemma push_body_fits:
  assumes "header_fits d"
  shows "push_body d rest frames = Inl (d', e) \<Longrightarrow> header_fits d' \<and> payload d' = []"
    and "push_body d rest frames = Inr (d', rest', frames') \<Longrightarrow> header_fits d'"
  using assms
  by (auto simp: push_body_def push_header_def push_payload_def frame_fail_def header_fits_def
      FRAME_HEADER_LENGTH_def Let_def split: option.splits if_splits)

lemma push_loop_fits:
  assumes "push_loop d rest frames = Some dr" and "header_fits d"
  shows "header_fits (fst dr) \<and> (\<forall>e. snd dr = Inl e \<longrightarrow> payload (fst dr) = [])"
proof -
  have "header_fits d \<longrightarrow> header_fits (fst dr) \<and> (\<forall>e. snd dr = Inl e \<longrightarrow> payload (fst dr) = [])"
  proof (rule push_loop.raw_induct [OF _ assms(1)])
    fix loop and d :: frame_decoder and rest :: "byte list" and frames :: "byte list list"
      and dr :: "frame_decoder \<times> (frame_error + byte list list)"
    assume IH: "\<And>d rest frames dr. loop d rest frames = Some dr \<Longrightarrow>
        header_fits d \<longrightarrow> header_fits (fst dr) \<and> (\<forall>e. snd dr = Inl e \<longrightarrow> payload (fst dr) = [])"
      and step: "(if rest = [] then Some (d, Inr frames)
        else case push_body d rest frames of
             Inl (d', e) \<Rightarrow> Some (d', Inl e)
           | Inr (d', rest', frames') \<Rightarrow> loop d' rest' frames') = Some dr"
    show "header_fits d \<longrightarrow> header_fits (fst dr) \<and> (\<forall>e. snd dr = Inl e \<longrightarrow> payload (fst dr) = [])"
    proof (intro impI)
      assume fits: "header_fits d"
      consider (finished) "rest = []" | (failed) d' e where "rest \<noteq> []" "push_body d rest frames = Inl (d', e)"
        | (more) d' rest' frames' where "rest \<noteq> []" "push_body d rest frames = Inr (d', rest', frames')"
        by (metis prod.exhaust sum.exhaust)
      then show "header_fits (fst dr) \<and> (\<forall>e. snd dr = Inl e \<longrightarrow> payload (fst dr) = [])"
      proof cases
        case finished
        with step fits show ?thesis by auto
      next
        case failed
        with step push_body_fits(1) [OF fits failed(2)] show ?thesis by auto
      next
        case more
        with step have "loop d' rest' frames' = Some dr" by simp
        from IH [OF this] push_body_fits(2) [OF fits more(2)] show ?thesis by simp
      qed
    qed
  qed
  with assms(2) show ?thesis by simp
qed

lemma frame_reachable_fits:
  assumes "frame_reachable limit d" and "limit < 2 ^ 32"
  shows "header_fits d \<and> length (payload d) \<le> limit"
  using assms
proof (induction rule: frame_reachable.induct)
  case fr_new
  show ?case by (simp add: header_fits_def frame_decoder_with_options_def FRAME_HEADER_LENGTH_def)
next
  case (fr_push d chunk d' r)
  have "frame_reachable limit d'" using fr_push.hyps by (rule frame_reachable.fr_push)
  note open' = frame_reachable_ready [OF this fr_push.prems]
  show ?case
  proof (cases "fd_state d")
    case StateOpen
    then have ready: "frame_ready limit d" using frame_reachable_ready fr_push by blast
    from StateOpen fr_push.hyps(2) push_loop_fits [of d chunk "[]" "(d', r)"] fr_push.IH fr_push.prems
    have fits: "header_fits d'" "\<forall>e. r = Inl e \<longrightarrow> payload d' = []" by (auto simp: frame_push_def)
    from frame_push_refines [OF ready, of chunk] fr_push.hyps(2)
    have "(\<exists>e. r = Inl e) \<or> frame_ready limit d'" by (auto split: sum.splits prod.splits)
    then have "length (payload d') \<le> limit"
      using fits(2) by (auto simp: frame_ready_def frame_inv_def split: option.splits)
    with fits show ?thesis by simp
  qed (use fr_push in \<open>auto simp: frame_push_def\<close>)
next
  case (fr_end d d' r)
  then show ?case
    by (cases "fd_state d") (auto simp: frame_end_def frame_fail_def header_fits_def split: if_splits)
qed

section \<open>Properties\<close>

text \<open>
  C22. Framing round trip: whatever payloads are framed by \<open>encode_frame\<close> (none above the
  decoder's limit) and however the resulting byte stream is cut into chunks, a fresh decoder
  returns exactly these payloads in order, and \<open>end\<close> then succeeds.
\<close>

theorem frame_stream_roundtrip:
  assumes "limit < 2 ^ 32"
    and "list_all2 (\<lambda>p f. length p \<le> limit \<and> encode_frame p = Inr f) ps fs"
    and "concat chunks = concat fs"
  shows "\<exists>d. push_all frame_push
           (frame_decoder_with_options (with_max_frame_length limit)) chunks = Some (d, Inr ps) \<and>
         snd (frame_end d) = Inr ()"
proof -
  have "frame_split limit (concat chunks) = (ps, Some [])"
    using split_frames_encoded [OF assms(1,2)] assms(3) by (simp add: frame_split_Some_iff)
  with frames.push_all_ok [OF frame_ready_new [OF assms(1)], of chunks ps "[]"]
  show ?thesis by (auto simp: frame_end_ready)
qed

theorem frame_stream_roundtrip_witness:
  "\<exists>d. push_all frame_push (frame_decoder_with_options (with_max_frame_length 16))
         [[0, 0], [0, 2, 7], [8, 0, 0, 0, 0, 0, 0, 0, 1, 9]] = Some (d, Inr [[7, 8], [], [9]]) \<and>
       snd (frame_end d) = Inr ()"
  by (rule frame_stream_roundtrip
      [where fs = "[[0, 0, 0, 2, 7, 8], [0, 0, 0, 0], [0, 0, 0, 1, 9]]"])
    (simp_all add: encode_frame_def be_bytes_numeral)

text \<open>
  The chunk boundaries of the transport do not matter: if feeding a fresh decoder one
  cutting of a byte stream succeeds, every other cutting of the same stream succeeds with the
  same payloads, and \<open>end\<close> gives the same verdict.
\<close>

theorem frame_chunking_independent:
  assumes "limit < 2 ^ 32" and "concat cs = concat ds"
    and "push_all frame_push (frame_decoder_with_options (with_max_frame_length limit)) cs =
           Some (d, Inr fs)"
  shows "\<exists>d'. push_all frame_push
           (frame_decoder_with_options (with_max_frame_length limit)) ds = Some (d', Inr fs) \<and>
         snd (frame_end d') = snd (frame_end d)"
proof -
  let ?d0 = "frame_decoder_with_options (with_max_frame_length limit)"
  note ready = frame_ready_new [OF assms(1)]
  have some: "\<exists>s. push_all frame_push ?d0 es = Some (s, Inr fs) \<and> frame_ready limit s \<and>
      frame_pending s = frame_pending d" if "concat es = concat cs" for es
  proof (cases "snd (frame_split limit (concat cs))")
    case None
    with frames.push_all_error [OF ready, of cs] assms(3) show ?thesis by auto
  next
    case (Some rest)
    then obtain o1 where sp: "frame_split limit (concat cs) = (o1, Some rest)"
      by (metis prod.collapse)
    from frames.push_all_ok [OF ready, of cs o1 rest] sp assms(3)
    have "o1 = fs" "frame_pending d = rest" by auto
    with frames.push_all_ok [OF ready, of es o1 rest] sp that show ?thesis by auto
  qed
  from some [of cs] assms(3) have "frame_ready limit d" by auto
  with some [of ds] assms(2) show ?thesis by (auto simp: frame_end_ready)
qed

theorem frame_chunking_independent_witness:
  "\<exists>d'. push_all frame_push (frame_decoder_with_options (with_max_frame_length 16))
          [[0, 0, 0, 1, 5, 0]] = Some (d', Inr [[5]]) \<and>
        snd (frame_end d') = Inl TruncatedStream"
proof -
  let ?d = "frame_decoder_with_options (with_max_frame_length 16)"
  have run: "push_all frame_push ?d [[0], [0, 0, 1], [5, 0]] =
      Some (?d\<lparr>header := [0, 0, 0, 1], header_length := 1\<rparr>, Inr [[5]])"
    by (simp add: frame_decoder_with_options_def with_max_frame_length_def frame_push_def
        push_loop.simps push_body_def push_header_def push_payload_def Let_def be_nat_def
        FRAME_HEADER_LENGTH_def)
  show ?thesis
    using frame_chunking_independent [of 16 "[[0], [0, 0, 1], [5, 0]]" "[[0, 0, 0, 1, 5, 0]]",
        OF _ _ run]
    by (simp add: frame_end_def frame_fail_def frame_decoder_with_options_def)
qed

text \<open>
  C23. Safety of the decoder against a hostile peer, in every state a connection can bring it to: the
  header buffer holds four bytes and the payload buffer never more than the limit; \<open>push\<close> returns (the
  loop ends), and either leaves the decoder open, handing out payloads within the limit, or reports a
  header that announces too much and leaves the decoder failed; \<open>end\<close> closes the decoder, successfully
  exactly when no frame is unfinished, and otherwise reports the truncation and leaves it failed. A
  decoder that has failed or ended answers every later \<open>push\<close> and \<open>end\<close> with \<open>Failed\<close> or \<open>Ended\<close> and
  stays as it is.
\<close>

theorem frame_push_safe:
  assumes "frame_reachable limit d" and "limit < 2 ^ 32"
  shows "length (header d) = 4 \<and> header_length d < 4 \<and> length (payload d) \<le> limit \<and>
    (\<exists>d' r. frame_push d chunk = Some (d', r) \<and>
      (\<forall>fs. r = Inr fs \<longrightarrow> fd_state d' = StateOpen \<and> (\<forall>f\<in>set fs. length f \<le> limit)) \<and>
      (\<forall>e. fd_state d = StateOpen \<and> r = Inl e \<longrightarrow>
         fd_state d' = StateFailed \<and> (\<exists>n. n > limit \<and> e = FrameLengthLimit n limit)) \<and>
      (fd_state d = StateFailed \<longrightarrow> d' = d \<and> r = Inl Failed) \<and>
      (fd_state d = StateEnded \<longrightarrow> d' = d \<and> r = Inl Ended)) \<and>
    (\<exists>d' r. frame_end d = (d', r) \<and>
      (fd_state d = StateOpen \<longrightarrow>
         (if frame_pending d = [] then r = Inr () \<and> fd_state d' = StateEnded
          else r = Inl TruncatedStream \<and> fd_state d' = StateFailed)) \<and>
      (fd_state d = StateFailed \<longrightarrow> d' = d \<and> r = Inl Failed) \<and>
      (fd_state d = StateEnded \<longrightarrow> d' = d \<and> r = Inl Ended))"
proof -
  have buffers: "length (header d) = 4" "header_length d < 4" "length (payload d) \<le> limit"
    using frame_reachable_fits [OF assms] by (simp_all add: header_fits_def)
  show ?thesis
  proof (cases "fd_state d")
    case StateOpen
    with frame_reachable_ready [OF assms] have ready: "frame_ready limit d" by simp
    from frame_push_refines [OF this, of chunk] obtain d' r
      where push: "frame_push d chunk = Some (d', r)"
        and open': "\<And>fs. r = Inr fs \<Longrightarrow> fd_state d' = StateOpen"
        and failed: "\<And>e. r = Inl e \<Longrightarrow> fd_state d' = StateFailed \<and> (\<exists>n. n > limit \<and> e = FrameLengthLimit n limit)"
      using split_frames_limit [of limit "frame_pending d @ chunk"]
      by (auto simp: frame_ready_def split: sum.splits prod.splits)
    have "snd (frame_end d) = (if frame_pending d = [] then Inr () else Inl TruncatedStream)"
      by (rule frame_end_ready [OF ready])
    then have "if frame_pending d = [] then snd (frame_end d) = Inr () \<and> fd_state (fst (frame_end d)) = StateEnded
        else snd (frame_end d) = Inl TruncatedStream \<and> fd_state (fst (frame_end d)) = StateFailed"
      using StateOpen by (auto simp: frame_end_def frame_fail_def split: if_splits)
    then obtain d2 r2 where "frame_end d = (d2, r2)" "if frame_pending d = [] then r2 = Inr () \<and> fd_state d2 = StateEnded
        else r2 = Inl TruncatedStream \<and> fd_state d2 = StateFailed"
      by (metis prod.collapse)
    with buffers push open' failed frame_push_lengths [OF ready] StateOpen show ?thesis by auto
  qed (use buffers in \<open>simp_all add: frame_push_def frame_end_def\<close>)
qed

theorem frame_push_safe_witness:
  "\<exists>d d'. frame_push (frame_decoder_with_options (with_max_frame_length 3)) [0, 0, 0, 4] =
       Some (d, Inl (FrameLengthLimit 4 3)) \<and> fd_state d = StateFailed \<and>
     frame_end d = (d', Inl Failed) \<and> length (header d) = 4"
proof -
  let ?d = "frame_decoder_with_options (with_max_frame_length 3)"
  have push: "frame_push ?d [0, 0, 0, 4] = Some (fst (frame_fail (?d\<lparr>header := [0, 0, 0, 4]\<rparr>) Failed), Inl (FrameLengthLimit 4 3))"
    by (simp add: frame_decoder_with_options_def with_max_frame_length_def frame_push_def
        push_loop.simps push_body_def push_header_def Let_def be_nat_def FRAME_HEADER_LENGTH_def frame_fail_def)
  have reach: "frame_reachable 3 (fst (frame_fail (?d\<lparr>header := [0, 0, 0, 4]\<rparr>) Failed))"
    by (rule frame_reachable.fr_push [OF frame_reachable.fr_new push])
  from frame_push_safe [OF reach, of "[]"] push show ?thesis
    by (auto simp: frame_fail_def)
qed

text \<open>
  The encoder's own check and the decoder agree on what a frame is:
  \<open>assert_complete_frame\<close> accepts exactly the byte strings that \<open>encode_frame\<close> makes of a payload
  within the limit.
\<close>

theorem assert_complete_frame_iff:
  assumes "max_frame_length options < 2 ^ 32"
  shows "assert_complete_frame frame options = Inr () \<longleftrightarrow>
    (\<exists>p. encode_frame p = Inr frame \<and> length p \<le> max_frame_length options)"
proof
  assume ok: "assert_complete_frame frame options = Inr ()"
  then have len: "length frame \<ge> 4"
    by (auto simp: assert_complete_frame_def FRAME_HEADER_LENGTH_def split: if_splits)
  then obtain a b c d p where f: "frame = a # b # c # d # p"
    by (auto simp: numeral_eq_Suc Suc_le_length_iff)
  with ok have "be_nat [a, b, c, d] = length p" "length p \<le> max_frame_length options"
    by (auto simp: assert_complete_frame_def FRAME_HEADER_LENGTH_def Let_def split: if_splits)
  moreover have "be_bytes 4 (be_nat [a, b, c, d]) = [a, b, c, d]"
    using be_bytes_be_nat [of "[a, b, c, d]"] by (simp add: be_bytes_numeral)
  ultimately show "\<exists>p. encode_frame p = Inr frame \<and> length p \<le> max_frame_length options"
    using assms f by (intro exI [of _ p]) (simp add: encode_frame_Inr_iff del: be_bytes.simps)
next
  assume "\<exists>p. encode_frame p = Inr frame \<and> length p \<le> max_frame_length options"
  then obtain p where p: "length p < 2 ^ 32" "frame = be_bytes 4 (length p) @ p"
      "length p \<le> max_frame_length options"
    by (auto simp: encode_frame_Inr_iff)
  have "[frame ! 0, frame ! 1, frame ! 2, frame ! 3] = be_bytes 4 (length p)"
    using p(2) by (simp add: be_bytes_numeral)
  then show "assert_complete_frame frame options = Inr ()"
    using p be_nat_be_bytes_less [of "length p" 4]
    by (simp add: assert_complete_frame_def FRAME_HEADER_LENGTH_def)
qed

theorem assert_complete_frame_iff_witness:
  "assert_complete_frame [0, 0, 0, 1, 42] (with_max_frame_length 8) = Inr () \<longleftrightarrow>
    (\<exists>p. encode_frame p = Inr [0, 0, 0, 1, 42] \<and>
         length p \<le> max_frame_length (with_max_frame_length 8))"
  by (rule assert_complete_frame_iff) (simp add: with_max_frame_length_def)

end
