(* ===== verification/Float64.thy ===== *)
theory Float64
  imports Prelude
begin

text \<open>
  Rust's \<^verbatim>\<open>f64\<close> as its IEEE 754 bit pattern, a \<open>64 word\<close>. The value of a finite pattern is a whole
  number of units of \<open>2 ^ -1074\<close> (the smallest subnormal), so \<open>f64_mag\<close> gives its magnitude
  exactly as a natural number of such units and every test of the code (\<^verbatim>\<open>is_finite\<close>,
  \<^verbatim>\<open>fract() == 0.0\<close>, comparisons) is exact integer arithmetic. Rounding to nearest, ties to even,
  is \<open>f64_of_mag\<close>; addition and the conversion from integers go through it.
\<close>

type_synonym f64 = "64 word"

definition f64_sign :: "f64 \<Rightarrow> bool" where
  "f64_sign v \<longleftrightarrow> 2 ^ 63 \<le> unat v"

definition f64_exp :: "f64 \<Rightarrow> nat" where
  "f64_exp v = unat v div 2 ^ 52 mod 2 ^ 11"

definition f64_frac :: "f64 \<Rightarrow> nat" where
  "f64_frac v = unat v mod 2 ^ 52"

definition f64_is_finite :: "f64 \<Rightarrow> bool" where
  "f64_is_finite v \<longleftrightarrow> f64_exp v \<noteq> 2047"

definition f64_is_nan :: "f64 \<Rightarrow> bool" where
  "f64_is_nan v \<longleftrightarrow> f64_exp v = 2047 \<and> f64_frac v \<noteq> 0"

definition f64_unit :: nat where
  "f64_unit = 2 ^ 1074"

definition f64_mag :: "f64 \<Rightarrow> nat" where
  "f64_mag v =
     (if f64_exp v = 0 then f64_frac v
      else (2 ^ 52 + f64_frac v) * 2 ^ (f64_exp v - 1))"

definition f64_units :: "f64 \<Rightarrow> int" where
  "f64_units v = (if f64_sign v then - int (f64_mag v) else int (f64_mag v))"

definition f64_nan :: f64 where
  "f64_nan = word_of_nat (2047 * 2 ^ 52 + 2 ^ 51)"

fun bit_length :: "nat \<Rightarrow> nat" where
  "bit_length n = (if n = 0 then 0 else Suc (bit_length (n div 2)))"

declare bit_length.simps [simp del]

definition round_half_even :: "nat \<Rightarrow> nat \<Rightarrow> nat" where
  "round_half_even m k =
     (let q = m div 2 ^ k; r = m mod 2 ^ k in
      if 2 * r > 2 ^ k \<or> (2 * r = 2 ^ k \<and> odd q) then Suc q else q)"

definition f64_mag_bits :: "nat \<Rightarrow> nat" where
  "f64_mag_bits m =
     (if m < 2 ^ 53 then m
      else let k = bit_length m - 53 in min (k * 2 ^ 52 + round_half_even m k) (2047 * 2 ^ 52))"

definition f64_of_mag :: "bool \<Rightarrow> nat \<Rightarrow> f64" where
  "f64_of_mag neg m = word_of_nat ((if neg then 2 ^ 63 else 0) + f64_mag_bits m)"

definition f64_of_nat :: "nat \<Rightarrow> f64" where
  "f64_of_nat n = f64_of_mag False (n * f64_unit)"

definition f64_add :: "f64 \<Rightarrow> f64 \<Rightarrow> f64" where
  "f64_add x y =
     (if f64_is_nan x \<or> f64_is_nan y then f64_nan
      else if \<not> f64_is_finite x then
        (if \<not> f64_is_finite y \<and> f64_sign x \<noteq> f64_sign y then f64_nan else x)
      else if \<not> f64_is_finite y then y
      else let s = f64_units x + f64_units y in
        if s = 0 then f64_of_mag (f64_sign x \<and> f64_sign y) 0
        else f64_of_mag (s < 0) (nat \<bar>s\<bar>))"

text \<open>Multiplication: the exact product counts units of \<open>2 ^ -2148\<close> and is rounded once.\<close>

definition f64_product_bits :: "nat \<Rightarrow> nat" where
  "f64_product_bits m =
     (if m < 2 ^ 1127 then round_half_even m 1074
      else let k = bit_length m - 53
           in min ((k - 1074) * 2 ^ 52 + round_half_even m k) (2047 * 2 ^ 52))"

definition f64_mul :: "f64 \<Rightarrow> f64 \<Rightarrow> f64" where
  "f64_mul x y =
     (let sign = (if f64_sign x \<noteq> f64_sign y then 2 ^ 63 else 0) in
      if f64_is_nan x \<or> f64_is_nan y then f64_nan
      else if \<not> f64_is_finite x \<or> \<not> f64_is_finite y then
        (if f64_mag x = 0 \<or> f64_mag y = 0 then f64_nan else word_of_nat (sign + 2047 * 2 ^ 52))
      else word_of_nat (sign + f64_product_bits (f64_mag x * f64_mag y)))"

definition f64_of_int :: "int \<Rightarrow> f64" where
  "f64_of_int i = f64_of_mag (i < 0) (nat \<bar>i\<bar> * f64_unit)"

text \<open>\<^verbatim>\<open>x.floor() as i64\<close>, saturating, and \<^verbatim>\<open>x < y\<close>.\<close>

definition f64_floor_i64 :: "f64 \<Rightarrow> int" where
  "f64_floor_i64 v =
     (if f64_is_nan v then 0
      else max (- (2 ^ 63)) (min (2 ^ 63 - 1) (f64_units v div int f64_unit)))"

definition f64_less :: "f64 \<Rightarrow> f64 \<Rightarrow> bool" where
  "f64_less x y \<longleftrightarrow> \<not> f64_is_nan x \<and> \<not> f64_is_nan y \<and> f64_units x < f64_units y"

section \<open>Lemmas\<close>

lemma unat_f64_less: "unat (v :: f64) < 2 ^ 64"
  using unsigned_less [of v, where ?'a = nat] by simp

lemma bit_length_bounds: "0 < n \<Longrightarrow> 2 ^ (bit_length n - 1) \<le> n \<and> n < 2 ^ bit_length n"
proof (induction n rule: bit_length.induct)
  case (1 n)
  show ?case
  proof (cases "n = 1")
    case True
    then show ?thesis by (simp add: bit_length.simps)
  next
    case False
    with "1.prems" have half: "0 < n div 2" by simp
    with "1.IH" "1.prems" have IH: "2 ^ (bit_length (n div 2) - 1) \<le> n div 2"
        "n div 2 < 2 ^ bit_length (n div 2)" by auto
    have bl: "bit_length n = Suc (bit_length (n div 2))"
      using "1.prems" by (subst bit_length.simps) simp
    have "bit_length (n div 2) = Suc (bit_length (n div 2) - 1)"
      using half by (subst bit_length.simps) (simp add: bit_length.simps [of "n div 2"])
    then have "2 ^ bit_length (n div 2) = 2 * (2 :: nat) ^ (bit_length (n div 2) - 1)"
      by (metis power_Suc)
    with IH have "2 ^ bit_length (n div 2) \<le> n" "n < 2 * 2 ^ bit_length (n div 2)" by linarith+
    with bl show ?thesis by simp
  qed
qed

lemma bit_length_ge: "2 ^ k \<le> n \<Longrightarrow> Suc k \<le> bit_length n"
proof (rule ccontr)
  assume a: "2 ^ k \<le> n" "\<not> Suc k \<le> bit_length n"
  have "0 < n" using a(1) by (metis gr0I le_zero_eq power_not_zero zero_neq_numeral)
  with bit_length_bounds have "n < 2 ^ bit_length n" by simp
  also have "\<dots> \<le> 2 ^ k" using a(2) by (intro power_increasing) auto
  finally show False using a(1) by simp
qed

lemma round_half_even_ge: "m div 2 ^ k \<le> round_half_even m k"
  by (simp add: round_half_even_def Let_def)

text \<open>The value of a rounded magnitude that does not overflow.\<close>

lemma f64_fields:
  assumes "b < 2 ^ 63"
  shows "f64_exp (word_of_nat b) = b div 2 ^ 52" and "f64_frac (word_of_nat b) = b mod 2 ^ 52"
    and "\<not> f64_sign (word_of_nat b)"
proof -
  have u: "unat (word_of_nat b :: f64) = b"
    using assms by (simp add: unat_of_nat)
  have "b div 2 ^ 52 < 2 ^ 11"
    using assms by (simp add: div_less_iff_less_mult)
  with u show "f64_exp (word_of_nat b) = b div 2 ^ 52" by (simp add: f64_exp_def)
  from u show "f64_frac (word_of_nat b) = b mod 2 ^ 52" by (simp add: f64_frac_def)
  from u assms show "\<not> f64_sign (word_of_nat b)" by (simp add: f64_sign_def)
qed

end
