(* ===== verification/Cbor_Value.thy ===== *)
theory Cbor_Value
  imports Float64
begin

text \<open>
  The value model, the limits and the errors of the CBOR subset:
  \<^verbatim>\<open>pi-rs/crates/pi-protocol/src/cbor/options.rs\<close> and \<^verbatim>\<open>value.rs\<close>. A \<^verbatim>\<open>CborMap\<close> is an \<^verbatim>\<open>IndexMap\<close>,
  an association list in insertion order whose keys are distinct; \<open>cbor_wf\<close> states that and
  that text is UTF-8, which Rust's types guarantee. JSON values (\<^verbatim>\<open>serde_json::Value\<close>, with the
  \<^verbatim>\<open>preserve_order\<close> map) are the type \<open>json\<close>; a \<^verbatim>\<open>serde_json::Number\<close> is a non-negative integer, a
  negative integer or a finite float.
\<close>

section \<open>Limits and errors\<close>

definition UINT32_BASE :: nat where
  "UINT32_BASE = 2 ^ 32"

definition MAX_UINT32 :: nat where
  "MAX_UINT32 = 2 ^ 32 - 1"

definition MAX_CONFIGURED_DEPTH :: nat where
  "MAX_CONFIGURED_DEPTH = 512"

definition MAX_SAFE_INTEGER :: int where
  "MAX_SAFE_INTEGER = 9007199254740991"

definition MIN_SAFE_INTEGER :: int where
  "MIN_SAFE_INTEGER = -9007199254740991"

datatype cbor_item_kind = ByteString | TextString | ArrayItem | MapItem

fun cbor_item_kind_str :: "cbor_item_kind \<Rightarrow> string" where
  "cbor_item_kind_str ByteString = ''byte string''"
| "cbor_item_kind_str TextString = ''text string''"
| "cbor_item_kind_str ArrayItem = ''array''"
| "cbor_item_kind_str MapItem = ''map''"

record cbor_options =
  max_byte_length :: nat
  max_container_length :: nat
  max_depth :: nat

definition default_cbor_options :: cbor_options where
  "default_cbor_options =
     \<lparr>max_byte_length = 16 * 1024 * 1024, max_container_length = 1000000, max_depth = 64\<rparr>"

definition with_max_byte_length :: "nat \<Rightarrow> cbor_options \<Rightarrow> cbor_options" where
  "with_max_byte_length n options = options\<lparr>max_byte_length := n\<rparr>"

definition with_max_container_length :: "nat \<Rightarrow> cbor_options \<Rightarrow> cbor_options" where
  "with_max_container_length n options = options\<lparr>max_container_length := n\<rparr>"

definition with_max_depth :: "nat \<Rightarrow> cbor_options \<Rightarrow> cbor_options" where
  "with_max_depth n options = options\<lparr>max_depth := n\<rparr>"

datatype cbor_error =
    ByteLengthLimit nat
  | LengthLimit cbor_item_kind nat
  | DepthLimit nat
  | NonFiniteNumber
  | UnsafeInteger
  | TrailingData
  | Truncated
  | DecodedUnsafeInteger
  | DecodedUnsafeArgument
  | DecodedNonFiniteNumber
  | InvalidUtf8
  | TagsUnsupported
  | BreakUnsupported
  | UnsupportedSimpleValue
  | IndefiniteLength cbor_item_kind
  | IndefiniteItem
  | MalformedAdditionalInformation
  | NonStringMapKey
  | DuplicateMapKey
  | InvalidLimit string nat

fun cbor_error_code :: "cbor_error \<Rightarrow> string" where
  "cbor_error_code (ByteLengthLimit _) = ''cbor_byte_length_limit''"
| "cbor_error_code (LengthLimit _ _) = ''cbor_length_limit''"
| "cbor_error_code (DepthLimit _) = ''cbor_depth_limit''"
| "cbor_error_code NonFiniteNumber = ''cbor_non_finite_number''"
| "cbor_error_code UnsafeInteger = ''cbor_unsafe_integer''"
| "cbor_error_code TrailingData = ''cbor_trailing_data''"
| "cbor_error_code Truncated = ''cbor_truncated''"
| "cbor_error_code DecodedUnsafeInteger = ''cbor_decoded_unsafe_integer''"
| "cbor_error_code DecodedUnsafeArgument = ''cbor_decoded_unsafe_argument''"
| "cbor_error_code DecodedNonFiniteNumber = ''cbor_decoded_non_finite_number''"
| "cbor_error_code InvalidUtf8 = ''cbor_invalid_utf8''"
| "cbor_error_code TagsUnsupported = ''cbor_tags_unsupported''"
| "cbor_error_code BreakUnsupported = ''cbor_break_unsupported''"
| "cbor_error_code UnsupportedSimpleValue = ''cbor_unsupported_simple_value''"
| "cbor_error_code (IndefiniteLength _) = ''cbor_indefinite_length''"
| "cbor_error_code IndefiniteItem = ''cbor_indefinite_item''"
| "cbor_error_code MalformedAdditionalInformation = ''cbor_malformed_additional_information''"
| "cbor_error_code NonStringMapKey = ''cbor_non_string_map_key''"
| "cbor_error_code DuplicateMapKey = ''cbor_duplicate_map_key''"
| "cbor_error_code (InvalidLimit _ _) = ''cbor_invalid_limit''"

definition resolve :: "cbor_options \<Rightarrow> cbor_error + cbor_options" where
  "resolve options =
     (if max_depth options > MAX_CONFIGURED_DEPTH
      then Inl (InvalidLimit ''max_depth'' MAX_CONFIGURED_DEPTH)
      else Inr options)"

definition is_safe_integer :: "int \<Rightarrow> bool" where
  "is_safe_integer value \<longleftrightarrow> MIN_SAFE_INTEGER \<le> value \<and> value \<le> MAX_SAFE_INTEGER"

section \<open>Values\<close>

datatype cbor_value =
    CNull
  | CBool bool
  | CInteger int
  | CFloat f64
  | CText string
  | CBytes "byte list"
  | CArray "cbor_value list"
  | CMap "(string \<times> cbor_value) list"

type_synonym cbor_map = "(string \<times> cbor_value) list"

datatype json_number = PosInt nat | NegInt int | JFloat f64

datatype json =
    JNull
  | JBool bool
  | JNumber json_number
  | JString string
  | JArray "json list"
  | JObject "(string \<times> json) list"

fun as_bool :: "cbor_value \<Rightarrow> bool option" where
  "as_bool (CBool value) = Some value"
| "as_bool _ = None"

fun as_integer :: "cbor_value \<Rightarrow> int option" where
  "as_integer (CInteger value) = Some value"
| "as_integer _ = None"

fun as_text :: "cbor_value \<Rightarrow> string option" where
  "as_text (CText value) = Some value"
| "as_text _ = None"

fun as_byte_string :: "cbor_value \<Rightarrow> byte list option" where
  "as_byte_string (CBytes value) = Some value"
| "as_byte_string _ = None"

fun as_array :: "cbor_value \<Rightarrow> cbor_value list option" where
  "as_array (CArray value) = Some value"
| "as_array _ = None"

fun as_map :: "cbor_value \<Rightarrow> cbor_map option" where
  "as_map (CMap value) = Some value"
| "as_map _ = None"

fun contains_bytes :: "cbor_value \<Rightarrow> bool" where
  "contains_bytes (CBytes _) = True"
| "contains_bytes (CArray items) = list_ex contains_bytes items"
| "contains_bytes (CMap entries) = list_ex (\<lambda>(key, value). contains_bytes value) entries"
| "contains_bytes _ = False"

definition is_integral_float :: "f64 \<Rightarrow> bool" where
  "is_integral_float value \<longleftrightarrow> f64_is_finite value \<and> f64_unit dvd f64_mag value"

definition is_negative_zero :: "f64 \<Rightarrow> bool" where
  "is_negative_zero value \<longleftrightarrow> f64_mag value = 0 \<and> f64_sign value"

definition is_safe_integral_float :: "f64 \<Rightarrow> bool" where
  "is_safe_integral_float value \<longleftrightarrow>
     is_integral_float value \<and> f64_mag value \<le> nat MAX_SAFE_INTEGER * f64_unit"

text \<open>\<^verbatim>\<open>value as i64\<close> on a float with no fractional part inside the safe range.\<close>

definition f64_as_i64 :: "f64 \<Rightarrow> int" where
  "f64_as_i64 value =
     (let n = int (f64_mag value div f64_unit) in if f64_sign value then - n else n)"

text \<open>\<^verbatim>\<open>Number::as_i64\<close>, \<^verbatim>\<open>as_u64\<close>, and \<^verbatim>\<open>as_f64\<close> of a number that is neither.\<close>

fun number_as_i64 :: "json_number \<Rightarrow> int option" where
  "number_as_i64 (PosInt n) = (if n < 2 ^ 63 then Some (int n) else None)"
| "number_as_i64 (NegInt i) = Some i"
| "number_as_i64 (JFloat _) = None"

fun number_as_u64 :: "json_number \<Rightarrow> nat option" where
  "number_as_u64 (PosInt n) = Some n"
| "number_as_u64 _ = None"

fun number_as_f64 :: "json_number \<Rightarrow> f64" where
  "number_as_f64 (JFloat v) = v"
| "number_as_f64 (PosInt n) = f64_of_nat n"
| "number_as_f64 (NegInt i) = f64_of_mag True (nat (- i) * f64_unit)"

definition number_from_i64 :: "int \<Rightarrow> json_number" where
  "number_from_i64 i = (if i < 0 then NegInt i else PosInt (nat i))"

definition number_to_cbor :: "json_number \<Rightarrow> cbor_value" where
  "number_to_cbor number =
     (case number_as_i64 number of
        Some value \<Rightarrow> CInteger value
      | None \<Rightarrow>
          (case number_as_u64 number of
             Some value \<Rightarrow> CFloat (f64_of_nat value)
           | None \<Rightarrow> CFloat (number_as_f64 number)))"

fun from_json :: "json \<Rightarrow> cbor_value" where
  "from_json JNull = CNull"
| "from_json (JBool value) = CBool value"
| "from_json (JNumber number) = number_to_cbor number"
| "from_json (JString value) = CText value"
| "from_json (JArray items) = CArray (map from_json items)"
| "from_json (JObject entries) = CMap (map (\<lambda>(key, value). (key, from_json value)) entries)"

fun to_json :: "cbor_value \<Rightarrow> json option" where
  "to_json CNull = Some JNull"
| "to_json (CBool value) = Some (JBool value)"
| "to_json (CInteger value) = Some (JNumber (number_from_i64 value))"
| "to_json (CFloat value) =
     (if \<not> f64_is_finite value then None
      else if is_safe_integral_float value \<and> \<not> is_negative_zero value
      then Some (JNumber (number_from_i64 (f64_as_i64 value)))
      else Some (JNumber (JFloat value)))"
| "to_json (CText value) = Some (JString value)"
| "to_json (CBytes _) = None"
| "to_json (CArray items) = map_option JArray (those (map to_json items))"
| "to_json (CMap entries) =
     map_option JObject
       (those (map (\<lambda>(key, value). map_option (Pair key) (to_json value)) entries))"

section \<open>Well-formed values\<close>

text \<open>What Rust's types guarantee: UTF-8 text, distinct map keys, an \<^verbatim>\<open>i64\<close> in every integer.\<close>

fun cbor_wf :: "cbor_value \<Rightarrow> bool" where
  "cbor_wf (CText t) \<longleftrightarrow> utf8_valid (as_bytes t)"
| "cbor_wf (CInteger i) \<longleftrightarrow> - (2 ^ 63) \<le> i \<and> i < 2 ^ 63"
| "cbor_wf (CArray items) \<longleftrightarrow> list_all cbor_wf items"
| "cbor_wf (CMap entries) \<longleftrightarrow>
     distinct (map fst entries) \<and>
     list_all (\<lambda>(k, v). utf8_valid (as_bytes k) \<and> cbor_wf v) entries"
| "cbor_wf _ \<longleftrightarrow> True"

text \<open>
  The part of a JSON value that survives the trip through the CBOR model unchanged: numbers
  that are an \<^verbatim>\<open>i64\<close> in its \<open>serde_json\<close> normal form, or a finite float that is not a safe integer.
\<close>

fun json_number_plain :: "json_number \<Rightarrow> bool" where
  "json_number_plain (PosInt n) \<longleftrightarrow> n < 2 ^ 63"
| "json_number_plain (NegInt i) \<longleftrightarrow> i < 0"
| "json_number_plain (JFloat v) \<longleftrightarrow>
     f64_is_finite v \<and> (is_negative_zero v \<or> \<not> is_safe_integral_float v)"

fun json_plain :: "json \<Rightarrow> bool" where
  "json_plain (JNumber n) \<longleftrightarrow> json_number_plain n"
| "json_plain (JArray items) \<longleftrightarrow> list_all json_plain items"
| "json_plain (JObject entries) \<longleftrightarrow> list_all (\<lambda>(k, v). json_plain v) entries"
| "json_plain _ \<longleftrightarrow> True"

fun all_finite :: "cbor_value \<Rightarrow> bool" where
  "all_finite (CFloat v) \<longleftrightarrow> f64_is_finite v"
| "all_finite (CArray items) \<longleftrightarrow> list_all all_finite items"
| "all_finite (CMap entries) \<longleftrightarrow> list_all (\<lambda>(k, v). all_finite v) entries"
| "all_finite _ \<longleftrightarrow> True"

lemma those_map_eq_Some:
  "those (map f xs) = Some ys \<longleftrightarrow> list_all2 (\<lambda>x y. f x = Some y) xs ys"
  by (induction xs arbitrary: ys) (auto simp: list_all2_Cons1 split: option.splits)

lemma those_map_eq_None: "those (map f xs) = None \<longleftrightarrow> (\<exists>x\<in>set xs. f x = None)"
  by (induction xs) (auto split: option.splits)

lemma those_map_same: "\<forall>x\<in>set xs. f x = Some (g x) \<Longrightarrow> those (map f xs) = Some (map g xs)"
  by (induction xs) auto

lemma number_round_trip:
  "json_number_plain n \<Longrightarrow> to_json (number_to_cbor n) = Some (JNumber n)"
  by (cases n) (auto simp: number_to_cbor_def number_from_i64_def)

lemma to_json_from_json: "json_plain j \<Longrightarrow> to_json (from_json j) = Some j"
proof (induction j rule: from_json.induct)
  case (5 items)
  then have "\<forall>x\<in>set items. to_json (from_json x) = Some (id x)" by (auto simp: list_all_iff)
  then show ?case by (simp add: those_map_same [where g = id] comp_def)
next
  case (6 entries)
  then have "\<forall>e\<in>set entries.
      map_option (Pair (fst e)) (to_json (from_json (snd e))) = Some (id e)"
    by (auto simp: list_all_iff)
  then show ?case by (simp add: those_map_same [where g = id] comp_def case_prod_beta)
qed (simp_all add: number_round_trip)

lemma to_json_None_iff: "to_json v = None \<longleftrightarrow> contains_bytes v \<or> \<not> all_finite v"
proof (induction v rule: to_json.induct)
  case (7 items)
  then show ?case by (auto simp: those_map_eq_None list_ex_iff list_all_iff)
next
  case (8 entries)
  then show ?case by (force simp: those_map_eq_None list_ex_iff list_all_iff)
qed simp_all

end
