(* ===== verification/Cbor_Codec.thy ===== *)
theory Cbor_Codec
  imports Cbor_Value "HOL-Library.Multiset"
begin

unbundle bit_operations_syntax

text \<open>
  The strict CBOR subset of the session protocol:
  \<^verbatim>\<open>pi-rs/crates/pi-protocol/src/cbor/encoder.rs\<close> and \<^verbatim>\<open>decoder.rs\<close>. The writer is the record
  \<open>cbor_writer\<close>; the reader \<^verbatim>\<open>CborReader\<close> is the list of bytes at and behind its \<^verbatim>\<open>offset\<close>, with
  its options passed along. Both recursions descend with \<open>depth + 1\<close> and refuse a depth above
  \<open>max_depth\<close>, which is the termination measure of the model. \<^verbatim>\<open>u64\<close> arguments are natural
  numbers: \<open>read_argument_bound\<close> shows they stay below \<open>2 ^ 53\<close>, so no cast of the code wraps.
\<close>

section \<open>Encoder\<close>

record cbor_writer =
  buffer :: "byte list"
  writer_max :: nat

definition writer_new :: "nat \<Rightarrow> cbor_writer" where
  "writer_new n = \<lparr>buffer = [], writer_max = n\<rparr>"

definition ensure_capacity :: "cbor_writer \<Rightarrow> nat \<Rightarrow> cbor_error + unit" where
  "ensure_capacity w additional_bytes =
     (if length (buffer w) + additional_bytes > writer_max w
      then Inl (ByteLengthLimit (writer_max w)) else Inr ())"

definition write_byte :: "cbor_writer \<Rightarrow> byte \<Rightarrow> cbor_error + cbor_writer" where
  "write_byte w value =
     res_bind (ensure_capacity w 1) (\<lambda>_. Inr (w\<lparr>buffer := buffer w @ [value]\<rparr>))"

definition write_bytes :: "cbor_writer \<Rightarrow> byte list \<Rightarrow> cbor_error + cbor_writer" where
  "write_bytes w bytes =
     res_bind (ensure_capacity w (length bytes)) (\<lambda>_. Inr (w\<lparr>buffer := buffer w @ bytes\<rparr>))"

definition write_float64 :: "cbor_writer \<Rightarrow> f64 \<Rightarrow> cbor_error + cbor_writer" where
  "write_float64 w value =
     res_bind (ensure_capacity w 9)
       (\<lambda>_. Inr (w\<lparr>buffer := (buffer w @ [0xfb]) @ be_bytes 8 (unat value)\<rparr>))"

definition write_argument :: "cbor_writer \<Rightarrow> byte \<Rightarrow> nat \<Rightarrow> cbor_error + cbor_writer" where
  "write_argument w major_type value =
     (let prefix = push_bit 5 major_type in
      if value < 24 then write_byte w (prefix OR word_of_nat value)
      else if value \<le> 0xff then
        res_bind (write_byte w (prefix OR 24)) (\<lambda>w. write_byte w (word_of_nat value))
      else if value \<le> 0xffff then
        res_bind (write_byte w (prefix OR 25)) (\<lambda>w. write_bytes w (be_bytes 2 value))
      else if value \<le> MAX_UINT32 then
        res_bind (write_byte w (prefix OR 26)) (\<lambda>w. write_bytes w (be_bytes 4 value))
      else
        res_bind (write_byte w (prefix OR 27)) (\<lambda>w.
        res_bind (write_bytes w (be_bytes 4 (value div UINT32_BASE))) (\<lambda>w.
        write_bytes w (be_bytes 4 (value mod UINT32_BASE)))))"

definition encode_text ::
  "cbor_writer \<Rightarrow> string \<Rightarrow> cbor_options \<Rightarrow> cbor_error + cbor_writer" where
  "encode_text w value options =
     (let bytes = as_bytes value in
      if length bytes > max_byte_length options
      then Inl (LengthLimit TextString (max_byte_length options))
      else res_bind (write_argument w 3 (length bytes)) (\<lambda>w. write_bytes w bytes))"

definition js_array_index :: "string \<Rightarrow> nat option" where
  "js_array_index key =
     (if key = [] \<or> length key > 10 \<or> \<not> list_all is_ascii_digit key then None
      else if length key > 1 \<and> hd key = CHR ''0'' then None
      else let index = parse_digits key in
        if index \<ge> MAX_UINT32 then None else Some index)"

definition js_property_order :: "(string \<times> 'v) list \<Rightarrow> string list" where
  "js_property_order entries =
     (let keys = map fst entries;
          indexed = List.map_filter (\<lambda>key. map_option (\<lambda>i. (i, key)) (js_array_index key)) keys;
          rest = filter (\<lambda>key. js_array_index key = None) keys
      in map snd (sort_key fst indexed) @ rest)"

text \<open>
  The pairs the encoder's loop visits: \<^verbatim>\<open>&entries[key]\<close> for every key in property order. The keys
  come from the map itself (\<open>set_js_property_order\<close>), so the lookup never misses.
\<close>

definition entries_in_order :: "(string \<times> 'v) list \<Rightarrow> (string \<times> 'v) list" where
  "entries_in_order entries =
     List.map_filter (\<lambda>key. map_option (Pair key) (map_of entries key)) (js_property_order entries)"

definition encode_integer :: "cbor_writer \<Rightarrow> int \<Rightarrow> cbor_error + cbor_writer" where
  "encode_integer w value =
     (if \<not> is_safe_integer value then Inl UnsafeInteger
      else if value \<ge> 0 then write_argument w 0 (nat value)
      else write_argument w 1 (nat (-1 - value)))"

function encode_value ::
    "cbor_writer \<Rightarrow> cbor_value \<Rightarrow> cbor_options \<Rightarrow> nat \<Rightarrow> cbor_error + cbor_writer"
  and encode_items ::
    "cbor_writer \<Rightarrow> cbor_value list \<Rightarrow> cbor_options \<Rightarrow> nat \<Rightarrow> cbor_error + cbor_writer"
  and encode_entries ::
    "cbor_writer \<Rightarrow> cbor_map \<Rightarrow> cbor_options \<Rightarrow> nat \<Rightarrow> cbor_error + cbor_writer" where
  "encode_value w value options depth =
     (if depth > max_depth options then Inl (DepthLimit (max_depth options))
      else case value of
        CNull \<Rightarrow> write_byte w 0xf6
      | CBool b \<Rightarrow> write_byte w (if b then 0xf5 else 0xf4)
      | CInteger i \<Rightarrow> encode_integer w i
      | CFloat v \<Rightarrow>
          if \<not> f64_is_finite v then Inl NonFiniteNumber
          else if is_integral_float v \<and> \<not> is_negative_zero v then
            (if \<not> is_safe_integral_float v then Inl UnsafeInteger
             else encode_integer w (f64_as_i64 v))
          else write_float64 w v
      | CText t \<Rightarrow> encode_text w t options
      | CBytes b \<Rightarrow>
          if length b > max_byte_length options
          then Inl (LengthLimit ByteString (max_byte_length options))
          else res_bind (write_argument w 2 (length b)) (\<lambda>w. write_bytes w b)
      | CArray items \<Rightarrow>
          if length items > max_container_length options
          then Inl (LengthLimit ArrayItem (max_container_length options))
          else res_bind (write_argument w 4 (length items))
                 (\<lambda>w. encode_items w items options (depth + 1))
      | CMap entries \<Rightarrow>
          if length entries > max_container_length options
          then Inl (LengthLimit MapItem (max_container_length options))
          else res_bind (write_argument w 5 (length entries))
                 (\<lambda>w. encode_entries w (entries_in_order entries) options (depth + 1)))"
| "encode_items w [] options depth = Inr w"
| "encode_items w (item # items) options depth =
     res_bind (encode_value w item options depth) (\<lambda>w. encode_items w items options depth)"
| "encode_entries w [] options depth = Inr w"
| "encode_entries w ((key, value) # entries) options depth =
     res_bind (encode_text w key options) (\<lambda>w.
     res_bind (encode_value w value options depth) (\<lambda>w.
     encode_entries w entries options depth))"
  by pat_completeness auto
termination
  by (relation "inv_image (less_than <*lex*> less_than)
       (\<lambda>x. case x of
          Inl (w, v, opts, d) \<Rightarrow> (Suc (max_depth opts) - d, 0)
        | Inr (Inl (w, vs, opts, d)) \<Rightarrow> (Suc (max_depth opts) - d, Suc (length vs))
        | Inr (Inr (w, es, opts, d)) \<Rightarrow> (Suc (max_depth opts) - d, Suc (length es)))") auto

declare encode_value.simps [simp del]

definition encode_cbor :: "cbor_value \<Rightarrow> cbor_options \<Rightarrow> cbor_error + byte list" where
  "encode_cbor value options =
     res_bind (resolve options) (\<lambda>options.
     res_bind (encode_value (writer_new (max_byte_length options)) value options 0) (\<lambda>w.
     Inr (buffer w)))"

section \<open>Decoder\<close>

definition read_byte :: "byte list \<Rightarrow> cbor_error + (byte \<times> byte list)" where
  "read_byte r = (case r of [] \<Rightarrow> Inl Truncated | b # r' \<Rightarrow> Inr (b, r'))"

definition read_bytes :: "nat \<Rightarrow> byte list \<Rightarrow> cbor_error + (byte list \<times> byte list)" where
  "read_bytes n r = (if n > length r then Inl Truncated else Inr (take n r, drop n r))"

function read_argument :: "byte \<Rightarrow> byte list \<Rightarrow> cbor_error + (nat \<times> byte list)" where
  "read_argument additional_information r =
     (if additional_information < 24 then Inr (unat additional_information, r)
      else if additional_information = 24 then
        res_bind (read_byte r) (\<lambda>(b, r). Inr (unat b, r))
      else if additional_information = 25 then
        res_bind (read_bytes 2 r) (\<lambda>(bs, r). Inr (unat (bs ! 0) * 0x100 + unat (bs ! 1), r))
      else if additional_information = 26 then
        res_bind (read_bytes 4 r) (\<lambda>(bs, r).
          Inr (unat (bs ! 0) * 0x1000000 + unat (bs ! 1) * 0x10000 + unat (bs ! 2) * 0x100 +
               unat (bs ! 3), r))
      else if additional_information = 27 then
        res_bind (read_argument 26 r) (\<lambda>(high, r).
        res_bind (read_argument 26 r) (\<lambda>(low, r).
          if high > 0x1fffff then Inl DecodedUnsafeArgument
          else Inr (high * UINT32_BASE + low, r)))
      else if additional_information = 31 then Inl IndefiniteItem
      else Inl MalformedAdditionalInformation)"
  by pat_completeness auto
termination
  by (relation "measure (\<lambda>(info, r). if info = 27 then 1 else 0)") auto

declare read_argument.simps [simp del]

definition read_length ::
  "byte \<Rightarrow> cbor_item_kind \<Rightarrow> nat \<Rightarrow> byte list \<Rightarrow> cbor_error + (nat \<times> byte list)" where
  "read_length additional_information kind limit r =
     (if additional_information = 31 then Inl (IndefiniteLength kind)
      else res_bind (read_argument additional_information r) (\<lambda>(len, r).
        if len > limit then Inl (LengthLimit kind limit) else Inr (len, r)))"

definition read_simple :: "byte \<Rightarrow> byte list \<Rightarrow> cbor_error + (cbor_value \<times> byte list)" where
  "read_simple additional_information r =
     (if additional_information = 20 then Inr (CBool False, r)
      else if additional_information = 21 then Inr (CBool True, r)
      else if additional_information = 22 then Inr (CNull, r)
      else if additional_information = 27 then
        res_bind (read_bytes 8 r) (\<lambda>(bytes, r).
          let value = word_of_nat (be_nat bytes) in
          if \<not> f64_is_finite value then Inl DecodedNonFiniteNumber
          else if is_integral_float value \<and> \<not> is_safe_integral_float value
          then Inl DecodedUnsafeInteger
          else Inr (CFloat value, r))
      else if additional_information = 31 then Inl BreakUnsupported
      else Inl UnsupportedSimpleValue)"

function read_item ::
    "cbor_options \<Rightarrow> nat \<Rightarrow> byte list \<Rightarrow> cbor_error + (cbor_value \<times> byte list)"
  and read_items ::
    "cbor_options \<Rightarrow> nat \<Rightarrow> nat \<Rightarrow> byte list \<Rightarrow> cbor_error + (cbor_value list \<times> byte list)"
  and read_entries ::
    "cbor_options \<Rightarrow> nat \<Rightarrow> nat \<Rightarrow> cbor_map \<Rightarrow> byte list \<Rightarrow> cbor_error + (cbor_map \<times> byte list)"
  where
  "read_item options depth r =
     (if depth > max_depth options then Inl (DepthLimit (max_depth options))
      else res_bind (read_byte r) (\<lambda>(initial, r).
        let major_type = drop_bit 5 initial; info = initial AND 0x1f in
        if major_type = 0 then
          res_bind (read_argument info r) (\<lambda>(value, r). Inr (CInteger (int value), r))
        else if major_type = 1 then
          res_bind (read_argument info r) (\<lambda>(argument, r).
            let value = -1 - int argument in
            if value < MIN_SAFE_INTEGER then Inl DecodedUnsafeInteger
            else Inr (CInteger value, r))
        else if major_type = 2 then
          res_bind (read_length info ByteString (max_byte_length options) r) (\<lambda>(len, r).
          res_bind (read_bytes len r) (\<lambda>(bytes, r). Inr (CBytes bytes, r)))
        else if major_type = 3 then
          res_bind (read_length info TextString (max_byte_length options) r) (\<lambda>(len, r).
          res_bind (read_bytes len r) (\<lambda>(bytes, r).
            if utf8_valid bytes then Inr (CText (of_bytes bytes), r) else Inl InvalidUtf8))
        else if major_type = 4 then
          res_bind (read_length info ArrayItem (max_container_length options) r) (\<lambda>(len, r).
          res_bind (read_items options (depth + 1) len r) (\<lambda>(items, r). Inr (CArray items, r)))
        else if major_type = 5 then
          res_bind (read_length info MapItem (max_container_length options) r) (\<lambda>(len, r).
          res_bind (read_entries options (depth + 1) len [] r) (\<lambda>(entries, r).
            Inr (CMap entries, r)))
        else if major_type = 6 then Inl TagsUnsupported
        else read_simple info r))"
| "read_items options depth 0 r = Inr ([], r)"
| "read_items options depth (Suc n) r =
     res_bind (read_item options depth r) (\<lambda>(item, r).
     res_bind (read_items options depth n r) (\<lambda>(items, r). Inr (item # items, r)))"
| "read_entries options depth 0 entries r = Inr (entries, r)"
| "read_entries options depth (Suc n) entries r =
     res_bind (read_item options depth r) (\<lambda>(key, r).
       case key of
         CText key \<Rightarrow>
           if key \<in> set (map fst entries) then Inl DuplicateMapKey
           else res_bind (read_item options depth r) (\<lambda>(value, r).
                  read_entries options depth n (entries @ [(key, value)]) r)
       | _ \<Rightarrow> Inl NonStringMapKey)"
  by pat_completeness auto
termination
  by (relation "inv_image (less_than <*lex*> less_than)
       (\<lambda>x. case x of
          Inl (opts, d, r) \<Rightarrow> (Suc (max_depth opts) - d, 0)
        | Inr (Inl (opts, d, n, r)) \<Rightarrow> (Suc (max_depth opts) - d, Suc n)
        | Inr (Inr (opts, d, n, es, r)) \<Rightarrow> (Suc (max_depth opts) - d, Suc n))") auto

declare read_item.simps [simp del]

definition decode :: "cbor_options \<Rightarrow> byte list \<Rightarrow> cbor_error + cbor_value" where
  "decode options bytes =
     res_bind (read_item options 0 bytes) (\<lambda>(value, r).
       if r \<noteq> [] then Inl TrailingData else Inr value)"

definition decode_cbor :: "byte list \<Rightarrow> cbor_options \<Rightarrow> cbor_error + cbor_value" where
  "decode_cbor bytes options =
     res_bind (resolve options) (\<lambda>options.
       if length bytes > max_byte_length options
       then Inl (ByteLengthLimit (max_byte_length options))
       else decode options bytes)"

section \<open>Heads\<close>

lemma head_byte:
  assumes "m < 8" and "v < 32"
  shows "drop_bit 5 (push_bit 5 m OR v) = (m :: byte)" and "(push_bit 5 m OR v) AND 31 = v"
proof -
  have 31: "(31 :: byte) = mask 5" by (simp add: mask_eq_exp_minus_1)
  have self: "take_bit k w = w" if "unat w < 2 ^ k" for k and w :: byte
    using that by (simp add: word_unat_eq_iff unsigned_take_bit_eq take_bit_nat_eq_self)
  have v: "take_bit 5 v = v"
    using assms(2) by (intro self) (simp add: word_less_nat_alt)
  have m: "take_bit 3 m = m"
    using assms(1) by (intro self) (simp add: word_less_nat_alt)
  have "drop_bit 5 v = drop_bit 5 (take_bit 5 v)" by (simp add: v)
  then have dv: "drop_bit 5 v = 0" by (simp add: drop_bit_take_bit)
  show "(push_bit 5 m OR v) AND 31 = v"
    unfolding 31 take_bit_eq_mask [symmetric] by (simp add: take_bit_or v take_bit_push_bit)
  have "drop_bit 5 (push_bit 5 m) = m"
    by (subst (1 2) m [symmetric]) (rule bit_eqI, auto simp: bit_simps)
  then show "drop_bit 5 (push_bit 5 m OR v) = m" by (simp add: drop_bit_or dv)
qed

text \<open>
  \<open>writes w bs w'\<close>: the writer \<open>w'\<close> is \<open>w\<close> with \<open>bs\<close> appended, and the capacity check passed.
\<close>

definition writes :: "cbor_writer \<Rightarrow> byte list \<Rightarrow> cbor_writer \<Rightarrow> bool" where
  "writes w bs w' \<longleftrightarrow>
     w' = w\<lparr>buffer := buffer w @ bs\<rparr> \<and> (bs = [] \<or> length (buffer w) + length bs \<le> writer_max w)"

lemma writes_Nil [simp]: "writes w [] w' \<longleftrightarrow> w' = w"
  by (simp add: writes_def)

lemma writes_append: "writes w (a @ b) w' \<longleftrightarrow> (\<exists>u. writes w a u \<and> writes u b w')"
  by (auto simp: writes_def)

lemma write_byte_iff: "write_byte w b = Inr w' \<longleftrightarrow> writes w [b] w'"
  by (auto simp: write_byte_def ensure_capacity_def writes_def)

lemma write_bytes_iff: "bs \<noteq> [] \<Longrightarrow> write_bytes w bs = Inr w' \<longleftrightarrow> writes w bs w'"
  by (auto simp: write_bytes_def ensure_capacity_def writes_def)

lemma write_bytes_after: "writes w (x # xs) u \<Longrightarrow> write_bytes u bs = Inr w' \<longleftrightarrow> writes u bs w'"
  by (auto simp: write_bytes_def ensure_capacity_def writes_def)

lemma write_float64_iff:
  "write_float64 w v = Inr w' \<longleftrightarrow> writes w (0xfb # be_bytes 8 (unat v)) w'"
  by (auto simp: write_float64_def ensure_capacity_def writes_def)

definition head_bytes :: "byte \<Rightarrow> nat \<Rightarrow> byte list" where
  "head_bytes m n =
     (if n < 24 then [push_bit 5 m OR word_of_nat n]
      else if n \<le> 0xff then [push_bit 5 m OR 24, word_of_nat n]
      else if n \<le> 0xffff then (push_bit 5 m OR 25) # be_bytes 2 n
      else if n \<le> MAX_UINT32 then (push_bit 5 m OR 26) # be_bytes 4 n
      else (push_bit 5 m OR 27) # be_bytes 4 (n div UINT32_BASE) @ be_bytes 4 (n mod UINT32_BASE))"

lemma head_bytes_ne: "head_bytes m n \<noteq> []"
  by (simp add: head_bytes_def)

lemma be_bytes_ne: "0 < k \<Longrightarrow> be_bytes k n \<noteq> []"
  by (metis length_be_bytes length_greater_0_conv)

lemma writes_Cons: "writes w (b # bs) w' \<longleftrightarrow> (\<exists>u. writes w [b] u \<and> writes u bs w')"
  using writes_append [of w "[b]" bs w'] by simp

lemma write_argument_iff: "write_argument w m n = Inr w' \<longleftrightarrow> writes w (head_bytes m n) w'"
  by (auto simp: write_argument_def head_bytes_def Let_def result_simps write_byte_iff
      write_bytes_iff be_bytes_ne writes_append
      writes_Cons [of w _ "be_bytes _ _"] writes_Cons [of w _ "[_]"]
      writes_Cons [of w _ "be_bytes _ _ @ be_bytes _ _"])

lemma write_argument_then_bytes_iff:
  "res_bind (write_argument w m n) (\<lambda>w. write_bytes w bs) = Inr w' \<longleftrightarrow>
     writes w (head_bytes m n @ bs) w'"
proof -
  obtain x xs where h: "head_bytes m n = x # xs" using head_bytes_ne by (meson neq_Nil_conv)
  show ?thesis
    by (auto simp: result_simps write_argument_iff writes_append h write_bytes_after
        simp del: append_Cons)
qed

text \<open>Reading a head back.\<close>

lemma be_nat_2: "be_nat [a, b] = unat a * 0x100 + unat b"
  by (simp add: be_nat_def)

lemma be_nat_4:
  "be_nat [a, b, c, d] = unat a * 0x1000000 + unat b * 0x10000 + unat c * 0x100 + unat d"
  by (simp add: be_nat_def)

lemma read_argument_25: "read_argument 25 (be_bytes 2 n @ r) = Inr (n mod 2 ^ 16, r)"
  using be_nat_be_bytes [of 2 n]
  by (simp add: read_argument.simps read_bytes_def be_bytes_numeral be_nat_2)

lemma read_argument_26: "read_argument 26 (be_bytes 4 n @ r) = Inr (n mod 2 ^ 32, r)"
  using be_nat_be_bytes [of 4 n]
  by (simp add: read_argument.simps read_bytes_def be_bytes_numeral be_nat_4)

lemma head_bytes_read:
  assumes "m < 8" and "n < 2 ^ 53"
  shows "\<exists>b bs. head_bytes m n = b # bs \<and> drop_bit 5 b = m \<and> b AND 31 \<noteq> 31 \<and>
    (\<forall>r. read_argument (b AND 31) (bs @ r) = Inr (n, r))"
proof -
  note hd = head_byte [OF assms(1)]
  consider "n < 24" | "\<not> n < 24" "n \<le> 0xff" | "\<not> n \<le> 0xff" "n \<le> 0xffff"
    | "\<not> n \<le> 0xffff" "n \<le> MAX_UINT32" | "\<not> n \<le> MAX_UINT32" by linarith
  then show ?thesis
  proof cases
    case 1
    then have "(word_of_nat n :: byte) < 32" "(word_of_nat n :: byte) < 24"
      by (simp_all add: word_less_nat_alt)
    with 1 hd [of "word_of_nat n"] show ?thesis
      by (auto simp: head_bytes_def read_argument.simps)
  next
    case 2
    with hd [of 24] show ?thesis
      by (simp add: head_bytes_def read_argument.simps read_byte_def)
  next
    case 3
    with hd [of 25] show ?thesis
      by (simp add: head_bytes_def read_argument_25)
  next
    case 4
    with hd [of 26] show ?thesis
      by (simp add: head_bytes_def read_argument_26 MAX_UINT32_def)
  next
    case 5
    have "n div UINT32_BASE < 2 ^ 21"
      using assms(2) by (simp add: UINT32_BASE_def div_less_iff_less_mult)
    then have "read_argument 27 (be_bytes 4 (n div UINT32_BASE) @
        be_bytes 4 (n mod UINT32_BASE) @ r) = Inr (n, r)" for r
      by (subst read_argument.simps) (simp add: read_argument_26 UINT32_BASE_def)
    with 5 hd [of 27] show ?thesis
      by (simp add: head_bytes_def MAX_UINT32_def)
  qed
qed

section \<open>Property order\<close>

lemma mset_js_keys:
  "mset (map snd (List.map_filter (\<lambda>k. map_option (\<lambda>i. (i, k)) (f k)) ks)) +
     mset (filter (\<lambda>k. f k = None) ks) = mset ks"
  by (induction ks) (auto simp: List.map_filter_simps split: option.splits)

lemma mset_js_property_order: "mset (js_property_order es) = mset (map fst es)"
  using mset_js_keys [of js_array_index "map fst es"]
  by (simp add: js_property_order_def Let_def)

lemma set_js_property_order: "set (js_property_order es) = fst ` set es"
  using mset_js_property_order [of es] by (metis set_map set_mset_mset)

lemma distinct_js_property_order:
  "distinct (js_property_order es) = distinct (map fst es)"
  using mset_js_property_order [of es] by (metis mset_eq_imp_distinct_iff)

lemma map_fst_map_filter_lookup:
  "\<forall>k\<in>set ks. k \<in> dom m \<Longrightarrow>
     map fst (List.map_filter (\<lambda>k. map_option (Pair k) (m k)) ks) = ks"
  by (induction ks) (auto simp: List.map_filter_simps)

lemma map_fst_entries_in_order: "map fst (entries_in_order es) = js_property_order es"
  unfolding entries_in_order_def
  by (rule map_fst_map_filter_lookup) (simp add: set_js_property_order dom_map_of_conv_image_fst)

lemma length_entries_in_order [simp]: "length (entries_in_order es) = length es"
  by (metis map_fst_entries_in_order mset_js_property_order length_map size_mset)

lemma set_entries_in_order:
  "distinct (map fst es) \<Longrightarrow> set (entries_in_order es) = set es"
  by (force simp: entries_in_order_def set_map_filter set_js_property_order
      map_of_eq_Some_iff image_iff)

lemma js_property_order_map: "js_property_order (map (\<lambda>(k, v). (k, f v)) es) = js_property_order es"
  by (simp add: js_property_order_def comp_def case_prod_beta)

lemma entries_in_order_map:
  "entries_in_order (map (\<lambda>(k, v). (k, f v)) es) = map (\<lambda>(k, v). (k, f v)) (entries_in_order es)"
proof -
  have "map (\<lambda>(k, v). (k, f v)) (List.map_filter (\<lambda>k. map_option (Pair k) (map_of es k)) ks) =
      List.map_filter (\<lambda>k. map_option (Pair k) (map_option f (map_of es k))) ks" for ks
    by (induction ks) (auto simp: List.map_filter_simps split: option.splits)
  then show ?thesis
    by (simp add: entries_in_order_def js_property_order_map map_of_map [of f])
qed

section \<open>The reference encoding\<close>

text \<open>
  \<open>enc\<close> is the encoding without limits, \<open>enc_ok\<close> says that a value is within the limits, and
  \<open>cbor_norm\<close> is the value a peer reads back: an integral float comes back as an integer, as in
  JavaScript, and map entries come back in property order.
\<close>

definition enc_text :: "string \<Rightarrow> byte list" where
  "enc_text t = head_bytes 3 (length t) @ as_bytes t"

definition enc_integer :: "int \<Rightarrow> byte list" where
  "enc_integer i = (if 0 \<le> i then head_bytes 0 (nat i) else head_bytes 1 (nat (-1 - i)))"

fun enc :: "cbor_value \<Rightarrow> byte list" where
  "enc CNull = [0xf6]"
| "enc (CBool b) = [if b then 0xf5 else 0xf4]"
| "enc (CInteger i) = enc_integer i"
| "enc (CFloat v) =
     (if is_integral_float v \<and> \<not> is_negative_zero v then enc_integer (f64_as_i64 v)
      else 0xfb # be_bytes 8 (unat v))"
| "enc (CText t) = enc_text t"
| "enc (CBytes b) = head_bytes 2 (length b) @ b"
| "enc (CArray items) = head_bytes 4 (length items) @ concat (map enc items)"
| "enc (CMap es) =
     head_bytes 5 (length es) @
     concat (map (\<lambda>(k, b). enc_text k @ b) (entries_in_order (map (\<lambda>(k, v). (k, enc v)) es)))"

fun enc_ok :: "cbor_options \<Rightarrow> nat \<Rightarrow> cbor_value \<Rightarrow> bool" where
  "enc_ok opts d (CInteger i) \<longleftrightarrow> d \<le> max_depth opts \<and> is_safe_integer i"
| "enc_ok opts d (CFloat v) \<longleftrightarrow> d \<le> max_depth opts \<and> f64_is_finite v \<and>
     (is_integral_float v \<longrightarrow> is_safe_integral_float v)"
| "enc_ok opts d (CText t) \<longleftrightarrow> d \<le> max_depth opts \<and> length t \<le> max_byte_length opts"
| "enc_ok opts d (CBytes b) \<longleftrightarrow> d \<le> max_depth opts \<and> length b \<le> max_byte_length opts"
| "enc_ok opts d (CArray items) \<longleftrightarrow> d \<le> max_depth opts \<and>
     length items \<le> max_container_length opts \<and> list_all (enc_ok opts (Suc d)) items"
| "enc_ok opts d (CMap es) \<longleftrightarrow> d \<le> max_depth opts \<and>
     length es \<le> max_container_length opts \<and>
     list_all (\<lambda>(k, v). length k \<le> max_byte_length opts \<and> enc_ok opts (Suc d) v) es"
| "enc_ok opts d _ \<longleftrightarrow> d \<le> max_depth opts"

fun cbor_norm :: "cbor_value \<Rightarrow> cbor_value" where
  "cbor_norm (CFloat v) =
     (if is_integral_float v \<and> \<not> is_negative_zero v then CInteger (f64_as_i64 v) else CFloat v)"
| "cbor_norm (CArray items) = CArray (map cbor_norm items)"
| "cbor_norm (CMap es) = CMap (entries_in_order (map (\<lambda>(k, v). (k, cbor_norm v)) es))"
| "cbor_norm v = v"

lemma negative_zero_safe: "is_negative_zero v \<Longrightarrow> is_integral_float v \<Longrightarrow> is_safe_integral_float v"
  by (simp add: is_negative_zero_def is_safe_integral_float_def)

lemma safe_float_i64: "is_safe_integral_float v \<Longrightarrow> is_safe_integer (f64_as_i64 v)"
proof -
  assume "is_safe_integral_float v"
  then have "f64_mag v div f64_unit \<le> nat MAX_SAFE_INTEGER * f64_unit div f64_unit"
    unfolding is_safe_integral_float_def by (intro div_le_mono) simp
  then have "f64_mag v div f64_unit \<le> nat MAX_SAFE_INTEGER"
    by (simp add: f64_unit_def)
  then have "int (f64_mag v div f64_unit) \<le> MAX_SAFE_INTEGER"
    by (simp add: MAX_SAFE_INTEGER_def)
  then show ?thesis
    by (simp add: is_safe_integer_def f64_as_i64_def Let_def MAX_SAFE_INTEGER_def
        MIN_SAFE_INTEGER_def)
qed

lemma encode_integer_iff:
  "encode_integer w i = Inr w' \<longleftrightarrow> is_safe_integer i \<and> writes w (enc_integer i) w'"
  by (auto simp: encode_integer_def enc_integer_def write_argument_iff)

lemma encode_text_iff:
  "encode_text w t opts = Inr w' \<longleftrightarrow> length t \<le> max_byte_length opts \<and> writes w (enc_text t) w'"
  by (auto simp: encode_text_def enc_text_def Let_def write_argument_then_bytes_iff)

lemma enc_map:
  "enc (CMap es) =
     head_bytes 5 (length es) @ concat (map (\<lambda>(k, v). enc_text k @ enc v) (entries_in_order es))"
  unfolding enc.simps entries_in_order_map by (simp add: comp_def case_prod_unfold)

lemma encode_refines:
  "cbor_wf v \<Longrightarrow>
     encode_value w v opts d = Inr w' \<longleftrightarrow> enc_ok opts d v \<and> writes w (enc v) w'"
  "list_all cbor_wf vs \<Longrightarrow>
     encode_items w vs opts d = Inr w' \<longleftrightarrow>
       list_all (enc_ok opts d) vs \<and> writes w (concat (map enc vs)) w'"
  "list_all (\<lambda>(k, v). cbor_wf v) es \<Longrightarrow>
     encode_entries w es opts d = Inr w' \<longleftrightarrow>
       list_all (\<lambda>(k, v). length k \<le> max_byte_length opts \<and> enc_ok opts d v) es \<and>
       writes w (concat (map (\<lambda>(k, v). enc_text k @ enc v) es)) w'"
proof (induction w v opts d and w vs opts d and w es opts d
    arbitrary: w' and w' and w' rule: encode_value_encode_items_encode_entries.induct)
  case (1 w v opts d)
  show ?case
  proof (cases "d \<le> max_depth opts")
    case False
    then show ?thesis by (cases v) (auto simp: encode_value.simps)
  next
    case True
    then have d: "\<not> max_depth opts < d" by simp
    show ?thesis
    proof (cases v)
      case (CFloat x)
      with d show ?thesis
        by (auto simp: encode_value.simps encode_integer_iff write_float64_iff safe_float_i64
            negative_zero_safe)
    next
      case (CArray items)
      with "1.prems" have "list_all cbor_wf items" by simp
      from "1.IH"(1) [OF d CArray _ _ this] d CArray show ?thesis
        by (auto simp: encode_value.simps result_simps write_argument_iff writes_append)
    next
      case (CMap es)
      with "1.prems" have dist: "distinct (map fst es)"
        and wf: "list_all (\<lambda>(k, v). cbor_wf v) (entries_in_order es)"
        by (auto simp: list_all_iff set_entries_in_order)
      have same: "list_all P (entries_in_order es) = list_all P es" for P
        using set_entries_in_order [OF dist] by (simp add: list_all_iff)
      from "1.IH"(2) [OF d CMap _ _ wf] d CMap show ?thesis
        by (auto simp: encode_value.simps result_simps write_argument_iff writes_append enc_map
            same simp del: enc.simps(8))
    qed (use d in \<open>auto simp: encode_value.simps write_byte_iff encode_integer_iff
        encode_text_iff write_argument_then_bytes_iff\<close>)
  qed
next
  case (3 w v vs opts d)
  then show ?case by (auto simp: result_simps writes_append)
next
  case (5 w k v es opts d)
  then show ?case by (auto simp: result_simps writes_append encode_text_iff) blast+
qed auto

section \<open>Reading an encoding back\<close>

lemma read_length_of_argument:
  "\<lbrakk>info \<noteq> 31; read_argument info r = Inr (n, r'); n \<le> limit\<rbrakk> \<Longrightarrow>
     read_length info kind limit r = Inr (n, r')"
  by (simp add: read_length_def)

lemma simple_heads:
  "drop_bit 5 (0xf6 :: byte) = 7" "(0xf6 :: byte) AND 31 = 22"
  "drop_bit 5 (0xf5 :: byte) = 7" "(0xf5 :: byte) AND 31 = 21"
  "drop_bit 5 (0xf4 :: byte) = 7" "(0xf4 :: byte) AND 31 = 20"
  "drop_bit 5 (0xfb :: byte) = 7" "(0xfb :: byte) AND 31 = 27"
  by simp_all

lemma f64_from_be: "word_of_nat (be_nat (be_bytes 8 (unat v))) = (v :: f64)"
proof -
  have "be_nat (be_bytes 8 (unat v)) = unat v"
    using unat_f64_less [of v] by (intro be_nat_be_bytes_less) simp
  then show ?thesis by simp
qed

lemma read_enc_integer:
  assumes "is_safe_integer i" and "d \<le> max_depth opts"
  shows "read_item opts d (enc_integer i @ r) = Inr (CInteger i, r)"
proof (cases "0 \<le> i")
  case True
  have "nat i < 2 ^ 53"
    using assms(1) True by (simp add: is_safe_integer_def MAX_SAFE_INTEGER_def nat_less_iff)
  then obtain b bs where "head_bytes 0 (nat i) = b # bs" "drop_bit 5 b = 0" "b AND 31 \<noteq> 31"
      "\<And>r. read_argument (b AND 31) (bs @ r) = Inr (nat i, r)"
    using head_bytes_read [of 0 "nat i"] by auto
  with True assms(2) show ?thesis
    by (simp add: enc_integer_def read_item.simps read_byte_def)
next
  case False
  have "nat (-1 - i) < 2 ^ 53"
    using assms(1) False by (simp add: is_safe_integer_def MIN_SAFE_INTEGER_def nat_less_iff)
  then obtain b bs where "head_bytes 1 (nat (-1 - i)) = b # bs" "drop_bit 5 b = 1"
      "b AND 31 \<noteq> 31" "\<And>r. read_argument (b AND 31) (bs @ r) = Inr (nat (-1 - i), r)"
    using head_bytes_read [of 1 "nat (-1 - i)"] by auto
  with False assms show ?thesis
    by (simp add: enc_integer_def read_item.simps read_byte_def is_safe_integer_def)
qed

lemma read_enc_text:
  assumes "utf8_valid (as_bytes t)" and "length t \<le> max_byte_length opts"
    and "max_byte_length opts < 2 ^ 32" and "d \<le> max_depth opts"
  shows "read_item opts d (enc_text t @ r) = Inr (CText t, r)"
proof -
  obtain b bs where "head_bytes 3 (length t) = b # bs" "drop_bit 5 b = 3" "b AND 31 \<noteq> 31"
      "\<And>r. read_argument (b AND 31) (bs @ r) = Inr (length t, r)"
    using head_bytes_read [of 3 "length t"] assms(2,3) by auto
  with assms show ?thesis
    by (simp add: enc_text_def read_item.simps read_byte_def read_length_of_argument
        read_bytes_def)
qed

lemma read_items_enc:
  "\<forall>v\<in>set vs. \<forall>r. read_item opts d (enc v @ r) = Inr (cbor_norm v, r) \<Longrightarrow>
     read_items opts d (length vs) (concat (map enc vs) @ r) = Inr (map cbor_norm vs, r)"
  by (induction vs arbitrary: r) auto

lemma read_entries_enc:
  assumes "\<forall>(k, v)\<in>set es. utf8_valid (as_bytes k) \<and> length k \<le> max_byte_length opts \<and>
      (\<forall>r. read_item opts d (enc v @ r) = Inr (cbor_norm v, r))"
    and "max_byte_length opts < 2 ^ 32" and "es \<noteq> [] \<longrightarrow> d \<le> max_depth opts"
    and "distinct (map fst acc @ map fst es)"
  shows "read_entries opts d (length es)
      acc (concat (map (\<lambda>(k, v). enc_text k @ enc v) es) @ r) =
    Inr (acc @ map (\<lambda>(k, v). (k, cbor_norm v)) es, r)"
  using assms
proof (induction es arbitrary: acc)
  case (Cons e es)
  obtain k v where e: "e = (k, v)" by fastforce
  have "k \<notin> fst ` set acc" using Cons.prems(4) e by auto
  with Cons.prems e Cons.IH [of "acc @ [(k, cbor_norm v)]"] show ?case
    by (simp add: read_enc_text)
qed simp

lemma cbor_norm_map:
  "cbor_norm (CMap es) = CMap (map (\<lambda>(k, v). (k, cbor_norm v)) (entries_in_order es))"
  by (simp add: entries_in_order_map)

lemma enc_ok_depth: "enc_ok opts d v \<Longrightarrow> d \<le> max_depth opts"
  by (cases v) auto

lemma read_enc:
  assumes "max_byte_length opts < 2 ^ 32" and "max_container_length opts < 2 ^ 32"
  shows "\<lbrakk>cbor_wf v; enc_ok opts d v\<rbrakk> \<Longrightarrow> read_item opts d (enc v @ r) = Inr (cbor_norm v, r)"
proof (induction v arbitrary: d r rule: enc.induct)
  case (4 x)
  show ?case
  proof (cases "is_integral_float x \<and> \<not> is_negative_zero x")
    case True
    with 4 show ?thesis by (simp add: read_enc_integer safe_float_i64)
  next
    case False
    with 4 show ?thesis
      by (auto simp: read_item.simps read_byte_def simple_heads read_simple_def read_bytes_def
          f64_from_be Let_def)
  qed
next
  case (6 b)
  obtain c bs where "head_bytes 2 (length b) = c # bs" "drop_bit 5 c = 2" "c AND 31 \<noteq> 31"
      "\<And>r. read_argument (c AND 31) (bs @ r) = Inr (length b, r)"
    using head_bytes_read [of 2 "length b"] 6 assms by auto
  with 6 show ?case
    by (simp add: read_item.simps read_byte_def read_length_of_argument read_bytes_def)
next
  case (7 items)
  obtain c bs where "head_bytes 4 (length items) = c # bs" "drop_bit 5 c = 4" "c AND 31 \<noteq> 31"
      "\<And>r. read_argument (c AND 31) (bs @ r) = Inr (length items, r)"
    using head_bytes_read [of 4 "length items"] 7 assms by auto
  moreover have "\<forall>v\<in>set items. \<forall>r. read_item opts (Suc d) (enc v @ r) = Inr (cbor_norm v, r)"
    using 7 by (simp add: list_all_iff)
  ultimately show ?case
    using 7 by (simp add: read_item.simps read_byte_def read_length_of_argument read_items_enc)
next
  case (8 es)
  obtain c bs where hd: "head_bytes 5 (length es) = c # bs" "drop_bit 5 c = 5" "c AND 31 \<noteq> 31"
      "\<And>r. read_argument (c AND 31) (bs @ r) = Inr (length es, r)"
    using head_bytes_read [of 5 "length es"] 8 assms by auto
  have dist: "distinct (map fst es)" using 8 by simp
  have "read_entries opts (Suc d) (length (entries_in_order es)) []
      (concat (map (\<lambda>(k, v). enc_text k @ enc v) (entries_in_order es)) @ r) =
    Inr ([] @ map (\<lambda>(k, v). (k, cbor_norm v)) (entries_in_order es), r)"
  proof (rule read_entries_enc)
    show "\<forall>(k, v)\<in>set (entries_in_order es). utf8_valid (as_bytes k) \<and>
        length k \<le> max_byte_length opts \<and>
        (\<forall>r. read_item opts (Suc d) (enc v @ r) = Inr (cbor_norm v, r))"
      using 8 by (fastforce simp: set_entries_in_order [OF dist] list_all_iff)
    show "entries_in_order es \<noteq> [] \<longrightarrow> Suc d \<le> max_depth opts"
      using 8 by (cases es) (auto dest: enc_ok_depth simp: entries_in_order_def
          js_property_order_def List.map_filter_simps)
    show "distinct (map fst ([] :: cbor_map) @ map fst (entries_in_order es))"
      using dist by (simp add: map_fst_entries_in_order distinct_js_property_order)
  qed (rule assms)
  with hd 8 show ?case unfolding enc_map cbor_norm_map
    by (simp add: read_item.simps read_byte_def read_length_of_argument)
next
  case 1
  then show ?case
    by (simp add: read_item.simps read_byte_def simple_heads read_simple_def)
next
  case (2 b)
  then show ?case
    by (cases b) (simp_all add: read_item.simps read_byte_def simple_heads read_simple_def)
qed (use assms in \<open>simp_all add: read_enc_integer read_enc_text\<close>)

section \<open>What the decoder accepts\<close>

lemma length_head_bytes:
  "length (head_bytes m n) =
     (if n < 24 then 1 else if n \<le> 0xff then 2 else if n \<le> 0xffff then 3
      else if n \<le> MAX_UINT32 then 5 else 9)"
  by (simp add: head_bytes_def)

lemma length_head_bytes_le: "length (head_bytes m n) \<le> 9"
  by (simp add: length_head_bytes)

lemma read_bytes_Inr_iff:
  "read_bytes n r = Inr (bs, r') \<longleftrightarrow> r = bs @ r' \<and> length bs = n"
  by (auto simp: read_bytes_def)

lemma read_byte_Inr_iff: "read_byte r = Inr (b, r') \<longleftrightarrow> r = b # r'"
  by (auto simp: read_byte_def split: list.splits)

lemma length_2E: "length xs = 2 \<Longrightarrow> (\<And>a b. xs = [a, b] \<Longrightarrow> P) \<Longrightarrow> P"
  by (cases xs; cases "tl xs") (auto simp: numeral_eq_Suc)

lemma length_4E: "length xs = 4 \<Longrightarrow> (\<And>a b c d. xs = [a, b, c, d] \<Longrightarrow> P) \<Longrightarrow> P"
  by (auto simp: numeral_eq_Suc length_Suc_conv)

lemma read_argument_25_bound:
  assumes "read_argument 25 r = Inr (n, r')"
  shows "n < 2 ^ 16 \<and> length r = 2 + length r'"
proof -
  from assms obtain a b where "r = [a, b] @ r'" and n: "n = be_nat [a, b]"
    by (auto simp: read_argument.simps result_simps read_bytes_Inr_iff be_nat_2 elim!: length_2E)
  with be_nat_less [of "[a, b]"] show ?thesis by simp
qed

lemma read_argument_26_bound:
  assumes "read_argument 26 r = Inr (n, r')"
  shows "n < 2 ^ 32 \<and> length r = 4 + length r'"
proof -
  from assms obtain a b c d where "r = [a, b, c, d] @ r'" and n: "n = be_nat [a, b, c, d]"
    by (auto simp: read_argument.simps result_simps read_bytes_Inr_iff be_nat_4 elim!: length_4E)
  with be_nat_less [of "[a, b, c, d]"] show ?thesis by simp
qed

lemma read_argument_bound:
  assumes "read_argument info r = Inr (n, r')"
  shows "n < 2 ^ 53 \<and> length (head_bytes m n) + length r' \<le> Suc (length r)"
proof -
  consider "info < 24" | "info = 24" | "info = 25" | "info = 26" | "info = 27"
    using assms by (subst (asm) read_argument.simps) (auto split: if_splits)
  then show ?thesis
  proof cases
    case 1
    then have "unat info < 24" by (simp add: word_less_nat_alt)
    with 1 assms show ?thesis by (simp add: read_argument.simps length_head_bytes)
  next
    case 2
    with assms obtain b where "r = b # r'" "n = unat b"
      by (auto simp: read_argument.simps result_simps read_byte_Inr_iff)
    moreover have "unat b \<le> 255" using unat_byte_less [of b] by linarith
    ultimately show ?thesis by (simp add: length_head_bytes)
  next
    case 3
    with assms read_argument_25_bound [of r n r'] show ?thesis
      by (simp add: length_head_bytes)
  next
    case 4
    with assms read_argument_26_bound [of r n r'] show ?thesis
      by (simp add: length_head_bytes MAX_UINT32_def)
  next
    case 5
    with assms obtain h r1 l where h: "read_argument 26 r = Inr (h, r1)"
      and l: "read_argument 26 r1 = Inr (l, r')" and n: "n = h * UINT32_BASE + l"
      and bound: "h \<le> 0x1fffff"
      by (subst (asm) read_argument.simps) (auto simp: result_simps split: if_splits)
    from read_argument_26_bound [OF h] read_argument_26_bound [OF l] n bound
    show ?thesis using length_head_bytes_le [of m n] by (simp add: UINT32_BASE_def)
  qed
qed

lemma read_length_bound:
  assumes "read_length info kind limit r = Inr (n, r')"
  shows "n \<le> limit \<and> length (head_bytes m n) + length r' \<le> Suc (length r)"
  using assms read_argument_bound [of info r n r' m]
  by (auto simp: read_length_def result_simps split: if_splits)

lemma mset_entries_in_order:
  assumes "distinct (map fst es)"
  shows "mset (entries_in_order es) = mset es"
proof -
  have "distinct es" "distinct (entries_in_order es)"
    using assms map_fst_entries_in_order [of es] distinct_js_property_order [of es]
    by (metis distinct_map)+
  with set_entries_in_order [OF assms] show ?thesis
    by (simp add: set_eq_iff_mset_eq_distinct)
qed

lemma length_enc_map:
  assumes "distinct (map fst es)"
  shows "length (enc (CMap es)) =
    length (head_bytes 5 (length es)) +
    sum_list (map (\<lambda>(k, v). length (enc_text k) + length (enc v)) es)"
proof -
  let ?f = "\<lambda>(k, v). length (enc_text k) + length (enc v)"
  have "sum_list (map ?f (entries_in_order es)) = sum_mset (image_mset ?f (mset (entries_in_order es)))"
    by (simp add: sum_mset_sum_list [symmetric] del: sum_mset_sum_list)
  also have "\<dots> = sum_list (map ?f es)"
    by (simp add: mset_entries_in_order [OF assms] sum_mset_sum_list [symmetric]
        del: sum_mset_sum_list)
  finally show ?thesis
    by (simp add: enc_map length_concat comp_def case_prod_unfold del: enc.simps(8))
qed

lemma length_enc_integer_le: "length (enc_integer i) \<le> 9"
  by (simp add: enc_integer_def length_head_bytes_le)

lemma read_simple_accepts:
  assumes "read_simple info r = Inr (v, r')" and "d \<le> max_depth opts"
  shows "cbor_wf v \<and> enc_ok opts d v \<and> length (enc v) + length r' \<le> Suc (length r)"
  using assms length_enc_integer_le
  by (auto simp: read_simple_def result_simps read_bytes_Inr_iff Let_def split: if_splits)

text \<open>Items without children: everything but arrays and maps.\<close>

lemma read_leaf_accepts:
  assumes read: "read_item opts d (b # r) = Inr (v, r')"
    and leaf: "drop_bit 5 b \<noteq> 4" "drop_bit 5 b \<noteq> 5"
  shows "cbor_wf v \<and> enc_ok opts d v \<and> length (enc v) + length r' \<le> Suc (length r)"
proof -
  let ?i = "b AND 31"
  note body = read [unfolded read_item.simps [of opts d "b # r"] read_byte_def Let_def]
  from body have d: "d \<le> max_depth opts" by (auto split: if_splits)
  consider (int) "drop_bit 5 b = 0" | (neg) "drop_bit 5 b = 1" | (bytes) "drop_bit 5 b = 2"
    | (str) "drop_bit 5 b = 3" | (other) "drop_bit 5 b \<notin> {0, 1, 2, 3, 4, 5}"
    using leaf by blast
  then show ?thesis
  proof cases
    case int
    with body d obtain n where n: "read_argument ?i r = Inr (n, r')" and v: "v = CInteger (int n)"
      by (auto simp: result_simps)
    from read_argument_bound [OF n, of 0] v d show ?thesis
      by (simp add: enc_integer_def is_safe_integer_def MIN_SAFE_INTEGER_def MAX_SAFE_INTEGER_def)
  next
    case neg
    with body d obtain n where n: "read_argument ?i r = Inr (n, r')"
      and v: "v = CInteger (-1 - int n)" and min: "\<not> -1 - int n < MIN_SAFE_INTEGER"
      by (auto simp: result_simps split: if_splits)
    from read_argument_bound [OF n, of 1] v d min show ?thesis
      by (simp add: enc_integer_def is_safe_integer_def MIN_SAFE_INTEGER_def MAX_SAFE_INTEGER_def)
  next
    case bytes
    with body d obtain n r2 bs where
      n: "read_length ?i ByteString (max_byte_length opts) r = Inr (n, r2)"
      and "r2 = bs @ r'" "length bs = n" "v = CBytes bs"
      by (auto simp: result_simps read_bytes_Inr_iff)
    with read_length_bound [OF n, of 2] d show ?thesis by simp
  next
    case str
    with body d obtain n r2 bs where
      n: "read_length ?i TextString (max_byte_length opts) r = Inr (n, r2)"
      and "r2 = bs @ r'" "length bs = n" "v = CText (of_bytes bs)" "utf8_valid bs"
      by (auto simp: result_simps read_bytes_Inr_iff split: if_splits)
    with read_length_bound [OF n, of 3] d show ?thesis by (simp add: enc_text_def)
  next
    case other
    with body d have "read_simple ?i r = Inr (v, r')" by (auto split: if_splits)
    from read_simple_accepts [OF this d] show ?thesis by simp
  qed
qed

text \<open>
  A value the decoder returns is well formed, within every limit, and its own encoding is no
  longer than the bytes it was read from.
\<close>

lemma read_accepts:
  "read_item opts d r = Inr (v, r') \<Longrightarrow>
     cbor_wf v \<and> enc_ok opts d v \<and> length (enc v) + length r' \<le> length r"
  "read_items opts d n r = Inr (vs, r') \<Longrightarrow>
     length vs = n \<and> list_all (\<lambda>v. cbor_wf v \<and> enc_ok opts d v) vs \<and>
     sum_list (map (length \<circ> enc) vs) + length r' \<le> length r"
  "\<lbrakk>read_entries opts d n acc r = Inr (es, r'); distinct (map fst acc)\<rbrakk> \<Longrightarrow>
     \<exists>new. es = acc @ new \<and> length new = n \<and> distinct (map fst es) \<and>
       list_all (\<lambda>(k, v). utf8_valid (as_bytes k) \<and> cbor_wf v) new \<and>
       list_all (\<lambda>(k, v). length k \<le> max_byte_length opts \<and> enc_ok opts d v) new \<and>
       sum_list (map (\<lambda>(k, v). length (enc_text k) + length (enc v)) new) + length r' \<le> length r"
proof (induction opts d r and opts d n r and opts d n acc r
    arbitrary: v r' and vs r' and es r' rule: read_item_read_items_read_entries.induct)
  case (1 opts d r)
  from "1.prems" obtain b r1 where d: "d \<le> max_depth opts" and r: "r = b # r1"
    by (subst (asm) read_item.simps) (auto simp: result_simps read_byte_Inr_iff split: if_splits)
  note body = "1.prems" [unfolded r read_item.simps [of opts d "b # r1"] read_byte_def Let_def]
  have rd: "\<not> max_depth opts < d" "read_byte r = Inr (b, r1)"
    using d r by (simp_all add: read_byte_def)
  consider (arr) "drop_bit 5 b = 4" | (obj) "drop_bit 5 b = 5"
    | (leaf) "drop_bit 5 b \<noteq> 4" "drop_bit 5 b \<noteq> 5" by blast
  then show ?case
  proof cases
    case arr
    with body d obtain n r2 items where
      n: "read_length (b AND 31) ArrayItem (max_container_length opts) r1 = Inr (n, r2)"
      and it: "read_items opts (d + 1) n r2 = Inr (items, r')" and v: "v = CArray items"
      by (auto simp: result_simps)
    from "1.IH"(1) [OF rd refl refl refl _ _ _ _ arr n refl it] arr v d r
      read_length_bound [OF n, of 4]
    show ?thesis by (simp add: length_concat list_all_iff comp_def)
  next
    case obj
    with body d obtain n r2 es where
      n: "read_length (b AND 31) MapItem (max_container_length opts) r1 = Inr (n, r2)"
      and it: "read_entries opts (d + 1) n [] r2 = Inr (es, r')" and v: "v = CMap es"
      by (auto simp: result_simps)
    from "1.IH"(2) [OF rd refl refl refl _ _ _ _ _ obj n refl it] obj
    have es: "length es = n" "distinct (map fst es)"
      "list_all (\<lambda>(k, v). utf8_valid (as_bytes k) \<and> cbor_wf v) es"
      "list_all (\<lambda>(k, v). length k \<le> max_byte_length opts \<and> enc_ok opts (d + 1) v) es"
      "sum_list (map (\<lambda>(k, v). length (enc_text k) + length (enc v)) es) + length r' \<le> length r2"
      by auto
    with v d r read_length_bound [OF n, of 5] length_enc_map [OF es(2)] show ?thesis
      by (simp del: enc.simps(8))
  next
    case leaf
    with read_leaf_accepts [of opts d b r1 v r'] "1.prems" r show ?thesis by simp
  qed
next
  case (3 opts d n r)
  from "3.prems" obtain v r1 vs1 where v: "read_item opts d r = Inr (v, r1)"
    and vs1: "read_items opts d n r1 = Inr (vs1, r')" and "vs = v # vs1"
    by (auto simp: result_simps)
  with "3.IH"(1) [OF v] "3.IH"(2) [OF v refl vs1] show ?case by simp
next
  case (5 opts d n acc r)
  from "5.prems"(1) obtain key r1 where key: "read_item opts d r = Inr (key, r1)"
    by (auto simp: result_simps)
  with "5.prems"(1) obtain k where key_text: "key = CText k"
    by (cases key) auto
  note k = key [unfolded key_text]
  from "5.prems"(1) k obtain v r2 where fresh: "k \<notin> set (map fst acc)"
    and v: "read_item opts d r1 = Inr (v, r2)"
    and es: "read_entries opts d n (acc @ [(k, v)]) r2 = Inr (es, r')"
    by (auto simp: result_simps split: if_splits)
  have "distinct (map fst (acc @ [(k, v)]))" using fresh "5.prems"(2) by simp
  from "5.IH"(3) [OF k refl refl fresh v refl es this] "5.IH"(1) [OF k]
    "5.IH"(2) [OF k refl refl fresh v]
  show ?case by fastforce
qed auto

section \<open>Encoding what was read back\<close>

lemma js_property_order_stable:
  assumes "map fst es' = js_property_order es"
  shows "js_property_order es' = js_property_order es"
proof -
  let ?i = "\<lambda>k. map_option (\<lambda>i. (i, k)) (js_array_index k)"
  let ?ks = "map fst es"
  let ?srt = "sort_key fst (List.map_filter ?i ?ks)"
  let ?none = "filter (\<lambda>k. js_array_index k = None) ?ks"
  have tagged: "\<forall>p\<in>set ?srt. js_array_index (snd p) = Some (fst p)"
    by (auto simp: set_map_filter)
  have mf: "List.map_filter ?i (map snd ps) = ps"
    if "\<forall>p\<in>set ps. js_array_index (snd p) = Some (fst p)" for ps
    using that by (induction ps) (auto simp: List.map_filter_simps)
  have mf0: "List.map_filter ?i (filter (\<lambda>k. js_array_index k = None) ks) = []" for ks
    by (induction ks) (auto simp: List.map_filter_simps)
  have app: "List.map_filter ?i (xs @ ys) = List.map_filter ?i xs @ List.map_filter ?i ys" for xs ys
    by (induction xs) (auto simp: List.map_filter_simps split: option.splits)
  have fl: "filter (\<lambda>k. js_array_index k = None) (map snd ?srt) = []"
    using tagged by (auto simp: filter_empty_conv)
  have keys: "map fst es' = map snd ?srt @ ?none"
    using assms by (simp add: js_property_order_def Let_def)
  have "js_property_order es' = map snd (sort_key fst ?srt) @ ?none"
    unfolding js_property_order_def Let_def keys app mf [OF tagged] mf0
    using fl by simp
  also have "sort_key fst ?srt = ?srt" by (simp add: sort_key_id_if_sorted)
  finally show ?thesis by (simp add: js_property_order_def Let_def)
qed

lemma entries_in_order_idem:
  assumes "distinct (map fst es)"
  shows "entries_in_order (entries_in_order es) = entries_in_order es"
proof -
  have m: "map_of (entries_in_order es) = map_of es"
    using assms set_entries_in_order [OF assms]
    by (intro map_of_inject_set [THEN iffD2])
      (simp_all add: map_fst_entries_in_order distinct_js_property_order)
  have o: "js_property_order (entries_in_order es) = js_property_order es"
    by (rule js_property_order_stable [OF map_fst_entries_in_order])
  show ?thesis
    by (subst entries_in_order_def) (simp only: m o entries_in_order_def [of es, symmetric])
qed

lemma enc_norm: "cbor_wf v \<Longrightarrow> enc (cbor_norm v) = enc v"
proof (induction v rule: cbor_norm.induct)
  case (2 items)
  then have "map (enc \<circ> cbor_norm) items = map enc items"
    by (auto simp: list_all_iff)
  then show ?case by (simp del: map_eq_conv)
next
  case (3 es)
  then have dist: "distinct (map fst es)" by simp
  have "\<forall>(k, v)\<in>set es. enc (cbor_norm v) = enc v" using 3 by (auto simp: list_all_iff)
  then have same: "map (\<lambda>(k, v). enc_text k @ enc (cbor_norm v)) (entries_in_order es) =
      map (\<lambda>(k, v). enc_text k @ enc v) (entries_in_order es)"
    by (auto simp: set_entries_in_order [OF dist])
  have "enc (cbor_norm (CMap es)) = head_bytes 5 (length es) @
      concat (map (\<lambda>(k, v). enc_text k @ enc (cbor_norm v)) (entries_in_order es))"
    unfolding cbor_norm_map enc_map entries_in_order_map entries_in_order_idem [OF dist]
    by (simp add: comp_def case_prod_unfold)
  with same show ?case by (simp add: enc_map del: enc.simps(8) cbor_norm.simps(3) map_eq_conv)
qed (auto simp: enc_integer_def)

section \<open>The codec as a whole\<close>

text \<open>The limits of a \<^verbatim>\<open>CborOptions\<close> value are \<^verbatim>\<open>u32\<close>s.\<close>

definition options_u32 :: "cbor_options \<Rightarrow> bool" where
  "options_u32 opts \<longleftrightarrow> max_byte_length opts < 2 ^ 32 \<and> max_container_length opts < 2 ^ 32"

lemma enc_ne: "enc v \<noteq> []"
  by (cases v) (auto simp: enc_integer_def enc_text_def head_bytes_ne)

lemma encode_cbor_Inr_iff:
  assumes "cbor_wf v"
  shows "encode_cbor v opts = Inr bs \<longleftrightarrow>
    max_depth opts \<le> MAX_CONFIGURED_DEPTH \<and> enc_ok opts 0 v \<and>
    length (enc v) \<le> max_byte_length opts \<and> bs = enc v"
  using enc_ne [of v]
  by (auto simp: encode_cbor_def resolve_def result_simps encode_refines(1) [OF assms] writes_def
      writer_new_def)

lemma decode_cbor_enc:
  assumes "options_u32 opts" "cbor_wf v" "enc_ok opts 0 v"
    and "max_depth opts \<le> MAX_CONFIGURED_DEPTH" "length (enc v) \<le> max_byte_length opts"
  shows "decode_cbor (enc v) opts = Inr (cbor_norm v)"
  using assms read_enc [of opts v 0 "[]"]
  by (simp add: decode_cbor_def resolve_def decode_def options_u32_def)

lemma decode_cbor_accepts:
  assumes "decode_cbor bs opts = Inr v"
  shows "max_depth opts \<le> MAX_CONFIGURED_DEPTH \<and> length bs \<le> max_byte_length opts \<and>
    cbor_wf v \<and> enc_ok opts 0 v \<and> length (enc v) \<le> length bs"
proof -
  from assms have "read_item opts 0 bs = Inr (v, [])" "length bs \<le> max_byte_length opts"
      "max_depth opts \<le> MAX_CONFIGURED_DEPTH"
    by (auto simp: decode_cbor_def resolve_def decode_def result_simps split: if_splits)
  with read_accepts(1) [of opts 0 bs v "[]"] show ?thesis by simp
qed

lemma js_array_index_inj:
  assumes "js_array_index k = Some i" and "js_array_index l = Some i"
  shows "k = l"
proof -
  have canonical: "k = show_nat (parse_digits k)" if "list_all is_ascii_digit k" "k \<noteq> []"
      "length k > 1 \<longrightarrow> hd k \<noteq> CHR ''0''" for k
    using that
  proof (induction k rule: rev_induct)
    case (snoc c k)
    have digit: "48 \<le> (of_char c :: nat)" "(of_char c :: nat) \<le> 57"
      using snoc.prems(1) by (simp_all add: is_ascii_digit_def)
    then have c: "char_of (48 + (of_char c - 48 :: nat)) = c" "of_char c - 48 < (10 :: nat)"
      by simp_all
    show ?case
    proof (cases "k = []")
      case True
      with c show ?thesis using parse_digits_snoc [of "[]" c] by (simp add: show_nat.simps)
    next
      case False
      have k: "k = show_nat (parse_digits k)" using snoc False by (cases k) auto
      have "parse_digits k \<noteq> 0"
      proof
        assume "parse_digits k = 0"
        moreover have "char_of (48 :: nat) = CHR ''0''" by code_simp
        ultimately have "k = ''0''" using k by (simp add: show_nat.simps)
        with snoc.prems show False by simp
      qed
      then have "show_nat (parse_digits k * 10 + (of_char c - 48)) =
          show_nat (parse_digits k) @ [c]"
        using c by (subst show_nat.simps) simp
      with k show ?thesis by simp
    qed
  qed simp
  from assms have "parse_digits k = i" "parse_digits l = i"
    by (auto simp: js_array_index_def Let_def split: if_splits)
  moreover have "k = show_nat (parse_digits k)" "l = show_nat (parse_digits l)"
    using assms by (intro canonical; auto simp: js_array_index_def split: if_splits)+
  ultimately show ?thesis by simp
qed

section \<open>Properties\<close>

text \<open>
  C33. What the CBOR encoder does: \<open>encode_cbor\<close> succeeds exactly on the values within the
  configured limits (depth, container and string lengths, total length, safe integers, finite
  floats), and the bytes it returns are then the reference encoding \<open>enc\<close>, written in one go
  without a writer or limits.
\<close>

theorem encode_cbor_refines:
  assumes "cbor_wf v"
  shows "encode_cbor v opts = Inr bs \<longleftrightarrow>
    max_depth opts \<le> MAX_CONFIGURED_DEPTH \<and> enc_ok opts 0 v \<and>
    length (enc v) \<le> max_byte_length opts \<and> bs = enc v"
  by (rule encode_cbor_Inr_iff [OF assms])

theorem encode_cbor_refines_witness:
  "encode_cbor (CMap [(''b'', CInteger (-1)), (''1'', CBool True)]) default_cbor_options =
     Inr [0xa2, 0x61, 0x31, 0xf5, 0x61, 0x62, 0x20]"
proof -
  let ?v = "CMap [(''b'', CInteger (-1)), (''1'', CBool True)]"
  have wf: "cbor_wf ?v"
    by (simp add: utf8_valid_def utf8_chunk.simps as_bytes_def)
  show ?thesis
    unfolding encode_cbor_refines [OF wf]
    by (simp add: default_cbor_options_def MAX_CONFIGURED_DEPTH_def is_safe_integer_def
        MIN_SAFE_INTEGER_def MAX_SAFE_INTEGER_def enc_text_def enc_integer_def head_bytes_def
        as_bytes_def entries_in_order_def js_property_order_def js_array_index_def
        is_ascii_digit_def parse_digits_def MAX_UINT32_def List.map_filter_simps)
qed

text \<open>
  C4. CBOR round trip: whatever \<open>encode_cbor\<close> writes, \<open>decode_cbor\<close> under the same limits reads
  back, as the same value up to JavaScript's view of it (\<open>cbor_norm\<close>: integral floats are
  integers, map entries are in property order).
\<close>

theorem cbor_roundtrip:
  assumes "options_u32 opts" and "cbor_wf v" and "encode_cbor v opts = Inr bs"
  shows "decode_cbor bs opts = Inr (cbor_norm v)"
  using assms by (simp add: encode_cbor_Inr_iff decode_cbor_enc)

theorem cbor_roundtrip_witness:
  "decode_cbor [0x82, 0x18, 0x2a, 0x41, 0x07] default_cbor_options =
     Inr (CArray [CInteger 42, CBytes [7]])"
proof -
  have "encode_cbor (CArray [CInteger 42, CBytes [7]]) default_cbor_options =
      Inr [0x82, 0x18, 0x2a, 0x41, 0x07]"
    by (simp add: encode_cbor_Inr_iff default_cbor_options_def MAX_CONFIGURED_DEPTH_def
        is_safe_integer_def MIN_SAFE_INTEGER_def MAX_SAFE_INTEGER_def enc_integer_def
        head_bytes_def)
  from cbor_roundtrip [OF _ _ this] show ?thesis
    by (simp add: options_u32_def default_cbor_options_def)
qed

text \<open>
  Encoding is stable: re-encoding what a peer decoded from our bytes gives the very same
  bytes, so a relayed message does not change on the wire.
\<close>

theorem cbor_reencode_stable:
  assumes "options_u32 opts" and "cbor_wf v" and "encode_cbor v opts = Inr bs"
    and "decode_cbor bs opts = Inr v'"
  shows "encode_cbor v' opts = Inr bs"
proof -
  from assms have v': "v' = cbor_norm v" by (simp add: encode_cbor_Inr_iff decode_cbor_enc)
  from decode_cbor_accepts [OF assms(4)] have "cbor_wf v'" "enc_ok opts 0 v'" by auto
  with assms v' enc_norm [OF assms(2)] show ?thesis by (simp add: encode_cbor_Inr_iff)
qed

theorem cbor_reencode_stable_witness:
  "encode_cbor (CMap [(''2'', CNull), (''a'', CInteger 0)]) default_cbor_options =
     Inr [0xa2, 0x61, 0x32, 0xf6, 0x61, 0x61, 0x00]"
proof -
  let ?v = "CMap [(''a'', CFloat 0), (''2'', CNull)]"
  have wf: "cbor_wf ?v" by (simp add: utf8_valid_def utf8_chunk.simps as_bytes_def)
  have u32: "options_u32 default_cbor_options"
    by (simp add: options_u32_def default_cbor_options_def)
  have e: "encode_cbor ?v default_cbor_options =
      Inr [0xa2, 0x61, 0x32, 0xf6, 0x61, 0x61, 0x00]"
    unfolding encode_cbor_Inr_iff [OF wf]
    by (simp add: default_cbor_options_def MAX_CONFIGURED_DEPTH_def is_integral_float_def
        is_safe_integral_float_def is_negative_zero_def f64_is_finite_def f64_exp_def f64_mag_def
        f64_frac_def f64_sign_def f64_as_i64_def enc_text_def enc_integer_def head_bytes_def
        as_bytes_def entries_in_order_def js_property_order_def js_array_index_def
        is_ascii_digit_def parse_digits_def MAX_UINT32_def List.map_filter_simps)
  have "cbor_norm ?v = CMap [(''2'', CNull), (''a'', CInteger 0)]"
    by (simp add: is_integral_float_def is_negative_zero_def f64_is_finite_def f64_exp_def
        f64_mag_def f64_frac_def f64_sign_def f64_as_i64_def entries_in_order_def
        js_property_order_def js_array_index_def is_ascii_digit_def parse_digits_def MAX_UINT32_def
        List.map_filter_simps)
  then have d: "decode_cbor [0xa2, 0x61, 0x32, 0xf6, 0x61, 0x61, 0x00] default_cbor_options =
      Inr (CMap [(''2'', CNull), (''a'', CInteger 0)])"
    using e u32 wf decode_cbor_enc [of default_cbor_options ?v]
    by (simp add: encode_cbor_Inr_iff [OF wf] del: enc.simps cbor_norm.simps)
  from cbor_reencode_stable [OF u32 wf e d] show ?thesis .
qed

text \<open>
  C34. Strictness of the CBOR decoder: a value it accepts has UTF-8 text and distinct string keys,
  keeps every limit of the options (nesting depth, container and string lengths, safe integers,
  finite floats), and can be encoded again under the same limits in no more bytes than were
  received.
\<close>

theorem cbor_decode_strict:
  assumes "decode_cbor bs opts = Inr v"
  shows "length bs \<le> max_byte_length opts \<and> cbor_wf v \<and> enc_ok opts 0 v \<and>
    (\<exists>bs'. encode_cbor v opts = Inr bs' \<and> length bs' \<le> length bs)"
  using decode_cbor_accepts [OF assms] by (auto simp: encode_cbor_Inr_iff)

theorem cbor_decode_strict_witness:
  "cbor_wf (CInteger 5) \<and> enc_ok default_cbor_options 0 (CInteger 5) \<and>
    (\<exists>bs'. encode_cbor (CInteger 5) default_cbor_options = Inr bs' \<and>
       length bs' \<le> length [0x18 :: byte, 0x05])"
proof -
  have "decode_cbor [0x18, 0x05] default_cbor_options = Inr (CInteger 5)"
    by (simp add: decode_cbor_def resolve_def default_cbor_options_def MAX_CONFIGURED_DEPTH_def
        decode_def read_item.simps read_byte_def read_argument.simps)
  from cbor_decode_strict [OF this] show ?thesis by blast
qed

end
