(* ===== verification/Protocol_Codec.thy ===== *)
theory Protocol_Codec
  imports Framing Cbor_Codec
begin

text \<open>
  Validation, CBOR and framing tied together: \<^verbatim>\<open>pi-rs/crates/pi-protocol/src/codec.rs\<close>. The message
  type \<open>'m\<close> stands for \<^verbatim>\<open>ClientMessage\<close> and \<^verbatim>\<open>ServerMessage\<close>; what the code takes from the type is a
  parameter: \<open>serialize\<close> and \<open>deserialize\<close> are the conversions to and from JSON that \<^verbatim>\<open>serde\<close> derives,
  \<open>validate\<close> is the trait method \<^verbatim>\<open>Validate::validate\<close>. The record \<open>message_decoder\<close> is
  \<^verbatim>\<open>ValidatedMessageDecoder\<close>; \<open>push\<close> on it is partial only because the frame decoder's loop is, and
  it returns on every state a decoder reaches.
\<close>

section \<open>Errors\<close>

datatype message_kind = Client | Server

fun message_kind_str :: "message_kind \<Rightarrow> string" where
  "message_kind_str Client = ''client''"
| "message_kind_str Server = ''server''"

datatype protocol_validation_error =
    InvalidMessage message_kind
  | EncodeError message_kind string
  | InvalidFrame message_kind string
  | InvalidFraming message_kind string
  | DecoderFailed message_kind

fun protocol_error_code :: "protocol_validation_error \<Rightarrow> string" where
  "protocol_error_code (InvalidMessage _) = ''protocol_invalid_message''"
| "protocol_error_code (EncodeError _ _) = ''protocol_encode_failed''"
| "protocol_error_code (InvalidFrame _ _) = ''protocol_invalid_frame''"
| "protocol_error_code (InvalidFraming _ _) = ''protocol_invalid_framing''"
| "protocol_error_code (DecoderFailed _) = ''protocol_decoder_failed''"

fun protocol_error_kind :: "protocol_validation_error \<Rightarrow> message_kind" where
  "protocol_error_kind (InvalidMessage kind) = kind"
| "protocol_error_kind (EncodeError kind _) = kind"
| "protocol_error_kind (InvalidFrame kind _) = kind"
| "protocol_error_kind (InvalidFraming kind _) = kind"
| "protocol_error_kind (DecoderFailed kind) = kind"

text \<open>The \<^verbatim>\<open>Display\<close> texts of the two lower layers.\<close>

fun frame_error_display :: "frame_error \<Rightarrow> string" where
  "frame_error_display PayloadTooLarge =
     ''Frame payload exceeds the unsigned 32-bit length limit''"
| "frame_error_display IncompleteLengthPrefix =
     ''Frame does not contain a complete length prefix''"
| "frame_error_display (FrameLengthLimit len limit) =
     ''Frame length '' @ show_nat len @ '' exceeds configured limit of '' @ show_nat limit"
| "frame_error_display NotExactlyOnePayload =
     ''Frame must contain exactly one complete payload''"
| "frame_error_display Ended = ''Frame decoder has ended''"
| "frame_error_display Failed = ''Frame decoder has failed''"
| "frame_error_display TruncatedStream = ''Truncated frame at end of stream''"

fun cbor_error_display :: "cbor_error \<Rightarrow> string" where
  "cbor_error_display (ByteLengthLimit limit) =
     ''CBOR byte length exceeds configured limit of '' @ show_nat limit"
| "cbor_error_display (LengthLimit kind limit) =
     ''CBOR '' @ cbor_item_kind_str kind @ '' length exceeds configured limit of '' @
     show_nat limit"
| "cbor_error_display (DepthLimit limit) =
     ''CBOR nesting depth exceeds configured limit of '' @ show_nat limit"
| "cbor_error_display NonFiniteNumber = ''CBOR numbers must be finite''"
| "cbor_error_display UnsafeInteger = ''CBOR integers must be safe JavaScript integers''"
| "cbor_error_display TrailingData = ''CBOR payload contains trailing data''"
| "cbor_error_display Truncated = ''Truncated CBOR payload''"
| "cbor_error_display DecodedUnsafeInteger = ''Decoded CBOR integer is outside the safe range''"
| "cbor_error_display DecodedUnsafeArgument =
     ''Decoded CBOR integer or length is outside the safe range''"
| "cbor_error_display DecodedNonFiniteNumber = ''Decoded CBOR number must be finite''"
| "cbor_error_display InvalidUtf8 = ''CBOR text string contains invalid UTF-8''"
| "cbor_error_display TagsUnsupported = ''CBOR tags are not supported''"
| "cbor_error_display BreakUnsupported = ''CBOR break marker is not supported''"
| "cbor_error_display UnsupportedSimpleValue =
     ''Unsupported CBOR simple value or floating-point width''"
| "cbor_error_display (IndefiniteLength kind) =
     ''Indefinite-length CBOR '' @ cbor_item_kind_str kind @ ''s are not supported''"
| "cbor_error_display IndefiniteItem = ''Indefinite-length CBOR items are not supported''"
| "cbor_error_display MalformedAdditionalInformation =
     ''Malformed CBOR additional information''"
| "cbor_error_display NonStringMapKey = ''CBOR map keys must be strings''"
| "cbor_error_display DuplicateMapKey = ''CBOR map contains a duplicate key''"
| "cbor_error_display (InvalidLimit name maximum) =
     name @ '' must be an integer between 0 and '' @ show_nat maximum"

definition bounded :: "string \<Rightarrow> string" where
  "bounded reason =
     (if chars_count reason \<le> 500 then reason else take_chars 497 reason @ ''...'')"

section \<open>Parsing and encoding\<close>

definition parse_message_json ::
  "(json \<Rightarrow> 'm option) \<Rightarrow> ('m \<Rightarrow> bool) \<Rightarrow> message_kind \<Rightarrow> json \<Rightarrow>
   protocol_validation_error + 'm" where
  "parse_message_json deserialize validate kind value =
     res_bind (ok_or (deserialize value) (InvalidMessage kind)) (\<lambda>message.
       if validate message then Inr message else Inl (InvalidMessage kind))"

definition parse_message ::
  "(json \<Rightarrow> 'm option) \<Rightarrow> ('m \<Rightarrow> bool) \<Rightarrow> message_kind \<Rightarrow> cbor_value \<Rightarrow>
   protocol_validation_error + 'm" where
  "parse_message deserialize validate kind value =
     res_bind (ok_or (to_json value) (InvalidMessage kind))
       (parse_message_json deserialize validate kind)"

definition encode_protocol_message ::
  "('m \<Rightarrow> string + json) \<Rightarrow> ('m \<Rightarrow> bool) \<Rightarrow> message_kind \<Rightarrow> frame_decoder_options \<Rightarrow> 'm \<Rightarrow>
   protocol_validation_error + byte list" where
  "encode_protocol_message serialize validate kind options message =
     (if \<not> validate message then Inl (InvalidMessage kind)
      else
        res_bind (map_err (\<lambda>e. EncodeError kind (bounded e)) (serialize message)) (\<lambda>json.
        res_bind (map_err (\<lambda>e. EncodeError kind (bounded (cbor_error_display e)))
          (encode_cbor (from_json json)
            (with_max_byte_length (max_frame_length options) default_cbor_options)))
          (\<lambda>payload.
        res_bind (map_err (\<lambda>e. EncodeError kind (bounded (frame_error_display e)))
          (encode_frame payload)) (\<lambda>frame.
        res_bind (map_err (\<lambda>e. EncodeError kind (bounded (frame_error_display e)))
          (assert_complete_frame frame options)) (\<lambda>_. Inr frame)))))"

section \<open>Streaming decoders\<close>

record 'm message_decoder =
  md_failed :: bool
  md_frames :: frame_decoder
  md_kind :: message_kind
  md_max_frame_length :: nat
  md_parse :: "cbor_value \<Rightarrow> protocol_validation_error + 'm"

definition message_decoder_new ::
  "message_kind \<Rightarrow> (cbor_value \<Rightarrow> protocol_validation_error + 'm) \<Rightarrow> frame_decoder_options \<Rightarrow>
   'm message_decoder" where
  "message_decoder_new kind parse options =
     \<lparr>md_failed = False, md_frames = frame_decoder_with_options options, md_kind = kind,
      md_max_frame_length = max_frame_length options, md_parse = parse\<rparr>"

fun decode_frames ::
  "(cbor_value \<Rightarrow> protocol_validation_error + 'm) \<Rightarrow> message_kind \<Rightarrow> nat \<Rightarrow> byte list list \<Rightarrow>
   protocol_validation_error + 'm list" where
  "decode_frames parse kind max_frame [] = Inr []"
| "decode_frames parse kind max_frame (frame # rest) =
     res_bind (map_err (\<lambda>e. InvalidFrame kind (bounded (cbor_error_display e)))
       (decode_cbor frame (with_max_byte_length max_frame default_cbor_options))) (\<lambda>value.
     res_bind (parse value) (\<lambda>message.
     res_bind (decode_frames parse kind max_frame rest) (\<lambda>messages.
       Inr (message # messages))))"

definition message_push_inner ::
  "'m message_decoder \<Rightarrow> byte list \<Rightarrow>
   ('m message_decoder \<times> (protocol_validation_error + 'm list)) option" where
  "message_push_inner d chunk =
     (case frame_push (md_frames d) chunk of
        None \<Rightarrow> None
      | Some (fd, r) \<Rightarrow>
          Some (d\<lparr>md_frames := fd\<rparr>,
            res_bind (map_err (\<lambda>e. InvalidFrame (md_kind d) (bounded (frame_error_display e))) r)
              (decode_frames (md_parse d) (md_kind d) (md_max_frame_length d))))"

definition message_push ::
  "'m message_decoder \<Rightarrow> byte list \<Rightarrow>
   ('m message_decoder \<times> (protocol_validation_error + 'm list)) option" where
  "message_push d chunk =
     (if md_failed d then Some (d, Inl (DecoderFailed (md_kind d)))
      else case message_push_inner d chunk of
             None \<Rightarrow> None
           | Some (d', Inr messages) \<Rightarrow> Some (d', Inr messages)
           | Some (d', Inl error) \<Rightarrow> Some (d'\<lparr>md_failed := True\<rparr>, Inl error))"

definition message_end ::
  "'m message_decoder \<Rightarrow> 'm message_decoder \<times> (protocol_validation_error + unit)" where
  "message_end d =
     (if md_failed d then (d, Inl (DecoderFailed (md_kind d)))
      else case frame_end (md_frames d) of
             (fd, Inr u) \<Rightarrow> (d\<lparr>md_frames := fd\<rparr>, Inr u)
           | (fd, Inl e) \<Rightarrow>
               (d\<lparr>md_frames := fd, md_failed := True\<rparr>,
                Inl (InvalidFraming (md_kind d) (bounded (frame_error_display e)))))"

definition encode_client_message where
  "encode_client_message serialize validate message options =
     encode_protocol_message serialize validate Client options message"

definition encode_server_message where
  "encode_server_message serialize validate message options =
     encode_protocol_message serialize validate Server options message"

definition client_message_decoder where
  "client_message_decoder deserialize validate options =
     message_decoder_new Client (parse_message deserialize validate Client) options"

definition server_message_decoder where
  "server_message_decoder deserialize validate options =
     message_decoder_new Server (parse_message deserialize validate Server) options"

section \<open>Decoding a whole stream\<close>

text \<open>
  The reference of the message decoders: split the stream into frames, then decode and parse
  every frame. A stream with a frame that is refused has no rest.
\<close>

definition message_split ::
  "message_kind \<Rightarrow> (cbor_value \<Rightarrow> protocol_validation_error + 'm) \<Rightarrow> nat \<Rightarrow> byte list \<Rightarrow>
   'm list \<times> byte list option" where
  "message_split kind parse limit bs =
     (case split_frames limit bs of
        (fs, Inl n) \<Rightarrow> ([], None)
      | (fs, Inr rest) \<Rightarrow>
          (case decode_frames parse kind limit fs of
             Inl e \<Rightarrow> ([], None)
           | Inr messages \<Rightarrow> (messages, Some rest)))"

definition message_ready ::
  "message_kind \<Rightarrow> (cbor_value \<Rightarrow> protocol_validation_error + 'm) \<Rightarrow> nat \<Rightarrow>
   'm message_decoder \<Rightarrow> bool" where
  "message_ready kind parse limit d \<longleftrightarrow>
     \<not> md_failed d \<and> md_kind d = kind \<and> md_parse d = parse \<and> md_max_frame_length d = limit \<and>
     frame_ready limit (md_frames d)"

definition message_pending :: "'m message_decoder \<Rightarrow> byte list" where
  "message_pending d = frame_pending (md_frames d)"

lemma decode_frames_append:
  "decode_frames parse kind limit (fs @ gs) =
     res_bind (decode_frames parse kind limit fs) (\<lambda>ms.
     res_bind (decode_frames parse kind limit gs) (\<lambda>ns. Inr (ms @ ns)))"
  by (induction fs) (auto simp: res_bind_def split: sum.splits)

lemma message_split_Some_iff:
  "message_split kind parse limit bs = (out, Some rest) \<longleftrightarrow>
     (\<exists>fs. split_frames limit bs = (fs, Inr rest) \<and> decode_frames parse kind limit fs = Inr out)"
  by (auto simp: message_split_def split: prod.splits sum.splits)

lemma message_split_None_iff:
  "snd (message_split kind parse limit bs) = None \<longleftrightarrow>
     (\<exists>fs n. split_frames limit bs = (fs, Inl n)) \<or>
     (\<exists>fs rest e. split_frames limit bs = (fs, Inr rest) \<and>
        decode_frames parse kind limit fs = Inl e)"
  by (auto simp: message_split_def split: prod.splits sum.splits)

lemma message_push_ok:
  assumes "message_ready kind parse limit d"
    and "message_split kind parse limit (message_pending d @ chunk) = (out, Some rest)"
  shows "\<exists>d'. message_push d chunk = Some (d', Inr out) \<and> message_ready kind parse limit d' \<and>
    message_pending d' = rest"
proof -
  from assms have ready: "frame_ready limit (md_frames d)" by (simp add: message_ready_def)
  from assms(2) obtain fs where
    sp: "split_frames limit (frame_pending (md_frames d) @ chunk) = (fs, Inr rest)"
    and dec: "decode_frames parse kind limit fs = Inr out"
    by (auto simp: message_split_Some_iff message_pending_def)
  from frame_push_refines [OF ready, of chunk] sp obtain fd where
    "frame_push (md_frames d) chunk = Some (fd, Inr fs)" "frame_ready limit fd"
    "frame_pending fd = rest"
    by auto
  with assms(1) dec show ?thesis
    by (simp add: message_push_def message_push_inner_def message_ready_def message_pending_def)
qed

lemma message_push_error:
  assumes "message_ready kind parse limit d"
    and "snd (message_split kind parse limit (message_pending d @ chunk)) = None"
  shows "\<exists>d' e. message_push d chunk = Some (d', Inl e) \<and> md_failed d'"
proof -
  from assms have ready: "frame_ready limit (md_frames d)" by (simp add: message_ready_def)
  obtain fs t where sp: "split_frames limit (frame_pending (md_frames d) @ chunk) = (fs, t)"
    by fastforce
  from frame_push_refines [OF ready, of chunk] sp assms show ?thesis
    by (cases t)
      (auto simp: message_push_def message_push_inner_def message_ready_def message_pending_def
        message_split_None_iff)
qed

interpretation messages: incremental_decoder message_push "message_ready kind parse limit"
  message_pending "message_split kind parse limit" for kind parse limit
proof (unfold_locales, goal_cases)
  case (1 s c out rest)
  then show ?case by (rule message_push_ok)
next
  case (2 s c out)
  with message_push_error [of kind parse limit s c] show ?case by auto
next
  case (3 s)
  then have "fd_max_frame_length (md_frames s) = limit" "frame_inv (md_frames s)"
    by (auto simp: message_ready_def frame_ready_def)
  with split_frames_pending [of "md_frames s"] show ?case
    by (simp add: message_split_Some_iff message_pending_def)
next
  case (4 a out rest b out' rest')
  then obtain fs gs where fs: "split_frames limit a = (fs, Inr rest)"
    "decode_frames parse kind limit fs = Inr out"
    "split_frames limit (rest @ b) = (gs, Inr rest')"
    "decode_frames parse kind limit gs = Inr out'"
    by (auto simp: message_split_Some_iff)
  with split_frames_resume [OF fs(1), of b] show ?case
    by (simp add: message_split_Some_iff decode_frames_append)
next
  case (5 a out rest b)
  then obtain fs where fs: "split_frames limit a = (fs, Inr rest)"
    "decode_frames parse kind limit fs = Inr out"
    by (auto simp: message_split_Some_iff)
  from 5(2) split_frames_resume [OF fs(1), of b] fs(2) show ?case
    by (auto simp: message_split_None_iff decode_frames_append)
next
  case (6 a out b)
  then have "snd (message_split kind parse limit a) = None" by simp
  then consider fs n where "split_frames limit a = (fs, Inl n)"
    | fs rest e where "split_frames limit a = (fs, Inr rest)"
        "decode_frames parse kind limit fs = Inl e"
    by (auto simp: message_split_None_iff)
  then show ?case
  proof cases
    case 1
    from split_frames_failed [OF this, of b] show ?thesis by (simp add: message_split_def)
  next
    case 2
    with split_frames_resume [OF 2(1), of b] show ?thesis
      by (auto simp: message_split_def decode_frames_append split: sum.splits)
  qed
qed

lemma message_ready_new:
  "limit < 2 ^ 32 \<Longrightarrow>
     message_ready kind parse limit (message_decoder_new kind parse (with_max_frame_length limit))"
  using frame_ready_new [of limit]
  by (simp add: message_ready_def message_decoder_new_def with_max_frame_length_def)

lemma message_pending_new [simp]:
  "message_pending (message_decoder_new kind parse options) = []"
  by (simp add: message_pending_def message_decoder_new_def)

lemma message_end_ready:
  assumes "message_ready kind parse limit d"
  shows "snd (message_end d) =
    (if message_pending d = [] then Inr ()
     else Inl (InvalidFraming kind (bounded (frame_error_display TruncatedStream))))"
proof -
  from assms have "frame_ready limit (md_frames d)" by (simp add: message_ready_def)
  from frame_end_ready [OF this] assms show ?thesis
    by (cases "frame_end (md_frames d)")
      (auto simp: message_end_def message_ready_def message_pending_def split: if_splits)
qed

lemma contains_bytes_norm_from_json: "\<not> contains_bytes (cbor_norm (from_json j))"
proof (induction j rule: from_json.induct)
  case (3 number)
  then show ?case by (simp add: number_to_cbor_def split: option.splits)
next
  case (6 entries)
  let ?es = "map (\<lambda>(k, v). (k, cbor_norm v)) (map (\<lambda>(key, value). (key, from_json value)) entries)"
  have "set (entries_in_order es) \<subseteq> set es" for es :: "(string \<times> cbor_value) list"
    by (auto simp: entries_in_order_def List.map_filter_def dest: map_of_SomeD)
  from this [of ?es] have "set (entries_in_order ?es) \<subseteq> set ?es" .
  with 6 show ?case by (fastforce simp: list_ex_iff)
qed (simp_all add: list_ex_iff)

lemma enc_ok_finite: "enc_ok opts d v \<Longrightarrow> all_finite v"
  by (induction opts d v rule: enc_ok.induct) (auto simp: list_all_iff)

lemma encode_protocol_message_Inr_iff:
  "encode_protocol_message serialize validate kind options m = Inr frame \<longleftrightarrow>
     validate m \<and> (\<exists>j payload. serialize m = Inr j \<and>
       encode_cbor (from_json j)
         (with_max_byte_length (max_frame_length options) default_cbor_options) = Inr payload \<and>
       encode_frame payload = Inr frame \<and> assert_complete_frame frame options = Inr ())"
  by (auto simp: encode_protocol_message_def result_simps)

text \<open>
  \<open>wire_json\<close> is the JSON a peer reads: integral floats have become integers, and the entries of
  objects are in JavaScript's property order.
\<close>

definition wire_float :: "f64 \<Rightarrow> json_number" where
  "wire_float v =
     (if is_integral_float v \<and> \<not> is_negative_zero v then number_from_i64 (f64_as_i64 v) else JFloat v)"

fun wire_number :: "json_number \<Rightarrow> json_number" where
  "wire_number (PosInt n) = (if n < 2 ^ 63 then PosInt n else wire_float (f64_of_nat n))"
| "wire_number (NegInt i) = number_from_i64 i"
| "wire_number (JFloat v) = wire_float v"

fun wire_json :: "json \<Rightarrow> json" where
  "wire_json (JNumber n) = JNumber (wire_number n)"
| "wire_json (JArray items) = JArray (map wire_json items)"
| "wire_json (JObject entries) = JObject (entries_in_order (map (\<lambda>(k, v). (k, wire_json v)) entries))"
| "wire_json j = j"

lemma wire_float_json:
  "f64_is_finite v \<Longrightarrow> to_json (cbor_norm (CFloat v)) = Some (JNumber (wire_float v))"
  by (auto simp: wire_float_def is_safe_integral_float_def)

lemma wire_json_from_json:
  "all_finite (cbor_norm (from_json j)) \<Longrightarrow> to_json (cbor_norm (from_json j)) = Some (wire_json j)"
proof (induction j rule: wire_json.induct)
  case (1 n)
  have "f64_is_finite v \<Longrightarrow> to_json (cbor_norm (CFloat v)) = Some (JNumber (wire_float v))" for v
    by (rule wire_float_json)
  moreover have "all_finite (cbor_norm (CFloat v)) \<Longrightarrow> f64_is_finite v" for v
    by (auto simp: is_integral_float_def split: if_splits)
  ultimately show ?case using 1
    by (cases n) (auto simp: number_to_cbor_def number_from_i64_def simp del: cbor_norm.simps(1) split: if_splits)
next
  case (2 items)
  then have "\<forall>x\<in>set items. to_json (cbor_norm (from_json x)) = Some (wire_json x)" by (auto simp: list_all_iff)
  then show ?case by (simp add: those_map_same [where g = wire_json] comp_def)
next
  case (3 entries)
  have sub: "set (entries_in_order entries) \<subseteq> set entries"
    by (auto simp: entries_in_order_def List.map_filter_def dest: map_of_SomeD)
  have norm: "cbor_norm (from_json (JObject entries)) =
      CMap (map (\<lambda>(k, v). (k, cbor_norm (from_json v))) (entries_in_order entries))"
    using entries_in_order_map [of "\<lambda>v. cbor_norm (from_json v)" entries] by (simp add: comp_def case_prod_unfold)
  with 3 sub have "\<forall>e\<in>set (entries_in_order entries).
      map_option (Pair (fst e)) (to_json (cbor_norm (from_json (snd e)))) = Some (fst e, wire_json (snd e))"
    by (fastforce simp: list_all_iff)
  then show ?case unfolding norm
    using entries_in_order_map [of wire_json entries]
    by (simp add: those_map_same [where g = "\<lambda>e. (fst e, wire_json (snd e))"] comp_def case_prod_unfold)
qed simp_all

text \<open>
  What a message becomes at the other end: \<^verbatim>\<open>serde\<close> writes it as JSON, whose text is UTF-8 and whose
  objects have distinct keys, and reads it from the JSON that arrives.
\<close>

definition arrives_as ::
  "('m \<Rightarrow> string + json) \<Rightarrow> (json \<Rightarrow> 'm option) \<Rightarrow> ('m \<Rightarrow> bool) \<Rightarrow> 'm \<Rightarrow> 'm \<Rightarrow> bool" where
  "arrives_as serialize deserialize validate m m' \<longleftrightarrow>
     (\<exists>j. serialize m = Inr j \<and> cbor_wf (from_json j) \<and> deserialize (wire_json j) = Some m' \<and> validate m')"

text \<open>One message: what the encoder frames, the decoder's body of the loop reads back.\<close>

lemma decode_encoded_message:
  assumes "max_frame_length options < 2 ^ 32"
    and "encode_protocol_message serialize validate kind options m = Inr frame"
    and "arrives_as serialize deserialize validate m m'"
  shows "\<exists>payload. encode_frame payload = Inr frame \<and>
    length payload \<le> max_frame_length options \<and>
    decode_frames (parse_message deserialize validate kind) kind (max_frame_length options)
      [payload] = Inr [m']"
proof -
  let ?opts = "with_max_byte_length (max_frame_length options) default_cbor_options"
  from assms(2,3) obtain j payload where j: "serialize m = Inr j"
    and wf: "cbor_wf (from_json j)" and m': "deserialize (wire_json j) = Some m'" "validate m'"
    and enc: "encode_cbor (from_json j) ?opts = Inr payload"
    and frame: "encode_frame payload = Inr frame"
    by (auto simp: encode_protocol_message_Inr_iff arrives_as_def)
  have u32: "options_u32 ?opts"
    using assms(1) by (simp add: options_u32_def with_max_byte_length_def default_cbor_options_def)
  from enc wf have len: "length payload \<le> max_frame_length options"
    by (simp add: encode_cbor_Inr_iff with_max_byte_length_def)
  from enc wf u32 have dec: "decode_cbor payload ?opts = Inr (cbor_norm (from_json j))"
    by (auto simp: encode_cbor_Inr_iff decode_cbor_enc)
  then have "to_json (cbor_norm (from_json j)) = Some (wire_json j)"
    using decode_cbor_accepts enc_ok_finite wire_json_from_json by blast
  with m' dec frame len show ?thesis
    by (auto simp: parse_message_def parse_message_json_def ok_or_def)
qed

lemma decode_encoded_messages:
  assumes "max_frame_length options < 2 ^ 32"
    and "list_all2 (\<lambda>m f. encode_protocol_message serialize validate kind options m = Inr f) ms fs"
    and "list_all2 (arrives_as serialize deserialize validate) ms ms'"
  shows "\<exists>ps. list_all2 (\<lambda>p f. length p \<le> max_frame_length options \<and> encode_frame p = Inr f) ps fs \<and>
    decode_frames (parse_message deserialize validate kind) kind (max_frame_length options) ps =
      Inr ms'"
  using assms(2,3)
proof (induction arbitrary: ms' rule: list_all2_induct)
  case Nil
  then show ?case by simp
next
  case (Cons m ms f fs)
  then obtain m' ms'' where ms': "ms' = m' # ms''" "arrives_as serialize deserialize validate m m'"
    "list_all2 (arrives_as serialize deserialize validate) ms ms''" by (auto simp: list_all2_Cons1)
  with Cons obtain ps where ps:
    "list_all2 (\<lambda>p f. length p \<le> max_frame_length options \<and> encode_frame p = Inr f) ps fs"
    "decode_frames (parse_message deserialize validate kind) kind (max_frame_length options) ps =
      Inr ms''"
    by blast
  obtain p where p: "encode_frame p = Inr f" "length p \<le> max_frame_length options"
    "decode_frames (parse_message deserialize validate kind) kind (max_frame_length options) [p] =
      Inr [m']"
    using decode_encoded_message [OF assms(1) Cons.hyps(1) ms'(2)] by blast
  have "decode_frames (parse_message deserialize validate kind) kind (max_frame_length options)
      (p # ps) = Inr (m' # ms'')"
    using decode_frames_append [of "parse_message deserialize validate kind" kind
        "max_frame_length options" "[p]" ps]
    unfolding p(3) ps(2) by (simp del: decode_frames.simps)
  with p ps ms'(1) show ?case by (intro exI [of _ "p # ps"]) simp
qed

lemma chars_count_bounded: "chars_count (bounded s) \<le> 500"
proof (cases "chars_count s \<le> 500")
  case True
  then show ?thesis by (simp add: bounded_def)
next
  case False
  have "chars_count (take_chars 497 s @ ''...'') = chars_count (take_chars 497 s) + 3"
    by (simp add: chars_count_def is_cont_char_def utf8_cont_def)
  with False chars_count_take [of 497 s] show ?thesis by (simp add: bounded_def)
qed

section \<open>Message decoders in use\<close>

inductive message_reachable ::
  "message_kind \<Rightarrow> (cbor_value \<Rightarrow> protocol_validation_error + 'm) \<Rightarrow> nat \<Rightarrow>
   'm message_decoder \<Rightarrow> bool"
  for kind parse limit where
  mr_new: "message_reachable kind parse limit
    (message_decoder_new kind parse (with_max_frame_length limit))"
| mr_push: "\<lbrakk>message_reachable kind parse limit d; message_push d chunk = Some (d', r)\<rbrakk> \<Longrightarrow>
    message_reachable kind parse limit d'"
| mr_end: "\<lbrakk>message_reachable kind parse limit d; message_end d = (d', r)\<rbrakk> \<Longrightarrow>
    message_reachable kind parse limit d'"

text \<open>
  A decoder that has not failed is either open, or its frame decoder has ended.
\<close>

definition message_inv ::
  "message_kind \<Rightarrow> (cbor_value \<Rightarrow> protocol_validation_error + 'm) \<Rightarrow> nat \<Rightarrow>
   'm message_decoder \<Rightarrow> bool" where
  "message_inv kind parse limit d \<longleftrightarrow>
     md_kind d = kind \<and> md_parse d = parse \<and> md_max_frame_length d = limit \<and>
     (md_failed d \<or> frame_ready limit (md_frames d) \<or> fd_state (md_frames d) = StateEnded)"

lemma message_inv_cases:
  assumes "message_inv kind parse limit d"
  obtains (failed) "md_failed d" | (ready) "message_ready kind parse limit d"
  | (ended) "\<not> md_failed d" "fd_state (md_frames d) = StateEnded" "md_kind d = kind"
  using assms by (auto simp: message_inv_def message_ready_def)

lemma message_push_fields:
  "message_push d chunk = Some (d', r) \<Longrightarrow>
     md_kind d' = md_kind d \<and> md_parse d' = md_parse d \<and>
     md_max_frame_length d' = md_max_frame_length d"
  by (auto simp: message_push_def message_push_inner_def split: if_splits option.splits sum.splits)

lemma message_push_inv:
  assumes "message_inv kind parse limit d"
  shows "\<exists>d' r. message_push d chunk = Some (d', r) \<and> message_inv kind parse limit d' \<and>
    (md_failed d' \<longleftrightarrow> (\<exists>e. r = Inl e))"
  using assms
proof (cases rule: message_inv_cases)
  case failed
  with assms show ?thesis by (simp add: message_push_def)
next
  case ready
  show ?thesis
  proof (cases "snd (message_split kind parse limit (message_pending d @ chunk))")
    case None
    with message_push_error [OF ready None] message_push_fields assms show ?thesis
      by (fastforce simp: message_inv_def)
  next
    case (Some rest)
    then obtain out where "message_split kind parse limit (message_pending d @ chunk) =
        (out, Some rest)" by (metis prod.collapse)
    from message_push_ok [OF ready this] show ?thesis
      by (auto simp: message_inv_def message_ready_def)
  qed
next
  case ended
  with assms show ?thesis
    by (simp add: message_push_def message_push_inner_def frame_push_def message_inv_def)
qed

lemma message_end_inv:
  assumes "message_inv kind parse limit d" and "message_end d = (d', r)"
  shows "message_inv kind parse limit d'"
proof (cases "md_failed d \<or> fd_state (md_frames d) = StateEnded")
  case True
  with assms show ?thesis
    by (auto simp: message_end_def message_inv_def frame_end_def split: if_splits)
next
  case False
  with assms have "frame_ready limit (md_frames d)" by (auto simp: message_inv_def)
  with False assms show ?thesis
    by (auto simp: message_end_def message_inv_def frame_end_def frame_fail_def frame_ready_def
        split: if_splits)
qed

lemma message_reachable_inv:
  assumes "message_reachable kind parse limit d" and "limit < 2 ^ 32"
  shows "message_inv kind parse limit d"
  using assms
proof (induction rule: message_reachable.induct)
  case mr_new
  with message_ready_new [of limit kind parse] show ?case
    by (simp add: message_inv_def message_ready_def)
next
  case (mr_push d chunk d' r)
  with message_push_inv [of kind parse limit d chunk] show ?case by auto
next
  case (mr_end d d' r)
  with message_end_inv [of kind parse limit d d' r] show ?case by simp
qed

fun error_reason :: "protocol_validation_error \<Rightarrow> string" where
  "error_reason (EncodeError _ reason) = reason"
| "error_reason (InvalidFrame _ reason) = reason"
| "error_reason (InvalidFraming _ reason) = reason"
| "error_reason _ = []"

lemma decode_frames_reason:
  assumes "\<And>v e. parse v = Inl e \<Longrightarrow> chars_count (error_reason e) \<le> 500"
  shows "decode_frames parse kind limit fs = Inl e \<Longrightarrow> chars_count (error_reason e) \<le> 500"
proof (induction fs)
  case (Cons f fs)
  then show ?case
    by (auto simp: res_bind_def map_err_def chars_count_bounded assms split: sum.splits)
qed simp

lemma parse_message_reason:
  "parse_message deserialize validate kind v = Inl e \<Longrightarrow> e = InvalidMessage kind"
  by (auto simp: parse_message_def parse_message_json_def res_bind_def ok_or_def
      split: sum.splits option.splits if_splits)

lemma message_push_reason:
  assumes "message_push d chunk = Some (d', Inl e)"
    and "\<And>v e. md_parse d v = Inl e \<Longrightarrow> chars_count (error_reason e) \<le> 500"
  shows "chars_count (error_reason e) \<le> 500"
  using assms(1) decode_frames_reason [of "md_parse d" "md_kind d" "md_max_frame_length d", OF assms(2)]
  by (auto simp: message_push_def message_push_inner_def res_bind_def map_err_def
      chars_count_bounded split: if_splits option.splits sum.splits)
    (simp add: chars_count_def)

section \<open>Properties\<close>

text \<open>
  C3. The wire protocol end to end: messages that \<open>encode_protocol_message\<close> frames, concatenated
  and cut into chunks in any way, are returned by a fresh decoder with the same limit, one for one and
  in order, and \<open>end\<close> then succeeds. A message is returned as what \<^verbatim>\<open>serde\<close> reads from the JSON it
  wrote for it, with the entries of objects in JavaScript order and integral floats as integers
  (\<open>wire_json\<close>): 2.0 arrives as 2. What arrives has to pass the validation of the receiver.
\<close>

theorem protocol_stream_roundtrip:
  assumes "limit < 2 ^ 32"
    and "list_all2 (\<lambda>m f. encode_protocol_message serialize validate kind
           (with_max_frame_length limit) m = Inr f) ms fs"
    and "list_all2 (\<lambda>m m'. \<exists>j. serialize m = Inr j \<and> cbor_wf (from_json j) \<and>
           deserialize (wire_json j) = Some m' \<and> validate m') ms ms'"
    and "concat chunks = concat fs"
  shows "\<exists>d. push_all message_push
      (message_decoder_new kind (parse_message deserialize validate kind)
        (with_max_frame_length limit)) chunks = Some (d, Inr ms') \<and>
    snd (message_end d) = Inr ()"
proof -
  let ?parse = "parse_message deserialize validate kind"
  have max: "max_frame_length (with_max_frame_length limit) = limit"
    by (simp add: with_max_frame_length_def)
  from decode_encoded_messages [of "with_max_frame_length limit" serialize validate kind ms fs
      deserialize ms'] assms(1-3)
  obtain ps where
    ps: "list_all2 (\<lambda>p f. length p \<le> limit \<and> encode_frame p = Inr f) ps fs"
    "decode_frames ?parse kind limit ps = Inr ms'"
    unfolding max arrives_as_def [abs_def] by blast
  have "message_split kind ?parse limit (concat chunks) = (ms', Some [])"
    using split_frames_encoded [OF assms(1) ps(1)] ps(2) assms(4)
    by (simp add: message_split_Some_iff)
  with messages.push_all_ok [OF message_ready_new [OF assms(1)], of kind ?parse chunks ms' "[]"]
  show ?thesis by (auto simp: message_end_ready)
qed

text \<open>
  The messages of the witness are JSON values that are sent as they are: an object with the entries
  \<^verbatim>\<open>x\<close>, the float 2.0, and \<^verbatim>\<open>1\<close>, null.
\<close>

definition demo_float :: f64 where
  "demo_float = 0x4000000000000000"

definition demo_object :: json where
  "demo_object = JObject [(''x'', JNumber (JFloat demo_float)), (''1'', JNull)]"

lemma demo_float_mag: "f64_mag demo_float = 2 * f64_unit" "\<not> f64_sign demo_float" "f64_is_finite demo_float"
proof -
  have "(2::nat) ^ 52 * 2 ^ 1023 = 2 * 2 ^ 1074" by (simp only: flip: power_add power_Suc) simp
  moreover have "f64_exp demo_float = 1024" "f64_frac demo_float = 0"
    by (simp_all add: demo_float_def f64_exp_def f64_frac_def)
  ultimately show "f64_mag demo_float = 2 * f64_unit" "f64_is_finite demo_float"
    unfolding f64_mag_def f64_unit_def f64_is_finite_def by simp_all
  show "\<not> f64_sign demo_float" by (simp add: demo_float_def f64_sign_def)
qed

lemma demo_float_simps [simp]:
  "is_integral_float demo_float" "\<not> is_negative_zero demo_float" "is_safe_integral_float demo_float"
  "f64_as_i64 demo_float = 2"
proof -
  have "0 < f64_unit" by (simp add: f64_unit_def)
  then show "is_integral_float demo_float" "\<not> is_negative_zero demo_float" "is_safe_integral_float demo_float"
    "f64_as_i64 demo_float = 2"
    by (simp_all add: is_integral_float_def is_negative_zero_def is_safe_integral_float_def f64_as_i64_def
        demo_float_mag MAX_SAFE_INTEGER_def)
qed

lemma demo_order [simp]: "entries_in_order [(''x'', a), (''1'', b)] = [(''1'', b), (''x'', a)]"
  by (simp add: entries_in_order_def js_property_order_def js_array_index_def is_ascii_digit_def
      parse_digits_def MAX_UINT32_def List.map_filter_simps)

lemma demo_message_wf: "cbor_wf (from_json demo_object)"
  by (simp add: demo_object_def number_to_cbor_def utf8_valid_def utf8_chunk.simps as_bytes_def)

lemma demo_encode:
  "encode_protocol_message Inr (\<lambda>_. True) Client (with_max_frame_length 64) demo_object =
     Inr [0, 0, 0, 7, 0xa2, 0x61, 0x31, 0xf6, 0x61, 0x78, 2]"
proof -
  have "encode_cbor (from_json demo_object) (with_max_byte_length 64 default_cbor_options) =
      Inr [0xa2, 0x61, 0x31, 0xf6, 0x61, 0x78, 2]"
    unfolding encode_cbor_Inr_iff [OF demo_message_wf]
    by (simp add: demo_object_def number_to_cbor_def default_cbor_options_def with_max_byte_length_def
        MAX_CONFIGURED_DEPTH_def enc_text_def head_bytes_def as_bytes_def enc_integer_def demo_float_mag)
  then show ?thesis
    by (simp add: encode_protocol_message_Inr_iff with_max_frame_length_def
        encode_frame_def be_bytes_numeral assert_complete_frame_def FRAME_HEADER_LENGTH_def
        be_nat_def)
qed

theorem protocol_stream_roundtrip_witness:
  "\<exists>d. push_all message_push
      (message_decoder_new Client (parse_message Some (\<lambda>_. True) Client) (with_max_frame_length 64))
      [[0, 0, 0], [7, 0xa2, 0x61, 0x31, 0xf6, 0x61, 0x78, 2, 0, 0, 0, 7, 0xa2], [0x61, 0x31, 0xf6, 0x61, 0x78, 2]] =
      Some (d, Inr [JObject [(''1'', JNull), (''x'', JNumber (PosInt 2))],
        JObject [(''1'', JNull), (''x'', JNumber (PosInt 2))]]) \<and>
    snd (message_end d) = Inr ()"
proof -
  let ?f = "[0, 0, 0, 7, 0xa2, 0x61, 0x31, 0xf6, 0x61, 0x78, 2]"
  have "wire_json demo_object = JObject [(''1'', JNull), (''x'', JNumber (PosInt 2))]"
    by (simp add: demo_object_def wire_float_def number_from_i64_def)
  then show ?thesis
    by (intro protocol_stream_roundtrip [where serialize = Inr and ms = "[demo_object, demo_object]" and fs = "[?f, ?f]"])
      (simp_all add: demo_encode demo_message_wf)
qed

text \<open>
  Safety of the message decoders: in every state that \<open>push\<close> and \<open>end\<close> calls can bring a decoder
  to, \<open>push\<close> returns; an error it reports makes it fail for good, so that every later \<open>push\<close> answers
  \<open>DecoderFailed\<close>; and the reason an error carries never exceeds 500 characters, whatever the peer
  sent.
\<close>

theorem message_push_safe:
  assumes "message_reachable kind (parse_message deserialize validate kind) limit d"
    and "limit < 2 ^ 32"
  shows "\<exists>d' r. message_push d chunk = Some (d', r) \<and>
    (\<forall>e. r = Inl e \<longrightarrow> chars_count (error_reason e) \<le> 500 \<and>
       (\<forall>chunk'. message_push d' chunk' = Some (d', Inl (DecoderFailed kind)) \<and>
          message_end d' = (d', Inl (DecoderFailed kind))))"
proof -
  let ?parse = "parse_message deserialize validate kind"
  note inv = message_reachable_inv [OF assms]
  from message_push_inv [OF inv, of chunk] obtain d' r
    where push: "message_push d chunk = Some (d', r)" and inv': "message_inv kind ?parse limit d'"
      and failed: "md_failed d' \<longleftrightarrow> (\<exists>e. r = Inl e)" by blast
  have "md_parse d = ?parse" using inv by (simp add: message_inv_def)
  then have "chars_count (error_reason e) \<le> 500" if "r = Inl e" for e
    using message_push_reason [of d chunk d' e] push that parse_message_reason
    by (fastforce simp: chars_count_def)
  moreover have "md_kind d' = kind" using inv' by (simp add: message_inv_def)
  ultimately show ?thesis
    using push failed by (auto simp: message_push_def [of d'] message_end_def)
qed

theorem message_push_safe_witness:
  "\<exists>d' r. message_push
      (message_decoder_new Server (parse_message Some (\<lambda>_. True) Server)
        (with_max_frame_length 8)) [0, 0, 0, 9] = Some (d', r) \<and>
    (\<forall>e. r = Inl e \<longrightarrow> chars_count (error_reason e) \<le> 500 \<and>
       (\<forall>chunk'. message_push d' chunk' = Some (d', Inl (DecoderFailed Server)) \<and>
          message_end d' = (d', Inl (DecoderFailed Server))))"
  by (rule message_push_safe [OF message_reachable.mr_new]) simp

end
