(* ===== verification/Session_Types.thy ===== *)
theory Session_Types
  imports Cbor_Value "HOL-Library.Char_ord" "HOL-Library.List_Lexorder"
begin

text \<open>
  The vocabulary of sessions: content blocks and messages
  (\<^verbatim>\<open>pi-rs/crates/pi-core/src/content.rs\<close>, \<^verbatim>\<open>message.rs\<close>), the message union that sessions persist
  (\<^verbatim>\<open>pi-rs/crates/pi-session/src/messages.rs\<close>), session errors (\<^verbatim>\<open>error.rs\<close>), entries, records,
  queries and log items (\<^verbatim>\<open>types.rs\<close>). A struct is a record whose fields carry a short prefix for
  the struct, an enum is a datatype with the source's variants; \<^verbatim>\<open>serde_json::Map\<close> is an
  association list in insertion order; \<^verbatim>\<open>i64\<close> is \<open>int\<close>, with the wrap-around of an addition written
  out by \<open>i64_wrap\<close>; \<^verbatim>\<open>f64\<close> is the bit pattern of the float theory.
\<close>

type_synonym json_map = "(string \<times> json) list"

section \<open>Content blocks\<close>

record text_content =
  tc_text :: string
  tc_text_signature :: "string option"

record thinking_content =
  th_thinking :: string
  th_thinking_signature :: "string option"
  th_redacted :: bool

record image_content =
  im_data :: string
  im_mime_type :: string

record tool_call =
  call_id :: string
  call_name :: string
  call_arguments :: json_map
  call_thought_signature :: "string option"
  call_namespace :: "string option"

definition tool_call_new :: "string \<Rightarrow> string \<Rightarrow> tool_call" where
  "tool_call_new i name =
     \<lparr>call_id = i, call_name = name, call_arguments = [], call_thought_signature = None,
      call_namespace = None\<rparr>"

datatype assistant_content =
    ACText text_content
  | ACThinking thinking_content
  | ACToolCall tool_call

fun ac_as_text :: "assistant_content \<Rightarrow> text_content option" where
  "ac_as_text (ACText t) = Some t"
| "ac_as_text _ = None"

fun ac_as_thinking :: "assistant_content \<Rightarrow> thinking_content option" where
  "ac_as_thinking (ACThinking t) = Some t"
| "ac_as_thinking _ = None"

fun ac_as_tool_call :: "assistant_content \<Rightarrow> tool_call option" where
  "ac_as_tool_call (ACToolCall t) = Some t"
| "ac_as_tool_call _ = None"

fun ac_kind :: "assistant_content \<Rightarrow> string" where
  "ac_kind (ACText _) = ''text''"
| "ac_kind (ACThinking _) = ''thinking''"
| "ac_kind (ACToolCall _) = ''toolCall''"

datatype input_content =
    ICText text_content
  | ICImage image_content

definition input_text :: "string \<Rightarrow> input_content" where
  "input_text t = ICText \<lparr>tc_text = t, tc_text_signature = None\<rparr>"

definition input_image :: "string \<Rightarrow> string \<Rightarrow> input_content" where
  "input_image data mime_type = ICImage \<lparr>im_data = data, im_mime_type = mime_type\<rparr>"

fun ic_as_text :: "input_content \<Rightarrow> text_content option" where
  "ic_as_text (ICText t) = Some t"
| "ic_as_text (ICImage _) = None"

section \<open>Usage\<close>

record cost =
  cost_input :: f64
  cost_output :: f64
  cost_cache_read :: f64
  cost_cache_write :: f64
  cost_total :: f64

record usage =
  us_input :: int
  us_output :: int
  us_cache_read :: int
  us_cache_write :: int
  us_cache_write_1h :: "int option"
  us_reasoning :: "int option"
  us_total_tokens :: int
  us_cost :: cost

definition usage_default :: usage where
  "usage_default =
     \<lparr>us_input = 0, us_output = 0, us_cache_read = 0, us_cache_write = 0,
      us_cache_write_1h = None, us_reasoning = None, us_total_tokens = 0,
      us_cost = \<lparr>cost_input = 0, cost_output = 0, cost_cache_read = 0, cost_cache_write = 0,
                 cost_total = 0\<rparr>\<rparr>"

definition context_tokens :: "usage \<Rightarrow> int" where
  "context_tokens u =
     (if us_total_tokens u \<noteq> 0 then us_total_tokens u
      else i64_wrap (us_input u + us_output u + us_cache_read u + us_cache_write u))"

fun add_optional :: "int option \<Rightarrow> int option \<Rightarrow> int option" where
  "add_optional None None = None"
| "add_optional a b =
     Some (i64_wrap ((case a of None \<Rightarrow> 0 | Some x \<Rightarrow> x) + (case b of None \<Rightarrow> 0 | Some x \<Rightarrow> x)))"

definition usage_add :: "usage \<Rightarrow> usage \<Rightarrow> usage" where
  "usage_add u v =
     \<lparr>us_input = i64_wrap (us_input u + us_input v),
      us_output = i64_wrap (us_output u + us_output v),
      us_cache_read = i64_wrap (us_cache_read u + us_cache_read v),
      us_cache_write = i64_wrap (us_cache_write u + us_cache_write v),
      us_cache_write_1h = add_optional (us_cache_write_1h u) (us_cache_write_1h v),
      us_reasoning = add_optional (us_reasoning u) (us_reasoning v),
      us_total_tokens = i64_wrap (us_total_tokens u + us_total_tokens v),
      us_cost =
        \<lparr>cost_input = f64_add (cost_input (us_cost u)) (cost_input (us_cost v)),
         cost_output = f64_add (cost_output (us_cost u)) (cost_output (us_cost v)),
         cost_cache_read = f64_add (cost_cache_read (us_cost u)) (cost_cache_read (us_cost v)),
         cost_cache_write = f64_add (cost_cache_write (us_cost u)) (cost_cache_write (us_cost v)),
         cost_total = f64_add (cost_total (us_cost u)) (cost_total (us_cost v))\<rparr>\<rparr>"

section \<open>Provider messages\<close>

datatype stop_reason =
    SRPending | SRStop | SRLength | SRToolUse | SRError | SRAborted | SRDeferred

definition is_terminal :: "stop_reason \<Rightarrow> bool" where
  "is_terminal r \<longleftrightarrow> r \<noteq> SRPending"

record deferred_handle =
  dh_provider :: string
  dh_model_id :: string
  dh_api :: string
  dh_id :: string
  dh_expires_at :: "int option"
  dh_poll_after_ms :: "nat option"
  dh_data :: "json option"

datatype diagnostic_severity = DSInfo | DSWarning | DSError

record assistant_message_diagnostic =
  diag_code :: string
  diag_message :: string
  diag_severity :: "diagnostic_severity option"
  diag_detail :: "json option"
  diag_timestamp :: "int option"

datatype user_content =
    UCText string
  | UCBlocks "input_content list"

fun user_content_to_text :: "user_content \<Rightarrow> string" where
  "user_content_to_text (UCText s) = s"
| "user_content_to_text (UCBlocks bs) =
     concat (List.map_filter (\<lambda>b. map_option tc_text (ic_as_text b)) bs)"

fun user_content_blocks :: "user_content \<Rightarrow> input_content list" where
  "user_content_blocks (UCText s) = [input_text s]"
| "user_content_blocks (UCBlocks b) = b"

record user_message =
  um_content :: user_content
  um_timestamp :: int

record assistant_message =
  am_content :: "assistant_content list"
  am_api :: string
  am_provider :: string
  am_model :: string
  am_response_model :: "string option"
  am_response_id :: "string option"
  am_diagnostics :: "assistant_message_diagnostic list option"
  am_usage :: usage
  am_stop_reason :: stop_reason
  am_deferred :: "deferred_handle option"
  am_error_message :: "string option"
  am_raw_stop_reason :: "string option"
  am_end_turn :: "bool option"
  am_timestamp :: int

text \<open>The clock of \<^verbatim>\<open>now_ms()\<close> is an argument.\<close>

definition assistant_message_pending ::
  "int \<Rightarrow> string \<Rightarrow> string \<Rightarrow> string \<Rightarrow> assistant_message" where
  "assistant_message_pending now api provider model =
     \<lparr>am_content = [], am_api = api, am_provider = provider, am_model = model,
      am_response_model = None, am_response_id = None, am_diagnostics = None,
      am_usage = usage_default, am_stop_reason = SRPending, am_deferred = None,
      am_error_message = None, am_raw_stop_reason = None, am_end_turn = None,
      am_timestamp = now\<rparr>"

definition assistant_message_text :: "assistant_message \<Rightarrow> string" where
  "assistant_message_text m =
     concat (List.map_filter (\<lambda>c. map_option tc_text (ac_as_text c)) (am_content m))"

definition tool_calls :: "assistant_message \<Rightarrow> tool_call list" where
  "tool_calls m = List.map_filter ac_as_tool_call (am_content m)"

definition push_diagnostic ::
  "assistant_message \<Rightarrow> assistant_message_diagnostic \<Rightarrow> assistant_message" where
  "push_diagnostic m d =
     m\<lparr>am_diagnostics :=
        Some ((case am_diagnostics m of None \<Rightarrow> [] | Some ds \<Rightarrow> ds) @ [d])\<rparr>"

record tool_result_message =
  tr_tool_call_id :: string
  tr_tool_name :: string
  tr_content :: "input_content list"
  tr_details :: "json option"
  tr_usage :: "usage option"
  tr_added_tool_names :: "string list option"
  tr_is_error :: bool
  tr_timestamp :: int

definition tool_result_text :: "int \<Rightarrow> string \<Rightarrow> string \<Rightarrow> string \<Rightarrow> bool \<Rightarrow> tool_result_message" where
  "tool_result_text now tool_call_id tool_name t is_error =
     \<lparr>tr_tool_call_id = tool_call_id, tr_tool_name = tool_name, tr_content = [input_text t],
      tr_details = None, tr_usage = None, tr_added_tool_names = None, tr_is_error = is_error,
      tr_timestamp = now\<rparr>"

datatype message =
    MUser user_message
  | MAssistant assistant_message
  | MToolResult tool_result_message

fun message_role :: "message \<Rightarrow> string" where
  "message_role (MUser _) = ''user''"
| "message_role (MAssistant _) = ''assistant''"
| "message_role (MToolResult _) = ''toolResult''"

fun message_timestamp :: "message \<Rightarrow> int" where
  "message_timestamp (MUser m) = um_timestamp m"
| "message_timestamp (MAssistant m) = am_timestamp m"
| "message_timestamp (MToolResult m) = tr_timestamp m"

section \<open>The agent's message union\<close>

record bash_execution_message =
  be_command :: string
  be_output :: string
  be_exit_code :: "int option"
  be_cancelled :: bool
  be_truncated :: bool
  be_full_output_path :: "string option"
  be_timestamp :: int
  be_exclude_from_context :: "bool option"

record custom_message =
  cm_custom_type :: string
  cm_content :: user_content
  cm_display :: bool
  cm_details :: "json option"
  cm_timestamp :: int

record branch_summary_message =
  bm_summary :: string
  bm_from_id :: string
  bm_timestamp :: int

record compaction_summary_message =
  csm_summary :: string
  csm_tokens_before :: int
  csm_timestamp :: int

datatype agent_message =
    AUser user_message
  | AAssistant assistant_message
  | AToolResult tool_result_message
  | ABashExecution bash_execution_message
  | ACustom custom_message
  | ABranchSummary branch_summary_message
  | ACompactionSummary compaction_summary_message

fun role :: "agent_message \<Rightarrow> string" where
  "role (AUser _) = ''user''"
| "role (AAssistant _) = ''assistant''"
| "role (AToolResult _) = ''toolResult''"
| "role (ABashExecution _) = ''bashExecution''"
| "role (ACustom _) = ''custom''"
| "role (ABranchSummary _) = ''branchSummary''"
| "role (ACompactionSummary _) = ''compactionSummary''"

fun agent_message_timestamp :: "agent_message \<Rightarrow> int" where
  "agent_message_timestamp (AUser m) = um_timestamp m"
| "agent_message_timestamp (AAssistant m) = am_timestamp m"
| "agent_message_timestamp (AToolResult m) = tr_timestamp m"
| "agent_message_timestamp (ABashExecution m) = be_timestamp m"
| "agent_message_timestamp (ACustom m) = cm_timestamp m"
| "agent_message_timestamp (ABranchSummary m) = bm_timestamp m"
| "agent_message_timestamp (ACompactionSummary m) = csm_timestamp m"

fun as_assistant :: "agent_message \<Rightarrow> assistant_message option" where
  "as_assistant (AAssistant m) = Some m"
| "as_assistant _ = None"

fun as_tool_result :: "agent_message \<Rightarrow> tool_result_message option" where
  "as_tool_result (AToolResult m) = Some m"
| "as_tool_result _ = None"

fun agent_message_from :: "message \<Rightarrow> agent_message" where
  "agent_message_from (MUser m) = AUser m"
| "agent_message_from (MAssistant m) = AAssistant m"
| "agent_message_from (MToolResult m) = AToolResult m"

fun as_llm_message :: "agent_message \<Rightarrow> message option" where
  "as_llm_message (AUser m) = Some (MUser m)"
| "as_llm_message (AAssistant m) = Some (MAssistant m)"
| "as_llm_message (AToolResult m) = Some (MToolResult m)"
| "as_llm_message _ = None"

section \<open>Errors\<close>

datatype session_error =
    NotFound string
  | AlreadyExists string
  | InvalidEntry string
  | InvalidPayload string
  | InvalidLane string
  | InvalidQuery string
  | InvalidForkTarget string
  | Storage string

fun session_error_code :: "session_error \<Rightarrow> string" where
  "session_error_code (NotFound _) = ''not_found''"
| "session_error_code (AlreadyExists _) = ''already_exists''"
| "session_error_code (InvalidEntry _) = ''invalid_entry''"
| "session_error_code (InvalidPayload _) = ''invalid_payload''"
| "session_error_code (InvalidLane _) = ''invalid_lane''"
| "session_error_code (InvalidQuery _) = ''invalid_query''"
| "session_error_code (InvalidForkTarget _) = ''invalid_fork_target''"
| "session_error_code (Storage _) = ''storage''"

fun session_error_message :: "session_error \<Rightarrow> string" where
  "session_error_message (NotFound m) = m"
| "session_error_message (AlreadyExists m) = m"
| "session_error_message (InvalidEntry m) = m"
| "session_error_message (InvalidPayload m) = m"
| "session_error_message (InvalidLane m) = m"
| "session_error_message (InvalidQuery m) = m"
| "session_error_message (InvalidForkTarget m) = m"
| "session_error_message (Storage m) = m"

type_synonym 'a session_result = "session_error + 'a"

section \<open>Entries\<close>

datatype entry_type =
    ETMessage | ETModelChange | ETThinkingLevelChange | ETActiveToolsChange | ETCompaction
  | ETBranchSummary | ETCustom

fun entry_type_str :: "entry_type \<Rightarrow> string" where
  "entry_type_str ETMessage = ''message''"
| "entry_type_str ETModelChange = ''model_change''"
| "entry_type_str ETThinkingLevelChange = ''thinking_level_change''"
| "entry_type_str ETActiveToolsChange = ''active_tools_change''"
| "entry_type_str ETCompaction = ''compaction''"
| "entry_type_str ETBranchSummary = ''branch_summary''"
| "entry_type_str ETCustom = ''custom''"

definition entry_type_from_str :: "string \<Rightarrow> entry_type option" where
  "entry_type_from_str value =
     (if value = ''message'' then Some ETMessage
      else if value = ''model_change'' then Some ETModelChange
      else if value = ''thinking_level_change'' then Some ETThinkingLevelChange
      else if value = ''active_tools_change'' then Some ETActiveToolsChange
      else if value = ''compaction'' then Some ETCompaction
      else if value = ''branch_summary'' then Some ETBranchSummary
      else if value = ''custom'' then Some ETCustom
      else None)"

fun entry_payload_keys :: "entry_type \<Rightarrow> string list" where
  "entry_payload_keys ETMessage = [''message'', ''terminate'']"
| "entry_payload_keys ETModelChange = [''provider'', ''modelId'']"
| "entry_payload_keys ETThinkingLevelChange = [''thinkingLevel'']"
| "entry_payload_keys ETActiveToolsChange = [''activeToolNames'']"
| "entry_payload_keys ETCompaction =
     [''summary'', ''retainedTail'', ''tokensBefore'', ''details'', ''usage'']"
| "entry_payload_keys ETBranchSummary = [''fromId'', ''summary'', ''details'', ''usage'']"
| "entry_payload_keys ETCustom = [''customType'', ''data'']"

record message_entry =
  me_message :: agent_message
  me_terminate :: "bool option"

record model_change_entry =
  mc_provider :: string
  mc_model_id :: string

record thinking_level_entry =
  tl_thinking_level :: string

record active_tools_entry =
  at_active_tool_names :: "string list"

record compaction_entry =
  ce_summary :: string
  ce_retained_tail :: "agent_message list"
  ce_tokens_before :: int
  ce_details :: "json option"
  ce_usage :: "usage option"

record branch_summary_entry =
  bs_from_id :: string
  bs_summary :: string
  bs_details :: "json option"
  bs_usage :: "usage option"

record custom_entry =
  cu_custom_type :: string
  cu_data :: "json option"

datatype entry_payload =
    EPMessage message_entry
  | EPModelChange model_change_entry
  | EPThinkingLevelChange thinking_level_entry
  | EPActiveToolsChange active_tools_entry
  | EPCompaction compaction_entry
  | EPBranchSummary branch_summary_entry
  | EPCustom custom_entry

fun payload_entry_type :: "entry_payload \<Rightarrow> entry_type" where
  "payload_entry_type (EPMessage _) = ETMessage"
| "payload_entry_type (EPModelChange _) = ETModelChange"
| "payload_entry_type (EPThinkingLevelChange _) = ETThinkingLevelChange"
| "payload_entry_type (EPActiveToolsChange _) = ETActiveToolsChange"
| "payload_entry_type (EPCompaction _) = ETCompaction"
| "payload_entry_type (EPBranchSummary _) = ETBranchSummary"
| "payload_entry_type (EPCustom _) = ETCustom"

record provisioned_entry =
  pe_id :: string
  pe_payload :: entry_payload
  pe_extra :: json_map

definition provisioned_entry_new :: "string \<Rightarrow> entry_payload \<Rightarrow> provisioned_entry" where
  "provisioned_entry_new i payload = \<lparr>pe_id = i, pe_payload = payload, pe_extra = []\<rparr>"

definition provisioned_message :: "string \<Rightarrow> agent_message \<Rightarrow> provisioned_entry" where
  "provisioned_message i m =
     provisioned_entry_new i (EPMessage \<lparr>me_message = m, me_terminate = None\<rparr>)"

definition provisioned_custom :: "string \<Rightarrow> string \<Rightarrow> json option \<Rightarrow> provisioned_entry" where
  "provisioned_custom i custom_type data =
     provisioned_entry_new i (EPCustom \<lparr>cu_custom_type = custom_type, cu_data = data\<rparr>)"

record entry =
  e_id :: string
  e_seq :: int
  e_parent_id :: "string option"
  e_timestamp :: int
  e_payload :: entry_payload
  e_extra :: json_map

definition entry_type_of :: "entry \<Rightarrow> entry_type" where
  "entry_type_of e = payload_entry_type (e_payload e)"

definition as_message :: "entry \<Rightarrow> message_entry option" where
  "as_message e = (case e_payload e of EPMessage m \<Rightarrow> Some m | _ \<Rightarrow> None)"

definition as_compaction :: "entry \<Rightarrow> compaction_entry option" where
  "as_compaction e = (case e_payload e of EPCompaction c \<Rightarrow> Some c | _ \<Rightarrow> None)"

definition as_branch_summary :: "entry \<Rightarrow> branch_summary_entry option" where
  "as_branch_summary e = (case e_payload e of EPBranchSummary b \<Rightarrow> Some b | _ \<Rightarrow> None)"

definition as_custom :: "entry \<Rightarrow> custom_entry option" where
  "as_custom e = (case e_payload e of EPCustom c \<Rightarrow> Some c | _ \<Rightarrow> None)"

definition to_provisioned :: "entry \<Rightarrow> provisioned_entry" where
  "to_provisioned e = \<lparr>pe_id = e_id e, pe_payload = e_payload e, pe_extra = e_extra e\<rparr>"

section \<open>Records\<close>

datatype record_type =
    RTOperationStarted | RTAbortRequested | RTOperationFinished | RTStepAttempt | RTToolStarted
  | RTQueueEnqueued | RTQueueCancelled | RTWriteDeferred | RTUsage

fun record_type_str :: "record_type \<Rightarrow> string" where
  "record_type_str RTOperationStarted = ''operation_started''"
| "record_type_str RTAbortRequested = ''abort_requested''"
| "record_type_str RTOperationFinished = ''operation_finished''"
| "record_type_str RTStepAttempt = ''step_attempt''"
| "record_type_str RTToolStarted = ''tool_started''"
| "record_type_str RTQueueEnqueued = ''queue_enqueued''"
| "record_type_str RTQueueCancelled = ''queue_cancelled''"
| "record_type_str RTWriteDeferred = ''write_deferred''"
| "record_type_str RTUsage = ''usage''"

definition record_type_from_str :: "string \<Rightarrow> record_type option" where
  "record_type_from_str value =
     (if value = ''operation_started'' then Some RTOperationStarted
      else if value = ''abort_requested'' then Some RTAbortRequested
      else if value = ''operation_finished'' then Some RTOperationFinished
      else if value = ''step_attempt'' then Some RTStepAttempt
      else if value = ''tool_started'' then Some RTToolStarted
      else if value = ''queue_enqueued'' then Some RTQueueEnqueued
      else if value = ''queue_cancelled'' then Some RTQueueCancelled
      else if value = ''write_deferred'' then Some RTWriteDeferred
      else if value = ''usage'' then Some RTUsage
      else None)"

fun record_payload_keys :: "record_type \<Rightarrow> string list" where
  "record_payload_keys RTOperationStarted = [''sourceLeafId'', ''intent'']"
| "record_payload_keys RTAbortRequested = [''runId'']"
| "record_payload_keys RTOperationFinished = [''runId'', ''outcome'', ''error'']"
| "record_payload_keys RTStepAttempt =
     [''runId'', ''step'', ''attempt'', ''resultEntryId'', ''compactionReason'']"
| "record_payload_keys RTToolStarted =
     [''runId'', ''assistantEntryId'', ''toolIndex'', ''toolCallId'', ''toolName'',
      ''effectiveArgs'', ''resultEntryId'', ''replay'']"
| "record_payload_keys RTQueueEnqueued = [''queue'', ''runId'', ''target'']"
| "record_payload_keys RTQueueCancelled = [''runId'', ''entryId'']"
| "record_payload_keys RTWriteDeferred = [''runId'', ''target'']"
| "record_payload_keys RTUsage =
     [''cause'', ''runId'', ''entryId'', ''toolCallId'', ''attempt'', ''stopReason'', ''details'',
      ''usage'']"

record run_intent =
  ri_original_prompt :: "agent_message list"
  ri_initial_messages :: "provisioned_entry list"
  ri_system_prompt_override :: "string option"
  ri_resume_data :: "json_map option"

record compaction_intent =
  ci_custom_instructions :: "string option"
  ci_result_entry_id :: string

record navigation_intent =
  ni_target_id :: "string option"
  ni_summarize :: bool
  ni_custom_instructions :: "string option"
  ni_label :: "string option"
  ni_summary_entry_id :: "string option"

datatype operation_intent =
    IRun run_intent
  | ICompaction compaction_intent
  | INavigation navigation_intent

datatype operation_kind = OKRun | OKCompaction | OKNavigation

fun intent_kind :: "operation_intent \<Rightarrow> operation_kind" where
  "intent_kind (IRun _) = OKRun"
| "intent_kind (ICompaction _) = OKCompaction"
| "intent_kind (INavigation _) = OKNavigation"

record operation_started_record =
  os_source_leaf_id :: "string option"
  os_intent :: operation_intent

record abort_requested_record =
  ab_run_id :: string

datatype operation_outcome = OOCompleted | OOAborted | OOFailed | OODeclined

record operation_error =
  oe_code :: string
  oe_message :: string

record operation_finished_record =
  of_run_id :: string
  of_outcome :: operation_outcome
  of_error :: "operation_error option"

datatype step_kind = SKAssistant | SKCompaction | SKBranchSummary

datatype compaction_reason = CRManual | CRThreshold | CROverflow

record step_attempt_record =
  sa_run_id :: string
  sa_step :: step_kind
  sa_attempt :: int
  sa_result_entry_id :: string
  sa_compaction_reason :: "compaction_reason option"

datatype tool_replay = TRNever | TRSafe

record tool_started_record =
  ts_run_id :: string
  ts_assistant_entry_id :: string
  ts_tool_index :: int
  ts_tool_call_id :: string
  ts_tool_name :: string
  ts_effective_args :: json_map
  ts_result_entry_id :: string
  ts_replay :: tool_replay

datatype queue_kind = QSteer | QFollowUp | QNextRun

record queue_enqueued_record =
  qe_queue :: queue_kind
  qe_run_id :: "string option"
  qe_target :: provisioned_entry

record queue_cancelled_record =
  qc_run_id :: "string option"
  qc_entry_id :: string

record write_deferred_record =
  wd_run_id :: string
  wd_target :: provisioned_entry

datatype usage_cause =
    UCaAssistant | UCaCompaction | UCaBranchSummary | UCaDeferredFetch | UCaTool | UCaHook
  | UCaAdjustment

record usage_record =
  ur_cause :: usage_cause
  ur_run_id :: "string option"
  ur_entry_id :: "string option"
  ur_tool_call_id :: "string option"
  ur_attempt :: "int option"
  ur_stop_reason :: "stop_reason option"
  ur_details :: "json option"
  ur_usage :: usage

datatype record_payload =
    RPOperationStarted operation_started_record
  | RPAbortRequested abort_requested_record
  | RPOperationFinished operation_finished_record
  | RPStepAttempt step_attempt_record
  | RPToolStarted tool_started_record
  | RPQueueEnqueued queue_enqueued_record
  | RPQueueCancelled queue_cancelled_record
  | RPWriteDeferred write_deferred_record
  | RPUsage usage_record

fun payload_record_type :: "record_payload \<Rightarrow> record_type" where
  "payload_record_type (RPOperationStarted _) = RTOperationStarted"
| "payload_record_type (RPAbortRequested _) = RTAbortRequested"
| "payload_record_type (RPOperationFinished _) = RTOperationFinished"
| "payload_record_type (RPStepAttempt _) = RTStepAttempt"
| "payload_record_type (RPToolStarted _) = RTToolStarted"
| "payload_record_type (RPQueueEnqueued _) = RTQueueEnqueued"
| "payload_record_type (RPQueueCancelled _) = RTQueueCancelled"
| "payload_record_type (RPWriteDeferred _) = RTWriteDeferred"
| "payload_record_type (RPUsage _) = RTUsage"

fun payload_run_id :: "record_payload \<Rightarrow> string option" where
  "payload_run_id (RPOperationStarted _) = None"
| "payload_run_id (RPAbortRequested r) = Some (ab_run_id r)"
| "payload_run_id (RPOperationFinished r) = Some (of_run_id r)"
| "payload_run_id (RPStepAttempt r) = Some (sa_run_id r)"
| "payload_run_id (RPToolStarted r) = Some (ts_run_id r)"
| "payload_run_id (RPQueueEnqueued r) = qe_run_id r"
| "payload_run_id (RPQueueCancelled r) = qc_run_id r"
| "payload_run_id (RPWriteDeferred r) = Some (wd_run_id r)"
| "payload_run_id (RPUsage r) = ur_run_id r"

record new_record =
  nr_id :: string
  nr_lane :: string
  nr_payload :: record_payload
  nr_extra :: json_map

definition new_record_new :: "string \<Rightarrow> string \<Rightarrow> record_payload \<Rightarrow> new_record" where
  "new_record_new i lane payload =
     \<lparr>nr_id = i, nr_lane = lane, nr_payload = payload, nr_extra = []\<rparr>"

record lane_record =
  r_id :: string
  r_seq :: int
  r_lane :: string
  r_timestamp :: int
  r_payload :: record_payload
  r_extra :: json_map

definition record_type_of :: "lane_record \<Rightarrow> record_type" where
  "record_type_of r = payload_record_type (r_payload r)"

definition run_id :: "lane_record \<Rightarrow> string option" where
  "run_id r = payload_run_id (r_payload r)"

definition as_operation_started :: "lane_record \<Rightarrow> operation_started_record option" where
  "as_operation_started r = (case r_payload r of RPOperationStarted p \<Rightarrow> Some p | _ \<Rightarrow> None)"

definition as_step_attempt :: "lane_record \<Rightarrow> step_attempt_record option" where
  "as_step_attempt r = (case r_payload r of RPStepAttempt p \<Rightarrow> Some p | _ \<Rightarrow> None)"

definition as_tool_started :: "lane_record \<Rightarrow> tool_started_record option" where
  "as_tool_started r = (case r_payload r of RPToolStarted p \<Rightarrow> Some p | _ \<Rightarrow> None)"

definition as_queue_enqueued :: "lane_record \<Rightarrow> queue_enqueued_record option" where
  "as_queue_enqueued r = (case r_payload r of RPQueueEnqueued p \<Rightarrow> Some p | _ \<Rightarrow> None)"

definition as_usage :: "lane_record \<Rightarrow> usage_record option" where
  "as_usage r = (case r_payload r of RPUsage p \<Rightarrow> Some p | _ \<Rightarrow> None)"

section \<open>Queries\<close>

datatype entry_order = NewestFirst | OldestFirst

definition is_oldest_first :: "entry_order \<Rightarrow> bool" where
  "is_oldest_first ord \<longleftrightarrow> ord = OldestFirst"

definition order_or_default :: "entry_order option \<Rightarrow> entry_order" where
  "order_or_default ord = (case ord of None \<Rightarrow> NewestFirst | Some o' \<Rightarrow> o')"

record entry_query =
  q_entry_type :: "entry_type option"
  q_custom_type :: "string option"
  q_order :: "entry_order option"
  q_limit :: "int option"
  q_cursor :: "int option"

definition entry_query_default :: entry_query where
  "entry_query_default =
     \<lparr>q_entry_type = None, q_custom_type = None, q_order = None, q_limit = None, q_cursor = None\<rparr>"

record branch_bounds =
  b_start :: "string option"
  b_stop_at_type :: "entry_type option"
  b_stop_at_id :: "string option"

definition branch_bounds_default :: branch_bounds where
  "branch_bounds_default = \<lparr>b_start = None, b_stop_at_type = None, b_stop_at_id = None\<rparr>"

record branch_query =
  bq_query :: entry_query
  bq_bounds :: branch_bounds

record bound_branch_query =
  bb_start :: string
  bb_query :: entry_query
  bb_bounds :: branch_bounds

definition bound_branch_query_new :: "string \<Rightarrow> bound_branch_query" where
  "bound_branch_query_new start =
     \<lparr>bb_start = start, bb_query = entry_query_default, bb_bounds = branch_bounds_default\<rparr>"

definition branch_query_resolve :: "branch_query \<Rightarrow> string \<Rightarrow> bound_branch_query" where
  "branch_query_resolve q start =
     \<lparr>bb_start = start, bb_query = bq_query q, bb_bounds = bq_bounds q\<rparr>"

record record_query =
  rq_lane :: "string option"
  rq_record_type :: "record_type option"
  rq_run_id :: "string option"
  rq_operation_kind :: "operation_kind option"
  rq_after_seq :: "int option"
  rq_order :: "entry_order option"
  rq_limit :: "int option"

definition record_query_default :: record_query where
  "record_query_default =
     \<lparr>rq_lane = None, rq_record_type = None, rq_run_id = None, rq_operation_kind = None,
      rq_after_seq = None, rq_order = None, rq_limit = None\<rparr>"

record log_options =
  lo_after_seq :: "int option"
  lo_limit :: "int option"

definition validate_limit :: "int option \<Rightarrow> unit session_result" where
  "validate_limit limit =
     (case limit of
        Some l \<Rightarrow> if l \<le> 0 then Inl (InvalidQuery ''limit must be a positive integer'') else Inr ()
      | None \<Rightarrow> Inr ())"

definition validate_cursor :: "int option \<Rightarrow> unit session_result" where
  "validate_cursor after_seq =
     (case after_seq of
        Some s \<Rightarrow>
          if s < 0 then Inl (InvalidQuery ''cursor sequence must be a non-negative integer'')
          else Inr ()
      | None \<Rightarrow> Inr ())"

definition entry_query_validate :: "entry_query \<Rightarrow> unit session_result" where
  "entry_query_validate q =
     res_bind (validate_limit (q_limit q)) (\<lambda>_. validate_cursor (q_cursor q))"

definition branch_query_validate :: "branch_query \<Rightarrow> unit session_result" where
  "branch_query_validate q = entry_query_validate (bq_query q)"

definition bound_branch_query_validate :: "bound_branch_query \<Rightarrow> unit session_result" where
  "bound_branch_query_validate q = entry_query_validate (bb_query q)"

definition record_query_validate :: "record_query \<Rightarrow> unit session_result" where
  "record_query_validate q =
     res_bind (validate_limit (rq_limit q)) (\<lambda>_. validate_cursor (rq_after_seq q))"

definition log_options_validate :: "log_options \<Rightarrow> unit session_result" where
  "log_options_validate q =
     res_bind (validate_limit (lo_limit q)) (\<lambda>_. validate_cursor (lo_after_seq q))"

section \<open>Sessions\<close>

record session_metadata =
  sm_id :: string
  sm_created_at :: int
  sm_parent_session_id :: "string option"
  sm_extra :: json_map

definition session_metadata_new :: "string \<Rightarrow> int \<Rightarrow> session_metadata" where
  "session_metadata_new i created_at =
     \<lparr>sm_id = i, sm_created_at = created_at, sm_parent_session_id = None, sm_extra = []\<rparr>"

record session_create_options =
  sc_id :: "string option"
  sc_parent_session_id :: "string option"
  sc_cwd :: "string option"
  sc_metadata :: "json_map option"

datatype fork_scope = FSBranch | FSTree

datatype fork_position = FPBefore | FPAt

record fork_options =
  fo_scope :: "fork_scope option"
  fo_entry_id :: "string option"
  fo_position :: "fork_position option"

definition fork_options_default :: fork_options where
  "fork_options_default = \<lparr>fo_scope = None, fo_entry_id = None, fo_position = None\<rparr>"

definition fork_options_tree :: fork_options where
  "fork_options_tree = fork_options_default\<lparr>fo_scope := Some FSTree\<rparr>"

definition fork_options_branch_at :: "string \<Rightarrow> fork_options" where
  "fork_options_branch_at entry_id =
     \<lparr>fo_scope = Some FSBranch, fo_entry_id = Some entry_id, fo_position = Some FPAt\<rparr>"

definition scope_or_default :: "fork_options \<Rightarrow> fork_scope" where
  "scope_or_default opts = (case fo_scope opts of None \<Rightarrow> FSBranch | Some s \<Rightarrow> s)"

record session_stats =
  st_message_count :: int
  st_cached_tokens :: int
  st_uncached_tokens :: int
  st_total_tokens :: int
  st_cost_total :: f64

definition session_stats_default :: session_stats where
  "session_stats_default =
     \<lparr>st_message_count = 0, st_cached_tokens = 0, st_uncached_tokens = 0, st_total_tokens = 0,
      st_cost_total = 0\<rparr>"

record lane_pointer =
  lp_lane :: string
  lp_leaf_id :: "string option"

datatype log_item =
    LIEntry int entry
  | LIRecord int lane_record
  | LILane int string "string option"
  | LIName int "string option"
  | LILabel int string "string option"

fun log_item_seq :: "log_item \<Rightarrow> int" where
  "log_item_seq (LIEntry seq _) = seq"
| "log_item_seq (LIRecord seq _) = seq"
| "log_item_seq (LILane seq _ _) = seq"
| "log_item_seq (LIName seq _) = seq"
| "log_item_seq (LILabel seq _ _) = seq"

fun log_item_kind :: "log_item \<Rightarrow> string" where
  "log_item_kind (LIEntry _ _) = ''entry''"
| "log_item_kind (LIRecord _ _) = ''record''"
| "log_item_kind (LILane _ _ _) = ''lane''"
| "log_item_kind (LIName _ _) = ''fact''"
| "log_item_kind (LILabel _ _ _) = ''fact''"

end
