(* ===== verification/Session_Context.thy ===== *)
theory Session_Context
  imports Session_Types
begin

text \<open>
  Projecting a branch into what a provider sees: \<^verbatim>\<open>pi-rs/crates/pi-session/src/context.rs\<close> builds the
  messages and settings of a branch, and \<^verbatim>\<open>messages.rs\<close> reduces agent messages to provider messages.
  The transforms and projectors of \<^verbatim>\<open>SessionContextBuildOptions\<close> are closures of the caller and stay
  arbitrary functions.
\<close>

section \<open>Provider messages\<close>

abbreviation nl :: string where
  "nl \<equiv> [CHR 0x0A]"

definition COMPACTION_SUMMARY_PREFIX :: string where
  "COMPACTION_SUMMARY_PREFIX =
     ''The conversation history before this point was compacted into the following summary:'' @
     nl @ nl @ ''<summary>'' @ nl"

definition COMPACTION_SUMMARY_SUFFIX :: string where
  "COMPACTION_SUMMARY_SUFFIX = nl @ ''</summary>''"

definition BRANCH_SUMMARY_PREFIX :: string where
  "BRANCH_SUMMARY_PREFIX =
     ''The following is a summary of a branch that this conversation came back from:'' @
     nl @ nl @ ''<summary>'' @ nl"

definition BRANCH_SUMMARY_SUFFIX :: string where
  "BRANCH_SUMMARY_SUFFIX = ''</summary>''"

definition bash_execution_to_text :: "bash_execution_message \<Rightarrow> string" where
  "bash_execution_to_text m =
     (let t = ''Ran `'' @ be_command m @ ''`'' @ nl;
          t = t @ (if be_output m = [] then ''(no output)''
                   else ''```'' @ nl @ be_output m @ nl @ ''```'');
          t = (if be_cancelled m then t @ nl @ nl @ ''(command cancelled)''
               else case be_exit_code m of
                      Some code \<Rightarrow>
                        if code \<noteq> 0 then t @ nl @ nl @ ''Command exited with code '' @ show_int code
                        else t
                    | None \<Rightarrow> t)
      in if be_truncated m
         then (case be_full_output_path m of
                 Some path \<Rightarrow> t @ nl @ nl @ ''[Output truncated. Full output: '' @ path @ '']''
               | None \<Rightarrow> t)
         else t)"

definition create_branch_summary_message ::
  "string \<Rightarrow> string \<Rightarrow> int \<Rightarrow> branch_summary_message" where
  "create_branch_summary_message summary from_id timestamp =
     \<lparr>bm_summary = summary, bm_from_id = from_id, bm_timestamp = timestamp\<rparr>"

definition create_compaction_summary_message ::
  "string \<Rightarrow> int \<Rightarrow> int \<Rightarrow> compaction_summary_message" where
  "create_compaction_summary_message summary tokens_before timestamp =
     \<lparr>csm_summary = summary, csm_tokens_before = tokens_before, csm_timestamp = timestamp\<rparr>"

definition create_custom_message ::
  "string \<Rightarrow> user_content \<Rightarrow> bool \<Rightarrow> json option \<Rightarrow> int \<Rightarrow> custom_message" where
  "create_custom_message custom_type content display details timestamp =
     \<lparr>cm_custom_type = custom_type, cm_content = content, cm_display = display,
      cm_details = details, cm_timestamp = timestamp\<rparr>"

definition user_blocks :: "input_content list \<Rightarrow> int \<Rightarrow> message" where
  "user_blocks blocks timestamp =
     MUser \<lparr>um_content = UCBlocks blocks, um_timestamp = timestamp\<rparr>"

fun convert_to_llm :: "agent_message list \<Rightarrow> message list" where
  "convert_to_llm [] = []"
| "convert_to_llm (ABashExecution m # ms) =
     (if be_exclude_from_context m = Some True then convert_to_llm ms
      else user_blocks [input_text (bash_execution_to_text m)] (be_timestamp m) # convert_to_llm ms)"
| "convert_to_llm (ACustom m # ms) =
     user_blocks (user_content_blocks (cm_content m)) (cm_timestamp m) # convert_to_llm ms"
| "convert_to_llm (ABranchSummary m # ms) =
     user_blocks [input_text (BRANCH_SUMMARY_PREFIX @ bm_summary m @ BRANCH_SUMMARY_SUFFIX)]
       (bm_timestamp m) # convert_to_llm ms"
| "convert_to_llm (ACompactionSummary m # ms) =
     user_blocks [input_text (COMPACTION_SUMMARY_PREFIX @ csm_summary m @ COMPACTION_SUMMARY_SUFFIX)]
       (csm_timestamp m) # convert_to_llm ms"
| "convert_to_llm (AUser m # ms) = MUser m # convert_to_llm ms"
| "convert_to_llm (AAssistant m # ms) = MAssistant m # convert_to_llm ms"
| "convert_to_llm (AToolResult m # ms) = MToolResult m # convert_to_llm ms"

section \<open>The context of a branch\<close>

record model_selection =
  sel_provider :: string
  sel_model_id :: string

record session_context =
  ctx_messages :: "agent_message list"
  ctx_thinking_level :: string
  ctx_model :: "model_selection option"
  ctx_active_tool_names :: "string list option"

record context_build_options =
  entry_transforms :: "(entry list \<Rightarrow> entry list) list"
  entry_projectors :: "string \<rightharpoonup> (entry \<Rightarrow> nat \<Rightarrow> entry list \<Rightarrow> agent_message list option)"

definition context_build_options_default :: context_build_options where
  "context_build_options_default = \<lparr>entry_transforms = [], entry_projectors = Map.empty\<rparr>"

type_synonym derived_state = "string \<times> model_selection option \<times> string list option"

definition derive_step :: "derived_state \<Rightarrow> entry \<Rightarrow> derived_state" where
  "derive_step st e =
     (case st of (thinking_level, model, active_tool_names) \<Rightarrow>
        (case e_payload e of
           EPThinkingLevelChange c \<Rightarrow> (tl_thinking_level c, model, active_tool_names)
         | EPModelChange c \<Rightarrow>
             (thinking_level,
              Some \<lparr>sel_provider = mc_provider c, sel_model_id = mc_model_id c\<rparr>, active_tool_names)
         | EPMessage m \<Rightarrow>
             (case me_message m of
                AAssistant a \<Rightarrow>
                  (thinking_level,
                   Some \<lparr>sel_provider = am_provider a, sel_model_id = am_model a\<rparr>,
                   active_tool_names)
              | _ \<Rightarrow> (thinking_level, model, active_tool_names))
         | EPActiveToolsChange c \<Rightarrow> (thinking_level, model, Some (at_active_tool_names c))
         | _ \<Rightarrow> (thinking_level, model, active_tool_names)))"

definition derive_state :: "entry list \<Rightarrow> derived_state" where
  "derive_state path_entries = foldl derive_step (''off'', None, None) path_entries"

text \<open>\<^verbatim>\<open>Iterator::rposition\<close>: the index of the last element with the property.\<close>

fun rposition :: "('a \<Rightarrow> bool) \<Rightarrow> 'a list \<Rightarrow> nat option" where
  "rposition p [] = None"
| "rposition p (x # xs) =
     (case rposition p xs of
        Some i \<Rightarrow> Some (Suc i)
      | None \<Rightarrow> if p x then Some 0 else None)"

definition default_context_entry_transform :: "entry list \<Rightarrow> entry list" where
  "default_context_entry_transform path_entries =
     (case rposition (\<lambda>e. entry_type_of e = ETCompaction) path_entries of
        Some index \<Rightarrow> drop index path_entries
      | None \<Rightarrow> path_entries)"

definition build_context_entries :: "entry list \<Rightarrow> context_build_options \<Rightarrow> entry list" where
  "build_context_entries path_entries options =
     foldl (\<lambda>es transform. transform es) (default_context_entry_transform path_entries)
       (entry_transforms options)"

definition session_entry_to_context_messages ::
  "entry \<Rightarrow> nat \<Rightarrow> entry list \<Rightarrow> context_build_options \<Rightarrow> agent_message list" where
  "session_entry_to_context_messages e index es options =
     (case e_payload e of
        EPMessage m \<Rightarrow>
          (case me_message m of
             AAssistant a \<Rightarrow> if am_stop_reason a = SRDeferred then [] else [me_message m]
           | _ \<Rightarrow> [me_message m])
      | EPCompaction c \<Rightarrow>
          ACompactionSummary (create_compaction_summary_message (ce_summary c)
            (ce_tokens_before c) (e_timestamp e)) # ce_retained_tail c
      | EPBranchSummary b \<Rightarrow>
          if bs_summary b \<noteq> []
          then [ABranchSummary (create_branch_summary_message (bs_summary b) (bs_from_id b)
                 (e_timestamp e))]
          else []
      | EPCustom c \<Rightarrow>
          (case entry_projectors options (cu_custom_type c) of
             None \<Rightarrow> []
           | Some projector \<Rightarrow>
               (case projector e index es of None \<Rightarrow> [] | Some ms \<Rightarrow> ms))
      | _ \<Rightarrow> [])"

definition build_session_context ::
  "entry list \<Rightarrow> context_build_options \<Rightarrow> session_context" where
  "build_session_context path_entries options =
     (case derive_state path_entries of (thinking_level, model, active_tool_names) \<Rightarrow>
        let context_entries = build_context_entries path_entries options
        in \<lparr>ctx_messages =
              concat (map (\<lambda>(index, e).
                session_entry_to_context_messages e index context_entries options)
                (enumerate 0 context_entries)),
            ctx_thinking_level = thinking_level, ctx_model = model,
            ctx_active_tool_names = active_tool_names\<rparr>)"

section \<open>Lemmas\<close>

lemma rposition_None: "rposition p xs = None \<longleftrightarrow> (\<forall>x\<in>set xs. \<not> p x)"
  by (induction xs) (auto split: option.splits)

lemma rposition_append:
  "p x \<Longrightarrow> \<forall>y\<in>set ys. \<not> p y \<Longrightarrow> rposition p (xs @ x # ys) = Some (length xs)"
  by (induction xs) (auto simp: rposition_None [THEN iffD2] split: option.splits)

lemma transform_newest_compaction:
  assumes "entry_type_of c = ETCompaction" and "\<forall>e\<in>set post. entry_type_of e \<noteq> ETCompaction"
  shows "default_context_entry_transform (pre @ c # post) = c # post"
  using rposition_append [of "\<lambda>e. entry_type_of e = ETCompaction" c post pre] assms
  by (simp add: default_context_entry_transform_def)

lemma transform_no_compaction:
  "\<forall>e\<in>set path. entry_type_of e \<noteq> ETCompaction \<Longrightarrow> default_context_entry_transform path = path"
  by (simp add: default_context_entry_transform_def rposition_None [THEN iffD2])

text \<open>Without projectors the messages of an entry depend on the entry alone.\<close>

definition plain_messages :: "entry \<Rightarrow> agent_message list" where
  "plain_messages e = session_entry_to_context_messages e 0 [] context_build_options_default"

lemma messages_default:
  "session_entry_to_context_messages e i es context_build_options_default = plain_messages e"
  by (auto simp: plain_messages_def session_entry_to_context_messages_def
      context_build_options_default_def split: entry_payload.splits)

lemma context_messages_default:
  "ctx_messages (build_session_context path context_build_options_default) =
     concat (map plain_messages (default_context_entry_transform path))"
proof -
  have "map (\<lambda>(i, e). plain_messages e) (enumerate n es) = map plain_messages es" for n es
    by (induction es arbitrary: n) auto
  then show ?thesis
    by (simp add: build_session_context_def build_context_entries_def Let_def messages_default
        split: prod.splits) (simp add: context_build_options_default_def)
qed

definition excluded :: "agent_message \<Rightarrow> bool" where
  "excluded m \<longleftrightarrow>
     (case m of ABashExecution b \<Rightarrow> be_exclude_from_context b = Some True | _ \<Rightarrow> False)"

section \<open>Properties\<close>

text \<open>
  Compaction cuts the history: when the newest compaction of a branch is \<open>c\<close>, the context starts
  with its summary and its retained tail, followed by the messages of the later entries only;
  nothing before \<open>c\<close> contributes a message. The thinking level, model and tools still come from
  the whole branch.
\<close>

theorem context_after_compaction:
  assumes "e_payload c = EPCompaction ce"
    and "\<forall>e\<in>set post. entry_type_of e \<noteq> ETCompaction"
  shows "build_session_context (pre @ c # post) context_build_options_default =
    \<lparr>ctx_messages =
       ACompactionSummary \<lparr>csm_summary = ce_summary ce, csm_tokens_before = ce_tokens_before ce,
         csm_timestamp = e_timestamp c\<rparr> # ce_retained_tail ce @ concat (map plain_messages post),
     ctx_thinking_level = fst (derive_state (pre @ c # post)),
     ctx_model = fst (snd (derive_state (pre @ c # post))),
     ctx_active_tool_names = snd (snd (derive_state (pre @ c # post)))\<rparr>"
proof -
  have "entry_type_of c = ETCompaction" using assms(1) by (simp add: entry_type_of_def)
  from transform_newest_compaction [OF this assms(2)]
    context_messages_default [of "pre @ c # post"] assms(1)
  have "ctx_messages (build_session_context (pre @ c # post) context_build_options_default) =
      ACompactionSummary \<lparr>csm_summary = ce_summary ce, csm_tokens_before = ce_tokens_before ce,
         csm_timestamp = e_timestamp c\<rparr> # ce_retained_tail ce @ concat (map plain_messages post)"
    by (simp add: plain_messages_def [of c] session_entry_to_context_messages_def [of c]
        create_compaction_summary_message_def)
  then show ?thesis by (simp add: build_session_context_def Let_def split: prod.splits)
qed

theorem context_after_compaction_witness:
  "ctx_messages (build_session_context
     [\<lparr>e_id = ''a'', e_seq = 1, e_parent_id = None, e_timestamp = 1,
       e_payload = EPMessage \<lparr>me_message = AUser \<lparr>um_content = UCText ''old'', um_timestamp = 1\<rparr>,
                              me_terminate = None\<rparr>, e_extra = []\<rparr>,
      \<lparr>e_id = ''b'', e_seq = 2, e_parent_id = Some ''a'', e_timestamp = 2,
       e_payload = EPCompaction \<lparr>ce_summary = ''sum'', ce_retained_tail = [], ce_tokens_before = 9,
                                 ce_details = None, ce_usage = None\<rparr>, e_extra = []\<rparr>]
     context_build_options_default) =
   [ACompactionSummary \<lparr>csm_summary = ''sum'', csm_tokens_before = 9, csm_timestamp = 2\<rparr>]"
  using context_after_compaction [of
      "\<lparr>e_id = ''b'', e_seq = 2, e_parent_id = Some ''a'', e_timestamp = 2,
       e_payload = EPCompaction \<lparr>ce_summary = ''sum'', ce_retained_tail = [], ce_tokens_before = 9,
                                 ce_details = None, ce_usage = None\<rparr>, e_extra = []\<rparr>"
      "\<lparr>ce_summary = ''sum'', ce_retained_tail = [], ce_tokens_before = 9,
                                 ce_details = None, ce_usage = None\<rparr>" "[]"
      "[\<lparr>e_id = ''a'', e_seq = 1, e_parent_id = None, e_timestamp = 1,
       e_payload = EPMessage \<lparr>me_message = AUser \<lparr>um_content = UCText ''old'', um_timestamp = 1\<rparr>,
                              me_terminate = None\<rparr>, e_extra = []\<rparr>]"]
  by simp

text \<open>
  The provider sees every message once and in order: \<open>convert_to_llm\<close> drops exactly the shell
  executions marked as excluded, keeps the order and the timestamps of the others, turns every
  message that is not a provider message into a user message, and passes provider messages
  through unchanged.
\<close>

theorem convert_to_llm_faithful:
  "map message_timestamp (convert_to_llm ms) =
     map agent_message_timestamp (filter (\<lambda>m. \<not> excluded m) ms) \<and>
   map message_role (convert_to_llm ms) =
     map (\<lambda>m. case as_llm_message m of Some x \<Rightarrow> message_role x | None \<Rightarrow> ''user'')
       (filter (\<lambda>m. \<not> excluded m) ms) \<and>
   convert_to_llm (map agent_message_from xs) = xs"
proof (intro conjI)
  show "map message_timestamp (convert_to_llm ms) =
      map agent_message_timestamp (filter (\<lambda>m. \<not> excluded m) ms)"
    by (induction ms rule: convert_to_llm.induct) (simp_all add: excluded_def user_blocks_def)
  show "map message_role (convert_to_llm ms) =
      map (\<lambda>m. case as_llm_message m of Some x \<Rightarrow> message_role x | None \<Rightarrow> ''user'')
        (filter (\<lambda>m. \<not> excluded m) ms)"
    by (induction ms rule: convert_to_llm.induct) (simp_all add: excluded_def user_blocks_def)
  show "convert_to_llm (map agent_message_from xs) = xs"
  proof (induction xs)
    case (Cons x xs)
    then show ?case by (cases x) simp_all
  qed simp
qed

end
