(* ===== verification/Session_State.thy ===== *)
theory Session_State
  imports Session_Types
begin

text \<open>
  The in-memory projection of a session's mutation log: \<^verbatim>\<open>pi-rs/crates/pi-session/src/state.rs\<close>.
  \<open>session_state\<close> is the struct \<^verbatim>\<open>SessionState\<close>; \<open>apply_mutation\<close> returns the new state or the error.
  In the code every check of a mutation precedes its first assignment, so an error leaves the
  state as it was, which is what returning only the error says. The index \<open>entries_by_id\<close> holds
  positions of the vector \<open>entries\<close>; \<open>get_entry\<close> on a position outside the vector, a panic in the
  code, is \<open>None\<close> here, and the invariant \<open>state_wf\<close> excludes it. \<open>walk_to_root\<close> is a loop with a
  set of visited ids, total by its measure.
\<close>

section \<open>Mutations and state\<close>

datatype session_mutation =
    SMEntry "string option" entry
  | SMRecord lane_record
  | SMLane int string "string option"
  | SMName int "string option"
  | SMLabel int string "string option"

fun mutation_seq :: "session_mutation \<Rightarrow> int" where
  "mutation_seq (SMEntry _ e) = e_seq e"
| "mutation_seq (SMRecord r) = r_seq r"
| "mutation_seq (SMLane seq _ _) = seq"
| "mutation_seq (SMName seq _) = seq"
| "mutation_seq (SMLabel seq _ _) = seq"

definition invalid_mutation :: "string \<Rightarrow> session_error" where
  "invalid_mutation m = InvalidEntry (''Invalid session mutation: '' @ m)"

record session_state =
  ss_sequence :: int
  ss_used_ids :: "string set"
  ss_entries :: "entry list"
  ss_entries_by_id :: "string \<rightharpoonup> nat"
  ss_records :: "lane_record list"
  ss_open_operations :: "(string \<times> lane_record list) list"
  ss_lanes :: "lane_pointer list"
  ss_log :: "log_item list"
  ss_stats :: session_stats
  ss_name :: "string option"
  ss_labels :: "string \<rightharpoonup> string"

definition session_state_new :: session_state where
  "session_state_new =
     \<lparr>ss_sequence = 0, ss_used_ids = {}, ss_entries = [], ss_entries_by_id = Map.empty,
      ss_records = [], ss_open_operations = [],
      ss_lanes = [\<lparr>lp_lane = ''main'', lp_leaf_id = None\<rparr>], ss_log = [],
      ss_stats = session_stats_default, ss_name = None, ss_labels = Map.empty\<rparr>"

definition next_sequence :: "session_state \<Rightarrow> int" where
  "next_sequence s = ss_sequence s + 1"

definition get_lanes :: "session_state \<Rightarrow> lane_pointer list" where
  "get_lanes s = ss_lanes s"

definition lane_slot :: "session_state \<Rightarrow> string \<Rightarrow> lane_pointer option" where
  "lane_slot s lane = find (\<lambda>pointer. lp_lane pointer = lane) (ss_lanes s)"

definition require_lane :: "session_state \<Rightarrow> string \<Rightarrow> string option session_result" where
  "require_lane s lane =
     ok_or (map_option lp_leaf_id (lane_slot s lane)) (InvalidLane (''Lane not found: '' @ lane))"

definition validate_new_lane :: "session_state \<Rightarrow> string \<Rightarrow> unit session_result" where
  "validate_new_lane s lane =
     (case lane_slot s lane of
        Some _ \<Rightarrow> Inl (AlreadyExists (''Lane already exists: '' @ lane))
      | None \<Rightarrow> Inr ())"

definition validate_target :: "session_state \<Rightarrow> string option \<Rightarrow> unit session_result" where
  "validate_target s target_id =
     (case target_id of
        Some i \<Rightarrow>
          if ss_entries_by_id s i = None then Inl (NotFound (''Entry not found: '' @ i))
          else Inr ()
      | None \<Rightarrow> Inr ())"

definition validate_unused_id :: "session_state \<Rightarrow> string \<Rightarrow> unit session_result" where
  "validate_unused_id s i =
     (if i \<in> ss_used_ids s then Inl (AlreadyExists (''Session id already exists: '' @ i))
      else Inr ())"

definition open_operation_id :: "session_state \<Rightarrow> string \<Rightarrow> string option" where
  "open_operation_id s lane =
     (case find (\<lambda>(candidate, _). candidate = lane) (ss_open_operations s) of
        None \<Rightarrow> None
      | Some (_, records) \<Rightarrow> if records = [] then None else Some (r_id (last records)))"

section \<open>Applying a mutation\<close>

text \<open>\<^verbatim>\<open>iter_mut().find(p)\<close> followed by an assignment: the first element with \<open>p\<close> is changed.\<close>

fun update_first :: "('a \<Rightarrow> bool) \<Rightarrow> ('a \<Rightarrow> 'a) \<Rightarrow> 'a list \<Rightarrow> 'a list" where
  "update_first p f [] = []"
| "update_first p f (x # xs) = (if p x then f x # xs else x # update_first p f xs)"

definition push_open_operation :: "lane_record \<Rightarrow> session_state \<Rightarrow> session_state" where
  "push_open_operation r s =
     (if find (\<lambda>(name, _). name = r_lane r) (ss_open_operations s) = None
      then s\<lparr>ss_open_operations := ss_open_operations s @ [(r_lane r, [r])]\<rparr>
      else s\<lparr>ss_open_operations :=
               update_first (\<lambda>(name, _). name = r_lane r) (\<lambda>(name, records). (name, records @ [r]))
                 (ss_open_operations s)\<rparr>)"

definition close_open_operation :: "string \<Rightarrow> string \<Rightarrow> session_state \<Rightarrow> session_state" where
  "close_open_operation lane rid s =
     s\<lparr>ss_open_operations :=
        update_first (\<lambda>(name, _). name = lane)
          (\<lambda>(name, records). (name, filter (\<lambda>r. r_id r \<noteq> rid) records))
          (ss_open_operations s)\<rparr>"

definition set_leaf :: "string \<Rightarrow> string option \<Rightarrow> lane_pointer list \<Rightarrow> lane_pointer list" where
  "set_leaf lane leaf = update_first (\<lambda>p. lp_lane p = lane) (\<lambda>p. p\<lparr>lp_leaf_id := leaf\<rparr>)"

definition apply_entry :: "string option \<Rightarrow> entry \<Rightarrow> session_state \<Rightarrow> session_state session_result" where
  "apply_entry lane e s =
     (if e_id e \<in> ss_used_ids s
      then Inl (invalid_mutation (''contains duplicate id '' @ e_id e))
      else
        res_bind
          (case lane of
             None \<Rightarrow> Inr ()
           | Some lane \<Rightarrow>
               (case lane_slot s lane of
                  None \<Rightarrow> Inl (invalid_mutation (''references missing lane '' @ lane))
                | Some pointer \<Rightarrow>
                    if e_parent_id e \<noteq> lp_leaf_id pointer
                    then Inl (invalid_mutation ''does not chain to the lane leaf'')
                    else Inr ()))
          (\<lambda>_. res_bind
            (case e_parent_id e of
               None \<Rightarrow> Inr ()
             | Some parent_id \<Rightarrow>
                 if ss_entries_by_id s parent_id = None
                 then Inl (invalid_mutation (''references missing parent '' @ parent_id))
                 else Inr ())
          (\<lambda>_. Inr
            (s\<lparr>ss_sequence := e_seq e,
               ss_used_ids := insert (e_id e) (ss_used_ids s),
               ss_entries_by_id := (ss_entries_by_id s)(e_id e \<mapsto> length (ss_entries s)),
               ss_entries := ss_entries s @ [e],
               ss_lanes :=
                 (case lane of
                    None \<Rightarrow> ss_lanes s
                  | Some lane \<Rightarrow> set_leaf lane (Some (e_id e)) (ss_lanes s)),
               ss_log := ss_log s @ [LIEntry (e_seq e) e],
               ss_stats :=
                 (if entry_type_of e = ETMessage
                  then (ss_stats s)\<lparr>st_message_count := i64_wrap (st_message_count (ss_stats s) + 1)\<rparr>
                  else ss_stats s)\<rparr>))))"

definition add_usage :: "usage \<Rightarrow> session_stats \<Rightarrow> session_stats" where
  "add_usage u st =
     st\<lparr>st_cached_tokens := i64_wrap (st_cached_tokens st + us_cache_read u),
        st_uncached_tokens :=
          i64_wrap (st_uncached_tokens st + i64_wrap (us_input u + us_cache_write u)),
        st_total_tokens := i64_wrap (st_total_tokens st + us_total_tokens u),
        st_cost_total := f64_add (st_cost_total st) (cost_total (us_cost u))\<rparr>"

definition apply_record :: "lane_record \<Rightarrow> session_state \<Rightarrow> session_state session_result" where
  "apply_record r s =
     (if lane_slot s (r_lane r) = None
      then Inl (invalid_mutation (''references missing lane '' @ r_lane r))
      else if r_id r \<in> ss_used_ids s
      then Inl (invalid_mutation (''contains duplicate id '' @ r_id r))
      else
        let s1 = s\<lparr>ss_sequence := r_seq r, ss_used_ids := insert (r_id r) (ss_used_ids s),
                   ss_records := ss_records s @ [r]\<rparr>;
            s2 = (case r_payload r of
                    RPOperationStarted _ \<Rightarrow> push_open_operation r s1
                  | RPOperationFinished finished \<Rightarrow>
                      close_open_operation (r_lane r) (of_run_id finished) s1
                  | _ \<Rightarrow> s1);
            s3 = s2\<lparr>ss_log := ss_log s2 @ [LIRecord (r_seq r) r]\<rparr>
        in Inr (case r_payload r of
                  RPUsage u \<Rightarrow> s3\<lparr>ss_stats := add_usage (ur_usage u) (ss_stats s3)\<rparr>
                | _ \<Rightarrow> s3))"

definition apply_lane ::
  "int \<Rightarrow> string \<Rightarrow> string option \<Rightarrow> session_state \<Rightarrow> session_state session_result" where
  "apply_lane seq lane leaf_id s =
     res_bind
       (case leaf_id of
          None \<Rightarrow> Inr ()
        | Some leaf \<Rightarrow>
            if ss_entries_by_id s leaf = None
            then Inl (invalid_mutation (''references missing lane target '' @ leaf))
            else Inr ())
       (\<lambda>_. Inr
         (s\<lparr>ss_sequence := seq,
            ss_lanes :=
              (if lane_slot s lane = None
               then ss_lanes s @ [\<lparr>lp_lane = lane, lp_leaf_id = leaf_id\<rparr>]
               else set_leaf lane leaf_id (ss_lanes s)),
            ss_log := ss_log s @ [LILane seq lane leaf_id]\<rparr>))"

definition apply_name :: "int \<Rightarrow> string option \<Rightarrow> session_state \<Rightarrow> session_state session_result" where
  "apply_name seq name s =
     Inr (s\<lparr>ss_sequence := seq, ss_name := name, ss_log := ss_log s @ [LIName seq name]\<rparr>)"

definition apply_label ::
  "int \<Rightarrow> string \<Rightarrow> string option \<Rightarrow> session_state \<Rightarrow> session_state session_result" where
  "apply_label seq target_id label s =
     (if ss_entries_by_id s target_id = None
      then Inl (invalid_mutation (''references missing label target '' @ target_id))
      else Inr (s\<lparr>ss_sequence := seq,
                  ss_labels := (ss_labels s)(target_id := label),
                  ss_log := ss_log s @ [LILabel seq target_id label]\<rparr>))"

fun apply_mutation :: "session_mutation \<Rightarrow> session_state \<Rightarrow> session_state session_result" where
  "apply_mutation m s =
     (let seq = mutation_seq m in
      if seq \<noteq> ss_sequence s + 1
      then Inl (invalid_mutation (''has non-consecutive seq '' @ show_int seq))
      else case m of
             SMEntry lane e \<Rightarrow> apply_entry lane e s
           | SMRecord r \<Rightarrow> apply_record r s
           | SMLane seq lane leaf_id \<Rightarrow> apply_lane seq lane leaf_id s
           | SMName seq name \<Rightarrow> apply_name seq name s
           | SMLabel seq target_id label \<Rightarrow> apply_label seq target_id label s)"

declare apply_mutation.simps [simp del]

fun apply_mutations :: "session_mutation list \<Rightarrow> session_state \<Rightarrow> session_state session_result" where
  "apply_mutations [] s = Inr s"
| "apply_mutations (m # ms) s = res_bind (apply_mutation m s) (apply_mutations ms)"

section \<open>Queries\<close>

definition get_entry :: "session_state \<Rightarrow> string \<Rightarrow> entry option" where
  "get_entry s i =
     (case ss_entries_by_id s i of
        None \<Rightarrow> None
      | Some index \<Rightarrow>
          if index < length (ss_entries s) then Some (ss_entries s ! index) else None)"

definition matches_entry_query :: "entry \<Rightarrow> entry_query \<Rightarrow> entry_order \<Rightarrow> bool" where
  "matches_entry_query e q ord \<longleftrightarrow>
     (case q_entry_type q of None \<Rightarrow> True | Some t \<Rightarrow> entry_type_of e = t) \<and>
     (case q_custom_type q of
        None \<Rightarrow> True
      | Some ct \<Rightarrow> (case as_custom e of Some c \<Rightarrow> cu_custom_type c = ct | None \<Rightarrow> False)) \<and>
     (case q_cursor q of
        None \<Rightarrow> True
      | Some after_seq \<Rightarrow>
          if is_oldest_first ord then e_seq e > after_seq else e_seq e < after_seq)"

definition matches_record_query :: "lane_record \<Rightarrow> record_query \<Rightarrow> bool" where
  "matches_record_query r q \<longleftrightarrow>
     (case rq_lane q of None \<Rightarrow> True | Some lane \<Rightarrow> r_lane r = lane) \<and>
     (case rq_record_type q of None \<Rightarrow> True | Some t \<Rightarrow> record_type_of r = t) \<and>
     (case rq_run_id q of
        None \<Rightarrow> True
      | Some rid \<Rightarrow>
          (case r_payload r of
             RPOperationStarted _ \<Rightarrow> r_id r = rid
           | other \<Rightarrow> payload_run_id other = Some rid)) \<and>
     (case rq_operation_kind q of
        None \<Rightarrow> True
      | Some kind \<Rightarrow>
          (case as_operation_started r of
             Some started \<Rightarrow> intent_kind (os_intent started) = kind
           | None \<Rightarrow> False)) \<and>
     (case rq_after_seq q of None \<Rightarrow> True | Some after_seq \<Rightarrow> r_seq r > after_seq)"

text \<open>The loop of the tree queries: skip what does not match, stop when the limit is reached.\<close>

fun collect_loop :: "('a \<Rightarrow> bool) \<Rightarrow> int option \<Rightarrow> 'a list \<Rightarrow> 'a list \<Rightarrow> 'a list" where
  "collect_loop p limit [] results = results"
| "collect_loop p limit (x # xs) results =
     (if \<not> p x then collect_loop p limit xs results
      else let results = results @ [x] in
        if Some (int (length results)) = limit then results
        else collect_loop p limit xs results)"

text \<open>The loop of the branch queries: the bound and the limit are tested at every entry.\<close>

fun branch_loop ::
  "('a \<Rightarrow> bool) \<Rightarrow> ('a \<Rightarrow> bool) \<Rightarrow> int option \<Rightarrow> 'a list \<Rightarrow> 'a list \<Rightarrow> 'a list" where
  "branch_loop p reached_bound limit [] results = results"
| "branch_loop p reached_bound limit (x # xs) results =
     (let results = (if p x then results @ [x] else results) in
      if reached_bound x \<or> Some (int (length results)) = limit then results
      else branch_loop p reached_bound limit xs results)"

definition find_entries :: "session_state \<Rightarrow> entry_query \<Rightarrow> entry list session_result" where
  "find_entries s q =
     res_bind (entry_query_validate q) (\<lambda>_.
       let ord = order_or_default (q_order q);
           es = (if is_oldest_first ord then ss_entries s else rev (ss_entries s))
       in Inr (collect_loop (\<lambda>e. matches_entry_query e q ord) (q_limit q) es []))"

function walk_loop ::
  "session_state \<Rightarrow> string option \<Rightarrow> entry_type option \<Rightarrow> string set \<Rightarrow> entry list \<Rightarrow> entry \<Rightarrow>
   entry list session_result" where
  "walk_loop s stop_at_id stop_at_type visited path current =
     (if e_id current \<in> visited
      then Inl (InvalidEntry (''Session branch contains a cycle at '' @ e_id current))
      else
        let visited = insert (e_id current) visited;
            path = path @ [current]
        in if stop_at_id = Some (e_id current) \<or> stop_at_type = Some (entry_type_of current)
           then Inr path
           else case e_parent_id current of
                  None \<Rightarrow> Inr path
                | Some parent_id \<Rightarrow>
                    (case get_entry s parent_id of
                       None \<Rightarrow> Inl (InvalidEntry (''Entry not found: '' @ parent_id))
                     | Some parent \<Rightarrow> walk_loop s stop_at_id stop_at_type visited path parent))"
  by pat_completeness auto
termination
proof (relation "measure (\<lambda>(s, _, _, visited, _, current).
    card (insert (e_id current) (e_id ` set (ss_entries s)) - visited))", goal_cases)
  case (2 s stop_at_id stop_at_type visited path current x xa parent_id parent)
  then have "parent \<in> set (ss_entries s)"
    by (auto simp: get_entry_def split: option.splits if_splits)
  then have "insert (e_id parent) (e_id ` set (ss_entries s)) - insert (e_id current) visited
      \<subset> insert (e_id current) (e_id ` set (ss_entries s)) - visited"
    using 2 by auto
  with 2 show ?case by (simp add: psubset_card_mono)
qed simp

declare walk_loop.simps [simp del]

definition walk_to_root ::
  "session_state \<Rightarrow> string \<Rightarrow> string option \<Rightarrow> entry_type option \<Rightarrow> entry list session_result" where
  "walk_to_root s start stop_at_id stop_at_type =
     res_bind (ok_or (get_entry s start) (NotFound (''Entry not found: '' @ start)))
       (walk_loop s stop_at_id stop_at_type {} [])"

definition find_entries_on_branch ::
  "session_state \<Rightarrow> bound_branch_query \<Rightarrow> entry list session_result" where
  "find_entries_on_branch s q =
     res_bind (bound_branch_query_validate q) (\<lambda>_.
       let ord = order_or_default (q_order (bb_query q)) in
       if is_oldest_first ord
       then res_bind (walk_to_root s (bb_start q) None None) (\<lambda>path.
              Inr (branch_loop (\<lambda>e. matches_entry_query e (bb_query q) ord)
                (\<lambda>e. b_stop_at_id (bb_bounds q) = Some (e_id e) \<or>
                     b_stop_at_type (bb_bounds q) = Some (entry_type_of e))
                (q_limit (bb_query q)) (rev path) []))
       else res_bind (walk_to_root s (bb_start q) (b_stop_at_id (bb_bounds q))
              (b_stop_at_type (bb_bounds q))) (\<lambda>path.
              Inr (branch_loop (\<lambda>e. matches_entry_query e (bb_query q) ord) (\<lambda>_. False)
                (q_limit (bb_query q)) path [])))"

definition find_records :: "session_state \<Rightarrow> record_query \<Rightarrow> lane_record list session_result" where
  "find_records s q =
     res_bind (record_query_validate q) (\<lambda>_.
       let ord = order_or_default (rq_order q);
           rs = (if is_oldest_first ord then ss_records s else rev (ss_records s))
       in Inr (collect_loop (\<lambda>r. matches_record_query r q) (rq_limit q) rs []))"

definition find_open_operations ::
  "session_state \<Rightarrow> string \<Rightarrow> int option \<Rightarrow> lane_record list session_result" where
  "find_open_operations s lane limit =
     res_bind (validate_limit limit) (\<lambda>_.
       let opened = rev (case find (\<lambda>(name, _). name = lane) (ss_open_operations s) of
                         Some (_, records) \<Rightarrow> records | None \<Rightarrow> [])
       in Inr (case limit of None \<Rightarrow> opened | Some l \<Rightarrow> take (nat l) opened))"

definition get_log :: "session_state \<Rightarrow> log_options \<Rightarrow> log_item list session_result" where
  "get_log s opts =
     res_bind (log_options_validate opts) (\<lambda>_.
       Inr (collect_loop
         (\<lambda>item. case lo_after_seq opts of None \<Rightarrow> True | Some a \<Rightarrow> \<not> log_item_seq item \<le> a)
         (lo_limit opts) (ss_log s) []))"

definition get_name :: "session_state \<Rightarrow> string option" where
  "get_name s = ss_name s"

definition get_label :: "session_state \<Rightarrow> string \<Rightarrow> string option" where
  "get_label s i = ss_labels s i"

definition get_stats :: "session_state \<Rightarrow> session_stats" where
  "get_stats s = ss_stats s"

section \<open>Forking\<close>

definition fork_target :: "session_state \<Rightarrow> fork_options \<Rightarrow> string option session_result" where
  "fork_target s options =
     res_bind
       (case fo_entry_id options of
          Some i \<Rightarrow> Inr (Some i)
        | None \<Rightarrow> require_lane s ''main'')
       (\<lambda>selected.
         case selected of
           None \<Rightarrow> Inr None
         | Some selected \<Rightarrow>
             (case get_entry s selected of
                Some e \<Rightarrow>
                  if entry_type_of e = ETMessage
                  then
                    let position =
                      (case fo_position options of
                         Some p \<Rightarrow> p
                       | None \<Rightarrow> if fo_entry_id options = None then FPAt else FPBefore)
                    in Inr (case position of FPAt \<Rightarrow> Some (e_id e) | FPBefore \<Rightarrow> e_parent_id e)
                  else Inl (InvalidForkTarget (''Fork target is not a message entry: '' @ selected))
              | None \<Rightarrow>
                  Inl (InvalidForkTarget (''Fork target is not a message entry: '' @ selected))))"

definition fork_contents ::
  "session_state \<Rightarrow> fork_options \<Rightarrow> (entry list \<times> lane_pointer list) session_result" where
  "fork_contents s options =
     (case scope_or_default options of
        FSTree \<Rightarrow>
          res_bind (find_entries s (entry_query_default\<lparr>q_order := Some OldestFirst\<rparr>))
            (\<lambda>es. Inr (es, get_lanes s))
      | FSBranch \<Rightarrow>
          res_bind (fork_target s options) (\<lambda>target_id.
            res_bind
              (case target_id of
                 None \<Rightarrow> Inr []
               | Some start \<Rightarrow>
                   find_entries_on_branch s
                     ((bound_branch_query_new start)
                       \<lparr>bb_query := entry_query_default\<lparr>q_order := Some OldestFirst\<rparr>\<rparr>))
              (\<lambda>es. Inr (es, [\<lparr>lp_lane = ''main'', lp_leaf_id = target_id\<rparr>]))))"

fun fork_entries :: "int \<Rightarrow> entry list \<Rightarrow> session_mutation list" where
  "fork_entries sequence [] = []"
| "fork_entries sequence (e # es) =
     SMEntry None (e\<lparr>e_seq := sequence\<rparr>) # fork_entries (sequence + 1) es"

fun fork_lanes :: "int \<Rightarrow> lane_pointer list \<Rightarrow> session_mutation list" where
  "fork_lanes sequence [] = []"
| "fork_lanes sequence (p # ps) =
     SMLane sequence (lp_lane p) (lp_leaf_id p) # fork_lanes (sequence + 1) ps"

fun fork_name :: "int \<Rightarrow> string option \<Rightarrow> session_mutation list" where
  "fork_name sequence None = []"
| "fork_name sequence (Some name) = [SMName sequence (Some name)]"

fun fork_labels :: "(string \<rightharpoonup> string) \<Rightarrow> int \<Rightarrow> entry list \<Rightarrow> session_mutation list" where
  "fork_labels labels sequence [] = []"
| "fork_labels labels sequence (e # es) =
     (case labels (e_id e) of
        None \<Rightarrow> fork_labels labels sequence es
      | Some label \<Rightarrow>
          SMLabel sequence (e_id e) (Some label) # fork_labels labels (sequence + 1) es)"

definition create_fork_mutations ::
  "session_state \<Rightarrow> fork_options \<Rightarrow> session_mutation list session_result" where
  "create_fork_mutations s options =
     res_bind (fork_contents s options) (\<lambda>(copied_entries, lanes).
       let ms1 = fork_entries 1 copied_entries;
           ms2 = ms1 @ fork_lanes (1 + int (length ms1)) lanes;
           ms3 = ms2 @ fork_name (1 + int (length ms2)) (ss_name s)
       in Inr (ms3 @ fork_labels (ss_labels s) (1 + int (length ms3)) copied_entries))"

section \<open>Checks shared by the backends\<close>

definition check_single_open_operation :: "session_state \<Rightarrow> new_record \<Rightarrow> unit session_result" where
  "check_single_open_operation s r =
     (case nr_payload r of
        RPOperationStarted _ \<Rightarrow>
          (case open_operation_id s (nr_lane r) of
             Some open_id \<Rightarrow>
               Inl (Storage (''Lane '' @ nr_lane r @ '' already has an open operation '' @ open_id))
           | None \<Rightarrow> Inr ())
      | _ \<Rightarrow> Inr ())"

fun json_walk :: "json \<Rightarrow> string + unit" where
  "json_walk (JNumber n) =
     (if \<not> f64_is_finite (number_as_f64 n) then Inl ''contains a non-finite number'' else Inr ())"
| "json_walk (JArray items) = try_for_each json_walk items"
| "json_walk (JObject members) = try_for_each (\<lambda>(key, value). json_walk value) members"
| "json_walk _ = Inr ()"

definition assert_json_serializable :: "json \<Rightarrow> unit session_result" where
  "assert_json_serializable value =
     map_err (\<lambda>reason. InvalidPayload (''Durable payload '' @ reason)) (json_walk value)"

definition assert_finite_usage :: "usage \<Rightarrow> unit session_result" where
  "assert_finite_usage u =
     (let c = us_cost u in
      if f64_is_finite (cost_input c) \<and> f64_is_finite (cost_output c) \<and>
         f64_is_finite (cost_cache_read c) \<and> f64_is_finite (cost_cache_write c) \<and>
         f64_is_finite (cost_total c)
      then Inr ()
      else Inl (InvalidPayload ''Durable payload contains a non-finite number''))"

fun usages_in_message :: "agent_message \<Rightarrow> usage list" where
  "usages_in_message (AAssistant m) = [am_usage m]"
| "usages_in_message (AToolResult m) = (case tr_usage m of None \<Rightarrow> [] | Some u \<Rightarrow> [u])"
| "usages_in_message _ = []"

fun payload_usages :: "entry_payload \<Rightarrow> usage list" where
  "payload_usages (EPMessage m) = usages_in_message (me_message m)"
| "payload_usages (EPCompaction c) =
     (case ce_usage c of None \<Rightarrow> [] | Some u \<Rightarrow> [u]) @
     concat (map usages_in_message (ce_retained_tail c))"
| "payload_usages (EPBranchSummary b) = (case bs_usage b of None \<Rightarrow> [] | Some u \<Rightarrow> [u])"
| "payload_usages _ = []"

definition assert_entry_payload_is_durable :: "entry_payload \<Rightarrow> unit session_result" where
  "assert_entry_payload_is_durable payload =
     try_for_each assert_finite_usage (payload_usages payload)"

fun assert_record_payload_is_durable :: "record_payload \<Rightarrow> unit session_result" where
  "assert_record_payload_is_durable (RPUsage r) = assert_finite_usage (ur_usage r)"
| "assert_record_payload_is_durable (RPQueueEnqueued r) =
     assert_entry_payload_is_durable (pe_payload (qe_target r))"
| "assert_record_payload_is_durable (RPWriteDeferred r) =
     assert_entry_payload_is_durable (pe_payload (wd_target r))"
| "assert_record_payload_is_durable (RPOperationStarted r) =
     (case os_intent r of
        IRun run \<Rightarrow>
          res_bind
            (try_for_each
               (\<lambda>m. try_for_each assert_finite_usage (usages_in_message m)) (ri_original_prompt run))
            (\<lambda>_. try_for_each (\<lambda>target. assert_entry_payload_is_durable (pe_payload target))
               (ri_initial_messages run))
      | _ \<Rightarrow> Inr ())"
| "assert_record_payload_is_durable _ = Inr ()"

end
