(* ===== verification/Session_Reducer.thy ===== *)
theory Session_Reducer
  imports Session_State Session_Context "HOL-Library.Multiset"
begin

text \<open>
  Rebuilding a lane's orchestration state after a crash: \<^verbatim>\<open>pi-rs/crates/pi-session/src/reducer.rs\<close>.
  \<open>validate_record_log\<close> rejects record logs the single-writer protocol cannot have produced;
  \<open>reduce_lane_state\<close> computes what is still to be done. The loop of the validator runs over the
  records in sequence order and threads the record \<open>validation\<close> of its hash maps and sets. A
  \<^verbatim>\<open>HashMap\<close> is a map; \<open>entries_by_id\<close> keeps the last entry of an id, as collecting into a hash map
  does. The calls of \<^verbatim>\<open>expect\<close> on the kind of a record cannot fail where they are made, so the
  functions take the payload as an argument.

  Entries are compared with their intent by Rust's derived equality, \<open>provisioned_eq\<close>: floats compare
  as numbers (both zeros are equal, a NaN equals nothing) and JSON objects compare without regard
  to the order of their keys.
\<close>

section \<open>Derived equality\<close>

definition canon_f64 :: "f64 \<Rightarrow> f64" where
  "canon_f64 v = (if f64_is_finite v \<and> f64_mag v = 0 then 0 else v)"

fun canon_json :: "json \<Rightarrow> json" where
  "canon_json (JNumber (JFloat v)) = JNumber (JFloat (canon_f64 v))"
| "canon_json (JArray items) = JArray (map canon_json items)"
| "canon_json (JObject members) =
     JObject (sort_key fst (map (\<lambda>(k, v). (k, canon_json v)) members))"
| "canon_json j = j"

definition canon_map :: "json_map \<Rightarrow> json_map" where
  "canon_map m = sort_key fst (map (\<lambda>(k, v). (k, canon_json v)) m)"

definition canon_cost :: "cost \<Rightarrow> cost" where
  "canon_cost c =
     \<lparr>cost_input = canon_f64 (cost_input c), cost_output = canon_f64 (cost_output c),
      cost_cache_read = canon_f64 (cost_cache_read c),
      cost_cache_write = canon_f64 (cost_cache_write c), cost_total = canon_f64 (cost_total c)\<rparr>"

definition canon_usage :: "usage \<Rightarrow> usage" where
  "canon_usage u = u\<lparr>us_cost := canon_cost (us_cost u)\<rparr>"

fun canon_assistant_content :: "assistant_content \<Rightarrow> assistant_content" where
  "canon_assistant_content (ACToolCall c) =
     ACToolCall (c\<lparr>call_arguments := canon_map (call_arguments c)\<rparr>)"
| "canon_assistant_content x = x"

definition canon_assistant_message :: "assistant_message \<Rightarrow> assistant_message" where
  "canon_assistant_message m =
     m\<lparr>am_content := map canon_assistant_content (am_content m),
       am_diagnostics :=
         map_option (map (\<lambda>d. d\<lparr>diag_detail := map_option canon_json (diag_detail d)\<rparr>))
           (am_diagnostics m),
       am_usage := canon_usage (am_usage m),
       am_deferred :=
         map_option (\<lambda>h. h\<lparr>dh_data := map_option canon_json (dh_data h)\<rparr>) (am_deferred m)\<rparr>"

definition canon_tool_result :: "tool_result_message \<Rightarrow> tool_result_message" where
  "canon_tool_result m =
     m\<lparr>tr_details := map_option canon_json (tr_details m),
       tr_usage := map_option canon_usage (tr_usage m)\<rparr>"

fun canon_agent_message :: "agent_message \<Rightarrow> agent_message" where
  "canon_agent_message (AAssistant m) = AAssistant (canon_assistant_message m)"
| "canon_agent_message (AToolResult m) = AToolResult (canon_tool_result m)"
| "canon_agent_message (ACustom m) =
     ACustom (m\<lparr>cm_details := map_option canon_json (cm_details m)\<rparr>)"
| "canon_agent_message m = m"

fun canon_payload :: "entry_payload \<Rightarrow> entry_payload" where
  "canon_payload (EPMessage m) =
     EPMessage (m\<lparr>me_message := canon_agent_message (me_message m)\<rparr>)"
| "canon_payload (EPCompaction c) =
     EPCompaction (c\<lparr>ce_retained_tail := map canon_agent_message (ce_retained_tail c),
                     ce_details := map_option canon_json (ce_details c),
                     ce_usage := map_option canon_usage (ce_usage c)\<rparr>)"
| "canon_payload (EPBranchSummary b) =
     EPBranchSummary (b\<lparr>bs_details := map_option canon_json (bs_details b),
                        bs_usage := map_option canon_usage (bs_usage b)\<rparr>)"
| "canon_payload (EPCustom c) =
     EPCustom (c\<lparr>cu_data := map_option canon_json (cu_data c)\<rparr>)"
| "canon_payload p = p"

definition cost_has_nan :: "cost \<Rightarrow> bool" where
  "cost_has_nan c \<longleftrightarrow>
     f64_is_nan (cost_input c) \<or> f64_is_nan (cost_output c) \<or> f64_is_nan (cost_cache_read c) \<or>
     f64_is_nan (cost_cache_write c) \<or> f64_is_nan (cost_total c)"

definition provisioned_eq :: "provisioned_entry \<Rightarrow> provisioned_entry \<Rightarrow> bool" where
  "provisioned_eq a b \<longleftrightarrow>
     pe_id a = pe_id b \<and> canon_payload (pe_payload a) = canon_payload (pe_payload b) \<and>
     list_all (\<lambda>u. \<not> cost_has_nan (us_cost u)) (payload_usages (pe_payload a)) \<and>
     canon_map (pe_extra a) = canon_map (pe_extra b)"

section \<open>Corruption\<close>

datatype corruption_reason =
    MultipleOpenOperations | UnknownOperation | RecordAfterFinish | NonConsecutiveAttempt
  | InvalidCompactionReason | QueueAfterAbort | InvalidQueueCancellation | InconsistentStep
  | ToolCallMismatch | DuplicateToolInvocation | ProvisionedEntryMismatch | InvalidDeferredHandle

fun corruption_reason_str :: "corruption_reason \<Rightarrow> string" where
  "corruption_reason_str MultipleOpenOperations = ''multiple_open_operations''"
| "corruption_reason_str UnknownOperation = ''unknown_operation''"
| "corruption_reason_str RecordAfterFinish = ''record_after_finish''"
| "corruption_reason_str NonConsecutiveAttempt = ''non_consecutive_attempt''"
| "corruption_reason_str InvalidCompactionReason = ''invalid_compaction_reason''"
| "corruption_reason_str QueueAfterAbort = ''queue_after_abort''"
| "corruption_reason_str InvalidQueueCancellation = ''invalid_queue_cancellation''"
| "corruption_reason_str InconsistentStep = ''inconsistent_step''"
| "corruption_reason_str ToolCallMismatch = ''tool_call_mismatch''"
| "corruption_reason_str DuplicateToolInvocation = ''duplicate_tool_invocation''"
| "corruption_reason_str ProvisionedEntryMismatch = ''provisioned_entry_mismatch''"
| "corruption_reason_str InvalidDeferredHandle = ''invalid_deferred_handle''"

record record_log_corruption =
  rc_reason :: corruption_reason
  rc_message :: string

type_synonym 'a corrupt_result = "record_log_corruption + 'a"

definition corrupt :: "corruption_reason \<Rightarrow> string \<Rightarrow> 'a corrupt_result" where
  "corrupt reason m = Inl \<lparr>rc_reason = reason, rc_message = m\<rparr>"

record record_log_slice =
  sl_lane :: string
  sl_open_operations :: "lane_record list"
  sl_records :: "lane_record list"
  sl_entries :: "entry list"

section \<open>Validation\<close>

definition entries_by_id :: "entry list \<Rightarrow> string \<rightharpoonup> entry" where
  "entries_by_id es = map_of (rev (map (\<lambda>e. (e_id e, e)) es))"

definition by_sequence :: "lane_record list \<Rightarrow> lane_record list" where
  "by_sequence records = sort_key r_seq records"

definition entries_by_sequence :: "entry list \<Rightarrow> entry list" where
  "entries_by_sequence es = sort_key e_seq es"

definition validate_exact_provisioned_entry ::
  "(string \<rightharpoonup> entry) \<Rightarrow> provisioned_entry \<Rightarrow> unit corrupt_result" where
  "validate_exact_provisioned_entry es target =
     (case es (pe_id target) of
        Some e \<Rightarrow>
          if \<not> provisioned_eq (to_provisioned e) target
          then corrupt ProvisionedEntryMismatch
                 (''Provisioned entry '' @ pe_id target @
                  '' exists with content different from its intent'')
          else Inr ()
      | None \<Rightarrow> Inr ())"

definition validate_result_entry ::
  "(string \<rightharpoonup> entry) \<Rightarrow> string \<Rightarrow> (entry \<Rightarrow> bool) \<Rightarrow> string \<Rightarrow> unit corrupt_result" where
  "validate_result_entry es result_entry_id matches description =
     (case es result_entry_id of
        Some e \<Rightarrow>
          if \<not> matches e
          then corrupt ProvisionedEntryMismatch
                 (''Provisioned '' @ description @ '' entry '' @ result_entry_id @
                  '' exists with different content'')
          else Inr ()
      | None \<Rightarrow> Inr ())"

definition entry_assistant :: "entry \<Rightarrow> assistant_message option" where
  "entry_assistant e =
     (case as_message e of None \<Rightarrow> None | Some m \<Rightarrow> as_assistant (me_message m))"

definition entry_tool_result :: "entry \<Rightarrow> tool_result_message option" where
  "entry_tool_result e =
     (case as_message e of None \<Rightarrow> None | Some m \<Rightarrow> as_tool_result (me_message m))"

definition is_assistant_message :: "entry \<Rightarrow> bool" where
  "is_assistant_message e \<longleftrightarrow> entry_assistant e \<noteq> None"

fun step_kind_debug :: "step_kind \<Rightarrow> string" where
  "step_kind_debug SKAssistant = ''Assistant''"
| "step_kind_debug SKCompaction = ''Compaction''"
| "step_kind_debug SKBranchSummary = ''BranchSummary''"

fun queue_kind_debug :: "queue_kind \<Rightarrow> string" where
  "queue_kind_debug QSteer = ''Steer''"
| "queue_kind_debug QFollowUp = ''FollowUp''"
| "queue_kind_debug QNextRun = ''NextRun''"

definition validate_attempt_reason ::
  "lane_record \<Rightarrow> step_attempt_record \<Rightarrow> unit corrupt_result" where
  "validate_attempt_reason r attempt =
     (if sa_step attempt = SKCompaction
      then
        if sa_compaction_reason attempt = None
        then corrupt InvalidCompactionReason
               (''Compaction attempt '' @ r_id r @ '' has no valid compaction reason'')
        else Inr ()
      else if sa_compaction_reason attempt \<noteq> None
      then corrupt InvalidCompactionReason
             (step_kind_debug (sa_step attempt) @ '' attempt '' @ r_id r @
              '' has a compaction reason'')
      else Inr ())"

definition validate_attempt_sequence ::
  "lane_record \<Rightarrow> step_attempt_record \<Rightarrow> lane_record option \<Rightarrow> (string \<rightharpoonup> entry) \<Rightarrow>
   unit corrupt_result" where
  "validate_attempt_sequence r attempt previous es =
     (let previous_attempt = Option.bind previous as_step_attempt;
          previous_result = Option.bind previous_attempt (\<lambda>p. es (sa_result_entry_id p));
          continues_series =
            (case previous_attempt of
               None \<Rightarrow> False
             | Some p \<Rightarrow>
                 sa_step p = sa_step attempt \<and>
                 (case previous_result of None \<Rightarrow> True | Some e \<Rightarrow> e_seq e \<ge> r_seq r));
          expected_attempt =
            (case previous_attempt of
               Some p \<Rightarrow> if continues_series then i64_wrap (sa_attempt p + 1) else 1
             | None \<Rightarrow> 1)
      in if sa_attempt attempt \<noteq> expected_attempt
         then corrupt NonConsecutiveAttempt
                (step_kind_debug (sa_step attempt) @ '' attempt '' @ r_id r @ '' is '' @
                 show_int (sa_attempt attempt) @ ''; expected '' @ show_int expected_attempt)
         else
           case previous_attempt of
             None \<Rightarrow> Inr ()
           | Some p \<Rightarrow>
               if \<not> continues_series \<or> sa_step attempt = SKAssistant then Inr ()
               else if sa_result_entry_id attempt \<noteq> sa_result_entry_id p
               then corrupt InconsistentStep
                      (step_kind_debug (sa_step attempt) @
                       '' attempts disagree on their result entry id'')
               else if sa_compaction_reason attempt \<noteq> sa_compaction_reason p
               then corrupt InconsistentStep
                      (step_kind_debug (sa_step attempt) @
                       '' attempts disagree on their compaction reason'')
               else Inr ())"

definition validate_attempt_result ::
  "(string \<rightharpoonup> entry) \<Rightarrow> step_attempt_record \<Rightarrow> unit corrupt_result" where
  "validate_attempt_result es attempt =
     (case sa_step attempt of
        SKAssistant \<Rightarrow>
          validate_result_entry es (sa_result_entry_id attempt) is_assistant_message
            ''assistant result''
      | SKCompaction \<Rightarrow>
          validate_result_entry es (sa_result_entry_id attempt)
            (\<lambda>e. entry_type_of e = ETCompaction) ''compaction result''
      | SKBranchSummary \<Rightarrow>
          validate_result_entry es (sa_result_entry_id attempt)
            (\<lambda>e. entry_type_of e = ETBranchSummary) ''branch-summary result'')"

definition tool_calls_of :: "entry \<Rightarrow> tool_call list" where
  "tool_calls_of e = (case entry_assistant e of Some a \<Rightarrow> tool_calls a | None \<Rightarrow> [])"

definition invocation_key :: "tool_started_record \<Rightarrow> string" where
  "invocation_key started =
     ts_assistant_entry_id started @ [CHR 0x00] @ show_int (ts_tool_index started)"

definition call_at :: "tool_call list \<Rightarrow> int \<Rightarrow> tool_call option" where
  "call_at calls index =
     (if index < 0 \<or> nat index \<ge> length calls then None else Some (calls ! nat index))"

definition validate_tool_start ::
  "lane_record \<Rightarrow> tool_started_record \<Rightarrow> (string \<rightharpoonup> entry) \<Rightarrow> string set \<Rightarrow>
   string set corrupt_result" where
  "validate_tool_start r started es invocations =
     (if invocation_key started \<in> invocations
      then corrupt DuplicateToolInvocation
             (''Tool invocation '' @ ts_assistant_entry_id started @ '':'' @
              show_int (ts_tool_index started) @ '' is duplicated'')
      else
        let invocations = insert (invocation_key started) invocations in
        case es (ts_assistant_entry_id started) of
          None \<Rightarrow>
            corrupt ToolCallMismatch
              (''Tool start '' @ r_id r @ '' does not reference an assistant entry'')
        | Some assistant_entry \<Rightarrow>
            if \<not> is_assistant_message assistant_entry
            then corrupt ToolCallMismatch
                   (''Tool start '' @ r_id r @ '' does not reference an assistant entry'')
            else if \<not> (case call_at (tool_calls_of assistant_entry) (ts_tool_index started) of
                        Some call \<Rightarrow>
                          call_id call = ts_tool_call_id started \<and>
                          call_name call = ts_tool_name started
                      | None \<Rightarrow> False)
            then corrupt ToolCallMismatch
                   (''Tool start '' @ r_id r @ '' does not match its assistant tool-call ordinal'')
            else
              res_bind
                (validate_result_entry es (ts_result_entry_id started)
                  (\<lambda>e. case entry_tool_result e of
                         Some result \<Rightarrow>
                           tr_tool_call_id result = ts_tool_call_id started \<and>
                           tr_tool_name result = ts_tool_name started
                       | None \<Rightarrow> False) ''tool result'')
                (\<lambda>_. Inr invocations))"

definition validate_deferred_handles :: "entry list \<Rightarrow> unit corrupt_result" where
  "validate_deferred_handles es =
     try_for_each (\<lambda>e.
       case entry_assistant e of
         Some a \<Rightarrow>
           if am_stop_reason a = SRDeferred \<and> am_deferred a = None
           then corrupt InvalidDeferredHandle
                  (''Deferred assistant entry '' @ e_id e @ '' does not carry a handle'')
           else Inr ()
       | None \<Rightarrow> Inr ()) es"

definition validate_operation_result ::
  "(string \<rightharpoonup> entry) \<Rightarrow> operation_started_record \<Rightarrow> unit corrupt_result" where
  "validate_operation_result es started =
     (case os_intent started of
        IRun run \<Rightarrow>
          try_for_each (validate_exact_provisioned_entry es) (ri_initial_messages run)
      | ICompaction c \<Rightarrow>
          validate_result_entry es (ci_result_entry_id c)
            (\<lambda>e. entry_type_of e = ETCompaction) ''manual compaction''
      | INavigation n \<Rightarrow>
          (case ni_summary_entry_id n of
             Some summary_entry_id \<Rightarrow>
               validate_result_entry es summary_entry_id
                 (\<lambda>e. entry_type_of e = ETBranchSummary) ''navigation summary''
           | None \<Rightarrow> Inr ()))"

record validation =
  v_starts :: "string set"
  v_finished_at :: "string \<rightharpoonup> int"
  v_aborted_at :: "string \<rightharpoonup> int"
  v_queue_enqueues :: "string \<rightharpoonup> lane_record"
  v_latest_attempt :: "string \<rightharpoonup> lane_record"
  v_tool_invocations :: "string set"

definition validation_new :: validation where
  "validation_new =
     \<lparr>v_starts = {}, v_finished_at = Map.empty, v_aborted_at = Map.empty,
      v_queue_enqueues = Map.empty, v_latest_attempt = Map.empty, v_tool_invocations = {}\<rparr>"

definition validate_owner :: "validation \<Rightarrow> lane_record \<Rightarrow> unit corrupt_result" where
  "validate_owner v r =
     (case run_id r of
        None \<Rightarrow> Inr ()
      | Some rid \<Rightarrow>
          if rid \<notin> v_starts v
          then corrupt UnknownOperation
                 (''Record '' @ r_id r @ '' references unknown operation '' @ rid)
          else case v_finished_at v rid of
                 Some finish \<Rightarrow>
                   if r_seq r > finish
                   then corrupt RecordAfterFinish
                          (''Record '' @ r_id r @ '' follows the finish of operation '' @ rid)
                   else Inr ()
               | None \<Rightarrow> Inr ())"

definition validate_enqueue ::
  "(string \<rightharpoonup> entry) \<Rightarrow> validation \<Rightarrow> lane_record \<Rightarrow> queue_enqueued_record \<Rightarrow>
   validation corrupt_result" where
  "validate_enqueue es v r enqueued =
     (if qe_queue enqueued \<noteq> QNextRun \<and>
         (case qe_run_id enqueued of
            Some rid \<Rightarrow>
              (case v_aborted_at v rid of Some abort \<Rightarrow> r_seq r > abort | None \<Rightarrow> False)
          | None \<Rightarrow> False)
      then corrupt QueueAfterAbort
             (queue_kind_debug (qe_queue enqueued) @ '' item '' @ pe_id (qe_target enqueued) @
              '' was enqueued after abort'')
      else
        res_bind (validate_exact_provisioned_entry es (qe_target enqueued)) (\<lambda>_.
          Inr (v\<lparr>v_queue_enqueues :=
                  (v_queue_enqueues v)(pe_id (qe_target enqueued) \<mapsto> r)\<rparr>)))"

definition validate_cancel ::
  "(string \<rightharpoonup> entry) \<Rightarrow> validation \<Rightarrow> lane_record \<Rightarrow> queue_cancelled_record \<Rightarrow>
   validation corrupt_result" where
  "validate_cancel es v r cancelled =
     (if (case v_queue_enqueues v (qc_entry_id cancelled) of
            Some enqueue \<Rightarrow>
              r_seq enqueue < r_seq r \<and> run_id enqueue = qc_run_id cancelled \<and>
              es (qc_entry_id cancelled) = None
          | None \<Rightarrow> False)
      then Inr v
      else corrupt InvalidQueueCancellation
             (''Queue cancellation '' @ r_id r @ '' has no pending matching enqueue''))"

definition validate_payload ::
  "(string \<rightharpoonup> entry) \<Rightarrow> validation \<Rightarrow> lane_record \<Rightarrow> validation corrupt_result" where
  "validate_payload es v r =
     (case r_payload r of
        RPOperationFinished f \<Rightarrow>
          Inr (v\<lparr>v_finished_at := (v_finished_at v)(of_run_id f \<mapsto> r_seq r)\<rparr>)
      | RPAbortRequested a \<Rightarrow>
          Inr (v\<lparr>v_aborted_at := (v_aborted_at v)(ab_run_id a \<mapsto> r_seq r)\<rparr>)
      | RPStepAttempt attempt \<Rightarrow>
          res_bind (validate_attempt_reason r attempt) (\<lambda>_.
          res_bind (validate_attempt_sequence r attempt
            (v_latest_attempt v (sa_run_id attempt)) es) (\<lambda>_.
          res_bind (validate_attempt_result es attempt) (\<lambda>_.
            Inr (v\<lparr>v_latest_attempt := (v_latest_attempt v)(sa_run_id attempt \<mapsto> r)\<rparr>))))
      | RPToolStarted started \<Rightarrow>
          res_bind (validate_tool_start r started es (v_tool_invocations v)) (\<lambda>inv.
            Inr (v\<lparr>v_tool_invocations := inv\<rparr>))
      | RPQueueEnqueued enqueued \<Rightarrow> validate_enqueue es v r enqueued
      | RPQueueCancelled cancelled \<Rightarrow> validate_cancel es v r cancelled
      | RPWriteDeferred deferred \<Rightarrow>
          res_bind (validate_exact_provisioned_entry es (wd_target deferred)) (\<lambda>_. Inr v)
      | RPUsage _ \<Rightarrow> Inr v
      | RPOperationStarted _ \<Rightarrow> Inr v)"

definition validate_record ::
  "(string \<rightharpoonup> entry) \<Rightarrow> validation \<Rightarrow> lane_record \<Rightarrow> validation corrupt_result" where
  "validate_record es v r =
     (case r_payload r of
        RPOperationStarted started \<Rightarrow>
          res_bind (validate_operation_result es started) (\<lambda>_.
            Inr (v\<lparr>v_starts := insert (r_id r) (v_starts v)\<rparr>))
      | _ \<Rightarrow> res_bind (validate_owner v r) (\<lambda>_. validate_payload es v r))"

fun validate_records ::
  "(string \<rightharpoonup> entry) \<Rightarrow> validation \<Rightarrow> lane_record list \<Rightarrow> validation corrupt_result" where
  "validate_records es v [] = Inr v"
| "validate_records es v (r # rs) =
     res_bind (validate_record es v r) (\<lambda>v. validate_records es v rs)"

definition validate_record_log :: "record_log_slice \<Rightarrow> unit corrupt_result" where
  "validate_record_log sl =
     (if length (sl_open_operations sl) > 1
      then corrupt MultipleOpenOperations
             (''Lane '' @ sl_lane sl @ '' has at least two open operations'')
      else
        let es = entries_by_id (sl_entries sl) in
        res_bind (validate_deferred_handles (sl_entries sl)) (\<lambda>_.
        res_bind (validate_records es validation_new (by_sequence (sl_records sl))) (\<lambda>_.
          Inr ())))"

section \<open>Reduction\<close>

record effective_lane_configuration =
  ec_model :: model_selection
  ec_thinking_level :: string
  ec_active_tool_names :: "string list"

datatype terminal_failure_source = TFStep | TFDeferredFetch

record terminal_failure_state =
  tf_entry_id :: string
  tf_source :: terminal_failure_source
  tf_message :: assistant_message

record tool_batch_call =
  tb_tool_index :: int
  tb_tool_call :: tool_call
  tb_started :: "tool_started_record option"
  tb_result_exists :: bool
  tb_terminate :: "bool option"

record tool_batch_state =
  tb_assistant_entry_id :: string
  tb_calls :: "tool_batch_call list"
  tb_truncated :: bool
  tb_unresolved :: bool

record step_state =
  step_kind_of :: step_kind
  step_attempts :: int
  step_result_entry_id :: string
  step_compaction_reason :: "compaction_reason option"

record newest_own_entry =
  no_entry_id :: string
  no_entry_type :: entry_type
  no_role :: "string option"
  no_stop_reason :: "stop_reason option"

record operation_targets =
  ot_result :: "bool option"
  ot_summary :: "bool option"

record lane_operation_state =
  op_id :: string
  op_kind :: operation_kind
  op_intent :: operation_intent
  op_aborting :: bool
  op_step :: "step_state option"
  op_tool_batch :: "tool_batch_state option"
  op_missing_initial_messages :: "provisioned_entry list"
  op_pending_steer :: "provisioned_entry list"
  op_pending_follow_up :: "provisioned_entry list"
  op_pending_writes :: "provisioned_entry list"
  op_deferred :: "deferred_handle option"
  op_overflow_recovery_used :: bool
  op_newest_own :: "newest_own_entry option"
  op_targets :: operation_targets

record lane_state =
  ls_lane :: string
  ls_leaf_id :: "string option"
  ls_operation :: "lane_operation_state option"
  ls_pending_next_run :: "provisioned_entry list"

record lane_reduction_input =
  in_slice :: record_log_slice
  in_leaf_id :: "string option"
  in_own_entries :: "entry list"
  in_configuration_entries :: "entry list"
  in_defaults :: "effective_lane_configuration option"

record lane_reduction_result =
  rr_lane_state :: lane_state
  rr_effective_configuration :: effective_lane_configuration
  rr_terminal_failure :: "terminal_failure_state option"

definition default_configuration :: effective_lane_configuration where
  "default_configuration =
     \<lparr>ec_model = \<lparr>sel_provider = [], sel_model_id = []\<rparr>, ec_thinking_level = ''off'',
      ec_active_tool_names = []\<rparr>"

text \<open>
  \<^verbatim>\<open>merged.insert(entry.id, entry)\<close>: the entry replaces the one with its id. The order in which a
  \<^verbatim>\<open>HashMap\<close> hands its values to the sort is unspecified; it shows in the result only between
  entries of equal sequence number, which a session does not have.
\<close>

fun merge_entry :: "entry \<Rightarrow> entry list \<Rightarrow> entry list" where
  "merge_entry e [] = [e]"
| "merge_entry e (x # xs) = (if e_id x = e_id e then e # xs else x # merge_entry e xs)"

definition merge_entries :: "entry list \<Rightarrow> entry list" where
  "merge_entries es = foldl (\<lambda>merged e. merge_entry e merged) [] es"

definition configuration_step ::
  "effective_lane_configuration \<Rightarrow> entry \<Rightarrow> effective_lane_configuration" where
  "configuration_step c e =
     (case e_payload e of
        EPModelChange change \<Rightarrow>
          c\<lparr>ec_model := \<lparr>sel_provider = mc_provider change, sel_model_id = mc_model_id change\<rparr>\<rparr>
      | EPThinkingLevelChange change \<Rightarrow> c\<lparr>ec_thinking_level := tl_thinking_level change\<rparr>
      | EPActiveToolsChange change \<Rightarrow> c\<lparr>ec_active_tool_names := at_active_tool_names change\<rparr>
      | EPMessage m \<Rightarrow>
          (case me_message m of
             AAssistant a \<Rightarrow>
               c\<lparr>ec_model := \<lparr>sel_provider = am_provider a, sel_model_id = am_model a\<rparr>\<rparr>
           | _ \<Rightarrow> c)
      | _ \<Rightarrow> c)"

definition derive_effective_configuration ::
  "lane_reduction_input \<Rightarrow> effective_lane_configuration" where
  "derive_effective_configuration input =
     foldl configuration_step
       (case in_defaults input of Some d \<Rightarrow> d | None \<Rightarrow> default_configuration)
       (sort_key e_seq (merge_entries (in_configuration_entries input @ in_own_entries input)))"

definition derive_newest_own :: "entry option \<Rightarrow> newest_own_entry option" where
  "derive_newest_own e =
     (case e of
        None \<Rightarrow> None
      | Some e \<Rightarrow>
          Some (case as_message e of
                  None \<Rightarrow>
                    \<lparr>no_entry_id = e_id e, no_entry_type = entry_type_of e, no_role = None,
                     no_stop_reason = None\<rparr>
                | Some m \<Rightarrow>
                    \<lparr>no_entry_id = e_id e, no_entry_type = entry_type_of e,
                     no_role = Some (role (me_message m)),
                     no_stop_reason = map_option am_stop_reason (as_assistant (me_message m))\<rparr>))"

definition batch_call ::
  "(int \<rightharpoonup> tool_started_record) \<Rightarrow> entry \<Rightarrow> entry list \<Rightarrow> (string \<rightharpoonup> entry) \<Rightarrow> string set \<Rightarrow>
   nat \<Rightarrow> tool_call \<Rightarrow> tool_batch_call" where
  "batch_call starts assistant_entry own_entries es deferred_write_ids index call =
     (let started = starts (int index);
          started_result = Option.bind started (\<lambda>s. es (ts_result_entry_id s));
          blocked_result = find (\<lambda>e.
            e_seq e > e_seq assistant_entry \<and> e_id e \<notin> deferred_write_ids \<and>
            (case entry_tool_result e of
               Some result \<Rightarrow> tr_tool_call_id result = call_id call | None \<Rightarrow> False)) own_entries;
          result = (case started_result of Some e \<Rightarrow> Some e | None \<Rightarrow> blocked_result);
          terminate =
            (case Option.bind (Option.bind result as_message) me_terminate of
               Some True \<Rightarrow> Some True | _ \<Rightarrow> None)
      in \<lparr>tb_tool_index = int index, tb_tool_call = call, tb_started = started,
          tb_result_exists = (result \<noteq> None), tb_terminate = terminate\<rparr>)"

definition derive_tool_batch ::
  "string \<Rightarrow> lane_record list \<Rightarrow> entry list \<Rightarrow> (string \<rightharpoonup> entry) \<Rightarrow> string set \<Rightarrow>
   tool_batch_state option" where
  "derive_tool_batch operation_id records own_entries es deferred_write_ids =
     (case find (\<lambda>e. is_assistant_message e \<and> tool_calls_of e \<noteq> []) (rev own_entries) of
        None \<Rightarrow> None
      | Some assistant_entry \<Rightarrow>
          let started_list = filter (\<lambda>s. ts_run_id s = operation_id \<and>
                ts_assistant_entry_id s = e_id assistant_entry)
                (List.map_filter as_tool_started records);
              starts = map_of (rev (map (\<lambda>s. (ts_tool_index s, s)) started_list));
              calls = map (\<lambda>(index, call).
                batch_call starts assistant_entry own_entries es deferred_write_ids index call)
                (enumerate 0 (tool_calls_of assistant_entry));
              truncated = (case entry_assistant assistant_entry of
                Some a \<Rightarrow> am_stop_reason a = SRLength | None \<Rightarrow> False)
          in Some \<lparr>tb_assistant_entry_id = e_id assistant_entry, tb_calls = calls,
                   tb_truncated = truncated,
                   tb_unresolved = list_ex (\<lambda>c. \<not> tb_result_exists c) calls\<rparr>)"

definition cancelled_ids :: "lane_record list \<Rightarrow> string set" where
  "cancelled_ids records =
     set (List.map_filter (\<lambda>r. case r_payload r of
       RPQueueCancelled c \<Rightarrow> Some (qc_entry_id c) | _ \<Rightarrow> None) records)"

definition pending_queue :: "(string \<rightharpoonup> entry) \<Rightarrow> lane_record list \<Rightarrow> queue_enqueued_record list" where
  "pending_queue es records =
     filter (\<lambda>q. es (pe_id (qe_target q)) = None \<and> pe_id (qe_target q) \<notin> cancelled_ids records)
       (List.map_filter as_queue_enqueued records)"

definition captured_ids :: "lane_record option \<Rightarrow> string set" where
  "captured_ids started =
     (case Option.bind started as_operation_started of
        Some r \<Rightarrow>
          (case os_intent r of
             IRun run \<Rightarrow> pe_id ` set (ri_initial_messages run) | _ \<Rightarrow> {})
      | None \<Rightarrow> {})"

definition pending_next_run :: "string set \<Rightarrow> queue_enqueued_record list \<Rightarrow> provisioned_entry list" where
  "pending_next_run captured pending =
     map qe_target (filter (\<lambda>q. qe_queue q = QNextRun \<and> pe_id (qe_target q) \<notin> captured) pending)"

definition owned_by :: "string \<Rightarrow> lane_record \<Rightarrow> bool" where
  "owned_by operation_id r \<longleftrightarrow>
     (if record_type_of r = RTOperationStarted then r_id r = operation_id
      else run_id r = Some operation_id)"

definition is_abort :: "lane_record \<Rightarrow> bool" where
  "is_abort r \<longleftrightarrow> (case r_payload r of RPAbortRequested _ \<Rightarrow> True | _ \<Rightarrow> False)"

definition pending_of ::
  "bool \<Rightarrow> string \<Rightarrow> queue_enqueued_record list \<Rightarrow> queue_kind \<Rightarrow> provisioned_entry list" where
  "pending_of aborting operation_id pending queue =
     (if aborting then []
      else map qe_target
        (filter (\<lambda>q. qe_queue q = queue \<and> qe_run_id q = Some operation_id) pending))"

definition deferred_targets :: "lane_record list \<Rightarrow> provisioned_entry list" where
  "deferred_targets records =
     List.map_filter (\<lambda>r. case r_payload r of
       RPWriteDeferred d \<Rightarrow> Some (wd_target d) | _ \<Rightarrow> None) records"

definition intent_messages :: "operation_intent \<Rightarrow> provisioned_entry list" where
  "intent_messages intent = (case intent of IRun run \<Rightarrow> ri_initial_messages run | _ \<Rightarrow> [])"

definition newest_step :: "(string \<rightharpoonup> entry) \<Rightarrow> lane_record list \<Rightarrow> step_state option" where
  "newest_step es operation_records =
     (case rev (List.map_filter as_step_attempt operation_records) of
        [] \<Rightarrow> None
      | attempt # _ \<Rightarrow>
          if es (sa_result_entry_id attempt) \<noteq> None then None
          else Some \<lparr>step_kind_of = sa_step attempt, step_attempts = sa_attempt attempt,
                     step_result_entry_id = sa_result_entry_id attempt,
                     step_compaction_reason =
                       (if sa_step attempt = SKCompaction then sa_compaction_reason attempt
                        else None)\<rparr>)"

fun max_option :: "int list \<Rightarrow> int option" where
  "max_option [] = None"
| "max_option (x # xs) = Some (case max_option xs of None \<Rightarrow> x | Some y \<Rightarrow> max x y)"

definition overflow_recovery_used ::
  "(string \<rightharpoonup> entry) \<Rightarrow> operation_intent \<Rightarrow> lane_record list \<Rightarrow> bool" where
  "overflow_recovery_used es intent operation_records =
     (let consumed_input_ids =
            map pe_id (intent_messages intent) @
            map (\<lambda>q. pe_id (qe_target q))
              (filter (\<lambda>q. qe_queue q \<noteq> QNextRun)
                (List.map_filter as_queue_enqueued operation_records));
          newest = max_option (map e_seq
            (filter (\<lambda>e. entry_type_of e = ETMessage) (List.map_filter es consumed_input_ids)))
      in list_ex (\<lambda>r.
           case as_step_attempt r of
             Some attempt \<Rightarrow>
               sa_step attempt = SKCompaction \<and> sa_compaction_reason attempt = Some CROverflow \<and>
               (case newest of None \<Rightarrow> True | Some n \<Rightarrow> r_seq r > n)
           | None \<Rightarrow> False) operation_records)"

definition operation_targets_of ::
  "(string \<rightharpoonup> entry) \<Rightarrow> operation_intent \<Rightarrow> operation_targets" where
  "operation_targets_of es intent =
     (case intent of
        ICompaction c \<Rightarrow>
          \<lparr>ot_result = Some (es (ci_result_entry_id c) \<noteq> None), ot_summary = None\<rparr>
      | INavigation n \<Rightarrow>
          (case ni_summary_entry_id n of
             Some i \<Rightarrow> \<lparr>ot_result = None, ot_summary = Some (es i \<noteq> None)\<rparr>
           | None \<Rightarrow> \<lparr>ot_result = None, ot_summary = None\<rparr>)
      | IRun _ \<Rightarrow> \<lparr>ot_result = None, ot_summary = None\<rparr>)"

definition last_option :: "'a list \<Rightarrow> 'a option" where
  "last_option xs = (if xs = [] then None else Some (last xs))"

definition deferred_handle_of :: "entry option \<Rightarrow> deferred_handle option" where
  "deferred_handle_of newest =
     Option.bind (Option.bind newest entry_assistant) (\<lambda>a.
       if am_stop_reason a = SRDeferred then am_deferred a else None)"

definition terminal_failure_of ::
  "entry list \<Rightarrow> lane_record list \<Rightarrow> string set \<Rightarrow> terminal_failure_state option" where
  "terminal_failure_of own_entries operation_records deferred_write_ids =
     (case last_option own_entries of
        None \<Rightarrow> None
      | Some e \<Rightarrow>
          (case entry_assistant e of
             None \<Rightarrow> None
           | Some assistant \<Rightarrow>
               if am_stop_reason assistant = SRError \<and> e_id e \<notin> deferred_write_ids
               then
                 let produced_by_step = list_ex (\<lambda>r. case as_step_attempt r of
                       Some attempt \<Rightarrow> sa_result_entry_id attempt = e_id e | None \<Rightarrow> False)
                       operation_records;
                     previous_own_entry =
                       (if length own_entries < 2 then None
                        else Some (own_entries ! (length own_entries - 2)));
                     produced_by_deferred_fetch =
                       (list_ex (\<lambda>r. case as_usage r of
                          Some u \<Rightarrow>
                            ur_cause u = UCaDeferredFetch \<and> ur_entry_id u = Some (e_id e)
                        | None \<Rightarrow> False) operation_records \<or>
                        (case Option.bind previous_own_entry entry_assistant of
                           Some p \<Rightarrow> am_stop_reason p = SRDeferred | None \<Rightarrow> False))
                 in if produced_by_step \<or> produced_by_deferred_fetch
                    then Some \<lparr>tf_entry_id = e_id e,
                               tf_source = (if produced_by_step then TFStep else TFDeferredFetch),
                               tf_message = assistant\<rparr>
                    else None
               else None))"

text \<open>The open operation's part of the reduction, from its \<^verbatim>\<open>operation_started\<close> record on.\<close>

definition reduce_operation ::
  "lane_record \<Rightarrow> operation_started_record \<Rightarrow> lane_record list \<Rightarrow> entry list \<Rightarrow>
   (string \<rightharpoonup> entry) \<Rightarrow> lane_operation_state \<times> terminal_failure_state option" where
  "reduce_operation started started_payload records own_entries es =
     (let operation_id = r_id started;
          intent = os_intent started_payload;
          operation_records = filter (owned_by operation_id) records;
          aborting = list_ex is_abort operation_records;
          pending = pending_queue es records;
          deferred_write_ids = pe_id ` set (deferred_targets operation_records)
      in (\<lparr>op_id = operation_id, op_kind = intent_kind intent, op_intent = intent,
           op_aborting = aborting,
           op_step = newest_step es operation_records,
           op_tool_batch =
             derive_tool_batch operation_id operation_records own_entries es deferred_write_ids,
           op_missing_initial_messages =
             filter (\<lambda>t. es (pe_id t) = None) (intent_messages intent),
           op_pending_steer = pending_of aborting operation_id pending QSteer,
           op_pending_follow_up = pending_of aborting operation_id pending QFollowUp,
           op_pending_writes =
             filter (\<lambda>t. es (pe_id t) = None) (deferred_targets operation_records),
           op_deferred = deferred_handle_of (last_option own_entries),
           op_overflow_recovery_used = overflow_recovery_used es intent operation_records,
           op_newest_own = derive_newest_own (last_option own_entries),
           op_targets = operation_targets_of es intent\<rparr>,
          terminal_failure_of own_entries operation_records deferred_write_ids))"

text \<open>
  \<^verbatim>\<open>slice.open_operations\<close> holds \<^verbatim>\<open>operation_started\<close> records; on another kind of record the code
  panics, and the value here is \<open>None\<close>.
\<close>

definition reduce_lane_state ::
  "lane_reduction_input \<Rightarrow> lane_reduction_result corrupt_result option" where
  "reduce_lane_state input =
     (case validate_record_log (in_slice input) of
        Inl e \<Rightarrow> Some (Inl e)
      | Inr _ \<Rightarrow>
          let records = by_sequence (sl_records (in_slice input));
              own_entries = entries_by_sequence (in_own_entries input);
              es = entries_by_id (sl_entries (in_slice input) @ own_entries);
              started = (case sl_open_operations (in_slice input) of [] \<Rightarrow> None | r # _ \<Rightarrow> Some r);
              next_run = pending_next_run (captured_ids started) (pending_queue es records);
              configuration = derive_effective_configuration input;
              result = (\<lambda>operation failure.
                \<lparr>rr_lane_state =
                   \<lparr>ls_lane = sl_lane (in_slice input), ls_leaf_id = in_leaf_id input,
                    ls_operation = operation, ls_pending_next_run = next_run\<rparr>,
                 rr_effective_configuration = configuration, rr_terminal_failure = failure\<rparr>)
          in case started of
               None \<Rightarrow> Some (Inr (result None None))
             | Some r \<Rightarrow>
                 (case as_operation_started r of
                    None \<Rightarrow> None
                  | Some payload \<Rightarrow>
                      (case reduce_operation r payload records own_entries es of
                         (operation, failure) \<Rightarrow> Some (Inr (result (Some operation) failure)))))"

end
