(* ===== verification/Session_Invariant.thy ===== *)
theory Session_Invariant
  imports Session_State
begin

text \<open>
  The invariant of a session state and that every mutation keeps it. The components of
  \<open>state_wf\<close>: ids are unique over entries and records (\<open>ids_wf\<close>), the index is the inverse of the
  entry vector (\<open>index_wf\<close>), a parent precedes its child (\<open>tree_wf\<close>), lanes are distinct, contain
  \<open>main\<close> and point to entries (\<open>lanes_wf\<close>), labels are on entries (\<open>labels_wf\<close>), the log is
  numbered from 1 and holds exactly the entries and records (\<open>log_wf\<close>), the open operations of a
  lane are the started ones with no later finish (\<open>open_wf\<close>), and the statistics are the sums
  over the log (\<open>stats_wf\<close>).
\<close>

section \<open>Reference definitions\<close>

abbreviation entry_ids :: "session_state \<Rightarrow> string set" where
  "entry_ids s \<equiv> e_id ` set (ss_entries s)"

fun log_entry :: "log_item \<Rightarrow> entry option" where
  "log_entry (LIEntry _ e) = Some e"
| "log_entry _ = None"

fun log_record :: "log_item \<Rightarrow> lane_record option" where
  "log_record (LIRecord _ r) = Some r"
| "log_record _ = None"

definition starts_in :: "string \<Rightarrow> lane_record \<Rightarrow> bool" where
  "starts_in lane r \<longleftrightarrow> r_lane r = lane \<and> record_type_of r = RTOperationStarted"

definition finishes_in :: "string \<Rightarrow> string \<Rightarrow> lane_record \<Rightarrow> bool" where
  "finishes_in lane rid r \<longleftrightarrow>
     r_lane r = lane \<and> (case r_payload r of RPOperationFinished f \<Rightarrow> of_run_id f = rid | _ \<Rightarrow> False)"

text \<open>The operations of a lane that were started and not finished since.\<close>

fun open_ref :: "string \<Rightarrow> lane_record list \<Rightarrow> lane_record list" where
  "open_ref lane [] = []"
| "open_ref lane (r # rs) =
     (if starts_in lane r \<and> \<not> list_ex (finishes_in lane (r_id r)) rs
      then r # open_ref lane rs else open_ref lane rs)"

definition lane_open :: "session_state \<Rightarrow> string \<Rightarrow> lane_record list" where
  "lane_open s lane =
     (case find (\<lambda>(name, _). name = lane) (ss_open_operations s) of
        Some (_, records) \<Rightarrow> records | None \<Rightarrow> [])"

definition record_usages :: "lane_record list \<Rightarrow> usage list" where
  "record_usages rs = map ur_usage (List.map_filter as_usage rs)"

definition stats_ref :: "entry list \<Rightarrow> lane_record list \<Rightarrow> session_stats" where
  "stats_ref es rs =
     \<lparr>st_message_count = i64_wrap (int (length (filter (\<lambda>e. entry_type_of e = ETMessage) es))),
      st_cached_tokens = i64_wrap (sum_list (map us_cache_read (record_usages rs))),
      st_uncached_tokens =
        i64_wrap (sum_list (map (\<lambda>u. us_input u + us_cache_write u) (record_usages rs))),
      st_total_tokens = i64_wrap (sum_list (map us_total_tokens (record_usages rs))),
      st_cost_total = foldl f64_add 0 (map (\<lambda>u. cost_total (us_cost u)) (record_usages rs))\<rparr>"

section \<open>The invariant\<close>

definition ids_wf :: "session_state \<Rightarrow> bool" where
  "ids_wf s \<longleftrightarrow>
     distinct (map e_id (ss_entries s) @ map r_id (ss_records s)) \<and>
     ss_used_ids s = set (map e_id (ss_entries s) @ map r_id (ss_records s))"

definition index_wf :: "session_state \<Rightarrow> bool" where
  "index_wf s \<longleftrightarrow>
     (\<forall>i k. ss_entries_by_id s i = Some k \<longleftrightarrow>
        k < length (ss_entries s) \<and> e_id (ss_entries s ! k) = i)"

definition tree_ok :: "entry list \<Rightarrow> bool" where
  "tree_ok es \<longleftrightarrow>
     (\<forall>k<length es. \<forall>p. e_parent_id (es ! k) = Some p \<longrightarrow> p \<in> e_id ` set (take k es))"

definition lanes_wf :: "session_state \<Rightarrow> bool" where
  "lanes_wf s \<longleftrightarrow>
     distinct (map lp_lane (ss_lanes s)) \<and> ''main'' \<in> lp_lane ` set (ss_lanes s) \<and>
     (\<forall>p\<in>set (ss_lanes s). \<forall>leaf. lp_leaf_id p = Some leaf \<longrightarrow> leaf \<in> entry_ids s)"

definition labels_wf :: "session_state \<Rightarrow> bool" where
  "labels_wf s \<longleftrightarrow> dom (ss_labels s) \<subseteq> entry_ids s"

definition log_wf :: "session_state \<Rightarrow> bool" where
  "log_wf s \<longleftrightarrow>
     ss_sequence s = int (length (ss_log s)) \<and>
     map log_item_seq (ss_log s) = map int [1..<Suc (length (ss_log s))] \<and>
     ss_entries s = List.map_filter log_entry (ss_log s) \<and>
     ss_records s = List.map_filter log_record (ss_log s) \<and>
     (\<forall>item\<in>set (ss_log s).
        (\<forall>e. log_entry item = Some e \<longrightarrow> e_seq e = log_item_seq item) \<and>
        (\<forall>r. log_record item = Some r \<longrightarrow> r_seq r = log_item_seq item))"

definition open_wf :: "session_state \<Rightarrow> bool" where
  "open_wf s \<longleftrightarrow> (\<forall>lane. lane_open s lane = open_ref lane (ss_records s))"

definition state_wf :: "session_state \<Rightarrow> bool" where
  "state_wf s \<longleftrightarrow>
     ids_wf s \<and> index_wf s \<and> tree_ok (ss_entries s) \<and> lanes_wf s \<and>
     labels_wf s \<and> log_wf s \<and> open_wf s \<and>
     ss_stats s = stats_ref (ss_entries s) (ss_records s)"

lemma state_wf_new: "state_wf session_state_new"
  by (simp add: state_wf_def session_state_new_def ids_wf_def index_wf_def tree_ok_def lanes_wf_def
      labels_wf_def log_wf_def open_wf_def lane_open_def stats_ref_def record_usages_def session_stats_default_def
      List.map_filter_simps)

section \<open>Lists\<close>

lemma find_None_iff_all: "find p xs = None \<longleftrightarrow> (\<forall>x\<in>set xs. \<not> p x)"
  by (auto simp: find_None_iff)

lemma find_SomeD: "find p xs = Some x \<Longrightarrow> x \<in> set xs \<and> p x"
  by (induction xs) (auto split: if_splits)

lemma map_update_first:
  "(\<And>x. g (f x) = g x) \<Longrightarrow> map g (update_first p f xs) = map g xs"
  by (induction xs) auto

lemma set_update_first: "y \<in> set (update_first p f xs) \<Longrightarrow> y \<in> set xs \<or> (\<exists>x\<in>set xs. p x \<and> y = f x)"
  by (induction xs) (auto split: if_splits)

lemma find_update_alist:
  "find (\<lambda>(name, _). name = l) (update_first (\<lambda>(name, _). name = l') (\<lambda>(name, v). (name, f v)) xs) =
     (if l = l' then map_option (\<lambda>(name, v). (name, f v)) (find (\<lambda>(name, _). name = l) xs)
      else find (\<lambda>(name, _). name = l) xs)"
  by (induction xs) auto

lemma open_ref_snoc:
  "open_ref lane (rs @ [r]) =
     (if starts_in lane r then open_ref lane rs @ [r]
      else filter (\<lambda>x. \<not> finishes_in lane (r_id x) r) (open_ref lane rs))"
  by (induction rs)
    (auto simp: starts_in_def finishes_in_def record_type_of_def split: record_payload.splits)

section \<open>What a mutation does\<close>

lemma apply_mutation_Inr_seq: "apply_mutation m s = Inr s' \<Longrightarrow> mutation_seq m = ss_sequence s + 1"
  by (auto simp: apply_mutation.simps Let_def split: if_splits)

lemma apply_mutation_SMEntry:
  "apply_mutation (SMEntry lane e) s = Inr s' \<longleftrightarrow>
     e_seq e = ss_sequence s + 1 \<and> apply_entry lane e s = Inr s'"
  by (auto simp: apply_mutation.simps Let_def split: if_splits)

lemma apply_mutation_SMRecord:
  "apply_mutation (SMRecord r) s = Inr s' \<longleftrightarrow>
     r_seq r = ss_sequence s + 1 \<and> apply_record r s = Inr s'"
  by (auto simp: apply_mutation.simps Let_def split: if_splits)

lemma apply_mutation_SMLane:
  "apply_mutation (SMLane seq lane leaf) s = Inr s' \<longleftrightarrow>
     seq = ss_sequence s + 1 \<and> apply_lane seq lane leaf s = Inr s'"
  by (auto simp: apply_mutation.simps Let_def split: if_splits)

lemma apply_mutation_SMName:
  "apply_mutation (SMName seq name) s = Inr s' \<longleftrightarrow>
     seq = ss_sequence s + 1 \<and> apply_name seq name s = Inr s'"
  by (auto simp: apply_mutation.simps Let_def split: if_splits)

lemma apply_mutation_SMLabel:
  "apply_mutation (SMLabel seq target label) s = Inr s' \<longleftrightarrow>
     seq = ss_sequence s + 1 \<and> apply_label seq target label s = Inr s'"
  by (auto simp: apply_mutation.simps Let_def split: if_splits)

lemmas apply_mutation_Inr =
  apply_mutation_SMEntry apply_mutation_SMRecord apply_mutation_SMLane apply_mutation_SMName
  apply_mutation_SMLabel

lemma apply_entry_Inr_iff:
  "apply_entry lane e s = Inr s' \<longleftrightarrow>
     e_id e \<notin> ss_used_ids s \<and>
     (\<forall>l. lane = Some l \<longrightarrow> (\<exists>p. lane_slot s l = Some p \<and> e_parent_id e = lp_leaf_id p)) \<and>
     (\<forall>p. e_parent_id e = Some p \<longrightarrow> ss_entries_by_id s p \<noteq> None) \<and>
     s' = s\<lparr>ss_sequence := e_seq e,
            ss_used_ids := insert (e_id e) (ss_used_ids s),
            ss_entries_by_id := (ss_entries_by_id s)(e_id e \<mapsto> length (ss_entries s)),
            ss_entries := ss_entries s @ [e],
            ss_lanes :=
              (case lane of
                 None \<Rightarrow> ss_lanes s
               | Some lane \<Rightarrow> set_leaf lane (Some (e_id e)) (ss_lanes s)),
            ss_log := ss_log s @ [LIEntry (e_seq e) e],
            ss_stats :=
              (if entry_type_of e = ETMessage
               then (ss_stats s)\<lparr>st_message_count := i64_wrap (st_message_count (ss_stats s) + 1)\<rparr>
               else ss_stats s)\<rparr>"
  by (cases lane; cases "e_parent_id e")
    (auto simp: apply_entry_def split: option.splits)

lemma apply_record_effect:
  assumes "apply_record r s = Inr s'"
  shows "lane_slot s (r_lane r) \<noteq> None \<and> r_id r \<notin> ss_used_ids s \<and>
    ss_sequence s' = r_seq r \<and> ss_used_ids s' = insert (r_id r) (ss_used_ids s) \<and>
    ss_records s' = ss_records s @ [r] \<and> ss_log s' = ss_log s @ [LIRecord (r_seq r) r] \<and>
    ss_entries s' = ss_entries s \<and> ss_entries_by_id s' = ss_entries_by_id s \<and>
    ss_lanes s' = ss_lanes s \<and> ss_labels s' = ss_labels s \<and> ss_name s' = ss_name s \<and>
    ss_stats s' = (case as_usage r of
        Some u \<Rightarrow> add_usage (ur_usage u) (ss_stats s) | None \<Rightarrow> ss_stats s)"
  using assms
  by (auto simp: apply_record_def Let_def push_open_operation_def close_open_operation_def
      as_usage_def split: if_splits record_payload.splits)

lemma apply_record_open:
  assumes "apply_record r s = Inr s'"
  shows "ss_open_operations s' =
    (case r_payload r of
       RPOperationStarted _ \<Rightarrow> ss_open_operations (push_open_operation r s)
     | RPOperationFinished f \<Rightarrow>
         ss_open_operations (close_open_operation (r_lane r) (of_run_id f) s)
     | _ \<Rightarrow> ss_open_operations s)"
  using assms
  by (auto simp: apply_record_def Let_def push_open_operation_def close_open_operation_def
      split: if_splits record_payload.splits)

lemma apply_lane_Inr_iff:
  "apply_lane seq lane leaf s = Inr s' \<longleftrightarrow>
     (\<forall>l. leaf = Some l \<longrightarrow> ss_entries_by_id s l \<noteq> None) \<and>
     s' = s\<lparr>ss_sequence := seq,
            ss_lanes :=
              (if lane_slot s lane = None
               then ss_lanes s @ [\<lparr>lp_lane = lane, lp_leaf_id = leaf\<rparr>]
               else set_leaf lane leaf (ss_lanes s)),
            ss_log := ss_log s @ [LILane seq lane leaf]\<rparr>"
  by (cases leaf) (auto simp: apply_lane_def)

section \<open>Preservation, component by component\<close>

lemma index_wf_dom: "index_wf s \<Longrightarrow> (ss_entries_by_id s i \<noteq> None) = (i \<in> entry_ids s)"
proof -
  assume wf: "index_wf s"
  have "(ss_entries_by_id s i \<noteq> None) = (\<exists>k. ss_entries_by_id s i = Some k)" by simp
  also have "\<dots> = (\<exists>k<length (ss_entries s). e_id (ss_entries s ! k) = i)"
    using wf unfolding index_wf_def by blast
  also have "\<dots> = (i \<in> entry_ids s)" by (metis (no_types, lifting) image_iff in_set_conv_nth)
  finally show ?thesis .
qed

lemma index_wf_snoc:
  assumes "index_wf s" and "e_id e \<notin> entry_ids s"
    and "ss_entries s' = ss_entries s @ [e]"
    and "ss_entries_by_id s' = (ss_entries_by_id s)(e_id e \<mapsto> length (ss_entries s))"
  shows "index_wf s'"
proof -
  have fresh: "k < length (ss_entries s) \<Longrightarrow> e_id (ss_entries s ! k) \<noteq> e_id e" for k
    using assms(2) by (metis image_eqI nth_mem)
  have "ss_entries_by_id s' i = Some k \<longleftrightarrow>
      k < length (ss_entries s') \<and> e_id (ss_entries s' ! k) = i" for i k
    using assms(1) fresh unfolding assms(3,4) index_wf_def
    by (auto simp: nth_append less_Suc_eq)
  then show ?thesis unfolding index_wf_def by blast
qed

lemma tree_ok_snoc:
  "tree_ok (es @ [e]) \<longleftrightarrow> tree_ok es \<and> (\<forall>p. e_parent_id e = Some p \<longrightarrow> p \<in> e_id ` set es)"
  by (auto simp: tree_ok_def nth_append less_Suc_eq)

lemma set_leaf_lanes [simp]: "map lp_lane (set_leaf lane leaf ps) = map lp_lane ps"
  by (simp add: set_leaf_def map_update_first)

lemma set_leaf_names [simp]: "lp_lane ` set (set_leaf lane leaf ps) = lp_lane ` set ps"
  by (metis set_leaf_lanes list.set_map)

lemma set_leaf_leaves: "p \<in> set (set_leaf lane leaf ps) \<Longrightarrow> p \<in> set ps \<or> lp_leaf_id p = leaf"
  by (auto simp: set_leaf_def dest!: set_update_first)

lemma lane_slot_None: "lane_slot s lane = None \<longleftrightarrow> lane \<notin> lp_lane ` set (ss_lanes s)"
  by (auto simp: lane_slot_def find_None_iff_all)

lemma log_wf_snoc:
  assumes "log_wf s" and "ss_sequence s' = ss_sequence s + 1"
    and "ss_log s' = ss_log s @ [item]" and "log_item_seq item = ss_sequence s + 1"
    and "ss_entries s' = ss_entries s @ (case log_entry item of None \<Rightarrow> [] | Some e \<Rightarrow> [e])"
    and "ss_records s' = ss_records s @ (case log_record item of None \<Rightarrow> [] | Some r \<Rightarrow> [r])"
    and "\<And>e. log_entry item = Some e \<Longrightarrow> e_seq e = log_item_seq item"
    and "\<And>r. log_record item = Some r \<Longrightarrow> r_seq r = log_item_seq item"
  shows "log_wf s'"
proof -
  have "List.map_filter log_entry [item] = (case log_entry item of None \<Rightarrow> [] | Some e \<Rightarrow> [e])"
    "List.map_filter log_record [item] = (case log_record item of None \<Rightarrow> [] | Some r \<Rightarrow> [r])"
    by (simp_all add: List.map_filter_simps split: option.splits)
  with assms show ?thesis by (auto simp: log_wf_def)
qed

lemma lane_open_push:
  "lane_open (push_open_operation r s) lane =
     (if lane = r_lane r then lane_open s lane @ [r] else lane_open s lane)"
proof (cases "find (\<lambda>(name, _). name = r_lane r) (ss_open_operations s)")
  case None
  have "find p (xs @ [x]) = (case find p xs of Some y \<Rightarrow> Some y | None \<Rightarrow> if p x then Some x else None)"
    for p :: "string \<times> lane_record list \<Rightarrow> bool" and xs x
    by (induction xs) auto
  with None show ?thesis
    by (auto simp: lane_open_def push_open_operation_def split: option.splits)
next
  case (Some a)
  then show ?thesis
    by (cases a) (auto simp: lane_open_def push_open_operation_def find_update_alist
        split: option.splits)
qed

lemma lane_open_close:
  "lane_open (close_open_operation l rid s) lane =
     (if lane = l then filter (\<lambda>r. r_id r \<noteq> rid) (lane_open s lane) else lane_open s lane)"
  by (auto simp: lane_open_def close_open_operation_def find_update_alist
      split: option.splits)

lemma lane_open_cong: "ss_open_operations s = ss_open_operations t \<Longrightarrow> lane_open s = lane_open t"
  by (simp add: lane_open_def fun_eq_iff)

lemma open_wf_record:
  assumes "open_wf s" and "apply_record r s = Inr s'"
  shows "open_wf s'"
proof -
  have recs: "ss_records s' = ss_records s @ [r]" using apply_record_effect [OF assms(2)] by simp
  note op = apply_record_open [OF assms(2)]
  have "lane_open s' lane =
      (if starts_in lane r then lane_open s lane @ [r]
       else filter (\<lambda>x. \<not> finishes_in lane (r_id x) r) (lane_open s lane))" for lane
  proof (cases "r_payload r")
    case (RPOperationStarted p)
    with op have "lane_open s' = lane_open (push_open_operation r s)"
      by (intro lane_open_cong) simp
    with RPOperationStarted show ?thesis
      by (simp add: lane_open_push starts_in_def finishes_in_def record_type_of_def)
  next
    case (RPOperationFinished p)
    with op have "lane_open s' = lane_open (close_open_operation (r_lane r) (of_run_id p) s)"
      by (intro lane_open_cong) simp
    with RPOperationFinished show ?thesis
      by (auto simp: lane_open_close starts_in_def finishes_in_def record_type_of_def
          intro!: filter_cong)
  qed (use op in \<open>auto simp: starts_in_def finishes_in_def record_type_of_def
         lane_open_cong [of s' s]\<close>)
  with assms(1) recs show ?thesis by (simp add: open_wf_def open_ref_snoc)
qed

lemma stats_ref_entry:
  "stats_ref (es @ [e]) rs =
     (if entry_type_of e = ETMessage
      then (stats_ref es rs)\<lparr>st_message_count := i64_wrap (st_message_count (stats_ref es rs) + 1)\<rparr>
      else stats_ref es rs)"
  by (simp add: stats_ref_def add.commute)

lemma stats_ref_record:
  "stats_ref es (rs @ [r]) =
     (case as_usage r of
        Some u \<Rightarrow> add_usage (ur_usage u) (stats_ref es rs) | None \<Rightarrow> stats_ref es rs)"
  by (auto simp: stats_ref_def record_usages_def add_usage_def List.map_filter_simps
      split: option.splits)

lemma state_wf_used: "state_wf s \<Longrightarrow> ss_used_ids s = entry_ids s \<union> r_id ` set (ss_records s)"
  by (simp add: state_wf_def ids_wf_def)

lemma state_wf_index: "state_wf s \<Longrightarrow> (ss_entries_by_id s i \<noteq> None) = (i \<in> entry_ids s)"
  by (simp only: state_wf_def index_wf_dom)

lemma labels_wf_mono:
  "\<lbrakk>labels_wf s; ss_labels s' = ss_labels s; entry_ids s \<subseteq> entry_ids s'\<rbrakk> \<Longrightarrow> labels_wf s'"
  unfolding labels_wf_def by auto

lemma lanes_wf_entry:
  assumes "lanes_wf s" and "ss_entries s' = ss_entries s @ [e]"
    and "ss_lanes s' = (case lane of
           None \<Rightarrow> ss_lanes s | Some lane \<Rightarrow> set_leaf lane (Some (e_id e)) (ss_lanes s))"
  shows "lanes_wf s'"
  using assms by (cases lane) (auto simp: lanes_wf_def dest!: set_leaf_leaves)

lemma state_wf_entry:
  assumes wf: "state_wf s" and seq: "e_seq e = ss_sequence s + 1"
    and step: "apply_entry lane e s = Inr s'"
  shows "state_wf s'"
proof -
  note step' = step [unfolded apply_entry_Inr_iff]
  have fresh: "e_id e \<notin> entry_ids s" "e_id e \<notin> r_id ` set (ss_records s)"
    using step' state_wf_used [OF wf] by auto
  have parent: "\<forall>p. e_parent_id e = Some p \<longrightarrow> p \<in> entry_ids s"
    using step' state_wf_index [OF wf] by blast
  have "index_wf s'"
    by (rule index_wf_snoc [of s e]) (use wf fresh step' in \<open>auto simp: state_wf_def\<close>)
  moreover have "lanes_wf s'"
    by (rule lanes_wf_entry [of s s' e lane]) (use wf step' in \<open>auto simp: state_wf_def\<close>)
  moreover have "log_wf s'"
    by (rule log_wf_snoc [of s s' "LIEntry (e_seq e) e"])
      (use wf seq step' in \<open>auto simp: state_wf_def\<close>)
  moreover have "open_wf s'"
    using wf step' by (auto simp: state_wf_def open_wf_def lane_open_def)
  moreover have "labels_wf s'"
    by (rule labels_wf_mono [of s]) (use wf step' in \<open>auto simp: state_wf_def\<close>)
  ultimately show ?thesis
    using wf fresh parent step'
    by (auto simp: state_wf_def ids_wf_def tree_ok_snoc stats_ref_entry)
qed

lemma state_wf_record:
  assumes wf: "state_wf s" and seq: "r_seq r = ss_sequence s + 1"
    and step: "apply_record r s = Inr s'"
  shows "state_wf s'"
proof -
  note eff = apply_record_effect [OF step]
  have "open_wf s'" using wf step by (auto simp: state_wf_def intro: open_wf_record)
  moreover have "index_wf s'" using wf eff by (simp add: state_wf_def index_wf_def)
  moreover have "lanes_wf s'" using wf eff by (simp add: state_wf_def lanes_wf_def)
  moreover have "log_wf s'"
    by (rule log_wf_snoc [of s s' "LIRecord (r_seq r) r"])
      (use wf seq eff in \<open>auto simp: state_wf_def\<close>)
  moreover have "labels_wf s'"
    by (rule labels_wf_mono [of s]) (use wf eff in \<open>auto simp: state_wf_def\<close>)
  ultimately show ?thesis
    using wf eff by (auto simp: state_wf_def ids_wf_def stats_ref_record split: option.splits)
qed

text \<open>Lane moves, names and labels leave entries, records and open operations alone.\<close>

lemma state_wf_frame:
  assumes "state_wf s" and "lanes_wf s'" "labels_wf s'" "log_wf s'"
    and "ss_entries s' = ss_entries s" "ss_entries_by_id s' = ss_entries_by_id s"
    and "ss_records s' = ss_records s" "ss_used_ids s' = ss_used_ids s"
    and "ss_open_operations s' = ss_open_operations s" "ss_stats s' = ss_stats s"
  shows "state_wf s'"
  using assms lane_open_cong [OF assms(9)]
  by (simp add: state_wf_def ids_wf_def index_wf_def open_wf_def)

lemma state_wf_lane:
  assumes wf: "state_wf s" and seq: "seq = ss_sequence s + 1"
    and step: "apply_lane seq lane leaf s = Inr s'"
  shows "state_wf s'"
proof -
  note step' = step [unfolded apply_lane_Inr_iff]
  have leaf: "\<forall>l. leaf = Some l \<longrightarrow> l \<in> entry_ids s"
    using step' state_wf_index [OF wf] by blast
  have "lanes_wf s'"
    using wf leaf step' lane_slot_None [of s lane]
    by (auto simp: state_wf_def lanes_wf_def dest!: set_leaf_leaves)
  moreover have "log_wf s'"
    by (rule log_wf_snoc [of s s' "LILane seq lane leaf"])
      (use wf seq step' in \<open>auto simp: state_wf_def\<close>)
  moreover have "labels_wf s'"
    by (rule labels_wf_mono [of s]) (use wf step' in \<open>auto simp: state_wf_def\<close>)
  ultimately show ?thesis
    using step' by (intro state_wf_frame [OF wf]) auto
qed

lemma state_wf_name:
  assumes wf: "state_wf s" and seq: "seq = ss_sequence s + 1"
    and step: "apply_name seq name s = Inr s'"
  shows "state_wf s'"
proof -
  have "log_wf s'"
    by (rule log_wf_snoc [of s s' "LIName seq name"])
      (use wf seq step in \<open>auto simp: state_wf_def apply_name_def\<close>)
  moreover have "labels_wf s'"
    by (rule labels_wf_mono [of s]) (use wf step in \<open>auto simp: state_wf_def apply_name_def\<close>)
  moreover have "lanes_wf s'"
    using wf step by (auto simp: state_wf_def apply_name_def lanes_wf_def)
  ultimately show ?thesis
    using step by (intro state_wf_frame [OF wf]) (auto simp: apply_name_def)
qed

lemma state_wf_label:
  assumes wf: "state_wf s" and seq: "seq = ss_sequence s + 1"
    and step: "apply_label seq target label s = Inr s'"
  shows "state_wf s'"
proof -
  have target: "target \<in> entry_ids s"
    using step state_wf_index [OF wf, of target] by (auto simp: apply_label_def split: if_splits)
  have "log_wf s'"
    by (rule log_wf_snoc [of s s' "LILabel seq target label"])
      (use wf seq step in \<open>auto simp: state_wf_def apply_label_def split: if_splits\<close>)
  moreover have s': "s' = s\<lparr>ss_sequence := seq, ss_labels := (ss_labels s)(target := label),
      ss_log := ss_log s @ [LILabel seq target label]\<rparr>"
    using step by (simp add: apply_label_def split: if_splits)
  moreover have "labels_wf s'"
    using wf target unfolding s' state_wf_def labels_wf_def by (cases label) auto
  moreover have "lanes_wf s'"
    using wf by (auto simp: s' state_wf_def lanes_wf_def)
  ultimately show ?thesis
    by (intro state_wf_frame [OF wf]) auto
qed

lemma state_wf_mutation:
  assumes "state_wf s" and "apply_mutation m s = Inr s'"
  shows "state_wf s'"
  using assms
  by (cases m)
    (auto simp: apply_mutation_Inr intro: state_wf_entry state_wf_record state_wf_lane
      state_wf_name state_wf_label)

lemma state_wf_mutations:
  "\<lbrakk>state_wf s; apply_mutations ms s = Inr s'\<rbrakk> \<Longrightarrow> state_wf s'"
  by (induction ms arbitrary: s) (auto simp: result_simps intro: state_wf_mutation)

section \<open>A small session\<close>

text \<open>
  Two messages on \<open>main\<close>, an operation that is still open, a finished one, a usage record, a name
  and a label: the concrete session at which the properties of this and the later theories are
  instantiated.
\<close>

definition demo_entry :: "string \<Rightarrow> int \<Rightarrow> string option \<Rightarrow> entry" where
  "demo_entry i seq parent =
     \<lparr>e_id = i, e_seq = seq, e_parent_id = parent, e_timestamp = 0,
      e_payload = EPMessage \<lparr>me_message = AUser \<lparr>um_content = UCText i, um_timestamp = 0\<rparr>,
                             me_terminate = None\<rparr>,
      e_extra = []\<rparr>"

definition demo_record :: "string \<Rightarrow> int \<Rightarrow> record_payload \<Rightarrow> lane_record" where
  "demo_record i seq payload =
     \<lparr>r_id = i, r_seq = seq, r_lane = ''main'', r_timestamp = 0, r_payload = payload,
      r_extra = []\<rparr>"

definition demo_start :: record_payload where
  "demo_start =
     RPOperationStarted \<lparr>os_source_leaf_id = None,
       os_intent = ICompaction \<lparr>ci_custom_instructions = None, ci_result_entry_id = ''z''\<rparr>\<rparr>"

definition demo_finish :: "string \<Rightarrow> record_payload" where
  "demo_finish rid =
     RPOperationFinished \<lparr>of_run_id = rid, of_outcome = OOCompleted, of_error = None\<rparr>"

definition demo_usage :: record_payload where
  "demo_usage =
     RPUsage \<lparr>ur_cause = UCaTool, ur_run_id = None, ur_entry_id = None, ur_tool_call_id = None,
       ur_attempt = None, ur_stop_reason = None, ur_details = None,
       ur_usage = usage_default\<lparr>us_input := 7, us_total_tokens := 7\<rparr>\<rparr>"

definition demo_mutations :: "session_mutation list" where
  "demo_mutations =
     [SMEntry (Some ''main'') (demo_entry ''a'' 1 None),
      SMEntry (Some ''main'') (demo_entry ''b'' 2 (Some ''a'')),
      SMRecord (demo_record ''o1'' 3 demo_start),
      SMRecord (demo_record ''f1'' 4 (demo_finish ''o1'')),
      SMRecord (demo_record ''o2'' 5 demo_start),
      SMRecord (demo_record ''u1'' 6 demo_usage),
      SMName 7 (Some ''demo''),
      SMLabel 8 ''a'' (Some ''start'')]"

definition demo_state :: session_state where
  "demo_state =
     (case apply_mutations demo_mutations session_state_new of
        Inr s \<Rightarrow> s | Inl _ \<Rightarrow> session_state_new)"

lemmas demo_defs =
  demo_mutations_def demo_entry_def demo_record_def demo_start_def demo_finish_def demo_usage_def
  usage_default_def session_state_new_def session_stats_default_def

lemmas apply_defs =
  apply_mutation.simps apply_entry_def apply_record_def apply_lane_def apply_name_def
  apply_label_def lane_slot_def set_leaf_def push_open_operation_def close_open_operation_def
  add_usage_def entry_type_of_def

lemma demo_entries:
  "ss_entries demo_state = [demo_entry ''a'' 1 None, demo_entry ''b'' 2 (Some ''a'')]"
  by (simp add: demo_state_def demo_defs apply_defs)

lemma demo_accepts: "apply_mutations demo_mutations session_state_new = Inr demo_state"
  by (simp add: demo_state_def demo_defs apply_defs)

lemma demo_wf: "state_wf demo_state"
  using state_wf_mutations [OF state_wf_new demo_accepts] .

section \<open>Properties\<close>

text \<open>
  C1. The session invariant: after any sequence of mutations a fresh state has accepted, ids are
  unique over entries and records, the index finds exactly the entries, every parent was committed
  before its child, lanes are distinct, include \<open>main\<close> and point to entries, labels are on entries,
  the log is numbered consecutively from 1 and holds the entries and records, the open operations
  are the unfinished ones, and the statistics are the sums over the log.
\<close>

theorem session_invariant:
  assumes "apply_mutations ms session_state_new = Inr s"
  shows "state_wf s"
  by (rule state_wf_mutations [OF state_wf_new assms])

theorem session_invariant_witness: "state_wf demo_state"
  by (rule session_invariant [OF demo_accepts])

end
