(* ===== verification/Session_Recovery.thy ===== *)
theory Session_Recovery
  imports Session_Reducer Session_Invariant
begin

text \<open>
  What crash recovery guarantees: the record logs \<open>validate_record_log\<close> accepts are exactly those
  in which every record is permitted by the records before it (\<open>record_ok\<close>), and the state
  \<open>reduce_lane_state\<close> rebuilds holds exactly the work that is neither committed nor cancelled, so
  that resuming a lane neither loses nor repeats an entry.
\<close>

section \<open>What a valid record log is\<close>

text \<open>
  The reference the validator is compared with: what one record may be, given the records before
  it in sequence order and the committed entries. \<open>last_where\<close> is the newest record with a
  property.
\<close>

definition last_where :: "('a \<Rightarrow> bool) \<Rightarrow> 'a list \<Rightarrow> 'a option" where
  "last_where P xs = find P (rev xs)"

definition is_start :: "lane_record \<Rightarrow> bool" where
  "is_start r \<longleftrightarrow> (case r_payload r of RPOperationStarted _ \<Rightarrow> True | _ \<Rightarrow> False)"

definition finishes :: "string \<Rightarrow> lane_record \<Rightarrow> bool" where
  "finishes rid r \<longleftrightarrow> (case r_payload r of RPOperationFinished f \<Rightarrow> of_run_id f = rid | _ \<Rightarrow> False)"

definition aborts :: "string \<Rightarrow> lane_record \<Rightarrow> bool" where
  "aborts rid r \<longleftrightarrow> (case r_payload r of RPAbortRequested a \<Rightarrow> ab_run_id a = rid | _ \<Rightarrow> False)"

definition enqueues :: "string \<Rightarrow> lane_record \<Rightarrow> bool" where
  "enqueues i r \<longleftrightarrow> (case r_payload r of RPQueueEnqueued q \<Rightarrow> pe_id (qe_target q) = i | _ \<Rightarrow> False)"

definition attempts :: "string \<Rightarrow> lane_record \<Rightarrow> bool" where
  "attempts rid r \<longleftrightarrow> (case r_payload r of RPStepAttempt a \<Rightarrow> sa_run_id a = rid | _ \<Rightarrow> False)"

definition if_committed :: "(string \<rightharpoonup> entry) \<Rightarrow> string \<Rightarrow> (entry \<Rightarrow> bool) \<Rightarrow> bool" where
  "if_committed es i P \<longleftrightarrow> (case es i of None \<Rightarrow> True | Some e \<Rightarrow> P e)"

definition as_intended :: "(string \<rightharpoonup> entry) \<Rightarrow> provisioned_entry \<Rightarrow> bool" where
  "as_intended es t \<longleftrightarrow> if_committed es (pe_id t) (\<lambda>e. provisioned_eq (to_provisioned e) t)"

definition intent_ok :: "(string \<rightharpoonup> entry) \<Rightarrow> operation_intent \<Rightarrow> bool" where
  "intent_ok es intent \<longleftrightarrow>
     (case intent of
        IRun run \<Rightarrow> list_all (as_intended es) (ri_initial_messages run)
      | ICompaction c \<Rightarrow> if_committed es (ci_result_entry_id c) (\<lambda>e. entry_type_of e = ETCompaction)
      | INavigation n \<Rightarrow>
          (case ni_summary_entry_id n of
             None \<Rightarrow> True
           | Some i \<Rightarrow> if_committed es i (\<lambda>e. entry_type_of e = ETBranchSummary)))"

fun step_result :: "step_kind \<Rightarrow> entry \<Rightarrow> bool" where
  "step_result SKAssistant e = is_assistant_message e"
| "step_result SKCompaction e = (entry_type_of e = ETCompaction)"
| "step_result SKBranchSummary e = (entry_type_of e = ETBranchSummary)"

definition attempt_follows ::
  "(string \<rightharpoonup> entry) \<Rightarrow> step_attempt_record option \<Rightarrow> int \<Rightarrow> step_attempt_record \<Rightarrow> bool" where
  "attempt_follows es previous sq a \<longleftrightarrow>
     (case previous of
        None \<Rightarrow> sa_attempt a = 1
      | Some p \<Rightarrow>
          if sa_step p = sa_step a \<and> if_committed es (sa_result_entry_id p) (\<lambda>e. e_seq e \<ge> sq)
          then sa_attempt a = i64_wrap (sa_attempt p + 1) \<and>
               (sa_step a = SKAssistant \<or>
                sa_result_entry_id a = sa_result_entry_id p \<and>
                sa_compaction_reason a = sa_compaction_reason p)
          else sa_attempt a = 1)"

definition starts_call :: "(string \<rightharpoonup> entry) \<Rightarrow> tool_started_record \<Rightarrow> bool" where
  "starts_call es t \<longleftrightarrow>
     (case es (ts_assistant_entry_id t) of
        None \<Rightarrow> False
      | Some e \<Rightarrow>
          is_assistant_message e \<and> 0 \<le> ts_tool_index t \<and>
          nat (ts_tool_index t) < length (tool_calls_of e) \<and>
          call_id (tool_calls_of e ! nat (ts_tool_index t)) = ts_tool_call_id t \<and>
          call_name (tool_calls_of e ! nat (ts_tool_index t)) = ts_tool_name t) \<and>
     if_committed es (ts_result_entry_id t) (\<lambda>e.
       case entry_tool_result e of
         None \<Rightarrow> False
       | Some m \<Rightarrow> tr_tool_call_id m = ts_tool_call_id t \<and> tr_tool_name m = ts_tool_name t)"

definition payload_ok :: "(string \<rightharpoonup> entry) \<Rightarrow> lane_record list \<Rightarrow> lane_record \<Rightarrow> bool" where
  "payload_ok es earlier r \<longleftrightarrow>
     (case r_payload r of
        RPOperationStarted s \<Rightarrow> intent_ok es (os_intent s)
      | RPStepAttempt a \<Rightarrow>
          (sa_compaction_reason a \<noteq> None) = (sa_step a = SKCompaction) \<and>
          attempt_follows es
            (Option.bind (last_where (attempts (sa_run_id a)) earlier) as_step_attempt) (r_seq r) a \<and>
          if_committed es (sa_result_entry_id a) (step_result (sa_step a))
      | RPToolStarted t \<Rightarrow>
          list_all (\<lambda>x. case as_tool_started x of
              Some u \<Rightarrow> ts_assistant_entry_id u \<noteq> ts_assistant_entry_id t \<or>
                        ts_tool_index u \<noteq> ts_tool_index t
            | None \<Rightarrow> True) earlier \<and>
          starts_call es t
      | RPQueueEnqueued q \<Rightarrow>
          (qe_queue q = QNextRun \<or> qe_run_id q = None \<or>
           \<not> list_ex (aborts (the (qe_run_id q))) earlier) \<and> as_intended es (qe_target q)
      | RPQueueCancelled c \<Rightarrow>
          es (qc_entry_id c) = None \<and>
          map_option run_id (last_where (enqueues (qc_entry_id c)) earlier) = Some (qc_run_id c)
      | RPWriteDeferred d \<Rightarrow> as_intended es (wd_target d)
      | _ \<Rightarrow> True)"

definition record_ok :: "(string \<rightharpoonup> entry) \<Rightarrow> lane_record list \<Rightarrow> lane_record \<Rightarrow> bool" where
  "record_ok es earlier r \<longleftrightarrow>
     (case run_id r of
        None \<Rightarrow> True
      | Some rid \<Rightarrow>
          list_ex (\<lambda>s. is_start s \<and> r_id s = rid) earlier \<and>
          \<not> list_ex (finishes rid) earlier) \<and>
     payload_ok es earlier r"

definition handle_ok :: "entry \<Rightarrow> bool" where
  "handle_ok e \<longleftrightarrow>
     (case entry_assistant e of
        None \<Rightarrow> True | Some a \<Rightarrow> am_stop_reason a = SRDeferred \<longrightarrow> am_deferred a \<noteq> None)"

definition seen :: "lane_record list \<Rightarrow> validation" where
  "seen xs =
     \<lparr>v_starts = r_id ` {s \<in> set xs. is_start s},
      v_finished_at = (\<lambda>rid. map_option r_seq (last_where (finishes rid) xs)),
      v_aborted_at = (\<lambda>rid. map_option r_seq (last_where (aborts rid) xs)),
      v_queue_enqueues = (\<lambda>i. last_where (enqueues i) xs),
      v_latest_attempt = (\<lambda>rid. last_where (attempts rid) xs),
      v_tool_invocations = invocation_key ` set (List.map_filter as_tool_started xs)\<rparr>"

section \<open>Lemmas on the validator\<close>

lemma last_where_Nil [simp]: "last_where P [] = None"
  by (simp add: last_where_def)

lemma last_where_snoc [simp]: "last_where P (xs @ [x]) = (if P x then Some x else last_where P xs)"
  by (simp add: last_where_def)

lemma last_where_None: "last_where P xs = None \<longleftrightarrow> \<not> list_ex P xs"
  by (auto simp: last_where_def find_None_iff list_ex_iff)

lemma last_where_Some: "last_where P xs = Some x \<Longrightarrow> x \<in> set xs \<and> P x"
  by (induction xs rule: rev_induct) (auto split: if_splits)

lemma seen_Nil: "seen [] = validation_new"
  by (auto simp: seen_def validation_new_def List.map_filter_def)

lemmas payload_defs =
  is_start_def finishes_def aborts_def enqueues_def attempts_def

lemma corrupt_not_Inr [simp]: "corrupt reason m \<noteq> Inr x"
  by (simp add: corrupt_def)

lemma validate_exact_Inr:
  "validate_exact_provisioned_entry es t = Inr u \<longleftrightarrow> as_intended es t"
  by (simp add: validate_exact_provisioned_entry_def as_intended_def if_committed_def
      split: option.splits)

lemma validate_result_Inr:
  "validate_result_entry es i P d = Inr u \<longleftrightarrow> if_committed es i P"
  by (simp add: validate_result_entry_def if_committed_def split: option.splits)

lemma validate_operation_Inr:
  "validate_operation_result es s = Inr u \<longleftrightarrow> intent_ok es (os_intent s)"
  by (simp add: validate_operation_result_def intent_ok_def validate_result_Inr result_simps
      validate_exact_Inr list_all_iff split: operation_intent.splits option.splits)

lemma validate_reason_Inr:
  "validate_attempt_reason r a = Inr u \<longleftrightarrow>
     (sa_compaction_reason a \<noteq> None) = (sa_step a = SKCompaction)"
  by (auto simp: validate_attempt_reason_def)

lemma validate_sequence_Inr:
  "validate_attempt_sequence r a previous es = Inr u \<longleftrightarrow>
     attempt_follows es (Option.bind previous as_step_attempt) (r_seq r) a"
  by (auto simp: validate_attempt_sequence_def attempt_follows_def Let_def if_committed_def
      split: option.splits)

lemma validate_attempt_result_Inr:
  "validate_attempt_result es a = Inr u \<longleftrightarrow>
     if_committed es (sa_result_entry_id a) (step_result (sa_step a))"
  by (auto simp: validate_attempt_result_def validate_result_Inr if_committed_def
      split: step_kind.splits option.splits)

lemma nul_split:
  assumes "a @ CHR 0x00 # s = b @ CHR 0x00 # t" "CHR 0x00 \<notin> set s" "CHR 0x00 \<notin> set t"
  shows "a = b \<and> s = t"
proof -
  have tail: "takeWhile (\<lambda>c. c \<noteq> CHR 0x00) (rev (x @ CHR 0x00 # y)) = rev y"
    if "CHR 0x00 \<notin> set y" for x y :: string
  proof -
    have "takeWhile (\<lambda>c. c \<noteq> CHR 0x00) (rev y @ CHR 0x00 # rev x) = rev y"
      by (subst takeWhile_append2) (use that in auto)
    then show ?thesis by simp
  qed
  from assms tail [of s a] tail [of t b] have "s = t" by simp
  with assms(1) show ?thesis by simp
qed

lemma invocation_key_inject:
  "invocation_key t = invocation_key u \<longleftrightarrow>
     ts_assistant_entry_id t = ts_assistant_entry_id u \<and> ts_tool_index t = ts_tool_index u"
proof
  assume "invocation_key t = invocation_key u"
  then have "ts_assistant_entry_id t @ CHR 0x00 # show_int (ts_tool_index t) =
      ts_assistant_entry_id u @ CHR 0x00 # show_int (ts_tool_index u)"
    by (simp add: invocation_key_def)
  from nul_split [OF this nul_not_in_show_int nul_not_in_show_int]
  show "ts_assistant_entry_id t = ts_assistant_entry_id u \<and> ts_tool_index t = ts_tool_index u"
    by simp
qed (simp add: invocation_key_def)

lemma call_at_Some:
  "call_at calls i = Some c \<longleftrightarrow> 0 \<le> i \<and> nat i < length calls \<and> c = calls ! nat i"
  by (auto simp: call_at_def)

lemma validate_tool_start_Inr:
  "validate_tool_start r t es known = Inr known' \<longleftrightarrow>
     invocation_key t \<notin> known \<and> known' = insert (invocation_key t) known \<and> starts_call es t"
proof (cases "es (ts_assistant_entry_id t)")
  case None
  then show ?thesis by (simp add: validate_tool_start_def starts_call_def Let_def)
next
  case (Some e)
  then show ?thesis
    by (cases "call_at (tool_calls_of e) (ts_tool_index t)")
      (auto simp: validate_tool_start_def starts_call_def Let_def result_simps validate_result_Inr
        call_at_def if_committed_def split: if_splits option.splits)
qed

lemma validate_deferred_Inr:
  "validate_deferred_handles es = Inr u \<longleftrightarrow> list_all handle_ok es"
proof -
  have "(case entry_assistant e of
         Some a \<Rightarrow>
           if am_stop_reason a = SRDeferred \<and> am_deferred a = None
           then corrupt InvalidDeferredHandle m else Inr ()
       | None \<Rightarrow> Inr ()) = Inr () \<longleftrightarrow> handle_ok e" for e m
    by (cases "entry_assistant e") (auto simp: handle_ok_def)
  then show ?thesis
    by (simp add: validate_deferred_handles_def result_simps list_all_iff)
qed

text \<open>The state the loop has after the records \<open>xs\<close> is \<open>seen xs\<close>.\<close>

lemma validate_record_seen:
  assumes "validate_record es (seen xs) r = Inr u"
  shows "u = seen (xs @ [r])"
proof (cases "r_payload r")
  case (RPOperationStarted s)
  with assms show ?thesis
    by (auto simp: validate_record_def result_simps seen_def payload_defs as_tool_started_def
        List.map_filter_def)
next
  case (RPToolStarted t)
  with assms show ?thesis
    by (auto simp: validate_record_def validate_payload_def result_simps seen_def payload_defs
        as_tool_started_def validate_tool_start_Inr List.map_filter_def)
qed (use assms in \<open>auto simp: validate_record_def validate_payload_def validate_enqueue_def
        validate_cancel_def result_simps seen_def payload_defs as_tool_started_def List.map_filter_def
        fun_eq_iff split: if_splits option.splits\<close>)

lemma newest_before:
  assumes "\<forall>x\<in>set xs. r_seq x < r_seq r"
  shows "(\<exists>x. last_where P xs = Some x \<and> r_seq x < r_seq r) \<longleftrightarrow> list_ex P xs"
  using assms last_where_Some [of P xs] last_where_None [of P xs] by fastforce

lemma validate_owner_Inr:
  assumes "\<forall>x\<in>set xs. r_seq x < r_seq r"
  shows "validate_owner (seen xs) r = Inr u \<longleftrightarrow>
     (case run_id r of
        None \<Rightarrow> True
      | Some rid \<Rightarrow>
          list_ex (\<lambda>s. is_start s \<and> r_id s = rid) xs \<and> \<not> list_ex (finishes rid) xs)"
proof (cases "run_id r")
  case (Some rid)
  have starts: "rid \<in> v_starts (seen xs) \<longleftrightarrow> list_ex (\<lambda>s. is_start s \<and> r_id s = rid) xs"
    by (auto simp: seen_def list_ex_iff)
  with Some newest_before [OF assms, of "finishes rid"] show ?thesis
    by (auto simp: validate_owner_def seen_def split: option.splits)
qed (simp add: validate_owner_def)

lemma validate_enqueue_Inr:
  assumes "\<forall>x\<in>set xs. r_seq x < r_seq r"
  shows "(\<exists>u. validate_enqueue es (seen xs) r q = Inr u) \<longleftrightarrow>
     (qe_queue q = QNextRun \<or> qe_run_id q = None \<or> \<not> list_ex (aborts (the (qe_run_id q))) xs) \<and>
     as_intended es (qe_target q)"
proof (cases "qe_run_id q")
  case (Some rid)
  with newest_before [OF assms, of "aborts rid"] show ?thesis
    by (auto simp: validate_enqueue_def seen_def validate_exact_Inr result_simps
        split: option.splits)
qed (auto simp: validate_enqueue_def result_simps validate_exact_Inr)

lemma validate_cancel_Inr:
  assumes "\<forall>x\<in>set xs. r_seq x < r_seq r"
  shows "(\<exists>u. validate_cancel es (seen xs) r c = Inr u) \<longleftrightarrow>
     es (qc_entry_id c) = None \<and>
     map_option run_id (last_where (enqueues (qc_entry_id c)) xs) = Some (qc_run_id c)"
  using assms last_where_Some [of "enqueues (qc_entry_id c)" xs]
  by (auto simp: validate_cancel_def seen_def split: option.splits)

lemma tool_unseen:
  "invocation_key t \<notin> v_tool_invocations (seen xs) \<longleftrightarrow>
     list_all (\<lambda>x. case as_tool_started x of
         Some u \<Rightarrow> ts_assistant_entry_id u \<noteq> ts_assistant_entry_id t \<or>
                   ts_tool_index u \<noteq> ts_tool_index t
       | None \<Rightarrow> True) xs"
  by (induction xs) (auto simp: seen_def List.map_filter_def invocation_key_inject
      split: option.splits)

lemma validate_record_Inr:
  assumes before: "\<forall>x\<in>set xs. r_seq x < r_seq r"
  shows "(\<exists>u. validate_record es (seen xs) r = Inr u) \<longleftrightarrow> record_ok es xs r"
proof (cases "r_payload r")
  case (RPOperationStarted s)
  then show ?thesis
    by (simp add: validate_record_def record_ok_def payload_ok_def run_id_def result_simps
        validate_operation_Inr)
next
  case (RPStepAttempt a)
  have "v_latest_attempt (seen xs) = (\<lambda>rid. last_where (attempts rid) xs)" by (simp add: seen_def)
  with RPStepAttempt show ?thesis
    by (simp add: validate_record_def validate_payload_def record_ok_def payload_ok_def result_simps
        validate_owner_Inr [OF before] validate_reason_Inr validate_sequence_Inr
        validate_attempt_result_Inr)
next
  case (RPToolStarted t)
  then show ?thesis
    by (simp add: validate_record_def validate_payload_def record_ok_def payload_ok_def result_simps
        validate_owner_Inr [OF before] validate_tool_start_Inr tool_unseen)
next
  case (RPQueueEnqueued q)
  with validate_enqueue_Inr [OF before, of es q] show ?thesis
    by (simp add: validate_record_def validate_payload_def record_ok_def payload_ok_def result_simps
        validate_owner_Inr [OF before])
next
  case (RPQueueCancelled c)
  with validate_cancel_Inr [OF before, of es c] show ?thesis
    by (simp add: validate_record_def validate_payload_def record_ok_def payload_ok_def result_simps
        validate_owner_Inr [OF before])
qed (simp_all add: validate_record_def validate_payload_def record_ok_def payload_ok_def result_simps
      validate_owner_Inr [OF before] validate_exact_Inr)

fun log_ok :: "(string \<rightharpoonup> entry) \<Rightarrow> lane_record list \<Rightarrow> lane_record list \<Rightarrow> bool" where
  "log_ok es earlier [] \<longleftrightarrow> True"
| "log_ok es earlier (r # rs) \<longleftrightarrow> record_ok es earlier r \<and> log_ok es (earlier @ [r]) rs"

lemma log_ok_iff:
  "log_ok es earlier rs \<longleftrightarrow>
     (\<forall>i < length rs. record_ok es (earlier @ take i rs) (rs ! i))"
proof (induction rs arbitrary: earlier)
  case (Cons r rs)
  have "(\<forall>i < length (r # rs). record_ok es (earlier @ take i (r # rs)) ((r # rs) ! i)) \<longleftrightarrow>
      record_ok es earlier r \<and>
      (\<forall>i < length rs. record_ok es (earlier @ r # take i rs) (rs ! i))"
    by (subst All_less_Suc2 [where n = "length rs", unfolded length_Cons [symmetric, of _ r]]) simp
  with Cons.IH [of "earlier @ [r]"] show ?case by simp
qed simp

lemma validate_records_log:
  assumes "sorted_wrt (\<lambda>a b. r_seq a < r_seq b) (xs @ rs)"
  shows "(\<exists>u. validate_records es (seen xs) rs = Inr u) \<longleftrightarrow> log_ok es xs rs"
  using assms
proof (induction rs arbitrary: xs)
  case (Cons r rs)
  have before: "\<forall>x\<in>set xs. r_seq x < r_seq r"
    using Cons.prems by (auto simp: sorted_wrt_append)
  have IH: "(\<exists>u. validate_records es (seen (xs @ [r])) rs = Inr u) \<longleftrightarrow> log_ok es (xs @ [r]) rs"
    by (rule Cons.IH) (use Cons.prems in simp)
  have "(\<exists>u. validate_records es (seen xs) (r # rs) = Inr u) \<longleftrightarrow>
      (\<exists>u. validate_record es (seen xs) r = Inr u) \<and>
      (\<exists>u. validate_records es (seen (xs @ [r])) rs = Inr u)"
    using validate_record_seen [of es xs r] by (auto simp: result_simps)
  with IH validate_record_Inr [OF before] show ?case by simp
qed simp

lemma by_sequence_strict:
  assumes "distinct (map r_seq rs)"
  shows "sorted_wrt (\<lambda>a b. r_seq a < r_seq b) (by_sequence rs)"
proof -
  have "distinct (map r_seq (by_sequence rs))"
    using assms by (metis by_sequence_def distinct_map distinct_sort set_sort)
  moreover have "sorted (map r_seq (by_sequence rs))" by (simp add: by_sequence_def)
  ultimately have "sorted_wrt (<) (map r_seq (by_sequence rs))"
    by (simp add: strict_sorted_iff)
  then show ?thesis by (simp add: sorted_wrt_map)
qed

lemma validate_record_log_ok:
  assumes "distinct (map r_seq (sl_records sl))"
  shows "validate_record_log sl = Inr () \<longleftrightarrow>
     length (sl_open_operations sl) \<le> 1 \<and> list_all handle_ok (sl_entries sl) \<and>
     (\<forall>i < length (sl_records sl).
        record_ok (entries_by_id (sl_entries sl)) (take i (by_sequence (sl_records sl)))
          (by_sequence (sl_records sl) ! i))"
proof -
  have "(\<exists>v. validate_records (entries_by_id (sl_entries sl)) validation_new
      (by_sequence (sl_records sl)) = Inr v) \<longleftrightarrow>
      (\<forall>i < length (sl_records sl).
        record_ok (entries_by_id (sl_entries sl)) (take i (by_sequence (sl_records sl)))
          (by_sequence (sl_records sl) ! i))"
    using validate_records_log [of "[]" "by_sequence (sl_records sl)" "entries_by_id (sl_entries sl)"]
      by_sequence_strict [OF assms]
    by (simp add: seen_Nil log_ok_iff) (simp add: by_sequence_def)
  then show ?thesis
    by (auto simp: validate_record_log_def Let_def result_simps validate_deferred_Inr)
qed

section \<open>Lemmas on the reduction\<close>

lemma entries_by_id_None: "entries_by_id es i = None \<longleftrightarrow> i \<notin> e_id ` set es"
  by (simp add: entries_by_id_def map_of_eq_None_iff image_image)

lemma cancelled_ids_iff:
  "i \<in> cancelled_ids rs \<longleftrightarrow> (\<exists>r\<in>set rs. \<exists>c. r_payload r = RPQueueCancelled c \<and> qc_entry_id c = i)"
proof -
  have "(case r_payload r of RPQueueCancelled c \<Rightarrow> Some (qc_entry_id c) | _ \<Rightarrow> None) = Some i \<longleftrightarrow>
      (\<exists>c. r_payload r = RPQueueCancelled c \<and> qc_entry_id c = i)" for r :: lane_record
    by (cases "r_payload r") simp_all
  then show ?thesis unfolding cancelled_ids_def set_map_filter mem_Collect_eq by simp
qed

lemma set_deferred_targets:
  "set (deferred_targets rs) = {t. \<exists>r\<in>set rs. \<exists>d. r_payload r = RPWriteDeferred d \<and> t = wd_target d}"
proof -
  have "(case r_payload r of RPWriteDeferred d \<Rightarrow> Some (wd_target d) | _ \<Rightarrow> None) = Some t \<longleftrightarrow>
      (\<exists>d. r_payload r = RPWriteDeferred d \<and> t = wd_target d)" for r :: lane_record and t
    by (cases "r_payload r") auto
  then show ?thesis unfolding deferred_targets_def set_map_filter by simp
qed

lemma as_queue_enqueued_Some:
  "as_queue_enqueued r = Some q \<longleftrightarrow> r_payload r = RPQueueEnqueued q"
  by (simp add: as_queue_enqueued_def split: record_payload.splits)

definition committed :: "lane_reduction_input \<Rightarrow> string set" where
  "committed input = e_id ` (set (sl_entries (in_slice input)) \<union> set (in_own_entries input))"

text \<open>
  The items of a queue that were neither committed nor cancelled, in the order in which they were
  enqueued; \<open>rid\<close> restricts them to the items of one run.
\<close>

definition cancelled :: "lane_reduction_input \<Rightarrow> string \<Rightarrow> bool" where
  "cancelled input i \<longleftrightarrow>
     list_ex (\<lambda>r. case r_payload r of RPQueueCancelled c \<Rightarrow> qc_entry_id c = i | _ \<Rightarrow> False)
       (sl_records (in_slice input))"

definition waiting ::
  "lane_reduction_input \<Rightarrow> queue_kind \<Rightarrow> string option \<Rightarrow> provisioned_entry list" where
  "waiting input queue rid =
     List.map_filter (\<lambda>r. case r_payload r of
         RPQueueEnqueued q \<Rightarrow>
           if qe_queue q = queue \<and> (rid = None \<or> qe_run_id q = rid) \<and>
              pe_id (qe_target q) \<notin> committed input \<and> \<not> cancelled input (pe_id (qe_target q))
           then Some (qe_target q) else None
       | _ \<Rightarrow> None) (sort_key r_seq (sl_records (in_slice input)))"

definition all_entries :: "lane_reduction_input \<Rightarrow> string \<rightharpoonup> entry" where
  "all_entries input =
     entries_by_id (sl_entries (in_slice input) @ entries_by_sequence (in_own_entries input))"

lemma all_entries_None: "all_entries input i = None \<longleftrightarrow> i \<notin> committed input"
  by (simp add: all_entries_def committed_def entries_by_id_None entries_by_sequence_def image_Un)

lemma cancelled_by_sequence:
  "i \<in> cancelled_ids (by_sequence (sl_records (in_slice input))) \<longleftrightarrow> cancelled input i"
proof -
  have "(case r_payload r of RPQueueCancelled c \<Rightarrow> qc_entry_id c = i | _ \<Rightarrow> False) \<longleftrightarrow>
      (\<exists>c. r_payload r = RPQueueCancelled c \<and> qc_entry_id c = i)" for r :: lane_record
    by (cases "r_payload r") simp_all
  then show ?thesis by (simp add: cancelled_ids_iff cancelled_def list_ex_iff by_sequence_def)
qed

lemma map_filter_map_filter:
  "map f (filter P (List.map_filter g xs)) =
     List.map_filter (\<lambda>x. Option.bind (g x) (\<lambda>y. if P y then Some (f y) else None)) xs"
  by (induction xs) (auto simp: List.map_filter_simps split: option.splits)

lemma waiting_pending:
  "waiting input queue rid = map qe_target (filter (\<lambda>q. qe_queue q = queue \<and> (rid = None \<or> qe_run_id q = rid))
     (pending_queue (all_entries input) (by_sequence (sl_records (in_slice input)))))"
proof -
  have "(case r_payload r of
         RPQueueEnqueued q \<Rightarrow> if P q then Some (qe_target q) else None | _ \<Rightarrow> None) =
      Option.bind (as_queue_enqueued r) (\<lambda>q. if P q then Some (qe_target q) else None)" for r :: lane_record and P
    by (cases "r_payload r") (simp_all add: as_queue_enqueued_def)
  then show ?thesis
    unfolding waiting_def pending_queue_def filter_filter map_filter_map_filter by_sequence_def [symmetric]
    by (simp add: all_entries_None cancelled_by_sequence conj_ac cong: if_cong)
qed

text \<open>What a successful reduction is made of.\<close>

lemma reduce_lane_state_Inr:
  "reduce_lane_state input = Some (Inr res) \<longleftrightarrow>
     validate_record_log (in_slice input) = Inr () \<and>
     (case sl_open_operations (in_slice input) of
        [] \<Rightarrow>
          res = \<lparr>rr_lane_state =
                   \<lparr>ls_lane = sl_lane (in_slice input), ls_leaf_id = in_leaf_id input,
                    ls_operation = None,
                    ls_pending_next_run = pending_next_run {} (pending_queue (all_entries input)
                      (by_sequence (sl_records (in_slice input))))\<rparr>,
                 rr_effective_configuration = derive_effective_configuration input,
                 rr_terminal_failure = None\<rparr>
      | r # _ \<Rightarrow>
          \<exists>s. r_payload r = RPOperationStarted s \<and>
          res = \<lparr>rr_lane_state =
                   \<lparr>ls_lane = sl_lane (in_slice input), ls_leaf_id = in_leaf_id input,
                    ls_operation = Some (fst (reduce_operation r s
                      (by_sequence (sl_records (in_slice input)))
                      (entries_by_sequence (in_own_entries input)) (all_entries input))),
                    ls_pending_next_run = pending_next_run (captured_ids (Some r))
                      (pending_queue (all_entries input)
                        (by_sequence (sl_records (in_slice input))))\<rparr>,
                 rr_effective_configuration = derive_effective_configuration input,
                 rr_terminal_failure = snd (reduce_operation r s
                      (by_sequence (sl_records (in_slice input)))
                      (entries_by_sequence (in_own_entries input)) (all_entries input))\<rparr>)"
proof (cases "sl_open_operations (in_slice input)")
  case Nil
  then show ?thesis
    by (auto simp: reduce_lane_state_def all_entries_def Let_def captured_ids_def split: sum.splits)
next
  case (Cons r rs)
  then show ?thesis
    by (auto simp: reduce_lane_state_def all_entries_def Let_def as_operation_started_def
        split: sum.splits prod.splits record_payload.splits)
qed

definition deferred_writes :: "lane_reduction_input \<Rightarrow> string \<Rightarrow> provisioned_entry list" where
  "deferred_writes input rid =
     List.map_filter (\<lambda>r. case r_payload r of
       RPWriteDeferred d \<Rightarrow> if wd_run_id d = rid then Some (wd_target d) else None | _ \<Rightarrow> None)
       (sort_key r_seq (sl_records (in_slice input)))"

definition writes_deferred :: "lane_reduction_input \<Rightarrow> string \<Rightarrow> provisioned_entry \<Rightarrow> bool" where
  "writes_deferred input rid t \<longleftrightarrow>
     list_ex (\<lambda>r. case r_payload r of
       RPWriteDeferred d \<Rightarrow> wd_target d = t \<and> wd_run_id d = rid | _ \<Rightarrow> False)
       (sl_records (in_slice input))"

lemma writes_deferred_iff:
  "writes_deferred input rid t \<longleftrightarrow>
     t \<in> set (deferred_targets (filter (owned_by rid) (by_sequence (sl_records (in_slice input)))))"
proof -
  have "(case r_payload r of
       RPWriteDeferred d \<Rightarrow> wd_target d = t \<and> wd_run_id d = rid | _ \<Rightarrow> False) \<longleftrightarrow>
     (\<exists>d. r_payload r = RPWriteDeferred d \<and> t = wd_target d) \<and> owned_by rid r" for r :: lane_record
    by (cases "r_payload r") (auto simp: owned_by_def record_type_of_def run_id_def)
  then show ?thesis
    unfolding writes_deferred_def list_ex_iff set_deferred_targets by (auto simp: by_sequence_def)
qed

lemma deferred_writes_targets:
  "deferred_writes input rid =
     deferred_targets (filter (owned_by rid) (by_sequence (sl_records (in_slice input))))"
proof -
  have "List.map_filter f (filter P xs) = List.map_filter (\<lambda>x. if P x then f x else None) xs"
    for f :: "lane_record \<Rightarrow> provisioned_entry option" and P xs
    by (induction xs) (auto simp: List.map_filter_simps split: option.splits)
  moreover have "(case r_payload r of
       RPWriteDeferred d \<Rightarrow> if wd_run_id d = rid then Some (wd_target d) else None | _ \<Rightarrow> None) =
     (if owned_by rid r then case r_payload r of RPWriteDeferred d \<Rightarrow> Some (wd_target d) | _ \<Rightarrow> None else None)"
    for r :: lane_record
    by (cases "r_payload r") (auto simp: owned_by_def record_type_of_def run_id_def)
  ultimately show ?thesis by (simp add: deferred_writes_def deferred_targets_def by_sequence_def)
qed

lemma aborting_iff:
  "list_ex is_abort (filter (owned_by rid) (by_sequence rs)) \<longleftrightarrow> list_ex (aborts rid) rs"
proof -
  have "is_abort r \<and> owned_by rid r \<longleftrightarrow> aborts rid r" for r
    by (cases "r_payload r") (simp_all add: is_abort_def owned_by_def record_type_of_def run_id_def aborts_def)
  then show ?thesis by (auto simp: list_ex_iff by_sequence_def)
qed

lemma reduce_operation_parts:
  fixes input r s
  defines "op \<equiv> fst (reduce_operation r s (by_sequence (sl_records (in_slice input)))
    (entries_by_sequence (in_own_entries input)) (all_entries input))"
  shows "op_id op = r_id r" and "op_intent op = os_intent s"
    and "op_aborting op \<longleftrightarrow> list_ex (aborts (op_id op)) (sl_records (in_slice input))"
    and "op_pending_steer op = (if op_aborting op then [] else waiting input QSteer (Some (op_id op)))"
    and "op_pending_follow_up op = (if op_aborting op then [] else waiting input QFollowUp (Some (op_id op)))"
    and "op_pending_writes op = filter (\<lambda>t. pe_id t \<notin> committed input) (deferred_writes input (op_id op))"
    and "op_missing_initial_messages op =
      filter (\<lambda>t. pe_id t \<notin> committed input) (intent_messages (op_intent op))"
  by (auto simp: op_def reduce_operation_def Let_def pending_of_def waiting_pending deferred_writes_targets
      all_entries_None aborting_iff)

section \<open>Properties\<close>

text \<open>
  A run that crashed: an assistant turn with two tool calls was committed and the first call was
  started; of the queued messages one is committed, one is cancelled and one waits.
\<close>

definition demo_item :: "string \<Rightarrow> provisioned_entry" where
  "demo_item i = to_provisioned (demo_entry i 0 None)"

definition demo_run :: record_payload where
  "demo_run = RPOperationStarted \<lparr>os_source_leaf_id = None, os_intent = IRun
     \<lparr>ri_original_prompt = [], ri_initial_messages = [demo_item ''n1''],
      ri_system_prompt_override = None, ri_resume_data = None\<rparr>\<rparr>"

definition demo_steer :: "string \<Rightarrow> record_payload" where
  "demo_steer i = RPQueueEnqueued
     \<lparr>qe_queue = QSteer, qe_run_id = Some ''s'', qe_target = demo_item i\<rparr>"

definition demo_tool :: record_payload where
  "demo_tool = RPToolStarted
     \<lparr>ts_run_id = ''s'', ts_assistant_entry_id = ''a'', ts_tool_index = 0,
      ts_tool_call_id = ''c1'', ts_tool_name = ''t'', ts_effective_args = [],
      ts_result_entry_id = ''r1'', ts_replay = TRSafe\<rparr>"

definition demo_log :: "lane_record list" where
  "demo_log =
     [demo_record ''s'' 1 demo_run, demo_record ''q1'' 2 (demo_steer ''w1''),
      demo_record ''q2'' 3 (demo_steer ''w2''),
      demo_record ''x2'' 4
        (RPQueueCancelled \<lparr>qc_run_id = Some ''s'', qc_entry_id = ''w2''\<rparr>),
      demo_record ''t1'' 6 demo_tool]"

definition demo_assistant :: entry where
  "demo_assistant =
     \<lparr>e_id = ''a'', e_seq = 5, e_parent_id = None, e_timestamp = 0,
      e_payload = EPMessage
        \<lparr>me_message = AAssistant ((assistant_message_pending 0 ''api'' ''p'' ''m'')
           \<lparr>am_content := [ACToolCall (tool_call_new ''c1'' ''t''),
                            ACToolCall (tool_call_new ''c2'' ''t'')],
            am_stop_reason := SRToolUse\<rparr>),
         me_terminate = None\<rparr>,
      e_extra = []\<rparr>"

definition demo_slice :: record_log_slice where
  "demo_slice =
     \<lparr>sl_lane = ''main'', sl_open_operations = [demo_record ''s'' 1 demo_run],
      sl_records = demo_log, sl_entries = [demo_assistant]\<rparr>"

definition demo_input :: lane_reduction_input where
  "demo_input =
     \<lparr>in_slice = demo_slice, in_leaf_id = Some ''a'', in_own_entries = [demo_assistant],
      in_configuration_entries = [], in_defaults = None\<rparr>"

lemmas demo_log_defs =
  demo_log_def demo_record_def demo_run_def demo_steer_def demo_tool_def demo_item_def
  demo_entry_def to_provisioned_def

lemma demo_by_sequence: "by_sequence demo_log = demo_log"
  by (simp add: by_sequence_def demo_log_def demo_record_def)

lemma demo_entry_assistant:
  "entry_assistant demo_assistant =
     Some ((assistant_message_pending 0 ''api'' ''p'' ''m'')
       \<lparr>am_content := [ACToolCall (tool_call_new ''c1'' ''t''),
                       ACToolCall (tool_call_new ''c2'' ''t'')],
        am_stop_reason := SRToolUse\<rparr>)"
  by (simp add: entry_assistant_def demo_assistant_def as_message_def)

lemma demo_tool_calls:
  "tool_calls_of demo_assistant = [tool_call_new ''c1'' ''t'', tool_call_new ''c2'' ''t'']"
  by (simp add: tool_calls_of_def demo_entry_assistant tool_calls_def List.map_filter_def)

lemma demo_entries_by_id:
  "entries_by_id [demo_assistant] = [''a'' \<mapsto> demo_assistant]"
  by (simp add: entries_by_id_def demo_assistant_def)

lemma demo_validates: "validate_record_log demo_slice = Inr ()"
proof -
  have "validate_records [''a'' \<mapsto> demo_assistant] validation_new demo_log \<noteq> Inl e" for e
    by (simp add: demo_log_defs validate_record_def validate_payload_def validate_owner_def
        validation_new_def run_id_def validate_operation_result_def
        validate_exact_provisioned_entry_def validate_enqueue_def validate_cancel_def
        validate_tool_start_def Let_def is_assistant_message_def demo_entry_assistant
        demo_tool_calls call_at_def tool_call_new_def validate_result_entry_def)
  then obtain v where "validate_records [''a'' \<mapsto> demo_assistant] validation_new demo_log = Inr v"
    by (cases "validate_records [''a'' \<mapsto> demo_assistant] validation_new demo_log") auto
  then show ?thesis
    by (simp add: validate_record_log_def demo_slice_def demo_by_sequence demo_entries_by_id
        validate_deferred_Inr handle_ok_def demo_entry_assistant
        validate_deferred_Inr [where u = "()", THEN iffD2])
qed

text \<open>
  C5. What \<open>validate_record_log\<close> accepts. On a slice whose records have distinct sequence numbers
  (storage assigns each number once) it succeeds exactly when the lane has at most one open
  operation, every deferred assistant entry carries its handle, and every record is permitted by
  the records before it in sequence order: records of a run come after its start and before its
  finish, step attempts are numbered consecutively and agree on their result, a tool call is
  started once and for the call the assistant made, steering stops at an abort, a cancellation
  names a waiting item of the same run, and every committed entry is the one that was intended.
\<close>

theorem validate_record_log_iff:
  assumes "distinct (map r_seq (sl_records sl))"
  shows "validate_record_log sl = Inr () \<longleftrightarrow>
     length (sl_open_operations sl) \<le> 1 \<and> list_all handle_ok (sl_entries sl) \<and>
     (\<forall>i < length (sl_records sl).
        record_ok (entries_by_id (sl_entries sl)) (take i (by_sequence (sl_records sl)))
          (by_sequence (sl_records sl) ! i))"
  using assms by (rule validate_record_log_ok)

theorem validate_record_log_iff_witness:
  "distinct (map r_seq (sl_records demo_slice)) \<and>
   record_ok (entries_by_id [demo_assistant]) (take 4 demo_log) (demo_record ''t1'' 6 demo_tool)"
proof -
  have d: "distinct (map r_seq (sl_records demo_slice))"
    by (simp add: demo_slice_def demo_log_def demo_record_def)
  have "\<forall>i < length demo_log. record_ok (entries_by_id [demo_assistant]) (take i demo_log) (demo_log ! i)"
    using validate_record_log_iff [OF d] demo_validates by (simp add: demo_slice_def demo_by_sequence)
  then have "4 < length demo_log \<longrightarrow>
      record_ok (entries_by_id [demo_assistant]) (take 4 demo_log) (demo_log ! 4)"
    by blast
  with d show ?thesis by (simp add: demo_log_def)
qed

text \<open>
  Recovery does not depend on the order in which storage hands over the records: reordering
  the records of the slice changes neither the verdict of the validation nor the rebuilt state.
\<close>

theorem reduce_order_independent:
  assumes "mset rs = mset (sl_records (in_slice input))"
    and "distinct (map r_seq (sl_records (in_slice input)))"
  shows "reduce_lane_state (input\<lparr>in_slice := (in_slice input)\<lparr>sl_records := rs\<rparr>\<rparr>) =
    reduce_lane_state input"
proof -
  have "by_sequence rs = by_sequence (sl_records (in_slice input))"
    unfolding by_sequence_def
  proof (rule sort_key_inj_key_eq)
    show "inj_on r_seq (set rs)"
      using assms by (metis distinct_map mset_eq_setD)
  qed (use assms in simp_all)
  moreover from this have
    "validate_record_log ((in_slice input)\<lparr>sl_records := rs\<rparr>) = validate_record_log (in_slice input)"
    by (simp add: validate_record_log_def)
  moreover have "derive_effective_configuration (input\<lparr>in_slice := sl\<rparr>) =
      derive_effective_configuration input" for sl
    by (simp add: derive_effective_configuration_def)
  ultimately show ?thesis
    by (cases "validate_record_log (in_slice input)") (simp_all add: reduce_lane_state_def Let_def)
qed

theorem reduce_order_independent_witness:
  "reduce_lane_state (demo_input\<lparr>in_slice := demo_slice\<lparr>sl_records := rev demo_log\<rparr>\<rparr>) =
    reduce_lane_state demo_input \<and> distinct (map r_seq demo_log)"
proof -
  have d: "distinct (map r_seq demo_log)" by (simp add: demo_log_def demo_record_def)
  with reduce_order_independent [of "rev demo_log" demo_input] show ?thesis
    by (simp add: demo_input_def demo_slice_def)
qed

text \<open>
  C6. Recovery neither repeats nor loses queued work, and keeps its order. The lane has an operation
  exactly when storage reports an open one, and it is that one. It is being aborted exactly when an
  abort was recorded for its run. Its steering and follow-up messages are those of its run that wait
  (enqueued, neither committed nor cancelled), in the order in which they were enqueued, unless it is
  being aborted, when both queues are empty; its pending writes are its deferred writes that are not
  committed, in order, and its missing initial messages those of its intent that are not. The messages
  pending for the next run are those that wait for it, in order, less the ones the open run has
  captured as its initial messages.
\<close>

theorem recovery_exact:
  assumes "reduce_lane_state input = Some (Inr res)"
  shows "case ls_operation (rr_lane_state res) of
       None \<Rightarrow>
         sl_open_operations (in_slice input) = [] \<and>
         ls_pending_next_run (rr_lane_state res) = waiting input QNextRun None
     | Some op \<Rightarrow>
         (\<exists>r rs s. sl_open_operations (in_slice input) = r # rs \<and> r_payload r = RPOperationStarted s \<and>
            op_id op = r_id r \<and> op_intent op = os_intent s) \<and>
         (op_aborting op \<longleftrightarrow> list_ex (aborts (op_id op)) (sl_records (in_slice input))) \<and>
         op_pending_steer op = (if op_aborting op then [] else waiting input QSteer (Some (op_id op))) \<and>
         op_pending_follow_up op = (if op_aborting op then [] else waiting input QFollowUp (Some (op_id op))) \<and>
         op_pending_writes op = filter (\<lambda>t. pe_id t \<notin> committed input) (deferred_writes input (op_id op)) \<and>
         op_missing_initial_messages op =
           filter (\<lambda>t. pe_id t \<notin> committed input) (intent_messages (op_intent op)) \<and>
         ls_pending_next_run (rr_lane_state res) =
           filter (\<lambda>t. pe_id t \<notin> pe_id ` set (intent_messages (op_intent op))) (waiting input QNextRun None)"
proof -
  have next_run: "pending_next_run c (pending_queue (all_entries input)
      (by_sequence (sl_records (in_slice input)))) =
      filter (\<lambda>t. pe_id t \<notin> c) (waiting input QNextRun None)" for c
    by (simp add: pending_next_run_def waiting_pending filter_map comp_def conj_commute)
  show ?thesis
  proof (cases "sl_open_operations (in_slice input)")
    case Nil
    with assms show ?thesis by (auto simp: reduce_lane_state_Inr next_run)
  next
    case (Cons r rs)
    with assms obtain s where s: "r_payload r = RPOperationStarted s"
      and op: "ls_operation (rr_lane_state res) = Some (fst (reduce_operation r s
        (by_sequence (sl_records (in_slice input))) (entries_by_sequence (in_own_entries input)) (all_entries input)))"
      and pending: "ls_pending_next_run (rr_lane_state res) = filter (\<lambda>t. pe_id t \<notin> captured_ids (Some r)) (waiting input QNextRun None)"
      by (auto simp: reduce_lane_state_Inr next_run)
    have "captured_ids (Some r) = pe_id ` set (intent_messages (os_intent s))"
      by (simp add: captured_ids_def as_operation_started_def s intent_messages_def split: operation_intent.splits)
    with s op pending Cons reduce_operation_parts [where input = input and r = r and s = s] show ?thesis by simp
  qed
qed

lemma demo_reduces:
  "\<exists>res op. reduce_lane_state demo_input = Some (Inr res) \<and>
     ls_operation (rr_lane_state res) = Some op \<and> op_id op = ''s'' \<and> \<not> op_aborting op"
proof -
  have "\<not> list_ex is_abort (filter (owned_by ''s'') demo_log)"
    by (simp add: demo_log_defs is_abort_def)
  with demo_validates show ?thesis
    by (simp add: reduce_lane_state_Inr demo_input_def demo_slice_def demo_record_def demo_run_def
        reduce_operation_def Let_def demo_by_sequence del: ex_simps)
qed

lemma demo_waiting: "waiting demo_input QSteer (Some ''s'') = [demo_item ''w1'']"
proof -
  have "sort_key r_seq demo_log = demo_log" using demo_by_sequence by (simp add: by_sequence_def)
  then show ?thesis
    by (simp add: waiting_def demo_input_def demo_slice_def)
      (simp add: demo_log_defs demo_assistant_def List.map_filter_simps committed_def cancelled_def)
qed

theorem recovery_exact_witness:
  "\<exists>res op. reduce_lane_state demo_input = Some (Inr res) \<and>
     ls_operation (rr_lane_state res) = Some op \<and> op_pending_steer op = [demo_item ''w1'']"
proof -
  obtain res op where res: "reduce_lane_state demo_input = Some (Inr res)"
    and op: "ls_operation (rr_lane_state res) = Some op" "op_id op = ''s''" "\<not> op_aborting op"
    using demo_reduces by blast
  from recovery_exact [OF res] op have "op_pending_steer op = [demo_item ''w1'']"
    by (simp add: demo_waiting)
  with res op show ?thesis by blast
qed

lemma tool_calls_of_assistant: "tool_calls_of e \<noteq> [] \<Longrightarrow> is_assistant_message e"
  by (auto simp: tool_calls_of_def is_assistant_message_def split: option.splits)

text \<open>The newest own entry with tool calls, and what answers a call of it.\<close>

definition newest_calls :: "entry list \<Rightarrow> entry \<Rightarrow> bool" where
  "newest_calls own e \<longleftrightarrow>
     e \<in> set own \<and> tool_calls_of e \<noteq> [] \<and>
     (\<forall>x\<in>set own. e_seq x > e_seq e \<longrightarrow> tool_calls_of x = [])"

definition answers :: "lane_reduction_input \<Rightarrow> string \<Rightarrow> entry \<Rightarrow> tool_call \<Rightarrow> entry \<Rightarrow> bool" where
  "answers input rid assistant call e \<longleftrightarrow>
     e \<in> set (in_own_entries input) \<and> e_seq e > e_seq assistant \<and>
     (\<exists>m. entry_tool_result e = Some m \<and> tr_tool_call_id m = call_id call) \<and>
     \<not> (\<exists>t. writes_deferred input rid t \<and> pe_id t = e_id e)"

lemma find_newest_calls:
  assumes "sorted (map e_seq own)"
    and "find (\<lambda>e. is_assistant_message e \<and> tool_calls_of e \<noteq> []) (rev own) = Some e"
  shows "newest_calls own e"
proof -
  from assms(2) obtain i where i: "i < length own" "e = rev own ! i" "tool_calls_of e \<noteq> []"
    and later: "\<forall>j<i. \<not> (is_assistant_message (rev own ! j) \<and> tool_calls_of (rev own ! j) \<noteq> [])"
    by (auto simp: find_Some_iff)
  have "tool_calls_of x = []" if x: "x \<in> set own" "e_seq x > e_seq e" for x
  proof -
    from x(1) obtain j where j: "j < length own" "x = rev own ! j" by (metis in_set_conv_nth length_rev set_rev)
    have "j < i"
    proof (rule ccontr)
      assume "\<not> j < i"
      then have "map e_seq own ! (length own - Suc j) \<le> map e_seq own ! (length own - Suc i)"
        using j i assms(1) by (intro sorted_nth_mono) auto
      with i j x(2) show False by (simp add: rev_nth)
    qed
    with later j tool_calls_of_assistant show ?thesis by blast
  qed
  moreover have "e \<in> set own" using i by (metis length_rev nth_mem set_rev)
  ultimately show ?thesis using i by (simp add: newest_calls_def)
qed

lemma batch_call_exists:
  fixes input rid call
  defines "deferred_ids \<equiv> pe_id ` set (deferred_targets
    (filter (owned_by rid) (by_sequence (sl_records (in_slice input)))))"
  shows "tb_result_exists (batch_call starts a (entries_by_sequence (in_own_entries input))
      (all_entries input) deferred_ids i call) \<longleftrightarrow>
    (\<exists>s. starts (int i) = Some s \<and> ts_result_entry_id s \<in> committed input) \<or>
    (\<exists>e. answers input rid a call e)"
proof -
  have "answers input rid a call e \<longleftrightarrow> e \<in> set (in_own_entries input) \<and>
      e_seq e > e_seq a \<and> e_id e \<notin> deferred_ids \<and>
      (case entry_tool_result e of
         Some result \<Rightarrow> tr_tool_call_id result = call_id call | None \<Rightarrow> False)" for e
    by (cases "entry_tool_result e")
      (auto simp: answers_def deferred_ids_def writes_deferred_iff image_iff)
  then have "find (\<lambda>e. e_seq e > e_seq a \<and> e_id e \<notin> deferred_ids \<and>
      (case entry_tool_result e of
         Some result \<Rightarrow> tr_tool_call_id result = call_id call | None \<Rightarrow> False))
      (entries_by_sequence (in_own_entries input)) \<noteq> None \<longleftrightarrow> (\<exists>e. answers input rid a call e)"
    unfolding find_None_iff by (auto simp: entries_by_sequence_def)
  moreover have "Option.bind (starts (int i)) (\<lambda>s. all_entries input (ts_result_entry_id s)) \<noteq> None \<longleftrightarrow>
      (\<exists>s. starts (int i) = Some s \<and> ts_result_entry_id s \<in> committed input)"
    using all_entries_None [of input] by (cases "starts (int i)") auto
  moreover have "(case x of Some y \<Rightarrow> Some y | None \<Rightarrow> z) \<noteq> None \<longleftrightarrow> x \<noteq> None \<or> z \<noteq> None"
    for x z :: "entry option"
    by (cases x) simp_all
  ultimately show ?thesis unfolding batch_call_def Let_def tool_batch_call.select_convs by (simp only:)
qed

lemma as_tool_started_Some: "as_tool_started r = Some t \<longleftrightarrow> r_payload r = RPToolStarted t"
  by (simp add: as_tool_started_def split: record_payload.splits)

definition tool_starts :: "string \<Rightarrow> string \<Rightarrow> lane_record list \<Rightarrow> int \<rightharpoonup> tool_started_record" where
  "tool_starts rid assistant rs = map_of (rev (map (\<lambda>s. (ts_tool_index s, s))
     (filter (\<lambda>s. ts_run_id s = rid \<and> ts_assistant_entry_id s = assistant)
       (List.map_filter as_tool_started rs))))"

text \<open>The newest start recorded for a call.\<close>

definition records_start :: "string \<Rightarrow> string \<Rightarrow> int \<Rightarrow> lane_record \<Rightarrow> bool" where
  "records_start rid assistant i r \<longleftrightarrow>
     (case r_payload r of
        RPToolStarted s \<Rightarrow> ts_run_id s = rid \<and> ts_assistant_entry_id s = assistant \<and> ts_tool_index s = i
      | _ \<Rightarrow> False)"

definition recorded_start :: "lane_reduction_input \<Rightarrow> string \<Rightarrow> string \<Rightarrow> int \<Rightarrow> tool_started_record option" where
  "recorded_start input rid assistant i =
     Option.bind (last_where (records_start rid assistant i) (sort_key r_seq (sl_records (in_slice input))))
       as_tool_started"

lemma tool_starts_last:
  "tool_starts rid assistant rs i = Option.bind (last_where (records_start rid assistant i) rs) as_tool_started"
proof (induction rs rule: rev_induct)
  case Nil
  show ?case by (simp add: tool_starts_def)
next
  case (snoc r rs)
  then show ?case
    by (cases "r_payload r")
      (auto simp: tool_starts_def records_start_def List.map_filter_def as_tool_started_def)
qed

lemma last_where_filter: "(\<And>x. P x \<Longrightarrow> Q x) \<Longrightarrow> last_where P (filter Q xs) = last_where P xs"
  by (induction xs rule: rev_induct) auto

lemma tool_starts_recorded:
  "tool_starts rid assistant (filter (owned_by rid) (by_sequence (sl_records (in_slice input)))) i =
     recorded_start input rid assistant i"
proof -
  have "records_start rid assistant i r \<Longrightarrow> owned_by rid r" for r
    by (cases "r_payload r") (simp_all add: records_start_def owned_by_def record_type_of_def run_id_def)
  then show ?thesis by (simp add: tool_starts_last last_where_filter recorded_start_def by_sequence_def)
qed

lemma derive_tool_batch_Some:
  assumes "derive_tool_batch rid rs own es ids = Some b"
  obtains e where "find (\<lambda>e. is_assistant_message e \<and> tool_calls_of e \<noteq> []) (rev own) = Some e"
    and "tb_assistant_entry_id b = e_id e"
    and "tb_calls b = map (\<lambda>(i, call). batch_call (tool_starts rid (e_id e) rs) e own es ids i call)
      (enumerate 0 (tool_calls_of e))"
    and "tb_unresolved b = list_ex (\<lambda>c. \<not> tb_result_exists c) (tb_calls b)"
    and "tb_truncated b \<longleftrightarrow> (\<exists>a. entry_assistant e = Some a \<and> am_stop_reason a = SRLength)"
  using assms unfolding derive_tool_batch_def tool_starts_def
  by (auto simp: Let_def split: option.splits)

lemma derive_tool_batch_None:
  "derive_tool_batch rid rs own es ids = None \<longleftrightarrow> (\<forall>e\<in>set own. tool_calls_of e = [])"
proof -
  have "find (\<lambda>e. is_assistant_message e \<and> tool_calls_of e \<noteq> []) (rev own) = None \<longleftrightarrow>
      (\<forall>e\<in>set own. tool_calls_of e = [])"
    using tool_calls_of_assistant by (auto simp: find_None_iff)
  then show ?thesis unfolding derive_tool_batch_def by (auto simp: Let_def split: option.splits)
qed

lemma map_enumerate:
  "map (\<lambda>p. f (fst p)) (enumerate 0 xs) = map f [0..<length xs]"
  "map (\<lambda>p. snd p) (enumerate 0 xs) = xs"
  by (simp_all add: enumerate_eq_zip flip: map_map [unfolded comp_def])

lemma batch_call_exact:
  fixes input op e
  defines "own \<equiv> entries_by_sequence (in_own_entries input)"
    and "rec \<equiv> filter (owned_by (op_id op)) (by_sequence (sl_records (in_slice input)))"
  assumes c: "c = batch_call (tool_starts (op_id op) (e_id e) rec) e own (all_entries input)
      (pe_id ` set (deferred_targets rec)) i call"
  shows "(tb_result_exists c \<longleftrightarrow>
      (\<exists>s. tb_started c = Some s \<and> ts_result_entry_id s \<in> committed input) \<or>
      (\<exists>x. answers input (op_id op) e (tb_tool_call c) x)) \<and>
    tb_started c = recorded_start input (op_id op) (e_id e) (tb_tool_index c)"
proof -
  let ?starts = "tool_starts (op_id op) (e_id e) rec"
  have "tb_started c = ?starts (int i)" "tb_tool_call c = call" "tb_tool_index c = int i"
    by (simp_all add: c batch_call_def Let_def)
  moreover have "tb_result_exists c \<longleftrightarrow>
      (\<exists>s. ?starts (int i) = Some s \<and> ts_result_entry_id s \<in> committed input) \<or>
      (\<exists>x. answers input (op_id op) e call x)"
    unfolding c own_def rec_def by (rule batch_call_exists)
  moreover have "?starts (int i) = recorded_start input (op_id op) (e_id e) (int i)"
    unfolding rec_def by (rule tool_starts_recorded)
  ultimately show ?thesis by auto
qed

text \<open>
  C31. The rebuilt tool batch is the one the run stopped in. There is one exactly when some own entry
  has tool calls; it belongs to the newest such entry and lists every call of it, in order and under
  its own index. The start it gives for a call is the newest one the log holds for this run, this
  assistant entry and this index, and none exactly when the log holds none; a call counts as answered
  exactly when its started result is committed or a later tool result for it exists that is not a
  deferred write; the batch is unresolved exactly when some call has no answer, and truncated
  exactly when its entry was cut off by the length limit.
\<close>

theorem tool_batch_exact:
  assumes "reduce_lane_state input = Some (Inr res)"
    and "ls_operation (rr_lane_state res) = Some op"
  shows "(op_tool_batch op = None \<longleftrightarrow> (\<forall>e\<in>set (in_own_entries input). tool_calls_of e = [])) \<and>
    (\<forall>b. op_tool_batch op = Some b \<longrightarrow>
      (\<exists>e. newest_calls (in_own_entries input) e \<and> tb_assistant_entry_id b = e_id e \<and>
        map tb_tool_call (tb_calls b) = tool_calls_of e \<and>
        map tb_tool_index (tb_calls b) = map int [0..<length (tool_calls_of e)] \<and>
        (tb_unresolved b \<longleftrightarrow> (\<exists>c\<in>set (tb_calls b). \<not> tb_result_exists c)) \<and>
        (tb_truncated b \<longleftrightarrow> (\<exists>a. entry_assistant e = Some a \<and> am_stop_reason a = SRLength)) \<and>
        (\<forall>c\<in>set (tb_calls b).
           (tb_result_exists c \<longleftrightarrow>
              (\<exists>s. tb_started c = Some s \<and> ts_result_entry_id s \<in> committed input) \<or>
              (\<exists>x. answers input (op_id op) e (tb_tool_call c) x)) \<and>
           tb_started c = recorded_start input (op_id op) (e_id e) (tb_tool_index c))))"
proof -
  from assms(1,2) obtain r s rs where ops: "sl_open_operations (in_slice input) = r # rs"
    and op: "op = fst (reduce_operation r s (by_sequence (sl_records (in_slice input)))
      (entries_by_sequence (in_own_entries input)) (all_entries input))"
    by (auto simp: reduce_lane_state_Inr split: list.splits)
  define own where "own = entries_by_sequence (in_own_entries input)"
  define rec where "rec = filter (owned_by (op_id op)) (by_sequence (sl_records (in_slice input)))"
  define ids where "ids = pe_id ` set (deferred_targets rec)"
  have batch: "op_tool_batch op = derive_tool_batch (op_id op) rec own (all_entries input) ids"
    by (simp add: op reduce_operation_def Let_def own_def rec_def ids_def)
  have own: "set own = set (in_own_entries input)" by (simp add: own_def entries_by_sequence_def)
  have none: "op_tool_batch op = None \<longleftrightarrow> (\<forall>e\<in>set (in_own_entries input). tool_calls_of e = [])"
    by (simp add: batch derive_tool_batch_None own)
  have "\<exists>e. newest_calls (in_own_entries input) e \<and> tb_assistant_entry_id b = e_id e \<and>
        map tb_tool_call (tb_calls b) = tool_calls_of e \<and>
        map tb_tool_index (tb_calls b) = map int [0..<length (tool_calls_of e)] \<and>
        (tb_unresolved b \<longleftrightarrow> (\<exists>c\<in>set (tb_calls b). \<not> tb_result_exists c)) \<and>
        (tb_truncated b \<longleftrightarrow> (\<exists>a. entry_assistant e = Some a \<and> am_stop_reason a = SRLength)) \<and>
        (\<forall>c\<in>set (tb_calls b).
           (tb_result_exists c \<longleftrightarrow>
              (\<exists>s. tb_started c = Some s \<and> ts_result_entry_id s \<in> committed input) \<or>
              (\<exists>x. answers input (op_id op) e (tb_tool_call c) x)) \<and>
           tb_started c = recorded_start input (op_id op) (e_id e) (tb_tool_index c))"
    if "op_tool_batch op = Some b" for b
  proof -
    from that [unfolded batch] obtain e
      where e: "find (\<lambda>e. is_assistant_message e \<and> tool_calls_of e \<noteq> []) (rev own) = Some e"
        and rest: "tb_assistant_entry_id b = e_id e"
          "tb_unresolved b = list_ex (\<lambda>c. \<not> tb_result_exists c) (tb_calls b)"
        and calls: "tb_calls b =
          map (\<lambda>(i, call). batch_call (tool_starts (op_id op) (e_id e) rec) e own (all_entries input) ids i call)
            (enumerate 0 (tool_calls_of e))"
        and trunc: "tb_truncated b \<longleftrightarrow> (\<exists>a. entry_assistant e = Some a \<and> am_stop_reason a = SRLength)"
      by (rule derive_tool_batch_Some)
    have newest: "newest_calls (in_own_entries input) e"
      using find_newest_calls [of own e] e
      by (simp add: own_def entries_by_sequence_def newest_calls_def)
    have shape: "map tb_tool_call (tb_calls b) = tool_calls_of e"
        "map tb_tool_index (tb_calls b) = map int [0..<length (tool_calls_of e)]"
      by (simp_all add: calls comp_def case_prod_beta batch_call_def Let_def map_enumerate)
    have made: "\<exists>i call. c = batch_call (tool_starts (op_id op) (e_id e) rec) e own (all_entries input) ids i call"
      if "c \<in> set (tb_calls b)" for c
      using that by (auto simp: calls)
    note made = made [unfolded own_def ids_def rec_def]
    show ?thesis
      by (rule exI [of _ e], intro conjI newest rest(1) shape trunc)
        (simp add: rest(2) list_ex_iff, rule ballI, drule made, elim exE, erule batch_call_exact)
  qed
  with none show ?thesis by blast
qed

lemma demo_log_sorted: "sort_key r_seq demo_log = demo_log"
  using demo_by_sequence by (simp add: by_sequence_def)

lemma demo_started:
  "recorded_start demo_input ''s'' ''a'' 0 \<noteq> None" "recorded_start demo_input ''s'' ''a'' 1 = None"
  by (simp_all add: recorded_start_def demo_input_def demo_slice_def demo_log_sorted last_where_def)
    (simp_all add: demo_log_defs records_start_def as_tool_started_def)

theorem tool_batch_exact_witness:
  "\<exists>res op b c1 c2. reduce_lane_state demo_input = Some (Inr res) \<and>
     ls_operation (rr_lane_state res) = Some op \<and> op_tool_batch op = Some b \<and> tb_calls b = [c1, c2] \<and>
     tb_tool_call c1 = tool_call_new ''c1'' ''t'' \<and> tb_started c1 \<noteq> None \<and> tb_started c2 = None"
proof -
  obtain res op where r: "reduce_lane_state demo_input = Some (Inr res)"
    "ls_operation (rr_lane_state res) = Some op" "op_id op = ''s''"
    using demo_reduces by blast
  note exact = tool_batch_exact [OF r(1,2)]
  have "in_own_entries demo_input = [demo_assistant]" by (simp add: demo_input_def)
  with exact demo_tool_calls obtain b where b: "op_tool_batch op = Some b" by fastforce
  with exact obtain e where e: "newest_calls [demo_assistant] e"
    and calls: "map tb_tool_call (tb_calls b) = tool_calls_of e"
    and index: "map tb_tool_index (tb_calls b) = map int [0..<length (tool_calls_of e)]"
    and started: "\<forall>c\<in>set (tb_calls b). tb_started c = recorded_start demo_input ''s'' (e_id e) (tb_tool_index c)"
    by (auto simp: r(3) demo_input_def)
  from e have ea: "e = demo_assistant" "e_id e = ''a''" by (simp_all add: newest_calls_def demo_assistant_def)
  from calls index obtain c1 c2 where "tb_calls b = [c1, c2]" "tb_tool_call c1 = tool_call_new ''c1'' ''t''"
    "tb_tool_index c1 = 0" "tb_tool_index c2 = 1"
    by (auto simp: ea demo_tool_calls map_eq_Cons_conv)
  moreover from this started have "tb_started c1 \<noteq> None" "tb_started c2 = None"
    using demo_started by (simp_all add: ea(2))
  ultimately show ?thesis using r(1,2) b by blast
qed

end
