(* ===== verification/Session_Queries.thy ===== *)
theory Session_Queries
  imports Session_Invariant
begin

text \<open>
  What the queries of \<^verbatim>\<open>state.rs\<close> return on a well-formed state. The loops of the tree and branch
  queries are shown equal to filtering and truncating a list; the walk along the parent pointers
  is shown equal to \<open>lineage\<close>, one pass over the entries from the newest to the oldest, which never
  meets a cycle or a missing parent.
\<close>

section \<open>The result loops\<close>

definition limit_take :: "int option \<Rightarrow> 'a list \<Rightarrow> 'a list" where
  "limit_take limit xs = (case limit of None \<Rightarrow> xs | Some l \<Rightarrow> take (nat l) xs)"

fun take_until :: "('a \<Rightarrow> bool) \<Rightarrow> 'a list \<Rightarrow> 'a list" where
  "take_until stop [] = []"
| "take_until stop (x # xs) = x # (if stop x then [] else take_until stop xs)"

lemma take_until_never [simp]: "take_until (\<lambda>_. False) xs = xs"
  by (induction xs) auto

lemma take_until_end:
  "xs \<noteq> [] \<Longrightarrow> take_until stop xs \<noteq> [] \<and> hd (take_until stop xs) = hd xs \<and>
     (\<forall>x\<in>set (butlast (take_until stop xs)). \<not> stop x) \<and>
     (stop (last (take_until stop xs)) \<or> take_until stop xs = xs)"
proof (induction xs)
  case (Cons x xs)
  then show ?case by (cases "xs = []") auto
qed simp

lemma take_until_prefix: "\<exists>ys. xs = take_until stop xs @ ys"
  by (induction xs) auto

lemma collect_loop_acc:
  "(\<forall>l. limit = Some l \<longrightarrow> int (length acc) < l) \<Longrightarrow>
     collect_loop p limit xs acc =
       acc @ (case limit of
                None \<Rightarrow> filter p xs | Some l \<Rightarrow> take (nat l - length acc) (filter p xs))"
proof (induction xs arbitrary: acc)
  case Nil
  then show ?case by (simp split: option.splits)
next
  case (Cons x xs)
  show ?case
  proof (cases "p x")
    case False
    with Cons show ?thesis by (simp split: option.splits)
  next
    case True
    consider (none) "limit = None" | (stop) "limit = Some (int (Suc (length acc)))"
      | (more) l where "limit = Some l" "l \<noteq> int (Suc (length acc))"
      by (cases limit) auto
    then show ?thesis
    proof cases
      case none
      with Cons.IH [of "acc @ [x]"] True show ?thesis by simp
    next
      case stop
      with True show ?thesis by (simp add: nat_add_distrib)
    next
      case more
      with Cons.prems have lt: "int (length acc) + 1 < l" by simp
      then have "nat l - length acc = Suc (nat l - Suc (length acc))" by simp
      with Cons.IH [of "acc @ [x]"] True more lt show ?thesis by simp
    qed
  qed
qed

lemma branch_loop_acc:
  "(\<forall>l. limit = Some l \<longrightarrow> int (length acc) < l) \<Longrightarrow>
     branch_loop p stop limit xs acc =
       acc @ (case limit of
                None \<Rightarrow> filter p (take_until stop xs)
              | Some l \<Rightarrow> take (nat l - length acc) (filter p (take_until stop xs)))"
proof (induction xs arbitrary: acc)
  case Nil
  then show ?case by (simp split: option.splits)
next
  case (Cons x xs)
  show ?case
  proof (cases "p x")
    case False
    with Cons show ?thesis by (cases "stop x") (auto split: option.splits)
  next
    case True
    consider (none) "limit = None" | (stop) "limit = Some (int (Suc (length acc)))"
      | (more) l where "limit = Some l" "l \<noteq> int (Suc (length acc))"
      by (cases limit) auto
    then show ?thesis
    proof cases
      case none
      with Cons.IH [of "acc @ [x]"] True show ?thesis by (cases "stop x") auto
    next
      case stop
      with True show ?thesis by (simp add: nat_add_distrib)
    next
      case more
      with Cons.prems have lt: "int (length acc) + 1 < l" by simp
      then have "nat l - length acc = Suc (nat l - Suc (length acc))" by simp
      with Cons.IH [of "acc @ [x]"] True more lt show ?thesis by (cases "stop x") auto
    qed
  qed
qed

lemma validate_limit_Inr [result_simps]:
  "validate_limit limit = Inr u \<longleftrightarrow> (\<forall>l. limit = Some l \<longrightarrow> 0 < l)"
  by (auto simp: validate_limit_def split: option.splits)

lemma validate_cursor_Inr [result_simps]:
  "validate_cursor c = Inr u \<longleftrightarrow> (\<forall>a. c = Some a \<longrightarrow> 0 \<le> a)"
  by (auto simp: validate_cursor_def split: option.splits)

lemma collect_loop_spec:
  "validate_limit limit = Inr () \<Longrightarrow> collect_loop p limit xs [] = limit_take limit (filter p xs)"
  using collect_loop_acc [of limit "[]" p xs]
  by (auto simp: limit_take_def result_simps split: option.splits)

lemma branch_loop_spec:
  "validate_limit limit = Inr () \<Longrightarrow>
     branch_loop p stop limit xs [] = limit_take limit (filter p (take_until stop xs))"
  using branch_loop_acc [of limit "[]" p stop xs]
  by (auto simp: limit_take_def result_simps split: option.splits)

definition in_order :: "entry_order option \<Rightarrow> 'a list \<Rightarrow> 'a list" where
  "in_order ord xs = (case ord of Some OldestFirst \<Rightarrow> xs | _ \<Rightarrow> rev xs)"

lemma in_order_code:
  "(if is_oldest_first (order_or_default ord) then xs else rev xs) = in_order ord xs"
  by (auto simp: in_order_def is_oldest_first_def order_or_default_def
      split: option.splits entry_order.splits)

lemma find_entries_spec:
  "find_entries s q =
     res_bind (entry_query_validate q) (\<lambda>_.
       Inr (limit_take (q_limit q)
         (filter (\<lambda>e. matches_entry_query e q (order_or_default (q_order q)))
           (in_order (q_order q) (ss_entries s)))))"
  unfolding find_entries_def entry_query_validate_def
  by (auto simp: in_order_code collect_loop_spec res_bind_assoc Let_def res_bind_def
      split: sum.splits)

lemma find_records_spec:
  "find_records s q =
     res_bind (record_query_validate q) (\<lambda>_.
       Inr (limit_take (rq_limit q)
         (filter (\<lambda>r. matches_record_query r q) (in_order (rq_order q) (ss_records s)))))"
  unfolding find_records_def record_query_validate_def
  by (auto simp: in_order_code collect_loop_spec res_bind_assoc Let_def res_bind_def
      split: sum.splits)

lemma get_log_spec:
  "get_log s opts =
     res_bind (log_options_validate opts) (\<lambda>_.
       Inr (limit_take (lo_limit opts)
         (filter (\<lambda>item. case lo_after_seq opts of None \<Rightarrow> True | Some a \<Rightarrow> log_item_seq item > a)
           (ss_log s))))"
  unfolding get_log_def log_options_validate_def
  by (auto simp: collect_loop_spec res_bind_def not_le split: sum.splits option.splits)

lemma find_open_operations_spec:
  "find_open_operations s lane limit =
     res_bind (validate_limit limit) (\<lambda>_. Inr (limit_take limit (rev (lane_open s lane))))"
  by (auto simp: find_open_operations_def limit_take_def lane_open_def res_bind_def
      split: sum.splits option.splits)

section \<open>Sequence numbers\<close>

lemma sorted_wrt_map_filter:
  assumes "sorted_wrt (\<lambda>a b. f a < f b) xs"
    and "\<And>x y. \<lbrakk>x \<in> set xs; h x = Some y\<rbrakk> \<Longrightarrow> g y = f x"
  shows "sorted_wrt (\<lambda>a b. (g a :: int) < g b) (List.map_filter h xs)"
  using assms
proof (induction xs)
  case (Cons x xs)
  have "\<And>y. y \<in> set (List.map_filter h xs) \<Longrightarrow> \<exists>z\<in>set xs. h z = Some y"
    by (auto simp: List.map_filter_def)
  with Cons show ?case by (fastforce simp: List.map_filter_simps split: option.splits)
qed (simp add: List.map_filter_simps)

lemma log_sorted: "log_wf s \<Longrightarrow> sorted_wrt (\<lambda>a b. log_item_seq a < log_item_seq b) (ss_log s)"
proof -
  assume "log_wf s"
  then have "map log_item_seq (ss_log s) = map int [1..<Suc (length (ss_log s))]"
    by (simp add: log_wf_def)
  moreover have "sorted_wrt (<) (map int [1..<Suc n])" for n
    by (simp add: sorted_wrt_map strict_sorted_iff [symmetric] del: upt_Suc)
  ultimately have "sorted_wrt (<) (map log_item_seq (ss_log s))" by (simp del: upt_Suc)
  then show ?thesis by (simp add: sorted_wrt_map)
qed

lemma entries_sorted: "state_wf s \<Longrightarrow> sorted_wrt (\<lambda>a b. e_seq a < e_seq b) (ss_entries s)"
  using sorted_wrt_map_filter [OF log_sorted, of s log_entry e_seq]
  by (auto simp: state_wf_def log_wf_def)

lemma records_sorted: "state_wf s \<Longrightarrow> sorted_wrt (\<lambda>a b. r_seq a < r_seq b) (ss_records s)"
  using sorted_wrt_map_filter [OF log_sorted, of s log_record r_seq]
  by (auto simp: state_wf_def log_wf_def)

section \<open>Branches\<close>

text \<open>
  The branch that ends in the entry with a given id: one pass over the entries, newest first,
  following the parent pointers.
\<close>

fun lineage :: "entry list \<Rightarrow> string option \<Rightarrow> entry list" where
  "lineage [] i = []"
| "lineage (e # es) i =
     (if Some (e_id e) = i then e # lineage es (e_parent_id e) else lineage es i)"

definition branch_ref :: "session_state \<Rightarrow> string \<Rightarrow> entry list" where
  "branch_ref s i = lineage (rev (ss_entries s)) (Some i)"

lemma lineage_None [simp]: "lineage es None = []"
  by (induction es) auto

lemma lineage_skip: "i \<notin> e_id ` set xs \<Longrightarrow> lineage (xs @ ys) (Some i) = lineage ys (Some i)"
  by (induction xs) auto

lemma lineage_take:
  assumes "distinct (map e_id es)" and "j < k" "k \<le> length es"
  shows "lineage (rev (take k es)) (Some (e_id (es ! j))) =
    es ! j # lineage (rev (take j es)) (e_parent_id (es ! j))"
proof -
  have es: "take k es = take j es @ es ! j # drop (Suc j) (take k es)"
    using assms(2,3) id_take_nth_drop [of j "take k es"] by (simp add: min_def)
  have "distinct (map e_id (take k es))"
    using assms(1) by (metis distinct_take take_map)
  then have "e_id (es ! j) \<notin> e_id ` set (rev (drop (Suc j) (take k es)))"
    by (subst (asm) es) auto
  moreover have "rev (take k es) = rev (drop (Suc j) (take k es)) @ es ! j # rev (take j es)"
    by (subst es) simp
  ultimately show ?thesis using lineage_skip [of "e_id (es ! j)"] by simp
qed

lemma set_lineage: "set (lineage es i) \<subseteq> set es"
  by (induction es arbitrary: i) auto

lemma sorted_lineage: "sorted_wrt R es \<Longrightarrow> sorted_wrt R (lineage es i)"
  using set_lineage by (induction es arbitrary: i) fastforce+

lemma lineage_chain:
  "Suc k < length (lineage es i) \<Longrightarrow>
     e_parent_id (lineage es i ! k) = Some (e_id (lineage es i ! Suc k))"
proof (induction es arbitrary: i k)
  case (Cons e es)
  have hd: "lineage es j \<noteq> [] \<Longrightarrow> j = Some (e_id (lineage es j ! 0))" for j
    by (induction es arbitrary: j) auto
  show ?case
  proof (cases "Some (e_id e) = i")
    case True
    with Cons.IH [of "k - 1" "e_parent_id e"] Cons.prems hd [of "e_parent_id e"] show ?thesis
      by (cases k) auto
  next
    case False
    with Cons show ?thesis by auto
  qed
qed simp

lemma get_entry_Some_iff:
  assumes "state_wf s"
  shows "get_entry s i = Some e \<longleftrightarrow> e \<in> set (ss_entries s) \<and> e_id e = i"
proof -
  have idx: "ss_entries_by_id s i = Some k \<longleftrightarrow>
      k < length (ss_entries s) \<and> e_id (ss_entries s ! k) = i" for k
    using assms by (simp add: state_wf_def index_wf_def)
  show ?thesis
  proof (cases "ss_entries_by_id s i")
    case None
    then have "\<not> (k < length (ss_entries s) \<and> e_id (ss_entries s ! k) = i)" for k
      using idx [of k] by simp
    then have "i \<notin> entry_ids s" by (metis (no_types, lifting) image_iff in_set_conv_nth)
    with None show ?thesis by (auto simp: get_entry_def)
  next
    case (Some k)
    with idx have k: "k < length (ss_entries s)" "e_id (ss_entries s ! k) = i" by auto
    have "distinct (map e_id (ss_entries s))" using assms by (simp add: state_wf_def ids_wf_def)
    then have "e = ss_entries s ! k" if "e \<in> set (ss_entries s)" "e_id e = i"
      using that k by (metis distinct_map inj_onD nth_mem)
    with Some k show ?thesis by (auto simp: get_entry_def)
  qed
qed

lemma get_entry_None_iff: "state_wf s \<Longrightarrow> get_entry s i = None \<longleftrightarrow> i \<notin> entry_ids s"
proof (cases "get_entry s i")
  case (Some e)
  moreover assume "state_wf s"
  ultimately have "e \<in> set (ss_entries s)" "e_id e = i" by (simp_all add: get_entry_Some_iff)
  with Some show ?thesis by auto
next
  case None
  moreover assume "state_wf s"
  ultimately show ?thesis using get_entry_Some_iff [of s i] by auto
qed

abbreviation stops_at :: "string option \<Rightarrow> entry_type option \<Rightarrow> entry \<Rightarrow> bool" where
  "stops_at stop_at_id stop_at_type e \<equiv>
     stop_at_id = Some (e_id e) \<or> stop_at_type = Some (entry_type_of e)"

text \<open>The walk from position \<open>k\<close>, as long as no entry at or before \<open>k\<close> has been visited.\<close>

lemma walk_loop_ref:
  assumes "state_wf s"
  shows "\<lbrakk>k < length (ss_entries s); visited \<inter> e_id ` set (take (Suc k) (ss_entries s)) = {}\<rbrakk> \<Longrightarrow>
    walk_loop s sid sty visited path (ss_entries s ! k) =
      Inr (path @ take_until (stops_at sid sty)
        (lineage (rev (take (Suc k) (ss_entries s))) (Some (e_id (ss_entries s ! k)))))"
proof (induction k arbitrary: visited path rule: less_induct)
  case (less k)
  let ?es = "ss_entries s" and ?e = "ss_entries s ! k"
  have dist: "distinct (map e_id ?es)" and tree: "tree_ok ?es"
    using assms by (simp_all add: state_wf_def ids_wf_def)
  have fresh: "e_id ?e \<notin> visited"
    using less.prems by (auto simp: take_Suc_conv_app_nth)
  have lin: "lineage (rev (take (Suc k) ?es)) (Some (e_id ?e)) =
      ?e # lineage (rev (take k ?es)) (e_parent_id ?e)"
    using lineage_take [OF dist, of k "Suc k"] less.prems(1) by simp
  show ?case
  proof (cases "e_parent_id ?e")
    case None
    with fresh show ?thesis by (subst walk_loop.simps) (auto simp: lin)
  next
    case (Some p)
    with tree less.prems(1) have "p \<in> e_id ` set (take k ?es)" by (auto simp: tree_ok_def)
    then obtain j where j: "j < k" "e_id (?es ! j) = p"
      using less.prems(1) by (auto simp: in_set_conv_nth image_iff)
    have jl: "j < length ?es" using j less.prems(1) by simp
    have get: "get_entry s p = Some (?es ! j)"
      using get_entry_Some_iff [OF assms] j jl by auto
    have sub: "set (take (Suc j) ?es) \<subseteq> set (take k ?es)"
      using j(1) by (intro set_take_subset_set_take) simp
    have disj: "insert (e_id ?e) visited \<inter> e_id ` set (take (Suc j) ?es) = {}"
    proof -
      have "distinct (map e_id (take k ?es @ [?e]))"
        using dist less.prems(1) by (metis distinct_take take_Suc_conv_app_nth take_map)
      with sub less.prems show ?thesis by (auto simp: take_Suc_conv_app_nth)
    qed
    have "lineage (rev (take k ?es)) (Some p) =
        lineage (rev (take (Suc j) ?es)) (Some (e_id (?es ! j)))"
      using lineage_take [OF dist, of j k] lineage_take [OF dist, of j "Suc j"] j less.prems(1)
      by simp
    with less.IH [OF j(1) jl disj, of "path @ [?e]"] fresh Some get j(2) show ?thesis
      by (subst walk_loop.simps) (auto simp: lin)
  qed
qed

lemma walk_to_root_ref:
  assumes "state_wf s"
  shows "walk_to_root s start sid sty =
    (if start \<in> entry_ids s then Inr (take_until (stops_at sid sty) (branch_ref s start))
     else Inl (NotFound (''Entry not found: '' @ start)))"
proof (cases "start \<in> entry_ids s")
  case False
  then have "get_entry s start = None" by (simp add: get_entry_None_iff [OF assms])
  with False show ?thesis by (simp add: walk_to_root_def)
next
  case True
  let ?es = "ss_entries s"
  from True obtain k where k: "k < length ?es" "e_id (?es ! k) = start"
    by (auto simp: in_set_conv_nth)
  then have get: "get_entry s start = Some (?es ! k)"
    using get_entry_Some_iff [OF assms] by auto
  have dist: "distinct (map e_id ?es)" using assms by (simp add: state_wf_def ids_wf_def)
  have "branch_ref s start = lineage (rev (take (Suc k) ?es)) (Some (e_id (?es ! k)))"
    using lineage_take [OF dist, of k "length ?es"] lineage_take [OF dist, of k "Suc k"] k
    by (simp add: branch_ref_def)
  with walk_loop_ref [OF assms k(1), of "{}" sid sty "[]"] get True show ?thesis
    by (simp add: walk_to_root_def)
qed

lemma find_entries_on_branch_spec:
  assumes "state_wf s"
  shows "find_entries_on_branch s q =
    res_bind (entry_query_validate (bb_query q)) (\<lambda>_.
      if bb_start q \<in> entry_ids s
      then Inr (limit_take (q_limit (bb_query q))
        (filter (\<lambda>e. matches_entry_query e (bb_query q) (order_or_default (q_order (bb_query q))))
          (take_until (stops_at (b_stop_at_id (bb_bounds q)) (b_stop_at_type (bb_bounds q)))
            (if is_oldest_first (order_or_default (q_order (bb_query q)))
             then rev (branch_ref s (bb_start q)) else branch_ref s (bb_start q)))))
      else Inl (NotFound (''Entry not found: '' @ bb_start q)))"
proof (cases "entry_query_validate (bb_query q)")
  case (Inl e)
  then show ?thesis by (simp add: find_entries_on_branch_def bound_branch_query_validate_def)
next
  case (Inr u)
  then have "validate_limit (q_limit (bb_query q)) = Inr ()"
    by (auto simp: entry_query_validate_def result_simps)
  with Inr show ?thesis
    by (simp add: find_entries_on_branch_def bound_branch_query_validate_def branch_loop_spec
        walk_to_root_ref [OF assms] Let_def)
qed

text \<open>What \<open>branch_ref\<close> is: the chain of parents from the entry to a root, by falling sequence.\<close>

lemma branch_ref_ne: "state_wf s \<Longrightarrow> i \<in> entry_ids s \<Longrightarrow> branch_ref s i \<noteq> [] \<and> e_id (hd (branch_ref s i)) = i"
proof -
  have "i \<in> e_id ` set es \<Longrightarrow> lineage es (Some i) \<noteq> [] \<and> e_id (hd (lineage es (Some i))) = i" for es
    by (induction es) auto
  then show "i \<in> entry_ids s \<Longrightarrow> ?thesis" by (simp add: branch_ref_def)
qed

lemma branch_ref_sorted: "state_wf s \<Longrightarrow> sorted_wrt (\<lambda>a b. e_seq b < e_seq a) (branch_ref s i)"
  unfolding branch_ref_def
  by (rule sorted_lineage) (use entries_sorted [of s] in \<open>simp add: sorted_wrt_rev\<close>)

lemma lineage_root:
  assumes "tree_ok es" and "lineage (rev es) i \<noteq> []"
  shows "e_parent_id (last (lineage (rev es) i)) = None"
  using assms
proof (induction es arbitrary: i rule: rev_induct)
  case (snoc e es)
  show ?case
  proof (cases "Some (e_id e) = i \<and> lineage (rev es) (e_parent_id e) = []")
    case True
    have "e_parent_id e = None"
    proof (rule ccontr)
      assume "e_parent_id e \<noteq> None"
      then obtain p where p: "e_parent_id e = Some p" by blast
      with snoc.prems have "p \<in> e_id ` set (rev es)" by (simp add: tree_ok_snoc)
      moreover have "p \<in> e_id ` set xs \<Longrightarrow> lineage xs (Some p) \<noteq> []" for xs
        by (induction xs) auto
      ultimately show False using True p by auto
    qed
    with True show ?thesis by simp
  next
    case False
    with snoc show ?thesis by (auto simp: tree_ok_snoc)
  qed
qed simp

lemma matches_no_limit [simp]:
  "matches_entry_query e (q\<lparr>q_limit := l\<rparr>) ord = matches_entry_query e q ord"
  by (simp add: matches_entry_query_def)

lemma matches_cursor:
  assumes "\<And>a. q_cursor q = Some a \<Longrightarrow> a \<le> c"
  shows "matches_entry_query e (q\<lparr>q_limit := l, q_cursor := Some c\<rparr>) OldestFirst \<longleftrightarrow>
    matches_entry_query e q OldestFirst \<and> c < e_seq e"
  using assms
  by (cases "q_cursor q") (force simp: matches_entry_query_def is_oldest_first_def)+

section \<open>Properties\<close>

text \<open>
  C27. Walking a branch is safe and stops where it is told to: in a well-formed state the walk from any
  existing entry succeeds, so neither the cycle error nor the missing-parent error can occur; the
  path starts at that entry, follows the parent pointers, ends at the first entry that is the stop
  entry or has the stop type, and in a root if there is none on the way; and its sequence numbers
  strictly fall. An unknown start is reported as \<open>NotFound\<close>.
\<close>

theorem walk_to_root_correct:
  assumes "state_wf s"
  shows "if start \<in> entry_ids s
    then \<exists>path. walk_to_root s start stop_at_id stop_at_type = Inr path \<and> path \<noteq> [] \<and> e_id (hd path) = start \<and>
      (\<forall>k. Suc k < length path \<longrightarrow> e_parent_id (path ! k) = Some (e_id (path ! Suc k))) \<and>
      (\<forall>e\<in>set (butlast path). stop_at_id \<noteq> Some (e_id e) \<and> stop_at_type \<noteq> Some (entry_type_of e)) \<and>
      (stop_at_id = Some (e_id (last path)) \<or> stop_at_type = Some (entry_type_of (last path)) \<or>
       e_parent_id (last path) = None) \<and>
      set path \<subseteq> set (ss_entries s) \<and> sorted_wrt (\<lambda>a b. e_seq b < e_seq a) path
    else walk_to_root s start stop_at_id stop_at_type = Inl (NotFound (''Entry not found: '' @ start))"
proof (cases "start \<in> entry_ids s")
  case False
  then show ?thesis by (simp add: walk_to_root_ref [OF assms])
next
  case True
  let ?whole = "branch_ref s start"
  define path where "path = take_until (stops_at stop_at_id stop_at_type) ?whole"
  have walk: "walk_to_root s start stop_at_id stop_at_type = Inr path"
    using True by (simp add: walk_to_root_ref [OF assms] path_def)
  have tree: "tree_ok (ss_entries s)" using assms by (simp add: state_wf_def)
  note ne = branch_ref_ne [OF assms True]
  have chain: "Suc k < length ?whole \<Longrightarrow> e_parent_id (?whole ! k) = Some (e_id (?whole ! Suc k))" for k
    using lineage_chain [of k "rev (ss_entries s)" "Some start"] by (simp add: branch_ref_def)
  have root: "e_parent_id (last ?whole) = None" and sub: "set ?whole \<subseteq> set (ss_entries s)"
    using lineage_root [OF tree, of "Some start"] set_lineage [of "rev (ss_entries s)" "Some start"] ne
    by (auto simp: branch_ref_def)
  obtain rest where rest: "?whole = path @ rest" unfolding path_def using take_until_prefix by blast
  have "Suc k < length path \<longrightarrow> e_parent_id (path ! k) = Some (e_id (path ! Suc k))" for k
    using chain [of k] unfolding rest by (auto simp: nth_append)
  moreover have "set path \<subseteq> set (ss_entries s)" using sub unfolding rest by simp
  moreover have "sorted_wrt (\<lambda>a b. e_seq b < e_seq a) path"
    using branch_ref_sorted [OF assms, of start] unfolding rest by (simp add: sorted_wrt_append)
  moreover have "path \<noteq> []" "e_id (hd path) = start"
    "\<forall>e\<in>set (butlast path). stop_at_id \<noteq> Some (e_id e) \<and> stop_at_type \<noteq> Some (entry_type_of e)"
    "stop_at_id = Some (e_id (last path)) \<or> stop_at_type = Some (entry_type_of (last path)) \<or>
       e_parent_id (last path) = None"
    using take_until_end [of ?whole "stops_at stop_at_id stop_at_type"] ne root unfolding path_def [symmetric] by auto
  ultimately show ?thesis unfolding if_P [OF True] by (intro exI [of _ path] conjI walk allI) blast+
qed

theorem walk_to_root_correct_witness:
  "\<exists>path. walk_to_root demo_state ''b'' (Some ''b'') None = Inr path \<and> path \<noteq> [] \<and> e_id (hd path) = ''b'' \<and>
      (\<forall>e\<in>set (butlast path). e_id e \<noteq> ''b'') \<and>
      (e_id (last path) = ''b'' \<or> e_parent_id (last path) = None) \<and> set path \<subseteq> set (ss_entries demo_state)"
proof -
  have "''b'' \<in> entry_ids demo_state" by (simp add: demo_entries demo_entry_def)
  note walk = walk_to_root_correct [OF demo_wf, of "''b''" "Some ''b''" None, unfolded if_P [OF this]]
  have neq: "Some ''b'' \<noteq> Some i \<longleftrightarrow> i \<noteq> ''b''" and eq: "Some ''b'' = Some i \<longleftrightarrow> i = ''b''" for i :: string
    by auto
  from walk show ?thesis
    unfolding neq eq by (elim exE conjE) (intro exI conjI, assumption+, simp, simp add: eq_commute, assumption)
qed

text \<open>
  Tree queries are filtering and truncation: \<open>find_entries\<close> rejects exactly the invalid limits
  and cursors, and otherwise returns the first \<open>limit\<close> matching entries of the session in the
  order asked for.
\<close>

theorem find_entries_correct:
  "find_entries s q =
     (if (\<exists>l. q_limit q = Some l \<and> l \<le> 0)
      then Inl (InvalidQuery ''limit must be a positive integer'')
      else if (\<exists>c. q_cursor q = Some c \<and> c < 0)
      then Inl (InvalidQuery ''cursor sequence must be a non-negative integer'')
      else Inr (limit_take (q_limit q)
        (filter (\<lambda>e. matches_entry_query e q (order_or_default (q_order q)))
          (in_order (q_order q) (ss_entries s)))))"
  by (auto simp: find_entries_spec entry_query_validate_def validate_limit_def validate_cursor_def
      split: option.splits)

text \<open>
  Branch queries in both orders: the entries of the branch from the start entry to its root,
  cut after the first one that meets the stop bound (seen from the leaf, or from the root when
  oldest first), filtered, then truncated to the limit.
\<close>

theorem find_entries_on_branch_correct:
  assumes "state_wf s" and "entry_query_validate (bb_query q) = Inr ()"
    and "walk_to_root s (bb_start q) None None = Inr path"
  shows "find_entries_on_branch s q =
    Inr (limit_take (q_limit (bb_query q))
      (filter (\<lambda>e. matches_entry_query e (bb_query q) (order_or_default (q_order (bb_query q))))
        (take_until (stops_at (b_stop_at_id (bb_bounds q)) (b_stop_at_type (bb_bounds q)))
          (if is_oldest_first (order_or_default (q_order (bb_query q))) then rev path else path))))"
proof -
  have "bb_start q \<in> entry_ids s" "path = branch_ref s (bb_start q)"
    using assms(3) by (auto simp: walk_to_root_ref [OF assms(1)] split: if_splits)
  with assms(2) show ?thesis by (simp add: find_entries_on_branch_spec [OF assms(1)])
qed

theorem find_entries_on_branch_correct_witness:
  "find_entries_on_branch demo_state
     ((bound_branch_query_new ''b'')
        \<lparr>bb_query := entry_query_default\<lparr>q_order := Some OldestFirst, q_limit := Some 1\<rparr>\<rparr>) =
     Inr [demo_entry ''a'' 1 None]"
proof -
  let ?q = "(bound_branch_query_new ''b'')
        \<lparr>bb_query := entry_query_default\<lparr>q_order := Some OldestFirst, q_limit := Some 1\<rparr>\<rparr>"
  have valid: "entry_query_validate (bb_query ?q) = Inr ()"
    by (simp add: entry_query_validate_def entry_query_default_def validate_limit_def
        validate_cursor_def)
  have "walk_to_root demo_state (bb_start ?q) None None =
      Inr [demo_entry ''b'' 2 (Some ''a''), demo_entry ''a'' 1 None]"
    by (simp add: walk_to_root_ref [OF demo_wf] branch_ref_def demo_entries demo_entry_def
        bound_branch_query_new_def)
  from find_entries_on_branch_correct [OF demo_wf valid this] show ?thesis
    by (simp add: bound_branch_query_new_def branch_bounds_default_def entry_query_default_def
        order_or_default_def is_oldest_first_def limit_take_def matches_entry_query_def)
qed

text \<open>
  Paging loses and repeats nothing: when an oldest-first page of a query is full, the next
  page, asked for with the last sequence number as the cursor, continues exactly behind it.
\<close>

theorem find_entries_pages:
  assumes "state_wf s" and "q_order q = Some OldestFirst"
    and "find_entries s q = Inr page" and "page \<noteq> []"
    and "find_entries s (q\<lparr>q_limit := None\<rparr>) = Inr rest"
    and "find_entries s (q\<lparr>q_limit := None, q_cursor := Some (e_seq (last page))\<rparr>) = Inr page2"
  shows "page @ page2 = rest"
proof -
  let ?m = "\<lambda>e. matches_entry_query e q OldestFirst"
  let ?all = "filter ?m (ss_entries s)"
  have page: "page = limit_take (q_limit q) ?all" and rest: "rest = ?all"
    using assms(2,3,5)
    by (auto simp: find_entries_spec result_simps in_order_def limit_take_def order_or_default_def)
  then obtain tail where split: "?all = page @ tail"
    by (cases "q_limit q") (auto simp: limit_take_def intro: append_take_drop_id [symmetric])
  have sorted: "sorted_wrt (\<lambda>a b. e_seq a < e_seq b) (page @ tail)"
    unfolding split [symmetric] by (rule sorted_wrt_filter [OF entries_sorted [OF assms(1)]])
  let ?c = "e_seq (last page)"
  have last_in: "last page \<in> set ?all" using split assms(4) by simp
  then have cursor: "\<And>a. q_cursor q = Some a \<Longrightarrow> a < ?c"
    by (auto simp: matches_entry_query_def is_oldest_first_def)
  have "page2 = filter (\<lambda>e. ?m e \<and> ?c < e_seq e) (ss_entries s)"
    using assms(2,6) cursor
    by (auto simp: find_entries_spec result_simps in_order_def limit_take_def order_or_default_def
        matches_cursor less_imp_le)
  also have "\<dots> = filter (\<lambda>e. ?c < e_seq e) (page @ tail)" unfolding split [symmetric] by simp
  also have "\<dots> = tail"
  proof -
    obtain ys where p: "page = ys @ [last page]" using assms(4) by (metis append_butlast_last_id)
    have "sorted_wrt (\<lambda>a b. e_seq a < e_seq b) (ys @ [last page])"
      using sorted p by (simp add: sorted_wrt_append)
    then have "\<forall>e\<in>set (ys @ [last page]). e_seq e \<le> ?c" by (auto simp: sorted_wrt_append)
    then have "\<forall>e\<in>set page. e_seq e \<le> ?c" using p by simp
    moreover have "\<forall>e\<in>set tail. ?c < e_seq e" using sorted assms(4) by (simp add: sorted_wrt_append)
    ultimately show ?thesis by (auto simp: filter_empty_conv filter_id_conv not_less)
  qed
  finally show ?thesis using split rest by simp
qed

theorem find_entries_pages_witness:
  "[demo_entry ''a'' 1 None] @ [demo_entry ''b'' 2 (Some ''a'')] = ss_entries demo_state"
proof -
  let ?q = "entry_query_default\<lparr>q_order := Some OldestFirst, q_limit := Some 1\<rparr>"
  have q: "q_order ?q = Some OldestFirst" by simp
  have eval:
    "find_entries demo_state ?q = Inr [demo_entry ''a'' 1 None]"
    "find_entries demo_state (?q\<lparr>q_limit := None\<rparr>) = Inr (ss_entries demo_state)"
    "find_entries demo_state
       (?q\<lparr>q_limit := None, q_cursor := Some (e_seq (last [demo_entry ''a'' 1 None]))\<rparr>) =
       Inr [demo_entry ''b'' 2 (Some ''a'')]"
    by (simp_all add: find_entries_spec entry_query_validate_def validate_limit_def
        validate_cursor_def limit_take_def in_order_def order_or_default_def
        matches_entry_query_def is_oldest_first_def entry_query_default_def demo_entries)
      (simp_all add: demo_entry_def)
  show ?thesis by (rule find_entries_pages [OF demo_wf q eval(1) _ eval(2,3)]) simp
qed

text \<open>
  The open operations of a lane: \<open>find_open_operations\<close> lists, newest first and up to the limit,
  exactly the operations started on the lane with no later finish record for them.
\<close>

theorem find_open_operations_correct:
  assumes "state_wf s" and "\<forall>l. limit = Some l \<longrightarrow> 0 < l"
  shows "find_open_operations s lane limit =
    Inr (limit_take limit (rev (open_ref lane (ss_records s))))"
  using assms
  by (auto simp: find_open_operations_spec state_wf_def open_wf_def validate_limit_def
      split: option.splits)

theorem find_open_operations_correct_witness:
  "find_open_operations demo_state ''main'' (Some 2) =
     Inr (limit_take (Some 2) (rev (open_ref ''main'' (ss_records demo_state))))"
  by (rule find_open_operations_correct [OF demo_wf]) simp

end
