(* ===== verification/Session_Fork.thy ===== *)
theory Session_Fork
  imports Session_Queries
begin

text \<open>
  Forking a session, \<^verbatim>\<open>create_fork_mutations\<close> in \<^verbatim>\<open>state.rs\<close>: the mutations it computes are accepted
  by a fresh state, one after the other, and rebuild the copied entries, lanes, name and labels.
\<close>

section \<open>What is copied\<close>

lemma matches_default [simp]:
  "matches_entry_query e (entry_query_default\<lparr>q_order := x\<rparr>) ord"
  by (simp add: matches_entry_query_def entry_query_default_def)

lemma fork_contents_tree:
  "scope_or_default options = FSTree \<Longrightarrow> fork_contents s options = Inr (ss_entries s, ss_lanes s)"
  by (simp add: fork_contents_def find_entries_spec entry_query_validate_def entry_query_default_def
      validate_limit_def validate_cursor_def limit_take_def in_order_def get_lanes_def
      matches_entry_query_def)

lemma fork_target_in:
  assumes "state_wf s" and "fork_target s options = Inr (Some i)"
  shows "i \<in> entry_ids s"
proof -
  let ?body = "\<lambda>selected. case selected of
      None \<Rightarrow> Inr None
    | Some selected \<Rightarrow>
        (case get_entry s selected of
           Some e \<Rightarrow>
             if entry_type_of e = ETMessage
             then
               let position =
                 (case fo_position options of
                    Some p \<Rightarrow> p
                  | None \<Rightarrow> if fo_entry_id options = None then FPAt else FPBefore)
               in Inr (case position of FPAt \<Rightarrow> Some (e_id e) | FPBefore \<Rightarrow> e_parent_id e)
             else Inl (InvalidForkTarget (''Fork target is not a message entry: '' @ selected))
         | None \<Rightarrow> Inl (InvalidForkTarget (''Fork target is not a message entry: '' @ selected)))"
  from assms(2) obtain sel0 where body: "?body sel0 = Inr (Some i)"
    unfolding fork_target_def res_bind_Inr_iff by blast
  then obtain sel where sel: "sel0 = Some sel" by (cases sel0) auto
  with body obtain e where e: "get_entry s sel = Some e" by (cases "get_entry s sel") auto
  from body sel e have i: "i = e_id e \<or> e_parent_id e = Some i"
    by (auto simp: Let_def split: if_splits fork_position.splits)
  from e have mem: "e \<in> set (ss_entries s)" using get_entry_Some_iff [OF assms(1)] by simp
  have "i \<in> entry_ids s" if p: "e_parent_id e = Some i"
  proof -
    from mem obtain k where k: "k < length (ss_entries s)" "ss_entries s ! k = e"
      by (auto simp: in_set_conv_nth)
    have "tree_ok (ss_entries s)" using assms(1) by (simp add: state_wf_def)
    with k p have "i \<in> e_id ` set (take k (ss_entries s))" by (auto simp: tree_ok_def)
    then show ?thesis using set_take_subset [of k "ss_entries s"] by auto
  qed
  with i mem show ?thesis by auto
qed

lemma fork_contents_branch:
  assumes "state_wf s" and "scope_or_default options = FSBranch"
  shows "fork_contents s options =
    res_bind (fork_target s options) (\<lambda>target. Inr
      (case target of None \<Rightarrow> [] | Some i \<Rightarrow> rev (branch_ref s i),
       [\<lparr>lp_lane = ''main'', lp_leaf_id = target\<rparr>]))"
proof (cases "fork_target s options")
  case (Inl e)
  with assms(2) show ?thesis by (simp add: fork_contents_def)
next
  case (Inr target)
  show ?thesis
  proof (cases target)
    case None
    with Inr assms(2) show ?thesis by (simp add: fork_contents_def)
  next
    case (Some i)
    with fork_target_in [OF assms(1)] Inr have "i \<in> entry_ids s" by simp
    with Some Inr assms(2) show ?thesis
      by (simp add: fork_contents_def find_entries_on_branch_spec [OF assms(1)]
          bound_branch_query_new_def branch_bounds_default_def entry_query_validate_def
          entry_query_default_def validate_limit_def validate_cursor_def limit_take_def
          is_oldest_first_def order_or_default_def matches_entry_query_def)
  qed
qed

lemma tree_ok_lineage: "tree_ok es \<Longrightarrow> tree_ok (rev (lineage (rev es) i))"
proof (induction es arbitrary: i rule: rev_induct)
  case Nil
  then show ?case by (simp add: tree_ok_def)
next
  case (snoc e es)
  have "p \<in> e_id ` set (lineage xs (Some p))" if "p \<in> e_id ` set xs" for p xs
    using that by (induction xs) auto
  with snoc show ?case by (auto simp: tree_ok_snoc)
qed

lemma distinct_lineage: "distinct (map e_id es) \<Longrightarrow> distinct (map e_id (lineage es i))"
proof (induction es arbitrary: i)
  case (Cons e es)
  then show ?case using set_lineage [of es "e_parent_id e"] by auto
qed simp

text \<open>The copied entries are closed under parents, and the copied lanes point to them.\<close>

lemma fork_contents_wf:
  assumes wf: "state_wf s" and "fork_contents s options = Inr (es, ps)"
  shows "tree_ok es \<and> distinct (map e_id es) \<and> distinct (map lp_lane ps) \<and>
    ''main'' \<in> lp_lane ` set ps \<and> set es \<subseteq> set (ss_entries s) \<and>
    (\<forall>p\<in>set ps. \<forall>leaf. lp_leaf_id p = Some leaf \<longrightarrow> leaf \<in> e_id ` set es)"
proof (cases "scope_or_default options")
  case FSTree
  with assms have "es = ss_entries s" "ps = ss_lanes s" by (simp_all add: fork_contents_tree)
  with wf show ?thesis by (auto simp: state_wf_def lanes_wf_def ids_wf_def)
next
  case FSBranch
  with assms obtain t where t: "fork_target s options = Inr t"
    and es: "es = (case t of None \<Rightarrow> [] | Some i \<Rightarrow> rev (branch_ref s i))"
    and ps: "ps = [\<lparr>lp_lane = ''main'', lp_leaf_id = t\<rparr>]"
    by (auto simp: fork_contents_branch [OF wf] result_simps)
  show ?thesis
  proof (cases t)
    case None
    with es ps show ?thesis by (simp add: tree_ok_def)
  next
    case (Some i)
    have i: "i \<in> entry_ids s" using fork_target_in [OF wf] t Some by simp
    have "distinct (map e_id (ss_entries s))" "tree_ok (ss_entries s)"
      using wf by (simp_all add: state_wf_def ids_wf_def)
    then have "tree_ok es" "distinct (map e_id es)"
      using tree_ok_lineage [of "ss_entries s" "Some i"]
        distinct_lineage [of "rev (ss_entries s)" "Some i"] es Some
      by (simp_all add: branch_ref_def rev_map [symmetric])
    moreover have "i \<in> e_id ` set es"
      using branch_ref_ne [OF wf i] es Some by (metis hd_in_set image_eqI option.simps(5) set_rev)
    moreover have "set es \<subseteq> set (ss_entries s)"
      using set_lineage [of "rev (ss_entries s)" "Some i"] es Some by (simp add: branch_ref_def)
    ultimately show ?thesis using ps Some by simp
  qed
qed

section \<open>Replaying the mutations\<close>

fun renumber :: "int \<Rightarrow> entry list \<Rightarrow> entry list" where
  "renumber n [] = []"
| "renumber n (e # es) = e\<lparr>e_seq := n\<rparr> # renumber (n + 1) es"

lemma length_renumber [simp]: "length (renumber n es) = length es"
  by (induction es arbitrary: n) auto

lemma map_renumber [simp]: "map e_id (renumber n es) = map e_id es"
  by (induction es arbitrary: n) auto

lemma ids_renumber [simp]: "e_id ` set (renumber n es) = e_id ` set es"
  by (metis map_renumber list.set_map)

lemma nth_renumber: "k < length es \<Longrightarrow> renumber n es ! k = (es ! k)\<lparr>e_seq := n + int k\<rparr>"
  by (induction es arbitrary: n k) (auto simp: nth_Cons' less_Suc_eq_0_disj)

lemma apply_mutations_append:
  "apply_mutations (ms @ ns) s = res_bind (apply_mutations ms s) (apply_mutations ns)"
  by (induction ms arbitrary: s) (auto simp: res_bind_def split: sum.splits)

lemma replay_entries:
  assumes "state_wf t" and "distinct (map e_id es)" and "e_id ` set es \<inter> ss_used_ids t = {}"
    and "tree_ok (ss_entries t @ es)"
  shows "\<exists>t'. apply_mutations (fork_entries (ss_sequence t + 1) es) t = Inr t' \<and>
    ss_entries t' = ss_entries t @ renumber (ss_sequence t + 1) es \<and>
    ss_sequence t' = ss_sequence t + int (length es) \<and> ss_lanes t' = ss_lanes t \<and>
    ss_name t' = ss_name t \<and> ss_labels t' = ss_labels t \<and> ss_records t' = ss_records t"
  using assms
proof (induction es arbitrary: t)
  case (Cons e es)
  let ?e = "e\<lparr>e_seq := ss_sequence t + 1\<rparr>"
  have "p \<in> entry_ids t" if "e_parent_id e = Some p" for p
  proof -
    have "e_parent_id ((ss_entries t @ e # es) ! length (ss_entries t)) = Some p"
      using that by simp
    with Cons.prems(4) have "p \<in> e_id ` set (take (length (ss_entries t)) (ss_entries t @ e # es))"
      unfolding tree_ok_def by (metis add_less_cancel_left length_append length_greater_0_conv
          less_add_same_cancel1 list.discI)
    then show ?thesis by simp
  qed
  then have "\<exists>t1. apply_entry None ?e t = Inr t1"
    using Cons.prems(3) state_wf_index [OF Cons.prems(1)] by (auto simp: apply_entry_Inr_iff)
  then obtain t1 where t1: "apply_entry None ?e t = Inr t1" by blast
  note eff = t1 [unfolded apply_entry_Inr_iff]
  have m1: "apply_mutation (SMEntry None ?e) t = Inr t1"
    using t1 by (simp add: apply_mutation_SMEntry)
  have wf1: "state_wf t1" by (rule state_wf_mutation [OF Cons.prems(1) m1])
  have tree1: "tree_ok (ss_entries t1 @ es)"
  proof -
    have "e_parent_id ((ss_entries t1 @ es) ! k) = e_parent_id ((ss_entries t @ e # es) ! k)" for k
      using eff by (simp add: nth_append nth_Cons')
    moreover have "e_id ` set (take k (ss_entries t1 @ es)) =
        e_id ` set (take k (ss_entries t @ e # es))" for k
      using eff by (cases "k - length (ss_entries t)") auto
    ultimately show ?thesis using Cons.prems(4) eff by (simp add: tree_ok_def)
  qed
  have "e_id ` set es \<inter> ss_used_ids t1 = {}" "distinct (map e_id es)"
    using Cons.prems(2,3) eff by auto
  from Cons.IH [OF wf1 this(2,1) tree1] eff m1 show ?case by (auto simp: algebra_simps)
qed simp

lemma find_append_single:
  "find p (xs @ [x]) = (case find p xs of Some y \<Rightarrow> Some y | None \<Rightarrow> if p x then Some x else None)"
  by (induction xs) auto

lemma lane_slot_set_leaf:
  "find (\<lambda>p. lp_lane p = l) (set_leaf lane leaf ps) =
     (if l = lane then map_option (\<lambda>p. p\<lparr>lp_leaf_id := leaf\<rparr>) (find (\<lambda>p. lp_lane p = l) ps)
      else find (\<lambda>p. lp_lane p = l) ps)"
  by (induction ps) (auto simp: set_leaf_def)

lemma replay_lanes:
  assumes "state_wf t" and "distinct (map lp_lane ps)"
    and "\<forall>p\<in>set ps. \<forall>leaf. lp_leaf_id p = Some leaf \<longrightarrow> leaf \<in> entry_ids t"
  shows "\<exists>t'. apply_mutations (fork_lanes (ss_sequence t + 1) ps) t = Inr t' \<and>
    ss_entries t' = ss_entries t \<and> ss_sequence t' = ss_sequence t + int (length ps) \<and>
    ss_name t' = ss_name t \<and> ss_labels t' = ss_labels t \<and> ss_records t' = ss_records t \<and>
    (\<forall>l. lane_slot t' l =
       (case find (\<lambda>p. lp_lane p = l) ps of Some p \<Rightarrow> Some p | None \<Rightarrow> lane_slot t l))"
  using assms
proof (induction ps arbitrary: t)
  case (Cons p ps)
  have "\<exists>t1. apply_lane (ss_sequence t + 1) (lp_lane p) (lp_leaf_id p) t = Inr t1"
    using Cons.prems(3) state_wf_index [OF Cons.prems(1)] by (auto simp: apply_lane_Inr_iff)
  then obtain t1 where t1: "apply_lane (ss_sequence t + 1) (lp_lane p) (lp_leaf_id p) t = Inr t1"
    by blast
  note eff = t1 [unfolded apply_lane_Inr_iff]
  have m1: "apply_mutation (SMLane (ss_sequence t + 1) (lp_lane p) (lp_leaf_id p)) t = Inr t1"
    using t1 by (simp add: apply_mutation_SMLane)
  have wf1: "state_wf t1" by (rule state_wf_mutation [OF Cons.prems(1) m1])
  have slot: "lane_slot t1 l = (if l = lp_lane p then Some p else lane_slot t l)" for l
  proof (cases "lane_slot t (lp_lane p)")
    case None
    with eff show ?thesis
      by (auto simp: lane_slot_def find_append_single split: option.splits)
  next
    case (Some q)
    with find_SomeD have "lp_lane q = lp_lane p" by (fastforce simp: lane_slot_def)
    with Some eff show ?thesis by (auto simp: lane_slot_def lane_slot_set_leaf)
  qed
  have pre: "distinct (map lp_lane ps)"
    "\<forall>p\<in>set ps. \<forall>leaf. lp_leaf_id p = Some leaf \<longrightarrow> leaf \<in> entry_ids t1"
    using Cons.prems(2,3) eff by auto
  have other: "find (\<lambda>q. lp_lane q = lp_lane p) ps = None"
  proof -
    have "lp_lane p \<notin> lp_lane ` set ps" using Cons.prems(2) by simp
    then show ?thesis unfolding find_None_iff_all by (metis image_eqI)
  qed
  have t1_fields: "ss_sequence t1 = ss_sequence t + 1" "ss_entries t1 = ss_entries t"
    "ss_name t1 = ss_name t" "ss_labels t1 = ss_labels t" "ss_records t1 = ss_records t"
    using eff by simp_all
  from Cons.IH [OF wf1 pre] obtain t' where
    t': "apply_mutations (fork_lanes (ss_sequence t + 1 + 1) ps) t1 = Inr t'"
      "ss_entries t' = ss_entries t" "ss_sequence t' = ss_sequence t + 1 + int (length ps)"
      "ss_name t' = ss_name t" "ss_labels t' = ss_labels t" "ss_records t' = ss_records t"
    and slots: "\<And>l. lane_slot t' l =
      (case find (\<lambda>p. lp_lane p = l) ps of Some p \<Rightarrow> Some p | None \<Rightarrow> lane_slot t1 l)"
    unfolding t1_fields by blast
  have "lane_slot t' l =
      (case find (\<lambda>p. lp_lane p = l) (p # ps) of Some p \<Rightarrow> Some p | None \<Rightarrow> lane_slot t l)" for l
    using slots [of l] slot [of l] other
    by (cases "l = lp_lane p") (auto split: option.splits)
  with t' m1 show ?case by simp
qed simp

lemma replay_labels:
  assumes "state_wf t" and "e_id ` set es \<subseteq> entry_ids t"
  shows "\<exists>t'. apply_mutations (fork_labels labels (ss_sequence t + 1) es) t = Inr t' \<and>
    ss_entries t' = ss_entries t \<and> ss_lanes t' = ss_lanes t \<and> ss_name t' = ss_name t \<and>
    ss_records t' = ss_records t \<and>
    ss_labels t' = ss_labels t ++ (labels |` (e_id ` set es))"
  using assms
proof (induction es arbitrary: t)
  case (Cons e es)
  show ?case
  proof (cases "labels (e_id e)")
    case None
    then have "labels |` (e_id ` set (e # es)) = labels |` (e_id ` set es)"
      by (auto simp: restrict_map_def)
    with Cons None show ?thesis by auto
  next
    case (Some label)
    have known: "ss_entries_by_id t (e_id e) \<noteq> None"
      using Cons.prems state_wf_index [OF Cons.prems(1)] by simp
    define t1 where "t1 = t\<lparr>ss_sequence := ss_sequence t + 1,
      ss_labels := (ss_labels t)(e_id e \<mapsto> label),
      ss_log := ss_log t @ [LILabel (ss_sequence t + 1) (e_id e) (Some label)]\<rparr>"
    have m1: "apply_mutation (SMLabel (ss_sequence t + 1) (e_id e) (Some label)) t = Inr t1"
      using known by (simp add: apply_mutation_SMLabel apply_label_def t1_def)
    have wf1: "state_wf t1" by (rule state_wf_mutation [OF Cons.prems(1) m1])
    have eq: "ss_labels t1 ++ (labels |` (e_id ` set es)) =
        ss_labels t ++ (labels |` (e_id ` set (e # es)))"
      using Some by (auto simp: t1_def map_add_def restrict_map_def fun_eq_iff split: option.splits)
    have "e_id ` set es \<subseteq> entry_ids t1" using Cons.prems(2) by (simp add: t1_def)
    from Cons.IH [OF wf1 this, unfolded eq]
    have "\<exists>t'. apply_mutations (fork_labels labels (ss_sequence t + 1 + 1) es) t1 = Inr t' \<and>
        ss_entries t' = ss_entries t \<and> ss_lanes t' = ss_lanes t \<and> ss_name t' = ss_name t \<and>
        ss_records t' = ss_records t \<and>
        ss_labels t' = ss_labels t ++ (labels |` (e_id ` set (e # es)))"
      by (simp add: t1_def)
    with m1 Some show ?thesis by simp
  qed
qed simp

lemma length_fork [simp]:
  "length (fork_entries n es) = length es"
  "length (fork_lanes m ps) = length ps"
  by (induction es arbitrary: n, auto) (induction ps arbitrary: m, auto)

lemma replay_name:
  "\<exists>t'. apply_mutations (fork_name (ss_sequence t + 1) name) t = Inr t' \<and>
     ss_entries t' = ss_entries t \<and> ss_lanes t' = ss_lanes t \<and> ss_labels t' = ss_labels t \<and>
     ss_records t' = ss_records t \<and> (name = None \<longrightarrow> ss_name t' = ss_name t) \<and>
     (name \<noteq> None \<longrightarrow> ss_name t' = name) \<and>
     ss_sequence t' = ss_sequence t + int (length (fork_name (ss_sequence t + 1) name))"
  by (cases name) (auto simp: apply_mutation.simps apply_name_def Let_def)

lemma state_wf_new_fields [simp]:
  "ss_entries session_state_new = []" "ss_records session_state_new = []"
  "ss_used_ids session_state_new = {}" "ss_sequence session_state_new = 0"
  "ss_name session_state_new = None" "ss_labels session_state_new = Map.empty"
  by (simp_all add: session_state_new_def)

lemma replay_fork:
  assumes wf: "state_wf s" and es: "fork_contents s options = Inr (es, ps)"
    and ms: "create_fork_mutations s options = Inr ms"
  shows "\<exists>t. apply_mutations ms session_state_new = Inr t \<and> ss_entries t = renumber 1 es \<and>
    (\<forall>lane. lane_slot t lane = find (\<lambda>p. lp_lane p = lane) ps) \<and> ss_name t = ss_name s \<and>
    ss_labels t = ss_labels s |` (e_id ` set es) \<and> ss_records t = []"
proof -
  note cw = fork_contents_wf [OF wf es]
  let ?n = "session_state_new"
  from cw have pre: "distinct (map e_id es)" "e_id ` set es \<inter> ss_used_ids ?n = {}"
    "tree_ok (ss_entries ?n @ es)" by simp_all
  from replay_entries [OF state_wf_new pre] obtain t1 where
    t1: "apply_mutations (fork_entries 1 es) ?n = Inr t1" "ss_entries t1 = renumber 1 es"
      "ss_sequence t1 = int (length es)" "ss_lanes t1 = ss_lanes ?n" "ss_name t1 = None"
      "ss_labels t1 = Map.empty" "ss_records t1 = []"
    by auto
  have wf1: "state_wf t1" by (rule state_wf_mutations [OF state_wf_new t1(1)])
  have leaves: "\<forall>p\<in>set ps. \<forall>leaf. lp_leaf_id p = Some leaf \<longrightarrow> leaf \<in> entry_ids t1"
    using cw t1(2) by simp
  from replay_lanes [OF wf1 _ leaves] cw obtain t2 where
    t2: "apply_mutations (fork_lanes (int (length es) + 1) ps) t1 = Inr t2"
      "ss_entries t2 = renumber 1 es" "ss_sequence t2 = int (length es) + int (length ps)"
      "ss_name t2 = None" "ss_labels t2 = Map.empty" "ss_records t2 = []"
    and slot: "\<And>l. lane_slot t2 l =
      (case find (\<lambda>p. lp_lane p = l) ps of Some p \<Rightarrow> Some p | None \<Rightarrow> lane_slot t1 l)"
    using t1 by auto
  have wf2: "state_wf t2" by (rule state_wf_mutations [OF wf1 t2(1)])
  from replay_name [of t2 "ss_name s"] obtain t3 where
    t3: "apply_mutations (fork_name (int (length es) + int (length ps) + 1) (ss_name s)) t2 = Inr t3"
      "ss_entries t3 = renumber 1 es" "ss_lanes t3 = ss_lanes t2" "ss_labels t3 = Map.empty"
      "ss_records t3 = []" "ss_name t3 = ss_name s"
      "ss_sequence t3 = int (length es) + int (length ps) +
        int (length (fork_name (int (length es) + int (length ps) + 1) (ss_name s)))"
    using t2 by (cases "ss_name s") auto
  have wf3: "state_wf t3" by (rule state_wf_mutations [OF wf2 t3(1)])
  have "e_id ` set es \<subseteq> entry_ids t3" using t3(2) by simp
  from replay_labels [OF wf3 this, of "ss_labels s"] obtain t4 where
    t4: "apply_mutations (fork_labels (ss_labels s) (ss_sequence t3 + 1) es) t3 = Inr t4"
      "ss_entries t4 = renumber 1 es" "ss_lanes t4 = ss_lanes t2" "ss_name t4 = ss_name s"
      "ss_records t4 = []" "ss_labels t4 = ss_labels s |` (e_id ` set es)"
    using t3 by auto
  have "apply_mutations ms ?n = Inr t4"
    using ms t1(1) t2(1) t3(1) t4(1) t3(7)
    by (auto simp: create_fork_mutations_def es Let_def apply_mutations_append add.commute
        add.left_commute)
  moreover have "lane_slot t4 l = find (\<lambda>p. lp_lane p = l) ps" for l
  proof -
    have "lane_slot t4 l = lane_slot t2 l" using t4(3) by (simp add: lane_slot_def)
    moreover have "lane_slot t1 l = None" if "find (\<lambda>p. lp_lane p = l) ps = None"
    proof -
      have "l \<noteq> ''main''" using that cw by (auto simp: find_None_iff_all)
      then show ?thesis using t1(4) by (simp add: lane_slot_def session_state_new_def)
    qed
    ultimately show ?thesis using slot [of l] by (auto split: option.splits)
  qed
  ultimately show ?thesis using t4 by blast
qed

section \<open>Properties\<close>

text \<open>
  A fork is a faithful copy: every mutation list \<open>create_fork_mutations\<close> produces for a
  well-formed session is accepted by a fresh state, and the new session has the copied entries
  with their ids, parents and payloads, renumbered from 1, the copied lanes, the name and the
  labels of the copied entries, and no records.
\<close>

theorem fork_replays:
  assumes "state_wf s" and "fork_contents s options = Inr (es, ps)"
    and "create_fork_mutations s options = Inr ms"
  shows "\<exists>t. apply_mutations ms session_state_new = Inr t \<and> state_wf t \<and>
    length (ss_entries t) = length es \<and>
    (\<forall>k<length es. ss_entries t ! k = (es ! k)\<lparr>e_seq := int k + 1\<rparr>) \<and>
    (\<forall>lane. lane_slot t lane = find (\<lambda>p. lp_lane p = lane) ps) \<and> ss_name t = ss_name s \<and>
    ss_labels t = ss_labels s |` (e_id ` set es) \<and> ss_records t = []"
proof -
  from replay_fork [OF assms] obtain t where t: "apply_mutations ms session_state_new = Inr t"
    "ss_entries t = renumber 1 es" and rest:
    "\<forall>lane. lane_slot t lane = find (\<lambda>p. lp_lane p = lane) ps" "ss_name t = ss_name s"
    "ss_labels t = ss_labels s |` (e_id ` set es)" "ss_records t = []"
    by blast
  have "state_wf t" by (rule state_wf_mutations [OF state_wf_new t(1)])
  with t rest show ?thesis by (auto simp: nth_renumber add.commute)
qed

theorem fork_replays_witness:
  "\<exists>ms t. create_fork_mutations demo_state fork_options_tree = Inr ms \<and>
     apply_mutations ms session_state_new = Inr t \<and> length (ss_entries t) = 2 \<and>
     ss_name t = ss_name demo_state \<and> ss_records t = []"
proof -
  have c: "fork_contents demo_state fork_options_tree = Inr (ss_entries demo_state, ss_lanes demo_state)"
    by (rule fork_contents_tree)
      (simp add: fork_options_tree_def fork_options_default_def scope_or_default_def)
  then obtain ms where ms: "create_fork_mutations demo_state fork_options_tree = Inr ms"
    by (simp add: create_fork_mutations_def Let_def)
  from fork_replays [OF demo_wf c ms] ms show ?thesis by (auto simp: demo_entries)
qed

text \<open>
  When a fork succeeds and what it contains. A tree fork always succeeds and copies every
  entry and lane. A branch fork of an existing message entry copies the path from the root to
  that entry (position \<open>At\<close>) or to its parent (position \<open>Before\<close>, the default for an explicit
  entry); any other explicit entry is refused.
\<close>

theorem fork_contents_correct:
  assumes "state_wf s"
  shows "fork_contents s fork_options_tree = Inr (ss_entries s, ss_lanes s) \<and>
    fork_contents s (fork_options_branch_at i) =
      (if \<exists>e\<in>set (ss_entries s). e_id e = i \<and> entry_type_of e = ETMessage
       then Inr (rev (branch_ref s i), [\<lparr>lp_lane = ''main'', lp_leaf_id = Some i\<rparr>])
       else Inl (InvalidForkTarget (''Fork target is not a message entry: '' @ i))) \<and>
    (\<forall>e\<in>set (ss_entries s). entry_type_of e = ETMessage \<longrightarrow>
      fork_contents s \<lparr>fo_scope = None, fo_entry_id = Some (e_id e), fo_position = None\<rparr> =
        Inr (case e_parent_id e of None \<Rightarrow> [] | Some p \<Rightarrow> rev (branch_ref s p),
             [\<lparr>lp_lane = ''main'', lp_leaf_id = e_parent_id e\<rparr>]))"
proof (intro conjI ballI impI)
  show "fork_contents s fork_options_tree = Inr (ss_entries s, ss_lanes s)"
    by (rule fork_contents_tree)
      (simp add: fork_options_tree_def fork_options_default_def scope_or_default_def)
  have br: "scope_or_default (fork_options_branch_at i) = FSBranch"
    by (simp add: fork_options_branch_at_def scope_or_default_def)
  show "fork_contents s (fork_options_branch_at i) =
      (if \<exists>e\<in>set (ss_entries s). e_id e = i \<and> entry_type_of e = ETMessage
       then Inr (rev (branch_ref s i), [\<lparr>lp_lane = ''main'', lp_leaf_id = Some i\<rparr>])
       else Inl (InvalidForkTarget (''Fork target is not a message entry: '' @ i)))"
  proof (cases "get_entry s i")
    case None
    then have "i \<notin> entry_ids s" by (simp add: get_entry_None_iff [OF assms])
    with None show ?thesis
      unfolding fork_contents_branch [OF assms br]
      by (auto simp: fork_target_def fork_options_branch_at_def)
  next
    case (Some e)
    then have "(\<exists>e\<in>set (ss_entries s). e_id e = i \<and> entry_type_of e = ETMessage) \<longleftrightarrow>
        entry_type_of e = ETMessage" "e_id e = i"
      using get_entry_Some_iff [OF assms, of i] by (metis option.inject, metis)
    with Some show ?thesis
      unfolding fork_contents_branch [OF assms br]
      by (simp add: fork_target_def fork_options_branch_at_def)
  qed
next
  fix e :: entry
  let ?o = "\<lparr>fo_scope = None, fo_entry_id = Some (e_id e), fo_position = None\<rparr>"
  assume "e \<in> set (ss_entries s)" and msg: "entry_type_of e = ETMessage"
  then have "get_entry s (e_id e) = Some e" using get_entry_Some_iff [OF assms] by simp
  moreover have "scope_or_default ?o = FSBranch" by (simp add: scope_or_default_def)
  ultimately show "fork_contents s ?o =
      Inr (case e_parent_id e of None \<Rightarrow> [] | Some p \<Rightarrow> rev (branch_ref s p),
           [\<lparr>lp_lane = ''main'', lp_leaf_id = e_parent_id e\<rparr>])"
    using msg by (simp add: fork_contents_branch [OF assms] fork_target_def)
qed

theorem fork_contents_correct_witness:
  "fork_contents demo_state (fork_options_branch_at ''b'') =
     Inr (rev (branch_ref demo_state ''b''), [\<lparr>lp_lane = ''main'', lp_leaf_id = Some ''b''\<rparr>])"
  using fork_contents_correct [OF demo_wf, of "''b''"]
  by (simp add: demo_entries demo_entry_def entry_type_of_def)

end
