(* ===== verification/Session_Json.thy ===== *)
theory Session_Json
  imports Session_Types
begin

text \<open>
  The JSON form of entries and records: the hand-written \<^verbatim>\<open>Serialize\<close> and \<^verbatim>\<open>Deserialize\<close>
  implementations of \<^verbatim>\<open>pi-rs/crates/pi-session/src/types.rs\<close>. \<^verbatim>\<open>serde_json::Map\<close> keeps insertion
  order; \<open>map_insert\<close> is its \<^verbatim>\<open>insert\<close>. What \<^verbatim>\<open>serde\<close> derives for the payload structs is a parameter:
  \<open>ser\<close> turns a payload into a JSON value (the calls of \<^verbatim>\<open>serde_json::to_value\<close> in \<^verbatim>\<open>write_fields\<close>) and
  \<open>de\<close> reads the payload of a given type from the fields of a line (\<^verbatim>\<open>from_fields\<close>); \<open>show_json\<close> is the
  \<^verbatim>\<open>Display\<close> of a JSON value in an error text.
\<close>

section \<open>JSON maps\<close>

fun map_insert :: "string \<Rightarrow> json \<Rightarrow> json_map \<Rightarrow> json_map" where
  "map_insert k v [] = [(k, v)]"
| "map_insert k v ((k', v') # m) = (if k = k' then (k, v) # m else (k', v') # map_insert k v m)"

fun map_extend :: "json_map \<Rightarrow> json_map \<Rightarrow> json_map" where
  "map_extend m [] = m"
| "map_extend m ((k, v) # fs) = map_extend (map_insert k v m) fs"

definition require_string :: "json_map \<Rightarrow> string \<Rightarrow> string + string" where
  "require_string m field =
     (case map_of m field of
        Some (JString value) \<Rightarrow> Inr value | _ \<Rightarrow> Inl (''has invalid '' @ field))"

definition require_nullable_string :: "json_map \<Rightarrow> string \<Rightarrow> string + string option" where
  "require_nullable_string m field =
     (case map_of m field of
        Some (JString value) \<Rightarrow> Inr (Some value)
      | Some JNull \<Rightarrow> Inr None
      | _ \<Rightarrow> Inl (''has invalid '' @ field))"

definition require_i64 :: "json_map \<Rightarrow> string \<Rightarrow> string + int" where
  "require_i64 m field =
     ok_or (case map_of m field of Some (JNumber n) \<Rightarrow> number_as_i64 n | _ \<Rightarrow> None)
       (''has invalid '' @ field)"

fun extra_loop :: "string list \<Rightarrow> string list \<Rightarrow> json_map \<Rightarrow> json_map \<Rightarrow> json_map" where
  "extra_loop envelope payload extra [] = extra"
| "extra_loop envelope payload extra ((key, value) # m) =
     (if key \<in> set envelope \<or> key \<in> set payload then extra_loop envelope payload extra m
      else extra_loop envelope payload (map_insert key value extra) m)"

definition extra_keys :: "json_map \<Rightarrow> string list \<Rightarrow> string list \<Rightarrow> json_map" where
  "extra_keys m envelope payload = extra_loop envelope payload [] m"

definition ENTRY_ENVELOPE_KEYS :: "string list" where
  "ENTRY_ENVELOPE_KEYS =
     [''kind'', ''lane'', ''type'', ''id'', ''parentId'', ''seq'', ''timestamp'']"

definition RECORD_ENVELOPE_KEYS :: "string list" where
  "RECORD_ENVELOPE_KEYS = [''kind'', ''type'', ''id'', ''lane'', ''seq'', ''timestamp'']"

section \<open>Entries\<close>

definition write_entry_fields ::
  "(entry_payload \<Rightarrow> string + json) \<Rightarrow> (json \<Rightarrow> string) \<Rightarrow> entry_payload \<Rightarrow> json_map \<Rightarrow>
   string + json_map" where
  "write_entry_fields ser show_json payload out =
     res_bind (ser payload) (\<lambda>value.
       case value of
         JObject fs \<Rightarrow> Inr (map_extend out fs)
       | other \<Rightarrow> Inl (''entry payload is not an object: '' @ show_json other))"

definition provisioned_to_map ::
  "(entry_payload \<Rightarrow> string + json) \<Rightarrow> (json \<Rightarrow> string) \<Rightarrow> provisioned_entry \<Rightarrow> string + json_map" where
  "provisioned_to_map ser show_json e =
     (let m = map_insert ''type'' (JString (entry_type_str (payload_entry_type (pe_payload e)))) [];
          m = map_insert ''id'' (JString (pe_id e)) m
      in res_bind (write_entry_fields ser show_json (pe_payload e) m)
           (\<lambda>m. Inr (map_extend m (pe_extra e))))"

definition decode_provisioned_entry ::
  "(entry_type \<Rightarrow> json \<Rightarrow> string + entry_payload) \<Rightarrow> json_map \<Rightarrow> string + provisioned_entry" where
  "decode_provisioned_entry de m =
     res_bind (require_string m ''id'') (\<lambda>i.
     res_bind (require_string m ''type'') (\<lambda>type_name.
     res_bind (ok_or (entry_type_from_str type_name)
       (''has unknown entry type '' @ type_name)) (\<lambda>t.
     res_bind (de t (JObject m)) (\<lambda>payload.
       Inr \<lparr>pe_id = i, pe_payload = payload,
            pe_extra = extra_keys m ENTRY_ENVELOPE_KEYS (entry_payload_keys t)\<rparr>))))"

definition entry_to_map ::
  "(entry_payload \<Rightarrow> string + json) \<Rightarrow> (json \<Rightarrow> string) \<Rightarrow> entry \<Rightarrow> string + json_map" where
  "entry_to_map ser show_json e =
     res_bind (provisioned_to_map ser show_json
       \<lparr>pe_id = e_id e, pe_payload = e_payload e, pe_extra = e_extra e\<rparr>) (\<lambda>m.
       let m = map_insert ''parentId''
                 (case e_parent_id e of Some i \<Rightarrow> JString i | None \<Rightarrow> JNull) m;
           m = map_insert ''seq'' (JNumber (number_from_i64 (e_seq e))) m
       in Inr (map_insert ''timestamp'' (JNumber (number_from_i64 (e_timestamp e))) m))"

definition decode_entry ::
  "(entry_type \<Rightarrow> json \<Rightarrow> string + entry_payload) \<Rightarrow> json_map \<Rightarrow> string + entry" where
  "decode_entry de m =
     res_bind (decode_provisioned_entry de m) (\<lambda>p.
     res_bind (require_i64 m ''seq'') (\<lambda>seq.
     res_bind (require_nullable_string m ''parentId'') (\<lambda>parent_id.
     res_bind (require_i64 m ''timestamp'') (\<lambda>timestamp.
       Inr \<lparr>e_id = pe_id p, e_seq = seq, e_parent_id = parent_id, e_timestamp = timestamp,
            e_payload = pe_payload p, e_extra = pe_extra p\<rparr>))))"

section \<open>Records\<close>

definition write_record_fields ::
  "(record_payload \<Rightarrow> string + json) \<Rightarrow> (json \<Rightarrow> string) \<Rightarrow> record_payload \<Rightarrow> json_map \<Rightarrow>
   string + json_map" where
  "write_record_fields ser show_json payload out =
     res_bind (ser payload) (\<lambda>value.
       case value of
         JObject fs \<Rightarrow> Inr (map_extend out fs)
       | other \<Rightarrow> Inl (''record payload is not an object: '' @ show_json other))"

definition new_record_to_map ::
  "(record_payload \<Rightarrow> string + json) \<Rightarrow> (json \<Rightarrow> string) \<Rightarrow> new_record \<Rightarrow> string + json_map" where
  "new_record_to_map ser show_json r =
     (let m = map_insert ''type''
                (JString (record_type_str (payload_record_type (nr_payload r)))) [];
          m = map_insert ''id'' (JString (nr_id r)) m;
          m = map_insert ''lane'' (JString (nr_lane r)) m
      in res_bind (write_record_fields ser show_json (nr_payload r) m)
           (\<lambda>m. Inr (map_extend m (nr_extra r))))"

definition decode_new_record ::
  "(record_type \<Rightarrow> json \<Rightarrow> string + record_payload) \<Rightarrow> json_map \<Rightarrow> string + new_record" where
  "decode_new_record de m =
     res_bind (require_string m ''id'') (\<lambda>i.
     res_bind (require_string m ''lane'') (\<lambda>lane.
     res_bind (require_string m ''type'') (\<lambda>type_name.
     res_bind (ok_or (record_type_from_str type_name)
       (''has unknown record type '' @ type_name)) (\<lambda>t.
     res_bind (de t (JObject m)) (\<lambda>payload.
       Inr \<lparr>nr_id = i, nr_lane = lane, nr_payload = payload,
            nr_extra = extra_keys m RECORD_ENVELOPE_KEYS (record_payload_keys t)\<rparr>)))))"

definition lane_record_to_map ::
  "(record_payload \<Rightarrow> string + json) \<Rightarrow> (json \<Rightarrow> string) \<Rightarrow> lane_record \<Rightarrow> string + json_map" where
  "lane_record_to_map ser show_json r =
     res_bind (new_record_to_map ser show_json
       \<lparr>nr_id = r_id r, nr_lane = r_lane r, nr_payload = r_payload r, nr_extra = r_extra r\<rparr>) (\<lambda>m.
       let m = map_insert ''seq'' (JNumber (number_from_i64 (r_seq r))) m
       in Inr (map_insert ''timestamp'' (JNumber (number_from_i64 (r_timestamp r))) m))"

definition decode_lane_record ::
  "(record_type \<Rightarrow> json \<Rightarrow> string + record_payload) \<Rightarrow> json_map \<Rightarrow> string + lane_record" where
  "decode_lane_record de m =
     res_bind (decode_new_record de m) (\<lambda>p.
     res_bind (require_i64 m ''seq'') (\<lambda>seq.
     res_bind (require_i64 m ''timestamp'') (\<lambda>timestamp.
       Inr \<lparr>r_id = nr_id p, r_seq = seq, r_lane = nr_lane p, r_timestamp = timestamp,
            r_payload = nr_payload p, r_extra = nr_extra p\<rparr>)))"

section \<open>Insertion-ordered maps with distinct keys\<close>

lemma map_insert_fresh [simp]: "k \<notin> fst ` set m \<Longrightarrow> map_insert k v m = m @ [(k, v)]"
  by (induction m) auto

lemma map_extend_fresh:
  "\<lbrakk>distinct (map fst fs); fst ` set fs \<inter> fst ` set m = {}\<rbrakk> \<Longrightarrow> map_extend m fs = m @ fs"
proof (induction fs arbitrary: m)
  case (Cons f fs)
  obtain k v where f: "f = (k, v)" by fastforce
  with Cons.prems have "k \<notin> fst ` set m" "fst ` set fs \<inter> fst ` set (m @ [(k, v)]) = {}" by auto
  with Cons f show ?case by simp
qed simp

lemma extra_loop_distinct:
  "\<lbrakk>distinct (map fst m); fst ` set m \<inter> fst ` set acc = {}\<rbrakk> \<Longrightarrow>
     extra_loop env pay acc m = acc @ filter (\<lambda>(k, v). k \<notin> set env \<and> k \<notin> set pay) m"
proof (induction m arbitrary: acc)
  case (Cons f m)
  obtain k v where f: "f = (k, v)" by fastforce
  with Cons.prems have "k \<notin> fst ` set acc" "fst ` set m \<inter> fst ` set acc = {}"
    "fst ` set m \<inter> fst ` set (acc @ [(k, v)]) = {}" by auto
  with Cons f show ?case by simp
qed simp

lemma filter_keys_none: "fst ` set m \<subseteq> S \<Longrightarrow> filter (\<lambda>(k, v). k \<notin> S) m = []"
  by (auto simp: filter_empty_conv)

lemma map_of_append_None: "k \<notin> fst ` set m \<Longrightarrow> map_of (m @ n) k = map_of n k"
  by (simp add: map_add_dom_app_simps(3) dom_map_of_conv_image_fst)

lemma entry_type_from_str_str [simp]: "entry_type_from_str (entry_type_str t) = Some t"
  by (cases t) (simp_all add: entry_type_from_str_def)

lemma record_type_from_str_str [simp]: "record_type_from_str (record_type_str t) = Some t"
  by (cases t) (simp_all add: record_type_from_str_def)

lemma number_from_i64_round [simp]: "i64_range i \<Longrightarrow> number_as_i64 (number_from_i64 i) = Some i"
  by (auto simp: number_from_i64_def nat_less_iff)

lemma entry_keys_disjoint: "set (entry_payload_keys t) \<inter> set ENTRY_ENVELOPE_KEYS = {}"
  by (cases t) (simp_all add: ENTRY_ENVELOPE_KEYS_def)

lemma record_keys_disjoint: "set (record_payload_keys t) \<inter> set RECORD_ENVELOPE_KEYS = {}"
  by (cases t) (simp_all add: RECORD_ENVELOPE_KEYS_def)

text \<open>
  A line: envelope fields in front, payload fields, unknown fields, envelope fields behind, all
  with keys of their own. Reading it back gives the unknown fields, and every field by its key.
\<close>

definition line_shape ::
  "string list \<Rightarrow> string list \<Rightarrow> json_map \<Rightarrow> json_map \<Rightarrow> json_map \<Rightarrow> json_map \<Rightarrow> bool" where
  "line_shape env pay front fs extra tail \<longleftrightarrow>
     distinct (map fst (front @ tail)) \<and> fst ` set (front @ tail) \<subseteq> set env \<and>
     distinct (map fst fs) \<and> fst ` set fs \<subseteq> set pay \<and>
     distinct (map fst extra) \<and> fst ` set extra \<inter> (set env \<union> set pay) = {} \<and>
     set pay \<inter> set env = {}"

lemma line_shape_distinct:
  "line_shape env pay front fs extra tail \<Longrightarrow> distinct (map fst (front @ fs @ extra @ tail))"
  unfolding line_shape_def by (simp add: disjoint_iff) blast

lemma line_extra:
  assumes "line_shape env pay front fs extra tail"
  shows "extra_keys (front @ fs @ extra @ tail) env pay = extra"
proof -
  let ?p = "\<lambda>(k, v :: json). k \<notin> set env \<and> k \<notin> set pay"
  have "filter ?p front = []" "filter ?p fs = []" "filter ?p tail = []"
    using assms by (auto simp: line_shape_def filter_empty_conv)
  moreover have "filter ?p extra = extra"
    using assms by (auto simp: line_shape_def filter_id_conv disjoint_iff)
  ultimately show ?thesis
    using line_shape_distinct [OF assms] by (simp add: extra_keys_def extra_loop_distinct)
qed

lemma line_payload:
  assumes "line_shape env pay front fs extra tail" and "k \<in> set pay"
  shows "map_of (front @ fs @ extra @ tail) k = map_of fs k"
proof -
  have "k \<notin> fst ` set front" "k \<notin> fst ` set extra" "k \<notin> fst ` set tail"
    using assms by (auto simp: line_shape_def disjoint_iff)
  then show ?thesis
    by (simp add: map_add_def map_of_eq_None_iff [THEN iffD2] split: option.splits)
qed

lemma line_envelope:
  assumes "line_shape env pay front fs extra tail" and "k \<in> set env"
  shows "map_of (front @ fs @ extra @ tail) k = map_of (front @ tail) k"
proof -
  have "k \<notin> fst ` set fs" "k \<notin> fst ` set extra"
    using assms by (auto simp: line_shape_def disjoint_iff)
  then show ?thesis
    by (simp add: map_add_def map_of_eq_None_iff [THEN iffD2] split: option.splits)
qed

lemma map_extend_distinct: "distinct (map fst (m @ fs)) \<Longrightarrow> map_extend m fs = m @ fs"
  by (rule map_extend_fresh) auto

lemma line_extend:
  assumes "line_shape env pay front fs extra tail"
  shows "map_extend (map_extend front fs) extra = front @ fs @ extra"
    and "map_extend (front @ fs @ extra) tail = front @ fs @ extra @ tail"
proof -
  have d: "distinct (map fst (front @ fs @ extra @ tail))" by (rule line_shape_distinct [OF assms])
  from d have "distinct (map fst (front @ fs))" "distinct (map fst ((front @ fs) @ extra))"
    "distinct (map fst ((front @ fs @ extra) @ tail))" by auto
  note map_extend_distinct [OF this(1)] map_extend_distinct [OF this(2)]
    map_extend_distinct [OF this(3)]
  then show "map_extend (map_extend front fs) extra = front @ fs @ extra"
    and "map_extend (front @ fs @ extra) tail = front @ fs @ extra @ tail" by simp_all
qed

text \<open>
  What is asked of \<^verbatim>\<open>serde\<close>: the payload is written as an object over its own keys, and reading it
  depends only on these keys.
\<close>

definition serde_entry ::
  "(entry_payload \<Rightarrow> string + json) \<Rightarrow> (entry_type \<Rightarrow> json \<Rightarrow> string + entry_payload) \<Rightarrow>
   entry_payload \<Rightarrow> json_map \<Rightarrow> bool" where
  "serde_entry ser de p fs \<longleftrightarrow>
     ser p = Inr (JObject fs) \<and> distinct (map fst fs) \<and>
     fst ` set fs \<subseteq> set (entry_payload_keys (payload_entry_type p)) \<and>
     (\<forall>m. (\<forall>k\<in>set (entry_payload_keys (payload_entry_type p)). map_of m k = map_of fs k) \<longrightarrow>
        de (payload_entry_type p) (JObject m) = Inr p)"

definition serde_record ::
  "(record_payload \<Rightarrow> string + json) \<Rightarrow> (record_type \<Rightarrow> json \<Rightarrow> string + record_payload) \<Rightarrow>
   record_payload \<Rightarrow> json_map \<Rightarrow> bool" where
  "serde_record ser de p fs \<longleftrightarrow>
     ser p = Inr (JObject fs) \<and> distinct (map fst fs) \<and>
     fst ` set fs \<subseteq> set (record_payload_keys (payload_record_type p)) \<and>
     (\<forall>m. (\<forall>k\<in>set (record_payload_keys (payload_record_type p)). map_of m k = map_of fs k) \<longrightarrow>
        de (payload_record_type p) (JObject m) = Inr p)"

definition fresh_keys :: "string list \<Rightarrow> string list \<Rightarrow> json_map \<Rightarrow> bool" where
  "fresh_keys env pay extra \<longleftrightarrow>
     distinct (map fst extra) \<and> fst ` set extra \<inter> (set env \<union> set pay) = {}"

abbreviation entry_shape ::
  "json_map \<Rightarrow> json_map \<Rightarrow> json_map \<Rightarrow> json_map \<Rightarrow> entry_type \<Rightarrow> bool" where
  "entry_shape front fs extra tail t \<equiv>
     line_shape ENTRY_ENVELOPE_KEYS (entry_payload_keys t) front fs extra tail"

abbreviation record_shape ::
  "json_map \<Rightarrow> json_map \<Rightarrow> json_map \<Rightarrow> json_map \<Rightarrow> record_type \<Rightarrow> bool" where
  "record_shape front fs extra tail t \<equiv>
     line_shape RECORD_ENVELOPE_KEYS (record_payload_keys t) front fs extra tail"

lemma entry_shapeI:
  "\<lbrakk>serde_entry ser de p fs; fresh_keys ENTRY_ENVELOPE_KEYS (entry_payload_keys (payload_entry_type p)) extra;
    distinct (map fst (front @ tail)); fst ` set (front @ tail) \<subseteq> set ENTRY_ENVELOPE_KEYS\<rbrakk> \<Longrightarrow>
     entry_shape front fs extra tail (payload_entry_type p)"
  using entry_keys_disjoint by (simp add: line_shape_def serde_entry_def fresh_keys_def)

lemma record_shapeI:
  "\<lbrakk>serde_record ser de p fs; fresh_keys RECORD_ENVELOPE_KEYS (record_payload_keys (payload_record_type p)) extra;
    distinct (map fst (front @ tail)); fst ` set (front @ tail) \<subseteq> set RECORD_ENVELOPE_KEYS\<rbrakk> \<Longrightarrow>
     record_shape front fs extra tail (payload_record_type p)"
  using record_keys_disjoint by (simp add: line_shape_def serde_record_def fresh_keys_def)

lemma decode_provisioned_line:
  assumes "entry_shape front fs extra tail (payload_entry_type p)" and "serde_entry ser de p fs"
    and "map_of (front @ tail) ''id'' = Some (JString i)"
    and "map_of (front @ tail) ''type'' = Some (JString (entry_type_str (payload_entry_type p)))"
  shows "decode_provisioned_entry de (front @ fs @ extra @ tail) =
    Inr \<lparr>pe_id = i, pe_payload = p, pe_extra = extra\<rparr>"
proof -
  have "''id'' \<in> set ENTRY_ENVELOPE_KEYS" "''type'' \<in> set ENTRY_ENVELOPE_KEYS"
    by (simp_all add: ENTRY_ENVELOPE_KEYS_def)
  note look = this [THEN line_envelope [OF assms(1)]]
  have "de (payload_entry_type p) (JObject (front @ fs @ extra @ tail)) = Inr p"
    using assms(2) line_payload [OF assms(1)] unfolding serde_entry_def by blast
  then show ?thesis
    unfolding decode_provisioned_entry_def require_string_def look assms(3,4)
    by (simp add: line_extra [OF assms(1)])
qed

lemma decode_record_line:
  assumes "record_shape front fs extra tail (payload_record_type p)" and "serde_record ser de p fs"
    and "map_of (front @ tail) ''id'' = Some (JString i)"
    and "map_of (front @ tail) ''lane'' = Some (JString lane)"
    and "map_of (front @ tail) ''type'' = Some (JString (record_type_str (payload_record_type p)))"
  shows "decode_new_record de (front @ fs @ extra @ tail) =
    Inr \<lparr>nr_id = i, nr_lane = lane, nr_payload = p, nr_extra = extra\<rparr>"
proof -
  have "''id'' \<in> set RECORD_ENVELOPE_KEYS" "''lane'' \<in> set RECORD_ENVELOPE_KEYS"
    "''type'' \<in> set RECORD_ENVELOPE_KEYS"
    by (simp_all add: RECORD_ENVELOPE_KEYS_def)
  note look = this [THEN line_envelope [OF assms(1)]]
  have "de (payload_record_type p) (JObject (front @ fs @ extra @ tail)) = Inr p"
    using assms(2) line_payload [OF assms(1)] unfolding serde_record_def by blast
  then show ?thesis
    unfolding decode_new_record_def require_string_def look assms(3-5)
    by (simp add: line_extra [OF assms(1)])
qed

definition entry_tail :: "entry \<Rightarrow> json_map" where
  "entry_tail e =
     [(''parentId'', case e_parent_id e of Some i \<Rightarrow> JString i | None \<Rightarrow> JNull),
      (''seq'', JNumber (number_from_i64 (e_seq e))),
      (''timestamp'', JNumber (number_from_i64 (e_timestamp e)))]"

definition entry_front :: "entry \<Rightarrow> json_map" where
  "entry_front e = [(''type'', JString (entry_type_str (entry_type_of e))), (''id'', JString (e_id e))]"

definition record_tail :: "lane_record \<Rightarrow> json_map" where
  "record_tail r =
     [(''seq'', JNumber (number_from_i64 (r_seq r))),
      (''timestamp'', JNumber (number_from_i64 (r_timestamp r)))]"

definition record_front :: "lane_record \<Rightarrow> json_map" where
  "record_front r =
     [(''type'', JString (record_type_str (record_type_of r))), (''id'', JString (r_id r)),
      (''lane'', JString (r_lane r))]"

lemma map_extend_Cons: "map_extend m ((k, v) # fs) = map_extend (map_insert k v m) fs"
  by simp

lemma entry_to_map_line:
  assumes "serde_entry ser de (e_payload e) fs"
    and "fresh_keys ENTRY_ENVELOPE_KEYS (entry_payload_keys (entry_type_of e)) (e_extra e)"
  shows "entry_shape (entry_front e) fs (e_extra e) (entry_tail e) (entry_type_of e)"
    and "entry_to_map ser show_json e = Inr (entry_front e @ fs @ e_extra e @ entry_tail e)"
proof -
  have ser: "ser (e_payload e) = Inr (JObject fs)" using assms(1) by (simp add: serde_entry_def)
  show shape: "entry_shape (entry_front e) fs (e_extra e) (entry_tail e) (entry_type_of e)"
    unfolding entry_type_of_def
    by (rule entry_shapeI [OF assms(1)])
      (use assms(2) in \<open>simp_all add: entry_front_def entry_tail_def ENTRY_ENVELOPE_KEYS_def entry_type_of_def\<close>)
  from line_extend [OF shape]
  have ext: "map_extend (map_extend (entry_front e) fs) (e_extra e) = entry_front e @ fs @ e_extra e"
    and tail: "map_extend (entry_front e @ fs @ e_extra e) (entry_tail e) =
      entry_front e @ fs @ e_extra e @ entry_tail e" by auto
  have "provisioned_to_map ser show_json (to_provisioned e) = Inr (entry_front e @ fs @ e_extra e)"
    using ser ext
    by (simp add: provisioned_to_map_def write_entry_fields_def to_provisioned_def entry_front_def
        entry_type_of_def)
  then have "entry_to_map ser show_json e =
      Inr (map_extend (entry_front e @ fs @ e_extra e) (entry_tail e))"
    by (simp add: entry_to_map_def to_provisioned_def entry_tail_def Let_def)
  then show "entry_to_map ser show_json e = Inr (entry_front e @ fs @ e_extra e @ entry_tail e)"
    by (simp only: tail)
qed

lemma record_to_map_line:
  assumes "serde_record ser de (r_payload r) fs"
    and "fresh_keys RECORD_ENVELOPE_KEYS (record_payload_keys (record_type_of r)) (r_extra r)"
  shows "record_shape (record_front r) fs (r_extra r) (record_tail r) (record_type_of r)"
    and "lane_record_to_map ser show_json r = Inr (record_front r @ fs @ r_extra r @ record_tail r)"
proof -
  have ser: "ser (r_payload r) = Inr (JObject fs)" using assms(1) by (simp add: serde_record_def)
  show shape: "record_shape (record_front r) fs (r_extra r) (record_tail r) (record_type_of r)"
    unfolding record_type_of_def
    by (rule record_shapeI [OF assms(1)])
      (use assms(2) in \<open>simp_all add: record_front_def record_tail_def RECORD_ENVELOPE_KEYS_def record_type_of_def\<close>)
  from line_extend [OF shape]
  have ext: "map_extend (map_extend (record_front r) fs) (r_extra r) = record_front r @ fs @ r_extra r"
    and tail: "map_extend (record_front r @ fs @ r_extra r) (record_tail r) =
      record_front r @ fs @ r_extra r @ record_tail r" by auto
  have "new_record_to_map ser show_json
      \<lparr>nr_id = r_id r, nr_lane = r_lane r, nr_payload = r_payload r, nr_extra = r_extra r\<rparr> =
      Inr (record_front r @ fs @ r_extra r)"
    using ser ext
    by (simp add: new_record_to_map_def write_record_fields_def record_front_def record_type_of_def)
  then have "lane_record_to_map ser show_json r =
      Inr (map_extend (record_front r @ fs @ r_extra r) (record_tail r))"
    by (simp add: lane_record_to_map_def record_tail_def Let_def)
  then show "lane_record_to_map ser show_json r =
      Inr (record_front r @ fs @ r_extra r @ record_tail r)"
    by (simp only: tail)
qed

section \<open>Properties\<close>

text \<open>
  Entries survive the JSON form: writing an entry and reading the line back gives the same
  entry, unknown fields included, and the keys stand in the documented order (type, id, payload,
  unknown, parentId, seq, timestamp). Asked of \<^verbatim>\<open>serde\<close>: the payload is written as an object over its
  own keys, and reading depends only on these keys. Asked of the entry: unknown fields do not
  reuse a payload or envelope key, and the numbers are \<^verbatim>\<open>i64\<close>s.
\<close>

theorem entry_json_roundtrip:
  assumes "serde_entry ser de (e_payload e) fs"
    and "fresh_keys ENTRY_ENVELOPE_KEYS (entry_payload_keys (entry_type_of e)) (e_extra e)"
    and "i64_range (e_seq e)" "i64_range (e_timestamp e)"
  shows "\<exists>m. entry_to_map ser show_json e = Inr m \<and> decode_entry de m = Inr e \<and>
    map fst m = [''type'', ''id''] @ map fst fs @ map fst (e_extra e) @
      [''parentId'', ''seq'', ''timestamp'']"
proof -
  let ?m = "entry_front e @ fs @ e_extra e @ entry_tail e"
  note shape = entry_to_map_line(1) [OF assms(1,2)]
  have "decode_provisioned_entry de ?m = Inr (to_provisioned e)"
    unfolding to_provisioned_def
    by (rule decode_provisioned_line [OF shape [unfolded entry_type_of_def] assms(1)])
      (simp_all add: entry_front_def entry_tail_def entry_type_of_def)
  moreover have "map_of ?m k = map_of (entry_tail e) k"
    if "k \<in> {''parentId'', ''seq'', ''timestamp''}" for k
    using line_envelope [OF shape, of k] that
    by (auto simp: ENTRY_ENVELOPE_KEYS_def entry_front_def entry_tail_def)
  ultimately have "decode_entry de ?m = Inr e"
    using assms(3,4)
    by (cases "e_parent_id e")
      (simp_all add: decode_entry_def require_i64_def require_nullable_string_def
        to_provisioned_def entry_tail_def)
  with entry_to_map_line(2) [OF assms(1,2)] show ?thesis
    by (intro exI [of _ ?m]) (simp add: entry_front_def entry_tail_def)
qed

text \<open>A payload codec for the witness: a model change written as two strings.\<close>

definition demo_ser :: "entry_payload \<Rightarrow> string + json" where
  "demo_ser p =
     (case p of
        EPModelChange c \<Rightarrow>
          Inr (JObject [(''provider'', JString (mc_provider c)), (''modelId'', JString (mc_model_id c))])
      | _ \<Rightarrow> Inl ''unsupported'')"

definition demo_de :: "entry_type \<Rightarrow> json \<Rightarrow> string + entry_payload" where
  "demo_de t j =
     (case j of
        JObject m \<Rightarrow>
          res_bind (require_string m ''provider'') (\<lambda>p.
          res_bind (require_string m ''modelId'') (\<lambda>i.
            Inr (EPModelChange \<lparr>mc_provider = p, mc_model_id = i\<rparr>)))
      | _ \<Rightarrow> Inl ''not an object'')"

theorem entry_json_roundtrip_witness:
  "\<exists>m. entry_to_map demo_ser (\<lambda>_. [])
       \<lparr>e_id = ''e1'', e_seq = 3, e_parent_id = Some ''e0'', e_timestamp = 9,
        e_payload = EPModelChange \<lparr>mc_provider = ''p'', mc_model_id = ''m''\<rparr>,
        e_extra = [(''future'', JBool True)]\<rparr> = Inr m \<and>
     decode_entry demo_de m = Inr
       \<lparr>e_id = ''e1'', e_seq = 3, e_parent_id = Some ''e0'', e_timestamp = 9,
        e_payload = EPModelChange \<lparr>mc_provider = ''p'', mc_model_id = ''m''\<rparr>,
        e_extra = [(''future'', JBool True)]\<rparr> \<and>
     map fst m = [''type'', ''id'', ''provider'', ''modelId'', ''future'', ''parentId'', ''seq'',
       ''timestamp'']"
  using entry_json_roundtrip [of demo_ser demo_de
      "\<lparr>e_id = ''e1'', e_seq = 3, e_parent_id = Some ''e0'', e_timestamp = 9,
        e_payload = EPModelChange \<lparr>mc_provider = ''p'', mc_model_id = ''m''\<rparr>,
        e_extra = [(''future'', JBool True)]\<rparr>"
      "[(''provider'', JString ''p''), (''modelId'', JString ''m'')]" "\<lambda>_. []"]
  by (simp add: serde_entry_def fresh_keys_def demo_ser_def demo_de_def require_string_def
      entry_type_of_def ENTRY_ENVELOPE_KEYS_def)

text \<open>
  Records survive the JSON form in the same sense: the line read back is the record, unknown
  fields included, with the keys in the documented order (type, id, lane, payload, unknown, seq,
  timestamp).
\<close>

theorem record_json_roundtrip:
  assumes "serde_record ser de (r_payload r) fs"
    and "fresh_keys RECORD_ENVELOPE_KEYS (record_payload_keys (record_type_of r)) (r_extra r)"
    and "i64_range (r_seq r)" "i64_range (r_timestamp r)"
  shows "\<exists>m. lane_record_to_map ser show_json r = Inr m \<and> decode_lane_record de m = Inr r \<and>
    map fst m = [''type'', ''id'', ''lane''] @ map fst fs @ map fst (r_extra r) @
      [''seq'', ''timestamp'']"
proof -
  let ?m = "record_front r @ fs @ r_extra r @ record_tail r"
  note shape = record_to_map_line(1) [OF assms(1,2)]
  have "decode_new_record de ?m =
      Inr \<lparr>nr_id = r_id r, nr_lane = r_lane r, nr_payload = r_payload r, nr_extra = r_extra r\<rparr>"
    by (rule decode_record_line [OF shape [unfolded record_type_of_def] assms(1)])
      (simp_all add: record_front_def record_tail_def record_type_of_def)
  moreover have "map_of ?m k = map_of (record_tail r) k" if "k \<in> {''seq'', ''timestamp''}" for k
    using line_envelope [OF shape, of k] that
    by (auto simp: RECORD_ENVELOPE_KEYS_def record_front_def record_tail_def)
  ultimately have "decode_lane_record de ?m = Inr r"
    using assms(3,4) by (simp add: decode_lane_record_def require_i64_def record_tail_def)
  with record_to_map_line(2) [OF assms(1,2)] show ?thesis
    by (intro exI [of _ ?m]) (simp add: record_front_def record_tail_def)
qed

definition demo_record_ser :: "record_payload \<Rightarrow> string + json" where
  "demo_record_ser p =
     (case p of
        RPAbortRequested a \<Rightarrow> Inr (JObject [(''runId'', JString (ab_run_id a))])
      | _ \<Rightarrow> Inl ''unsupported'')"

definition demo_record_de :: "record_type \<Rightarrow> json \<Rightarrow> string + record_payload" where
  "demo_record_de t j =
     (case j of
        JObject m \<Rightarrow>
          res_bind (require_string m ''runId'') (\<lambda>i. Inr (RPAbortRequested \<lparr>ab_run_id = i\<rparr>))
      | _ \<Rightarrow> Inl ''not an object'')"

theorem record_json_roundtrip_witness:
  "\<exists>m. lane_record_to_map demo_record_ser (\<lambda>_. [])
       \<lparr>r_id = ''r1'', r_seq = 4, r_lane = ''main'', r_timestamp = 9,
        r_payload = RPAbortRequested \<lparr>ab_run_id = ''o1''\<rparr>, r_extra = [(''note'', JNull)]\<rparr> = Inr m \<and>
     decode_lane_record demo_record_de m = Inr
       \<lparr>r_id = ''r1'', r_seq = 4, r_lane = ''main'', r_timestamp = 9,
        r_payload = RPAbortRequested \<lparr>ab_run_id = ''o1''\<rparr>, r_extra = [(''note'', JNull)]\<rparr> \<and>
     map fst m = [''type'', ''id'', ''lane'', ''runId'', ''note'', ''seq'', ''timestamp'']"
  using record_json_roundtrip [of demo_record_ser demo_record_de
      "\<lparr>r_id = ''r1'', r_seq = 4, r_lane = ''main'', r_timestamp = 9,
        r_payload = RPAbortRequested \<lparr>ab_run_id = ''o1''\<rparr>, r_extra = [(''note'', JNull)]\<rparr>"
      "[(''runId'', JString ''o1'')]" "\<lambda>_. []"]
  by (simp add: serde_record_def fresh_keys_def demo_record_ser_def demo_record_de_def
      require_string_def record_type_of_def RECORD_ENVELOPE_KEYS_def)

end
