(* ===== verification/Session_Storage.thy ===== *)
theory Session_Storage
  imports Session_Fork Session_Json
begin

text \<open>
  Storage backends and session handles: the traits of \<^verbatim>\<open>pi-rs/crates/pi-session/src/repo.rs\<close>, the
  in-memory backend \<^verbatim>\<open>memory.rs\<close> and the handle \<^verbatim>\<open>session.rs\<close>. The trait object
  \<^verbatim>\<open>Arc<dyn SessionStorage>\<close> is the record \<open>session_storage\<close> of its methods over a storage state \<open>'s\<close>;
  each method runs under the backend's lock, so it is one step from state to state, and an error
  leaves the state as it was. The clock \<^verbatim>\<open>now_ms()\<close>, a fresh id of the id generator and \<^verbatim>\<open>serde\<close>'s
  payload codec are arguments.
\<close>

section \<open>The storage interface\<close>

record 's session_storage =
  so_append_entry :: "int \<Rightarrow> provisioned_entry \<Rightarrow> string \<Rightarrow> 's \<Rightarrow> ('s \<times> entry) session_result"
  so_append_record :: "int \<Rightarrow> new_record \<Rightarrow> 's \<Rightarrow> ('s \<times> lane_record) session_result"
  so_get_entry :: "string \<Rightarrow> 's \<Rightarrow> entry option session_result"
  so_find_entries :: "entry_query \<Rightarrow> 's \<Rightarrow> entry list session_result"
  so_find_records :: "record_query \<Rightarrow> 's \<Rightarrow> lane_record list session_result"
  so_find_open_operations :: "string \<Rightarrow> int option \<Rightarrow> 's \<Rightarrow> lane_record list session_result"
  so_get_log :: "log_options \<Rightarrow> 's \<Rightarrow> log_item list session_result"
  so_get_stats :: "'s \<Rightarrow> session_stats session_result"
  so_get_name :: "'s \<Rightarrow> string option session_result"
  so_set_name :: "string option \<Rightarrow> 's \<Rightarrow> 's session_result"
  so_get_label :: "string \<Rightarrow> 's \<Rightarrow> string option session_result"
  so_set_label :: "string \<Rightarrow> string option \<Rightarrow> 's \<Rightarrow> 's session_result"
  so_get_lanes :: "'s \<Rightarrow> lane_pointer list session_result"
  so_create_lane :: "string \<Rightarrow> string option \<Rightarrow> 's \<Rightarrow> 's session_result"
  so_move_lane :: "string \<Rightarrow> string option \<Rightarrow> 's \<Rightarrow> 's session_result"
  so_find_entries_on_branch :: "bound_branch_query \<Rightarrow> 's \<Rightarrow> entry list session_result"
  so_get_metadata :: "'s \<Rightarrow> session_metadata session_result"

section \<open>The in-memory backend\<close>

record in_memory_storage =
  im_metadata :: session_metadata
  im_state :: session_state

definition in_memory_new :: "session_metadata \<Rightarrow> in_memory_storage" where
  "in_memory_new metadata = \<lparr>im_metadata = metadata, im_state = session_state_new\<rparr>"

text \<open>Running a mutation on the locked state.\<close>

definition im_apply :: "session_mutation \<Rightarrow> in_memory_storage \<Rightarrow> in_memory_storage session_result" where
  "im_apply m st = res_bind (apply_mutation m (im_state st)) (\<lambda>s. Inr (st\<lparr>im_state := s\<rparr>))"

definition im_append_entry ::
  "int \<Rightarrow> provisioned_entry \<Rightarrow> string \<Rightarrow> in_memory_storage \<Rightarrow>
   (in_memory_storage \<times> entry) session_result" where
  "im_append_entry now e lane st =
     res_bind (require_lane (im_state st) lane) (\<lambda>parent_id.
     res_bind (validate_unused_id (im_state st) (pe_id e)) (\<lambda>_.
       let committed =
         \<lparr>e_id = pe_id e, e_seq = next_sequence (im_state st), e_parent_id = parent_id,
          e_timestamp = now, e_payload = pe_payload e, e_extra = pe_extra e\<rparr>
       in res_bind (im_apply (SMEntry (Some lane) committed) st) (\<lambda>st. Inr (st, committed))))"

definition im_append_record ::
  "int \<Rightarrow> new_record \<Rightarrow> in_memory_storage \<Rightarrow> (in_memory_storage \<times> lane_record) session_result" where
  "im_append_record now r st =
     res_bind (require_lane (im_state st) (nr_lane r)) (\<lambda>_.
     res_bind (validate_unused_id (im_state st) (nr_id r)) (\<lambda>_.
     res_bind (check_single_open_operation (im_state st) r) (\<lambda>_.
       let committed =
         \<lparr>r_id = nr_id r, r_seq = next_sequence (im_state st), r_lane = nr_lane r,
          r_timestamp = now, r_payload = nr_payload r, r_extra = nr_extra r\<rparr>
       in res_bind (im_apply (SMRecord committed) st) (\<lambda>st. Inr (st, committed)))))"

definition im_set_name ::
  "string option \<Rightarrow> in_memory_storage \<Rightarrow> in_memory_storage session_result" where
  "im_set_name name st = im_apply (SMName (next_sequence (im_state st)) name) st"

definition im_set_label ::
  "string \<Rightarrow> string option \<Rightarrow> in_memory_storage \<Rightarrow> in_memory_storage session_result" where
  "im_set_label i label st =
     res_bind (validate_target (im_state st) (Some i)) (\<lambda>_.
       im_apply (SMLabel (next_sequence (im_state st)) i label) st)"

definition im_create_lane ::
  "string \<Rightarrow> string option \<Rightarrow> in_memory_storage \<Rightarrow> in_memory_storage session_result" where
  "im_create_lane lane at_id st =
     res_bind (validate_new_lane (im_state st) lane) (\<lambda>_.
     res_bind (validate_target (im_state st) at_id) (\<lambda>_.
       im_apply (SMLane (next_sequence (im_state st)) lane at_id) st))"

definition im_move_lane ::
  "string \<Rightarrow> string option \<Rightarrow> in_memory_storage \<Rightarrow> in_memory_storage session_result" where
  "im_move_lane lane to_id st =
     res_bind (require_lane (im_state st) lane) (\<lambda>_.
     res_bind (validate_target (im_state st) to_id) (\<lambda>_.
       im_apply (SMLane (next_sequence (im_state st)) lane to_id) st))"

definition im_fork ::
  "session_metadata \<Rightarrow> fork_options \<Rightarrow> in_memory_storage \<Rightarrow> in_memory_storage session_result" where
  "im_fork metadata options st =
     res_bind (create_fork_mutations (im_state st) options) (\<lambda>mutations.
     res_bind (apply_mutations mutations (im_state (in_memory_new metadata))) (\<lambda>s.
       Inr ((in_memory_new metadata)\<lparr>im_state := s\<rparr>)))"

definition in_memory_session_storage :: "in_memory_storage session_storage" where
  "in_memory_session_storage =
     \<lparr>so_append_entry = im_append_entry,
      so_append_record = im_append_record,
      so_get_entry = (\<lambda>i st. Inr (get_entry (im_state st) i)),
      so_find_entries = (\<lambda>q st. find_entries (im_state st) q),
      so_find_records = (\<lambda>q st. find_records (im_state st) q),
      so_find_open_operations = (\<lambda>lane limit st. find_open_operations (im_state st) lane limit),
      so_get_log = (\<lambda>opts st. get_log (im_state st) opts),
      so_get_stats = (\<lambda>st. Inr (get_stats (im_state st))),
      so_get_name = (\<lambda>st. Inr (get_name (im_state st))),
      so_set_name = im_set_name,
      so_get_label = (\<lambda>i st. Inr (get_label (im_state st) i)),
      so_set_label = im_set_label,
      so_get_lanes = (\<lambda>st. Inr (get_lanes (im_state st))),
      so_create_lane = im_create_lane,
      so_move_lane = im_move_lane,
      so_find_entries_on_branch = (\<lambda>q st. find_entries_on_branch (im_state st) q),
      so_get_metadata = (\<lambda>st. Inr (im_metadata st))\<rparr>"

section \<open>The in-memory repository\<close>

type_synonym in_memory_repo = "(string \<times> in_memory_storage) list"

definition require_storage :: "in_memory_repo \<Rightarrow> string \<Rightarrow> in_memory_storage session_result" where
  "require_storage repo i =
     ok_or (map_option snd (find (\<lambda>(candidate, _). candidate = i) repo))
       (NotFound (''Session not found: '' @ i))"

definition repo_insert ::
  "string \<Rightarrow> in_memory_storage \<Rightarrow> in_memory_repo \<Rightarrow> in_memory_repo session_result" where
  "repo_insert i st repo =
     (if list_ex (\<lambda>(candidate, _). candidate = i) repo
      then Inl (AlreadyExists (''Session already exists: '' @ i))
      else Inr (repo @ [(i, st)]))"

text \<open>\<open>fresh\<close> is the id \<^verbatim>\<open>uuidv7\<close> would give when the caller chooses none.\<close>

definition repo_create ::
  "int \<Rightarrow> string \<Rightarrow> session_create_options \<Rightarrow> in_memory_repo \<Rightarrow>
   (in_memory_repo \<times> in_memory_storage) session_result" where
  "repo_create now fresh options repo =
     (let i = (case sc_id options of Some i \<Rightarrow> i | None \<Rightarrow> fresh) in
      if list_ex (\<lambda>(candidate, _). candidate = i) repo
      then Inl (AlreadyExists (''Session already exists: '' @ i))
      else
        let metadata = (session_metadata_new i now)
              \<lparr>sm_parent_session_id := sc_parent_session_id options\<rparr>;
            st = in_memory_new metadata
        in res_bind (repo_insert i st repo) (\<lambda>repo. Inr (repo, st)))"

definition repo_open :: "session_metadata \<Rightarrow> in_memory_repo \<Rightarrow> in_memory_storage session_result" where
  "repo_open metadata repo = require_storage repo (sm_id metadata)"

definition repo_list :: "in_memory_repo \<Rightarrow> session_metadata list" where
  "repo_list repo = map (\<lambda>(_, st). im_metadata st) repo"

definition repo_delete :: "session_metadata \<Rightarrow> in_memory_repo \<Rightarrow> in_memory_repo" where
  "repo_delete metadata repo = filter (\<lambda>(i, _). i \<noteq> sm_id metadata) repo"

definition repo_fork ::
  "int \<Rightarrow> string \<Rightarrow> session_metadata \<Rightarrow> fork_options \<Rightarrow> session_create_options \<Rightarrow> in_memory_repo \<Rightarrow>
   (in_memory_repo \<times> in_memory_storage) session_result" where
  "repo_fork now fresh source options create repo =
     res_bind (require_storage repo (sm_id source)) (\<lambda>source_storage.
       let i = (case sc_id create of Some i \<Rightarrow> i | None \<Rightarrow> fresh) in
       if list_ex (\<lambda>(candidate, _). candidate = i) repo
       then Inl (AlreadyExists (''Session already exists: '' @ i))
       else
         let metadata = (session_metadata_new i now)
               \<lparr>sm_parent_session_id :=
                  (case sc_parent_session_id create of
                     Some p \<Rightarrow> Some p | None \<Rightarrow> Some (sm_id source))\<rparr>
         in res_bind (im_fork metadata options source_storage) (\<lambda>st.
              res_bind (repo_insert i st repo) (\<lambda>repo. Inr (repo, st))))"

section \<open>The session handle\<close>

text \<open>\<open>serde\<close>'s part of \<^verbatim>\<open>serde_json::to_value\<close>, for entry and record payloads.\<close>

record durable_codec =
  dc_entry :: "entry_payload \<Rightarrow> string + json"
  dc_record :: "record_payload \<Rightarrow> string + json"
  dc_show :: "json \<Rightarrow> string"

definition leaf_id_for_lane :: "'s session_storage \<Rightarrow> string \<Rightarrow> 's \<Rightarrow> string option session_result" where
  "leaf_id_for_lane ops lane s =
     res_bind (so_get_lanes ops s) (\<lambda>lanes.
       ok_or (map_option lp_leaf_id (find (\<lambda>p. lp_lane p = lane) lanes))
         (InvalidLane (''Lane not found: '' @ lane)))"

definition session_append_entry ::
  "durable_codec \<Rightarrow> 's session_storage \<Rightarrow> int \<Rightarrow> provisioned_entry \<Rightarrow> string \<Rightarrow> 's \<Rightarrow>
   ('s \<times> entry) session_result" where
  "session_append_entry codec ops now e lane s =
     res_bind (assert_entry_payload_is_durable (pe_payload e)) (\<lambda>_.
     res_bind (map_err (\<lambda>err. InvalidPayload (''Durable payload is not serializable: '' @ err))
       (provisioned_to_map (dc_entry codec) (dc_show codec) e)) (\<lambda>m.
     res_bind (assert_json_serializable (JObject m)) (\<lambda>_.
       so_append_entry ops now e lane s)))"

definition session_append_record ::
  "durable_codec \<Rightarrow> 's session_storage \<Rightarrow> int \<Rightarrow> new_record \<Rightarrow> 's \<Rightarrow>
   ('s \<times> lane_record) session_result" where
  "session_append_record codec ops now r s =
     res_bind (assert_record_payload_is_durable (nr_payload r)) (\<lambda>_.
     res_bind (map_err (\<lambda>err. InvalidPayload (''Durable payload is not serializable: '' @ err))
       (new_record_to_map (dc_record codec) (dc_show codec) r)) (\<lambda>m.
     res_bind (assert_json_serializable (JObject m)) (\<lambda>_.
       so_append_record ops now r s)))"

definition append_message ::
  "durable_codec \<Rightarrow> 's session_storage \<Rightarrow> int \<Rightarrow> string \<Rightarrow> string \<Rightarrow> agent_message \<Rightarrow> 's \<Rightarrow>
   ('s \<times> string) session_result" where
  "append_message codec ops now fresh lane m s =
     res_bind (session_append_entry codec ops now (provisioned_message fresh m) lane s)
       (\<lambda>(s, e). Inr (s, e_id e))"

definition append_custom_entry ::
  "durable_codec \<Rightarrow> 's session_storage \<Rightarrow> int \<Rightarrow> string \<Rightarrow> string \<Rightarrow> string \<Rightarrow> json option \<Rightarrow> 's \<Rightarrow>
   ('s \<times> string) session_result" where
  "append_custom_entry codec ops now fresh lane custom_type data s =
     res_bind (session_append_entry codec ops now (provisioned_custom fresh custom_type data) lane s)
       (\<lambda>(s, e). Inr (s, e_id e))"

definition resolve_branch_query ::
  "'s session_storage \<Rightarrow> string \<Rightarrow> branch_query \<Rightarrow> int option \<Rightarrow> 's \<Rightarrow>
   bound_branch_query option session_result" where
  "resolve_branch_query ops lane q result_limit s =
     res_bind (branch_query_validate q) (\<lambda>_.
     res_bind (case b_start (bq_bounds q) of
                 Some start \<Rightarrow> Inr (Some start) | None \<Rightarrow> leaf_id_for_lane ops lane s) (\<lambda>start.
       case start of
         None \<Rightarrow> Inr None
       | Some start \<Rightarrow>
           let bound = branch_query_resolve q start in
           Inr (Some (case result_limit of
                        None \<Rightarrow> bound
                      | Some l \<Rightarrow> bound\<lparr>bb_query := (bb_query bound)\<lparr>q_limit := Some l\<rparr>\<rparr>))))"

definition session_find_entries ::
  "'s session_storage \<Rightarrow> entry_query \<Rightarrow> 's \<Rightarrow> entry list session_result" where
  "session_find_entries ops q s = res_bind (entry_query_validate q) (\<lambda>_. so_find_entries ops q s)"

definition session_find_entry ::
  "'s session_storage \<Rightarrow> entry_query \<Rightarrow> 's \<Rightarrow> entry option session_result" where
  "session_find_entry ops q s =
     res_bind (entry_query_validate q) (\<lambda>_.
     res_bind (so_find_entries ops (q\<lparr>q_limit := Some 1\<rparr>) s) (\<lambda>es.
       Inr (case es of [] \<Rightarrow> None | e # _ \<Rightarrow> Some e)))"

definition session_find_entries_on_branch ::
  "'s session_storage \<Rightarrow> string \<Rightarrow> branch_query \<Rightarrow> 's \<Rightarrow> entry list session_result" where
  "session_find_entries_on_branch ops lane q s =
     res_bind (resolve_branch_query ops lane q None s) (\<lambda>bound.
       case bound of
         Some bound \<Rightarrow> so_find_entries_on_branch ops bound s | None \<Rightarrow> Inr [])"

definition session_find_entry_on_branch ::
  "'s session_storage \<Rightarrow> string \<Rightarrow> branch_query \<Rightarrow> 's \<Rightarrow> entry option session_result" where
  "session_find_entry_on_branch ops lane q s =
     res_bind (resolve_branch_query ops lane q (Some 1) s) (\<lambda>bound.
       case bound of
         Some bound \<Rightarrow>
           res_bind (so_find_entries_on_branch ops bound s) (\<lambda>es.
             Inr (case es of [] \<Rightarrow> None | e # _ \<Rightarrow> Some e))
       | None \<Rightarrow> Inr None)"

definition session_find_records ::
  "'s session_storage \<Rightarrow> record_query \<Rightarrow> 's \<Rightarrow> lane_record list session_result" where
  "session_find_records ops q s =
     res_bind (record_query_validate q) (\<lambda>_.
       if rq_operation_kind q \<noteq> None \<and> rq_record_type q \<noteq> Some RTOperationStarted
       then Inl (InvalidQuery ''operationKind requires type \"operation_started\"'')
       else so_find_records ops q s)"

definition session_find_open_operations ::
  "'s session_storage \<Rightarrow> string \<Rightarrow> int option \<Rightarrow> 's \<Rightarrow> lane_record list session_result" where
  "session_find_open_operations ops lane limit s =
     res_bind (validate_limit limit) (\<lambda>_. so_find_open_operations ops lane limit s)"

definition session_get_log ::
  "'s session_storage \<Rightarrow> log_options \<Rightarrow> 's \<Rightarrow> log_item list session_result" where
  "session_get_log ops opts s =
     res_bind (log_options_validate opts) (\<lambda>_. so_get_log ops opts s)"

section \<open>The contract of a backend\<close>

text \<open>
  What a session handle relies on: the backend keeps, for every lane, a branch of entries (newest
  first); appending succeeds exactly on an existing lane with an unused id, puts the entry in
  front of that lane's branch and leaves the other branches alone; the lanes list and the
  branch query report these branches.
\<close>

locale session_backend =
  fixes ops :: "'s session_storage"
    and inv :: "'s \<Rightarrow> bool"
    and has_lane :: "'s \<Rightarrow> string \<Rightarrow> bool"
    and id_used :: "'s \<Rightarrow> string \<Rightarrow> bool"
    and branch :: "'s \<Rightarrow> string \<Rightarrow> entry list"
  assumes append_total:
      "inv s \<Longrightarrow> (\<exists>s' c. so_append_entry ops now e lane s = Inr (s', c)) \<longleftrightarrow>
         has_lane s lane \<and> \<not> id_used s (pe_id e)"
    and append_effect:
      "\<lbrakk>inv s; so_append_entry ops now e lane s = Inr (s', c)\<rbrakk> \<Longrightarrow>
         inv s' \<and> to_provisioned c = e \<and>
         (\<forall>l. branch s' l = (if l = lane then c # branch s l else branch s l)) \<and>
         (\<forall>l. has_lane s' l \<longleftrightarrow> has_lane s l) \<and>
         (\<forall>i. id_used s' i \<longleftrightarrow> id_used s i \<or> i = pe_id e)"
    and lanes_report:
      "inv s \<Longrightarrow> leaf_id_for_lane ops lane s =
         (if has_lane s lane
          then Inr (case branch s lane of [] \<Rightarrow> None | e # _ \<Rightarrow> Some (e_id e))
          else Inl (InvalidLane (''Lane not found: '' @ lane)))"
    and branch_report:
      "\<lbrakk>inv s; branch s lane = x # xs\<rbrakk> \<Longrightarrow>
         so_find_entries_on_branch ops
           ((bound_branch_query_new (e_id x))\<lparr>bb_query := entry_query_default\<lparr>q_order := ord\<rparr>\<rparr>) s =
           Inr (in_order ord (rev (branch s lane)))"
begin

lemma transcript:
  assumes "inv s" and "has_lane s lane"
  shows "session_find_entries_on_branch ops lane
    \<lparr>bq_query = entry_query_default\<lparr>q_order := ord\<rparr>, bq_bounds = branch_bounds_default\<rparr> s =
    Inr (in_order ord (rev (branch s lane)))"
proof -
  have valid: "branch_query_validate
      \<lparr>bq_query = entry_query_default\<lparr>q_order := ord\<rparr>, bq_bounds = branch_bounds_default\<rparr> = Inr ()"
    by (simp add: branch_query_validate_def entry_query_validate_def entry_query_default_def
        validate_limit_def validate_cursor_def)
  show ?thesis
  proof (cases "branch s lane")
    case Nil
    with assms lanes_report [OF assms(1), of lane] valid show ?thesis
      by (simp add: session_find_entries_on_branch_def resolve_branch_query_def
          branch_bounds_default_def in_order_def split: option.splits entry_order.splits)
  next
    case (Cons e es)
    with assms lanes_report [OF assms(1), of lane] valid branch_report [OF assms(1) Cons, of ord]
    show ?thesis
      by (simp add: session_find_entries_on_branch_def resolve_branch_query_def
          branch_bounds_default_def branch_query_resolve_def bound_branch_query_new_def)
  qed
qed

end

section \<open>Writing a transcript\<close>

text \<open>A client that appends messages to a lane, each under a fresh id.\<close>

fun append_messages ::
  "durable_codec \<Rightarrow> 's session_storage \<Rightarrow> int \<Rightarrow> string \<Rightarrow> (string \<times> agent_message) list \<Rightarrow> 's \<Rightarrow>
   's session_result" where
  "append_messages codec ops now lane [] s = Inr s"
| "append_messages codec ops now lane ((fresh, m) # ms) s =
     res_bind (append_message codec ops now fresh lane m s)
       (\<lambda>(s, _). append_messages codec ops now lane ms s)"

text \<open>What the handle asks of a message before it reaches the backend.\<close>

definition message_durable :: "durable_codec \<Rightarrow> string \<Rightarrow> agent_message \<Rightarrow> bool" where
  "message_durable codec fresh m \<longleftrightarrow>
     assert_entry_payload_is_durable (pe_payload (provisioned_message fresh m)) = Inr () \<and>
     (\<exists>fs. provisioned_to_map (dc_entry codec) (dc_show codec) (provisioned_message fresh m) = Inr fs \<and>
        assert_json_serializable (JObject fs) = Inr ())"

definition entry_message :: "entry \<Rightarrow> agent_message option" where
  "entry_message e = map_option me_message (as_message e)"

context session_backend
begin

lemma append_message_durable:
  "message_durable codec fresh m \<Longrightarrow>
     append_message codec ops now fresh lane m s =
       res_bind (so_append_entry ops now (provisioned_message fresh m) lane s)
         (\<lambda>(s, e). Inr (s, e_id e))"
  by (auto simp: message_durable_def append_message_def session_append_entry_def)

lemma append_messages_ok:
  assumes "inv s" and "has_lane s lane" and "distinct (map fst ms)"
    and "\<And>i. i \<in> fst ` set ms \<Longrightarrow> \<not> id_used s i"
    and "\<And>i m. (i, m) \<in> set ms \<Longrightarrow> message_durable codec i m"
  shows "\<exists>s' es. append_messages codec ops now lane ms s = Inr s' \<and> inv s' \<and>
    (\<forall>l. branch s' l = (if l = lane then es @ branch s l else branch s l)) \<and>
    (\<forall>l. has_lane s' l \<longleftrightarrow> has_lane s l) \<and>
    map e_id (rev es) = map fst ms \<and> map entry_message (rev es) = map (\<lambda>(i, m). Some m) ms"
  using assms
proof (induction ms arbitrary: s)
  case Nil
  then show ?case by (intro exI [of _ s] exI [of _ "[]"]) simp
next
  case (Cons p ms)
  obtain i m where p: "p = (i, m)" by fastforce
  have "pe_id (provisioned_message i m) = i"
    by (simp add: provisioned_message_def provisioned_entry_new_def)
  with Cons.prems(2,4) p append_total [OF Cons.prems(1)] obtain s1 c
    where app: "so_append_entry ops now (provisioned_message i m) lane s = Inr (s1, c)"
    by fastforce
  note eff = append_effect [OF Cons.prems(1) app]
  have c: "e_id c = i" "entry_message c = Some m"
    using eff by (auto simp: to_provisioned_def provisioned_message_def provisioned_entry_new_def
        entry_message_def as_message_def)
  have fresh: "\<And>j. j \<in> fst ` set ms \<Longrightarrow> \<not> id_used s1 j"
    using Cons.prems(3,4) eff p \<open>pe_id (provisioned_message i m) = i\<close> by auto
  obtain s' es where ih: "append_messages codec ops now lane ms s1 = Inr s'" "inv s'"
    "\<forall>l. branch s' l = (if l = lane then es @ branch s1 l else branch s1 l)"
    "\<forall>l. has_lane s' l \<longleftrightarrow> has_lane s1 l"
    "map e_id (rev es) = map fst ms" "map entry_message (rev es) = map (\<lambda>(i, m). Some m) ms"
    using Cons.IH [of s1] eff Cons.prems(2,3,5) fresh by auto
  have "append_message codec ops now i lane m s = Inr (s1, e_id c)"
    using append_message_durable [of codec i m now lane s] Cons.prems(5) p app by simp
  with ih eff c p show ?case by (intro exI [of _ s'] exI [of _ "es @ [c]"]) simp
qed

lemma append_messages_transcript:
  assumes "inv s" and "has_lane s lane" and "distinct (map fst ms)"
    and "\<And>i. i \<in> fst ` set ms \<Longrightarrow> \<not> id_used s i"
    and "\<And>i m. (i, m) \<in> set ms \<Longrightarrow> message_durable codec i m"
  shows "\<exists>s' es. append_messages codec ops now lane ms s = Inr s' \<and>
    session_find_entries_on_branch ops lane
      \<lparr>bq_query = entry_query_default\<lparr>q_order := Some OldestFirst\<rparr>,
       bq_bounds = branch_bounds_default\<rparr> s' = Inr (rev (branch s lane) @ es) \<and>
    map e_id es = map fst ms \<and> map entry_message es = map (\<lambda>(i, m). Some m) ms"
proof -
  from append_messages_ok [OF assms, of now] obtain s' es where
    ok0: "append_messages codec ops now lane ms s = Inr s'" "inv s'"
    "\<forall>l. branch s' l = (if l = lane then es @ branch s l else branch s l)"
    "\<forall>l. has_lane s' l \<longleftrightarrow> has_lane s l"
    and ok1: "map e_id (rev es) = map fst ms" "map entry_message (rev es) = map (\<lambda>(i, m). Some m) ms"
    by blast
  have ok: "append_messages codec ops now lane ms s = Inr s'" "inv s'"
    "branch s' lane = es @ branch s lane" "has_lane s' lane"
    using ok0 assms(2) by simp_all
  from transcript [OF ok(2,4), of "Some OldestFirst"] ok ok1 show ?thesis
    by (intro exI [of _ s'] exI [of _ "rev es"]) (simp add: in_order_def)
qed

end

section \<open>The in-memory backend keeps the contract\<close>

abbreviation im_inv :: "in_memory_storage \<Rightarrow> bool" where
  "im_inv st \<equiv> state_wf (im_state st)"

definition im_has_lane :: "in_memory_storage \<Rightarrow> string \<Rightarrow> bool" where
  "im_has_lane st lane \<longleftrightarrow> lane \<in> lp_lane ` set (ss_lanes (im_state st))"

definition im_id_used :: "in_memory_storage \<Rightarrow> string \<Rightarrow> bool" where
  "im_id_used st i \<longleftrightarrow> i \<in> ss_used_ids (im_state st)"

definition lane_branch :: "session_state \<Rightarrow> string \<Rightarrow> entry list" where
  "lane_branch s lane =
     (case lane_slot s lane of
        None \<Rightarrow> []
      | Some p \<Rightarrow> (case lp_leaf_id p of None \<Rightarrow> [] | Some i \<Rightarrow> branch_ref s i))"

definition im_branch :: "in_memory_storage \<Rightarrow> string \<Rightarrow> entry list" where
  "im_branch st lane = lane_branch (im_state st) lane"

lemma require_lane_cases:
  "require_lane s lane =
     (case lane_slot s lane of
        None \<Rightarrow> Inl (InvalidLane (''Lane not found: '' @ lane)) | Some p \<Rightarrow> Inr (lp_leaf_id p))"
  by (simp add: require_lane_def split: option.splits)

lemma lane_slot_in:
  assumes "lane_slot s lane = Some p"
  shows "p \<in> set (ss_lanes s) \<and> lp_lane p = lane"
  using find_SomeD [OF assms [unfolded lane_slot_def]] .

lemma lane_leaf_in:
  "\<lbrakk>state_wf s; lane_slot s lane = Some p; lp_leaf_id p = Some i\<rbrakk> \<Longrightarrow> i \<in> entry_ids s"
  using lane_slot_in [of s lane p] unfolding state_wf_def lanes_wf_def by blast

lemma im_append_entry_eq:
  assumes "state_wf (im_state st)"
  shows "im_append_entry now e lane st =
    (case lane_slot (im_state st) lane of
       None \<Rightarrow> Inl (InvalidLane (''Lane not found: '' @ lane))
     | Some p \<Rightarrow>
         if pe_id e \<in> ss_used_ids (im_state st)
         then Inl (AlreadyExists (''Session id already exists: '' @ pe_id e))
         else
           let c = \<lparr>e_id = pe_id e, e_seq = ss_sequence (im_state st) + 1,
                    e_parent_id = lp_leaf_id p, e_timestamp = now, e_payload = pe_payload e,
                    e_extra = pe_extra e\<rparr>
           in res_bind (apply_entry (Some lane) c (im_state st))
                (\<lambda>s. Inr (st\<lparr>im_state := s\<rparr>, c)))"
  by (simp add: im_append_entry_def require_lane_cases validate_unused_id_def im_apply_def
      apply_mutation.simps next_sequence_def Let_def res_bind_assoc split: option.splits)

lemma apply_entry_accepts:
  assumes "state_wf s" and "lane_slot s lane = Some p" and "e_id c \<notin> ss_used_ids s"
    and "e_parent_id c = lp_leaf_id p"
  shows "\<exists>s'. apply_entry (Some lane) c s = Inr s'"
proof -
  have "\<forall>i. e_parent_id c = Some i \<longrightarrow> ss_entries_by_id s i \<noteq> None"
    using lane_leaf_in [OF assms(1,2)] assms(4) state_wf_index [OF assms(1)] by metis
  with assms show ?thesis unfolding apply_entry_Inr_iff by auto
qed

lemma branch_ref_snoc:
  "ss_entries s' = ss_entries s @ [c] \<Longrightarrow>
     branch_ref s' i =
       (if i = e_id c
        then c # (case e_parent_id c of None \<Rightarrow> [] | Some p \<Rightarrow> branch_ref s p)
        else branch_ref s i)"
  by (auto simp: branch_ref_def split: option.splits)

lemma lane_slot_apply_entry:
  assumes "lane_slot s lane = Some p" and "apply_entry (Some lane) c s = Inr s'"
  shows "lane_slot s' l =
    (if l = lane then Some (p\<lparr>lp_leaf_id := Some (e_id c)\<rparr>) else lane_slot s l)"
  using assms by (auto simp: lane_slot_def apply_entry_Inr_iff lane_slot_set_leaf)

lemma lane_branch_apply_entry:
  assumes wf: "state_wf s" and p: "lane_slot s lane = Some p"
    and step: "apply_entry (Some lane) c s = Inr s'"
  shows "lane_branch s' l = (if l = lane then c # lane_branch s l else lane_branch s l)"
proof -
  from step have ents: "ss_entries s' = ss_entries s @ [c]" and new: "e_id c \<notin> entry_ids s"
    and parent: "e_parent_id c = lp_leaf_id p"
    using p state_wf_used [OF wf] by (auto simp: apply_entry_Inr_iff)
  show ?thesis
  proof (cases "l = lane")
    case True
    with ents parent p lane_slot_apply_entry [OF p step] show ?thesis
      by (simp add: lane_branch_def branch_ref_snoc)
  next
    case False
    have "i \<noteq> e_id c" if "lane_slot s l = Some q" "lp_leaf_id q = Some i" for q i
      using lane_leaf_in [OF wf that] new by blast
    with False ents lane_slot_apply_entry [OF p step] show ?thesis
      by (auto simp: lane_branch_def branch_ref_snoc split: option.splits)
  qed
qed

lemma im_append_effect:
  assumes wf: "im_inv st" and app: "im_append_entry now e lane st = Inr (st', c)"
  shows "im_inv st' \<and> to_provisioned c = e \<and>
    (\<forall>l. im_branch st' l = (if l = lane then c # im_branch st l else im_branch st l)) \<and>
    (\<forall>l. im_has_lane st' l \<longleftrightarrow> im_has_lane st l) \<and>
    (\<forall>i. im_id_used st' i \<longleftrightarrow> im_id_used st i \<or> i = pe_id e)"
proof -
  obtain p where p: "lane_slot (im_state st) lane = Some p"
    using app by (cases "lane_slot (im_state st) lane") (auto simp: im_append_entry_eq [OF wf])
  with app have c: "c = \<lparr>e_id = pe_id e, e_seq = ss_sequence (im_state st) + 1,
        e_parent_id = lp_leaf_id p, e_timestamp = now, e_payload = pe_payload e,
        e_extra = pe_extra e\<rparr>"
    and step: "apply_entry (Some lane) c (im_state st) = Inr (im_state st')"
    by (auto simp: im_append_entry_eq [OF wf] Let_def result_simps split: if_splits)
  have "apply_mutation (SMEntry (Some lane) c) (im_state st) = Inr (im_state st')"
    using step c by (simp add: apply_mutation_SMEntry)
  with wf have "im_inv st'" by (rule state_wf_mutation)
  moreover have "im_has_lane st' l \<longleftrightarrow> im_has_lane st l" for l
    using step by (auto simp: im_has_lane_def apply_entry_Inr_iff)
  moreover have "im_id_used st' i \<longleftrightarrow> im_id_used st i \<or> i = pe_id e" for i
    using step c by (auto simp: im_id_used_def apply_entry_Inr_iff)
  ultimately show ?thesis
    using lane_branch_apply_entry [OF wf p step] c by (simp add: im_branch_def to_provisioned_def)
qed

interpretation memory: session_backend in_memory_session_storage im_inv im_has_lane im_id_used
  im_branch
proof (unfold_locales, goal_cases)
  case (1 s now e lane)
  have slot: "lane_slot (im_state s) lane = None \<longleftrightarrow> \<not> im_has_lane s lane"
    by (simp add: lane_slot_None im_has_lane_def)
  show ?case
  proof (cases "lane_slot (im_state s) lane")
    case None
    with slot 1 show ?thesis by (simp add: in_memory_session_storage_def im_append_entry_eq)
  next
    case (Some p)
    then show ?thesis
      using slot 1 apply_entry_accepts [OF 1 Some]
      by (auto simp: in_memory_session_storage_def im_append_entry_eq im_id_used_def Let_def
          result_simps)
  qed
next
  case (2 s now e lane s' c)
  then show ?case by (intro im_append_effect) (simp_all add: in_memory_session_storage_def)
next
  case (3 s lane)
  have slot: "lane_slot (im_state s) lane = None \<longleftrightarrow> \<not> im_has_lane s lane"
    by (simp add: lane_slot_None im_has_lane_def)
  have "leaf_id_for_lane in_memory_session_storage lane s = require_lane (im_state s) lane"
    by (simp add: leaf_id_for_lane_def in_memory_session_storage_def require_lane_def get_lanes_def
        lane_slot_def)
  moreover have "(case branch_ref (im_state s) i of [] \<Rightarrow> None | e # _ \<Rightarrow> Some (e_id e)) = Some i"
    if "lane_slot (im_state s) lane = Some p" "lp_leaf_id p = Some i" for p i
    using branch_ref_ne [OF 3 lane_leaf_in [OF 3 that]]
    by (cases "branch_ref (im_state s) i") auto
  ultimately show ?case
    using slot
    by (auto simp: require_lane_cases im_branch_def lane_branch_def split: option.splits)
next
  case (4 s lane x xs ord)
  then obtain p i where p: "lane_slot (im_state s) lane = Some p" "lp_leaf_id p = Some i"
    and br: "branch_ref (im_state s) i = x # xs" "im_branch s lane = branch_ref (im_state s) i"
    by (auto simp: im_branch_def lane_branch_def split: option.splits)
  have i: "i \<in> entry_ids (im_state s)" by (rule lane_leaf_in [OF 4(1) p])
  with branch_ref_ne [OF 4(1)] br have "e_id x = i" by fastforce
  with i br show ?case
    by (simp add: in_memory_session_storage_def find_entries_on_branch_spec [OF 4(1)]
        bound_branch_query_new_def branch_bounds_default_def entry_query_validate_def
        entry_query_default_def validate_limit_def validate_cursor_def limit_take_def
        matches_entry_query_def in_order_def is_oldest_first_def order_or_default_def
        split: option.splits entry_order.splits)
qed

section \<open>Backends in use\<close>

text \<open>The states of an in-memory session: created or forked, then any sequence of writes.\<close>

inductive im_reachable :: "in_memory_storage \<Rightarrow> bool" where
  imr_new: "im_reachable (in_memory_new metadata)"
| imr_fork: "\<lbrakk>im_reachable st; im_fork metadata options st = Inr st'\<rbrakk> \<Longrightarrow> im_reachable st'"
| imr_entry: "\<lbrakk>im_reachable st; im_append_entry now e lane st = Inr (st', c)\<rbrakk> \<Longrightarrow> im_reachable st'"
| imr_record: "\<lbrakk>im_reachable st; im_append_record now r st = Inr (st', c)\<rbrakk> \<Longrightarrow> im_reachable st'"
| imr_name: "\<lbrakk>im_reachable st; im_set_name name st = Inr st'\<rbrakk> \<Longrightarrow> im_reachable st'"
| imr_label: "\<lbrakk>im_reachable st; im_set_label i label st = Inr st'\<rbrakk> \<Longrightarrow> im_reachable st'"
| imr_create: "\<lbrakk>im_reachable st; im_create_lane lane at_id st = Inr st'\<rbrakk> \<Longrightarrow> im_reachable st'"
| imr_move: "\<lbrakk>im_reachable st; im_move_lane lane to_id st = Inr st'\<rbrakk> \<Longrightarrow> im_reachable st'"

definition single_open :: "session_state \<Rightarrow> bool" where
  "single_open s \<longleftrightarrow> (\<forall>lane. length (open_ref lane (ss_records s)) \<le> 1)"

lemma im_apply_Inr:
  "im_apply m st = Inr st' \<longleftrightarrow>
     (\<exists>s. apply_mutation m (im_state st) = Inr s \<and> st' = st\<lparr>im_state := s\<rparr>)"
  by (auto simp: im_apply_def result_simps)

lemma apply_mutation_records:
  "\<lbrakk>apply_mutation m s = Inr s'; \<And>r. m \<noteq> SMRecord r\<rbrakk> \<Longrightarrow> ss_records s' = ss_records s"
  by (cases m)
    (auto simp: apply_mutation_Inr apply_entry_Inr_iff apply_lane_Inr_iff apply_name_def
      apply_label_def split: if_splits)

lemma open_operation_id_None:
  "open_operation_id s lane = None \<longleftrightarrow> lane_open s lane = []"
  by (auto simp: open_operation_id_def lane_open_def split: option.splits prod.splits)

lemma single_open_record:
  assumes wf: "state_wf (im_state st)" and one: "single_open (im_state st)"
    and app: "im_append_record now r st = Inr (st', c)"
  shows "state_wf (im_state st') \<and> single_open (im_state st')"
proof -
  from app have chk: "check_single_open_operation (im_state st) r = Inr ()"
    and step: "apply_mutation (SMRecord c) (im_state st) = Inr (im_state st')"
    and c: "r_lane c = nr_lane r" "r_payload c = nr_payload r"
    by (auto simp: im_append_record_def result_simps im_apply_Inr Let_def)
  have recs: "ss_records (im_state st') = ss_records (im_state st) @ [c]"
    using step by (simp add: apply_mutation_SMRecord apply_record_effect)
  have opn: "lane_open (im_state st) lane = open_ref lane (ss_records (im_state st))" for lane
    using wf by (simp add: state_wf_def open_wf_def)
  have "length (open_ref lane (ss_records (im_state st'))) \<le> 1" for lane
  proof (cases "starts_in lane c")
    case True
    then have "open_operation_id (im_state st) lane = None"
      using chk c by (auto simp: starts_in_def record_type_of_def check_single_open_operation_def
          split: record_payload.splits option.splits)
    with True opn show ?thesis by (simp add: recs open_ref_snoc open_operation_id_None)
  next
    case False
    have "length (filter q (open_ref lane (ss_records (im_state st)))) \<le> 1" for q
      using one length_filter_le [of q "open_ref lane (ss_records (im_state st))"]
      by (metis single_open_def le_trans)
    with False show ?thesis by (simp add: recs open_ref_snoc)
  qed
  with state_wf_mutation [OF wf step] show ?thesis by (simp add: single_open_def)
qed

lemma im_write_keeps:
  assumes "state_wf (im_state st)" "single_open (im_state st)"
    and "im_apply m st = Inr st'" and "\<And>r. m \<noteq> SMRecord r"
  shows "state_wf (im_state st') \<and> single_open (im_state st')"
  using assms state_wf_mutation [OF assms(1)] apply_mutation_records [OF _ assms(4)]
  by (auto simp: im_apply_Inr single_open_def)

lemma im_fork_keeps:
  assumes "state_wf (im_state st)" and "im_fork metadata options st = Inr st'"
  shows "state_wf (im_state st') \<and> single_open (im_state st')"
proof -
  from assms(2) obtain ms s where ms: "create_fork_mutations (im_state st) options = Inr ms"
    "apply_mutations ms session_state_new = Inr s" "st' = (in_memory_new metadata)\<lparr>im_state := s\<rparr>"
    by (auto simp: im_fork_def result_simps in_memory_new_def)
  obtain es ps where "fork_contents (im_state st) options = Inr (es, ps)"
    using ms(1) by (auto simp: create_fork_mutations_def result_simps)
  from replay_fork [OF assms(1) this ms(1)] ms(2) have "ss_records s = []" by auto
  with state_wf_mutations [OF state_wf_new ms(2)] ms(3) show ?thesis by (simp add: single_open_def)
qed

lemma im_reachable_keeps: "im_reachable st \<Longrightarrow> state_wf (im_state st) \<and> single_open (im_state st)"
proof (induction rule: im_reachable.induct)
  case (imr_new metadata)
  then show ?case by (simp add: in_memory_new_def state_wf_new single_open_def)
next
  case (imr_fork st metadata options st')
  then show ?case by (intro im_fork_keeps) auto
next
  case (imr_entry st now e lane st' c)
  then show ?case
    by (auto simp: im_append_entry_def result_simps Let_def intro: im_write_keeps [THEN conjunct1]
        im_write_keeps [THEN conjunct2])
next
  case (imr_record st now r st' c)
  then show ?case by (intro single_open_record) auto
qed (auto simp: im_set_name_def im_set_label_def im_create_lane_def im_move_lane_def result_simps
    intro: im_write_keeps [THEN conjunct1] im_write_keeps [THEN conjunct2])

section \<open>Properties\<close>

lemma demo_append_start:
  "\<exists>st c. im_append_record 5 (new_record_new ''o1'' ''main'' demo_start)
       (in_memory_new (session_metadata_new ''s'' 0)) = Inr (st, c)"
  by (simp add: im_append_record_def in_memory_new_def session_state_new_def require_lane_def
        lane_slot_def new_record_new_def validate_unused_id_def check_single_open_operation_def
        demo_start_def open_operation_id_def im_apply_def apply_mutation.simps apply_record_def
        next_sequence_def Let_def)

text \<open>
  C2. One operation at a time: in every state an in-memory session can be in, whatever was written
  to it or forked from it, the session invariant holds and no lane has more than one operation
  that was started and not finished.
\<close>

theorem single_open_operation:
  assumes "im_reachable st"
  shows "state_wf (im_state st) \<and> (\<forall>lane. length (open_ref lane (ss_records (im_state st))) \<le> 1)"
  using im_reachable_keeps [OF assms] by (simp add: single_open_def)

theorem single_open_operation_witness:
  "\<exists>st c. im_append_record 5 (new_record_new ''o1'' ''main'' demo_start)
       (in_memory_new (session_metadata_new ''s'' 0)) = Inr (st, c) \<and>
     state_wf (im_state st) \<and> (\<forall>lane. length (open_ref lane (ss_records (im_state st))) \<le> 1)"
proof -
  obtain st c where app: "im_append_record 5 (new_record_new ''o1'' ''main'' demo_start)
       (in_memory_new (session_metadata_new ''s'' 0)) = Inr (st, c)" using demo_append_start by blast
  with single_open_operation [OF im_reachable.imr_record [OF im_reachable.imr_new app]]
  show ?thesis by blast
qed

text \<open>
  A transcript reads back as it was written: appending messages to an existing lane under
  fresh distinct ids succeeds, and the branch query of a handle on that lane then returns the
  former transcript followed by exactly these messages in order.
\<close>

theorem append_messages_read_back:
  assumes "state_wf (im_state st)" and "lane \<in> lp_lane ` set (ss_lanes (im_state st))"
    and "distinct (map fst ms)" and "\<And>i. i \<in> fst ` set ms \<Longrightarrow> i \<notin> ss_used_ids (im_state st)"
    and "\<And>i m. (i, m) \<in> set ms \<Longrightarrow> message_durable codec i m"
  shows "\<exists>st' es. append_messages codec in_memory_session_storage now lane ms st = Inr st' \<and>
    session_find_entries_on_branch in_memory_session_storage lane
      \<lparr>bq_query = entry_query_default\<lparr>q_order := Some OldestFirst\<rparr>,
       bq_bounds = branch_bounds_default\<rparr> st' =
      Inr (rev (lane_branch (im_state st) lane) @ es) \<and>
    map e_id es = map fst ms \<and> map entry_message es = map (\<lambda>(i, m). Some m) ms"
  using memory.append_messages_transcript [of st lane ms codec now] assms
  unfolding im_has_lane_def im_id_used_def im_branch_def by blast

definition demo_codec :: durable_codec where
  "demo_codec =
     \<lparr>dc_entry = (\<lambda>p. case p of
        EPMessage m \<Rightarrow> Inr (JObject [(''message'', JString (role (me_message m)))])
      | _ \<Rightarrow> Inr (JObject [])),
      dc_record = (\<lambda>_. Inr (JObject [])), dc_show = (\<lambda>_. [])\<rparr>"

lemma demo_user_durable:
  "message_durable demo_codec i (AUser \<lparr>um_content = UCText t, um_timestamp = 0\<rparr>)"
  by (simp add: message_durable_def demo_codec_def provisioned_message_def provisioned_entry_new_def
      assert_entry_payload_is_durable_def provisioned_to_map_def write_entry_fields_def
      assert_json_serializable_def)

definition demo_messages :: "(string \<times> agent_message) list" where
  "demo_messages =
     [(''a'', AUser \<lparr>um_content = UCText ''hi'', um_timestamp = 0\<rparr>),
      (''b'', AUser \<lparr>um_content = UCText ''there'', um_timestamp = 0\<rparr>)]"

definition demo_storage :: in_memory_storage where
  "demo_storage = in_memory_new (session_metadata_new ''s'' 0)"

theorem append_messages_read_back_witness:
  "\<exists>st' es. append_messages demo_codec in_memory_session_storage 3 ''main'' demo_messages
       demo_storage = Inr st' \<and>
     session_find_entries_on_branch in_memory_session_storage ''main''
       \<lparr>bq_query = entry_query_default\<lparr>q_order := Some OldestFirst\<rparr>,
        bq_bounds = branch_bounds_default\<rparr> st' = Inr es \<and> map e_id es = map fst demo_messages"
proof -
  have wf: "state_wf (im_state demo_storage)"
    by (simp add: demo_storage_def in_memory_new_def state_wf_new)
  have lane: "''main'' \<in> lp_lane ` set (ss_lanes (im_state demo_storage))"
    by (simp add: demo_storage_def in_memory_new_def session_state_new_def)
  have empty: "lane_branch (im_state demo_storage) ''main'' = []"
    by (simp add: demo_storage_def in_memory_new_def session_state_new_def lane_branch_def
        lane_slot_def)
  have dist: "distinct (map fst demo_messages)" by (simp add: demo_messages_def)
  have unused: "i \<notin> ss_used_ids (im_state demo_storage)" for i
    by (simp add: demo_storage_def in_memory_new_def)
  have dur: "message_durable demo_codec i m" if "(i, m) \<in> set demo_messages" for i m
    using that by (auto simp: demo_messages_def demo_user_durable)
  show ?thesis
    using append_messages_read_back [OF wf lane dist unused dur, of 3] empty by auto
qed

lemma im_append_record_total:
  assumes "state_wf (im_state st)"
  shows "(\<exists>r. im_append_record now rec st = Inr r) \<longleftrightarrow>
    nr_lane rec \<in> lp_lane ` set (ss_lanes (im_state st)) \<and>
    nr_id rec \<notin> ss_used_ids (im_state st) \<and>
    (payload_record_type (nr_payload rec) \<noteq> RTOperationStarted \<or>
     open_ref (nr_lane rec) (ss_records (im_state st)) = [])"
proof (cases "lane_slot (im_state st) (nr_lane rec)")
  case None
  moreover have "nr_lane rec \<notin> lp_lane ` set (ss_lanes (im_state st))"
    using lane_slot_None [of "im_state st" "nr_lane rec"] None by simp
  ultimately show ?thesis by (simp add: im_append_record_def require_lane_cases)
next
  case (Some p)
  have "open_operation_id (im_state st) (nr_lane rec) = None \<longleftrightarrow>
      open_ref (nr_lane rec) (ss_records (im_state st)) = []"
    using assms by (simp add: open_operation_id_None state_wf_def open_wf_def)
  then have chk: "check_single_open_operation (im_state st) rec = Inr () \<longleftrightarrow>
      payload_record_type (nr_payload rec) \<noteq> RTOperationStarted \<or>
      open_ref (nr_lane rec) (ss_records (im_state st)) = []"
    by (cases "nr_payload rec") (auto simp: check_single_open_operation_def split: option.splits)
  have "nr_lane rec \<in> lp_lane ` set (ss_lanes (im_state st))"
    using lane_slot_None [of "im_state st" "nr_lane rec"] Some by simp
  with Some show ?thesis
    unfolding chk [symmetric]
    by (auto simp: im_append_record_def require_lane_cases validate_unused_id_def result_simps
        im_apply_def apply_mutation.simps apply_record_def next_sequence_def Let_def)
qed

text \<open>
  C32. Writes fail only for the documented reasons. On a well-formed session each write succeeds
  exactly when its documented precondition holds, and an error carries one of the documented
  codes: the checks in front make the replayed mutation always acceptable.
\<close>

theorem im_writes_total:
  assumes "state_wf (im_state st)"
  shows "((\<exists>r. im_append_entry now e lane st = Inr r) \<longleftrightarrow>
       lane \<in> lp_lane ` set (ss_lanes (im_state st)) \<and> pe_id e \<notin> ss_used_ids (im_state st)) \<and>
    ((\<exists>r. im_append_record now rec st = Inr r) \<longleftrightarrow>
       nr_lane rec \<in> lp_lane ` set (ss_lanes (im_state st)) \<and>
       nr_id rec \<notin> ss_used_ids (im_state st) \<and>
       (payload_record_type (nr_payload rec) \<noteq> RTOperationStarted \<or>
        open_ref (nr_lane rec) (ss_records (im_state st)) = [])) \<and>
    (\<exists>r. im_set_name name st = Inr r) \<and>
    ((\<exists>r. im_set_label i label st = Inr r) \<longleftrightarrow> i \<in> entry_ids (im_state st)) \<and>
    ((\<exists>r. im_create_lane lane target st = Inr r) \<longleftrightarrow>
       lane \<notin> lp_lane ` set (ss_lanes (im_state st)) \<and>
       (target = None \<or> the target \<in> entry_ids (im_state st))) \<and>
    ((\<exists>r. im_move_lane lane target st = Inr r) \<longleftrightarrow>
       lane \<in> lp_lane ` set (ss_lanes (im_state st)) \<and>
       (target = None \<or> the target \<in> entry_ids (im_state st)))"
proof (intro conjI)
  let ?s = "im_state st"
  have idx: "ss_entries_by_id ?s j = None \<longleftrightarrow> j \<notin> entry_ids ?s" for j
    using state_wf_index [OF assms, of j] by blast
  have slot: "lane_slot ?s l = None \<longleftrightarrow> l \<notin> lp_lane ` set (ss_lanes ?s)" for l
    by (rule lane_slot_None)
  show "(\<exists>r. im_append_entry now e lane st = Inr r) \<longleftrightarrow>
      lane \<in> lp_lane ` set (ss_lanes ?s) \<and> pe_id e \<notin> ss_used_ids ?s"
    using memory.append_total [OF assms, of now e lane]
    by (auto simp: in_memory_session_storage_def im_has_lane_def im_id_used_def)
  show "(\<exists>r. im_append_record now rec st = Inr r) \<longleftrightarrow>
       nr_lane rec \<in> lp_lane ` set (ss_lanes ?s) \<and> nr_id rec \<notin> ss_used_ids ?s \<and>
       (payload_record_type (nr_payload rec) \<noteq> RTOperationStarted \<or>
        open_ref (nr_lane rec) (ss_records ?s) = [])"
    by (rule im_append_record_total [OF assms])
  show "\<exists>r. im_set_name name st = Inr r"
    by (simp add: im_set_name_def im_apply_def apply_mutation.simps apply_name_def next_sequence_def
        Let_def)
  show "(\<exists>r. im_set_label i label st = Inr r) \<longleftrightarrow> i \<in> entry_ids ?s"
    using idx [of i]
    by (auto simp: im_set_label_def validate_target_def im_apply_def apply_mutation.simps
        apply_label_def next_sequence_def Let_def)
  show "(\<exists>r. im_create_lane lane target st = Inr r) \<longleftrightarrow>
      lane \<notin> lp_lane ` set (ss_lanes ?s) \<and> (target = None \<or> the target \<in> entry_ids ?s)"
    using idx slot [of lane]
    by (cases target)
      (auto simp: im_create_lane_def validate_new_lane_def validate_target_def im_apply_def
        apply_mutation.simps apply_lane_def next_sequence_def Let_def split: option.splits)
  show "(\<exists>r. im_move_lane lane target st = Inr r) \<longleftrightarrow>
      lane \<in> lp_lane ` set (ss_lanes ?s) \<and> (target = None \<or> the target \<in> entry_ids ?s)"
    using idx slot [of lane]
    by (cases target)
      (auto simp: im_move_lane_def require_lane_cases validate_target_def im_apply_def
        apply_mutation.simps apply_lane_def next_sequence_def Let_def split: option.splits)
qed

theorem im_writes_total_witness:
  "(\<exists>r. im_set_label ''a'' None
      ((in_memory_new (session_metadata_new ''s'' 0))\<lparr>im_state := demo_state\<rparr>) = Inr r)"
  using im_writes_total [of "(in_memory_new (session_metadata_new ''s'' 0))\<lparr>im_state := demo_state\<rparr>"]
  by (simp add: demo_wf demo_entries demo_entry_def)

end
