(* ===== verification/Session_Jsonl.thy ===== *)
theory Session_Jsonl
  imports Session_Storage
begin

text \<open>
  The line codec of session files, \<^verbatim>\<open>pi-rs/crates/pi-session/src/jsonl/codec.rs\<close>: one JSON object and
  a newline per mutation, after a header line. The record \<open>jsonl_codec\<close> holds what \<^verbatim>\<open>serde\<close> supplies:
  the payload codecs, \<^verbatim>\<open>serde_json::to_string\<close> on a map (\<open>jc_print\<close>) and \<^verbatim>\<open>serde_json::from_str\<close>
  (\<open>jc_parse\<close>, \<open>None\<close> for a syntax error).
\<close>

section \<open>Decoding errors\<close>

datatype jsonl_decode_error_kind = JSyntax | JSchema

record jsonl_decode_error =
  je_kind :: jsonl_decode_error_kind
  je_message :: string

definition jsonl_syntax :: "string \<Rightarrow> jsonl_decode_error" where
  "jsonl_syntax m = \<lparr>je_kind = JSyntax, je_message = m\<rparr>"

definition jsonl_schema :: "string \<Rightarrow> jsonl_decode_error" where
  "jsonl_schema m = \<lparr>je_kind = JSchema, je_message = m\<rparr>"

definition invalid_file :: "string \<Rightarrow> nat \<Rightarrow> jsonl_decode_error \<Rightarrow> session_error" where
  "invalid_file path line cause =
     InvalidEntry (''Invalid JSONL v4 session '' @ path @ '': line '' @ show_nat line @ '' '' @
       je_message cause)"

type_synonym 'a jsonl_result = "jsonl_decode_error + 'a"

section \<open>Fields\<close>

record jsonl_codec = durable_codec +
  jc_de_entry :: "entry_type \<Rightarrow> json \<Rightarrow> string + entry_payload"
  jc_de_record :: "record_type \<Rightarrow> json \<Rightarrow> string + record_payload"
  jc_print :: "json_map \<Rightarrow> string + string"
  jc_parse :: "string \<Rightarrow> json option"

definition json_as_i64 :: "json option \<Rightarrow> int option" where
  "json_as_i64 j = (case j of Some (JNumber n) \<Rightarrow> number_as_i64 n | _ \<Rightarrow> None)"

definition json_as_u64 :: "json option \<Rightarrow> nat option" where
  "json_as_u64 j = (case j of Some (JNumber n) \<Rightarrow> number_as_u64 n | _ \<Rightarrow> None)"

definition json_as_str :: "json option \<Rightarrow> string option" where
  "json_as_str j = (case j of Some (JString s) \<Rightarrow> Some s | _ \<Rightarrow> None)"

definition parse_object :: "jsonl_codec \<Rightarrow> string \<Rightarrow> json_map jsonl_result" where
  "parse_object codec line =
     (case jc_parse codec line of
        None \<Rightarrow> Inl (jsonl_syntax ''is not valid JSON'')
      | Some (JObject m) \<Rightarrow> Inr m
      | Some _ \<Rightarrow> Inl (jsonl_schema ''is not a JSON object''))"

definition field_string :: "json_map \<Rightarrow> string \<Rightarrow> string \<Rightarrow> string jsonl_result" where
  "field_string m key field =
     (case map_of m key of
        Some (JString value) \<Rightarrow> Inr value
      | _ \<Rightarrow> Inl (jsonl_schema (''has invalid '' @ field)))"

definition optional_string :: "json_map \<Rightarrow> string \<Rightarrow> string \<Rightarrow> string option jsonl_result" where
  "optional_string m key field =
     (case map_of m key of
        None \<Rightarrow> Inr None
      | Some (JString value) \<Rightarrow> Inr (Some value)
      | Some _ \<Rightarrow> Inl (jsonl_schema (''has invalid '' @ field)))"

definition require_sequence :: "json_map \<Rightarrow> int jsonl_result" where
  "require_sequence m =
     (case json_as_i64 (map_of m ''seq'') of
        Some sq \<Rightarrow> if sq > 0 then Inr sq else Inl (jsonl_schema ''has invalid seq'')
      | None \<Rightarrow> Inl (jsonl_schema ''has invalid seq''))"

definition require_timestamp :: "json_map \<Rightarrow> int jsonl_result" where
  "require_timestamp m =
     (case json_as_i64 (map_of m ''timestamp'') of
        Some t \<Rightarrow> if t \<ge> 0 then Inr t else Inl (jsonl_schema ''has invalid timestamp'')
      | None \<Rightarrow> Inl (jsonl_schema ''has invalid timestamp''))"

definition require_nullable_id :: "json_map \<Rightarrow> string \<Rightarrow> string \<Rightarrow> string option jsonl_result" where
  "require_nullable_id m key field =
     (case map_of m key of
        Some (JString value) \<Rightarrow> Inr (Some value)
      | Some JNull \<Rightarrow> Inr None
      | _ \<Rightarrow> Inl (jsonl_schema (''has invalid '' @ field)))"

section \<open>The header\<close>

record jsonl_v4_header =
  jh_kind :: string
  jh_version :: nat
  jh_id :: string
  jh_created_at :: int
  jh_cwd :: string
  jh_parent_session_id :: "string option"
  jh_legacy_parent_session_path :: "string option"
  jh_metadata :: "json_map option"

definition jsonl_header_new :: "string \<Rightarrow> int \<Rightarrow> string \<Rightarrow> jsonl_v4_header" where
  "jsonl_header_new i created_at cwd =
     \<lparr>jh_kind = ''header'', jh_version = 4, jh_id = i, jh_created_at = created_at, jh_cwd = cwd,
      jh_parent_session_id = None, jh_legacy_parent_session_path = None, jh_metadata = None\<rparr>"

definition optional_field :: "string \<Rightarrow> json option \<Rightarrow> json_map" where
  "optional_field key v = (case v of None \<Rightarrow> [] | Some j \<Rightarrow> [(key, j)])"

text \<open>The derived \<^verbatim>\<open>Serialize\<close> of the struct: camel-case keys in field order, absent options left out.\<close>

definition header_to_map :: "jsonl_v4_header \<Rightarrow> json_map" where
  "header_to_map h =
     [(''kind'', JString (jh_kind h)), (''version'', JNumber (number_from_i64 (int (jh_version h)))),
      (''id'', JString (jh_id h)), (''createdAt'', JNumber (number_from_i64 (jh_created_at h))),
      (''cwd'', JString (jh_cwd h))] @
     optional_field ''parentSessionId'' (map_option JString (jh_parent_session_id h)) @
     optional_field ''legacyParentSessionPath''
       (map_option JString (jh_legacy_parent_session_path h)) @
     optional_field ''metadata'' (map_option JObject (jh_metadata h))"

definition parse_header :: "jsonl_codec \<Rightarrow> string \<Rightarrow> jsonl_v4_header jsonl_result" where
  "parse_header codec line =
     res_bind (parse_object codec line) (\<lambda>m.
     if json_as_str (map_of m ''kind'') \<noteq> Some ''header''
     then Inl (jsonl_schema ''is not a header'')
     else if json_as_u64 (map_of m ''version'') \<noteq> Some 4
     then Inl (jsonl_schema ''has unsupported session version'')
     else
     res_bind (optional_string m ''parentSessionId'' ''parentSessionId'') (\<lambda>parent_session_id.
     res_bind (optional_string m ''legacyParentSessionPath'' ''legacyParentSessionPath'') (\<lambda>legacy.
     if parent_session_id \<noteq> None \<and> legacy \<noteq> None
     then Inl (jsonl_schema ''has both parentSessionId and legacyParentSessionPath'')
     else
     res_bind (case map_of m ''metadata'' of
                 None \<Rightarrow> Inr None
               | Some (JObject metadata) \<Rightarrow> Inr (Some metadata)
               | Some _ \<Rightarrow> Inl (jsonl_schema ''has invalid metadata'')) (\<lambda>metadata.
     res_bind (case json_as_i64 (map_of m ''createdAt'') of
                 Some t \<Rightarrow> if t \<ge> 0 then Inr t else Inl (jsonl_schema ''has invalid timestamp'')
               | None \<Rightarrow> Inl (jsonl_schema ''has invalid timestamp'')) (\<lambda>created_at.
     res_bind (field_string m ''id'' ''id'') (\<lambda>i.
     res_bind (field_string m ''cwd'' ''cwd'') (\<lambda>cwd.
       Inr \<lparr>jh_kind = ''header'', jh_version = 4, jh_id = i, jh_created_at = created_at,
            jh_cwd = cwd, jh_parent_session_id = parent_session_id,
            jh_legacy_parent_session_path = legacy, jh_metadata = metadata\<rparr>)))))))"

text \<open>\<open>None\<close> where the code panics: \<^verbatim>\<open>expect("header is serializable")\<close>.\<close>

definition encode_header :: "jsonl_codec \<Rightarrow> jsonl_v4_header \<Rightarrow> string option" where
  "encode_header codec h =
     (case jc_print codec (header_to_map h) of Inr line \<Rightarrow> Some (line @ [CHR 0x0A]) | Inl _ \<Rightarrow> None)"

definition metadata_set :: "string \<Rightarrow> json \<Rightarrow> session_metadata \<Rightarrow> session_metadata" where
  "metadata_set key v md = md\<lparr>sm_extra := map_insert key v (sm_extra md)\<rparr>"

definition metadata_from_header :: "jsonl_v4_header \<Rightarrow> string \<Rightarrow> int \<Rightarrow> session_metadata" where
  "metadata_from_header h path modified_at =
     (let md = (session_metadata_new (jh_id h) (jh_created_at h))
                 \<lparr>sm_parent_session_id := jh_parent_session_id h\<rparr>;
          md = metadata_set ''cwd'' (JString (jh_cwd h)) md;
          md = metadata_set ''path'' (JString path) md;
          md = metadata_set ''modifiedAt'' (JNumber (number_from_i64 modified_at)) md;
          md = metadata_set ''sourceFormat'' (JNumber (number_from_i64 4)) md;
          md = (case jh_legacy_parent_session_path h of
                  Some legacy \<Rightarrow> metadata_set ''legacyParentSessionPath'' (JString legacy) md
                | None \<Rightarrow> md)
      in case jh_metadata h of
           Some extra \<Rightarrow> metadata_set ''metadata'' (JObject extra) md | None \<Rightarrow> md)"

section \<open>Mutation lines\<close>

definition parse_entry_mutation :: "jsonl_codec \<Rightarrow> json_map \<Rightarrow> int \<Rightarrow> session_mutation jsonl_result" where
  "parse_entry_mutation codec m sq =
     res_bind (optional_string m ''lane'' ''lane'') (\<lambda>lane.
     res_bind (field_string m ''id'' ''id'') (\<lambda>_.
     res_bind (field_string m ''type'' ''entry type'') (\<lambda>type_name.
     if entry_type_from_str type_name = None
     then Inl (jsonl_schema (''has unknown entry type '' @ type_name))
     else
     res_bind (require_nullable_id m ''parentId'' ''parentId'') (\<lambda>parent_id.
     res_bind (require_timestamp m) (\<lambda>timestamp.
     res_bind (map_err jsonl_schema (decode_provisioned_entry (jc_de_entry codec) m)) (\<lambda>p.
       Inr (SMEntry lane \<lparr>e_id = pe_id p, e_seq = sq, e_parent_id = parent_id,
         e_timestamp = timestamp, e_payload = pe_payload p, e_extra = pe_extra p\<rparr>)))))))"

definition check_intent :: "json_map \<Rightarrow> unit jsonl_result" where
  "check_intent m =
     (case map_of m ''intent'' of
        Some (JObject intent) \<Rightarrow>
          (case map_of intent ''kind'' of
             Some (JString kind) \<Rightarrow>
               if kind \<in> {''run'', ''compaction'', ''navigation''} then Inr ()
               else Inl (jsonl_schema (''has unknown operation kind '' @ kind))
           | _ \<Rightarrow> Inl (jsonl_schema ''has invalid operation kind''))
      | _ \<Rightarrow> Inl (jsonl_schema ''has invalid intent''))"

definition parse_record_mutation :: "jsonl_codec \<Rightarrow> json_map \<Rightarrow> int \<Rightarrow> session_mutation jsonl_result" where
  "parse_record_mutation codec m sq =
     res_bind (field_string m ''id'' ''id'') (\<lambda>_.
     res_bind (field_string m ''lane'' ''lane'') (\<lambda>_.
     res_bind (field_string m ''type'' ''record type'') (\<lambda>type_name.
     if record_type_from_str type_name = None
     then Inl (jsonl_schema (''has unknown record type '' @ type_name))
     else
     res_bind (require_timestamp m) (\<lambda>timestamp.
     res_bind (if type_name = ''operation_started'' then check_intent m else Inr ()) (\<lambda>_.
     res_bind (if type_name = ''operation_finished''
               then res_bind (field_string m ''runId'' ''runId'') (\<lambda>_. Inr ()) else Inr ()) (\<lambda>_.
     res_bind (map_err jsonl_schema (decode_new_record (jc_de_record codec) m)) (\<lambda>n.
       Inr (SMRecord \<lparr>r_id = nr_id n, r_seq = sq, r_lane = nr_lane n, r_timestamp = timestamp,
         r_payload = nr_payload n, r_extra = nr_extra n\<rparr>))))))))"

definition parse_lane_mutation :: "json_map \<Rightarrow> int \<Rightarrow> session_mutation jsonl_result" where
  "parse_lane_mutation m sq =
     res_bind (field_string m ''lane'' ''lane'') (\<lambda>lane.
     res_bind (require_nullable_id m ''leafId'' ''leafId'') (\<lambda>leaf_id. Inr (SMLane sq lane leaf_id)))"

definition parse_fact_mutation :: "json_map \<Rightarrow> int \<Rightarrow> session_mutation jsonl_result" where
  "parse_fact_mutation m sq =
     (if json_as_str (map_of m ''fact'') = Some ''name''
      then res_bind (optional_string m ''name'' ''name'') (\<lambda>name. Inr (SMName sq name))
      else if json_as_str (map_of m ''fact'') = Some ''label''
      then res_bind (field_string m ''targetId'' ''targetId'') (\<lambda>target_id.
           res_bind (optional_string m ''label'' ''label'') (\<lambda>label. Inr (SMLabel sq target_id label)))
      else Inl (jsonl_schema ''has unknown fact type''))"

definition parse_mutation :: "jsonl_codec \<Rightarrow> string \<Rightarrow> session_mutation jsonl_result" where
  "parse_mutation codec line =
     res_bind (parse_object codec line) (\<lambda>m.
     res_bind (require_sequence m) (\<lambda>sq.
       if json_as_str (map_of m ''kind'') = Some ''entry'' then parse_entry_mutation codec m sq
       else if json_as_str (map_of m ''kind'') = Some ''record'' then parse_record_mutation codec m sq
       else if json_as_str (map_of m ''kind'') = Some ''lane'' then parse_lane_mutation m sq
       else if json_as_str (map_of m ''kind'') = Some ''fact'' then parse_fact_mutation m sq
       else Inl (jsonl_schema ''has unknown mutation kind'')))"

definition encode_failure :: "string \<Rightarrow> session_error" where
  "encode_failure e = Storage (''Failed to encode session mutation: '' @ e)"

fun mutation_to_map :: "jsonl_codec \<Rightarrow> session_mutation \<Rightarrow> json_map session_result" where
  "mutation_to_map codec (SMEntry lane e) =
     (let m = map_insert ''kind'' (JString ''entry'') [];
          m = (case lane of Some l \<Rightarrow> map_insert ''lane'' (JString l) m | None \<Rightarrow> m)
      in res_bind (map_err encode_failure (entry_to_map (dc_entry codec) (dc_show codec) e)) (\<lambda>fs.
           Inr (map_extend m fs)))"
| "mutation_to_map codec (SMRecord r) =
     (let m = map_insert ''kind'' (JString ''record'') []
      in res_bind (map_err encode_failure (lane_record_to_map (dc_record codec) (dc_show codec) r))
           (\<lambda>fs. Inr (map_extend m fs)))"
| "mutation_to_map codec (SMLane sq lane leaf_id) =
     Inr [(''kind'', JString ''lane''), (''seq'', JNumber (number_from_i64 sq)),
          (''lane'', JString lane),
          (''leafId'', case leaf_id of Some i \<Rightarrow> JString i | None \<Rightarrow> JNull)]"
| "mutation_to_map codec (SMName sq name) =
     Inr ([(''kind'', JString ''fact''), (''seq'', JNumber (number_from_i64 sq)),
           (''fact'', JString ''name'')] @ optional_field ''name'' (map_option JString name))"
| "mutation_to_map codec (SMLabel sq target_id label) =
     Inr ([(''kind'', JString ''fact''), (''seq'', JNumber (number_from_i64 sq)),
           (''fact'', JString ''label''), (''targetId'', JString target_id)] @
          optional_field ''label'' (map_option JString label))"

definition encode_mutation :: "jsonl_codec \<Rightarrow> session_mutation \<Rightarrow> string session_result" where
  "encode_mutation codec mu =
     res_bind (mutation_to_map codec mu) (\<lambda>m.
     res_bind (map_err encode_failure (jc_print codec m)) (\<lambda>line. Inr (line @ [CHR 0x0A])))"

section \<open>Lines read back\<close>

text \<open>
  \<open>text_faithful\<close>: the text of a map is one non-empty line of UTF-8 that parses to the map. \<open>mutation_durable\<close>:
  the payload satisfies the contract of \<^verbatim>\<open>serde\<close>, unknown fields do not reuse a key, and the numbers
  are in the ranges storage assigns; the intent of a started operation is tagged with its kind and
  a finished operation names its run, as their \<^verbatim>\<open>serde\<close> attributes say.
\<close>

definition text_faithful :: "jsonl_codec \<Rightarrow> json_map \<Rightarrow> bool" where
  "text_faithful codec m \<longleftrightarrow>
     (\<exists>t. jc_print codec m = Inr t \<and> t \<noteq> [] \<and> CHR 0x0A \<notin> set t \<and> utf8_text t \<and>
        jc_parse codec t = Some (JObject m))"

definition tagged_fields :: "record_payload \<Rightarrow> json_map \<Rightarrow> bool" where
  "tagged_fields p fs \<longleftrightarrow>
     (case p of
        RPOperationStarted _ \<Rightarrow> check_intent fs = Inr ()
      | RPOperationFinished f \<Rightarrow> map_of fs ''runId'' = Some (JString (of_run_id f))
      | _ \<Rightarrow> True)"

definition mutation_durable :: "jsonl_codec \<Rightarrow> session_mutation \<Rightarrow> bool" where
  "mutation_durable codec mu \<longleftrightarrow>
     0 < mutation_seq mu \<and> mutation_seq mu < 2 ^ 63 \<and>
     (case mu of
        SMEntry _ e \<Rightarrow>
          (\<exists>fs. serde_entry (dc_entry codec) (jc_de_entry codec) (e_payload e) fs) \<and>
          fresh_keys ENTRY_ENVELOPE_KEYS (entry_payload_keys (entry_type_of e)) (e_extra e) \<and>
          0 \<le> e_timestamp e \<and> e_timestamp e < 2 ^ 63
      | SMRecord r \<Rightarrow>
          (\<exists>fs. serde_record (dc_record codec) (jc_de_record codec) (r_payload r) fs \<and>
             tagged_fields (r_payload r) fs) \<and>
          fresh_keys RECORD_ENVELOPE_KEYS (record_payload_keys (record_type_of r)) (r_extra r) \<and>
          0 \<le> r_timestamp r \<and> r_timestamp r < 2 ^ 63
      | _ \<Rightarrow> True)"

definition lane_field :: "string option \<Rightarrow> json_map" where
  "lane_field lane = optional_field ''lane'' (map_option JString lane)"

lemma json_as_i64_number [simp]:
  "i64_range i \<Longrightarrow> json_as_i64 (Some (JNumber (number_from_i64 i))) = Some i"
  by (simp add: json_as_i64_def)

lemma entry_line_back:
  fixes lane
  assumes "serde_entry (dc_entry codec) (jc_de_entry codec) (e_payload e) fs"
    and "fresh_keys ENTRY_ENVELOPE_KEYS (entry_payload_keys (entry_type_of e)) (e_extra e)"
    and "0 \<le> e_timestamp e" "e_timestamp e < 2 ^ 63" "0 < e_seq e" "e_seq e < 2 ^ 63"
  defines "front \<equiv> (''kind'', JString ''entry'') # lane_field lane @ entry_front e"
  defines "m \<equiv> front @ fs @ e_extra e @ entry_tail e"
  shows "mutation_to_map codec (SMEntry lane e) = Inr m"
    and "require_sequence m = Inr (e_seq e)" and "json_as_str (map_of m ''kind'') = Some ''entry''"
    and "parse_entry_mutation codec m (e_seq e) = Inr (SMEntry lane e)"
proof -
  have lf: "lane_field lane = [] \<or> (\<exists>l. lane = Some l \<and> lane_field lane = [(''lane'', JString l)])"
    by (cases lane) (simp_all add: lane_field_def optional_field_def)
  have shape: "entry_shape front fs (e_extra e) (entry_tail e) (entry_type_of e)"
    unfolding entry_type_of_def
    by (rule entry_shapeI [OF assms(1)])
      (use assms(2) lf in \<open>auto simp: front_def entry_front_def entry_tail_def
        ENTRY_ENVELOPE_KEYS_def entry_type_of_def\<close>)
  have "map_extend ((''kind'', JString ''entry'') # lane_field lane)
      (entry_front e @ fs @ e_extra e @ entry_tail e) = m"
    using map_extend_distinct [of "(''kind'', JString ''entry'') # lane_field lane"
        "entry_front e @ fs @ e_extra e @ entry_tail e"] line_shape_distinct [OF shape]
    by (simp add: m_def front_def)
  then show "mutation_to_map codec (SMEntry lane e) = Inr m"
    using entry_to_map_line(2) [OF assms(1,2)] lf
    by (auto simp: lane_field_def optional_field_def split: option.splits)
  have env: "map_of m k = map_of (front @ entry_tail e) k" if "k \<in> set ENTRY_ENVELOPE_KEYS" for k
    unfolding m_def by (rule line_envelope [OF shape that])
  have look: "map_of m ''seq'' = Some (JNumber (number_from_i64 (e_seq e)))"
    "map_of m ''kind'' = Some (JString ''entry'')" "map_of m ''lane'' = map_option JString lane"
    "map_of m ''id'' = Some (JString (e_id e))"
    "map_of m ''type'' = Some (JString (entry_type_str (entry_type_of e)))"
    "map_of m ''parentId'' = Some (case e_parent_id e of Some i \<Rightarrow> JString i | None \<Rightarrow> JNull)"
    "map_of m ''timestamp'' = Some (JNumber (number_from_i64 (e_timestamp e)))"
    using lf by (auto simp: env ENTRY_ENVELOPE_KEYS_def front_def entry_front_def entry_tail_def
        lane_field_def optional_field_def split: option.splits)
  show "require_sequence m = Inr (e_seq e)" "json_as_str (map_of m ''kind'') = Some ''entry''"
    using assms(5,6) look by (simp_all add: require_sequence_def json_as_str_def)
  have "decode_provisioned_entry (jc_de_entry codec) m = Inr (to_provisioned e)"
    unfolding m_def to_provisioned_def
    by (rule decode_provisioned_line [OF shape [unfolded entry_type_of_def] assms(1)])
      (use env [of "''id''"] env [of "''type''"] look in
        \<open>simp_all add: ENTRY_ENVELOPE_KEYS_def entry_type_of_def\<close>)
  then show "parse_entry_mutation codec m (e_seq e) = Inr (SMEntry lane e)"
    using assms(3,4) look
    by (cases lane; cases "e_parent_id e")
      (simp_all add: parse_entry_mutation_def optional_string_def field_string_def
        require_nullable_id_def require_timestamp_def to_provisioned_def)
qed

lemma check_intent_cong: "map_of m ''intent'' = map_of fs ''intent'' \<Longrightarrow> check_intent m = check_intent fs"
  by (simp add: check_intent_def)

lemma tagged_line:
  assumes "tagged_fields p fs"
    and "\<And>k. k \<in> set (record_payload_keys (payload_record_type p)) \<Longrightarrow> map_of m k = map_of fs k"
  shows "record_type_str (payload_record_type p) = ''operation_started'' \<Longrightarrow> check_intent m = Inr ()"
    and "record_type_str (payload_record_type p) = ''operation_finished'' \<Longrightarrow>
      \<exists>i. field_string m ''runId'' ''runId'' = Inr i"
  using assms(1) assms(2) [of "''intent''"] assms(2) [of "''runId''"] check_intent_cong [of m fs]
  by (cases p; simp add: tagged_fields_def field_string_def)+

lemma record_line_back:
  assumes "serde_record (dc_record codec) (jc_de_record codec) (r_payload r) fs"
    and "tagged_fields (r_payload r) fs"
    and "fresh_keys RECORD_ENVELOPE_KEYS (record_payload_keys (record_type_of r)) (r_extra r)"
    and "0 \<le> r_timestamp r" "r_timestamp r < 2 ^ 63" "0 < r_seq r" "r_seq r < 2 ^ 63"
  defines "front \<equiv> (''kind'', JString ''record'') # record_front r"
  defines "m \<equiv> front @ fs @ r_extra r @ record_tail r"
  shows "mutation_to_map codec (SMRecord r) = Inr m"
    and "require_sequence m = Inr (r_seq r)" and "json_as_str (map_of m ''kind'') = Some ''record''"
    and "parse_record_mutation codec m (r_seq r) = Inr (SMRecord r)"
proof -
  have shape: "record_shape front fs (r_extra r) (record_tail r) (record_type_of r)"
    unfolding record_type_of_def
    by (rule record_shapeI [OF assms(1)])
      (use assms(3) in \<open>auto simp: front_def record_front_def record_tail_def
        RECORD_ENVELOPE_KEYS_def record_type_of_def\<close>)
  have "map_extend [(''kind'', JString ''record'')]
      (record_front r @ fs @ r_extra r @ record_tail r) = m"
    using map_extend_distinct [of "[(''kind'', JString ''record'')]"
        "record_front r @ fs @ r_extra r @ record_tail r"] line_shape_distinct [OF shape]
    by (simp add: m_def front_def)
  then show "mutation_to_map codec (SMRecord r) = Inr m"
    using record_to_map_line(2) [OF assms(1,3)] by simp
  have env: "map_of m k = map_of (front @ record_tail r) k" if "k \<in> set RECORD_ENVELOPE_KEYS" for k
    unfolding m_def by (rule line_envelope [OF shape that])
  have pay: "map_of m k = map_of fs k"
    if "k \<in> set (record_payload_keys (payload_record_type (r_payload r)))" for k
    unfolding m_def by (rule line_payload [OF shape [unfolded record_type_of_def] that])
  have look: "map_of m ''seq'' = Some (JNumber (number_from_i64 (r_seq r)))"
    "map_of m ''kind'' = Some (JString ''record'')" "map_of m ''lane'' = Some (JString (r_lane r))"
    "map_of m ''id'' = Some (JString (r_id r))"
    "map_of m ''type'' = Some (JString (record_type_str (record_type_of r)))"
    "map_of m ''timestamp'' = Some (JNumber (number_from_i64 (r_timestamp r)))"
    by (auto simp: env RECORD_ENVELOPE_KEYS_def front_def record_front_def record_tail_def)
  show "require_sequence m = Inr (r_seq r)" "json_as_str (map_of m ''kind'') = Some ''record''"
    using assms(6,7) look by (simp_all add: require_sequence_def json_as_str_def)
  have "decode_new_record (jc_de_record codec) m =
      Inr \<lparr>nr_id = r_id r, nr_lane = r_lane r, nr_payload = r_payload r, nr_extra = r_extra r\<rparr>"
    unfolding m_def
    by (rule decode_record_line [OF shape [unfolded record_type_of_def] assms(1)])
      (use env [of "''id''"] env [of "''type''"] env [of "''lane''"] look in
        \<open>simp_all add: RECORD_ENVELOPE_KEYS_def record_type_of_def\<close>)
  then show "parse_record_mutation codec m (r_seq r) = Inr (SMRecord r)"
    using assms(4,5) look tagged_line [OF assms(2), of m, OF pay]
    by (auto simp: parse_record_mutation_def field_string_def [of m "''id''"]
        field_string_def [of m "''lane''"] field_string_def [of m "''type''"]
        require_timestamp_def record_type_of_def)
qed

lemma map_line_back:
  assumes "mutation_durable codec mu"
  obtains m where "mutation_to_map codec mu = Inr m"
    and "\<And>t. jc_parse codec t = Some (JObject m) \<Longrightarrow> parse_mutation codec t = Inr mu"
proof (cases mu)
  case (SMEntry lane e)
  with assms obtain fs where fs: "serde_entry (dc_entry codec) (jc_de_entry codec) (e_payload e) fs"
    by (auto simp: mutation_durable_def)
  show thesis
    by (rule that, unfold SMEntry, rule entry_line_back(1) [OF fs])
      (use assms entry_line_back(2-4) [OF fs] in
        \<open>auto simp: SMEntry mutation_durable_def parse_mutation_def parse_object_def\<close>)
next
  case (SMRecord r)
  with assms obtain fs where fs: "serde_record (dc_record codec) (jc_de_record codec) (r_payload r) fs"
    "tagged_fields (r_payload r) fs"
    by (auto simp: mutation_durable_def)
  show thesis
    by (rule that, unfold SMRecord, rule record_line_back(1) [OF fs])
      (use assms record_line_back(2-4) [OF fs] in
        \<open>auto simp: SMRecord mutation_durable_def parse_mutation_def parse_object_def\<close>)
next
  case (SMLane sq lane leaf)
  with assms show thesis
    by (intro that, simp)
      (auto simp: mutation_durable_def parse_mutation_def parse_object_def json_as_str_def
        require_sequence_def parse_lane_mutation_def field_string_def require_nullable_id_def
        split: option.splits)
next
  case (SMName sq name)
  with assms show thesis
    by (intro that, simp)
      (auto simp: mutation_durable_def parse_mutation_def parse_object_def json_as_str_def
        require_sequence_def parse_fact_mutation_def optional_string_def optional_field_def
        split: option.splits)
next
  case (SMLabel sq target label)
  with assms show thesis
    by (intro that, simp)
      (auto simp: mutation_durable_def parse_mutation_def parse_object_def json_as_str_def
        require_sequence_def parse_fact_mutation_def optional_string_def field_string_def
        optional_field_def split: option.splits)
qed

definition line_ok :: "jsonl_codec \<Rightarrow> session_mutation \<Rightarrow> bool" where
  "line_ok codec mu \<longleftrightarrow>
     (\<exists>t. encode_mutation codec mu = Inr (t @ [CHR 0x0A]) \<and> t \<noteq> [] \<and> CHR 0x0A \<notin> set t \<and>
        utf8_text t \<and> parse_mutation codec t = Inr mu)"

lemma line_okI:
  assumes "mutation_durable codec mu"
    and "\<And>m. mutation_to_map codec mu = Inr m \<Longrightarrow> text_faithful codec m"
  shows "line_ok codec mu"
proof -
  obtain m where m: "mutation_to_map codec mu = Inr m"
    and again: "\<And>t. jc_parse codec t = Some (JObject m) \<Longrightarrow> parse_mutation codec t = Inr mu"
    using map_line_back [OF assms(1)] by metis
  from assms(2) [OF m] again show ?thesis
    by (auto simp: line_ok_def text_faithful_def encode_mutation_def m)
qed

text \<open>
  What the libraries promise for one mutation: \<^verbatim>\<open>serde\<close> writes and reads its payload, and the JSON
  text of its line parses to the map it was printed from. That the line is read back as the mutation is
  then the work of the codec.
\<close>

definition libraries_faithful :: "jsonl_codec \<Rightarrow> session_mutation \<Rightarrow> bool" where
  "libraries_faithful codec mu \<longleftrightarrow>
     mutation_durable codec mu \<and> (\<forall>m. mutation_to_map codec mu = Inr m \<longrightarrow> text_faithful codec m)"

lemma libraries_faithful_line: "libraries_faithful codec mu \<Longrightarrow> line_ok codec mu"
  by (rule line_okI) (auto simp: libraries_faithful_def)

section \<open>Properties\<close>

text \<open>
  A session file holds what was written to it: a durable mutation is encoded as one line that
  ends with its only newline, and reading that line gives the same mutation, with its lane,
  unknown fields, cleared names and labels, and numbers.
\<close>

theorem mutation_line_roundtrip:
  assumes "mutation_durable codec mu"
    and "\<And>m. mutation_to_map codec mu = Inr m \<Longrightarrow> text_faithful codec m"
  shows "\<exists>t. encode_mutation codec mu = Inr (t @ [CHR 0x0A]) \<and> t \<noteq> [] \<and> CHR 0x0A \<notin> set t \<and>
    parse_mutation codec t = Inr mu"
  using line_okI [OF assms] by (auto simp: line_ok_def)

text \<open>A text codec for the witnesses: some maps and their texts, in braces.\<close>

definition demo_change :: entry where
  "demo_change =
     \<lparr>e_id = ''e1'', e_seq = 1, e_parent_id = None, e_timestamp = 7,
      e_payload = EPModelChange \<lparr>mc_provider = ''p'', mc_model_id = ''m''\<rparr>, e_extra = [(''future'', JBool True)]\<rparr>"

definition demo_change_fields :: json_map where
  "demo_change_fields =
     [(''type'', JString ''model_change''), (''id'', JString ''e1''), (''provider'', JString ''p''),
      (''modelId'', JString ''m''), (''future'', JBool True), (''parentId'', JNull),
      (''seq'', JNumber (number_from_i64 1)), (''timestamp'', JNumber (number_from_i64 7))]"

definition demo_texts :: "(string \<times> json_map) list" where
  "demo_texts =
     [(''{n}'', [(''kind'', JString ''fact''), (''seq'', JNumber (number_from_i64 1)),
               (''fact'', JString ''name''), (''name'', JString ''x'')]),
      (''{e}'', (''kind'', JString ''entry'') # (''lane'', JString ''main'') # demo_change_fields),
      (''{f}'', (''kind'', JString ''entry'') # demo_change_fields),
      (''{l}'', [(''kind'', JString ''lane''), (''seq'', JNumber (number_from_i64 2)),
               (''lane'', JString ''main''), (''leafId'', JString ''e1'')]),
      (''{h}'', header_to_map (jsonl_header_new ''s'' 0 ''/w''))]"

definition demo_jsonl :: jsonl_codec where
  "demo_jsonl =
     \<lparr>dc_entry = demo_ser, dc_record = demo_record_ser, dc_show = (\<lambda>_. []),
      jc_de_entry = demo_de, jc_de_record = demo_record_de,
      jc_print = (\<lambda>m. case find (\<lambda>(t, n). n = m) demo_texts of
                        Some (t, _) \<Rightarrow> Inr t | None \<Rightarrow> Inl ''unsupported''),
      jc_parse = (\<lambda>t. map_option JObject (map_of demo_texts t))\<rparr>"

lemma demo_texts_utf8: "t \<in> fst ` set demo_texts \<Longrightarrow> utf8_text t"
  by (rule utf8_text_ascii) (auto simp: demo_texts_def)

lemma demo_text_faithful:
  assumes "m \<in> snd ` set demo_texts"
  shows "text_faithful demo_jsonl m"
proof -
  have "\<exists>t. jc_print demo_jsonl m = Inr t \<and> t \<in> fst ` set demo_texts \<and> t \<noteq> [] \<and>
      CHR 0x0A \<notin> set t \<and> jc_parse demo_jsonl t = Some (JObject m)"
    using assms by (auto simp: demo_jsonl_def demo_texts_def demo_change_fields_def header_to_map_def
        jsonl_header_new_def optional_field_def)
  with demo_texts_utf8 show ?thesis unfolding text_faithful_def by blast
qed

theorem mutation_line_roundtrip_witness:
  "\<exists>t. encode_mutation demo_jsonl (SMName 1 (Some ''x'')) = Inr (t @ [CHR 0x0A]) \<and> t \<noteq> [] \<and>
     CHR 0x0A \<notin> set t \<and> parse_mutation demo_jsonl t = Inr (SMName 1 (Some ''x''))"
proof (rule mutation_line_roundtrip)
  show "mutation_durable demo_jsonl (SMName 1 (Some ''x''))" by (simp add: mutation_durable_def)
  show "text_faithful demo_jsonl m" if "mutation_to_map demo_jsonl (SMName 1 (Some ''x'')) = Inr m" for m
    using that by (intro demo_text_faithful) (auto simp: demo_texts_def optional_field_def)
qed

text \<open>The mutations of the witnesses: a model change with and without its lane, and a lane that points to it.\<close>

lemma demo_change_map:
  "mutation_to_map demo_jsonl (SMEntry lane demo_change) =
     Inr ((''kind'', JString ''entry'') # lane_field lane @ demo_change_fields)"
  "mutation_durable demo_jsonl (SMEntry lane demo_change)"
proof -
  have serde: "serde_entry (dc_entry demo_jsonl) (jc_de_entry demo_jsonl) (e_payload demo_change)
      [(''provider'', JString ''p''), (''modelId'', JString ''m'')]"
    by (simp add: serde_entry_def demo_change_def demo_jsonl_def demo_ser_def demo_de_def require_string_def)
  have fresh: "fresh_keys ENTRY_ENVELOPE_KEYS (entry_payload_keys (entry_type_of demo_change)) (e_extra demo_change)"
    by (simp add: fresh_keys_def demo_change_def entry_type_of_def ENTRY_ENVELOPE_KEYS_def)
  show "mutation_to_map demo_jsonl (SMEntry lane demo_change) =
     Inr ((''kind'', JString ''entry'') # lane_field lane @ demo_change_fields)"
    using entry_line_back(1) [OF serde fresh, of lane]
    by (simp add: demo_change_def demo_change_fields_def entry_front_def entry_tail_def entry_type_of_def)
  show "mutation_durable demo_jsonl (SMEntry lane demo_change)"
    using serde fresh by (auto simp: mutation_durable_def) (simp_all add: demo_change_def)
qed

lemma demo_faithful:
  "libraries_faithful demo_jsonl (SMEntry (Some ''main'') demo_change)"
  "libraries_faithful demo_jsonl (SMEntry None demo_change)"
  "libraries_faithful demo_jsonl (SMLane 2 ''main'' (Some ''e1''))"
proof -
  show "libraries_faithful demo_jsonl (SMEntry (Some ''main'') demo_change)"
    "libraries_faithful demo_jsonl (SMEntry None demo_change)"
    by (auto simp: libraries_faithful_def demo_change_map lane_field_def optional_field_def demo_texts_def
        simp del: mutation_to_map.simps(1) intro!: demo_text_faithful)
  show "libraries_faithful demo_jsonl (SMLane 2 ''main'' (Some ''e1''))"
    by (auto simp: libraries_faithful_def mutation_durable_def demo_texts_def intro!: demo_text_faithful)
qed

text \<open>The header line reads back too.\<close>

definition header_ok :: "jsonl_v4_header \<Rightarrow> bool" where
  "header_ok h \<longleftrightarrow>
     jh_kind h = ''header'' \<and> jh_version h = 4 \<and> 0 \<le> jh_created_at h \<and> jh_created_at h < 2 ^ 63 \<and>
     (jh_parent_session_id h = None \<or> jh_legacy_parent_session_path h = None)"

lemma header_map_look:
  "map_of (header_to_map h) ''kind'' = Some (JString (jh_kind h))"
  "map_of (header_to_map h) ''version'' = Some (JNumber (number_from_i64 (int (jh_version h))))"
  "map_of (header_to_map h) ''id'' = Some (JString (jh_id h))"
  "map_of (header_to_map h) ''createdAt'' = Some (JNumber (number_from_i64 (jh_created_at h)))"
  "map_of (header_to_map h) ''cwd'' = Some (JString (jh_cwd h))"
  "map_of (header_to_map h) ''parentSessionId'' = map_option JString (jh_parent_session_id h)"
  "map_of (header_to_map h) ''legacyParentSessionPath'' =
     map_option JString (jh_legacy_parent_session_path h)"
  "map_of (header_to_map h) ''metadata'' = map_option JObject (jh_metadata h)"
  by (simp_all add: header_to_map_def optional_field_def split: option.splits)

lemma header_line_back:
  assumes "header_ok h" and "text_faithful codec (header_to_map h)"
  obtains t where "encode_header codec h = Some (t @ [CHR 0x0A])" and "t \<noteq> []"
    and "CHR 0x0A \<notin> set t" and "utf8_text t" and "parse_header codec t = Inr h"
proof -
  from assms(2) obtain t where t: "jc_print codec (header_to_map h) = Inr t" "t \<noteq> []"
    "CHR 0x0A \<notin> set t" "utf8_text t" "jc_parse codec t = Some (JObject (header_to_map h))"
    by (auto simp: text_faithful_def)
  have "json_as_u64 (Some (JNumber (number_from_i64 4))) = Some 4"
    by (simp add: json_as_u64_def number_from_i64_def)
  moreover have "optional_string (header_to_map h) ''parentSessionId'' f = Inr (jh_parent_session_id h)"
    "optional_string (header_to_map h) ''legacyParentSessionPath'' f =
      Inr (jh_legacy_parent_session_path h)" for f
    by (simp_all add: optional_string_def header_map_look split: option.splits)
  ultimately have "parse_header codec t = Inr h"
    using assms(1) t(5)
    by (auto simp: parse_header_def parse_object_def header_ok_def header_map_look json_as_str_def
        field_string_def split: option.splits)
  with t that show thesis by (simp add: encode_header_def)
qed

end
