(* ===== verification/Session_Jsonl_Storage.thy ===== *)
theory Session_Jsonl_Storage
  imports Session_Jsonl
begin

text \<open>
  The file backend of sessions, \<^verbatim>\<open>pi-rs/crates/pi-session/src/jsonl/storage.rs\<close>. A storage is the
  state projected in memory together with the bytes of its file, which only this handle writes.
  What the file system does is an argument of each operation: \<open>None\<close> where it succeeds, an \<open>io_fault\<close>
  with the number of bytes that reached the file where it fails, and the result of reading the
  modification time. Each operation holds the storage's lock, so it is one step; as a failing
  write may change the file, the operations return the storage beside the result.
\<close>

section \<open>Files\<close>

record io_fault =
  fa_missing :: bool
  fa_text :: string
  fa_written :: nat

definition io_error :: "string \<Rightarrow> io_fault \<Rightarrow> session_error" where
  "io_error m f =
     (let text = m @ '': '' @ fa_text f in if fa_missing f then NotFound text else Storage text)"

definition append_text :: "io_fault option \<Rightarrow> string \<Rightarrow> string \<Rightarrow> string \<Rightarrow> string \<times> unit session_result" where
  "append_text fault path text file =
     (case fault of
        None \<Rightarrow> (file @ text, Inr ())
      | Some f \<Rightarrow>
          (file @ take (fa_written f) text,
           Inl (io_error (''Failed to append session '' @ path) f)))"

text \<open>Publishing a staged file: the destination changes only by the rename.\<close>

definition publish_file_atomically ::
  "string \<Rightarrow> string session_result \<Rightarrow> io_fault option \<Rightarrow> string \<Rightarrow> string \<times> unit session_result" where
  "publish_file_atomically path staged rename destination =
     (case staged of
        Inl e \<Rightarrow> (destination, Inl e)
      | Inr content \<Rightarrow>
          (case rename of
             None \<Rightarrow> (content, Inr ())
           | Some f \<Rightarrow>
               (destination, Inl (io_error (''Failed to publish staged file '' @ path) f))))"

text \<open>\<^verbatim>\<open>read_to_string\<close> fails on bytes that are not UTF-8.\<close>

definition read_to_string :: "io_fault option \<Rightarrow> string \<Rightarrow> io_fault + string" where
  "read_to_string fault file =
     (case fault of
        Some f \<Rightarrow> Inl f
      | None \<Rightarrow>
          if utf8_text file then Inr file
          else Inl \<lparr>fa_missing = False, fa_text = ''stream did not contain valid UTF-8'',
                    fa_written = 0\<rparr>)"

definition physical_lines :: "string \<Rightarrow> string list" where
  "physical_lines content =
     (let ls = split_lines content in if last ls = [] then butlast ls else ls)"

section \<open>Opening a session\<close>

record jsonl_storage =
  js_path :: string
  js_metadata :: session_metadata
  js_state :: session_state
  js_file :: string

definition js_create ::
  "jsonl_codec \<Rightarrow> string \<Rightarrow> jsonl_v4_header \<Rightarrow> io_fault option \<Rightarrow> int session_result \<Rightarrow>
   (string \<times> jsonl_storage session_result) option" where
  "js_create codec path h fault modified =
     (case encode_header codec h of
        None \<Rightarrow> None
      | Some line \<Rightarrow>
          Some (case fault of
            Some f \<Rightarrow>
              (take (fa_written f) line,
               Inl (io_error (''Failed to initialize session '' @ path) f))
          | None \<Rightarrow>
              (line, res_bind modified (\<lambda>modified_at.
                Inr \<lparr>js_path = path, js_metadata = metadata_from_header h path modified_at,
                     js_state = session_state_new, js_file = line\<rparr>))))"

text \<open>The loop over the lines after the header; a torn last line ends it with its index.\<close>

fun replay_lines ::
  "jsonl_codec \<Rightarrow> string \<Rightarrow> nat \<Rightarrow> string list \<Rightarrow> session_state \<Rightarrow>
   (session_state \<times> nat option) session_result" where
  "replay_lines codec path index [] s = Inr (s, None)"
| "replay_lines codec path index (line # rest) s =
     (case parse_mutation codec line of
        Inl e \<Rightarrow>
          if rest = [] \<and> je_kind e = JSyntax then Inr (s, Some index)
          else Inl (invalid_file path (index + 1) e)
      | Inr mu \<Rightarrow>
          (case apply_mutation mu s of
             Inl (InvalidEntry m) \<Rightarrow> Inl (invalid_file path (index + 1) (jsonl_schema m))
           | Inl e \<Rightarrow> Inl e
           | Inr s' \<Rightarrow> replay_lines codec path (index + 1) rest s'))"

record load_faults =
  lf_read :: "io_fault option"
  lf_modified :: "int session_result"
  lf_stage :: "io_fault option"
  lf_rename :: "io_fault option"
  lf_newline :: "io_fault option"

definition js_load ::
  "jsonl_codec \<Rightarrow> string \<Rightarrow> load_faults \<Rightarrow> string \<Rightarrow> string \<times> jsonl_storage session_result" where
  "js_load codec path faults file =
     (case read_to_string (lf_read faults) file of
        Inl f \<Rightarrow> (file, Inl (io_error (''Failed to read session '' @ path) f))
      | Inr content \<Rightarrow>
          let lines = physical_lines content in
          if (case lines of [] \<Rightarrow> True | l # _ \<Rightarrow> l = [])
          then (file, Inl (invalid_file path 1 (jsonl_schema ''is missing a header'')))
          else
            case parse_header codec (hd lines) of
              Inl e \<Rightarrow> (file, Inl (invalid_file path 1 e))
            | Inr h \<Rightarrow>
                (case lf_modified faults of
                   Inl e \<Rightarrow> (file, Inl e)
                 | Inr modified_at \<Rightarrow>
                     let storage = (\<lambda>s f. \<lparr>js_path = path,
                           js_metadata = metadata_from_header h path modified_at, js_state = s,
                           js_file = f\<rparr>)
                     in case replay_lines codec path 1 (tl lines) session_state_new of
                          Inl e \<Rightarrow> (file, Inl e)
                        | Inr (s, Some index) \<Rightarrow>
                            let valid_prefix = join_lines (take index lines) @ [newline];
                                staged = (case lf_stage faults of
                                  None \<Rightarrow> Inr valid_prefix
                                | Some f \<Rightarrow>
                                    Inl (io_error (''Failed to stage torn-tail repair '' @ path) f))
                            in (case publish_file_atomically path staged (lf_rename faults) file of
                                  (file', Inl e) \<Rightarrow> (file', Inl e)
                                | (file', Inr _) \<Rightarrow> (file', Inr (storage s file')))
                        | Inr (s, None) \<Rightarrow>
                            if last content = newline then (file, Inr (storage s file))
                            else
                              case append_text (lf_newline faults) path [newline] file of
                                (file', Inl e) \<Rightarrow> (file', Inl e)
                              | (file', Inr _) \<Rightarrow> (file', Inr (storage s file'))))"

section \<open>Writes\<close>

definition js_commit ::
  "jsonl_codec \<Rightarrow> io_fault option \<Rightarrow> session_mutation \<Rightarrow> jsonl_storage \<Rightarrow>
   jsonl_storage \<times> unit session_result" where
  "js_commit codec fault mu st =
     (case encode_mutation codec mu of
        Inl e \<Rightarrow> (st, Inl e)
      | Inr line \<Rightarrow>
          (case append_text fault (js_path st) line (js_file st) of
             (file, Inl e) \<Rightarrow> (st\<lparr>js_file := file\<rparr>, Inl e)
           | (file, Inr _) \<Rightarrow>
               (case apply_mutation mu (js_state st) of
                  Inl e \<Rightarrow> (st\<lparr>js_file := file\<rparr>, Inl e)
                | Inr s \<Rightarrow> (st\<lparr>js_file := file, js_state := s\<rparr>, Inr ()))))"

text \<open>A write: refused by the checks, or committed and answered.\<close>

definition js_write ::
  "jsonl_codec \<Rightarrow> io_fault option \<Rightarrow> (session_mutation \<times> 'a) session_result \<Rightarrow> jsonl_storage \<Rightarrow>
   jsonl_storage \<times> 'a session_result" where
  "js_write codec fault checked st =
     (case checked of
        Inl e \<Rightarrow> (st, Inl e)
      | Inr (mu, answer) \<Rightarrow>
          (case js_commit codec fault mu st of
             (st', Inl e) \<Rightarrow> (st', Inl e) | (st', Inr _) \<Rightarrow> (st', Inr answer)))"

definition js_append_entry ::
  "jsonl_codec \<Rightarrow> io_fault option \<Rightarrow> int \<Rightarrow> provisioned_entry \<Rightarrow> string \<Rightarrow> jsonl_storage \<Rightarrow>
   jsonl_storage \<times> entry session_result" where
  "js_append_entry codec fault now e lane st =
     js_write codec fault
       (res_bind (require_lane (js_state st) lane) (\<lambda>parent_id.
        res_bind (validate_unused_id (js_state st) (pe_id e)) (\<lambda>_.
          let committed =
            \<lparr>e_id = pe_id e, e_seq = next_sequence (js_state st), e_parent_id = parent_id,
             e_timestamp = now, e_payload = pe_payload e, e_extra = pe_extra e\<rparr>
          in Inr (SMEntry (Some lane) committed, committed)))) st"

definition js_append_record ::
  "jsonl_codec \<Rightarrow> io_fault option \<Rightarrow> int \<Rightarrow> new_record \<Rightarrow> jsonl_storage \<Rightarrow>
   jsonl_storage \<times> lane_record session_result" where
  "js_append_record codec fault now r st =
     js_write codec fault
       (res_bind (require_lane (js_state st) (nr_lane r)) (\<lambda>_.
        res_bind (validate_unused_id (js_state st) (nr_id r)) (\<lambda>_.
        res_bind (check_single_open_operation (js_state st) r) (\<lambda>_.
          let committed =
            \<lparr>r_id = nr_id r, r_seq = next_sequence (js_state st), r_lane = nr_lane r,
             r_timestamp = now, r_payload = nr_payload r, r_extra = nr_extra r\<rparr>
          in Inr (SMRecord committed, committed))))) st"

definition js_set_name ::
  "jsonl_codec \<Rightarrow> io_fault option \<Rightarrow> string option \<Rightarrow> jsonl_storage \<Rightarrow>
   jsonl_storage \<times> unit session_result" where
  "js_set_name codec fault name st =
     js_write codec fault (Inr (SMName (next_sequence (js_state st)) name, ())) st"

definition js_set_label ::
  "jsonl_codec \<Rightarrow> io_fault option \<Rightarrow> string \<Rightarrow> string option \<Rightarrow> jsonl_storage \<Rightarrow>
   jsonl_storage \<times> unit session_result" where
  "js_set_label codec fault i label st =
     js_write codec fault
       (res_bind (validate_target (js_state st) (Some i)) (\<lambda>_.
          Inr (SMLabel (next_sequence (js_state st)) i label, ()))) st"

definition js_create_lane ::
  "jsonl_codec \<Rightarrow> io_fault option \<Rightarrow> string \<Rightarrow> string option \<Rightarrow> jsonl_storage \<Rightarrow>
   jsonl_storage \<times> unit session_result" where
  "js_create_lane codec fault lane at_id st =
     js_write codec fault
       (res_bind (validate_new_lane (js_state st) lane) (\<lambda>_.
        res_bind (validate_target (js_state st) at_id) (\<lambda>_.
          Inr (SMLane (next_sequence (js_state st)) lane at_id, ())))) st"

definition js_move_lane ::
  "jsonl_codec \<Rightarrow> io_fault option \<Rightarrow> string \<Rightarrow> string option \<Rightarrow> jsonl_storage \<Rightarrow>
   jsonl_storage \<times> unit session_result" where
  "js_move_lane codec fault lane to_id st =
     js_write codec fault
       (res_bind (require_lane (js_state st) lane) (\<lambda>_.
        res_bind (validate_target (js_state st) to_id) (\<lambda>_.
          Inr (SMLane (next_sequence (js_state st)) lane to_id, ())))) st"

section \<open>Forks\<close>

text \<open>
  Filling the staged file of a fork: one append and one application per mutation. \<open>faults\<close> gives
  what the file system does with the n-th append.
\<close>

fun js_populate ::
  "jsonl_codec \<Rightarrow> string \<Rightarrow> (nat \<Rightarrow> io_fault option) \<Rightarrow> nat \<Rightarrow> session_mutation list \<Rightarrow> string \<Rightarrow>
   session_state \<Rightarrow> string session_result" where
  "js_populate codec path faults n [] file s = Inr file"
| "js_populate codec path faults n (mu # ms) file s =
     res_bind (encode_mutation codec mu) (\<lambda>line.
       case append_text (faults n) path line file of
         (file', Inl e) \<Rightarrow> Inl e
       | (file', Inr _) \<Rightarrow>
           res_bind (apply_mutation mu s) (\<lambda>s'.
             js_populate codec path faults (n + 1) ms file' s'))"

text \<open>\<open>destination\<close> is what the target path held before; the outer \<open>None\<close> is the header's panic.\<close>

definition js_fork ::
  "jsonl_codec \<Rightarrow> string \<Rightarrow> jsonl_v4_header \<Rightarrow> fork_options \<Rightarrow> io_fault option \<Rightarrow>
   int session_result \<Rightarrow> (nat \<Rightarrow> io_fault option) \<Rightarrow> io_fault option \<Rightarrow> load_faults \<Rightarrow> string \<Rightarrow>
   jsonl_storage \<Rightarrow> (string \<times> jsonl_storage session_result) option" where
  "js_fork codec path h options create_fault modified faults rename load destination st =
     (case create_fork_mutations (js_state st) options of
        Inl e \<Rightarrow> Some (destination, Inl e)
      | Inr mutations \<Rightarrow>
          (case js_create codec (path @ ''.tmp'') h create_fault modified of
             None \<Rightarrow> None
           | Some (_, created) \<Rightarrow>
               let staged = res_bind created (\<lambda>target.
                     js_populate codec (path @ ''.tmp'') faults 0 mutations (js_file target)
                       (js_state target))
               in Some (case publish_file_atomically path staged rename destination of
                    (file, Inl e) \<Rightarrow> (file, Inl e)
                  | (file, Inr _) \<Rightarrow> js_load codec path load file)))"

section \<open>Lines of a file\<close>

definition text_line :: "string \<Rightarrow> bool" where
  "text_line t \<longleftrightarrow> t \<noteq> [] \<and> newline \<notin> set t \<and> utf8_text t"

definition content_of :: "string list \<Rightarrow> string" where
  "content_of ts = concat (map (\<lambda>t. t @ [newline]) ts)"

lemma content_of_simps [simp]:
  "content_of [] = []" "content_of (t # ts) = t @ newline # content_of ts"
  "content_of (ts @ us) = content_of ts @ content_of us"
  by (simp_all add: content_of_def)

lemma split_content:
  "list_all text_line ts \<Longrightarrow> newline \<notin> set u \<Longrightarrow> split_lines (content_of ts @ u) = ts @ [u]"
  by (induction ts) (auto simp: split_lines_line split_lines_no text_line_def)

lemma physical_content:
  "list_all text_line ts \<Longrightarrow> newline \<notin> set u \<Longrightarrow>
     physical_lines (content_of ts @ u) = (if u = [] then ts else ts @ [u])"
  by (simp add: physical_lines_def split_content)

lemma physical_terminated:
  "list_all text_line ts \<Longrightarrow> newline \<notin> set u \<Longrightarrow>
     physical_lines (content_of ts @ u @ [newline]) = ts @ [u]"
proof (induction ts)
  case Nil
  then show ?case by (simp add: physical_lines_def split_lines_line)
next
  case (Cons t ts)
  then show ?case
    using split_lines_ne [of "content_of ts @ u @ [newline]"]
    by (auto simp: physical_lines_def Let_def split_lines_line text_line_def split: if_splits)
qed

lemma join_content: "ts \<noteq> [] \<Longrightarrow> join_lines ts @ [newline] = content_of ts"
  by (induction ts rule: join_lines.induct) simp_all

lemma last_content: "ts \<noteq> [] \<Longrightarrow> last (content_of ts) = newline"
  by (induction ts rule: rev_induct) simp_all

lemma utf8_newline [simp]: "utf8_text (newline # s) = utf8_text s"
  by (simp add: utf8_text_def as_bytes_def utf8_valid_def utf8_chunk.simps)

lemma utf8_content: "list_all text_line ts \<Longrightarrow> utf8_text (content_of ts)"
  by (induction ts) (auto simp: text_line_def)

lemma unparsed_syntax:
  "jc_parse codec u = None \<Longrightarrow> \<exists>e. parse_mutation codec u = Inl e \<and> je_kind e = JSyntax"
  by (simp add: parse_mutation_def parse_object_def jsonl_syntax_def)

section \<open>What a file holds\<close>

definition holds_line :: "jsonl_codec \<Rightarrow> session_mutation \<Rightarrow> string \<Rightarrow> bool" where
  "holds_line codec mu t \<longleftrightarrow>
     encode_mutation codec mu = Inr (t @ [newline]) \<and> text_line t \<and> parse_mutation codec t = Inr mu"

lemma line_ok_holds: "line_ok codec mu \<longleftrightarrow> (\<exists>t. holds_line codec mu t)"
  by (auto simp: line_ok_def holds_line_def text_line_def)

text \<open>The file of a session that was given the mutations \<open>ms\<close> and is in state \<open>s\<close>.\<close>

definition file_holds ::
  "jsonl_codec \<Rightarrow> jsonl_v4_header \<Rightarrow> session_mutation list \<Rightarrow> session_state \<Rightarrow> string \<Rightarrow> bool" where
  "file_holds codec h ms s file \<longleftrightarrow>
     (\<exists>ht ts. text_line ht \<and> parse_header codec ht = Inr h \<and>
        list_all2 (holds_line codec) ms ts \<and> file = content_of (ht # ts)) \<and>
     apply_mutations ms session_state_new = Inr s"

lemma replay_held:
  assumes "list_all2 (holds_line codec) ms ts" and "apply_mutations ms s = Inr s'"
  shows "replay_lines codec path i (ts @ us) s = replay_lines codec path (i + length ts) us s'"
  using assms
proof (induction ms ts arbitrary: i s rule: list_all2_induct)
  case (Cons mu ms t ts)
  then show ?case by (auto simp: holds_line_def result_simps)
qed simp

lemma held_lines: "list_all2 (holds_line codec) ms ts \<Longrightarrow> list_all text_line ts"
  by (induction rule: list_all2_induct) (auto simp: holds_line_def)

lemma held_utf8:
  assumes "file_holds codec h ms s file"
  shows "utf8_text (file @ u) = utf8_text u"
proof -
  obtain ht ts where "text_line ht" and "list_all2 (holds_line codec) ms ts"
    and cont: "file = content_of (ht # ts)"
    using assms by (auto simp: file_holds_def)
  then have "list_all text_line (ht # ts)" using held_lines by auto
  from utf8_text_append [OF utf8_content [OF this]] show ?thesis by (simp only: cont)
qed

definition faultless :: "load_faults \<Rightarrow> bool" where
  "faultless faults \<longleftrightarrow>
     lf_read faults = None \<and> lf_stage faults = None \<and> lf_rename faults = None \<and>
     lf_newline faults = None \<and> (\<exists>t. lf_modified faults = Inr t)"

text \<open>
  Loading a held file with something after its last complete line: nothing, a line that is not
  JSON (with or without its newline), or a complete line that lacks its newline.
\<close>

lemma load_torn:
  assumes "file_holds codec h ms s file" and "faultless faults"
    and "newline \<notin> set u" and "utf8_text u" and "u \<noteq> []" and "v = [] \<or> v = [newline]"
    and "parse_mutation codec u = Inl e" and "je_kind e = JSyntax"
  shows "\<exists>st. js_load codec path faults (file @ u @ v) = (file, Inr st) \<and> js_state st = s \<and>
    js_path st = path \<and> js_file st = file"
proof -
  obtain ht ts where ht: "text_line ht" "parse_header codec ht = Inr h"
    and ts: "list_all2 (holds_line codec) ms ts" and cont: "file = content_of (ht # ts)"
    and app: "apply_mutations ms session_state_new = Inr s"
    using assms(1) by (auto simp: file_holds_def)
  have lines: "list_all text_line (ht # ts)" using ht held_lines [OF ts] by simp
  obtain t where t: "lf_modified faults = Inr t" using assms(2) by (auto simp: faultless_def)
  have read: "read_to_string (lf_read faults) (file @ u @ v) = Inr (file @ u @ v)"
    using held_utf8 [OF assms(1), of "u @ v"] assms(2,4,6)
    by (auto simp: read_to_string_def faultless_def utf8_text_append)
  have phys: "physical_lines (file @ u @ v) = (ht # ts) @ [u]"
    unfolding cont
    using physical_content [OF lines assms(3)] physical_terminated [OF lines assms(3)] assms(5,6)
    by auto
  have ne: "ht \<noteq> []" using ht by (simp add: text_line_def)
  have "replay_lines codec path 1 (ts @ [u]) session_state_new = Inr (s, Some (1 + length ts))"
    using replay_held [OF ts app, of path 1 "[u]"] assms(7,8) by simp
  moreover have "join_lines (ht # ts) @ [newline] = file" unfolding cont by (rule join_content) simp
  ultimately show ?thesis
    using read phys ne ht(2) t assms(2)
    by (simp add: js_load_def publish_file_atomically_def faultless_def)
qed

lemma load_held:
  assumes "file_holds codec h ms s file" and "faultless faults"
  shows "\<exists>st. js_load codec path faults file = (file, Inr st) \<and> js_state st = s \<and>
    js_path st = path \<and> js_file st = file"
proof -
  obtain ht ts where ht: "text_line ht" "parse_header codec ht = Inr h"
    and ts: "list_all2 (holds_line codec) ms ts" and cont: "file = content_of (ht # ts)"
    and app: "apply_mutations ms session_state_new = Inr s"
    using assms(1) by (auto simp: file_holds_def)
  have lines: "list_all text_line (ht # ts)" using ht held_lines [OF ts] by simp
  obtain t where t: "lf_modified faults = Inr t" using assms(2) by (auto simp: faultless_def)
  have "read_to_string (lf_read faults) file = Inr file"
    using held_utf8 [OF assms(1), of "[]"] assms(2) by (simp add: read_to_string_def faultless_def)
  moreover have "physical_lines file = ht # ts"
    unfolding cont using physical_content [OF lines, of "[]"] by simp
  moreover have "ht \<noteq> []" using ht by (simp add: text_line_def)
  moreover have "last file = newline" unfolding cont by (rule last_content) simp
  ultimately show ?thesis
    using ht(2) t replay_held [OF ts app, of path 1 "[]"] by (simp add: js_load_def)
qed

lemma load_unterminated:
  assumes "file_holds codec h ms s file" and "faultless faults"
    and "holds_line codec mu u" and "apply_mutation mu s = Inr s'"
  shows "\<exists>st. js_load codec path faults (file @ u) = (file @ u @ [newline], Inr st) \<and>
    js_state st = s' \<and> js_path st = path \<and> js_file st = file @ u @ [newline]"
proof -
  obtain ht ts where ht: "text_line ht" "parse_header codec ht = Inr h"
    and ts: "list_all2 (holds_line codec) ms ts" and cont: "file = content_of (ht # ts)"
    and app: "apply_mutations ms session_state_new = Inr s"
    using assms(1) by (auto simp: file_holds_def)
  have lines: "list_all text_line (ht # ts)" using ht held_lines [OF ts] by simp
  have u: "newline \<notin> set u" "u \<noteq> []" "utf8_text u" "parse_mutation codec u = Inr mu"
    using assms(3) by (auto simp: holds_line_def text_line_def)
  obtain t where t: "lf_modified faults = Inr t" using assms(2) by (auto simp: faultless_def)
  have read: "read_to_string (lf_read faults) (file @ u) = Inr (file @ u)"
    using held_utf8 [OF assms(1), of u] assms(2) u by (simp add: read_to_string_def faultless_def)
  have phys: "physical_lines (file @ u) = (ht # ts) @ [u]"
    unfolding cont using physical_content [OF lines u(1)] u(2) by simp
  have "replay_lines codec path 1 (ts @ [u]) session_state_new = Inr (s', None)"
    using replay_held [OF ts app, of path 1 "[u]"] u(4) assms(4) by simp
  moreover have "last (file @ u) \<noteq> newline" using u last_in_set [of u] by (metis last_appendR)
  moreover have "ht \<noteq> []" using ht by (simp add: text_line_def)
  ultimately show ?thesis
    using read phys ht(2) t assms(2)
    by (simp add: js_load_def append_text_def faultless_def)
qed

section \<open>Reachable storages\<close>

text \<open>
  What a process can do with a session file while the file system does not fail: create it, open
  it, and write to it. The side conditions ask of the libraries that \<^verbatim>\<open>serde\<close> writes and reads the
  payload of a write and that the JSON text of its line parses to what was printed.
\<close>

inductive js_reachable :: "jsonl_codec \<Rightarrow> jsonl_storage \<Rightarrow> bool" for codec where
  jsr_create: "\<lbrakk>js_create codec path h None modified = Some (f, Inr st); header_ok h;
    text_faithful codec (header_to_map h)\<rbrakk> \<Longrightarrow> js_reachable codec st"
| jsr_load: "\<lbrakk>js_reachable codec st; faultless faults;
    js_load codec (js_path st) faults (js_file st) = (f, Inr st')\<rbrakk> \<Longrightarrow> js_reachable codec st'"
| jsr_entry: "\<lbrakk>js_reachable codec st; js_append_entry codec None now e lane st = (st', Inr c);
    libraries_faithful codec (SMEntry (Some lane) c)\<rbrakk> \<Longrightarrow> js_reachable codec st'"
| jsr_record: "\<lbrakk>js_reachable codec st; js_append_record codec None now r st = (st', Inr c);
    libraries_faithful codec (SMRecord c)\<rbrakk> \<Longrightarrow> js_reachable codec st'"
| jsr_name: "\<lbrakk>js_reachable codec st; js_set_name codec None name st = (st', Inr ());
    libraries_faithful codec (SMName (next_sequence (js_state st)) name)\<rbrakk> \<Longrightarrow> js_reachable codec st'"
| jsr_label: "\<lbrakk>js_reachable codec st; js_set_label codec None i label st = (st', Inr ());
    libraries_faithful codec (SMLabel (next_sequence (js_state st)) i label)\<rbrakk> \<Longrightarrow> js_reachable codec st'"
| jsr_create_lane: "\<lbrakk>js_reachable codec st; js_create_lane codec None lane at_id st = (st', Inr ());
    libraries_faithful codec (SMLane (next_sequence (js_state st)) lane at_id)\<rbrakk> \<Longrightarrow> js_reachable codec st'"
| jsr_move_lane: "\<lbrakk>js_reachable codec st; js_move_lane codec None lane to_id st = (st', Inr ());
    libraries_faithful codec (SMLane (next_sequence (js_state st)) lane to_id)\<rbrakk> \<Longrightarrow> js_reachable codec st'"

definition js_holds :: "jsonl_codec \<Rightarrow> jsonl_storage \<Rightarrow> bool" where
  "js_holds codec st \<longleftrightarrow> (\<exists>h ms. file_holds codec h ms (js_state st) (js_file st))"

lemma file_holds_snoc:
  assumes "file_holds codec h ms s file" and "holds_line codec mu t" and "apply_mutation mu s = Inr s'"
  shows "file_holds codec h (ms @ [mu]) s' (file @ t @ [newline])"
proof -
  obtain ht ts where "text_line ht" "parse_header codec ht = Inr h"
    "list_all2 (holds_line codec) ms ts" "file = content_of (ht # ts)"
    using assms(1) by (auto simp: file_holds_def)
  moreover have "apply_mutations (ms @ [mu]) session_state_new = Inr s'"
    using assms(1,3) by (simp add: file_holds_def apply_mutations_append)
  ultimately show ?thesis
    unfolding file_holds_def using assms(2)
    by (intro conjI exI [of _ ht] exI [of _ "ts @ [t]"]) (simp_all add: list_all2_appendI)
qed

text \<open>A successful write is one committed mutation.\<close>

lemma js_write_Inr:
  assumes "js_write codec None checked st = (st', Inr answer)"
  obtains mu line s where "checked = Inr (mu, answer)" and "encode_mutation codec mu = Inr line"
    and "apply_mutation mu (js_state st) = Inr s"
    and "st' = st\<lparr>js_file := js_file st @ line, js_state := s\<rparr>"
  using assms
  by (auto simp: js_write_def js_commit_def append_text_def split: sum.splits prod.splits)

lemma js_write_holds:
  assumes "js_holds codec st" and "js_write codec None checked st = (st', Inr answer)"
    and "\<And>mu. checked = Inr (mu, answer) \<Longrightarrow> line_ok codec mu"
  shows "js_holds codec st'"
proof -
  obtain h ms where h: "file_holds codec h ms (js_state st) (js_file st)"
    using assms(1) by (auto simp: js_holds_def)
  from assms(2) obtain mu line s where w: "checked = Inr (mu, answer)"
    "encode_mutation codec mu = Inr line" "apply_mutation mu (js_state st) = Inr s"
    "st' = st\<lparr>js_file := js_file st @ line, js_state := s\<rparr>"
    by (rule js_write_Inr)
  from assms(3) [OF w(1)] obtain t where t: "holds_line codec mu t" by (auto simp: line_ok_holds)
  then have "line = t @ [newline]" using w(2) by (simp add: holds_line_def)
  with file_holds_snoc [OF h t w(3)] w(4) show ?thesis by (auto simp: js_holds_def)
qed

lemma js_create_held:
  assumes "header_ok h" and "text_faithful codec (header_to_map h)"
  obtains line where "encode_header codec h = Some line"
    and "file_holds codec h [] session_state_new line"
proof -
  from header_line_back [OF assms] obtain t where
    "encode_header codec h = Some (t @ [newline])" "text_line t" "parse_header codec t = Inr h"
    by (auto simp: text_line_def)
  then show thesis by (intro that [of "t @ [newline]"]) (auto simp: file_holds_def intro: exI [of _ t])
qed

lemma js_reachable_holds: "js_reachable codec st \<Longrightarrow> js_holds codec st"
proof (induction rule: js_reachable.induct)
  case (jsr_create path h modified f st)
  obtain line where line: "encode_header codec h = Some line"
    "file_holds codec h [] session_state_new line"
    by (rule js_create_held [OF jsr_create(2,3)])
  with jsr_create(1) have "js_file st = line" "js_state st = session_state_new"
    by (auto simp: js_create_def result_simps)
  with line(2) show ?case by (auto simp: js_holds_def)
next
  case (jsr_load st faults f st')
  then obtain h ms where h: "file_holds codec h ms (js_state st) (js_file st)"
    by (auto simp: js_holds_def)
  from load_held [OF h jsr_load(2), of "js_path st"] jsr_load(3) h show ?case
    by (auto simp: js_holds_def)
next
  case (jsr_entry st now e lane st' c)
  show ?case
    by (rule js_write_holds [OF jsr_entry.IH jsr_entry(2) [unfolded js_append_entry_def]])
      (use libraries_faithful_line [OF jsr_entry(3)] in \<open>auto simp: result_simps Let_def\<close>)
next
  case (jsr_record st now r st' c)
  show ?case
    by (rule js_write_holds [OF jsr_record.IH jsr_record(2) [unfolded js_append_record_def]])
      (use libraries_faithful_line [OF jsr_record(3)] in \<open>auto simp: result_simps Let_def\<close>)
next
  case (jsr_name st name st')
  show ?case
    by (rule js_write_holds [OF jsr_name.IH jsr_name(2) [unfolded js_set_name_def]])
      (use libraries_faithful_line [OF jsr_name(3)] in auto)
next
  case (jsr_label st i label st')
  show ?case
    by (rule js_write_holds [OF jsr_label.IH jsr_label(2) [unfolded js_set_label_def]])
      (use libraries_faithful_line [OF jsr_label(3)] in \<open>auto simp: result_simps\<close>)
next
  case (jsr_create_lane st lane at_id st')
  show ?case
    by (rule js_write_holds [OF jsr_create_lane.IH jsr_create_lane(2) [unfolded js_create_lane_def]])
      (use libraries_faithful_line [OF jsr_create_lane(3)] in \<open>auto simp: result_simps\<close>)
next
  case (jsr_move_lane st lane to_id st')
  show ?case
    by (rule js_write_holds [OF jsr_move_lane.IH jsr_move_lane(2) [unfolded js_move_lane_def]])
      (use libraries_faithful_line [OF jsr_move_lane(3)] in \<open>auto simp: result_simps\<close>)
qed

section \<open>Properties\<close>

text \<open>
  C8. Durability: for every storage a process can reach while the file system does not fail,
  opening its file anew succeeds, leaves the file as it is, and rebuilds exactly the state the
  process had in memory. Asked of the libraries, for what was written: \<^verbatim>\<open>serde\<close> reads the payload it
  wrote, wherever its fields stand in an object, and the JSON text of a line parses to the object it
  was printed from.
\<close>

theorem jsonl_reload:
  assumes "js_reachable codec st" and "faultless faults"
  shows "\<exists>st'. js_load codec (js_path st) faults (js_file st) = (js_file st, Inr st') \<and>
    js_state st' = js_state st"
proof -
  obtain h ms where "file_holds codec h ms (js_state st) (js_file st)"
    using js_reachable_holds [OF assms(1)] by (auto simp: js_holds_def)
  from load_held [OF this assms(2), of "js_path st"] show ?thesis by auto
qed

definition no_faults :: load_faults where
  "no_faults = \<lparr>lf_read = None, lf_modified = Inr 0, lf_stage = None, lf_rename = None, lf_newline = None\<rparr>"

lemma faultless_no_faults [simp]: "faultless no_faults"
  by (simp add: faultless_def no_faults_def)

definition demo_file :: jsonl_storage where
  "demo_file =
     \<lparr>js_path = ''/s'', js_metadata = metadata_from_header (jsonl_header_new ''s'' 0 ''/w'') ''/s'' 0,
      js_state = session_state_new, js_file = ''{h}'' @ [newline]\<rparr>"

lemma demo_file_reachable: "js_reachable demo_jsonl demo_file"
proof (rule jsr_create)
  show "js_create demo_jsonl ''/s'' (jsonl_header_new ''s'' 0 ''/w'') None (Inr 0) =
      Some (''{h}'' @ [newline], Inr demo_file)"
    by (simp add: js_create_def encode_header_def demo_jsonl_def demo_texts_def header_to_map_def
        jsonl_header_new_def optional_field_def demo_file_def)
  show "header_ok (jsonl_header_new ''s'' 0 ''/w'')"
    by (simp add: header_ok_def jsonl_header_new_def)
  show "text_faithful demo_jsonl (header_to_map (jsonl_header_new ''s'' 0 ''/w''))"
    by (rule demo_text_faithful) (simp add: demo_texts_def)
qed

lemma demo_name_line: "holds_line demo_jsonl (SMName 1 (Some ''x'')) ''{n}''"
proof -
  have "text_line ''{n}''"
    using demo_texts_utf8 [of "''{n}''"] by (simp add: text_line_def demo_texts_def)
  moreover have "jc_print demo_jsonl [(''kind'', JString ''fact''),
      (''seq'', JNumber (number_from_i64 1)), (''fact'', JString ''name''), (''name'', JString ''x'')] =
      Inr ''{n}''" and "jc_parse demo_jsonl ''{n}'' = Some (JObject [(''kind'', JString ''fact''),
      (''seq'', JNumber (number_from_i64 1)), (''fact'', JString ''name''), (''name'', JString ''x'')])"
    by (simp_all add: demo_jsonl_def demo_texts_def)
  ultimately show ?thesis
    by (simp add: holds_line_def encode_mutation_def optional_field_def parse_mutation_def
        parse_object_def require_sequence_def json_as_str_def parse_fact_mutation_def
        optional_string_def)
qed

lemma demo_name_applies: "\<exists>s. apply_mutation (SMName 1 (Some ''x'')) session_state_new = Inr s"
  by (simp add: apply_mutation.simps apply_name_def session_state_new_def Let_def)

text \<open>The storage after one entry.\<close>

definition demo_written :: jsonl_storage where
  "demo_written =
     demo_file\<lparr>js_file := js_file demo_file @ ''{e}'' @ [newline],
       js_state := (case apply_mutation (SMEntry (Some ''main'') demo_change) session_state_new of Inr s \<Rightarrow> s)\<rparr>"

lemma demo_written_state:
  "apply_mutation (SMEntry (Some ''main'') demo_change) session_state_new = Inr (js_state demo_written)"
  "ss_entries (js_state demo_written) = [demo_change]"
  "ss_lanes (js_state demo_written) = [\<lparr>lp_lane = ''main'', lp_leaf_id = Some ''e1''\<rparr>]"
  "ss_name (js_state demo_written) = None" "ss_labels (js_state demo_written) = Map.empty"
  by (simp_all add: demo_written_def demo_change_def apply_mutation.simps apply_entry_def session_state_new_def
      lane_slot_def set_leaf_def result_simps)

lemma demo_written_reachable: "js_reachable demo_jsonl demo_written"
proof (rule jsr_entry [OF demo_file_reachable _ demo_faithful(1)])
  have "encode_mutation demo_jsonl (SMEntry (Some ''main'') demo_change) = Inr (''{e}'' @ [newline])"
  proof -
    have "jc_print demo_jsonl ((''kind'', JString ''entry'') # (''lane'', JString ''main'') # demo_change_fields) = Inr ''{e}''"
      by (simp add: demo_jsonl_def demo_texts_def)
    then show ?thesis
      by (simp add: encode_mutation_def demo_change_map lane_field_def optional_field_def del: mutation_to_map.simps(1))
  qed
  moreover have "require_lane (js_state demo_file) ''main'' = Inr None"
    "validate_unused_id (js_state demo_file) ''e1'' = Inr ()"
    by (simp_all add: require_lane_def validate_unused_id_def session_state_new_def lane_slot_def demo_file_def)
  moreover have "\<lparr>e_id = ''e1'', e_seq = next_sequence (js_state demo_file), e_parent_id = None, e_timestamp = 7,
      e_payload = e_payload demo_change, e_extra = e_extra demo_change\<rparr> = demo_change"
    by (simp add: demo_change_def next_sequence_def session_state_new_def demo_file_def)
  moreover have "apply_mutation (SMEntry (Some ''main'') demo_change) (js_state demo_file) = Inr (js_state demo_written)"
    using demo_written_state(1) by (simp add: demo_file_def)
  moreover have "demo_file\<lparr>js_file := js_file demo_file @ ''{e}'' @ [newline], js_state := js_state demo_written\<rparr> = demo_written"
    by (simp add: demo_written_def)
  ultimately show "js_append_entry demo_jsonl None 7 \<lparr>pe_id = ''e1'', pe_payload = e_payload demo_change,
      pe_extra = e_extra demo_change\<rparr> ''main'' demo_file = (demo_written, Inr demo_change)"
    by (simp add: js_append_entry_def js_write_def js_commit_def append_text_def)
qed

theorem jsonl_reload_witness:
  "\<exists>st'. js_load demo_jsonl ''/s'' no_faults (''{h}'' @ [newline] @ ''{e}'' @ [newline]) =
       (''{h}'' @ [newline] @ ''{e}'' @ [newline], Inr st') \<and>
     ss_entries (js_state st') = [demo_change]"
proof -
  have "js_path demo_written = ''/s''" "js_file demo_written = ''{h}'' @ [newline] @ ''{e}'' @ [newline]"
    by (simp_all add: demo_written_def demo_file_def)
  with jsonl_reload [OF demo_written_reachable faultless_no_faults] demo_written_state(2) show ?thesis by auto
qed

lemma load_cut:
  assumes "file_holds codec h ms s body" and "faultless faults" and "text_line t"
    and "utf8_text (take k t)" and "0 < k \<Longrightarrow> jc_parse codec (take k t) = None"
  shows "\<exists>st. js_load codec path faults (body @ take k t) = (body, Inr st) \<and> js_state st = s"
proof (cases "take k t = []")
  case True
  then show ?thesis using load_held [OF assms(1,2), of path] by auto
next
  case False
  then have "0 < k" by (cases k) simp_all
  then obtain e where "parse_mutation codec (take k t) = Inl e" "je_kind e = JSyntax"
    using assms(5) unparsed_syntax by blast
  moreover have "newline \<notin> set (take k t)"
    using assms(3) in_set_takeD by (fastforce simp: text_line_def)
  ultimately show ?thesis
    using load_torn [OF assms(1,2), of "take k t" "[]" e path] False assms(4) by auto
qed

text \<open>
  C9. A crash in the middle of a write loses at most that write. Whatever number of bytes of the
  line reached the file, opening it anew gives the state before the write and the file without
  the torn line, or, when only the newline is missing or nothing is, the state after the write
  and the complete line. The one exception is a cut inside a multi-byte character, which no
  reopening gets past. Asked of the JSON text: a cut-off line is not JSON.
\<close>

theorem jsonl_crash_atomic:
  assumes "js_reachable codec st" and "faultless faults" and "line_ok codec mu"
    and "apply_mutation mu (js_state st) = Inr s"
    and "\<And>t k. \<lbrakk>encode_mutation codec mu = Inr (t @ [newline]); 0 < k; k < length t\<rbrakk> \<Longrightarrow>
      jc_parse codec (take k t) = None"
  shows "\<exists>t. encode_mutation codec mu = Inr (t @ [newline]) \<and>
    (let torn = js_file (fst (js_commit codec (Some f) mu st));
         (file, result) = js_load codec (js_path st) faults torn
     in if \<not> utf8_text (take (fa_written f) t)
        then file = torn \<and> (\<exists>m. result = Inl (Storage m))
        else \<exists>st'. result = Inr st' \<and>
          (if fa_written f < length t
           then js_state st' = js_state st \<and> file = js_file st
           else js_state st' = s \<and> file = js_file st @ t @ [newline]))"
proof -
  obtain t where t: "holds_line codec mu t" using assms(3) by (auto simp: line_ok_holds)
  then have enc: "encode_mutation codec mu = Inr (t @ [newline])" and line: "text_line t"
    by (auto simp: holds_line_def)
  obtain h ms where h: "file_holds codec h ms (js_state st) (js_file st)"
    using js_reachable_holds [OF assms(1)] by (auto simp: js_holds_def)
  let ?k = "fa_written f"
  have torn: "js_file (fst (js_commit codec (Some f) mu st)) = js_file st @ take ?k (t @ [newline])"
    by (simp add: js_commit_def enc append_text_def)
  consider (cut) "?k < length t" "\<not> utf8_text (take ?k t)" | (short) "?k < length t" "utf8_text (take ?k t)"
    | (bare) "?k = length t" | (whole) "?k > length t" by linarith
  then have "case js_load codec (js_path st) faults (js_file st @ take ?k (t @ [newline])) of
      (file, result) \<Rightarrow>
      if \<not> utf8_text (take ?k t)
      then file = js_file st @ take ?k (t @ [newline]) \<and> (\<exists>m. result = Inl (Storage m))
      else \<exists>st'. result = Inr st' \<and>
          (if ?k < length t then js_state st' = js_state st \<and> file = js_file st
           else js_state st' = s \<and> file = js_file st @ t @ [newline])"
  proof cases
    case cut
    then have "\<not> utf8_text (js_file st @ take ?k t)" using held_utf8 [OF h] by simp
    with cut assms(2) show ?thesis
      by (simp add: js_load_def read_to_string_def faultless_def io_error_def)
  next
    case short
    have "0 < ?k \<Longrightarrow> jc_parse codec (take ?k t) = None" using assms(5) [OF enc] short(1) by blast
    with load_cut [OF h assms(2) line short(2), of "js_path st"] short show ?thesis by auto
  next
    case bare
    with load_unterminated [OF h assms(2) t assms(4), of "js_path st"] line show ?thesis
      by (auto simp: text_line_def)
  next
    case whole
    with load_held [OF file_holds_snoc [OF h t assms(4)] assms(2), of "js_path st"] line
    show ?thesis by (auto simp: text_line_def)
  qed
  then show ?thesis by (intro exI [of _ t] conjI enc) (simp only: torn Let_def)
qed

lemma demo_line_ok: "line_ok demo_jsonl (SMName 1 (Some ''x''))"
  using demo_name_line by (auto simp: line_ok_holds)

definition demo_fault :: io_fault where
  "demo_fault = \<lparr>fa_missing = False, fa_text = ''full'', fa_written = 1\<rparr>"

theorem jsonl_crash_atomic_witness:
  "\<exists>st'. js_load demo_jsonl ''/s'' no_faults (''{h}'' @ [newline] @ ''{'') =
     (''{h}'' @ [newline], Inr st') \<and> js_state st' = session_state_new"
proof -
  obtain s where s: "apply_mutation (SMName 1 (Some ''x'')) (js_state demo_file) = Inr s"
    using demo_name_applies by (auto simp: demo_file_def)
  have enc: "encode_mutation demo_jsonl (SMName 1 (Some ''x'')) = Inr (''{n}'' @ [newline])"
    using demo_name_line by (simp add: holds_line_def)
  have "jc_parse demo_jsonl (take k ''{n}'') = None" if "0 < k" "k < 3" for k
  proof -
    have "k = 1 \<or> k = 2" using that by arith
    then show ?thesis by (auto simp: demo_jsonl_def demo_texts_def)
  qed
  with enc have "jc_parse demo_jsonl (take k t) = None"
    if "encode_mutation demo_jsonl (SMName 1 (Some ''x'')) = Inr (t @ [newline])" "0 < k" "k < length t"
    for t k using that by simp
  from jsonl_crash_atomic [OF demo_file_reachable faultless_no_faults demo_line_ok s this, of demo_fault]
  show ?thesis
    by (auto simp: enc demo_fault_def demo_file_def js_commit_def append_text_def utf8_text_ascii)
qed

text \<open>
  C40. A failed append takes the next one down with it. The error of \<^verbatim>\<open>write_all\<close> leaves the bytes it
  wrote in the file and the handle in use; the next append is acknowledged but written behind
  those bytes on the same line, so that opening the file anew drops it as a torn line.
\<close>

theorem jsonl_failed_append_loses_next:
  assumes "js_reachable codec st" and "faultless faults"
    and "line_ok codec mu" and "0 < fa_written f" and "encode_mutation codec mu = Inr (t @ [newline])"
    and "fa_written f < length t" and "utf8_text (take (fa_written f) t)"
    and "line_ok codec mu'" and "apply_mutation mu' (js_state st) = Inr s'"
    and "\<And>t'. encode_mutation codec mu' = Inr (t' @ [newline]) \<Longrightarrow>
      jc_parse codec (take (fa_written f) t @ t') = None"
  shows "\<exists>st1 e st2 st3. js_commit codec (Some f) mu st = (st1, Inl e) \<and>
    js_commit codec None mu' st1 = (st2, Inr ()) \<and> js_state st2 = s' \<and>
    js_load codec (js_path st) faults (js_file st2) = (js_file st, Inr st3) \<and>
    js_state st3 = js_state st"
proof -
  let ?p = "take (fa_written f) t"
  obtain h ms where h: "file_holds codec h ms (js_state st) (js_file st)"
    using js_reachable_holds [OF assms(1)] by (auto simp: js_holds_def)
  obtain t' where t': "encode_mutation codec mu' = Inr (t' @ [newline])" "text_line t'"
    using assms(8) by (auto simp: line_ok_holds holds_line_def)
  have "newline \<notin> set t" using assms(3,5) by (auto simp: line_ok_holds holds_line_def text_line_def)
  then have no: "newline \<notin> set (?p @ t')"
    using t'(2) in_set_takeD by (fastforce simp: text_line_def)
  have utf: "utf8_text (?p @ t')" using utf8_text_append [OF assms(7)] t'(2) by (simp add: text_line_def)
  obtain e where e: "parse_mutation codec (?p @ t') = Inl e" "je_kind e = JSyntax"
    using assms(10) [OF t'(1)] unparsed_syntax by blast
  have "?p @ t' \<noteq> []" using t'(2) by (simp add: text_line_def)
  from load_torn [OF h assms(2) no utf this disjI2 [OF refl] e, of "js_path st"]
  show ?thesis
    using assms(5,6,9) t'(1) by (auto simp: js_commit_def append_text_def)
qed

theorem jsonl_failed_append_loses_next_witness:
  "\<exists>st1 e st2 st3. js_commit demo_jsonl (Some demo_fault) (SMName 1 (Some ''x'')) demo_file = (st1, Inl e) \<and>
    js_commit demo_jsonl None (SMName 1 (Some ''x'')) st1 = (st2, Inr ()) \<and> ss_name (js_state st2) = Some ''x'' \<and>
    js_load demo_jsonl ''/s'' no_faults (js_file st2) = (js_file demo_file, Inr st3) \<and>
    ss_name (js_state st3) = None"
proof -
  obtain s where s: "apply_mutation (SMName 1 (Some ''x'')) (js_state demo_file) = Inr s"
    and name: "ss_name s = Some ''x''"
    by (simp add: apply_mutation.simps apply_name_def session_state_new_def Let_def demo_file_def)
  have enc: "encode_mutation demo_jsonl (SMName 1 (Some ''x'')) = Inr (''{n}'' @ [newline])"
    using demo_name_line by (simp add: holds_line_def)
  have torn: "take (fa_written demo_fault) ''{n}'' = ''{''" by (simp add: demo_fault_def)
  have "0 < fa_written demo_fault" "fa_written demo_fault < length ''{n}''"
    by (simp_all add: demo_fault_def)
  moreover have "utf8_text (take (fa_written demo_fault) ''{n}'')"
    unfolding torn by (rule utf8_text_ascii) simp
  moreover have "jc_parse demo_jsonl (take (fa_written demo_fault) ''{n}'' @ t') = None"
    if "encode_mutation demo_jsonl (SMName 1 (Some ''x'')) = Inr (t' @ [newline])" for t'
    using that enc unfolding torn by (simp add: demo_jsonl_def demo_texts_def)
  ultimately obtain st1 e st2 st3
    where "js_commit demo_jsonl (Some demo_fault) (SMName 1 (Some ''x'')) demo_file = (st1, Inl e)"
      "js_commit demo_jsonl None (SMName 1 (Some ''x'')) st1 = (st2, Inr ())" "js_state st2 = s"
      "js_load demo_jsonl (js_path demo_file) no_faults (js_file st2) = (js_file demo_file, Inr st3)"
      "js_state st3 = js_state demo_file"
    using jsonl_failed_append_loses_next [OF demo_file_reachable faultless_no_faults demo_line_ok _
        enc _ _ demo_line_ok s, of demo_fault] by blast
  moreover have "js_path demo_file = ''/s''" "ss_name (js_state demo_file) = None"
    by (simp_all add: demo_file_def session_state_new_def)
  ultimately show ?thesis using name by metis
qed


section \<open>Refinement of the in-memory backend\<close>

definition js_abs :: "jsonl_storage \<Rightarrow> in_memory_storage" where
  "js_abs st = \<lparr>im_metadata = js_metadata st, im_state = js_state st\<rparr>"

text \<open>
  A write of the file backend against the same write in memory: it is refused alike or gives the
  same answer and the same state, unless the file system fails or the line cannot be written,
  and then the state in memory is the one before.
\<close>

definition js_refines ::
  "jsonl_codec \<Rightarrow> io_fault option \<Rightarrow> jsonl_storage \<Rightarrow> jsonl_storage \<times> 'a session_result \<Rightarrow>
   (in_memory_storage \<times> 'a) session_result \<Rightarrow> bool" where
  "js_refines codec fault st concrete memory \<longleftrightarrow>
     (case snd concrete of
        Inr a \<Rightarrow> fault = None \<and> memory = Inr (js_abs (fst concrete), a)
      | Inl e \<Rightarrow>
          js_abs (fst concrete) = js_abs st \<and>
          (memory = Inl e \<or> fault \<noteq> None \<or> (\<exists>mu. encode_mutation codec mu = Inl e)))"

lemma js_write_refines:
  assumes "memory = res_bind checked (\<lambda>(mu, a).
      res_bind (im_apply mu (js_abs st)) (\<lambda>im. Inr (im, a)))"
  shows "js_refines codec fault st (js_write codec fault checked st) memory"
proof (cases checked)
  case (Inr p)
  obtain mu a where p: "p = (mu, a)" by (cases p)
  show ?thesis
    by (cases "encode_mutation codec mu"; cases "apply_mutation mu (js_state st)"; cases fault)
      (auto simp: Inr p assms js_refines_def js_write_def js_commit_def append_text_def im_apply_def
        js_abs_def result_simps)
qed (simp add: assms js_refines_def js_write_def result_simps)

lemma im_state_abs [simp]: "im_state (js_abs st) = js_state st"
  by (simp add: js_abs_def)

text \<open>
  C21. The file backend refines the in-memory backend: each of its six writes, whatever the file
  system does, answers as the in-memory write on the projected state answers and reaches the
  projected state of it; where the file system or the serialisation fails it returns the error
  and the session in memory is as before.
\<close>

theorem jsonl_refines_memory:
  "js_refines codec fault st (js_append_entry codec fault now e lane st) (im_append_entry now e lane (js_abs st)) \<and>
   js_refines codec fault st (js_append_record codec fault now r st) (im_append_record now r (js_abs st)) \<and>
   js_refines codec fault st (js_set_name codec fault name st)
     (res_bind (im_set_name name (js_abs st)) (\<lambda>im. Inr (im, ()))) \<and>
   js_refines codec fault st (js_set_label codec fault i label st)
     (res_bind (im_set_label i label (js_abs st)) (\<lambda>im. Inr (im, ()))) \<and>
   js_refines codec fault st (js_create_lane codec fault lane at_id st)
     (res_bind (im_create_lane lane at_id (js_abs st)) (\<lambda>im. Inr (im, ()))) \<and>
   js_refines codec fault st (js_move_lane codec fault lane to_id st)
     (res_bind (im_move_lane lane to_id (js_abs st)) (\<lambda>im. Inr (im, ())))"
  unfolding js_append_entry_def js_append_record_def js_set_name_def js_set_label_def
    js_create_lane_def js_move_lane_def
  by (intro conjI js_write_refines)
    (simp_all add: im_append_entry_def im_append_record_def im_set_name_def im_set_label_def
      im_create_lane_def im_move_lane_def res_bind_assoc Let_def result_simps)


lemma js_populate_held:
  assumes "file_holds codec h ms0 s body" and "list_all (line_ok codec) ms"
  shows "case apply_mutations ms s of
      Inl e \<Rightarrow> js_populate codec path (\<lambda>_. None) n ms body s = Inl e
    | Inr s' \<Rightarrow> \<exists>body'. js_populate codec path (\<lambda>_. None) n ms body s = Inr body' \<and>
        file_holds codec h (ms0 @ ms) s' body'"
  using assms
proof (induction ms arbitrary: ms0 s body n)
  case (Cons mu ms)
  from Cons.prems(2) obtain t where t: "holds_line codec mu t" by (auto simp: line_ok_holds)
  then have enc: "encode_mutation codec mu = Inr (t @ [newline])" by (simp add: holds_line_def)
  show ?case
  proof (cases "apply_mutation mu s")
    case (Inr s1)
    from Cons.IH [OF file_holds_snoc [OF Cons.prems(1) t Inr], of "n + 1"] Cons.prems(2)
    show ?thesis
      by (cases "apply_mutations ms s1") (simp_all add: enc append_text_def result_simps Inr)
  qed (simp add: enc append_text_def result_simps)
qed simp

text \<open>
  C35. A fork of the file backend contains what the fork in memory contains: refused with the same
  error and the target file untouched, or published as a file whose reopened state is the state
  of the in-memory fork. The file system does not fail, and of the libraries the same is asked for the
  lines of the fork as for other writes.
\<close>

theorem jsonl_fork_refines:
  assumes "header_ok h" and "text_faithful codec (header_to_map h)" and "faultless load"
    and "\<And>ms. create_fork_mutations (js_state st) options = Inr ms \<Longrightarrow>
      list_all (libraries_faithful codec) ms"
  shows "case im_fork metadata options (js_abs st) of
      Inl e \<Rightarrow> js_fork codec path h options None (Inr t) (\<lambda>_. None) None load destination st =
        Some (destination, Inl e)
    | Inr im \<Rightarrow> \<exists>file st'. js_fork codec path h options None (Inr t) (\<lambda>_. None) None load destination st =
        Some (file, Inr st') \<and> js_state st' = im_state im \<and> js_path st' = path \<and> js_file st' = file"
proof (cases "create_fork_mutations (js_state st) options")
  case (Inr ms)
  obtain line where line: "encode_header codec h = Some line"
    "file_holds codec h [] session_state_new line"
    by (rule js_create_held [OF assms(1,2)])
  have "list_all (line_ok codec) ms"
    using assms(4) [OF Inr] libraries_faithful_line by (simp add: list_all_iff)
  note pop = js_populate_held [OF line(2) this, of "path @ ''.tmp''" 0]
  show ?thesis
  proof (cases "apply_mutations ms session_state_new")
    case (Inr s')
    with pop obtain body where f: "js_populate codec (path @ ''.tmp'') (\<lambda>_. None) 0 ms line
        session_state_new = Inr body" "file_holds codec h ms s' body" by auto
    from load_held [OF f(2) assms(3), of path] f(1) show ?thesis
      using Inr \<open>create_fork_mutations (js_state st) options = Inr ms\<close> line(1)
      by (auto simp: js_fork_def im_fork_def in_memory_new_def js_create_def result_simps
          publish_file_atomically_def)
  qed (use pop Inr line(1) in \<open>simp add: js_fork_def im_fork_def in_memory_new_def js_create_def
        result_simps publish_file_atomically_def\<close>)
qed (simp add: js_fork_def im_fork_def result_simps)

theorem jsonl_fork_refines_witness:
  "\<exists>file st'. js_fork demo_jsonl ''/t'' (jsonl_header_new ''s'' 0 ''/w'') fork_options_tree None (Inr 0)
       (\<lambda>_. None) None no_faults [] demo_written = Some (file, Inr st') \<and>
     (\<exists>im. im_fork (session_metadata_new ''t'' 0) fork_options_tree (js_abs demo_written) = Inr im \<and>
       js_state st' = im_state im)"
proof -
  have ms: "create_fork_mutations (js_state demo_written) fork_options_tree =
      Inr [SMEntry None demo_change, SMLane 2 ''main'' (Some ''e1'')]"
    by (simp add: create_fork_mutations_def fork_contents_tree fork_options_tree_def fork_options_default_def
        scope_or_default_def demo_written_state Let_def) (simp add: demo_change_def)
  have ex: "\<exists>im. im_fork (session_metadata_new ''t'' 0) fork_options_tree (js_abs demo_written) = Inr im"
    using ms by (simp add: im_fork_def in_memory_new_def apply_mutation.simps apply_lane_def apply_entry_def
        session_state_new_def result_simps demo_change_def)
  have "header_ok (jsonl_header_new ''s'' 0 ''/w'')" by (simp add: header_ok_def jsonl_header_new_def)
  moreover have "text_faithful demo_jsonl (header_to_map (jsonl_header_new ''s'' 0 ''/w''))"
    by (rule demo_text_faithful) (simp add: demo_texts_def)
  moreover have "list_all (libraries_faithful demo_jsonl) ms"
    if "create_fork_mutations (js_state demo_written) fork_options_tree = Inr ms" for ms
    using that ms demo_faithful by auto
  ultimately show ?thesis
    using ex jsonl_fork_refines [OF _ _ faultless_no_faults, where h = "jsonl_header_new ''s'' 0 ''/w''"
        and codec = demo_jsonl and st = demo_written and options = fork_options_tree and
        metadata = "session_metadata_new ''t'' 0" and path = "''/t''" and t = 0 and destination = "[]"]
    by fastforce
qed

end
