(* ===== verification/Session_Compaction.thy ===== *)
theory Session_Compaction
  imports Session_Context
begin

text \<open>
  Deciding what a compaction summarises: the pure part of
  \<^verbatim>\<open>pi-rs/crates/pi-session/src/compaction/compaction.rs\<close> (token estimates, cut points and the prepared
  inputs) with the file lists of \<^verbatim>\<open>utils.rs\<close>. The record \<open>compaction_serde\<close> holds what \<^verbatim>\<open>serde_json\<close>
  supplies. An index or range out of bounds, where Rust panics, is \<open>None\<close> of an outer option. Token
  sums over messages that are in memory at once stay far below \<open>2 ^ 63\<close>; where a number of a
  provider or of the settings enters, the \<^verbatim>\<open>i64\<close> wrap-around is written out.
\<close>

section \<open>Token estimates\<close>

record compaction_serde =
  cv_to_string :: "json \<Rightarrow> string option"
  cv_details :: "json \<Rightarrow> (string list \<times> string list) option"

record compaction_settings =
  cs_enabled :: bool
  cs_reserve_tokens :: int
  cs_keep_recent_tokens :: int

definition DEFAULT_COMPACTION_SETTINGS :: compaction_settings where
  "DEFAULT_COMPACTION_SETTINGS =
     \<lparr>cs_enabled = True, cs_reserve_tokens = 16384, cs_keep_recent_tokens = 20000\<rparr>"

definition calculate_context_tokens :: "usage \<Rightarrow> int" where
  "calculate_context_tokens u = context_tokens u"

definition assistant_usage :: "agent_message \<Rightarrow> usage option" where
  "assistant_usage m =
     (case m of
        AAssistant a \<Rightarrow>
          if am_stop_reason a = SRAborted \<or> am_stop_reason a = SRError then None
          else if calculate_context_tokens (am_usage a) > 0 then Some (am_usage a) else None
      | _ \<Rightarrow> None)"

definition get_last_assistant_usage :: "entry list \<Rightarrow> usage option" where
  "get_last_assistant_usage es =
     find_map (\<lambda>e. Option.bind (as_message e) (\<lambda>m. assistant_usage (me_message m))) (rev es)"

definition should_compact :: "int \<Rightarrow> int \<Rightarrow> compaction_settings \<Rightarrow> bool" where
  "should_compact tokens context_window settings \<longleftrightarrow>
     cs_enabled settings \<and> tokens > i64_wrap (context_window - cs_reserve_tokens settings)"

definition ESTIMATED_IMAGE_CHARS :: nat where
  "ESTIMATED_IMAGE_CHARS = 4800"

definition input_content_chars :: "input_content list \<Rightarrow> nat" where
  "input_content_chars content =
     (\<Sum>block\<leftarrow>content. case block of
        ICText t \<Rightarrow> chars_count (tc_text t) | ICImage _ \<Rightarrow> ESTIMATED_IMAGE_CHARS)"

fun user_content_chars :: "user_content \<Rightarrow> nat" where
  "user_content_chars (UCText t) = chars_count t"
| "user_content_chars (UCBlocks blocks) = input_content_chars blocks"

definition estimate_tokens :: "compaction_serde \<Rightarrow> agent_message \<Rightarrow> int" where
  "estimate_tokens serde m =
     (let chars = (case m of
          AUser u \<Rightarrow> user_content_chars (um_content u)
        | AAssistant a \<Rightarrow>
            (\<Sum>block\<leftarrow>am_content a. case block of
               ACText t \<Rightarrow> chars_count (tc_text t)
             | ACThinking t \<Rightarrow> chars_count (th_thinking t)
             | ACToolCall call \<Rightarrow>
                 chars_count (call_name call) +
                 chars_count (case cv_to_string serde (JObject (call_arguments call)) of
                   Some t \<Rightarrow> t | None \<Rightarrow> ''[unserializable]''))
        | AToolResult r \<Rightarrow> input_content_chars (tr_content r)
        | ACustom c \<Rightarrow> user_content_chars (cm_content c)
        | ABashExecution b \<Rightarrow> chars_count (be_command b) + chars_count (be_output b)
        | ABranchSummary s \<Rightarrow> chars_count (bm_summary s)
        | ACompactionSummary s \<Rightarrow> chars_count (csm_summary s))
      in int ((chars + 3) div 4))"

record context_usage_estimate =
  cue_tokens :: int
  cue_usage_tokens :: int
  cue_trailing_tokens :: int
  cue_last_usage_index :: "nat option"

definition estimate_context_tokens ::
  "compaction_serde \<Rightarrow> agent_message list \<Rightarrow> context_usage_estimate" where
  "estimate_context_tokens serde messages =
     (case find_map (\<lambda>(index, m). map_option (\<lambda>u. (index, u)) (assistant_usage m))
             (rev (enumerate 0 messages)) of
        None \<Rightarrow>
          let estimated = (\<Sum>m\<leftarrow>messages. estimate_tokens serde m)
          in \<lparr>cue_tokens = estimated, cue_usage_tokens = 0, cue_trailing_tokens = estimated,
              cue_last_usage_index = None\<rparr>
      | Some (index, u) \<Rightarrow>
          let usage_tokens = calculate_context_tokens u;
              trailing_tokens = (\<Sum>m\<leftarrow>drop (index + 1) messages. estimate_tokens serde m)
          in \<lparr>cue_tokens = i64_wrap (usage_tokens + trailing_tokens),
              cue_usage_tokens = usage_tokens, cue_trailing_tokens = trailing_tokens,
              cue_last_usage_index = Some index\<rparr>)"

section \<open>Cut points\<close>

definition message_from_entry :: "entry \<Rightarrow> agent_message option" where
  "message_from_entry e =
     (case e_payload e of
        EPMessage m \<Rightarrow> Some (me_message m)
      | EPBranchSummary b \<Rightarrow>
          Some (ABranchSummary
            (create_branch_summary_message (bs_summary b) (bs_from_id b) (e_timestamp e)))
      | EPCompaction c \<Rightarrow>
          Some (ACompactionSummary
            (create_compaction_summary_message (ce_summary c) (ce_tokens_before c) (e_timestamp e)))
      | _ \<Rightarrow> None)"

definition message_from_entry_for_compaction :: "entry \<Rightarrow> agent_message option" where
  "message_from_entry_for_compaction e =
     (if entry_type_of e = ETCompaction then None else message_from_entry e)"

definition is_tool_result :: "agent_message \<Rightarrow> bool" where
  "is_tool_result m = (case m of AToolResult _ \<Rightarrow> True | _ \<Rightarrow> False)"

definition find_valid_cut_points :: "entry list \<Rightarrow> nat \<Rightarrow> nat \<Rightarrow> nat list" where
  "find_valid_cut_points es start_index end_index =
     concat (map (\<lambda>(index, e).
       (case as_message e of
          Some m \<Rightarrow> if \<not> is_tool_result (me_message m) then [index] else []
        | None \<Rightarrow> []) @
       (if entry_type_of e = ETBranchSummary then [index] else []))
       (drop start_index (take end_index (enumerate 0 es))))"

definition starts_turn :: "entry \<Rightarrow> bool" where
  "starts_turn e \<longleftrightarrow>
     entry_type_of e = ETBranchSummary \<or>
     (case as_message e of
        Some m \<Rightarrow>
          (case me_message m of AUser _ \<Rightarrow> True | ABashExecution _ \<Rightarrow> True | _ \<Rightarrow> False)
      | None \<Rightarrow> False)"

fun find_turn_start_index :: "entry list \<Rightarrow> nat \<Rightarrow> nat \<Rightarrow> nat option option" where
  "find_turn_start_index es index start_index =
     (if index \<ge> length es then None
      else if starts_turn (es ! index) then Some (Some index)
      else if index = start_index then Some None
      else case index of 0 \<Rightarrow> None | Suc j \<Rightarrow> find_turn_start_index es j start_index)"

declare find_turn_start_index.simps [simp del]

record cut_point_result =
  cp_first_kept_entry_index :: nat
  cp_turn_start_index :: "nat option"
  cp_is_split_turn :: bool

text \<open>The loop over the indices from the newest entry down, and the walk back.\<close>

fun search_cut ::
  "compaction_serde \<Rightarrow> entry list \<Rightarrow> nat list \<Rightarrow> int \<Rightarrow> int \<Rightarrow> nat list \<Rightarrow> nat \<Rightarrow> nat" where
  "search_cut serde es cut_points keep accumulated [] cut_index = cut_index"
| "search_cut serde es cut_points keep accumulated (index # rest) cut_index =
     (case as_message (es ! index) of
        None \<Rightarrow> search_cut serde es cut_points keep accumulated rest cut_index
      | Some m \<Rightarrow>
          let accumulated = accumulated + estimate_tokens serde (me_message m)
          in if accumulated \<ge> keep
             then (case find (\<lambda>candidate. candidate \<ge> index) cut_points of
                     Some candidate \<Rightarrow> candidate | None \<Rightarrow> cut_index)
             else search_cut serde es cut_points keep accumulated rest cut_index)"

fun walk_back :: "entry list \<Rightarrow> nat \<Rightarrow> nat \<Rightarrow> nat" where
  "walk_back es start_index 0 = 0"
| "walk_back es start_index (Suc j) =
     (if Suc j > start_index \<and> entry_type_of (es ! j) \<notin> {ETCompaction, ETMessage}
      then walk_back es start_index j else Suc j)"

definition is_user_message :: "entry \<Rightarrow> bool" where
  "is_user_message e =
     (case as_message e of
        Some m \<Rightarrow> (case me_message m of AUser _ \<Rightarrow> True | _ \<Rightarrow> False) | None \<Rightarrow> False)"

definition find_cut_point ::
  "compaction_serde \<Rightarrow> entry list \<Rightarrow> nat \<Rightarrow> nat \<Rightarrow> int \<Rightarrow> cut_point_result option" where
  "find_cut_point serde es start_index end_index keep =
     (let cut_points = find_valid_cut_points es start_index end_index in
      if cut_points = []
      then Some \<lparr>cp_first_kept_entry_index = start_index, cp_turn_start_index = None,
                 cp_is_split_turn = False\<rparr>
      else if end_index > length es then None
      else
        let cut_index = search_cut serde es cut_points keep 0 (rev [start_index..<end_index])
              (hd cut_points);
            cut_index = walk_back es start_index cut_index;
            user = is_user_message (es ! cut_index)
        in map_option (\<lambda>turn_start.
             \<lparr>cp_first_kept_entry_index = cut_index, cp_turn_start_index = turn_start,
              cp_is_split_turn = \<not> user \<and> turn_start \<noteq> None\<rparr>)
             (if user then Some None else find_turn_start_index es cut_index start_index))"

section \<open>File operations\<close>

record file_operations =
  fop_read :: "string set"
  fop_written :: "string set"
  fop_edited :: "string set"

definition create_file_ops :: file_operations where
  "create_file_ops = \<lparr>fop_read = {}, fop_written = {}, fop_edited = {}\<rparr>"

definition extract_call :: "tool_call \<Rightarrow> file_operations \<Rightarrow> file_operations" where
  "extract_call call ops =
     (case map_of (call_arguments call) ''path'' of
        Some (JString path) \<Rightarrow>
          if call_name call = ''read'' then ops\<lparr>fop_read := insert path (fop_read ops)\<rparr>
          else if call_name call = ''write'' then ops\<lparr>fop_written := insert path (fop_written ops)\<rparr>
          else if call_name call = ''edit'' then ops\<lparr>fop_edited := insert path (fop_edited ops)\<rparr>
          else ops
      | _ \<Rightarrow> ops)"

definition extract_file_ops_from_message ::
  "agent_message \<Rightarrow> file_operations \<Rightarrow> file_operations" where
  "extract_file_ops_from_message m ops =
     (case m of AAssistant a \<Rightarrow> fold extract_call (tool_calls a) ops | _ \<Rightarrow> ops)"

text \<open>A \<^verbatim>\<open>BTreeSet\<close> iterates in the byte order of its strings.\<close>

definition compute_file_lists :: "file_operations \<Rightarrow> string list \<times> string list" where
  "compute_file_lists ops =
     (let modified = fop_edited ops \<union> fop_written ops
      in (filter (\<lambda>path. path \<notin> modified) (sorted_list_of_set (fop_read ops)),
          sorted_list_of_set modified))"

definition extend_details :: "compaction_serde \<Rightarrow> json option \<Rightarrow> file_operations \<Rightarrow> file_operations" where
  "extend_details serde details ops =
     (case Option.bind details (cv_details serde) of
        Some (read_files, modified_files) \<Rightarrow>
          ops\<lparr>fop_read := fop_read ops \<union> set read_files,
              fop_edited := fop_edited ops \<union> set modified_files\<rparr>
      | None \<Rightarrow> ops)"

definition extract_file_operations ::
  "compaction_serde \<Rightarrow> agent_message list \<Rightarrow> entry list \<Rightarrow> nat option \<Rightarrow> file_operations" where
  "extract_file_operations serde messages es prev_compaction_index =
     fold extract_file_ops_from_message messages
       (case prev_compaction_index of
          None \<Rightarrow> create_file_ops
        | Some index \<Rightarrow>
            (case as_compaction (es ! index) of
               Some c \<Rightarrow> extend_details serde (ce_details c) create_file_ops
             | None \<Rightarrow> create_file_ops))"

section \<open>Preparing a compaction\<close>

record compaction_preparation =
  prep_messages_to_summarize :: "agent_message list"
  prep_turn_prefix_messages :: "agent_message list"
  prep_retained_tail :: "agent_message list"
  prep_is_split_turn :: bool
  prep_tokens_before :: int
  prep_previous_summary :: "string option"
  prep_file_ops :: file_operations
  prep_settings :: compaction_settings

text \<open>The retained tail of the previous compaction as virtual entries.\<close>

definition virtual_entry :: "entry \<Rightarrow> nat \<Rightarrow> agent_message \<Rightarrow> entry" where
  "virtual_entry c tail_index m =
     \<lparr>e_id = e_id c @ '':retained:'' @ show_nat tail_index, e_seq = e_seq c,
      e_parent_id =
        Some (if tail_index = 0 then e_id c
              else e_id c @ '':retained:'' @ show_nat (tail_index - 1)),
      e_timestamp = agent_message_timestamp m,
      e_payload = EPMessage \<lparr>me_message = m, me_terminate = None\<rparr>, e_extra = []\<rparr>"

definition virtual_entries :: "entry \<Rightarrow> agent_message list \<Rightarrow> entry list" where
  "virtual_entries c tail = map (\<lambda>(i, m). virtual_entry c i m) (enumerate 0 tail)"

definition compactable :: "entry list \<Rightarrow> (string option \<times> entry list) option" where
  "compactable path_entries =
     (case rposition (\<lambda>e. entry_type_of e = ETCompaction) path_entries of
        None \<Rightarrow> Some (None, path_entries)
      | Some index \<Rightarrow>
          map_option (\<lambda>prev.
            (Some (ce_summary prev),
             virtual_entries (path_entries ! index) (ce_retained_tail prev) @
               drop (index + 1) path_entries))
            (as_compaction (path_entries ! index)))"

text \<open>The outer \<open>None\<close> is a panic, the inner one that compaction does not apply.\<close>

definition prepare_compaction ::
  "compaction_serde \<Rightarrow> entry list \<Rightarrow> compaction_settings \<Rightarrow>
   compaction_preparation option option" where
  "prepare_compaction serde path_entries settings =
     (if path_entries = [] \<or> entry_type_of (last path_entries) = ETCompaction then Some None
      else
        let prev_compaction_index = rposition (\<lambda>e. entry_type_of e = ETCompaction) path_entries in
        Option.bind (compactable path_entries)
          (\<lambda>(previous_summary, compactable_entries).
        let boundary_end = length compactable_entries;
            tokens_before = cue_tokens (estimate_context_tokens serde
              (ctx_messages (build_session_context path_entries context_build_options_default)))
        in
        Option.bind
          (find_cut_point serde compactable_entries 0 boundary_end (cs_keep_recent_tokens settings))
          (\<lambda>cut_point.
        let first_kept = cp_first_kept_entry_index cut_point;
            split = cp_is_split_turn cut_point;
            history_end =
              (if split then (case cp_turn_start_index cut_point of
                 Some i \<Rightarrow> i | None \<Rightarrow> first_kept) else first_kept);
            prefix_start = (case cp_turn_start_index cut_point of Some i \<Rightarrow> i | None \<Rightarrow> 0)
        in
        Option.bind (slice_range compactable_entries 0 history_end) (\<lambda>history.
        Option.bind (if split then slice_range compactable_entries prefix_start first_kept else Some [])
          (\<lambda>prefix.
        Option.bind (slice_range compactable_entries first_kept boundary_end) (\<lambda>kept.
        let messages_to_summarize = List.map_filter message_from_entry_for_compaction history;
            turn_prefix_messages = List.map_filter message_from_entry_for_compaction prefix;
            ops = extract_file_operations serde messages_to_summarize path_entries
                    prev_compaction_index;
            ops = (if split then fold extract_file_ops_from_message turn_prefix_messages ops else ops)
        in Some (Some
          \<lparr>prep_messages_to_summarize = messages_to_summarize,
           prep_turn_prefix_messages = turn_prefix_messages,
           prep_retained_tail = List.map_filter message_from_entry_for_compaction kept,
           prep_is_split_turn = split, prep_tokens_before = tokens_before,
           prep_previous_summary = previous_summary, prep_file_ops = ops,
           prep_settings = settings\<rparr>)))))))"


section \<open>Where a cut lands\<close>

definition valid_cut :: "entry \<Rightarrow> bool" where
  "valid_cut e \<longleftrightarrow>
     (case e_payload e of
        EPMessage m \<Rightarrow> \<not> is_tool_result (me_message m) | EPBranchSummary _ \<Rightarrow> True | _ \<Rightarrow> False)"

lemma enumerate_map_nth: "enumerate 0 xs = map (\<lambda>i. (i, xs ! i)) [0..<length xs]"
  by (rule nth_equalityI) (simp_all add: nth_enumerate_eq)

lemma concat_if_filter: "concat (map (\<lambda>x. if p x then [x] else []) xs) = filter p xs"
  by (induction xs) simp_all

lemma find_valid_cut_points_filter:
  "find_valid_cut_points es start end' =
     filter (\<lambda>i. valid_cut (es ! i)) [start..<min end' (length es)]"
proof -
  have one: "(case as_message e of
          Some m \<Rightarrow> if \<not> is_tool_result (me_message m) then [i] else [] | None \<Rightarrow> []) @
        (if entry_type_of e = ETBranchSummary then [i] else []) =
      (if valid_cut e then [i] else [])" for i :: nat and e
    by (cases "e_payload e") (simp_all add: as_message_def entry_type_of_def valid_cut_def)
  have "drop start (take end' (enumerate 0 es)) =
      map (\<lambda>i. (i, es ! i)) [start..<min end' (length es)]"
    by (simp add: enumerate_map_nth take_map drop_map min_def)
  then show ?thesis
    by (simp add: find_valid_cut_points_def one comp_def concat_if_filter)
qed


definition message_tokens :: "compaction_serde \<Rightarrow> entry \<Rightarrow> int" where
  "message_tokens serde e =
     (case as_message e of Some m \<Rightarrow> estimate_tokens serde (me_message m) | None \<Rightarrow> 0)"

definition recent_tokens :: "compaction_serde \<Rightarrow> entry list \<Rightarrow> nat \<Rightarrow> nat \<Rightarrow> int" where
  "recent_tokens serde es i end' = (\<Sum>j\<leftarrow>[i..<end']. message_tokens serde (es ! j))"

definition fills_budget :: "compaction_serde \<Rightarrow> entry list \<Rightarrow> int \<Rightarrow> nat \<Rightarrow> nat \<Rightarrow> bool" where
  "fills_budget serde es keep end' i \<longleftrightarrow>
     as_message (es ! i) \<noteq> None \<and> keep \<le> recent_tokens serde es i end'"

lemma message_tokens_nonneg: "0 \<le> message_tokens serde e"
  by (simp add: message_tokens_def estimate_tokens_def Let_def split: option.splits)

lemma recent_tokens_end [simp]: "recent_tokens serde es n n = 0"
  by (simp add: recent_tokens_def)

lemma recent_tokens_step:
  "i < end' \<Longrightarrow> recent_tokens serde es i end' =
     message_tokens serde (es ! i) + recent_tokens serde es (Suc i) end'"
  by (simp add: recent_tokens_def upt_conv_Cons)

lemma recent_tokens_antimono:
  "i \<le> j \<Longrightarrow> recent_tokens serde es j end' \<le> recent_tokens serde es i end'"
proof (induction "j - i" arbitrary: i)
  case (Suc d)
  then have "recent_tokens serde es j end' \<le> recent_tokens serde es (Suc i) end'" by simp
  then show ?case
    using recent_tokens_step [of i end' serde es] message_tokens_nonneg [of serde "es ! i"]
    by (cases "i < end'") (simp_all add: recent_tokens_def)
qed simp

lemma search_cut_find:
  "e \<le> end' \<Longrightarrow>
   search_cut serde es cps keep (recent_tokens serde es e end') (rev [start..<e]) first =
     (case find (fills_budget serde es keep end') (rev [start..<e]) of
        None \<Rightarrow> first
      | Some i \<Rightarrow> (case find (\<lambda>c. c \<ge> i) cps of Some c \<Rightarrow> c | None \<Rightarrow> first))"
proof (induction e)
  case (Suc e)
  show ?case
  proof (cases "start \<le> e")
    case True
    then have "recent_tokens serde es e end' =
        message_tokens serde (es ! e) + recent_tokens serde es (Suc e) end'"
      using Suc.prems by (intro recent_tokens_step) simp
    with True Suc show ?thesis
      by (cases "as_message (es ! e)") (simp_all add: fills_budget_def message_tokens_def Let_def add.commute)
  qed simp
qed simp

lemma find_rev_upt_Some:
  "find p (rev [a..<b]) = Some t \<longleftrightarrow> a \<le> t \<and> t < b \<and> p t \<and> (\<forall>j. t < j \<and> j < b \<longrightarrow> \<not> p j)"
proof (induction b)
  case (Suc b)
  show ?case
  proof (cases "a \<le> b")
    case True
    then show ?thesis using Suc by (auto simp: less_Suc_eq)
  qed auto
qed auto

lemma find_sorted_Some:
  "sorted xs \<Longrightarrow> find p xs = Some c \<Longrightarrow> c \<in> set xs \<and> p c \<and> (\<forall>x\<in>set xs. p x \<longrightarrow> c \<le> (x :: nat))"
  by (induction xs) (auto split: if_splits)

lemma walk_back_bounds:
  "start \<le> c \<Longrightarrow> start \<le> walk_back es start c \<and> walk_back es start c \<le> c \<and>
     (\<forall>j. walk_back es start c \<le> j \<and> j < c \<longrightarrow> entry_type_of (es ! j) \<notin> {ETCompaction, ETMessage})"
proof (induction es start c rule: walk_back.induct)
  case (2 es start j)
  show ?case
  proof (cases "Suc j > start \<and> entry_type_of (es ! j) \<notin> {ETCompaction, ETMessage}")
    case True
    then have back_eq: "walk_back es start (Suc j) = walk_back es start j" by simp
    from True 2(1) have ih: "start \<le> walk_back es start j" "walk_back es start j \<le> j"
      "\<And>i. walk_back es start j \<le> i \<Longrightarrow> i < j \<Longrightarrow> entry_type_of (es ! i) \<notin> {ETCompaction, ETMessage}"
      by simp_all
    show ?thesis
      unfolding back_eq
    proof (intro conjI allI impI)
      fix i assume i: "walk_back es start j \<le> i \<and> i < Suc j"
      show "entry_type_of (es ! i) \<notin> {ETCompaction, ETMessage}"
        using ih(3) [of i] True i by (cases "i = j") auto
    qed (use ih in simp_all)
  next
    case False
    then have "walk_back es start (Suc j) = Suc j" by auto
    then show ?thesis using 2(2) by (auto simp del: walk_back.simps)
  qed
qed simp

lemma find_turn_start_Some:
  assumes "index < length es" and "start \<le> index"
  shows "\<exists>t. find_turn_start_index es index start = Some t \<and>
    (case t of
       None \<Rightarrow> \<forall>j. start \<le> j \<and> j \<le> index \<longrightarrow> \<not> starts_turn (es ! j)
     | Some i \<Rightarrow> start \<le> i \<and> i \<le> index \<and> starts_turn (es ! i) \<and>
         (\<forall>j. i < j \<and> j \<le> index \<longrightarrow> \<not> starts_turn (es ! j)))"
  using assms
proof (induction index)
  case 0
  then show ?case by (auto simp: find_turn_start_index.simps [of es 0])
next
  case (Suc j)
  show ?case
  proof (cases "starts_turn (es ! Suc j) \<or> Suc j = start")
    case True
    with Suc.prems show ?thesis
      by (auto simp: find_turn_start_index.simps [of es "Suc j"] dest: le_antisym)
  next
    case False
    with Suc obtain t where t: "find_turn_start_index es j start = Some t"
      "case t of
       None \<Rightarrow> \<forall>k. start \<le> k \<and> k \<le> j \<longrightarrow> \<not> starts_turn (es ! k)
     | Some i \<Rightarrow> start \<le> i \<and> i \<le> j \<and> starts_turn (es ! i) \<and>
         (\<forall>k. i < k \<and> k \<le> j \<longrightarrow> \<not> starts_turn (es ! k))" by auto
    with False Suc.prems show ?thesis
      by (cases t) (auto simp: find_turn_start_index.simps [of es "Suc j"] le_Suc_eq)
  qed
qed


text \<open>The valid cut the search settles on, before the walk back.\<close>

definition chosen_cut :: "compaction_serde \<Rightarrow> entry list \<Rightarrow> nat \<Rightarrow> nat \<Rightarrow> int \<Rightarrow> nat \<Rightarrow> bool" where
  "chosen_cut serde es start end' keep c \<longleftrightarrow>
     start \<le> c \<and> c < end' \<and> valid_cut (es ! c) \<and>
     (\<forall>t. start \<le> t \<and> t < end' \<and> fills_budget serde es keep end' t \<and>
        (\<forall>j. t < j \<and> j < end' \<longrightarrow> \<not> fills_budget serde es keep end' j) \<longrightarrow>
        (if \<exists>i. t \<le> i \<and> i < end' \<and> valid_cut (es ! i)
         then t \<le> c \<and> (\<forall>i. t \<le> i \<and> i < c \<longrightarrow> \<not> valid_cut (es ! i))
         else \<forall>i. start \<le> i \<and> i < c \<longrightarrow> \<not> valid_cut (es ! i)))"

lemma chosen_cut_newest:
  assumes "chosen_cut serde es start end' keep c" and "start \<le> t" and "t < end'"
    and "fills_budget serde es keep end' t"
    and "\<forall>j. t < j \<and> j < end' \<longrightarrow> \<not> fills_budget serde es keep end' j"
  shows "if \<exists>i. t \<le> i \<and> i < end' \<and> valid_cut (es ! i)
    then t \<le> c \<and> (\<forall>i. t \<le> i \<and> i < c \<longrightarrow> \<not> valid_cut (es ! i))
    else \<forall>i. start \<le> i \<and> i < c \<longrightarrow> \<not> valid_cut (es ! i)"
  by (rule mp [OF spec [OF conjunct2 [OF conjunct2 [OF conjunct2 [OF assms(1) [unfolded chosen_cut_def]]]]]])
    (intro conjI assms(2-5))

lemma search_cut_chosen:
  assumes "end' \<le> length es" and "find_valid_cut_points es start end' \<noteq> []"
  shows "chosen_cut serde es start end' keep
    (search_cut serde es (find_valid_cut_points es start end') keep 0 (rev [start..<end'])
      (hd (find_valid_cut_points es start end')))"
proof -
  define cps where "cps = find_valid_cut_points es start end'"
  have cps: "set cps = {i. start \<le> i \<and> i < end' \<and> valid_cut (es ! i)}" "sorted cps" "cps \<noteq> []"
    using assms by (auto simp: cps_def find_valid_cut_points_filter min_def intro: sorted_wrt_filter)
  have least: "hd cps \<le> i" if "start \<le> i" "i < end'" "valid_cut (es ! i)" for i
  proof -
    from that cps(1) have "i \<in> set cps" by auto
    with cps(2) show ?thesis by (cases cps) auto
  qed
  have first: "start \<le> hd cps \<and> hd cps < end' \<and> valid_cut (es ! hd cps)"
    using cps(1,3) hd_in_set [of cps] by auto
  note found = search_cut_find [of end' end' serde es cps keep start "hd cps", simplified]
  show ?thesis
  proof (cases "find (fills_budget serde es keep end') (rev [start..<end'])")
    case None
    with found first show ?thesis
      by (auto simp: chosen_cut_def find_None_iff simp flip: cps_def)
  next
    case (Some t)
    then have t: "start \<le> t" "t < end'" "fills_budget serde es keep end' t"
      "\<forall>j. t < j \<and> j < end' \<longrightarrow> \<not> fills_budget serde es keep end' j"
      by (auto simp: find_rev_upt_Some)
    then have unique: "t' = t" if "start \<le> t'" "t' < end'" "fills_budget serde es keep end' t'"
      "\<forall>j. t' < j \<and> j < end' \<longrightarrow> \<not> fills_budget serde es keep end' j" for t'
      using that by (metis nat_neq_iff)
    show ?thesis
    proof (cases "find (\<lambda>c. t \<le> c) cps")
      case None
      then have "\<not> (\<exists>i. t \<le> i \<and> i < end' \<and> valid_cut (es ! i))"
        using cps(1) t(1) by (auto simp: find_None_iff)
      with found Some None first unique least show ?thesis
        unfolding chosen_cut_def by (fastforce simp flip: cps_def)
    next
      case (Some c)
      from find_sorted_Some [OF cps(2) this] cps(1)
      have "start \<le> c" "c < end'" "valid_cut (es ! c)" "t \<le> c"
        "\<And>i. t \<le> i \<Longrightarrow> i < c \<Longrightarrow> \<not> valid_cut (es ! i)"
        using t(1) by fastforce+
      with found \<open>find (fills_budget serde es keep end') (rev [start..<end']) = Some t\<close> Some unique
      show ?thesis unfolding chosen_cut_def by (fastforce simp flip: cps_def)
    qed
  qed
qed


lemma find_cut_point_Some:
  assumes "end' \<le> length es" and "find_valid_cut_points es start end' \<noteq> []"
  obtains r c where "find_cut_point serde es start end' keep = Some r"
    and "chosen_cut serde es start end' keep c"
    and "start \<le> cp_first_kept_entry_index r" and "cp_first_kept_entry_index r \<le> c"
    and "\<And>j. cp_first_kept_entry_index r \<le> j \<Longrightarrow> j < c \<Longrightarrow>
      entry_type_of (es ! j) \<notin> {ETCompaction, ETMessage}"
    and "cp_is_split_turn r \<longleftrightarrow> cp_turn_start_index r \<noteq> None"
    and "\<And>i. cp_turn_start_index r = Some i \<Longrightarrow> start \<le> i \<and> i \<le> cp_first_kept_entry_index r \<and>
      starts_turn (es ! i) \<and>
      (\<forall>j. i < j \<and> j \<le> cp_first_kept_entry_index r \<longrightarrow> \<not> starts_turn (es ! j))"
proof -
  define c where "c = search_cut serde es (find_valid_cut_points es start end') keep 0
      (rev [start..<end']) (hd (find_valid_cut_points es start end'))"
  define k where "k = walk_back es start c"
  have c: "chosen_cut serde es start end' keep c"
    unfolding c_def by (rule search_cut_chosen [OF assms])
  then have "start \<le> c" "c < end'" by (simp_all add: chosen_cut_def)
  with walk_back_bounds [of start c es] have k: "start \<le> k" "k \<le> c" "k < length es"
    "\<And>j. k \<le> j \<Longrightarrow> j < c \<Longrightarrow> entry_type_of (es ! j) \<notin> {ETCompaction, ETMessage}"
    using assms(1) by (auto simp: k_def)
  obtain t where t: "(if is_user_message (es ! k) then Some None
      else find_turn_start_index es k start) = Some t"
    and t_spec: "\<And>i. t = Some i \<Longrightarrow> start \<le> i \<and> i \<le> k \<and> starts_turn (es ! i) \<and>
      (\<forall>j. i < j \<and> j \<le> k \<longrightarrow> \<not> starts_turn (es ! j))"
  proof (cases "is_user_message (es ! k)")
    case False
    with find_turn_start_Some [OF k(3,1)] that show ?thesis by (auto split: option.splits)
  qed (simp add: that)
  have "find_cut_point serde es start end' keep = Some \<lparr>cp_first_kept_entry_index = k,
      cp_turn_start_index = t, cp_is_split_turn = (t \<noteq> None)\<rparr>"
    using assms t by (auto simp: find_cut_point_def Let_def simp flip: c_def k_def split: if_splits)
  from that [OF this c] k t_spec show thesis by auto
qed

section \<open>Properties of cut points\<close>

lemma recent_tokens_less:
  assumes "0 < keep" and "\<forall>j. t < j \<and> j < end' \<longrightarrow> \<not> fills_budget serde es keep end' j"
    and "t < k" and "k \<le> end'"
  shows "recent_tokens serde es k end' < keep"
  using assms(4,3)
proof (induction rule: inc_induct)
  case base
  then show ?case using assms(1) by simp
next
  case (step n)
  with assms(2) show ?case
    using recent_tokens_step [of n end' serde es]
    by (cases "as_message (es ! n)") (auto simp: fills_budget_def message_tokens_def)
qed

lemma recent_tokens_skip:
  assumes "k \<le> c" and "c \<le> end'" and "\<And>j. k \<le> j \<Longrightarrow> j < c \<Longrightarrow> entry_type_of (es ! j) \<notin> {ETCompaction, ETMessage}"
  shows "recent_tokens serde es k end' = recent_tokens serde es c end'"
  using assms(1,3)
proof (induction rule: inc_induct)
  case (step n)
  from step.prems [of n] step.hyps have "as_message (es ! n) = None"
    by (auto simp: as_message_def entry_type_of_def split: entry_payload.splits)
  with step show ?case
    using recent_tokens_step [of n end' serde es] assms(2) by (simp add: message_tokens_def)
qed simp

text \<open>
  C30. What a compaction keeps. Let \<open>t\<close> be the newest message from which on the messages fill the
  budget (only messages count; a branch summary counts nothing), and let the range have a valid cut, a
  message that is no tool result or a branch summary. Then the cut succeeds at a valid cut \<open>c\<close>, and only
  entries without messages of their own are kept before it. If some valid cut is at or after \<open>t\<close>,
  \<open>c\<close> is the first such one; what is kept exceeds the budget by less than the message at \<open>c\<close>, and
  fills it when \<open>t\<close> itself is a valid cut. Otherwise, when tool results alone fill the budget, \<open>c\<close> is the
  first valid cut of the range, and no message before it other than tool results is summarised.
\<close>

theorem cut_point_keeps_budget:
  assumes "end' \<le> length es" and "0 < keep" and "start \<le> t" and "t < end'"
    and "fills_budget serde es keep end' t"
    and "\<forall>j. t < j \<and> j < end' \<longrightarrow> \<not> fills_budget serde es keep end' j"
    and "start \<le> i" and "i < end'" and "valid_cut (es ! i)"
  shows "\<exists>r c. find_cut_point serde es start end' keep = Some r \<and>
    start \<le> cp_first_kept_entry_index r \<and> cp_first_kept_entry_index r \<le> c \<and> c < end' \<and> valid_cut (es ! c) \<and>
    (\<forall>j. cp_first_kept_entry_index r \<le> j \<and> j < c \<longrightarrow> entry_type_of (es ! j) \<notin> {ETCompaction, ETMessage}) \<and>
    (if \<exists>i. t \<le> i \<and> i < end' \<and> valid_cut (es ! i)
     then t \<le> c \<and> (\<forall>j. t \<le> j \<and> j < c \<longrightarrow> \<not> valid_cut (es ! j)) \<and>
       recent_tokens serde es (cp_first_kept_entry_index r) end' < keep + message_tokens serde (es ! c) \<and>
       (valid_cut (es ! t) \<longrightarrow> keep \<le> recent_tokens serde es (cp_first_kept_entry_index r) end')
     else \<forall>j. start \<le> j \<and> j < c \<longrightarrow> \<not> valid_cut (es ! j))"
proof -
  have ne: "find_valid_cut_points es start end' \<noteq> []"
    using assms by (auto simp: find_valid_cut_points_filter filter_empty_conv min_def)
  obtain r c where r: "find_cut_point serde es start end' keep = Some r"
    and c: "chosen_cut serde es start end' keep c"
    and k: "start \<le> cp_first_kept_entry_index r" "cp_first_kept_entry_index r \<le> c"
      "\<And>j. cp_first_kept_entry_index r \<le> j \<Longrightarrow> j < c \<Longrightarrow>
        entry_type_of (es ! j) \<notin> {ETCompaction, ETMessage}"
    by (rule find_cut_point_Some [OF assms(1) ne, of serde keep], rule that)
  have c': "c < end'" "valid_cut (es ! c)" using c by (simp_all add: chosen_cut_def)
  note newest = chosen_cut_newest [OF c assms(3-6)]
  have skip: "recent_tokens serde es (cp_first_kept_entry_index r) end' = recent_tokens serde es c end'"
    by (rule recent_tokens_skip [OF k(2) _ k(3)]) (use c'(1) in simp)
  have budget: "recent_tokens serde es c end' < keep + message_tokens serde (es ! c)"
    and fills: "valid_cut (es ! t) \<Longrightarrow> keep \<le> recent_tokens serde es c end'"
    if "t \<le> c" "\<forall>j. t \<le> j \<and> j < c \<longrightarrow> \<not> valid_cut (es ! j)"
  proof -
    have "recent_tokens serde es (Suc c) end' < keep"
      using recent_tokens_less [OF assms(2,6), of "Suc c"] c'(1) that(1) by simp
    then show "recent_tokens serde es c end' < keep + message_tokens serde (es ! c)"
      using recent_tokens_step [OF c'(1), of serde es] by simp
    show "keep \<le> recent_tokens serde es c end'" if "valid_cut (es ! t)"
      using assms(5) \<open>t \<le> c\<close> \<open>\<forall>j. t \<le> j \<and> j < c \<longrightarrow> \<not> valid_cut (es ! j)\<close> that
      by (cases "c = t") (auto simp: fills_budget_def)
  qed
  have "if \<exists>i. t \<le> i \<and> i < end' \<and> valid_cut (es ! i)
     then t \<le> c \<and> (\<forall>j. t \<le> j \<and> j < c \<longrightarrow> \<not> valid_cut (es ! j)) \<and>
       recent_tokens serde es (cp_first_kept_entry_index r) end' < keep + message_tokens serde (es ! c) \<and>
       (valid_cut (es ! t) \<longrightarrow> keep \<le> recent_tokens serde es (cp_first_kept_entry_index r) end')
     else \<forall>j. start \<le> j \<and> j < c \<longrightarrow> \<not> valid_cut (es ! j)"
  proof (cases "\<exists>i. t \<le> i \<and> i < end' \<and> valid_cut (es ! i)")
    case True
    from newest [unfolded if_P [OF True]] have "t \<le> c" "\<forall>j. t \<le> j \<and> j < c \<longrightarrow> \<not> valid_cut (es ! j)" by blast+
    with budget [OF this] fills [OF this] show ?thesis unfolding if_P [OF True] skip by blast
  next
    case False
    from newest [unfolded if_not_P [OF False]] show ?thesis unfolding if_not_P [OF False] .
  qed
  with r c' k show ?thesis by (intro exI [of _ r] exI [of _ c] conjI) blast+
qed

definition demo_serde :: compaction_serde where
  "demo_serde = \<lparr>cv_to_string = (\<lambda>_. None), cv_details = (\<lambda>_. None)\<rparr>"

definition path_entry :: "string \<Rightarrow> agent_message \<Rightarrow> entry" where
  "path_entry i m =
     \<lparr>e_id = i, e_seq = 1, e_parent_id = None, e_timestamp = 1,
      e_payload = EPMessage \<lparr>me_message = m, me_terminate = None\<rparr>, e_extra = []\<rparr>"

definition path_user :: "string \<Rightarrow> agent_message" where
  "path_user t = AUser \<lparr>um_content = UCText t, um_timestamp = 1\<rparr>"

lemma path_entry_simps [simp]:
  "valid_cut (path_entry i m) \<longleftrightarrow> \<not> is_tool_result m"
  "as_message (path_entry i m) = Some \<lparr>me_message = m, me_terminate = None\<rparr>"
  "entry_type_of (path_entry i m) = ETMessage"
  "message_tokens serde (path_entry i m) = estimate_tokens serde m"
  "is_tool_result (path_user t) = False" "is_tool_result (AToolResult r) = True"
  by (simp_all add: valid_cut_def path_entry_def as_message_def entry_type_of_def message_tokens_def
      path_user_def is_tool_result_def)

lemma path_user_tokens: "estimate_tokens serde (path_user ''abcd'') = 1"
  by (simp add: estimate_tokens_def path_user_def chars_count_def is_cont_char_def utf8_cont_def)

theorem cut_point_keeps_budget_witness:
  "\<exists>r. find_cut_point demo_serde [path_entry ''a'' (path_user ''abcd''), path_entry ''b'' (path_user ''abcd'')]
     0 2 1 = Some r \<and>
   recent_tokens demo_serde [path_entry ''a'' (path_user ''abcd''), path_entry ''b'' (path_user ''abcd'')]
     (cp_first_kept_entry_index r) 2 = 1"
proof -
  let ?es = "[path_entry ''a'' (path_user ''abcd''), path_entry ''b'' (path_user ''abcd'')]"
  have one: "recent_tokens demo_serde ?es 1 2 = 1"
    by (simp add: recent_tokens_def path_user_tokens upt_conv_Cons)
  have "fills_budget demo_serde ?es 1 2 1" by (simp add: fills_budget_def one [simplified])
  moreover have "\<forall>j. 1 < j \<and> j < 2 \<longrightarrow> \<not> fills_budget demo_serde ?es 1 2 j" by auto
  moreover have "\<exists>i. 1 \<le> i \<and> i < 2 \<and> valid_cut (?es ! i)" by (intro exI [of _ 1]) simp
  ultimately obtain r c where "find_cut_point demo_serde ?es 0 2 1 = Some r" "c < 2" "1 \<le> c"
    "recent_tokens demo_serde ?es (cp_first_kept_entry_index r) 2 < 1 + message_tokens demo_serde (?es ! c)"
    "1 \<le> recent_tokens demo_serde ?es (cp_first_kept_entry_index r) 2"
    using cut_point_keeps_budget [of 2 ?es 1 0 1 demo_serde 1] by (simp only: if_P) auto
  moreover from this have "c = 1" by simp
  ultimately show ?thesis by (auto simp: path_user_tokens)
qed

section \<open>What a preparation contains\<close>

definition newest_compaction :: "entry list \<Rightarrow> compaction_entry option" where
  "newest_compaction path =
     Option.bind (rposition (\<lambda>e. entry_type_of e = ETCompaction) path) (\<lambda>i. as_compaction (path ! i))"

text \<open>The messages since the newest compaction, with the tail that compaction retained.\<close>

definition live_messages :: "entry list \<Rightarrow> agent_message list" where
  "live_messages path =
     (case rposition (\<lambda>e. entry_type_of e = ETCompaction) path of
        None \<Rightarrow> List.map_filter message_from_entry_for_compaction path
      | Some i \<Rightarrow>
          (case as_compaction (path ! i) of Some c \<Rightarrow> ce_retained_tail c | None \<Rightarrow> []) @
          List.map_filter message_from_entry_for_compaction (drop (i + 1) path))"

definition opens_turn :: "agent_message \<Rightarrow> bool" where
  "opens_turn m =
     (case m of AUser _ \<Rightarrow> True | ABashExecution _ \<Rightarrow> True | ABranchSummary _ \<Rightarrow> True | _ \<Rightarrow> False)"

lemma map_filter_hd:
  assumes "f x = Some y" and "P y" and "\<forall>z\<in>set pre. \<forall>w. f z = Some w \<longrightarrow> P w"
  shows "List.map_filter f (pre @ x # post) \<noteq> [] \<and> P (hd (List.map_filter f (pre @ x # post)))"
  using assms(3)
proof (induction pre)
  case Nil
  then show ?case by (simp add: map_filter_Cons assms)
next
  case (Cons z pre)
  then show ?case by (cases "f z") (simp_all add: map_filter_Cons)
qed

lemma virtual_messages:
  "List.map_filter message_from_entry_for_compaction (virtual_entries c tail) = tail"
proof -
  have "List.map_filter message_from_entry_for_compaction
      (map (\<lambda>(i, m). virtual_entry c i m) (enumerate n tail)) = tail" for n
    by (induction tail arbitrary: n)
      (simp_all add: map_filter_Cons message_from_entry_for_compaction_def message_from_entry_def
        virtual_entry_def entry_type_of_def)
  then show ?thesis by (simp add: virtual_entries_def)
qed

lemma valid_cut_message:
  "valid_cut e \<longleftrightarrow> (\<exists>m. message_from_entry_for_compaction e = Some m \<and> \<not> is_tool_result m)"
  by (cases "e_payload e")
    (simp_all add: valid_cut_def message_from_entry_for_compaction_def message_from_entry_def
      entry_type_of_def is_tool_result_def)

lemma starts_turn_message:
  "starts_turn e \<Longrightarrow> \<exists>m. message_from_entry_for_compaction e = Some m \<and> opens_turn m"
  by (cases "e_payload e")
    (auto simp: starts_turn_def message_from_entry_for_compaction_def message_from_entry_def
      entry_type_of_def as_message_def opens_turn_def split: agent_message.splits)

lemma slice_range_Some: "lo \<le> hi \<Longrightarrow> hi \<le> length xs \<Longrightarrow> slice_range xs lo hi = Some (take (hi - lo) (drop lo xs))"
  by (simp add: slice_range_def)

lemma kept_starts_clean:
  assumes "k \<le> c" and "c < length es" and "valid_cut (es ! c)"
    and "\<And>j. k \<le> j \<Longrightarrow> j < c \<Longrightarrow> entry_type_of (es ! j) \<notin> {ETCompaction, ETMessage}"
  shows "let ms = List.map_filter message_from_entry_for_compaction (drop k es)
    in ms \<noteq> [] \<and> \<not> is_tool_result (hd ms)"
proof -
  obtain m where m: "message_from_entry_for_compaction (es ! c) = Some m" "\<not> is_tool_result m"
    using assms(3) by (auto simp: valid_cut_message)
  have eq: "drop k es = take (c - k) (drop k es) @ es ! c # drop (Suc c) es"
    using assms(1,2) id_take_nth_drop [of "c - k" "drop k es"] by simp
  have "\<not> is_tool_result w" if z: "z \<in> set (take (c - k) (drop k es))"
    and w: "message_from_entry_for_compaction z = Some w" for z w
  proof -
    from z obtain j where "j < c - k" "z = es ! (k + j)"
      using assms(1,2) by (auto simp: in_set_conv_nth)
    with assms(4) [of "k + j"] have "entry_type_of z \<noteq> ETMessage" by simp
    with w show ?thesis
      by (cases "e_payload z") (auto simp: message_from_entry_for_compaction_def
          message_from_entry_def entry_type_of_def is_tool_result_def)
  qed
  then show ?thesis
    unfolding Let_def
    using map_filter_hd [where P = "\<lambda>w. \<not> is_tool_result w" and f = message_from_entry_for_compaction, OF m, of "take (c - k) (drop k es)" "drop (Suc c) es", folded eq] by blast
qed


lemma cut_slices:
  obtains cp history prefix kept
  where "find_cut_point serde es 0 (length es) keep = Some cp"
    and "slice_range es 0 (if cp_is_split_turn cp then case cp_turn_start_index cp of
           Some i \<Rightarrow> i | None \<Rightarrow> cp_first_kept_entry_index cp else cp_first_kept_entry_index cp) =
         Some history"
    and "(if cp_is_split_turn cp
          then slice_range es (case cp_turn_start_index cp of Some i \<Rightarrow> i | None \<Rightarrow> 0)
            (cp_first_kept_entry_index cp)
          else Some []) = Some prefix"
    and "slice_range es (cp_first_kept_entry_index cp) (length es) = Some kept"
    and "history @ prefix @ kept = es"
    and "(\<exists>e\<in>set es. valid_cut e) \<Longrightarrow>
      let ms = List.map_filter message_from_entry_for_compaction kept
      in ms \<noteq> [] \<and> \<not> is_tool_result (hd ms)"
    and "prefix \<noteq> [] \<Longrightarrow> starts_turn (hd prefix)"
proof (cases "find_valid_cut_points es 0 (length es) = []")
  case True
  then have "\<not> (\<exists>e\<in>set es. valid_cut e)"
    by (auto simp: find_valid_cut_points_filter filter_empty_conv in_set_conv_nth)
  with True show thesis
    by (intro that [of "\<lparr>cp_first_kept_entry_index = 0, cp_turn_start_index = None,
        cp_is_split_turn = False\<rparr>" "[]" "[]" es]) (simp_all add: find_cut_point_def slice_range_def)
next
  case False
  obtain r c where r: "find_cut_point serde es 0 (length es) keep = Some r"
    and c: "chosen_cut serde es 0 (length es) keep c" and k: "cp_first_kept_entry_index r \<le> c"
    "\<And>j. cp_first_kept_entry_index r \<le> j \<Longrightarrow> j < c \<Longrightarrow> entry_type_of (es ! j) \<notin> {ETCompaction, ETMessage}"
    and split: "cp_is_split_turn r \<longleftrightarrow> cp_turn_start_index r \<noteq> None"
    and turn: "\<And>i. cp_turn_start_index r = Some i \<Longrightarrow>
      i \<le> cp_first_kept_entry_index r \<and> starts_turn (es ! i)"
    by (rule find_cut_point_Some [OF order.refl False, of serde keep], rule that) auto
  let ?k = "cp_first_kept_entry_index r"
  from c have "c < length es" "valid_cut (es ! c)" by (simp_all add: chosen_cut_def)
  with k have clean: "let ms = List.map_filter message_from_entry_for_compaction (drop ?k es)
      in ms \<noteq> [] \<and> \<not> is_tool_result (hd ms)" by (intro kept_starts_clean [of ?k c]) auto
  have le: "?k \<le> length es" using k(1) \<open>c < length es\<close> by simp
  show thesis
  proof (cases "cp_turn_start_index r")
    case None
    with r split le clean show thesis
      by (intro that [of r "take ?k es" "[]" "drop ?k es"]) (simp_all add: slice_range_def)
  next
    case (Some i)
    with turn have i: "i \<le> ?k" "starts_turn (es ! i)" by auto
    have "take i es @ take (?k - i) (drop i es) @ drop ?k es = es"
      using i(1) by (metis append_assoc append_take_drop_id le_add_diff_inverse take_add)
    moreover have "starts_turn (hd (take (?k - i) (drop i es)))" if "take (?k - i) (drop i es) \<noteq> []"
      using that i(2) by (simp add: hd_take hd_drop_conv_nth)
    ultimately show thesis
      using r split le clean Some i(1)
      by (intro that [of r "take i es" "take (?k - i) (drop i es)" "drop ?k es"])
        (simp_all add: slice_range_def)
  qed
qed

lemma rposition_Some:
  "rposition p xs = Some i \<Longrightarrow> i < length xs \<and> p (xs ! i) \<and> (\<forall>x\<in>set (drop (i + 1) xs). \<not> p x)"
  by (induction xs arbitrary: i) (auto simp: rposition_None split: option.splits if_splits)

lemma compactable_Some:
  obtains es where "compactable path = Some (map_option ce_summary (newest_compaction path), es)"
    and "List.map_filter message_from_entry_for_compaction es = live_messages path"
proof (cases "rposition (\<lambda>e. entry_type_of e = ETCompaction) path")
  case None
  then show thesis
    by (intro that [of path]) (simp_all add: compactable_def newest_compaction_def live_messages_def)
next
  case (Some i)
  then have "entry_type_of (path ! i) = ETCompaction" using rposition_Some [OF Some] by simp
  then obtain c where "as_compaction (path ! i) = Some c"
    by (cases "e_payload (path ! i)") (simp_all add: entry_type_of_def as_compaction_def)
  with Some show thesis
    by (intro that [of "virtual_entries (path ! i) (ce_retained_tail c) @ drop (i + 1) path"])
      (simp_all add: compactable_def newest_compaction_def live_messages_def virtual_messages)
qed

abbreviation compaction_messages :: "entry list \<Rightarrow> agent_message list" where
  "compaction_messages \<equiv> List.map_filter message_from_entry_for_compaction"

lemma prepare_slices:
  assumes "path \<noteq> []" and "entry_type_of (last path) \<noteq> ETCompaction"
  obtains p history prefix kept where "prepare_compaction serde path settings = Some (Some p)"
    and "prep_messages_to_summarize p = compaction_messages history"
    and "prep_turn_prefix_messages p = compaction_messages prefix"
    and "prep_retained_tail p = compaction_messages kept"
    and "prep_previous_summary p = map_option ce_summary (newest_compaction path)"
    and "live_messages path = compaction_messages (history @ prefix @ kept)"
    and "(\<exists>e\<in>set (history @ prefix @ kept). valid_cut e) \<Longrightarrow>
      compaction_messages kept \<noteq> [] \<and> \<not> is_tool_result (hd (compaction_messages kept))"
    and "prefix \<noteq> [] \<Longrightarrow> starts_turn (hd prefix)"
proof -
  obtain es where es: "compactable path = Some (map_option ce_summary (newest_compaction path), es)"
    and live: "compaction_messages es = live_messages path"
    by (rule compactable_Some)
  obtain cp history prefix kept where cut: "find_cut_point serde es 0 (length es)
      (cs_keep_recent_tokens settings) = Some cp"
    and slices: "slice_range es 0 (if cp_is_split_turn cp then case cp_turn_start_index cp of
           Some i \<Rightarrow> i | None \<Rightarrow> cp_first_kept_entry_index cp else cp_first_kept_entry_index cp) =
         Some history"
      "(if cp_is_split_turn cp
          then slice_range es (case cp_turn_start_index cp of Some i \<Rightarrow> i | None \<Rightarrow> 0)
            (cp_first_kept_entry_index cp)
          else Some []) = Some prefix"
      "slice_range es (cp_first_kept_entry_index cp) (length es) = Some kept"
    and whole: "history @ prefix @ kept = es"
    and rest: "(\<exists>e\<in>set es. valid_cut e) \<Longrightarrow> let ms = compaction_messages kept
        in ms \<noteq> [] \<and> \<not> is_tool_result (hd ms)" "prefix \<noteq> [] \<Longrightarrow> starts_turn (hd prefix)"
    by (rule cut_slices [of serde es "cs_keep_recent_tokens settings"], rule that)
  have "\<exists>p. prepare_compaction serde path settings = Some (Some p) \<and>
      prep_messages_to_summarize p = compaction_messages history \<and>
      prep_turn_prefix_messages p = compaction_messages prefix \<and>
      prep_retained_tail p = compaction_messages kept \<and>
      prep_previous_summary p = map_option ce_summary (newest_compaction path)"
    using assms es cut slices
    by (cases "cp_is_split_turn cp") (simp_all add: prepare_compaction_def Let_def)
  with that [of _ history prefix kept] rest live whole show thesis by (auto simp: Let_def)
qed

text \<open>
  C28. Preparing a compaction loses nothing. It never panics, and unless the branch is empty or ends
  with a compaction it applies: the messages to summarise, the prefix of a split turn and the
  retained tail are, in this order, exactly the messages since the newest compaction (with the
  tail that one retained); the previous summary is that compaction's; the tail never starts with
  an orphaned tool result, and the prefix starts where a turn starts.
\<close>

theorem prepare_compaction_partition:
  assumes "path \<noteq> []" and "entry_type_of (last path) \<noteq> ETCompaction"
  shows "\<exists>p. prepare_compaction serde path settings = Some (Some p) \<and>
    prep_messages_to_summarize p @ prep_turn_prefix_messages p @ prep_retained_tail p =
      live_messages path \<and>
    prep_previous_summary p = map_option ce_summary (newest_compaction path) \<and>
    ((\<exists>m\<in>set (live_messages path). \<not> is_tool_result m) \<longrightarrow>
       prep_retained_tail p \<noteq> [] \<and> \<not> is_tool_result (hd (prep_retained_tail p))) \<and>
    (prep_turn_prefix_messages p \<noteq> [] \<longrightarrow> opens_turn (hd (prep_turn_prefix_messages p)))"
proof -
  obtain p history prefix kept where p: "prepare_compaction serde path settings = Some (Some p)"
    "prep_messages_to_summarize p = compaction_messages history"
    "prep_turn_prefix_messages p = compaction_messages prefix"
    "prep_retained_tail p = compaction_messages kept"
    "prep_previous_summary p = map_option ce_summary (newest_compaction path)"
    and live: "live_messages path = compaction_messages (history @ prefix @ kept)"
    and clean: "(\<exists>e\<in>set (history @ prefix @ kept). valid_cut e) \<Longrightarrow>
      compaction_messages kept \<noteq> [] \<and> \<not> is_tool_result (hd (compaction_messages kept))"
    and turn: "prefix \<noteq> [] \<Longrightarrow> starts_turn (hd prefix)"
    by (rule prepare_slices [OF assms, of serde settings], rule that)
  have "opens_turn (hd (compaction_messages prefix))" if "compaction_messages prefix \<noteq> []"
    using that turn starts_turn_message by (cases prefix) (fastforce simp: map_filter_Cons)+
  moreover have "\<exists>e\<in>set (history @ prefix @ kept). valid_cut e"
    if "\<exists>m\<in>set (live_messages path). \<not> is_tool_result m"
    using that unfolding live valid_cut_message set_map_filter by blast
  ultimately show ?thesis using p live clean by auto
qed

theorem prepare_compaction_partition_witness:
  "\<exists>p. prepare_compaction demo_serde
      [path_entry ''a'' (path_user ''abcd''), path_entry ''b'' (path_user ''efgh'')]
      DEFAULT_COMPACTION_SETTINGS = Some (Some p) \<and>
    prep_messages_to_summarize p @ prep_turn_prefix_messages p @ prep_retained_tail p =
      [path_user ''abcd'', path_user ''efgh'']"
proof -
  let ?path = "[path_entry ''a'' (path_user ''abcd''), path_entry ''b'' (path_user ''efgh'')]"
  have "live_messages ?path = [path_user ''abcd'', path_user ''efgh'']"
    by (simp add: live_messages_def map_filter_Cons message_from_entry_for_compaction_def
        message_from_entry_def path_entry_def entry_type_of_def)
  with prepare_compaction_partition [of ?path demo_serde DEFAULT_COMPACTION_SETTINGS] show ?thesis
    by auto
qed

section \<open>The context across a compaction\<close>

text \<open>Entries whose message the context shows as it is.\<close>

definition shown_entry :: "entry \<Rightarrow> bool" where
  "shown_entry e =
     (case e_payload e of
        EPMessage m \<Rightarrow>
          (case me_message m of AAssistant a \<Rightarrow> am_stop_reason a \<noteq> SRDeferred | _ \<Rightarrow> True)
      | EPBranchSummary b \<Rightarrow> bs_summary b \<noteq> []
      | _ \<Rightarrow> True)"

lemma plain_shown:
  "shown_entry e \<Longrightarrow> entry_type_of e \<noteq> ETCompaction \<Longrightarrow>
     plain_messages e = (case message_from_entry_for_compaction e of Some m \<Rightarrow> [m] | None \<Rightarrow> [])"
  by (cases "e_payload e")
    (auto simp: shown_entry_def entry_type_of_def plain_messages_def
      session_entry_to_context_messages_def message_from_entry_for_compaction_def
      message_from_entry_def context_build_options_default_def split: agent_message.splits)

lemma concat_plain_shown:
  "\<forall>e\<in>set es. shown_entry e \<and> entry_type_of e \<noteq> ETCompaction \<Longrightarrow>
     concat (map plain_messages es) = List.map_filter message_from_entry_for_compaction es"
  by (induction es) (simp_all add: plain_shown map_filter_Cons split: option.splits)

lemma context_live_messages:
  assumes "\<forall>e\<in>set path. shown_entry e"
  shows "\<exists>pre. ctx_messages (build_session_context path context_build_options_default) =
      pre @ live_messages path \<and> length pre \<le> 1 \<and> (\<forall>m\<in>set pre. \<exists>s. m = ACompactionSummary s)"
proof (cases "rposition (\<lambda>e. entry_type_of e = ETCompaction) path")
  case None
  then have "\<forall>e\<in>set path. shown_entry e \<and> entry_type_of e \<noteq> ETCompaction"
    using assms by (simp add: rposition_None)
  from concat_plain_shown [OF this] None show ?thesis
    by (intro exI [of _ "[]"])
      (simp add: context_messages_default default_context_entry_transform_def live_messages_def)
next
  case (Some i)
  from rposition_Some [OF Some] have i: "i < length path" "entry_type_of (path ! i) = ETCompaction"
    "\<forall>e\<in>set (drop (i + 1) path). entry_type_of e \<noteq> ETCompaction" by auto
  then obtain c where c: "e_payload (path ! i) = EPCompaction c"
    by (cases "e_payload (path ! i)") (simp_all add: entry_type_of_def)
  have "\<forall>e\<in>set (drop (i + 1) path). shown_entry e \<and> entry_type_of e \<noteq> ETCompaction"
    using assms i(3) by (auto dest: in_set_dropD)
  from concat_plain_shown [OF this] Some c Cons_nth_drop_Suc [OF i(1), symmetric] show ?thesis
    by (intro exI [of _ "[ACompactionSummary (create_compaction_summary_message (ce_summary c)
            (ce_tokens_before c) (e_timestamp (path ! i)))]"])
      (simp add: context_messages_default default_context_entry_transform_def live_messages_def
        plain_messages_def [of "path ! i"] session_entry_to_context_messages_def as_compaction_def)
qed

text \<open>
  C29. What the provider sees across a compaction. On a branch whose messages the context shows as
  they are, the context before is the messages to summarise, the turn prefix and the retained tail
  (after the previous summary, if there is one); once the compaction is appended it is the new
  summary followed by exactly that retained tail.
\<close>

theorem compaction_keeps_context_suffix:
  assumes "prepare_compaction serde path settings = Some (Some p)"
    and "\<forall>e\<in>set path. shown_entry e"
    and "e_payload c = EPCompaction ce" and "ce_retained_tail ce = prep_retained_tail p"
  shows "(\<exists>pre. ctx_messages (build_session_context path context_build_options_default) =
      pre @ prep_messages_to_summarize p @ prep_turn_prefix_messages p @ prep_retained_tail p \<and>
      length pre \<le> 1 \<and> (\<forall>m\<in>set pre. \<exists>s. m = ACompactionSummary s)) \<and>
    ctx_messages (build_session_context (path @ [c]) context_build_options_default) =
      ACompactionSummary (create_compaction_summary_message (ce_summary ce) (ce_tokens_before ce)
        (e_timestamp c)) # prep_retained_tail p"
proof
  from assms(1) have "path \<noteq> [] \<and> entry_type_of (last path) \<noteq> ETCompaction"
    by (auto simp: prepare_compaction_def split: if_splits)
  then have "prep_messages_to_summarize p @ prep_turn_prefix_messages p @ prep_retained_tail p =
      live_messages path"
    using prepare_slices [of path serde settings] assms(1)
    by (metis map_filter_append option.inject)
  with context_live_messages [OF assms(2)]
  show "\<exists>pre. ctx_messages (build_session_context path context_build_options_default) =
      pre @ prep_messages_to_summarize p @ prep_turn_prefix_messages p @ prep_retained_tail p \<and>
      length pre \<le> 1 \<and> (\<forall>m\<in>set pre. \<exists>s. m = ACompactionSummary s)" by simp
  have "entry_type_of c = ETCompaction" using assms(3) by (simp add: entry_type_of_def)
  then have "default_context_entry_transform (path @ [c]) = [c]"
    by (intro transform_newest_compaction) simp_all
  with assms(3,4) show "ctx_messages (build_session_context (path @ [c]) context_build_options_default) =
      ACompactionSummary (create_compaction_summary_message (ce_summary ce) (ce_tokens_before ce)
        (e_timestamp c)) # prep_retained_tail p"
    by (simp add: context_messages_default plain_messages_def session_entry_to_context_messages_def)
qed


definition path_compaction :: "agent_message list \<Rightarrow> entry" where
  "path_compaction tail =
     \<lparr>e_id = ''k'', e_seq = 9, e_parent_id = None, e_timestamp = 9,
      e_payload = EPCompaction \<lparr>ce_summary = ''sum'', ce_retained_tail = tail, ce_tokens_before = 9,
        ce_details = None, ce_usage = None\<rparr>, e_extra = []\<rparr>"

lemma one_entry_prepared:
  assumes "\<not> is_tool_result m"
  shows "\<exists>p. prepare_compaction serde [path_entry i m] settings = Some (Some p) \<and> prep_retained_tail p = [m]"
proof -
  have live: "live_messages [path_entry i m] = [m]"
    by (simp add: live_messages_def map_filter_Cons message_from_entry_for_compaction_def
        message_from_entry_def path_entry_def entry_type_of_def)
  have e: "valid_cut (path_entry i m)" using assms by simp
  obtain p history prefix kept where p: "prepare_compaction serde [path_entry i m] settings = Some (Some p)"
    "prep_retained_tail p = compaction_messages kept"
    and live': "live_messages [path_entry i m] = compaction_messages (history @ prefix @ kept)"
    and clean: "(\<exists>e\<in>set (history @ prefix @ kept). valid_cut e) \<Longrightarrow> compaction_messages kept \<noteq> []"
    by (rule prepare_slices [of "[path_entry i m]" serde settings]) auto
  from live live' have "m \<in> set (compaction_messages (history @ prefix @ kept))" by simp
  then have "\<exists>e\<in>set (history @ prefix @ kept). valid_cut e"
    using assms unfolding valid_cut_message set_map_filter by blast
  from clean [OF this] live live' have "compaction_messages kept = [m]"
    by (auto simp: append_eq_Cons_conv)
  with p show ?thesis by auto
qed

theorem compaction_keeps_context_suffix_witness:
  "ctx_messages (build_session_context
      [path_entry ''a'' (path_user ''abcd''), path_compaction [path_user ''abcd'']]
      context_build_options_default) =
    [ACompactionSummary \<lparr>csm_summary = ''sum'', csm_tokens_before = 9, csm_timestamp = 9\<rparr>, path_user ''abcd'']"
proof -
  obtain p where "prepare_compaction demo_serde [path_entry ''a'' (path_user ''abcd'')]
      DEFAULT_COMPACTION_SETTINGS = Some (Some p)" "prep_retained_tail p = [path_user ''abcd'']"
    using one_entry_prepared [of "path_user ''abcd''" demo_serde "''a''" DEFAULT_COMPACTION_SETTINGS]
    by auto
  moreover have "shown_entry (path_entry ''a'' (path_user ''abcd''))"
    by (simp add: shown_entry_def path_entry_def path_user_def)
  ultimately show ?thesis
    using compaction_keeps_context_suffix [of demo_serde "[path_entry ''a'' (path_user ''abcd'')]"
        DEFAULT_COMPACTION_SETTINGS p "path_compaction [path_user ''abcd'']"]
    by (simp add: path_compaction_def create_compaction_summary_message_def)
qed

text \<open>
  A deferred assistant turn comes back through a compaction. The context leaves a deferred turn
  out, so that no empty assistant message is sent to the provider; but the preparation keeps it in
  the retained tail, and the context shows that tail unfiltered once the compaction is appended.
\<close>

theorem compaction_revives_deferred:
  "\<exists>e m c p. as_message e = Some \<lparr>me_message = m, me_terminate = None\<rparr> \<and>
    (\<exists>a. m = AAssistant a \<and> am_stop_reason a = SRDeferred \<and> am_content a = []) \<and>
    ctx_messages (build_session_context [e] context_build_options_default) = [] \<and>
    prepare_compaction serde [e] settings = Some (Some p) \<and>
    (\<exists>ce. e_payload c = EPCompaction ce \<and> ce_retained_tail ce = prep_retained_tail p) \<and>
    m \<in> set (ctx_messages (build_session_context [e, c] context_build_options_default))"
proof -
  define a where "a = (assistant_message_pending 1 ''api'' ''p'' ''m'')\<lparr>am_stop_reason := SRDeferred\<rparr>"
  define e where "e = path_entry ''a'' (AAssistant a)"
  obtain p where p: "prepare_compaction serde [e] settings = Some (Some p)"
    "prep_retained_tail p = [AAssistant a]"
    using one_entry_prepared [of "AAssistant a" serde "''a''" settings]
    by (auto simp: e_def is_tool_result_def)
  have "ctx_messages (build_session_context [e] context_build_options_default) = []"
    by (simp add: context_messages_default default_context_entry_transform_def e_def a_def
        path_entry_def entry_type_of_def plain_messages_def session_entry_to_context_messages_def)
  moreover have "AAssistant a \<in> set (ctx_messages (build_session_context
      [e, path_compaction [AAssistant a]] context_build_options_default))"
    by (simp add: context_messages_default default_context_entry_transform_def e_def
        path_entry_def path_compaction_def entry_type_of_def plain_messages_def
        session_entry_to_context_messages_def)
  moreover have "as_message e = Some \<lparr>me_message = AAssistant a, me_terminate = None\<rparr>"
    "am_stop_reason a = SRDeferred" "am_content a = []"
    by (simp_all add: e_def a_def assistant_message_pending_def)
  moreover have "\<exists>ce. e_payload (path_compaction [AAssistant a]) = EPCompaction ce \<and>
      ce_retained_tail ce = prep_retained_tail p" using p(2) by (simp add: path_compaction_def)
  ultimately show ?thesis using p(1) by blast
qed

end
