(* ===== verification/Session_Summary.thy ===== *)
theory Session_Summary
  imports Session_Compaction Session_Storage
begin

text \<open>
  Asking a model for summaries: the serialisation of a conversation
  (\<^verbatim>\<open>pi-rs/crates/pi-session/src/compaction/utils.rs\<close>), the generation of a compaction
  (\<^verbatim>\<open>compaction.rs\<close>) and the summary of an abandoned branch (\<^verbatim>\<open>branch_summarization.rs\<close>). The
  \<^verbatim>\<open>Summarizer\<close> trait object is a function of the number of the call and the request; an abort
  signal is passed through and has a type of its own, \<open>'sig\<close>.
\<close>

abbreviation dq :: string where
  "dq \<equiv> [CHR 0x22]"

section \<open>File lists and conversations as text\<close>

definition format_file_operations :: "string list \<Rightarrow> string list \<Rightarrow> string" where
  "format_file_operations read_files modified_files =
     (let sections =
        (if read_files \<noteq> []
         then [''<read-files>'' @ nl @ join_with nl read_files @ nl @ ''</read-files>''] else []) @
        (if modified_files \<noteq> []
         then [''<modified-files>'' @ nl @ join_with nl modified_files @ nl @ ''</modified-files>'']
         else [])
      in if sections = [] then [] else nl @ nl @ join_with (nl @ nl) sections)"

definition TOOL_RESULT_MAX_CHARS :: nat where
  "TOOL_RESULT_MAX_CHARS = 2000"

definition safe_json_stringify :: "compaction_serde \<Rightarrow> json \<Rightarrow> string" where
  "safe_json_stringify serde v =
     (case cv_to_string serde v of Some t \<Rightarrow> t | None \<Rightarrow> ''[unserializable]'')"

definition truncate_for_summary :: "string \<Rightarrow> nat \<Rightarrow> string" where
  "truncate_for_summary t max_chars =
     (let count = chars_count t in
      if count \<le> max_chars then t
      else take_chars max_chars t @ nl @ nl @ ''[... '' @ show_nat (count - max_chars) @
        '' more characters truncated]'')"

definition content_text :: "input_content list \<Rightarrow> string \<Rightarrow> string" where
  "content_text content separator =
     join_with separator (List.map_filter (\<lambda>b. map_option tc_text (ic_as_text b)) content)"

fun user_content_text :: "user_content \<Rightarrow> string \<Rightarrow> string" where
  "user_content_text (UCText t) separator = t"
| "user_content_text (UCBlocks blocks) separator = content_text blocks separator"

definition assistant_content_text :: "assistant_content list \<Rightarrow> string \<Rightarrow> string" where
  "assistant_content_text content separator =
     join_with separator (List.map_filter (\<lambda>b. map_option tc_text (ac_as_text b)) content)"

definition call_text :: "compaction_serde \<Rightarrow> tool_call \<Rightarrow> string" where
  "call_text serde call =
     call_name call @ ''('' @
     join_with '', '' (map (\<lambda>(key, v). key @ ''='' @ safe_json_stringify serde v) (call_arguments call)) @
     '')''"

definition message_parts :: "compaction_serde \<Rightarrow> message \<Rightarrow> string list" where
  "message_parts serde m =
     (case m of
        MUser u \<Rightarrow>
          let content = user_content_text (um_content u) []
          in if content \<noteq> [] then [''[User]: '' @ content] else []
      | MAssistant a \<Rightarrow>
          let thinking_parts = List.map_filter (\<lambda>b. map_option th_thinking (ac_as_thinking b)) (am_content a);
              calls = map (call_text serde) (List.map_filter ac_as_tool_call (am_content a))
          in (if thinking_parts \<noteq> []
              then [''[Assistant thinking]: '' @ join_with nl thinking_parts] else []) @
             (if list_ex (\<lambda>b. ac_as_text b \<noteq> None) (am_content a)
              then [''[Assistant]: '' @ assistant_content_text (am_content a) nl] else []) @
             (if calls \<noteq> [] then [''[Assistant tool calls]: '' @ join_with ''; '' calls] else [])
      | MToolResult r \<Rightarrow>
          let content = content_text (tr_content r) []
          in if content \<noteq> []
             then [''[Tool result]: '' @ truncate_for_summary content TOOL_RESULT_MAX_CHARS] else [])"

definition serialize_conversation :: "compaction_serde \<Rightarrow> message list \<Rightarrow> string" where
  "serialize_conversation serde messages =
     join_with (nl @ nl) (concat (map (message_parts serde) messages))"

section \<open>Requests\<close>

datatype compaction_error_kind = CEAborted | CESummarizationFailed

record compaction_error =
  cx_kind :: compaction_error_kind
  cx_message :: string

definition compaction_aborted :: "string \<Rightarrow> compaction_error" where
  "compaction_aborted m = \<lparr>cx_kind = CEAborted, cx_message = m\<rparr>"

definition summarization_failed :: "string \<Rightarrow> compaction_error" where
  "summarization_failed m = \<lparr>cx_kind = CESummarizationFailed, cx_message = m\<rparr>"

definition compaction_error_code :: "compaction_error \<Rightarrow> string" where
  "compaction_error_code e =
     (case cx_kind e of CEAborted \<Rightarrow> ''aborted'' | CESummarizationFailed \<Rightarrow> ''summarization_failed'')"

record 'sig summarization_request =
  sq_system_prompt :: string
  sq_prompt :: string
  sq_max_tokens :: int
  sq_thinking_level :: "string option"
  sq_signal :: "'sig option"

type_synonym 'sig summarizer =
  "nat \<Rightarrow> 'sig summarization_request \<Rightarrow> compaction_error + assistant_message"

record summarization_model =
  sz_context_window :: int
  sz_max_tokens :: int
  sz_reasoning :: bool

definition summarization_model_default :: summarization_model where
  "summarization_model_default =
     \<lparr>sz_context_window = 128000, sz_max_tokens = 0, sz_reasoning = False\<rparr>"

definition SUMMARIZATION_SYSTEM_PROMPT :: string where
  "SUMMARIZATION_SYSTEM_PROMPT =
     join_with nl
     [''You are a context summarization assistant. Your task is to read a conversation '' @
        ''between a user and an AI assistant, then produce a structured summary following '' @
        ''the exact format specified.'',
      '''',
      ''Do NOT continue the conversation. Do NOT respond to any questions in the '' @
        ''conversation. ONLY output the structured summary.'']"

definition SUMMARIZATION_PROMPT :: string where
  "SUMMARIZATION_PROMPT =
     join_with nl
     [''The messages above are a conversation to summarize. Create a structured context '' @
        ''checkpoint summary that another LLM will use to continue the work.'',
      '''',
      ''Use this EXACT format:'',
      '''',
      ''## Goal'',
      ''[What is the user trying to accomplish? Can be multiple items if the session '' @
        ''covers different tasks.]'',
      '''',
      ''## Constraints & Preferences'',
      ''- [Any constraints, preferences, or requirements mentioned by user]'',
      ''- [Or '' @ dq @ ''(none)'' @ dq @ '' if none were mentioned]'',
      '''',
      ''## Progress'',
      ''### Done'',
      ''- [x] [Completed tasks/changes]'',
      '''',
      ''### In Progress'',
      ''- [ ] [Current work]'',
      '''',
      ''### Blocked'',
      ''- [Issues preventing progress, if any]'',
      '''',
      ''## Key Decisions'',
      ''- **[Decision]**: [Brief rationale]'',
      '''',
      ''## Next Steps'',
      ''1. [Ordered list of what should happen next]'',
      '''',
      ''## Critical Context'',
      ''- [Any data, examples, or references needed to continue]'',
      ''- [Or '' @ dq @ ''(none)'' @ dq @ '' if not applicable]'',
      '''',
      ''Keep each section concise. Preserve exact file paths, function names, and error '' @
        ''messages.'']"

definition UPDATE_SUMMARIZATION_PROMPT :: string where
  "UPDATE_SUMMARIZATION_PROMPT =
     join_with nl
     [''The messages above are NEW conversation messages to incorporate into the '' @
        ''existing summary provided in <previous-summary> tags.'',
      '''',
      ''Update the existing structured summary with new information. RULES:'',
      ''- PRESERVE all existing information from the previous summary'',
      ''- ADD new progress, decisions, and context from the new messages'',
      ''- UPDATE the Progress section: move items from '' @ dq @ ''In Progress'' @ dq @ '' to '' @ dq @ ''Done'' @ dq @ '' when '' @
        ''completed'',
      ''- UPDATE '' @ dq @ ''Next Steps'' @ dq @ '' based on what was accomplished'',
      ''- PRESERVE exact file paths, function names, and error messages'',
      ''- If something is no longer relevant, you may remove it'',
      '''',
      ''Use this EXACT format:'',
      '''',
      ''## Goal'',
      ''[Preserve existing goals, add new ones if the task expanded]'',
      '''',
      ''## Constraints & Preferences'',
      ''- [Preserve existing, add new ones discovered]'',
      '''',
      ''## Progress'',
      ''### Done'',
      ''- [x] [Include previously done items AND newly completed items]'',
      '''',
      ''### In Progress'',
      ''- [ ] [Current work - update based on progress]'',
      '''',
      ''### Blocked'',
      ''- [Current blockers - remove if resolved]'',
      '''',
      ''## Key Decisions'',
      ''- **[Decision]**: [Brief rationale] (preserve all previous, add new)'',
      '''',
      ''## Next Steps'',
      ''1. [Update based on current state]'',
      '''',
      ''## Critical Context'',
      ''- [Preserve important context, add new if needed]'',
      '''',
      ''Keep each section concise. Preserve exact file paths, function names, and error '' @
        ''messages.'']"

definition TURN_PREFIX_SUMMARIZATION_PROMPT :: string where
  "TURN_PREFIX_SUMMARIZATION_PROMPT =
     join_with nl
     [''This is the PREFIX of a turn that was too large to keep. The SUFFIX (recent '' @
        ''work) is retained.'',
      '''',
      ''Summarize the prefix to provide context for the retained suffix:'',
      '''',
      ''## Original Request'',
      ''[What did the user ask for in this turn?]'',
      '''',
      ''## Early Progress'',
      ''- [Key decisions and work done in the prefix]'',
      '''',
      ''## Context for Suffix'',
      ''- [Information needed to understand the retained recent work]'',
      '''',
      ''Be concise. Focus on what's needed to understand the kept suffix.'']"

section \<open>Generating a compaction\<close>

text \<open>The literals 0.8, 0.5 and 0.9 as bit patterns.\<close>

definition F64_0_8 :: f64 where "F64_0_8 = 0x3FE999999999999A"

definition F64_0_5 :: f64 where "F64_0_5 = 0x3FE0000000000000"

definition F64_0_9 :: f64 where "F64_0_9 = 0x3FECCCCCCCCCCCCD"

definition bounded_max_tokens :: "f64 \<Rightarrow> int \<Rightarrow> summarization_model \<Rightarrow> int" where
  "bounded_max_tokens fraction reserve_tokens model =
     (let scaled = f64_floor_i64 (f64_mul fraction (f64_of_int reserve_tokens)) in
      if sz_max_tokens model > 0 then min scaled (sz_max_tokens model) else scaled)"

definition response_text :: "assistant_message \<Rightarrow> string" where
  "response_text m =
     join_with nl (List.map_filter (\<lambda>b. map_option tc_text (ac_as_text b)) (am_content m))"

definition check_response ::
  "assistant_message \<Rightarrow> string \<Rightarrow> string \<Rightarrow> compaction_error + unit" where
  "check_response response aborted_message failed_prefix =
     (case am_stop_reason response of
        SRAborted \<Rightarrow>
          Inl (compaction_aborted
            (case am_error_message response of Some m \<Rightarrow> m | None \<Rightarrow> aborted_message))
      | SRError \<Rightarrow>
          Inl (summarization_failed (failed_prefix @ '': '' @
            (case am_error_message response of Some m \<Rightarrow> m | None \<Rightarrow> ''Unknown error'')))
      | _ \<Rightarrow> Inr ())"

definition thinking_for :: "summarization_model \<Rightarrow> string option \<Rightarrow> string option" where
  "thinking_for model thinking_level =
     (case thinking_level of
        Some level \<Rightarrow> if sz_reasoning model \<and> level \<noteq> ''off'' then Some level else None
      | None \<Rightarrow> None)"

record 'sig generate_summary_options =
  gs_reserve_tokens :: int
  gs_signal :: "'sig option"
  gs_custom_instructions :: "string option"
  gs_previous_summary :: "string option"
  gs_thinking_level :: "string option"

definition summary_request ::
  "compaction_serde \<Rightarrow> agent_message list \<Rightarrow> summarization_model \<Rightarrow> 'sig generate_summary_options \<Rightarrow>
   'sig summarization_request" where
  "summary_request serde current_messages model options =
     (let base_prompt =
            (if gs_previous_summary options \<noteq> None then UPDATE_SUMMARIZATION_PROMPT
             else SUMMARIZATION_PROMPT);
          base_prompt =
            (case gs_custom_instructions options of
               Some instructions \<Rightarrow> base_prompt @ nl @ nl @ ''Additional focus: '' @ instructions
             | None \<Rightarrow> base_prompt);
          prompt = ''<conversation>'' @ nl @
            serialize_conversation serde (convert_to_llm current_messages) @ nl @
            ''</conversation>'' @ nl @ nl;
          prompt =
            (case gs_previous_summary options of
               Some previous \<Rightarrow>
                 prompt @ ''<previous-summary>'' @ nl @ previous @ nl @ ''</previous-summary>'' @ nl @ nl
             | None \<Rightarrow> prompt)
      in \<lparr>sq_system_prompt = SUMMARIZATION_SYSTEM_PROMPT, sq_prompt = prompt @ base_prompt,
          sq_max_tokens = bounded_max_tokens F64_0_8 (gs_reserve_tokens options) model,
          sq_thinking_level = thinking_for model (gs_thinking_level options),
          sq_signal = gs_signal options\<rparr>)"

definition generate_summary_with_usage ::
  "compaction_serde \<Rightarrow> 'sig summarizer \<Rightarrow> nat \<Rightarrow> agent_message list \<Rightarrow> summarization_model \<Rightarrow>
   'sig generate_summary_options \<Rightarrow> compaction_error + (string \<times> usage)" where
  "generate_summary_with_usage serde summarize call current_messages model options =
     res_bind (summarize call (summary_request serde current_messages model options)) (\<lambda>response.
     res_bind (check_response response ''Summarization aborted'' ''Summarization failed'') (\<lambda>_.
       Inr (response_text response, am_usage response)))"

definition generate_turn_prefix_summary ::
  "compaction_serde \<Rightarrow> 'sig summarizer \<Rightarrow> nat \<Rightarrow> agent_message list \<Rightarrow> summarization_model \<Rightarrow> int \<Rightarrow>
   'sig option \<Rightarrow> string option \<Rightarrow> compaction_error + (string \<times> usage)" where
  "generate_turn_prefix_summary serde summarize call messages model reserve_tokens signal thinking_level =
     res_bind (summarize call
       \<lparr>sq_system_prompt = SUMMARIZATION_SYSTEM_PROMPT,
        sq_prompt = ''<conversation>'' @ nl @
          serialize_conversation serde (convert_to_llm messages) @ nl @ ''</conversation>'' @ nl @ nl @
          TURN_PREFIX_SUMMARIZATION_PROMPT,
        sq_max_tokens = bounded_max_tokens F64_0_5 reserve_tokens model,
        sq_thinking_level = thinking_for model thinking_level, sq_signal = signal\<rparr>) (\<lambda>response.
     res_bind (check_response response ''Turn prefix summarization aborted''
         ''Turn prefix summarization failed'') (\<lambda>_.
       Inr (response_text response, am_usage response)))"

record compact_result =
  cr_summary :: string
  cr_tokens_before :: int
  cr_usage :: "usage option"
  cr_retained_tail :: "agent_message list"
  cr_read_files :: "string list"
  cr_modified_files :: "string list"

definition compact_options ::
  "compaction_preparation \<Rightarrow> string option \<Rightarrow> 'sig option \<Rightarrow> string option \<Rightarrow>
   'sig generate_summary_options" where
  "compact_options preparation custom_instructions signal thinking_level =
     \<lparr>gs_reserve_tokens = cs_reserve_tokens (prep_settings preparation), gs_signal = signal,
      gs_custom_instructions = custom_instructions,
      gs_previous_summary = prep_previous_summary preparation,
      gs_thinking_level = thinking_level\<rparr>"

definition compact_summary ::
  "compaction_serde \<Rightarrow> 'sig summarizer \<Rightarrow> compaction_preparation \<Rightarrow> summarization_model \<Rightarrow>
   string option \<Rightarrow> 'sig option \<Rightarrow> string option \<Rightarrow> compaction_error + (string \<times> usage)" where
  "compact_summary serde summarize preparation model custom_instructions signal thinking_level =
     (let options = compact_options preparation custom_instructions signal thinking_level in
      if prep_is_split_turn preparation \<and> prep_turn_prefix_messages preparation \<noteq> []
      then
        res_bind
          (if prep_messages_to_summarize preparation \<noteq> []
           then res_bind (generate_summary_with_usage serde summarize 0
                  (prep_messages_to_summarize preparation) model options)
                  (\<lambda>(t, u). Inr (t, Some u, 1))
           else Inr (''No prior history.'', None, 0)) (\<lambda>(history_text, history_usage, call).
        res_bind (generate_turn_prefix_summary serde summarize call
            (prep_turn_prefix_messages preparation) model
            (cs_reserve_tokens (prep_settings preparation)) signal thinking_level)
          (\<lambda>(prefix_text, prefix_usage).
        Inr (history_text @ nl @ nl @ ''---'' @ nl @ nl @ ''**Turn Context (split turn):**'' @
               nl @ nl @ prefix_text,
             case history_usage of
               Some history \<Rightarrow> usage_add history prefix_usage | None \<Rightarrow> prefix_usage)))
      else generate_summary_with_usage serde summarize 0
             (prep_messages_to_summarize preparation) model options)"

definition compact ::
  "compaction_serde \<Rightarrow> 'sig summarizer \<Rightarrow> compaction_preparation \<Rightarrow> summarization_model \<Rightarrow>
   string option \<Rightarrow> 'sig option \<Rightarrow> string option \<Rightarrow> compaction_error + compact_result" where
  "compact serde summarize preparation model custom_instructions signal thinking_level =
     res_bind (compact_summary serde summarize preparation model custom_instructions signal
         thinking_level) (\<lambda>(summary, summary_usage).
       case compute_file_lists (prep_file_ops preparation) of (read_files, modified_files) \<Rightarrow>
         Inr \<lparr>cr_summary = summary @ format_file_operations read_files modified_files,
              cr_tokens_before = prep_tokens_before preparation, cr_usage = Some summary_usage,
              cr_retained_tail = prep_retained_tail preparation, cr_read_files = read_files,
              cr_modified_files = modified_files\<rparr>)"

section \<open>Abandoned branches\<close>

record collect_entries_result =
  ce_entries :: "entry list"
  ce_common_ancestor_id :: "string option"

text \<open>The walk from the old leaf; a cycle of parents would make it run forever (\<open>None\<close>).\<close>

partial_function (option) collect_walk ::
  "'s session_storage \<Rightarrow> 's \<Rightarrow> string option \<Rightarrow> string option \<Rightarrow> entry list \<Rightarrow>
   entry list session_result option" where
  "collect_walk ops s ancestor current acc =
     (case current of
        None \<Rightarrow> Some (Inr acc)
      | Some i \<Rightarrow>
          if ancestor = Some i then Some (Inr acc)
          else
            case so_get_entry ops i s of
              Inl e \<Rightarrow> Some (Inl e)
            | Inr None \<Rightarrow> Some (Inl (InvalidEntry (''Entry '' @ i @ '' not found'')))
            | Inr (Some e) \<Rightarrow> collect_walk ops s ancestor (e_parent_id e) (acc @ [e]))"

definition branch_from :: "string \<Rightarrow> branch_query" where
  "branch_from start =
     \<lparr>bq_query = entry_query_default, bq_bounds = branch_bounds_default\<lparr>b_start := Some start\<rparr>\<rparr>"

definition collect_entries_for_branch_summary ::
  "'s session_storage \<Rightarrow> string \<Rightarrow> 's \<Rightarrow> string option \<Rightarrow> string \<Rightarrow>
   collect_entries_result session_result option" where
  "collect_entries_for_branch_summary ops lane s old_leaf_id target_id =
     (case old_leaf_id of
        None \<Rightarrow> Some (Inr \<lparr>ce_entries = [], ce_common_ancestor_id = None\<rparr>)
      | Some old_leaf_id \<Rightarrow>
          (case session_find_entries_on_branch ops lane (branch_from old_leaf_id) s of
             Inl e \<Rightarrow> Some (Inl e)
           | Inr old_entries \<Rightarrow>
               (case session_find_entries_on_branch ops lane (branch_from target_id) s of
                  Inl e \<Rightarrow> Some (Inl e)
                | Inr target_path \<Rightarrow>
                    let old_path = e_id ` set old_entries;
                        common_ancestor_id = map_option e_id (find (\<lambda>e. e_id e \<in> old_path) target_path)
                    in map_option (\<lambda>r. res_bind r (\<lambda>es.
                         Inr \<lparr>ce_entries = rev es, ce_common_ancestor_id = common_ancestor_id\<rparr>))
                         (collect_walk ops s common_ancestor_id (Some old_leaf_id) []))))"

definition branch_message_from_entry :: "entry \<Rightarrow> agent_message option" where
  "branch_message_from_entry e =
     (case e_payload e of
        EPMessage m \<Rightarrow>
          (case me_message m of AToolResult _ \<Rightarrow> None | other \<Rightarrow> Some other)
      | EPBranchSummary b \<Rightarrow>
          Some (ABranchSummary
            (create_branch_summary_message (bs_summary b) (bs_from_id b) (e_timestamp e)))
      | EPCompaction c \<Rightarrow>
          Some (ACompactionSummary
            (create_compaction_summary_message (ce_summary c) (ce_tokens_before c) (e_timestamp e)))
      | _ \<Rightarrow> None)"

record branch_preparation =
  bp_messages :: "agent_message list"
  bp_file_ops :: file_operations
  bp_total_tokens :: int

text \<open>The loop from the newest entry down.\<close>

fun select_entries ::
  "compaction_serde \<Rightarrow> int \<Rightarrow> entry list \<Rightarrow> branch_preparation \<Rightarrow> branch_preparation" where
  "select_entries serde token_budget [] bp = bp"
| "select_entries serde token_budget (e # es) bp =
     (case branch_message_from_entry e of
        None \<Rightarrow> select_entries serde token_budget es bp
      | Some m \<Rightarrow>
          let bp = bp\<lparr>bp_file_ops := extract_file_ops_from_message m (bp_file_ops bp)\<rparr>;
              tokens = estimate_tokens serde m;
              bp' = bp\<lparr>bp_messages := m # bp_messages bp,
                       bp_total_tokens := bp_total_tokens bp + tokens\<rparr>
          in if token_budget > 0 \<and> bp_total_tokens bp + tokens > token_budget
             then if entry_type_of e \<in> {ETCompaction, ETBranchSummary} \<and>
                     f64_less (f64_of_int (bp_total_tokens bp))
                       (f64_mul (f64_of_int token_budget) F64_0_9)
                  then bp' else bp
             else select_entries serde token_budget es bp')"

definition prepare_branch_entries ::
  "compaction_serde \<Rightarrow> entry list \<Rightarrow> int \<Rightarrow> branch_preparation" where
  "prepare_branch_entries serde es token_budget =
     select_entries serde token_budget (rev es)
       \<lparr>bp_messages = [],
        bp_file_ops =
          fold (\<lambda>e ops. case e_payload e of
              EPBranchSummary b \<Rightarrow> extend_details serde (bs_details b) ops | _ \<Rightarrow> ops)
            es create_file_ops,
        bp_total_tokens = 0\<rparr>"

definition BRANCH_SUMMARY_PREAMBLE :: string where
  "BRANCH_SUMMARY_PREAMBLE =
     join_with nl
     [''The user explored a different conversation branch before returning here.'',
      ''Summary of that exploration:'',
      '''',
      '''']"

definition BRANCH_SUMMARY_PROMPT :: string where
  "BRANCH_SUMMARY_PROMPT =
     join_with nl
     [''Create a structured summary of this conversation branch for context when '' @
        ''returning later.'',
      '''',
      ''Use this EXACT format:'',
      '''',
      ''## Goal'',
      ''[What was the user trying to accomplish in this branch?]'',
      '''',
      ''## Constraints & Preferences'',
      ''- [Any constraints, preferences, or requirements mentioned]'',
      ''- [Or '' @ dq @ ''(none)'' @ dq @ '' if none were mentioned]'',
      '''',
      ''## Progress'',
      ''### Done'',
      ''- [x] [Completed tasks/changes]'',
      '''',
      ''### In Progress'',
      ''- [ ] [Work that was started but not finished]'',
      '''',
      ''### Blocked'',
      ''- [Issues preventing progress, if any]'',
      '''',
      ''## Key Decisions'',
      ''- **[Decision]**: [Brief rationale]'',
      '''',
      ''## Next Steps'',
      ''1. [What should happen next to continue this work]'',
      '''',
      ''Keep each section concise. Preserve exact file paths, function names, and error '' @
        ''messages.'']"

record 'sig generate_branch_summary_options =
  gb_custom_instructions :: "string option"
  gb_replace_instructions :: bool
  gb_reserve_tokens :: "int option"
  gb_signal :: "'sig option"
  gb_thinking_level :: "string option"

record branch_summary_result =
  br_summary :: string
  br_usage :: "usage option"
  br_read_files :: "string list"
  br_modified_files :: "string list"

definition branch_token_budget :: "summarization_model \<Rightarrow> 'sig generate_branch_summary_options \<Rightarrow> int" where
  "branch_token_budget model options =
     i64_wrap ((if sz_context_window model > 0 then sz_context_window model else 128000) -
       (case gb_reserve_tokens options of Some r \<Rightarrow> r | None \<Rightarrow> 16384))"

definition generate_branch_summary ::
  "compaction_serde \<Rightarrow> 'sig summarizer \<Rightarrow> entry list \<Rightarrow> summarization_model \<Rightarrow>
   'sig generate_branch_summary_options \<Rightarrow> compaction_error + branch_summary_result" where
  "generate_branch_summary serde summarize es model options =
     (let preparation = prepare_branch_entries serde es (branch_token_budget model options) in
      if bp_messages preparation = []
      then Inr \<lparr>br_summary = ''No content to summarize'', br_usage = None, br_read_files = [],
                br_modified_files = []\<rparr>
      else
        let instructions =
              (case gb_custom_instructions options of
                 Some custom \<Rightarrow>
                   if gb_replace_instructions options then custom
                   else BRANCH_SUMMARY_PROMPT @ nl @ nl @ ''Additional focus: '' @ custom
               | None \<Rightarrow> BRANCH_SUMMARY_PROMPT)
        in res_bind (summarize 0
             \<lparr>sq_system_prompt = SUMMARIZATION_SYSTEM_PROMPT,
              sq_prompt = ''<conversation>'' @ nl @
                serialize_conversation serde (convert_to_llm (bp_messages preparation)) @ nl @
                ''</conversation>'' @ nl @ nl @ instructions,
              sq_max_tokens = 2048,
              sq_thinking_level = thinking_for model (gb_thinking_level options),
              sq_signal = gb_signal options\<rparr>) (\<lambda>response.
           res_bind (check_response response ''Branch summary aborted'' ''Branch summary failed'') (\<lambda>_.
             case compute_file_lists (bp_file_ops preparation) of (read_files, modified_files) \<Rightarrow>
               Inr \<lparr>br_summary = BRANCH_SUMMARY_PREAMBLE @ response_text response @
                      format_file_operations read_files modified_files,
                    br_usage = Some (am_usage response), br_read_files = read_files,
                    br_modified_files = modified_files\<rparr>)))"


section \<open>Reading branches\<close>

text \<open>
  What the collection of an abandoned branch relies on: the branch query from an entry returns the
  trail of its ancestors, newest first, and every entry of a trail can be looked up.
\<close>

locale branch_reader =
  fixes ops :: "'s session_storage"
    and inv :: "'s \<Rightarrow> bool"
    and trail :: "'s \<Rightarrow> string \<Rightarrow> entry list"
  assumes trail_query:
      "\<lbrakk>inv s; trail s i \<noteq> []\<rbrakk> \<Longrightarrow>
         so_find_entries_on_branch ops (branch_query_resolve (branch_from i) i) s = Inr (trail s i)"
    and trail_lookup:
      "\<lbrakk>inv s; e \<in> set (trail s i)\<rbrakk> \<Longrightarrow> so_get_entry ops (e_id e) s = Inr (Some e)"
    and trail_head: "\<lbrakk>inv s; trail s i = x # xs\<rbrakk> \<Longrightarrow> e_id x = i"
    and trail_next:
      "\<lbrakk>inv s; trail s i = x # xs\<rbrakk> \<Longrightarrow>
         (case e_parent_id x of None \<Rightarrow> xs = [] | Some p \<Rightarrow> xs = trail s p \<and> xs \<noteq> [])"
    and trail_distinct: "inv s \<Longrightarrow> distinct (map e_id (trail s i))"
begin

lemma trail_suffix: "inv s \<Longrightarrow> trail s i = xs @ x # ys \<Longrightarrow> trail s (e_id x) = x # ys"
proof (induction xs arbitrary: i)
  case Nil
  then show ?case using trail_head [OF Nil.prems(1), of i x ys] by simp
next
  case (Cons z xs)
  then have "trail s i = z # xs @ x # ys" by simp
  from trail_next [OF Cons.prems(1) this] Cons show ?case by (auto split: option.splits)
qed

lemma collect_walk_trail:
  assumes "inv s" and "trail s i \<noteq> []"
  shows "collect_walk ops s ancestor (Some i) acc =
    Some (Inr (acc @ takeWhile (\<lambda>e. ancestor \<noteq> Some (e_id e)) (trail s i)))"
  using assms(2)
proof (induction "length (trail s i)" arbitrary: i acc rule: less_induct)
  case less
  then obtain x xs where x: "trail s i = x # xs" by (cases "trail s i") auto
  have i: "e_id x = i" by (rule trail_head [OF assms(1) x])
  have look: "so_get_entry ops i s = Inr (Some x)"
    using trail_lookup [OF assms(1), of x i] x i by simp
  note next' = trail_next [OF assms(1) x]
  show ?case
  proof (cases "ancestor = Some i")
    case True
    then show ?thesis by (subst collect_walk.simps) (simp add: x i)
  next
    case anc: False
    show ?thesis
    proof (cases "e_parent_id x")
      case None
      with next' anc look x i show ?thesis
        by (simp add: collect_walk.simps [of ops s ancestor "Some i"]
            collect_walk.simps [of ops s ancestor None])
    next
      case (Some p)
      with next' have p: "xs = trail s p" "trail s p \<noteq> []" by auto
      with x have "length (trail s p) < length (trail s i)" by simp
      from less.hyps [OF this p(2)] Some x anc look i p(1) show ?thesis
        by (simp add: collect_walk.simps [of ops s ancestor "Some i"])
    qed
  qed
qed

lemma trails_meet:
  assumes "inv s" and "find (\<lambda>e. e_id e \<in> e_id ` set (trail s i)) (trail s j) = Some a"
  shows "\<exists>xs ys. trail s i = xs @ a # ys \<and> (\<forall>x\<in>set xs. e_id x \<notin> e_id ` set (trail s j)) \<and>
    a \<in> set (trail s j)"
proof -
  from assms(2) obtain us vs where us: "trail s j = us @ a # vs"
    "\<forall>u\<in>set us. e_id u \<notin> e_id ` set (trail s i)" and "e_id a \<in> e_id ` set (trail s i)"
    by (blast dest: find_split)
  then obtain x where "x \<in> set (trail s i)" and same: "e_id x = e_id a" by (auto simp del: imageI)
  then obtain xs ys where "trail s i = xs @ x # ys" by (blast dest: split_list)
  note x = this same
  from trail_suffix [OF assms(1) x(1)] trail_suffix [OF assms(1) us(1)] x(2)
  have "x # ys = a # vs" by metis
  then have "x = a" "ys = vs" by simp_all
  have "e_id z \<notin> e_id ` set (trail s j)" if "z \<in> set xs" for z
  proof
    assume "e_id z \<in> e_id ` set (trail s j)"
    then obtain w where w: "w \<in> set us \<or> w \<in> set (a # vs)" "e_id w = e_id z"
      using us(1) by (metis Un_iff image_iff set_append)
    have "w \<notin> set us" using us(2) w(2) that x(1) by auto
    with w have "e_id z \<in> e_id ` set (a # vs)" by (metis imageI)
    with trail_distinct [OF assms(1), of i] that x(1) \<open>x = a\<close> \<open>ys = vs\<close>
    show False by (auto simp: disjoint_iff rev_image_eqI)
  qed
  then show ?thesis using x(1) us(1) \<open>x = a\<close> by (intro exI [of _ xs] exI [of _ ys]) simp
qed


lemma query_from:
  assumes "inv s" and "trail s i \<noteq> []"
  shows "session_find_entries_on_branch ops lane (branch_from i) s = Inr (trail s i)"
  using trail_query [OF assms]
  by (simp add: session_find_entries_on_branch_def resolve_branch_query_def branch_from_def
      branch_query_validate_def entry_query_validate_def entry_query_default_def validate_limit_def
      validate_cursor_def branch_query_resolve_def)

lemma collect_unshared:
  assumes "inv s" and "trail s i \<noteq> []" and "trail s j \<noteq> []"
  shows "collect_entries_for_branch_summary ops lane s (Some i) j = Some (Inr
    \<lparr>ce_entries = rev (takeWhile (\<lambda>e. e_id e \<notin> e_id ` set (trail s j)) (trail s i)),
     ce_common_ancestor_id = map_option e_id (find (\<lambda>e. e_id e \<in> e_id ` set (trail s j)) (trail s i))\<rparr>)"
proof -
  let ?O = "trail s i" and ?T = "trail s j"
  let ?anc = "map_option e_id (find (\<lambda>e. e_id e \<in> e_id ` set ?O) ?T)"
  have "takeWhile (\<lambda>e. ?anc \<noteq> Some (e_id e)) ?O = takeWhile (\<lambda>e. e_id e \<notin> e_id ` set ?T) ?O \<and>
      ?anc = map_option e_id (find (\<lambda>e. e_id e \<in> e_id ` set ?T) ?O)"
  proof (cases "find (\<lambda>e. e_id e \<in> e_id ` set ?O) ?T")
    case None
    then have no: "e_id e \<notin> e_id ` set ?T" if "e \<in> set ?O" for e
      using that by (auto simp: find_None_iff) (metis imageI)
    then have "takeWhile (\<lambda>e. e_id e \<notin> e_id ` set ?T) ?O = ?O" "takeWhile (\<lambda>e. True) ?O = ?O"
      by (simp_all add: takeWhile_eq_all_conv)
    moreover have "find (\<lambda>e. e_id e \<in> e_id ` set ?T) ?O = None" using no by (auto simp: find_None_iff)
    ultimately show ?thesis using None by (simp del: takeWhile_eq_all_conv)
  next
    case (Some a)
    from trails_meet [OF assms(1) this] obtain xs ys where a: "?O = xs @ a # ys"
      "\<forall>x\<in>set xs. e_id x \<notin> e_id ` set ?T" "a \<in> set ?T" by blast
    have "\<forall>x\<in>set xs. e_id x \<noteq> e_id a" using a by auto
    then have "takeWhile (\<lambda>e. Some (e_id a) \<noteq> Some (e_id e)) ?O = xs"
      unfolding a(1) by (subst takeWhile_append2) auto
    moreover have "takeWhile (\<lambda>e. e_id e \<notin> e_id ` set ?T) ?O = xs"
      unfolding a(1) using a(2,3) by (subst takeWhile_append2) auto
    moreover have "find (\<lambda>e. e_id e \<in> e_id ` set ?T) ?O = Some a"
      unfolding a(1) using a(2,3) by (induction xs) auto
    ultimately show ?thesis using Some by simp
  qed
  then show ?thesis
    by (simp add: collect_entries_for_branch_summary_def query_from [OF assms(1,2)]
        query_from [OF assms(1,3)] collect_walk_trail [OF assms(1,2)] Let_def)
qed

end


definition im_trail :: "in_memory_storage \<Rightarrow> string \<Rightarrow> entry list" where
  "im_trail st i = branch_ref (im_state st) i"

lemma branch_ref_Cons:
  assumes "state_wf s" and "branch_ref s i = x # xs"
  shows "case e_parent_id x of None \<Rightarrow> xs = [] | Some p \<Rightarrow> xs = branch_ref s p \<and> xs \<noteq> []"
proof -
  let ?es = "ss_entries s"
  have dist: "distinct (map e_id ?es)" and tree: "tree_ok ?es"
    using assms(1) by (auto simp: state_wf_def ids_wf_def)
  have "x \<in> set ?es"
    using set_lineage [of "rev ?es" "Some i"] assms(2) by (simp add: branch_ref_def)
  then obtain j where j: "j < length ?es" "x = ?es ! j" by (auto simp: in_set_conv_nth)
  have "lineage es k = y # ys \<Longrightarrow> k = Some (e_id y)" for es k y ys
    by (induction es arbitrary: k) (auto split: if_splits)
  with assms(2) have i: "i = e_id x" by (auto simp: branch_ref_def)
  have take: "branch_ref s (e_id (?es ! k)) = ?es ! k # lineage (rev (take k ?es)) (e_parent_id (?es ! k))"
    if "k < length ?es" for k
    using lineage_take [OF dist, of k "length ?es"] that by (simp add: branch_ref_def)
  have xs: "xs = lineage (rev (take j ?es)) (e_parent_id x)" using take [OF j(1)] assms(2) i j(2) by simp
  show ?thesis
  proof (cases "e_parent_id x")
    case (Some p)
    with tree j have "p \<in> e_id ` set (take j ?es)" by (auto simp: tree_ok_def)
    then obtain k where k: "k < j" "p = e_id (?es ! k)" by (auto simp: in_set_conv_nth)
    with lineage_take [OF dist, of k j] take [of k] j xs Some show ?thesis by simp
  qed (simp add: xs)
qed


lemma branch_ref_distinct: "state_wf s \<Longrightarrow> distinct (map e_id (branch_ref s i))"
proof -
  assume wf: "state_wf s"
  have falling: "distinct xs" if "sorted_wrt (\<lambda>a b. e_seq b < e_seq a) xs" for xs :: "entry list"
    using that by (induction xs) auto
  have "inj_on e_id (set (ss_entries s))"
    using wf by (simp add: state_wf_def ids_wf_def distinct_map)
  moreover have "set (branch_ref s i) \<subseteq> set (ss_entries s)"
    using set_lineage [of "rev (ss_entries s)" "Some i"] by (simp add: branch_ref_def)
  moreover have "distinct (branch_ref s i)"
    using falling [OF branch_ref_sorted [OF wf]] .
  ultimately show ?thesis by (auto simp: distinct_map intro: inj_on_subset)
qed

interpretation memory_reader: branch_reader in_memory_session_storage im_inv im_trail
proof (unfold_locales, goal_cases)
  case (1 s i)
  then have wf: "state_wf (im_state s)" by simp
  have "i \<in> entry_ids (im_state s)"
  proof (rule ccontr)
    assume "i \<notin> entry_ids (im_state s)"
    then have "lineage (rev (ss_entries (im_state s))) (Some i) = []"
      using lineage_skip [of i "rev (ss_entries (im_state s))" "[]"] by simp
    with 1 show False by (simp add: im_trail_def branch_ref_def)
  qed
  then show ?case
    by (simp add: in_memory_session_storage_def find_entries_on_branch_spec [OF wf] im_trail_def
        branch_from_def branch_query_resolve_def branch_bounds_default_def entry_query_validate_def
        entry_query_default_def validate_limit_def validate_cursor_def limit_take_def
        matches_entry_query_def is_oldest_first_def order_or_default_def)
next
  case (2 s e i)
  then have "e \<in> set (ss_entries (im_state s))"
    using set_lineage [of "rev (ss_entries (im_state s))" "Some i"]
    by (auto simp: im_trail_def branch_ref_def)
  with 2 show ?case
    using get_entry_Some_iff [of "im_state s"] by (auto simp: in_memory_session_storage_def)
next
  case (3 s i x xs)
  have "lineage es k = y # ys \<Longrightarrow> k = Some (e_id y)" for es k y ys
    by (induction es arbitrary: k) (auto split: if_splits)
  with 3 show ?case by (auto simp: im_trail_def branch_ref_def)
next
  case (4 s i x xs)
  then have "im_inv s" "branch_ref (im_state s) i = x # xs" by (simp_all add: im_trail_def)
  from branch_ref_Cons [OF this] show ?case unfolding im_trail_def .
next
  case (5 s i)
  then show ?case by (simp add: im_trail_def branch_ref_distinct)
qed


section \<open>Properties\<close>

text \<open>
  Leaving a branch. In a well-formed session and for two of its entries, the collection of what
  to summarise returns: exactly the entries of the old branch that the target branch does not
  share, oldest first, and as the common ancestor the newest entry they share.
\<close>

theorem branch_summary_entries:
  assumes "state_wf (im_state st)" and "old \<in> entry_ids (im_state st)" and "target \<in> entry_ids (im_state st)"
  shows "collect_entries_for_branch_summary in_memory_session_storage lane st (Some old) target =
    Some (Inr
      \<lparr>ce_entries = rev (takeWhile (\<lambda>e. e_id e \<notin> e_id ` set (branch_ref (im_state st) target))
         (branch_ref (im_state st) old)),
       ce_common_ancestor_id = map_option e_id
         (find (\<lambda>e. e_id e \<in> e_id ` set (branch_ref (im_state st) target))
           (branch_ref (im_state st) old))\<rparr>)"
  using memory_reader.collect_unshared [OF assms(1), of old target lane]
    branch_ref_ne [OF assms(1,2)] branch_ref_ne [OF assms(1,3)]
  by (simp add: im_trail_def)

theorem branch_summary_entries_witness:
  "collect_entries_for_branch_summary in_memory_session_storage ''main''
     ((in_memory_new (session_metadata_new ''s'' 0))\<lparr>im_state := demo_state\<rparr>) (Some ''b'') ''a'' =
   Some (Inr \<lparr>ce_entries = [demo_entry ''b'' 2 (Some ''a'')], ce_common_ancestor_id = Some ''a''\<rparr>)"
proof -
  let ?st = "(in_memory_new (session_metadata_new ''s'' 0))\<lparr>im_state := demo_state\<rparr>"
  have "state_wf (im_state ?st)" "''b'' \<in> entry_ids (im_state ?st)" "''a'' \<in> entry_ids (im_state ?st)"
    by (simp_all add: demo_wf demo_entries) (simp_all add: demo_entry_def)
  from branch_summary_entries [OF this, of "''main''"] show ?thesis
    by (simp add: branch_ref_def demo_entries) (simp add: demo_entry_def)
qed

definition selection_bounded :: "compaction_serde \<Rightarrow> int \<Rightarrow> branch_preparation \<Rightarrow> bool" where
  "selection_bounded serde token_budget bp \<longleftrightarrow>
     bp_total_tokens bp = (\<Sum>m\<leftarrow>bp_messages bp. estimate_tokens serde m) \<and>
     (bp_total_tokens bp \<le> token_budget \<or>
      (\<exists>m ms. bp_messages bp = m # ms \<and> (\<Sum>m\<leftarrow>ms. estimate_tokens serde m) \<le> token_budget \<and>
         ((\<exists>s. m = ABranchSummary s) \<or> (\<exists>s. m = ACompactionSummary s))))"

lemma summary_message_kind:
  "branch_message_from_entry e = Some m \<Longrightarrow> entry_type_of e \<in> {ETCompaction, ETBranchSummary} \<Longrightarrow>
     (\<exists>s. m = ABranchSummary s) \<or> (\<exists>s. m = ACompactionSummary s)"
  by (cases "e_payload e") (auto simp: branch_message_from_entry_def entry_type_of_def)

lemma select_entries_bounded:
  assumes "0 < token_budget" and "bp_total_tokens bp = (\<Sum>m\<leftarrow>bp_messages bp. estimate_tokens serde m)"
    and "bp_total_tokens bp \<le> token_budget"
  shows "(\<exists>skipped. skipped @ bp_messages (select_entries serde token_budget es bp) =
      List.map_filter branch_message_from_entry (rev es) @ bp_messages bp) \<and>
    selection_bounded serde token_budget (select_entries serde token_budget es bp)"
  using assms(2,3)
proof (induction es arbitrary: bp)
  case (Cons e es)
  show ?case
  proof (cases "branch_message_from_entry e")
    case None
    from Cons.IH [OF Cons.prems] None show ?thesis by (simp add: map_filter_Cons)
  next
    case (Some m)
    show ?thesis
    proof (cases "bp_total_tokens bp + estimate_tokens serde m > token_budget")
      case True
      with Some Cons.prems assms(1) summary_message_kind [OF Some] show ?thesis
        by (auto simp: map_filter_Cons Let_def selection_bounded_def)
    next
      case False
      let ?bp = "bp\<lparr>bp_file_ops := extract_file_ops_from_message m (bp_file_ops bp),
          bp_messages := m # bp_messages bp, bp_total_tokens := bp_total_tokens bp + estimate_tokens serde m\<rparr>"
      from Cons.IH [of ?bp] Some False Cons.prems show ?thesis by (simp add: map_filter_Cons Let_def)
    qed
  qed
qed (simp add: selection_bounded_def)

text \<open>
  The messages chosen for a branch summary are the newest ones of the branch, none left out in
  between; their estimated tokens are within a positive budget, except that the oldest one chosen
  may overflow it when it is itself a summary of what came before.
\<close>

theorem branch_selection_bounded:
  assumes "0 < token_budget"
  shows "let bp = prepare_branch_entries serde es token_budget
    in (\<exists>skipped. skipped @ bp_messages bp = List.map_filter branch_message_from_entry es) \<and>
       bp_total_tokens bp = (\<Sum>m\<leftarrow>bp_messages bp. estimate_tokens serde m) \<and>
       (bp_total_tokens bp \<le> token_budget \<or>
        (\<exists>m ms. bp_messages bp = m # ms \<and>
           (\<Sum>m\<leftarrow>ms. estimate_tokens serde m) \<le> token_budget \<and>
           ((\<exists>s. m = ABranchSummary s) \<or> (\<exists>s. m = ACompactionSummary s))))"
proof -
  define start where "start = \<lparr>bp_messages = [], bp_file_ops =
      fold (\<lambda>e ops. case e_payload e of
          EPBranchSummary b \<Rightarrow> extend_details serde (bs_details b) ops | _ \<Rightarrow> ops) es create_file_ops,
      bp_total_tokens = 0\<rparr>"
  have "prepare_branch_entries serde es token_budget = select_entries serde token_budget (rev es) start"
    by (simp add: prepare_branch_entries_def start_def)
  moreover have "bp_messages start = []" "bp_total_tokens start = 0" by (simp_all add: start_def)
  ultimately have "(\<exists>skipped. skipped @ bp_messages (prepare_branch_entries serde es token_budget) =
        List.map_filter branch_message_from_entry es) \<and>
      selection_bounded serde token_budget (prepare_branch_entries serde es token_budget)"
    using select_entries_bounded [of token_budget start serde "rev es"] assms by simp
  then show ?thesis unfolding Let_def selection_bounded_def .
qed

theorem branch_selection_bounded_witness:
  "(0 :: int) < 5 \<and> bp_total_tokens (prepare_branch_entries demo_serde
     [path_entry ''a'' (path_user ''abcd'')] 5) = (\<Sum>m\<leftarrow>bp_messages (prepare_branch_entries demo_serde
     [path_entry ''a'' (path_user ''abcd'')] 5). estimate_tokens demo_serde m)"
  using branch_selection_bounded [of 5 demo_serde "[path_entry ''a'' (path_user ''abcd'')]"]
  by (simp add: Let_def)


section \<open>The files a compaction reports\<close>

text \<open>The paths that calls of the named tool in these messages were given.\<close>

definition touched :: "string \<Rightarrow> agent_message list \<Rightarrow> string set" where
  "touched name ms =
     {path. \<exists>a call. AAssistant a \<in> set ms \<and> call \<in> set (tool_calls a) \<and> call_name call = name \<and>
        map_of (call_arguments call) ''path'' = Some (JString path)}"

definition called :: "string \<Rightarrow> tool_call list \<Rightarrow> string set" where
  "called name cs = {path. \<exists>call\<in>set cs. call_name call = name \<and>
     map_of (call_arguments call) ''path'' = Some (JString path)}"

lemma called_simps [simp]:
  "called name [] = {}"
  "called name (c # cs) = (if call_name c = name
     then (case map_of (call_arguments c) ''path'' of Some (JString p) \<Rightarrow> {p} | _ \<Rightarrow> {}) else {}) \<union>
     called name cs"
  by (auto simp: called_def split: option.splits json.splits)

lemma touched_simps [simp]:
  "touched name [] = {}"
  "touched name (m # ms) = (case m of AAssistant a \<Rightarrow> called name (tool_calls a) | _ \<Rightarrow> {}) \<union>
     touched name ms"
  by (auto simp: touched_def called_def split: agent_message.splits)

lemma touched_append [simp]: "touched name (ms @ ns) = touched name ms \<union> touched name ns"
  by (auto simp: touched_def)

lemma fold_extract_call:
  "fold extract_call cs ops =
     \<lparr>fop_read = fop_read ops \<union> called ''read'' cs, fop_written = fop_written ops \<union> called ''write'' cs,
      fop_edited = fop_edited ops \<union> called ''edit'' cs\<rparr>"
proof (induction cs arbitrary: ops)
  case (Cons c cs)
  have "extract_call c ops =
     \<lparr>fop_read = fop_read ops \<union> called ''read'' [c], fop_written = fop_written ops \<union> called ''write'' [c],
      fop_edited = fop_edited ops \<union> called ''edit'' [c]\<rparr>"
    by (cases ops) (simp add: extract_call_def split: option.splits json.splits)
  with Cons show ?case by (simp add: Un_assoc)
qed simp

lemma fold_extract_messages:
  "fold extract_file_ops_from_message ms ops =
     \<lparr>fop_read = fop_read ops \<union> touched ''read'' ms, fop_written = fop_written ops \<union> touched ''write'' ms,
      fop_edited = fop_edited ops \<union> touched ''edit'' ms\<rparr>"
proof (induction ms arbitrary: ops)
  case (Cons m ms)
  then show ?case
    by (cases m) (simp_all add: extract_file_ops_from_message_def fold_extract_call Un_assoc)
qed simp

lemma finite_called [simp]: "finite (called name cs)"
  by (induction cs) (simp_all split: option.splits json.splits)

lemma finite_touched [simp]: "finite (touched name ms)"
  by (induction ms) (simp_all split: agent_message.splits)

definition earlier_files :: "compaction_serde \<Rightarrow> entry list \<Rightarrow> string list \<times> string list" where
  "earlier_files serde path =
     (case Option.bind (Option.bind (newest_compaction path) ce_details) (cv_details serde) of
        Some fs \<Rightarrow> fs | None \<Rightarrow> ([], []))"

lemma extract_file_operations_eq:
  "extract_file_operations serde ms path (rposition (\<lambda>e. entry_type_of e = ETCompaction) path) =
     \<lparr>fop_read = set (fst (earlier_files serde path)) \<union> touched ''read'' ms,
      fop_written = touched ''write'' ms,
      fop_edited = set (snd (earlier_files serde path)) \<union> touched ''edit'' ms\<rparr>"
  by (auto simp: extract_file_operations_def fold_extract_messages earlier_files_def extend_details_def
      create_file_ops_def newest_compaction_def split: option.splits bind_splits)

lemma prepared_file_ops:
  assumes "prepare_compaction serde path settings = Some (Some p)"
  shows "let ms = prep_messages_to_summarize p @ prep_turn_prefix_messages p
    in prep_file_ops p =
      \<lparr>fop_read = set (fst (earlier_files serde path)) \<union> touched ''read'' ms,
       fop_written = touched ''write'' ms,
       fop_edited = set (snd (earlier_files serde path)) \<union> touched ''edit'' ms\<rparr>"
  using assms
  by (auto simp: prepare_compaction_def Let_def extract_file_operations_eq fold_extract_messages Un_assoc
      bind_eq_Some_conv split: if_splits prod.splits)

text \<open>
  What a finished compaction reports. The retained tail and the token count are the prepared
  ones. The modified files are, sorted and without repetition, exactly those that a write or edit
  call of the summarised messages or the previous compaction names; the read files are those read
  and not modified. The summary ends with these lists.
\<close>

theorem compact_reports_files:
  assumes "prepare_compaction serde path settings = Some (Some p)"
    and "compact serde summarize p model instructions signal level = Inr r"
  shows "let ms = prep_messages_to_summarize p @ prep_turn_prefix_messages p;
      modified = set (snd (earlier_files serde path)) \<union> touched ''edit'' ms \<union> touched ''write'' ms
    in cr_retained_tail r = prep_retained_tail p \<and> cr_tokens_before r = prep_tokens_before p \<and>
      sorted (cr_modified_files r) \<and> distinct (cr_modified_files r) \<and> set (cr_modified_files r) = modified \<and>
      sorted (cr_read_files r) \<and> distinct (cr_read_files r) \<and>
      set (cr_read_files r) = (set (fst (earlier_files serde path)) \<union> touched ''read'' ms) - modified \<and>
      (\<exists>t. cr_summary r = t @ format_file_operations (cr_read_files r) (cr_modified_files r))"
proof -
  have "cr_retained_tail r = prep_retained_tail p" "cr_tokens_before r = prep_tokens_before p"
    and lists: "(cr_read_files r, cr_modified_files r) = compute_file_lists (prep_file_ops p)"
    and "\<exists>t. cr_summary r = t @ format_file_operations (cr_read_files r) (cr_modified_files r)"
    using assms(2)
    by (cases "compute_file_lists (prep_file_ops p)"; auto simp: compact_def result_simps)+
  moreover note prepared_file_ops [OF assms(1)]
  ultimately show ?thesis
    by (auto simp: compute_file_lists_def Let_def sorted_wrt_filter Un_commute)
qed

theorem compact_reports_files_witness:
  "\<exists>p r. prepare_compaction demo_serde [path_entry ''a'' (path_user ''abcd'')] DEFAULT_COMPACTION_SETTINGS =
       Some (Some p) \<and>
     compact demo_serde (\<lambda>_ _. Inr (assistant_message_pending 1 ''api'' ''p'' ''m'')) p
       summarization_model_default None (None :: unit option) None = Inr r \<and>
     cr_retained_tail r = [path_user ''abcd'']"
proof -
  obtain p where p: "prepare_compaction demo_serde [path_entry ''a'' (path_user ''abcd'')]
      DEFAULT_COMPACTION_SETTINGS = Some (Some p)" "prep_retained_tail p = [path_user ''abcd'']"
    using one_entry_prepared [of "path_user ''abcd''" demo_serde "''a''" DEFAULT_COMPACTION_SETTINGS]
    by auto
  have "\<exists>r. compact demo_serde (\<lambda>_ _. Inr (assistant_message_pending 1 ''api'' ''p'' ''m'')) p
       summarization_model_default None (None :: unit option) None = Inr r"
    by (simp add: compact_def compact_summary_def Let_def generate_summary_with_usage_def
        generate_turn_prefix_summary_def check_response_def assistant_message_pending_def
        split: prod.splits)
  then obtain r where r: "compact demo_serde (\<lambda>_ _. Inr (assistant_message_pending 1 ''api'' ''p'' ''m'')) p
       summarization_model_default None (None :: unit option) None = Inr r" by blast
  from compact_reports_files [OF p(1) r] p r show ?thesis by (auto simp: Let_def)
qed

end
