(* ===== verification/Sse_Parser.thy ===== *)
theory Sse_Parser
  imports Stream_Decoder Cbor_Value
begin

text \<open>
  The event-stream parser of the providers, \<^verbatim>\<open>pi-rs/crates/pi-http/src/sse.rs\<close>. The parser buffers
  undecoded bytes and decoded text between chunks; \<open>drain_lines\<close> splits complete lines off the text
  and \<open>push_line\<close> assembles them into events. \<^verbatim>\<open>String\<close> values are the characters of their UTF-8
  bytes, as everywhere; a chunk is a list of bytes.
\<close>

section \<open>UTF-8 prefixes\<close>

text \<open>\<^verbatim>\<open>valid_up_to\<close> of \<^verbatim>\<open>std::str::from_utf8\<close>: the length of the longest well-formed prefix.\<close>

function utf8_valid_len :: "nat list \<Rightarrow> nat" where
  "utf8_valid_len [] = 0"
| "utf8_valid_len (b # rest) =
     (case utf8_chunk b rest of
        None \<Rightarrow> 0
      | Some r \<Rightarrow> (Suc (length rest) - length r) + utf8_valid_len r)"
  by pat_completeness auto
termination
  by (relation "measure length") (auto dest: utf8_chunk_length)

definition complete_utf8_len :: "byte list \<Rightarrow> nat" where
  "complete_utf8_len bs = utf8_valid_len (map unat bs)"

text \<open>
  \<^verbatim>\<open>String::from_utf8_lossy\<close>: each maximal ill-formed piece becomes U+FFFD. \<open>utf8_bad_len\<close> is how many
  bytes of a sequence that starts here could still have begun a character.
\<close>

definition utf8_bad_len :: "nat \<Rightarrow> nat list \<Rightarrow> nat" where
  "utf8_bad_len b rest =
     (let second = (\<lambda>c. utf8_cont c \<and> (b = 224 \<longrightarrow> 160 \<le> c) \<and> (b = 237 \<longrightarrow> c \<le> 159) \<and>
            (b = 240 \<longrightarrow> 144 \<le> c) \<and> (b = 244 \<longrightarrow> c \<le> 143))
      in if 224 \<le> b \<and> b \<le> 239 then
           (case rest of c # _ \<Rightarrow> if second c then 2 else 1 | [] \<Rightarrow> 1)
         else if 240 \<le> b \<and> b \<le> 244 then
           (case rest of
              c # d # _ \<Rightarrow> if second c then if utf8_cont d then 3 else 2 else 1
            | [c] \<Rightarrow> if second c then 2 else 1
            | [] \<Rightarrow> 1)
         else 1)"

function utf8_lossy :: "nat list \<Rightarrow> nat list" where
  "utf8_lossy [] = []"
| "utf8_lossy (b # rest) =
     (case utf8_chunk b rest of
        Some r \<Rightarrow> take (Suc (length rest) - length r) (b # rest) @ utf8_lossy r
      | None \<Rightarrow> [239, 191, 189] @ utf8_lossy (drop (utf8_bad_len b rest - 1) rest))"
  by pat_completeness auto
termination
  by (relation "measure length") (auto dest: utf8_chunk_length)

definition from_utf8_lossy :: "byte list \<Rightarrow> string" where
  "from_utf8_lossy bs = map char_of (utf8_lossy (map unat bs))"

section \<open>Events and the parser\<close>

abbreviation lf :: char where
  "lf \<equiv> CHR 0x0A"

abbreviation cr :: char where
  "cr \<equiv> CHR 0x0D"

record sse_event =
  se_event :: string
  se_data :: string
  se_id :: "string option"
  se_retry_ms :: "nat option"
  se_raw :: string

record sse_parser =
  sp_bytes :: "byte list"
  sp_buffer :: string
  sp_scanned :: nat
  sp_event :: string
  sp_data :: "string list"
  sp_id :: "string option"
  sp_retry_ms :: "nat option"
  sp_raw :: "string list"
  sp_bom_checked :: bool

definition sse_parser_new :: sse_parser where
  "sse_parser_new =
     \<lparr>sp_bytes = [], sp_buffer = [], sp_scanned = 0, sp_event = [], sp_data = [], sp_id = None,
      sp_retry_ms = None, sp_raw = [], sp_bom_checked = False\<rparr>"

definition take_event :: "sse_parser \<Rightarrow> sse_parser \<times> sse_event option" where
  "take_event s =
     (if sp_data s = [] \<and> sp_event s = [] then (s\<lparr>sp_id := None, sp_raw := []\<rparr>, None)
      else (s\<lparr>sp_event := [], sp_data := [], sp_id := None, sp_raw := []\<rparr>,
            Some \<lparr>se_event = sp_event s, se_data = join_with [lf] (sp_data s), se_id = sp_id s,
                  se_retry_ms = sp_retry_ms s, se_raw = join_with [lf] (sp_raw s)\<rparr>))"

text \<open>\<^verbatim>\<open>str::parse::<u64>\<close>: an optional plus sign and decimal digits within range.\<close>

definition parse_u64 :: "string \<Rightarrow> nat option" where
  "parse_u64 t =
     (let digits = (case t of c # r \<Rightarrow> if c = CHR ''+'' then r else t | [] \<Rightarrow> [])
      in if digits \<noteq> [] \<and> list_all is_ascii_digit digits \<and> parse_digits digits < 2 ^ 64
         then Some (parse_digits digits) else None)"

definition split_once :: "char \<Rightarrow> string \<Rightarrow> (string \<times> string) option" where
  "split_once c t =
     (if c \<in> set t then Some (takeWhile (\<lambda>x. x \<noteq> c) t, tl (dropWhile (\<lambda>x. x \<noteq> c) t)) else None)"

definition strip_space :: "string \<Rightarrow> string" where
  "strip_space v = (case v of c # r \<Rightarrow> if c = CHR '' '' then r else v | [] \<Rightarrow> [])"

definition push_line :: "string \<Rightarrow> sse_parser \<Rightarrow> sse_parser \<times> sse_event option" where
  "push_line line s =
     (if line = [] then take_event s
      else
        let s = s\<lparr>sp_raw := sp_raw s @ [line]\<rparr> in
        if hd line = CHR '':'' then (s, None)
        else
          let (field, v) =
            (case split_once (CHR '':'') line of
               Some (f, v) \<Rightarrow> (f, strip_space v) | None \<Rightarrow> (line, []))
          in (if field = ''event'' then s\<lparr>sp_event := v\<rparr>
              else if field = ''data'' then s\<lparr>sp_data := sp_data s @ [v]\<rparr>
              else if field = ''id'' then s\<lparr>sp_id := Some v\<rparr>
              else if field = ''retry'' then s\<lparr>sp_retry_ms := parse_u64 v\<rparr>
              else s, None))"

definition decode_ready :: "sse_parser \<Rightarrow> sse_parser" where
  "decode_ready s =
     (let complete = complete_utf8_len (sp_bytes s) in
      if sp_bytes s = [] \<or> complete = 0 then s
      else
        let s = s\<lparr>sp_buffer := sp_buffer s @ from_utf8_lossy (take complete (sp_bytes s)),
                  sp_bytes := drop complete (sp_bytes s)\<rparr>
        in if sp_bom_checked s then s
           else s\<lparr>sp_bom_checked := True,
                  sp_buffer :=
                    (if take 3 (sp_buffer s) = [CHR 0xEF, CHR 0xBB, CHR 0xBF]
                     then drop 3 (sp_buffer s) else sp_buffer s)\<rparr>)"

definition terminator :: "char \<Rightarrow> bool" where
  "terminator c \<longleftrightarrow> c = lf \<or> c = cr"

text \<open>The position of the next line terminator at or after an offset.\<close>

definition find_terminator :: "nat \<Rightarrow> string \<Rightarrow> nat option" where
  "find_terminator from t =
     (let p = from + length (takeWhile (\<lambda>c. \<not> terminator c) (drop from t))
      in if p < length t then Some p else None)"

lemma push_line_buffer [simp]:
  "sp_buffer (fst (push_line line s)) = sp_buffer s" "sp_bytes (fst (push_line line s)) = sp_bytes s"
  "sp_scanned (fst (push_line line s)) = sp_scanned s"
  "sp_bom_checked (fst (push_line line s)) = sp_bom_checked s"
  by (simp_all add: push_line_def take_event_def Let_def split: prod.splits)

lemma find_terminator_less: "find_terminator from t = Some p \<Longrightarrow> p < length t"
  by (simp add: find_terminator_def Let_def split: if_splits)

lemma find_terminator_Nil [simp]: "find_terminator from [] = None"
  by (simp add: find_terminator_def)

function drain_loop :: "bool \<Rightarrow> sse_parser \<Rightarrow> sse_parser \<times> sse_event list" where
  "drain_loop final_chunk s =
     (case find_terminator (min (sp_scanned s) (length (sp_buffer s))) (sp_buffer s) of
        None \<Rightarrow> (s\<lparr>sp_scanned := length (sp_buffer s)\<rparr>, [])
      | Some position \<Rightarrow>
          if sp_buffer s ! position = cr \<and> \<not> final_chunk \<and> position + 1 = length (sp_buffer s)
          then (s\<lparr>sp_scanned := position\<rparr>, [])
          else
            let terminator_len =
                  (if sp_buffer s ! position = cr \<and> position + 1 < length (sp_buffer s) \<and>
                      sp_buffer s ! (position + 1) = lf then 2 else 1);
                line = take position (sp_buffer s);
                r = push_line line
                  (s\<lparr>sp_buffer := drop (position + terminator_len) (sp_buffer s), sp_scanned := 0\<rparr>);
                rest = drain_loop final_chunk (fst r)
            in (fst rest, (case snd r of Some e \<Rightarrow> [e] | None \<Rightarrow> []) @ snd rest))"
  by pat_completeness auto
termination
  by (relation "measure (\<lambda>(f, s). length (sp_buffer s))") (auto dest: find_terminator_less)

declare drain_loop.simps [simp del]

definition drain_lines :: "bool \<Rightarrow> sse_parser \<Rightarrow> sse_parser \<times> sse_event list" where
  "drain_lines final_chunk s =
     (let (s, out) = drain_loop final_chunk s in
      if final_chunk \<and> sp_buffer s \<noteq> []
      then let (s, e) = push_line (sp_buffer s) (s\<lparr>sp_scanned := 0, sp_buffer := []\<rparr>)
           in (s, out @ (case e of Some e \<Rightarrow> [e] | None \<Rightarrow> []))
      else (s, out))"

definition push_bytes :: "sse_parser \<Rightarrow> byte list \<Rightarrow> sse_parser \<times> sse_event list" where
  "push_bytes s chunk = drain_lines False (decode_ready (s\<lparr>sp_bytes := sp_bytes s @ chunk\<rparr>))"

definition sse_push :: "sse_parser \<Rightarrow> string \<Rightarrow> sse_parser \<times> sse_event list" where
  "sse_push s chunk = push_bytes s (as_bytes chunk)"

definition sse_finish :: "sse_parser \<Rightarrow> sse_parser \<times> sse_event option" where
  "sse_finish s =
     (let s = (if sp_bytes s \<noteq> []
               then s\<lparr>sp_bytes := [], sp_buffer := sp_buffer s @ from_utf8_lossy (sp_bytes s)\<rparr>
               else s);
          (s, out) = drain_lines True s
      in if out = [] then take_event s else (s, Some (last out)))"

text \<open>
  The adapter of a byte stream: the items of the stream, a chunk or a transport error, to the
  items it yields. An error ends it.
\<close>

datatype http_error =
    HETransport string
  | HETimeout nat
  | HEAborted
  | HEStatus nat string "json option" "nat option"
  | HEInvalidRequest string

fun sse_stream_loop ::
  "('e \<Rightarrow> string) \<Rightarrow> sse_parser \<Rightarrow> ('e + byte list) list \<Rightarrow> (http_error + sse_event) list" where
  "sse_stream_loop display s [] = (case snd (sse_finish s) of Some e \<Rightarrow> [Inr e] | None \<Rightarrow> [])"
| "sse_stream_loop display s (Inl err # rest) = [Inl (HETransport (display err))]"
| "sse_stream_loop display s (Inr chunk # rest) =
     (case push_bytes s chunk of (s', out) \<Rightarrow> map Inr out @ sse_stream_loop display s' rest)"

definition sse_stream :: "('e \<Rightarrow> string) \<Rightarrow> ('e + byte list) list \<Rightarrow> (http_error + sse_event) list" where
  "sse_stream display items = sse_stream_loop display sse_parser_new items"

section \<open>Decoding is independent of the chunking\<close>

lemma utf8_chunk_split:
  assumes "utf8_chunk b rest = Some r"
  obtains cs where "rest = cs @ r" and "\<And>ys. utf8_chunk b (cs @ ys) = Some ys"
proof
  let ?cs = "take (length rest - length r) rest"
  show "rest = ?cs @ r" and "\<And>ys. utf8_chunk b (?cs @ ys) = Some ys"
    using assms by (auto simp: utf8_chunk.simps split: if_splits list.splits)
qed

lemma utf8_valid_len_chunk:
  assumes "\<And>ys. utf8_chunk b (cs @ ys) = Some ys"
  shows "utf8_valid_len (b # cs @ r) = Suc (length cs) + utf8_valid_len r"
  using assms by simp

lemma utf8_scan_chunk:
  assumes "\<And>ys. utf8_chunk b (cs @ ys) = Some ys"
  shows "utf8_scan (b # cs @ r) = utf8_scan r"
  using assms by simp

lemma utf8_valid_len_le: "utf8_valid_len xs \<le> length xs"
proof (induction xs rule: utf8_valid_len.induct)
  case (2 b rest)
  show ?case
  proof (cases "utf8_chunk b rest")
    case (Some r)
    from 2 [OF Some] utf8_chunk_length [OF Some] Some show ?thesis by simp
  qed simp
qed simp

text \<open>The longest valid prefix is valid, and what is valid is decoded to itself.\<close>

lemma utf8_scan_valid_prefix: "utf8_scan (take (utf8_valid_len xs) xs)"
proof (induction xs rule: utf8_valid_len.induct)
  case (2 b rest)
  show ?case
  proof (cases "utf8_chunk b rest")
    case (Some r)
    obtain cs where cs: "rest = cs @ r" "\<And>ys. utf8_chunk b (cs @ ys) = Some ys"
      using utf8_chunk_split [OF Some] by blast
    have "take (utf8_valid_len (b # rest)) (b # rest) = b # cs @ take (utf8_valid_len r) r"
      unfolding cs(1) utf8_valid_len_chunk [OF cs(2)] by simp
    with 2 [OF Some] utf8_scan_chunk [OF cs(2)] show ?thesis by simp
  qed simp
qed simp

lemma utf8_lossy_valid: "utf8_scan xs \<Longrightarrow> utf8_lossy xs = xs"
proof (induction xs rule: utf8_scan.induct)
  case (2 b rest)
  then obtain r where r: "utf8_chunk b rest = Some r" by (auto split: option.splits)
  obtain cs where cs: "rest = cs @ r" "\<And>ys. utf8_chunk b (cs @ ys) = Some ys"
    using utf8_chunk_split [OF r] by blast
  from 2 r show ?case by (simp add: cs)
qed simp

lemma utf8_valid_len_append:
  "utf8_valid_len (xs @ ys) =
     utf8_valid_len xs + utf8_valid_len (drop (utf8_valid_len xs) xs @ ys)"
proof (induction xs rule: utf8_valid_len.induct)
  case (2 b rest)
  show ?case
  proof (cases "utf8_chunk b rest")
    case (Some r)
    obtain cs where cs: "rest = cs @ r" "\<And>ys. utf8_chunk b (cs @ ys) = Some ys"
      using utf8_chunk_split [OF Some] by blast
    from 2 [OF Some] show ?thesis
      using utf8_valid_len_chunk [OF cs(2)] by (simp add: cs)
  qed simp
qed simp

lemma utf8_valid_len_scan: "utf8_scan xs \<Longrightarrow> utf8_valid_len xs = length xs"
proof (induction xs rule: utf8_scan.induct)
  case (2 b rest)
  then obtain r where r: "utf8_chunk b rest = Some r" by (auto split: option.splits)
  obtain cs where cs: "rest = cs @ r" "\<And>ys. utf8_chunk b (cs @ ys) = Some ys"
    using utf8_chunk_split [OF r] by blast
  from 2 r show ?case by (simp add: cs)
qed simp

lemma complete_utf8_len_le [simp]: "complete_utf8_len bs \<le> length bs"
  using utf8_valid_len_le [of "map unat bs"] by (simp add: complete_utf8_len_def)

lemma complete_utf8_len_append:
  "complete_utf8_len (bs @ cs) =
     complete_utf8_len bs + complete_utf8_len (drop (complete_utf8_len bs) bs @ cs)"
  using utf8_valid_len_append [of "map unat bs" "map unat cs"]
  by (simp add: complete_utf8_len_def drop_map)

lemma from_utf8_lossy_valid: "utf8_valid bs \<Longrightarrow> from_utf8_lossy bs = of_bytes bs"
  by (simp add: from_utf8_lossy_def utf8_valid_def utf8_lossy_valid of_bytes_def)

lemma utf8_valid_complete: "utf8_valid (take (complete_utf8_len bs) bs)"
  using utf8_scan_valid_prefix [of "map unat bs"]
  by (simp add: complete_utf8_len_def utf8_valid_def take_map)

lemma from_utf8_lossy_complete [simp]:
  "from_utf8_lossy (take (complete_utf8_len bs) bs) = of_bytes (take (complete_utf8_len bs) bs)"
  by (simp add: from_utf8_lossy_valid utf8_valid_complete)

definition strip_bom :: "string \<Rightarrow> string" where
  "strip_bom t = (if take 3 t = [CHR 0xEF, CHR 0xBB, CHR 0xBF] then drop 3 t else t)"

text \<open>The text a call of \<open>decode_ready\<close> adds to the buffer.\<close>

definition decoded :: "sse_parser \<Rightarrow> string" where
  "decoded s =
     (let t = of_bytes (take (complete_utf8_len (sp_bytes s)) (sp_bytes s))
      in if sp_bom_checked s then t else strip_bom t)"

definition bom_ok :: "sse_parser \<Rightarrow> bool" where
  "bom_ok s \<longleftrightarrow> sp_bom_checked s \<or> sp_buffer s = []"

lemma strip_bom_Nil [simp]: "strip_bom [] = []"
  by (simp add: strip_bom_def)

lemma decode_ready_eq:
  assumes "bom_ok s"
  shows "decode_ready s =
    s\<lparr>sp_buffer := sp_buffer s @ decoded s,
      sp_bytes := drop (complete_utf8_len (sp_bytes s)) (sp_bytes s),
      sp_bom_checked := (sp_bom_checked s \<or> complete_utf8_len (sp_bytes s) \<noteq> 0)\<rparr>"
proof -
  have "complete_utf8_len [] = 0" by (simp add: complete_utf8_len_def)
  with assms show ?thesis
    by (auto simp: decode_ready_def decoded_def bom_ok_def strip_bom_def Let_def of_bytes_def)
qed

lemma strip_bom_append:
  assumes "utf8_valid bs" and "bs \<noteq> []"
  shows "strip_bom (of_bytes bs @ t) = strip_bom (of_bytes bs) @ t"
proof (cases "3 \<le> length bs")
  case False
  have short: "length xs \<ge> 2" if "utf8_scan (239 # xs)" for xs
    using that by (auto simp: utf8_chunk.simps split: if_splits list.splits)
  have "unat (hd bs) \<noteq> 239"
    using assms False short [of "map unat (tl bs)"]
    by (cases bs) (auto simp: utf8_valid_def)
  then have "hd (of_bytes bs) \<noteq> CHR 0xEF"
    using assms(2) by (cases bs) (auto simp: of_bytes_def dest: arg_cong [of _ _ "of_char :: char \<Rightarrow> nat"])
  moreover have "of_bytes bs \<noteq> []" using assms(2) by (simp add: of_bytes_def)
  ultimately show ?thesis
    by (cases "of_bytes bs") (auto simp: strip_bom_def take_Cons')
qed (simp add: strip_bom_def)

lemma decode_ready_append:
  assumes "bom_ok s"
  shows "decode_ready (s\<lparr>sp_bytes := sp_bytes s @ c\<rparr>) =
    decode_ready ((decode_ready s)\<lparr>sp_bytes := sp_bytes (decode_ready s) @ c\<rparr>)"
proof -
  let ?b = "sp_bytes s" and ?n = "complete_utf8_len (sp_bytes s)"
  let ?m = "complete_utf8_len (drop ?n ?b @ c)"
  have len: "complete_utf8_len (?b @ c) = ?n + ?m" by (rule complete_utf8_len_append)
  have split: "take (?n + ?m) (?b @ c) = take ?n ?b @ take ?m (drop ?n ?b @ c)"
    by (simp add: take_add add.commute)
  have rest: "drop (?n + ?m) (?b @ c) = drop ?m (drop ?n ?b @ c)"
    by (simp add: add.commute)
  let ?s1 = "(decode_ready s)\<lparr>sp_bytes := sp_bytes (decode_ready s) @ c\<rparr>"
  let ?t1 = "of_bytes (take ?n ?b)" and ?t2 = "of_bytes (take ?m (drop ?n ?b @ c))"
  have t12: "of_bytes (take (?n + ?m) (?b @ c)) = ?t1 @ ?t2"
    unfolding split by (simp add: of_bytes_def)
  have d1: "decoded ?s1 = (if sp_bom_checked s \<or> ?n \<noteq> 0 then ?t2 else strip_bom ?t2)"
    by (simp add: decoded_def decode_ready_eq [OF assms])
  have d: "decoded (s\<lparr>sp_bytes := ?b @ c\<rparr>) =
      (if sp_bom_checked s then ?t1 @ ?t2 else strip_bom (?t1 @ ?t2))"
    unfolding t12 [symmetric] len [symmetric] by (simp add: decoded_def)
  have added: "decoded (s\<lparr>sp_bytes := ?b @ c\<rparr>) = decoded s @ decoded ?s1"
  proof (cases "sp_bom_checked s \<or> ?n = 0")
    case True
    then show ?thesis unfolding d1 d by (auto simp: decoded_def of_bytes_def)
  next
    case False
    then have "take ?n ?b \<noteq> []" by (auto simp: complete_utf8_len_def)
    from strip_bom_append [OF utf8_valid_complete this] False show ?thesis
      unfolding d1 d by (simp add: decoded_def)
  qed
  have ok: "bom_ok (s\<lparr>sp_bytes := ?b @ c\<rparr>)" "bom_ok ?s1"
    using assms by (auto simp: bom_ok_def decode_ready_eq decoded_def of_bytes_def)
  show ?thesis
    unfolding decode_ready_eq [OF ok(1)] decode_ready_eq [OF ok(2)] added
    by (simp add: decode_ready_eq [OF assms] len rest add.commute)
qed

section \<open>Lines\<close>

text \<open>
  The lines of a text, without the parser around them: the complete lines and what is left over.
  Unless the text is final, a carriage return at its very end is left over with the line before it.
\<close>

definition terminator_len :: "string \<Rightarrow> nat \<Rightarrow> nat" where
  "terminator_len t p = (if t ! p = cr \<and> p + 1 < length t \<and> t ! (p + 1) = lf then 2 else 1)"

definition held_back :: "bool \<Rightarrow> string \<Rightarrow> nat \<Rightarrow> bool" where
  "held_back final_chunk t p \<longleftrightarrow> t ! p = cr \<and> \<not> final_chunk \<and> p + 1 = length t"

function sse_lines :: "bool \<Rightarrow> string \<Rightarrow> string list \<times> string" where
  "sse_lines final_chunk t =
     (case find_terminator 0 t of
        None \<Rightarrow> ([], t)
      | Some p \<Rightarrow>
          if held_back final_chunk t p then ([], t)
          else apfst ((#) (take p t)) (sse_lines final_chunk (drop (p + terminator_len t p) t)))"
  by pat_completeness auto
termination
  by (relation "measure (\<lambda>(f, t). length t)") (auto simp: terminator_len_def dest: find_terminator_less)

declare sse_lines.simps [simp del]

fun push_lines :: "string list \<Rightarrow> sse_parser \<Rightarrow> sse_parser \<times> sse_event list" where
  "push_lines [] s = (s, [])"
| "push_lines (l # ls) s =
     (let r = push_line l s; rest = push_lines ls (fst r)
      in (fst rest, (case snd r of Some e \<Rightarrow> [e] | None \<Rightarrow> []) @ snd rest))"

lemma push_lines_append:
  "push_lines (ls @ ms) s =
     (let r = push_lines ls s; r' = push_lines ms (fst r) in (fst r', snd r @ snd r'))"
  by (induction ls arbitrary: s) (simp_all add: Let_def)

lemma push_lines_frame [simp]:
  "sp_buffer (fst (push_lines ls s)) = sp_buffer s" "sp_bytes (fst (push_lines ls s)) = sp_bytes s"
  "sp_bom_checked (fst (push_lines ls s)) = sp_bom_checked s"
  by (induction ls arbitrary: s) (simp_all add: Let_def)

text \<open>Lines are processed without looking at the buffers.\<close>

lemma push_line_buffers:
  "push_line l (s\<lparr>sp_buffer := b\<rparr>) = apfst (\<lambda>s. s\<lparr>sp_buffer := b\<rparr>) (push_line l s)"
  "push_line l (s\<lparr>sp_scanned := n\<rparr>) = apfst (\<lambda>s. s\<lparr>sp_scanned := n\<rparr>) (push_line l s)"
  "push_line l (s\<lparr>sp_bytes := c\<rparr>) = apfst (\<lambda>s. s\<lparr>sp_bytes := c\<rparr>) (push_line l s)"
  "push_line l (s\<lparr>sp_bom_checked := d\<rparr>) = apfst (\<lambda>s. s\<lparr>sp_bom_checked := d\<rparr>) (push_line l s)"
  by (simp_all add: push_line_def take_event_def Let_def split: prod.splits)

lemma push_lines_buffers:
  "push_lines ls (s\<lparr>sp_buffer := b\<rparr>) = apfst (\<lambda>s. s\<lparr>sp_buffer := b\<rparr>) (push_lines ls s)"
  "push_lines ls (s\<lparr>sp_scanned := n\<rparr>) = apfst (\<lambda>s. s\<lparr>sp_scanned := n\<rparr>) (push_lines ls s)"
  "push_lines ls (s\<lparr>sp_bytes := c\<rparr>) = apfst (\<lambda>s. s\<lparr>sp_bytes := c\<rparr>) (push_lines ls s)"
  "push_lines ls (s\<lparr>sp_bom_checked := d\<rparr>) = apfst (\<lambda>s. s\<lparr>sp_bom_checked := d\<rparr>) (push_lines ls s)"
  by (induction ls arbitrary: s) (simp_all add: Let_def push_line_buffers)

definition resting_at :: "string \<Rightarrow> nat" where
  "resting_at t = (case find_terminator 0 t of None \<Rightarrow> length t | Some p \<Rightarrow> p)"

definition scanned_ok :: "sse_parser \<Rightarrow> bool" where
  "scanned_ok s \<longleftrightarrow> list_all (\<lambda>c. \<not> terminator c) (take (sp_scanned s) (sp_buffer s))"

lemma find_terminator_skip:
  assumes "list_all (\<lambda>c. \<not> terminator c) (take n t)"
  shows "find_terminator (min n (length t)) t = find_terminator 0 t"
proof -
  have "takeWhile (\<lambda>c. \<not> terminator c) (take n t @ drop n t) =
      take n t @ takeWhile (\<lambda>c. \<not> terminator c) (drop n t)"
    using assms by (intro takeWhile_append2) (simp add: list_all_iff)
  moreover have "drop (min n (length t)) t = drop n t" by (simp add: min_def)
  ultimately show ?thesis by (simp add: find_terminator_def Let_def min.commute)
qed

lemma drain_loop_unfold:
  "drain_loop final_chunk s =
     (case find_terminator (min (sp_scanned s) (length (sp_buffer s))) (sp_buffer s) of
        None \<Rightarrow> (s\<lparr>sp_scanned := length (sp_buffer s)\<rparr>, [])
      | Some p \<Rightarrow>
          if held_back final_chunk (sp_buffer s) p then (s\<lparr>sp_scanned := p\<rparr>, [])
          else
            let r = push_line (take p (sp_buffer s))
                  (s\<lparr>sp_buffer := drop (p + terminator_len (sp_buffer s) p) (sp_buffer s), sp_scanned := 0\<rparr>);
                rest = drain_loop final_chunk (fst r)
            in (fst rest, (case snd r of Some e \<Rightarrow> [e] | None \<Rightarrow> []) @ snd rest))"
  unfolding held_back_def terminator_len_def by (subst drain_loop.simps) (simp only: Let_def)

text \<open>The loop of \<open>drain_lines\<close>, and the offset it resumes from, is line splitting.\<close>

lemma drain_loop_eq:
  assumes "scanned_ok s"
  shows "drain_loop final_chunk s =
    (let (ls, r) = sse_lines final_chunk (sp_buffer s) in
     apfst (\<lambda>s. s\<lparr>sp_buffer := r, sp_scanned := resting_at r\<rparr>) (push_lines ls s))"
  using assms
proof (induction final_chunk s rule: drain_loop.induct)
  case (1 final_chunk s)
  note find = find_terminator_skip [OF 1(2) [unfolded scanned_ok_def]]
  show ?case
  proof (cases "find_terminator 0 (sp_buffer s)")
    case None
    then show ?thesis
      by (simp add: drain_loop_unfold [of _ s] sse_lines.simps [of _ "sp_buffer s"] find resting_at_def)
  next
    case (Some p)
    show ?thesis
    proof (cases "held_back final_chunk (sp_buffer s) p")
      case True
      with Some show ?thesis
        by (simp add: drain_loop_unfold [of _ s] sse_lines.simps [of _ "sp_buffer s"] find
            resting_at_def)
    next
      case False
      let ?s = "fst (push_line (take p (sp_buffer s))
        (s\<lparr>sp_buffer := drop (p + terminator_len (sp_buffer s) p) (sp_buffer s), sp_scanned := 0\<rparr>))"
      have "drain_loop final_chunk ?s =
        (let (ls, r) = sse_lines final_chunk (sp_buffer ?s) in
         apfst (\<lambda>s. s\<lparr>sp_buffer := r, sp_scanned := resting_at r\<rparr>) (push_lines ls ?s))"
        by (rule 1(1) [OF find [THEN trans, OF Some]])
          (use False in \<open>auto simp: held_back_def terminator_len_def scanned_ok_def\<close>)
      with Some False show ?thesis
        by (simp add: drain_loop_unfold [of _ s] sse_lines.simps [of _ "sp_buffer s"] find
            Let_def push_line_buffers push_lines_buffers split: prod.splits)
    qed
  qed
qed

lemma find_terminator_append:
  "find_terminator 0 a = Some p \<Longrightarrow> find_terminator 0 (a @ b) = Some p"
proof -
  assume "find_terminator 0 a = Some p"
  then have p: "p = length (takeWhile (\<lambda>c. \<not> terminator c) a)" "p < length a"
    by (auto simp: find_terminator_def Let_def split: if_splits)
  then have "\<exists>x\<in>set a. terminator x" by (metis less_irrefl takeWhile_eq_all_conv)
  then have "takeWhile (\<lambda>c. \<not> terminator c) (a @ b) = takeWhile (\<lambda>c. \<not> terminator c) a"
    by (auto intro: takeWhile_append1)
  with p show ?thesis by (simp add: find_terminator_def)
qed

lemma terminator_len_le: "p < length t \<Longrightarrow> p + terminator_len t p \<le> length t"
  by (simp add: terminator_len_def)

lemma sse_lines_append:
  "sse_lines False (a @ b) =
     (let (ls, r) = sse_lines False a; (ls', r') = sse_lines False (r @ b) in (ls @ ls', r'))"
proof (induction "False" a rule: sse_lines.induct)
  case (1 a)
  show ?case
  proof (cases "\<exists>p. find_terminator 0 a = Some p \<and> \<not> held_back False a p")
    case True
    then obtain p where p: "find_terminator 0 a = Some p" "\<not> held_back False a p" by blast
    note less = find_terminator_less [OF p(1)]
    have len: "terminator_len (a @ b) p = terminator_len a p" and "\<not> held_back False (a @ b) p"
      using p(2) less by (auto simp: terminator_len_def held_back_def nth_append)
    with 1 [OF p] terminator_len_le [OF less] less show ?thesis
      by (simp add: sse_lines.simps [of False "a @ b"] sse_lines.simps [of False a] p
          find_terminator_append [OF p(1)] Let_def apfst_def map_prod_def split: prod.splits)
  next
    case False
    then have "sse_lines False a = ([], a)"
      by (auto simp: sse_lines.simps [of False a] split: option.splits)
    then show ?thesis by simp
  qed
qed

lemma sse_lines_rest: "sse_lines False t = (ls, r) \<Longrightarrow> sse_lines False r = ([], r)"
  using sse_lines_append [of t "[]"] by (auto split: prod.splits)

lemma resting_at_le: "resting_at t \<le> length t"
  by (auto simp: resting_at_def dest: find_terminator_less split: option.splits)

lemma resting_at_scanned: "list_all (\<lambda>c. \<not> terminator c) (take (resting_at t) t)"
proof -
  have "resting_at t = length (takeWhile (\<lambda>c. \<not> terminator c) t)"
    using length_takeWhile_le [of "\<lambda>c. \<not> terminator c" t]
    by (cases "length (takeWhile (\<lambda>c. \<not> terminator c) t) < length t")
      (simp_all add: resting_at_def find_terminator_def)
  then have "take (resting_at t) t = takeWhile (\<lambda>c. \<not> terminator c) t"
    by (simp only: takeWhile_eq_take [symmetric])
  then show ?thesis by (auto simp: list_all_iff dest: set_takeWhileD)
qed

section \<open>The parser between two chunks\<close>

definition sse_inv :: "sse_parser \<Rightarrow> bool" where
  "sse_inv s \<longleftrightarrow>
     bom_ok s \<and> complete_utf8_len (sp_bytes s) = 0 \<and>
     sse_lines False (sp_buffer s) = ([], sp_buffer s) \<and> sp_scanned s = resting_at (sp_buffer s)"

lemma sse_inv_new: "sse_inv sse_parser_new"
  by (simp add: sse_inv_def sse_parser_new_def bom_ok_def complete_utf8_len_def sse_lines.simps
      resting_at_def)

text \<open>What a chunk does: it is decoded, and the lines of the text are processed.\<close>

definition process_text :: "sse_parser \<Rightarrow> sse_parser \<times> sse_event list" where
  "process_text s =
     (let (ls, r) = sse_lines False (sp_buffer s) in
      apfst (\<lambda>s. s\<lparr>sp_buffer := r, sp_scanned := resting_at r\<rparr>) (push_lines ls s))"

lemma bom_ok_feed [simp]: "bom_ok (s\<lparr>sp_bytes := b\<rparr>) = bom_ok s"
  by (simp add: bom_ok_def)

lemma push_bytes_eq:
  assumes "sse_inv s"
  shows "push_bytes s c = process_text (decode_ready (s\<lparr>sp_bytes := sp_bytes s @ c\<rparr>))"
proof -
  have "scanned_ok (decode_ready (s\<lparr>sp_bytes := sp_bytes s @ c\<rparr>))"
    using assms resting_at_scanned [of "sp_buffer s"] resting_at_le [of "sp_buffer s"]
    by (simp add: sse_inv_def scanned_ok_def decode_ready_eq)
  then show ?thesis
    by (simp add: push_bytes_def drain_lines_def drain_loop_eq process_text_def Let_def
        split: prod.splits)
qed

lemma complete_utf8_len_rest:
  "complete_utf8_len (drop (complete_utf8_len bs) bs) = 0"
  using complete_utf8_len_append [of bs "[]"] by simp

lemma push_bytes_inv:
  assumes "sse_inv s"
  shows "sse_inv (fst (push_bytes s c))"
proof -
  have "bom_ok (decode_ready (s\<lparr>sp_bytes := sp_bytes s @ c\<rparr>))"
    using assms by (auto simp: sse_inv_def bom_ok_def decode_ready_eq decoded_def of_bytes_def)
  then show ?thesis
    using assms
    by (auto simp: push_bytes_eq process_text_def sse_inv_def decode_ready_eq
        complete_utf8_len_rest bom_ok_def sse_lines.simps [of _ "[]"]
        simp del: drop_append dest: sse_lines_rest split: prod.splits)
qed

lemma push_bytes_Nil: "sse_inv s \<Longrightarrow> push_bytes s [] = (s, [])"
  by (simp add: push_bytes_eq process_text_def decode_ready_eq decoded_def of_bytes_def
      sse_inv_def)

lemma process_text_feed:
  "process_text (s\<lparr>sp_buffer := sp_buffer s @ t, sp_bytes := x, sp_bom_checked := y\<rparr>) =
     (let (s', out) = process_text s;
          (s'', out') = process_text (s'\<lparr>sp_buffer := sp_buffer s' @ t, sp_bytes := x, sp_bom_checked := y\<rparr>)
      in (s'', out @ out'))"
proof -
  obtain la ra where a: "sse_lines False (sp_buffer s) = (la, ra)" by fastforce
  obtain lb rb where b: "sse_lines False (ra @ t) = (lb, rb)" by fastforce
  show ?thesis
    using sse_lines_append [of "sp_buffer s" t]
    by (simp add: process_text_def a b push_lines_append push_lines_buffers Let_def split_beta)
qed

lemma push_bytes_append:
  assumes "sse_inv s"
  shows "push_bytes s (a @ b) =
    (let (s', out) = push_bytes s a; (s'', out') = push_bytes s' b in (s'', out @ out'))"
proof -
  define sa where "sa = decode_ready (s\<lparr>sp_bytes := sp_bytes s @ a\<rparr>)"
  let ?sb = "sa\<lparr>sp_bytes := sp_bytes sa @ b\<rparr>"
  have ok: "bom_ok sa"
    using assms unfolding sa_def
    by (auto simp: sse_inv_def bom_ok_def decode_ready_eq decoded_def of_bytes_def)
  obtain s1 o1 where s1: "process_text sa = (s1, o1)" by fastforce
  have frame: "sp_bytes s1 = sp_bytes sa" "sp_bom_checked s1 = sp_bom_checked sa"
    using arg_cong [OF s1, of "\<lambda>p. sp_bytes (fst p)"] arg_cong [OF s1, of "\<lambda>p. sp_bom_checked (fst p)"]
    by (simp_all add: process_text_def split_beta)
  have a: "push_bytes s a = (s1, o1)"
    using s1 by (simp add: push_bytes_eq [OF assms] sa_def)
  then have "sse_inv s1" using push_bytes_inv [OF assms, of a] by simp
  then have ok1: "bom_ok s1" by (simp add: sse_inv_def)
  have "push_bytes s (a @ b) = process_text (decode_ready ?sb)"
    using decode_ready_append [of "s\<lparr>sp_bytes := sp_bytes s @ a\<rparr>" b] assms
    by (simp add: push_bytes_eq [OF assms] sa_def sse_inv_def)
  also have "\<dots> = (let (s'', out') = push_bytes s1 b in (s'', o1 @ out'))"
    using process_text_feed [where s = sa] ok ok1
    by (simp add: push_bytes_eq [OF \<open>sse_inv s1\<close>] decode_ready_eq s1 frame decoded_def)
  finally show ?thesis by (simp add: a)
qed

interpretation sse_parsing: incremental_parser push_bytes sse_inv
  by unfold_locales (rule push_bytes_inv, assumption, rule push_bytes_Nil, assumption, rule push_bytes_append)

lemma sse_stream_loop_chunks:
  "sse_stream_loop display s (map Inr cs) =
     map Inr (snd (feed_all push_bytes s cs)) @
     (case snd (sse_finish (fst (feed_all push_bytes s cs))) of Some e \<Rightarrow> [Inr e] | None \<Rightarrow> [])"
  by (induction cs arbitrary: s) (simp_all add: split_beta Let_def)

section \<open>The whole stream\<close>

text \<open>
  What the events of a text are, read off in one piece: split it into lines, a last line without a
  terminator included, process them, and dispatch what is pending at the end.
\<close>

definition sse_events :: "string \<Rightarrow> sse_event list" where
  "sse_events t =
     (let (ls, r) = sse_lines True t;
          (s, out) = push_lines (ls @ (if r = [] then [] else [r])) sse_parser_new
      in out @ (case snd (take_event s) of Some e \<Rightarrow> [e] | None \<Rightarrow> []))"

lemma sse_lines_final:
  "sse_lines True t =
     (let (ls, r) = sse_lines False t; (ls', r') = sse_lines True r in (ls @ ls', r'))"
proof (induction "False" t rule: sse_lines.induct)
  case (1 t)
  show ?case
  proof (cases "\<exists>p. find_terminator 0 t = Some p \<and> \<not> held_back False t p")
    case True
    then obtain p where p: "find_terminator 0 t = Some p" "\<not> held_back False t p" by blast
    have "\<not> held_back True t p" by (simp add: held_back_def)
    with 1 [OF p] show ?thesis
      by (simp add: sse_lines.simps [of False t] sse_lines.simps [of True t] p
          Let_def apfst_def map_prod_def split: prod.splits)
  next
    case False
    then have "sse_lines False t = ([], t)"
      by (auto simp: sse_lines.simps [of False t] split: option.splits)
    then show ?thesis by simp
  qed
qed

text \<open>Between two chunks the buffer holds less than one line, or one line and a carriage return.\<close>

lemma sse_lines_pending:
  assumes "sse_lines False r = ([], r)"
  shows "sse_lines True r = ([], r) \<or> (\<exists>l. sse_lines True r = ([l], []))"
proof (cases "find_terminator 0 r")
  case None
  then show ?thesis by (simp add: sse_lines.simps [of True r])
next
  case (Some p)
  have "held_back False r p"
    using assms Some by (auto simp: sse_lines.simps [of False r] apfst_def map_prod_def split: if_splits prod.splits)
  with Some show ?thesis
    by (simp add: sse_lines.simps [of True r] held_back_def terminator_len_def sse_lines.simps [of _ "[]"])
qed

lemma take_event_dispatched: "snd (push_line l s) = Some e \<Longrightarrow> snd (take_event (fst (push_line l s))) = None"
  by (auto simp: push_line_def take_event_def Let_def split: if_splits prod.splits)

lemma take_event_frame [simp]:
  "snd (take_event (s\<lparr>sp_buffer := b\<rparr>)) = snd (take_event s)"
  "snd (take_event (s\<lparr>sp_scanned := n\<rparr>)) = snd (take_event s)"
  "snd (take_event (s\<lparr>sp_bytes := c\<rparr>)) = snd (take_event s)"
  "snd (take_event (s\<lparr>sp_bom_checked := d\<rparr>)) = snd (take_event s)"
  by (simp_all add: take_event_def)

lemma sse_finish_eq:
  assumes "sse_inv s" and "sp_bytes s = []"
    and "sse_lines True (sp_buffer s) = (ls, r)"
  shows "(case snd (sse_finish s) of Some e \<Rightarrow> [e] | None \<Rightarrow> []) =
    (let (s', out) = push_lines (ls @ (if r = [] then [] else [r])) s
     in out @ (case snd (take_event s') of Some e \<Rightarrow> [e] | None \<Rightarrow> []))"
proof -
  have "scanned_ok s"
    using assms(1) by (simp add: sse_inv_def scanned_ok_def resting_at_scanned)
  then have drain: "drain_lines True s =
      (let s' = fst (push_lines ls s); out = snd (push_lines ls s) in
       if r \<noteq> []
       then (fst (push_line r (s'\<lparr>sp_scanned := 0, sp_buffer := []\<rparr>)),
             out @ (case snd (push_line r s') of Some e \<Rightarrow> [e] | None \<Rightarrow> []))
       else (s'\<lparr>sp_buffer := [], sp_scanned := resting_at []\<rparr>, out))"
    by (simp add: drain_lines_def drain_loop_eq assms(3) Let_def split_beta push_line_buffers)
  from sse_lines_pending [of "sp_buffer s"] assms(1,3)
  consider "ls = []" | l where "ls = [l]" "r = []" by (auto simp: sse_inv_def)
  then show ?thesis
  proof cases
    case 1
    then show ?thesis
      using take_event_dispatched [of r s]
      by (auto simp: sse_finish_def assms(2) drain Let_def split_beta push_line_buffers
          split: option.splits)
  next
    case 2
    then show ?thesis
      using take_event_dispatched [of l s]
      by (auto simp: sse_finish_def assms(2) drain Let_def split_beta push_line_buffers
          split: option.splits)
  qed
qed

lemma push_lines_new:
  "snd (push_lines ls (s\<lparr>sp_buffer := b, sp_bytes := c, sp_bom_checked := d\<rparr>)) = snd (push_lines ls s)"
  by (simp add: push_lines_buffers)

lemma complete_utf8_len_valid: "utf8_valid bs \<Longrightarrow> complete_utf8_len bs = length bs"
  by (simp add: complete_utf8_len_def utf8_valid_def utf8_valid_len_scan)

lemma sse_stream_concat:
  "sse_stream display (map Inr cs) =
     (let (s, out) = push_bytes sse_parser_new (concat cs)
      in map Inr (out @ (case snd (sse_finish s) of Some e \<Rightarrow> [e] | None \<Rightarrow> [])))"
  by (simp add: sse_stream_def sse_stream_loop_chunks sse_parsing.feed_all_concat [OF sse_inv_new]
      split_beta Let_def split: option.splits)

lemma sse_stream_events:
  assumes "utf8_valid (concat cs)"
  shows "sse_stream display (map Inr cs) = map Inr (sse_events (strip_bom (of_bytes (concat cs))))"
proof -
  let ?t = "strip_bom (of_bytes (concat cs))"
  let ?n = "sse_parser_new\<lparr>sp_buffer := ?t, sp_bom_checked := (concat cs \<noteq> [])\<rparr>"
  have "decode_ready (sse_parser_new\<lparr>sp_bytes := sp_bytes sse_parser_new @ concat cs\<rparr>) = ?n"
    using assms
    by (simp add: decode_ready_eq bom_ok_def decoded_def sse_parser_new_def complete_utf8_len_valid)
  then have push: "push_bytes sse_parser_new (concat cs) = process_text ?n"
    by (simp add: push_bytes_eq [OF sse_inv_new])
  obtain ls r where l1: "sse_lines False ?t = (ls, r)" by fastforce
  obtain ls' r' where l2: "sse_lines True r = (ls', r')" by fastforce
  define s1 where "s1 = fst (process_text ?n)"
  have s1: "s1 = (fst (push_lines ls ?n))\<lparr>sp_buffer := r, sp_scanned := resting_at r\<rparr>"
    by (simp add: s1_def process_text_def l1)
  have "sse_inv s1" using push_bytes_inv [OF sse_inv_new, of "concat cs"] by (simp add: push s1_def)
  moreover have "sp_bytes s1 = []" "sp_buffer s1 = r"
    by (simp_all add: s1 sse_parser_new_def)
  ultimately have "(case snd (sse_finish s1) of Some e \<Rightarrow> [e] | None \<Rightarrow> []) =
    (let (s', out) = push_lines (ls' @ (if r' = [] then [] else [r'])) s1
     in out @ (case snd (take_event s') of Some e \<Rightarrow> [e] | None \<Rightarrow> []))"
    using l2 by (intro sse_finish_eq) simp_all
  then have fin: "(case snd (sse_finish s1) of Some e \<Rightarrow> [e] | None \<Rightarrow> []) =
    (let (s', out) = push_lines (ls' @ (if r' = [] then [] else [r'])) (fst (push_lines ls sse_parser_new))
     in out @ (case snd (take_event s') of Some e \<Rightarrow> [e] | None \<Rightarrow> []))"
    by (simp add: s1 push_lines_buffers split_beta Let_def)
  have pt: "process_text ?n = (s1, snd (push_lines ls sse_parser_new))"
    by (simp add: s1_def process_text_def l1 push_lines_buffers split_beta prod_eq_iff)
  have "sse_lines True ?t = (ls @ ls', r')" using sse_lines_final [of ?t] l1 l2 by simp
  then show ?thesis
    unfolding sse_stream_concat push pt
    by (simp only: sse_events_def split_beta Let_def fin fst_conv snd_conv append_assoc push_lines_append [of ls])
qed

section \<open>Reading back rendered events\<close>

text \<open>
  An event as a server sends it, under any of the three line terminators. \<open>frame_event\<close> is what the
  parser should make of it; a \<^verbatim>\<open>retry\<close> field stays in force for the events that follow.
\<close>

record sse_frame =
  fr_event :: string
  fr_id :: "string option"
  fr_retry :: "nat option"
  fr_data :: "string list"

definition field_line :: "string \<Rightarrow> string \<Rightarrow> string" where
  "field_line name v = name @ '': '' @ v"

definition frame_lines :: "sse_frame \<Rightarrow> string list" where
  "frame_lines f =
     (if fr_event f = [] then [] else [field_line ''event'' (fr_event f)]) @
     (case fr_id f of Some i \<Rightarrow> [field_line ''id'' i] | None \<Rightarrow> []) @
     (case fr_retry f of Some n \<Rightarrow> [field_line ''retry'' (show_nat n)] | None \<Rightarrow> []) @
     map (field_line ''data'') (fr_data f)"

definition render_frames :: "string \<Rightarrow> sse_frame list \<Rightarrow> string" where
  "render_frames eol fs = concat (map (\<lambda>l. l @ eol) (concat (map (\<lambda>f. frame_lines f @ [[]]) fs)))"

definition frame_wf :: "sse_frame \<Rightarrow> bool" where
  "frame_wf f \<longleftrightarrow>
     (fr_event f \<noteq> [] \<or> fr_data f \<noteq> []) \<and>
     (case fr_retry f of Some n \<Rightarrow> n < 2 ^ 64 | None \<Rightarrow> True) \<and>
     (\<forall>v \<in> {fr_event f} \<union> set_option (fr_id f) \<union> set (fr_data f).
        utf8_text v \<and> list_all (\<lambda>c. \<not> terminator c) v)"

fun frame_events :: "nat option \<Rightarrow> sse_frame list \<Rightarrow> sse_event list" where
  "frame_events retry [] = []"
| "frame_events retry (f # fs) =
     (let retry = (if fr_retry f = None then retry else fr_retry f) in
      \<lparr>se_event = fr_event f, se_data = join_with [lf] (fr_data f), se_id = fr_id f,
       se_retry_ms = retry, se_raw = join_with [lf] (frame_lines f)\<rparr> # frame_events retry fs)"

lemma sse_lines_eol:
  assumes "\<forall>l\<in>set ls. list_all (\<lambda>c. \<not> terminator c) l" and "eol \<in> {[lf], [cr, lf], [cr]}"
  shows "sse_lines True (concat (map (\<lambda>l. l @ eol) ls)) = (ls, [])"
  using assms(1)
proof (induction ls)
  case (Cons l ls)
  let ?rest = "concat (map (\<lambda>l. l @ eol) ls)"
  have tw: "takeWhile (\<lambda>c. \<not> terminator c) (l @ eol @ ?rest) = l"
  proof -
    have "takeWhile (\<lambda>c. \<not> terminator c) (l @ eol @ ?rest) =
        l @ takeWhile (\<lambda>c. \<not> terminator c) (eol @ ?rest)"
      using Cons.prems by (intro takeWhile_append2) (simp add: list_all_iff)
    moreover have "takeWhile (\<lambda>c. \<not> terminator c) (eol @ ?rest) = []"
      using assms(2) by (elim insertE) (simp_all add: terminator_def)
    ultimately show ?thesis by (simp only: append_Nil2)
  qed
  have find: "find_terminator 0 (l @ eol @ ?rest) = Some (length l)"
    using assms(2) unfolding find_terminator_def Let_def drop_0 tw by auto
  have "hd ?rest \<noteq> lf" if "?rest \<noteq> []" "eol = [cr]"
    using that Cons.prems by (cases ls; cases "hd ls") (auto simp: terminator_def)
  then have len: "terminator_len (l @ eol @ ?rest) (length l) = length eol"
    using assms(2) by (cases ?rest) (auto simp: terminator_len_def nth_append simp del: concat_eq_Nil_conv)
  show ?case
    using Cons
    by (subst sse_lines.simps) (simp add: find len held_back_def)
qed (simp add: sse_lines.simps)

lemma push_line_fields [simp]:
  "push_line (field_line ''event'' v) s = (s\<lparr>sp_raw := sp_raw s @ [field_line ''event'' v], sp_event := v\<rparr>, None)"
  "push_line (field_line ''id'' v) s = (s\<lparr>sp_raw := sp_raw s @ [field_line ''id'' v], sp_id := Some v\<rparr>, None)"
  "push_line (field_line ''retry'' v) s =
     (s\<lparr>sp_raw := sp_raw s @ [field_line ''retry'' v], sp_retry_ms := parse_u64 v\<rparr>, None)"
  "push_line (field_line ''data'' v) s =
     (s\<lparr>sp_raw := sp_raw s @ [field_line ''data'' v], sp_data := sp_data s @ [v]\<rparr>, None)"
  by (simp_all add: push_line_def split_once_def strip_space_def field_line_def)

lemma parse_u64_show_nat: "n < 2 ^ 64 \<Longrightarrow> parse_u64 (show_nat n) = Some n"
proof -
  assume n: "n < 2 ^ 64"
  have digits: "list_all is_ascii_digit (show_nat n)" by (simp add: list_all_iff show_nat_digits)
  obtain c r where c: "show_nat n = c # r" using show_nat_not_Nil [of n] by (cases "show_nat n") auto
  with digits have "c \<noteq> CHR ''+''" by (auto simp: is_ascii_digit_def)
  with n digits c show ?thesis using parse_digits_show_nat [of n] by (simp add: parse_u64_def)
qed

lemma push_lines_data:
  "push_lines (map (field_line ''data'') ds) s =
     (s\<lparr>sp_raw := sp_raw s @ map (field_line ''data'') ds, sp_data := sp_data s @ ds\<rparr>, [])"
  by (induction ds arbitrary: s) (simp_all add: Let_def)

definition idle :: "nat option \<Rightarrow> sse_parser" where
  "idle retry = sse_parser_new\<lparr>sp_retry_ms := retry\<rparr>"

lemma push_lines_frame_lines:
  assumes "frame_wf f"
  shows "push_lines (frame_lines f @ [[]]) (idle retry) =
    (idle (if fr_retry f = None then retry else fr_retry f), frame_events retry [f])"
proof -
  have retry: "(case fr_retry f of Some n \<Rightarrow> parse_u64 (show_nat n) = Some n | None \<Rightarrow> True)"
    using assms by (auto simp: frame_wf_def parse_u64_show_nat split: option.splits)
  have blank: "push_line [] s = take_event s" for s by (simp add: push_line_def)
  have "fr_event f \<noteq> [] \<or> fr_data f \<noteq> []" using assms by (simp add: frame_wf_def)
  with retry show ?thesis
    by (cases "fr_id f"; cases "fr_retry f")
      (auto simp: frame_lines_def push_lines_append push_lines_data Let_def blank take_event_def
        idle_def sse_parser_new_def)
qed

lemma push_lines_frames:
  "list_all frame_wf fs \<Longrightarrow>
     \<exists>retry'. push_lines (concat (map (\<lambda>f. frame_lines f @ [[]]) fs)) (idle retry) =
       (idle retry', frame_events retry fs)"
proof (induction fs arbitrary: retry)
  case (Cons f fs)
  then obtain retry' where
    "push_lines (concat (map (\<lambda>f. frame_lines f @ [[]]) fs))
        (idle (if fr_retry f = None then retry else fr_retry f)) =
      (idle retry', frame_events (if fr_retry f = None then retry else fr_retry f) fs)"
    by fastforce
  then show ?case
    using Cons.prems push_lines_frame_lines [of f retry]
    unfolding list.map concat.simps push_lines_append [of "frame_lines f @ [[]]"] by (auto simp: Let_def)
qed auto

lemma utf8_digits: "list_all is_ascii_digit v \<Longrightarrow> utf8_text v"
  by (rule utf8_text_ascii) (auto simp: list_all_iff is_ascii_digit_def)

lemma field_line_ok:
  assumes "utf8_text v" and "list_all (\<lambda>c. \<not> terminator c) v"
    and "name \<in> {''event'', ''id'', ''retry'', ''data''}"
  shows "utf8_text (field_line name v)" and "list_all (\<lambda>c. \<not> terminator c) (field_line name v)"
    and "field_line name v \<noteq> []" and "hd (field_line name v) \<noteq> CHR 0xEF"
proof -
  have "utf8_text name" and "utf8_text '': ''"
    using assms(3) by (auto intro!: utf8_text_ascii)
  then show "utf8_text (field_line name v)"
    using assms(1) unfolding field_line_def by (simp only: utf8_text_append)
  show "list_all (\<lambda>c. \<not> terminator c) (field_line name v)"
    using assms(2,3) by (auto simp: field_line_def terminator_def)
  show "field_line name v \<noteq> []" and "hd (field_line name v) \<noteq> CHR 0xEF"
    using assms(3) by (auto simp: field_line_def)
qed

lemma frame_lines_ok:
  assumes "frame_wf f" and "l \<in> set (frame_lines f)"
  shows "utf8_text l \<and> list_all (\<lambda>c. \<not> terminator c) l \<and> l \<noteq> [] \<and> hd l \<noteq> CHR 0xEF"
proof -
  have digits: "list_all is_ascii_digit (show_nat n)" for n by (simp add: list_all_iff show_nat_digits)
  then have "list_all (\<lambda>c. \<not> terminator c) (show_nat n)" for n
    using show_nat_digits [of lf n] show_nat_digits [of cr n]
    by (auto simp: list_all_iff is_ascii_digit_def terminator_def)
  note number = digits [THEN utf8_digits] this
  have wf: "\<forall>v \<in> {fr_event f} \<union> set_option (fr_id f) \<union> set (fr_data f).
      utf8_text v \<and> list_all (\<lambda>c. \<not> terminator c) v"
    using assms(1) by (simp add: frame_wf_def)
  from assms(2) consider "l = field_line ''event'' (fr_event f)"
    | i where "i \<in> set_option (fr_id f)" "l = field_line ''id'' i"
    | n where "l = field_line ''retry'' (show_nat n)"
    | d where "d \<in> set (fr_data f)" "l = field_line ''data'' d"
    by (cases "fr_id f"; cases "fr_retry f") (auto simp: frame_lines_def split: if_splits)
  then show ?thesis using wf number by cases (simp_all add: field_line_ok)
qed

lemma render_frames_ok:
  assumes "list_all frame_wf fs" and "eol \<in> {[lf], [cr, lf], [cr]}"
  shows "utf8_text (render_frames eol fs)" and "strip_bom (render_frames eol fs) = render_frames eol fs"
    and "sse_lines True (render_frames eol fs) = (concat (map (\<lambda>f. frame_lines f @ [[]]) fs), [])"
proof -
  let ?ls = "concat (map (\<lambda>f. frame_lines f @ [[]]) fs)"
  have eol: "utf8_text eol" using assms(2) by (auto intro!: utf8_text_ascii)
  have lines: "\<forall>l\<in>set ?ls. utf8_text l \<and> list_all (\<lambda>c. \<not> terminator c) l"
  proof
    fix l assume "l \<in> set ?ls"
    then have "l = [] \<or> (\<exists>f\<in>set fs. l \<in> set (frame_lines f))" by (auto split: if_splits)
    with assms(1) show "utf8_text l \<and> list_all (\<lambda>c. \<not> terminator c) l"
      using frame_lines_ok by (auto simp: list_all_iff [of frame_wf])
  qed
  have "\<forall>l\<in>set ls. utf8_text l \<Longrightarrow> utf8_text (concat (map (\<lambda>l. l @ eol) ls))" for ls
    using eol by (induction ls) auto
  with lines show "utf8_text (render_frames eol fs)" by (simp add: render_frames_def)
  show "sse_lines True (render_frames eol fs) = (?ls, [])"
    using sse_lines_eol [of ?ls eol] lines assms(2) by (simp add: render_frames_def)
  show "strip_bom (render_frames eol fs) = render_frames eol fs"
  proof (cases fs)
    case (Cons f gs)
    then have f: "frame_wf f" using assms(1) by simp
    then have "frame_lines f \<noteq> []"
      by (auto simp: frame_wf_def frame_lines_def)
    then obtain l ls where l: "frame_lines f = l # ls" by (cases "frame_lines f") auto
    with frame_lines_ok [OF f, of l] obtain c r where "l = c # r" "c \<noteq> CHR 0xEF"
      by (cases l) auto
    with l Cons show ?thesis by (simp add: render_frames_def strip_bom_def)
  qed (simp add: render_frames_def)
qed

section \<open>Invalid bytes\<close>

text \<open>A byte that no UTF-8 sequence contains stays at the head of the undecoded bytes for good.\<close>

lemma complete_utf8_len_invalid: "complete_utf8_len (255 # w) = 0"
  by (simp add: complete_utf8_len_def utf8_chunk.simps)

lemma push_bytes_invalid:
  assumes "sse_inv s" and "sp_bytes s = []"
  shows "push_bytes s (255 # w) = (s\<lparr>sp_bytes := 255 # w\<rparr>, [])"
  using assms
  by (simp add: push_bytes_eq process_text_def decode_ready_eq decoded_def sse_inv_def
      complete_utf8_len_invalid of_bytes_def)

lemma push_bytes_valid_bytes: "utf8_valid v \<Longrightarrow> sp_bytes (fst (push_bytes sse_parser_new v)) = []"
  unfolding push_bytes_eq [OF sse_inv_new]
  by (simp add: process_text_def decode_ready_eq bom_ok_def sse_parser_new_def
      complete_utf8_len_valid split_beta)

lemma sse_finish_stalled: "length (case snd (sse_finish s) of Some e \<Rightarrow> [e] | None \<Rightarrow> []) \<le> 1"
  by (simp split: option.splits)

section \<open>Properties\<close>

text \<open>
  C36. Chunk boundaries are invisible. Whatever bytes a transport delivers, valid UTF-8 or not, and
  however it cuts them, inside a line, between the two characters of a CRLF or inside a character,
  the adapter yields the items it would yield for the same bytes in one chunk, before the same
  continuation of the stream: more chunks, a transport error or the end.
\<close>

theorem sse_chunking_independent:
  "sse_stream display (map Inr cs @ tail) = sse_stream display (Inr (concat cs) # tail)"
proof -
  have "sse_stream_loop display s (map Inr cs @ tail) =
      map Inr (snd (feed_all push_bytes s cs)) @
      sse_stream_loop display (fst (feed_all push_bytes s cs)) tail" for s
    by (induction cs arbitrary: s) (simp_all add: split_beta Let_def)
  then show ?thesis
    by (simp add: sse_stream_def sse_parsing.feed_all_concat [OF sse_inv_new] split_beta)
qed

text \<open>
  C37. The incremental parser, with its byte and text buffers, its scan offset and its held-back
  carriage return, computes the events of the decoded text read in one piece: a byte-order mark is
  dropped once, lines end at LF, CRLF or CR, and an event or a line that the end of the stream
  cuts off is delivered too. In particular \<^verbatim>\<open>finish\<close> drops nothing on valid UTF-8.
\<close>

theorem sse_stream_reference:
  assumes "utf8_valid (concat cs)"
  shows "sse_stream display (map Inr cs) = map Inr (sse_events (strip_bom (of_bytes (concat cs))))"
  using assms by (rule sse_stream_events)

theorem sse_stream_reference_witness:
  "sse_stream (\<lambda>_::unit. []) (map Inr [as_bytes (''data: a'' @ [cr]), as_bytes ([lf] @ ''data: b'')]) =
     [Inr \<lparr>se_event = [], se_data = ''a'' @ [lf] @ ''b'', se_id = None, se_retry_ms = None,
           se_raw = ''data: a'' @ [lf] @ ''data: b''\<rparr>]"
proof -
  let ?cs = "[as_bytes (''data: a'' @ [cr]), as_bytes ([lf] @ ''data: b'')]"
  have b: "concat ?cs = as_bytes (''data: a'' @ [cr, lf] @ ''data: b'')" by (simp add: as_bytes_def)
  have v: "utf8_valid (concat ?cs)"
    unfolding b by (rule utf8_text_ascii [unfolded utf8_text_def]) simp
  have "sse_lines True (''data: a'' @ [cr, lf] @ ''data: b'') = ([''data: a''], ''data: b'')"
    by (simp add: sse_lines.simps find_terminator_def terminator_def terminator_len_def held_back_def)
  then have "sse_events (''data: a'' @ [cr, lf] @ ''data: b'') =
      [\<lparr>se_event = [], se_data = ''a'' @ [lf] @ ''b'', se_id = None, se_retry_ms = None,
        se_raw = ''data: a'' @ [lf] @ ''data: b''\<rparr>]"
    by (simp add: sse_events_def push_line_def split_once_def strip_space_def take_event_def
        sse_parser_new_def Let_def)
  then show ?thesis
    unfolding sse_stream_reference [OF v] b of_bytes_as_bytes by (simp add: strip_bom_def)
qed

text \<open>
  C38. Round trip: events rendered with \<^verbatim>\<open>event:\<close>, \<^verbatim>\<open>id:\<close>, \<^verbatim>\<open>retry:\<close> and any number of \<^verbatim>\<open>data:\<close>
  lines, under any of the three line terminators and cut into chunks anywhere, are read back: the
  same events in the same order, multi-line data joined by newlines, the raw lines verbatim, the
  retry interval in force, and nothing of one event carried into the next.
\<close>

theorem sse_frames_roundtrip:
  assumes "list_all frame_wf fs" and "eol \<in> {[lf], [cr, lf], [cr]}"
    and "concat cs = as_bytes (render_frames eol fs)"
  shows "sse_stream display (map Inr cs) = map Inr (frame_events None fs)"
proof -
  note ok = render_frames_ok [OF assms(1,2)]
  have "utf8_valid (concat cs)" using ok(1) assms(3) by (simp add: utf8_text_def)
  moreover obtain r where "push_lines (concat (map (\<lambda>f. frame_lines f @ [[]]) fs)) sse_parser_new =
      (idle r, frame_events None fs)"
    using push_lines_frames [OF assms(1), of None] by (auto simp: idle_def sse_parser_new_def)
  then have "sse_events (render_frames eol fs) = frame_events None fs"
    by (simp add: sse_events_def ok take_event_def idle_def sse_parser_new_def)
  ultimately show ?thesis by (simp add: sse_stream_events assms(3) ok)
qed

definition demo_frames :: "sse_frame list" where
  "demo_frames =
     [\<lparr>fr_event = ''start'', fr_id = Some ''7'', fr_retry = None, fr_data = [''a'', '' b'']\<rparr>,
      \<lparr>fr_event = [], fr_id = None, fr_retry = None, fr_data = [[]]\<rparr>]"

theorem sse_frames_roundtrip_witness:
  "sse_stream (\<lambda>_::unit. []) (map Inr (map (\<lambda>b. [b]) (as_bytes (render_frames [cr] demo_frames)))) =
     map Inr (frame_events None demo_frames) \<and>
   map se_data (frame_events None demo_frames) = [''a'' @ [lf] @ '' b'', []]"
proof
  have "list_all frame_wf demo_frames"
    by (simp add: demo_frames_def frame_wf_def terminator_def utf8_text_ascii)
  then show "sse_stream (\<lambda>_::unit. []) (map Inr (map (\<lambda>b. [b]) (as_bytes (render_frames [cr] demo_frames)))) =
      map Inr (frame_events None demo_frames)"
    by (rule sse_frames_roundtrip [of _ "[cr]"]) (simp_all add: concat_map_singleton)
  show "map se_data (frame_events None demo_frames) = [''a'' @ [lf] @ '' b'', []]"
    by (simp add: demo_frames_def)
qed

text \<open>
  One byte that is not UTF-8 silences the stream: from then on no chunk yields an event,
  whatever follows, and the end of the stream yields at most one, although the comment on
  \<^verbatim>\<open>finish\<close> says that at most one event can be pending there. Events the later bytes complete are
  lost, which the witness shows on three of them.
\<close>

theorem sse_invalid_byte_stalls:
  assumes "utf8_valid v" and "concat cs = v @ 255 # w"
  shows "snd (feed_all push_bytes sse_parser_new cs) = snd (push_bytes sse_parser_new v) \<and>
    (\<exists>out. length out \<le> 1 \<and>
      sse_stream display (map Inr cs) = map Inr (snd (push_bytes sse_parser_new v)) @ map Inr out)"
proof -
  define s1 where "s1 = fst (push_bytes sse_parser_new v)"
  have "sse_inv s1" and "sp_bytes s1 = []"
    using push_bytes_inv [OF sse_inv_new] push_bytes_valid_bytes [OF assms(1)] by (simp_all add: s1_def)
  note stall = push_bytes_invalid [OF this, of w]
  have "push_bytes sse_parser_new (concat cs) =
      (s1\<lparr>sp_bytes := 255 # w\<rparr>, snd (push_bytes sse_parser_new v))"
    using push_bytes_append [OF sse_inv_new, of v "255 # w"] stall
    by (simp add: assms(2) split_beta s1_def)
  then show ?thesis
    using sse_finish_stalled [of "s1\<lparr>sp_bytes := 255 # w\<rparr>"]
    by (auto simp: sse_parsing.feed_all_concat [OF sse_inv_new] sse_stream_concat)
qed

definition demo_event :: "byte list" where
  "demo_event = as_bytes (''data: x'' @ [lf, lf])"

theorem sse_invalid_byte_stalls_witness:
  "length (sse_events (concat (replicate 3 (of_bytes demo_event)))) = 3 \<and>
   (\<exists>out. length out \<le> 1 \<and>
      sse_stream (\<lambda>_::unit. []) (map Inr [[255], demo_event, demo_event, demo_event]) = map Inr out)"
proof -
  have "snd (push_bytes sse_parser_new []) = []" by (simp add: push_bytes_Nil [OF sse_inv_new])
  moreover have "sse_lines True (concat (replicate 3 (of_bytes demo_event))) =
      ([''data: x'', [], ''data: x'', [], ''data: x'', []], [])"
    using sse_lines_eol [of "[''data: x'', [], ''data: x'', [], ''data: x'', []]" "[lf]"]
    by (simp add: demo_event_def terminator_def numeral_3_eq_3)
  then have "length (sse_events (concat (replicate 3 (of_bytes demo_event)))) = 3"
    by (simp add: sse_events_def push_line_def split_once_def strip_space_def take_event_def
        sse_parser_new_def Let_def)
  ultimately show ?thesis
    using sse_invalid_byte_stalls [of "[]" "[[255], demo_event, demo_event, demo_event]"
        "demo_event @ demo_event @ demo_event"] by auto
qed

end
