(* ===== verification/Agent_Types.thy ===== *)
theory Agent_Types
  imports Session_Types
begin

text \<open>
  The data of the agent loop: the streaming protocol of providers (\<^verbatim>\<open>pi-core/src/event.rs\<close>), tools
  and their results (\<^verbatim>\<open>pi-tools/src/tool.rs\<close>), the loop's contexts, hooks, configuration and events
  (\<^verbatim>\<open>pi-agent/src/types.rs\<close>, \<^verbatim>\<open>error.rs\<close>).

  Tools, hooks, listeners and providers are objects behind trait pointers; here they are functions
  that transform a world of type \<open>'w\<close>, which holds every state outside the loop: files, queues, the
  abort flag, the clock. An abort signal is a predicate of the world, a shared reference such as
  \<^verbatim>\<open>ExecutionEnvRef\<close> an address. The model descriptions (\<open>'m\<close>) and the request options the loop
  passes on without looking at them (\<open>'r\<close>) are left open.
\<close>

section \<open>The streaming protocol\<close>

datatype done_reason = DRStop | DRLength | DRToolUse | DRDeferred

fun stop_reason_of_done :: "done_reason \<Rightarrow> stop_reason" where
  "stop_reason_of_done DRStop = SRStop"
| "stop_reason_of_done DRLength = SRLength"
| "stop_reason_of_done DRToolUse = SRToolUse"
| "stop_reason_of_done DRDeferred = SRDeferred"

datatype error_reason = ERAborted | ERError

fun stop_reason_of_error :: "error_reason \<Rightarrow> stop_reason" where
  "stop_reason_of_error ERAborted = SRAborted"
| "stop_reason_of_error ERError = SRError"

datatype assistant_message_event =
    AMStart assistant_message
  | AMTextStart nat assistant_message
  | AMTextDelta nat string assistant_message
  | AMTextEnd nat string assistant_message
  | AMThinkingStart nat assistant_message
  | AMThinkingDelta nat string assistant_message
  | AMThinkingEnd nat string assistant_message
  | AMToolCallStart nat assistant_message
  | AMToolCallDelta nat string assistant_message
  | AMToolCallEnd nat tool_call assistant_message
  | AMDone done_reason assistant_message
  | AMError error_reason assistant_message

fun terminal_message :: "assistant_message_event \<Rightarrow> assistant_message option" where
  "terminal_message (AMDone _ m) = Some m"
| "terminal_message (AMError _ m) = Some m"
| "terminal_message _ = None"

definition event_is_terminal :: "assistant_message_event \<Rightarrow> bool" where
  "event_is_terminal e \<longleftrightarrow> terminal_message e \<noteq> None"

fun partial :: "assistant_message_event \<Rightarrow> assistant_message option" where
  "partial (AMStart p) = Some p"
| "partial (AMTextStart _ p) = Some p"
| "partial (AMTextDelta _ _ p) = Some p"
| "partial (AMTextEnd _ _ p) = Some p"
| "partial (AMThinkingStart _ p) = Some p"
| "partial (AMThinkingDelta _ _ p) = Some p"
| "partial (AMThinkingEnd _ _ p) = Some p"
| "partial (AMToolCallStart _ p) = Some p"
| "partial (AMToolCallDelta _ _ p) = Some p"
| "partial (AMToolCallEnd _ _ p) = Some p"
| "partial _ = None"

section \<open>Tools\<close>

datatype tool_execution_mode = Sequential | Parallel

record tool_result =
  res_content :: "input_content list"
  res_details :: "json option"
  res_usage :: "usage option"
  res_added_tool_names :: "string list option"
  res_terminate :: "bool option"

definition tool_result_default :: tool_result where
  "tool_result_default =
     \<lparr>res_content = [], res_details = None, res_usage = None, res_added_tool_names = None,
      res_terminate = None\<rparr>"

text \<open>\<^verbatim>\<open>pi_core::Tool\<close>; the declarations of agent tools never constrain sampling.\<close>

record tool_declaration =
  td_name :: string
  td_description :: string
  td_parameters :: json

type_synonym 'w abort_signal = "'w \<Rightarrow> bool"

record tool_context =
  tcx_env :: nat
  tcx_tool_call_id :: string

text \<open>
  \<open>tool_execute\<close> also returns the partial results that the tool passed to its update callback
  before it settled, in order; a failure is its message.
\<close>

record 'w agent_tool =
  tool_name :: string
  tool_description :: string
  tool_parameters :: json
  tool_execution_mode :: "tool_execution_mode option"
  tool_prepare_arguments :: "json \<Rightarrow> json"
  tool_execute :: "json \<Rightarrow> tool_context \<Rightarrow> 'w abort_signal option \<Rightarrow> 'w \<Rightarrow>
    'w \<times> tool_result list \<times> (string + tool_result)"

definition declaration_of :: "'w agent_tool \<Rightarrow> tool_declaration" where
  "declaration_of t =
     \<lparr>td_name = tool_name t, td_description = tool_description t, td_parameters = tool_parameters t\<rparr>"

section \<open>Errors\<close>

datatype agent_error =
    AETool string
  | AEValidation string
  | AEToolNotFound string
  | AEInvalidState string
  | AEAborted
  | AENoStreamFn
  | AEStream string string

fun agent_error_code :: "agent_error \<Rightarrow> string" where
  "agent_error_code (AETool _) = ''tool''"
| "agent_error_code (AEValidation _) = ''validation''"
| "agent_error_code (AEToolNotFound _) = ''tool_not_found''"
| "agent_error_code (AEInvalidState _) = ''invalid_state''"
| "agent_error_code AEAborted = ''aborted''"
| "agent_error_code AENoStreamFn = ''no_stream_fn''"
| "agent_error_code (AEStream _ _) = ''stream''"

fun agent_error_message :: "agent_error \<Rightarrow> string" where
  "agent_error_message (AETool m) = m"
| "agent_error_message (AEValidation m) = m"
| "agent_error_message (AEToolNotFound name) = ''Tool '' @ name @ '' not found''"
| "agent_error_message (AEInvalidState m) = m"
| "agent_error_message AEAborted = ''Operation aborted''"
| "agent_error_message AENoStreamFn =
     ''No default stream function configured. Pass streamFn explicitly or call set_default_stream_fn().''"
| "agent_error_message (AEStream _ m) = m"

section \<open>The loop's types\<close>

record 'w agent_context =
  ac_system_prompt :: string
  ac_messages :: "agent_message list"
  ac_tools :: "'w agent_tool list"
  ac_env :: nat

definition find_tool :: "'w agent_context \<Rightarrow> string \<Rightarrow> 'w agent_tool option" where
  "find_tool ctx name = find (\<lambda>t. tool_name t = name) (ac_tools ctx)"

datatype agent_event =
    AgentStart
  | AgentEnd "agent_message list"
  | TurnStart
  | TurnEnd agent_message "tool_result_message list"
  | MessageStart agent_message
  | MessageUpdate agent_message assistant_message_event
  | MessageEnd agent_message
  | ToolExecutionStart string string json
  | ToolExecutionUpdate string string json tool_result
  | ToolExecutionEnd string string tool_result bool

fun agent_event_kind :: "agent_event \<Rightarrow> string" where
  "agent_event_kind AgentStart = ''agent_start''"
| "agent_event_kind (AgentEnd _) = ''agent_end''"
| "agent_event_kind TurnStart = ''turn_start''"
| "agent_event_kind (TurnEnd _ _) = ''turn_end''"
| "agent_event_kind (MessageStart _) = ''message_start''"
| "agent_event_kind (MessageUpdate _ _) = ''message_update''"
| "agent_event_kind (MessageEnd _) = ''message_end''"
| "agent_event_kind (ToolExecutionStart _ _ _) = ''tool_execution_start''"
| "agent_event_kind (ToolExecutionUpdate _ _ _ _) = ''tool_execution_update''"
| "agent_event_kind (ToolExecutionEnd _ _ _ _) = ''tool_execution_end''"

record before_tool_call_result =
  btr_block :: "bool option"
  btr_reason :: "string option"
  btr_terminate :: "bool option"
  btr_args :: "json option"

record after_tool_call_result =
  atr_content :: "input_content list option"
  atr_details :: "json option"
  atr_is_error :: "bool option"
  atr_usage :: "usage option"
  atr_terminate :: "bool option"

record 'w before_tool_call_context =
  btc_assistant_message :: assistant_message
  btc_tool_call :: tool_call
  btc_args :: json
  btc_context :: "'w agent_context"

record 'w after_tool_call_context =
  atc_assistant_message :: assistant_message
  atc_tool_call :: tool_call
  atc_args :: json
  atc_result :: tool_result
  atc_is_error :: bool
  atc_context :: "'w agent_context"

record 'w turn_context =
  tcn_message :: agent_message
  tcn_tool_results :: "tool_result_message list"
  tcn_context :: "'w agent_context"
  tcn_new_messages :: "agent_message list"

datatype thinking_level = TLMinimal | TLLow | TLMedium | TLHigh | TLXhigh | TLMax

datatype model_thinking_level =
  MTLOff | MTLMinimal | MTLLow | MTLMedium | MTLHigh | MTLXhigh | MTLMax

fun thinking_level_of :: "model_thinking_level \<Rightarrow> thinking_level option" where
  "thinking_level_of MTLOff = None"
| "thinking_level_of MTLMinimal = Some TLMinimal"
| "thinking_level_of MTLLow = Some TLLow"
| "thinking_level_of MTLMedium = Some TLMedium"
| "thinking_level_of MTLHigh = Some TLHigh"
| "thinking_level_of MTLXhigh = Some TLXhigh"
| "thinking_level_of MTLMax = Some TLMax"

record ('w, 'm) agent_loop_turn_update =
  tu_context :: "'w agent_context option"
  tu_model :: "'m option"
  tu_thinking_level :: "model_thinking_level option"

text \<open>\<^verbatim>\<open>SimpleStreamOptions\<close>: the fields the loop sets, and the rest.\<close>

record ('w, 'r) simple_stream_options =
  so_reasoning :: "thinking_level option"
  so_api_key :: "string option"
  so_signal :: "'w abort_signal option"
  so_rest :: 'r

record llm_context =
  lc_system_prompt :: "string option"
  lc_messages :: "message list"
  lc_tools :: "tool_declaration list option"

record ('w, 'm, 'r) agent_loop_config =
  cf_model :: 'm
  cf_stream_options :: "('w, 'r) simple_stream_options"
  cf_tool_execution :: tool_execution_mode
  cf_convert_to_llm :: "agent_message list \<Rightarrow> 'w \<Rightarrow> 'w \<times> message list"
  cf_transform_context ::
    "(agent_message list \<Rightarrow> 'w abort_signal option \<Rightarrow> 'w \<Rightarrow> 'w \<times> agent_message list) option"
  cf_get_api_key :: "(string \<Rightarrow> 'w \<Rightarrow> 'w \<times> string option) option"
  cf_before_tool_call ::
    "('w before_tool_call_context \<Rightarrow> 'w abort_signal option \<Rightarrow> 'w \<Rightarrow>
      'w \<times> before_tool_call_result option) option"
  cf_after_tool_call ::
    "('w after_tool_call_context \<Rightarrow> 'w abort_signal option \<Rightarrow> 'w \<Rightarrow>
      'w \<times> (agent_error + after_tool_call_result option)) option"
  cf_should_stop_after_turn :: "('w turn_context \<Rightarrow> 'w \<Rightarrow> 'w \<times> bool) option"
  cf_prepare_next_turn ::
    "('w turn_context \<Rightarrow> 'w \<Rightarrow> 'w \<times> ('w, 'm) agent_loop_turn_update option) option"
  cf_get_steering_messages :: "('w \<Rightarrow> 'w \<times> agent_message list) option"
  cf_get_follow_up_messages :: "('w \<Rightarrow> 'w \<times> agent_message list) option"

text \<open>\<^verbatim>\<open>DefaultMessageConverter\<close>, and the configuration with no hooks.\<close>

definition default_convert :: "agent_message list \<Rightarrow> 'w \<Rightarrow> 'w \<times> message list" where
  "default_convert messages w = (w, List.map_filter as_llm_message messages)"

definition agent_loop_config_new ::
  "'m \<Rightarrow> ('w, 'r) simple_stream_options \<Rightarrow> ('w, 'm, 'r) agent_loop_config" where
  "agent_loop_config_new model options =
     \<lparr>cf_model = model, cf_stream_options = options, cf_tool_execution = Parallel,
      cf_convert_to_llm = default_convert, cf_transform_context = None, cf_get_api_key = None,
      cf_before_tool_call = None, cf_after_tool_call = None, cf_should_stop_after_turn = None,
      cf_prepare_next_turn = None, cf_get_steering_messages = None,
      cf_get_follow_up_messages = None\<rparr>"

definition set_thinking_level ::
  "model_thinking_level \<Rightarrow> ('w, 'm, 'r) agent_loop_config \<Rightarrow> ('w, 'm, 'r) agent_loop_config" where
  "set_thinking_level level config =
     config\<lparr>cf_stream_options := (cf_stream_options config)\<lparr>so_reasoning := thinking_level_of level\<rparr>\<rparr>"

end
