(* ===== verification/Agent_Loop.thy ===== *)
theory Agent_Loop
  imports Agent_Types
begin

text \<open>
  The agent loop, \<^verbatim>\<open>pi-rs/crates/pi-agent/src/agent_loop.rs\<close>: streaming an assistant response,
  running its tool calls one after the other or concurrently, and the loop over turns. A run is the
  world together with the events emitted so far; every operation threads it.

  \<^item> A provider stream is the list of the events it delivers.
  \<^item> The tasks of a parallel batch are small state machines that suspend where the code awaits;
    \<open>le_pick\<close> chooses the task that runs next, so a statement about every \<open>le_pick\<close> is one about
    every interleaving. A tool runs as one step.
  \<^item> The loop over turns takes a number of iterations; \<open>None\<close> means that it has not returned yet.
\<close>

section \<open>The surroundings of a run\<close>

text \<open>
  The event sink, the clock, the provider of a model, the stream function (its failure is the code
  and the message of the \<^verbatim>\<open>AiError\<close>), \<^verbatim>\<open>validate_tool_arguments\<close>, the scheduler and the signal.
\<close>

record ('w, 'm, 'r) loop_env =
  le_sink :: "agent_event \<Rightarrow> 'w \<Rightarrow> 'w"
  le_now_ms :: "'w \<Rightarrow> int"
  le_provider :: "'m \<Rightarrow> string"
  le_stream :: "'m \<Rightarrow> llm_context \<Rightarrow> ('w, 'r) simple_stream_options \<Rightarrow> 'w \<Rightarrow>
    'w \<times> ((string \<times> string) + assistant_message_event list)"
  le_validate :: "tool_declaration \<Rightarrow> tool_call \<Rightarrow> string + json_map"
  le_pick :: "'w \<Rightarrow> nat \<Rightarrow> nat"
  le_signal :: "'w abort_signal option"

record 'w run =
  rn_world :: 'w
  rn_events :: "agent_event list"

definition emit :: "('w, 'm, 'r) loop_env \<Rightarrow> agent_event \<Rightarrow> 'w run \<Rightarrow> 'w run" where
  "emit env ev s =
     \<lparr>rn_world = le_sink env ev (rn_world s), rn_events = rn_events s @ [ev]\<rparr>"

definition call_world :: "('w \<Rightarrow> 'w \<times> 'a) \<Rightarrow> 'w run \<Rightarrow> 'w run \<times> 'a" where
  "call_world f s = (case f (rn_world s) of (w, x) \<Rightarrow> (s\<lparr>rn_world := w\<rparr>, x))"

definition aborted :: "'w abort_signal option \<Rightarrow> 'w run \<Rightarrow> bool" where
  "aborted signal s = (case signal of Some f \<Rightarrow> f (rn_world s) | None \<Rightarrow> False)"

definition poll_source ::
  "('w \<Rightarrow> 'w \<times> agent_message list) option \<Rightarrow> 'w run \<Rightarrow> 'w run \<times> agent_message list" where
  "poll_source source s = (case source of Some f \<Rightarrow> call_world f s | None \<Rightarrow> (s, []))"

section \<open>Streaming a response\<close>

definition set_last :: "'a \<Rightarrow> 'a list \<Rightarrow> 'a list" where
  "set_last x xs = (if xs = [] then [] else butlast xs @ [x])"

definition finish_assistant_message ::
  "('w, 'm, 'r) loop_env \<Rightarrow> 'w agent_context \<Rightarrow> assistant_message \<Rightarrow> bool \<Rightarrow> 'w run \<Rightarrow>
   'w agent_context \<times> 'w run" where
  "finish_assistant_message env ctx final_message added_partial s =
     (let (ctx, s) =
        (if added_partial
         then (ctx\<lparr>ac_messages := set_last (AAssistant final_message) (ac_messages ctx)\<rparr>, s)
         else (ctx\<lparr>ac_messages := ac_messages ctx @ [AAssistant final_message]\<rparr>,
               emit env (MessageStart (AAssistant final_message)) s))
      in (ctx, emit env (MessageEnd (AAssistant final_message)) s))"

text \<open>The loop over the events of the stream.\<close>

fun stream_events ::
  "('w, 'm, 'r) loop_env \<Rightarrow> 'w agent_context \<Rightarrow> bool \<Rightarrow> assistant_message_event list \<Rightarrow> 'w run \<Rightarrow>
   'w agent_context \<times> 'w run \<times> (agent_error + assistant_message)" where
  "stream_events env ctx added_partial [] s =
     (ctx, s, Inl (AEStream ''protocol'' ''assistant stream ended without a done or error event''))"
| "stream_events env ctx added_partial (event # rest) s =
     (case event of
        AMStart p \<Rightarrow>
          stream_events env (ctx\<lparr>ac_messages := ac_messages ctx @ [AAssistant p]\<rparr>) True rest
            (emit env (MessageStart (AAssistant p)) s)
      | AMDone _ message \<Rightarrow>
          (case finish_assistant_message env ctx message added_partial s of
             (ctx, s) \<Rightarrow> (ctx, s, Inr message))
      | AMError _ error \<Rightarrow>
          (case finish_assistant_message env ctx error added_partial s of
             (ctx, s) \<Rightarrow> (ctx, s, Inr error))
      | other \<Rightarrow>
          if added_partial then
            (case partial other of
               Some p \<Rightarrow>
                 stream_events env
                   (ctx\<lparr>ac_messages := set_last (AAssistant p) (ac_messages ctx)\<rparr>) added_partial rest
                   (emit env (MessageUpdate (AAssistant p) event) s)
             | None \<Rightarrow> stream_events env ctx added_partial rest s)
          else stream_events env ctx added_partial rest s)"

definition stream_assistant_response ::
  "('w, 'm, 'r) loop_env \<Rightarrow> ('w, 'm, 'r) agent_loop_config \<Rightarrow> 'w agent_context \<Rightarrow> 'w run \<Rightarrow>
   'w agent_context \<times> 'w run \<times> (agent_error + assistant_message)" where
  "stream_assistant_response env config ctx s =
     (let (s, messages) =
            (case cf_transform_context config of
               Some transform \<Rightarrow> call_world (transform (ac_messages ctx) (le_signal env)) s
             | None \<Rightarrow> (s, ac_messages ctx));
          (s, llm_messages) = call_world (cf_convert_to_llm config messages) s;
          llm = \<lparr>lc_system_prompt = Some (ac_system_prompt ctx), lc_messages = llm_messages,
                 lc_tools = Some (map declaration_of (ac_tools ctx))\<rparr>;
          (s, key) =
            (case cf_get_api_key config of
               Some provider \<Rightarrow> call_world (provider (le_provider env (cf_model config))) s
             | None \<Rightarrow> (s, None));
          resolved_key =
            (case key of Some k \<Rightarrow> Some k | None \<Rightarrow> so_api_key (cf_stream_options config));
          options = (cf_stream_options config)\<lparr>so_api_key := resolved_key, so_signal := le_signal env\<rparr>;
          (s, stream) = call_world (le_stream env (cf_model config) llm options) s
      in case stream of
           Inl (code, message) \<Rightarrow> (ctx, s, Inl (AEStream code message))
         | Inr events \<Rightarrow> stream_events env ctx False events s)"

section \<open>Tool calls\<close>

record executed_tool_call_batch =
  ba_messages :: "tool_result_message list"
  ba_terminate :: bool

record finalized_tool_call =
  fin_tool_call :: tool_call
  fin_result :: tool_result
  fin_is_error :: bool

datatype 'w preparation =
    Immediate tool_result bool
  | Prepared "'w agent_tool" json

definition error_tool_result :: "string \<Rightarrow> tool_result" where
  "error_tool_result message =
     tool_result_default\<lparr>res_content := [input_text message], res_details := Some (JObject [])\<rparr>"

definition should_terminate_tool_batch :: "finalized_tool_call list \<Rightarrow> bool" where
  "should_terminate_tool_batch finalized \<longleftrightarrow>
     finalized \<noteq> [] \<and> list_all (\<lambda>f. res_terminate (fin_result f) = Some True) finalized"

definition emit_tool_execution_start ::
  "('w, 'm, 'r) loop_env \<Rightarrow> tool_call \<Rightarrow> 'w run \<Rightarrow> 'w run" where
  "emit_tool_execution_start env c =
     emit env (ToolExecutionStart (call_id c) (call_name c) (JObject (call_arguments c)))"

definition emit_tool_execution_end ::
  "('w, 'm, 'r) loop_env \<Rightarrow> finalized_tool_call \<Rightarrow> 'w run \<Rightarrow> 'w run" where
  "emit_tool_execution_end env f =
     emit env (ToolExecutionEnd (call_id (fin_tool_call f)) (call_name (fin_tool_call f))
       (fin_result f) (fin_is_error f))"

definition create_tool_result_message ::
  "('w, 'm, 'r) loop_env \<Rightarrow> finalized_tool_call \<Rightarrow> 'w run \<Rightarrow> tool_result_message" where
  "create_tool_result_message env f s =
     \<lparr>tr_tool_call_id = call_id (fin_tool_call f), tr_tool_name = call_name (fin_tool_call f),
      tr_content = res_content (fin_result f), tr_details = res_details (fin_result f),
      tr_usage = res_usage (fin_result f),
      tr_added_tool_names =
        (case res_added_tool_names (fin_result f) of
           Some names \<Rightarrow> if names = [] then None else Some names | None \<Rightarrow> None),
      tr_is_error = fin_is_error f, tr_timestamp = le_now_ms env (rn_world s)\<rparr>"

definition emit_tool_result_message ::
  "('w, 'm, 'r) loop_env \<Rightarrow> tool_result_message \<Rightarrow> 'w run \<Rightarrow> 'w run" where
  "emit_tool_result_message env m s =
     emit env (MessageEnd (AToolResult m)) (emit env (MessageStart (AToolResult m)) s)"

definition truncated_message :: "string \<Rightarrow> string" where
  "truncated_message name =
     ''Tool call '' @ [CHR 0x22] @ name @ [CHR 0x22] @
     '' was not executed: the response hit the output token limit, so its arguments may be truncated. Re-issue the tool call with complete arguments.''"

fun fail_truncated_calls ::
  "('w, 'm, 'r) loop_env \<Rightarrow> tool_call list \<Rightarrow> 'w run \<Rightarrow> 'w run \<times> tool_result_message list" where
  "fail_truncated_calls env [] s = (s, [])"
| "fail_truncated_calls env (c # cs) s =
     (let s = emit_tool_execution_start env c s;
          finalized = \<lparr>fin_tool_call = c, fin_result = error_tool_result (truncated_message (call_name c)),
            fin_is_error = True\<rparr>;
          s = emit_tool_execution_end env finalized s;
          message = create_tool_result_message env finalized s;
          s = emit_tool_result_message env message s;
          (s, messages) = fail_truncated_calls env cs s
      in (s, message # messages))"

definition fail_tool_calls_from_truncated_message ::
  "('w, 'm, 'r) loop_env \<Rightarrow> tool_call list \<Rightarrow> 'w run \<Rightarrow> 'w run \<times> executed_tool_call_batch" where
  "fail_tool_calls_from_truncated_message env calls s =
     (let (s, messages) = fail_truncated_calls env calls s
      in (s, \<lparr>ba_messages = messages, ba_terminate = False\<rparr>))"

text \<open>The \<^verbatim>\<open>before_tool_call\<close> hook and its verdicts, ending in an immediate result or the arguments.\<close>

definition run_before_tool_call ::
  "('w, 'm, 'r) loop_env \<Rightarrow> ('w, 'm, 'r) agent_loop_config \<Rightarrow> 'w agent_context \<Rightarrow> assistant_message \<Rightarrow>
   tool_call \<Rightarrow> json \<Rightarrow> 'w run \<Rightarrow> 'w run \<times> (tool_result + json)" where
  "run_before_tool_call env config ctx am c args s =
     (case cf_before_tool_call config of
        None \<Rightarrow> (s, Inr args)
      | Some hook \<Rightarrow>
          let (s, before) = call_world
                (hook \<lparr>btc_assistant_message = am, btc_tool_call = c, btc_args = args, btc_context = ctx\<rparr>
                   (le_signal env)) s
          in if aborted (le_signal env) s then (s, Inl (error_tool_result ''Operation aborted''))
             else
               case before of
                 None \<Rightarrow> (s, Inr args)
               | Some b \<Rightarrow>
                   if btr_block b = Some True then
                     let result = error_tool_result
                           (case btr_reason b of Some r \<Rightarrow> r | None \<Rightarrow> ''Tool execution was blocked'')
                     in (s, Inl (if btr_terminate b = Some True
                                 then result\<lparr>res_terminate := Some True\<rparr> else result))
                   else (s, Inr (case btr_args b of Some a \<Rightarrow> a | None \<Rightarrow> args)))"

definition prepare_tool_call ::
  "('w, 'm, 'r) loop_env \<Rightarrow> ('w, 'm, 'r) agent_loop_config \<Rightarrow> 'w agent_context \<Rightarrow> assistant_message \<Rightarrow>
   tool_call \<Rightarrow> 'w run \<Rightarrow> 'w run \<times> 'w preparation" where
  "prepare_tool_call env config ctx am c s =
     (case find_tool ctx (call_name c) of
        None \<Rightarrow> (s, Immediate (error_tool_result (''Tool '' @ call_name c @ '' not found'')) True)
      | Some tool \<Rightarrow>
          let prepared_call =
                c\<lparr>call_arguments :=
                    (case tool_prepare_arguments tool (JObject (call_arguments c)) of
                       JObject m \<Rightarrow> m | _ \<Rightarrow> call_arguments c)\<rparr>
          in case le_validate env (declaration_of tool) prepared_call of
               Inl error \<Rightarrow> (s, Immediate (error_tool_result error) True)
             | Inr validated \<Rightarrow>
                 case run_before_tool_call env config ctx am c (JObject validated) s of
                   (s, Inl result) \<Rightarrow> (s, Immediate result True)
                 | (s, Inr args) \<Rightarrow>
                     if aborted (le_signal env) s
                     then (s, Immediate (error_tool_result ''Operation aborted'') True)
                     else (s, Prepared tool args))"

text \<open>Running the tool: its buffered updates and its outcome, before they are emitted.\<close>

definition run_tool ::
  "('w, 'm, 'r) loop_env \<Rightarrow> 'w agent_context \<Rightarrow> 'w agent_tool \<Rightarrow> tool_call \<Rightarrow> json \<Rightarrow> 'w run \<Rightarrow>
   'w run \<times> tool_result list \<times> (tool_result \<times> bool)" where
  "run_tool env ctx tool c args s =
     (let (s, updates, outcome) = call_world
            (tool_execute tool args \<lparr>tcx_env = ac_env ctx, tcx_tool_call_id = call_id c\<rparr> (le_signal env)) s
      in (s, updates,
          (case outcome of Inr result \<Rightarrow> (result, False) | Inl e \<Rightarrow> (error_tool_result e, True))))"

definition emit_update ::
  "('w, 'm, 'r) loop_env \<Rightarrow> tool_call \<Rightarrow> tool_result \<Rightarrow> 'w run \<Rightarrow> 'w run" where
  "emit_update env c p =
     emit env (ToolExecutionUpdate (call_id c) (call_name c) (JObject (call_arguments c)) p)"

definition execute_prepared_tool_call ::
  "('w, 'm, 'r) loop_env \<Rightarrow> 'w agent_context \<Rightarrow> 'w agent_tool \<Rightarrow> tool_call \<Rightarrow> json \<Rightarrow> 'w run \<Rightarrow>
   'w run \<times> (tool_result \<times> bool)" where
  "execute_prepared_tool_call env ctx tool c args s =
     (let (s, updates, executed) = run_tool env ctx tool c args s
      in (fold (emit_update env c) updates s, executed))"

definition merge_after :: "after_tool_call_result \<Rightarrow> tool_result \<times> bool \<Rightarrow> tool_result \<times> bool" where
  "merge_after after ex =
     (let r = fst ex;
          r = (case atr_content after of Some c \<Rightarrow> r\<lparr>res_content := c\<rparr> | None \<Rightarrow> r);
          r = (case atr_details after of Some d \<Rightarrow> r\<lparr>res_details := Some d\<rparr> | None \<Rightarrow> r);
          r = (case atr_usage after of Some u \<Rightarrow> r\<lparr>res_usage := Some u\<rparr> | None \<Rightarrow> r);
          r = (case atr_terminate after of Some t \<Rightarrow> r\<lparr>res_terminate := Some t\<rparr> | None \<Rightarrow> r)
      in (r, case atr_is_error after of Some flag \<Rightarrow> flag | None \<Rightarrow> snd ex))"

definition finalize_executed_tool_call ::
  "('w, 'm, 'r) loop_env \<Rightarrow> ('w, 'm, 'r) agent_loop_config \<Rightarrow> 'w agent_context \<Rightarrow> assistant_message \<Rightarrow>
   tool_call \<Rightarrow> json \<Rightarrow> tool_result \<times> bool \<Rightarrow> 'w run \<Rightarrow> 'w run \<times> finalized_tool_call" where
  "finalize_executed_tool_call env config ctx am c args executed s =
     (case cf_after_tool_call config of
        None \<Rightarrow> (s, \<lparr>fin_tool_call = c, fin_result = fst executed, fin_is_error = snd executed\<rparr>)
      | Some hook \<Rightarrow>
          let (s, outcome) = call_world
                (hook \<lparr>atc_assistant_message = am, atc_tool_call = c, atc_args = args,
                       atc_result = fst executed, atc_is_error = snd executed, atc_context = ctx\<rparr>
                   (le_signal env)) s;
              (result, is_error) =
                (case outcome of
                   Inr (Some after) \<Rightarrow> merge_after after executed
                 | Inr None \<Rightarrow> executed
                 | Inl e \<Rightarrow> (error_tool_result (agent_error_message e), True))
          in (s, \<lparr>fin_tool_call = c, fin_result = result, fin_is_error = is_error\<rparr>))"

section \<open>Batches\<close>

definition immediate_call :: "tool_call \<Rightarrow> tool_result \<Rightarrow> bool \<Rightarrow> finalized_tool_call" where
  "immediate_call c result is_error =
     \<lparr>fin_tool_call = c, fin_result = result, fin_is_error = is_error\<rparr>"

fun sequential_calls ::
  "('w, 'm, 'r) loop_env \<Rightarrow> ('w, 'm, 'r) agent_loop_config \<Rightarrow> 'w agent_context \<Rightarrow> assistant_message \<Rightarrow>
   tool_call list \<Rightarrow> 'w run \<Rightarrow> 'w run \<times> finalized_tool_call list \<times> tool_result_message list" where
  "sequential_calls env config ctx am [] s = (s, [], [])"
| "sequential_calls env config ctx am (c # cs) s =
     (let s = emit_tool_execution_start env c s;
          (s, preparation) = prepare_tool_call env config ctx am c s;
          (s, finalized) =
            (case preparation of
               Immediate result is_error \<Rightarrow> (s, immediate_call c result is_error)
             | Prepared tool args \<Rightarrow>
                 let (s, executed) = execute_prepared_tool_call env ctx tool c args s
                 in finalize_executed_tool_call env config ctx am c args executed s);
          s = emit_tool_execution_end env finalized s;
          message = create_tool_result_message env finalized s;
          s = emit_tool_result_message env message s
      in if aborted (le_signal env) s then (s, [finalized], [message])
         else
           let (s, finalized_calls, messages) = sequential_calls env config ctx am cs s
           in (s, finalized # finalized_calls, message # messages))"

definition execute_tool_calls_sequential ::
  "('w, 'm, 'r) loop_env \<Rightarrow> ('w, 'm, 'r) agent_loop_config \<Rightarrow> 'w agent_context \<Rightarrow> assistant_message \<Rightarrow>
   tool_call list \<Rightarrow> 'w run \<Rightarrow> 'w run \<times> executed_tool_call_batch" where
  "execute_tool_calls_sequential env config ctx am calls s =
     (let (s, finalized_calls, messages) = sequential_calls env config ctx am calls s
      in (s, \<lparr>ba_messages = messages, ba_terminate = should_terminate_tool_batch finalized_calls\<rparr>))"

text \<open>
  A task of a parallel batch: a result that is already final, or a prepared call that runs the
  tool, emits its updates, calls the hook and emits its end, suspended before each of these.
\<close>

datatype 'w task =
    TaskExecute tool_call "'w agent_tool" json
  | TaskUpdates tool_call json "tool_result list" "tool_result \<times> bool"
  | TaskEnd finalized_tool_call
  | TaskDone finalized_tool_call

fun task_finished :: "'w task \<Rightarrow> bool" where
  "task_finished (TaskDone _) = True"
| "task_finished _ = False"

fun task_result :: "'w task \<Rightarrow> finalized_tool_call" where
  "task_result (TaskDone f) = f"
| "task_result (TaskEnd f) = f"
| "task_result (TaskUpdates c _ _ (r, e)) = immediate_call c r e"
| "task_result (TaskExecute c _ _) = immediate_call c tool_result_default False"

fun task_step ::
  "('w, 'm, 'r) loop_env \<Rightarrow> ('w, 'm, 'r) agent_loop_config \<Rightarrow> 'w agent_context \<Rightarrow> assistant_message \<Rightarrow>
   'w task \<Rightarrow> 'w run \<Rightarrow> 'w run \<times> 'w task" where
  "task_step env config ctx am (TaskExecute c tool args) s =
     (let (s, updates, executed) = run_tool env ctx tool c args s
      in (s, TaskUpdates c args updates executed))"
| "task_step env config ctx am (TaskUpdates c args (u # us) executed) s =
     (emit_update env c u s, TaskUpdates c args us executed)"
| "task_step env config ctx am (TaskUpdates c args [] executed) s =
     (let (s, finalized) = finalize_executed_tool_call env config ctx am c args executed s
      in (s, TaskEnd finalized))"
| "task_step env config ctx am (TaskEnd finalized) s =
     (emit_tool_execution_end env finalized s, TaskDone finalized)"
| "task_step env config ctx am (TaskDone finalized) s = (s, TaskDone finalized)"

fun task_to_run :: "'w task \<Rightarrow> nat" where
  "task_to_run (TaskExecute _ _ _) = 1"
| "task_to_run _ = 0"

fun task_weight :: "'w task \<Rightarrow> nat" where
  "task_weight (TaskUpdates _ _ us _) = length us + 2"
| "task_weight (TaskEnd _) = 1"
| "task_weight _ = 0"

definition unfinished :: "'w task list \<Rightarrow> nat list" where
  "unfinished tasks = filter (\<lambda>i. \<not> task_finished (tasks ! i)) [0..<length tasks]"

lemma unfinished_less: "i \<in> set (unfinished tasks) \<Longrightarrow> i < length tasks \<and> \<not> task_finished (tasks ! i)"
  by (simp add: unfinished_def)

lemma sum_list_update_less:
  fixes f :: "'a \<Rightarrow> nat"
  shows "i < length xs \<Longrightarrow> f y < f (xs ! i) \<Longrightarrow> sum_list (map f (xs[i := y])) < sum_list (map f xs)"
  by (induction xs arbitrary: i) (auto split: nat.splits)

lemma sum_list_update_same:
  fixes f :: "'a \<Rightarrow> nat"
  shows "i < length xs \<Longrightarrow> f y = f (xs ! i) \<Longrightarrow> sum_list (map f (xs[i := y])) = sum_list (map f xs)"
  by (induction xs arbitrary: i) (auto split: nat.splits)

lemma task_step_decreases:
  assumes "\<not> task_finished t"
  shows "task_to_run (snd (task_step env config ctx am t s)) < task_to_run t \<or>
    task_to_run (snd (task_step env config ctx am t s)) = task_to_run t \<and>
    task_weight (snd (task_step env config ctx am t s)) < task_weight t"
  using assms by (cases "(env, config, ctx, am, t, s)" rule: task_step.cases)
    (auto simp: Let_def split: prod.splits)

text \<open>\<^verbatim>\<open>join_all\<close>: one task after the other takes a step until all are finished.\<close>

definition next_task :: "('w, 'm, 'r) loop_env \<Rightarrow> 'w task list \<Rightarrow> 'w run \<Rightarrow> nat" where
  "next_task env tasks s =
     (let ready = unfinished tasks
      in ready ! (le_pick env (rn_world s) (length ready) mod length ready))"

lemma next_task_unfinished:
  assumes "unfinished tasks \<noteq> []"
  shows "next_task env tasks s < length tasks" and "\<not> task_finished (tasks ! next_task env tasks s)"
proof -
  have "next_task env tasks s \<in> set (unfinished tasks)"
    using assms by (simp add: next_task_def Let_def)
  then show "next_task env tasks s < length tasks" and "\<not> task_finished (tasks ! next_task env tasks s)"
    using unfinished_less by blast+
qed

function join_all ::
  "('w, 'm, 'r) loop_env \<Rightarrow> ('w, 'm, 'r) agent_loop_config \<Rightarrow> 'w agent_context \<Rightarrow> assistant_message \<Rightarrow>
   'w task list \<Rightarrow> 'w run \<Rightarrow> 'w run \<times> finalized_tool_call list" where
  "join_all env config ctx am tasks s =
     (if unfinished tasks = [] then (s, map task_result tasks)
      else
        case task_step env config ctx am (tasks ! next_task env tasks s) s of
          (s', t) \<Rightarrow> join_all env config ctx am (tasks[next_task env tasks s := t]) s')"
  by pat_completeness auto
termination
proof (relation "measures [\<lambda>(env, config, ctx, am, tasks, s). sum_list (map task_to_run tasks),
    \<lambda>(env, config, ctx, am, tasks, s). sum_list (map task_weight tasks)]", goal_cases)
  case (2 env config ctx am tasks s s' t)
  note j = next_task_unfinished [OF 2(1), of env s]
  from task_step_decreases [OF j(2), of env config ctx am s]
  have "task_to_run t < task_to_run (tasks ! next_task env tasks s) \<or>
      task_to_run t = task_to_run (tasks ! next_task env tasks s) \<and>
      task_weight t < task_weight (tasks ! next_task env tasks s)"
    by (simp flip: 2(2))
  with j(1) show ?case by (auto simp: sum_list_update_less sum_list_update_same)
qed simp

declare join_all.simps [simp del]

text \<open>Preparation is sequential. An abort ends it after the entry of the current call.\<close>

fun prepare_entries ::
  "('w, 'm, 'r) loop_env \<Rightarrow> ('w, 'm, 'r) agent_loop_config \<Rightarrow> 'w agent_context \<Rightarrow> assistant_message \<Rightarrow>
   tool_call list \<Rightarrow> 'w run \<Rightarrow> 'w run \<times> 'w task list" where
  "prepare_entries env config ctx am [] s = (s, [])"
| "prepare_entries env config ctx am (c # cs) s =
     (let s = emit_tool_execution_start env c s;
          (s, preparation) = prepare_tool_call env config ctx am c s;
          (s, entry) =
            (case preparation of
               Immediate result is_error \<Rightarrow>
                 (let finalized = immediate_call c result is_error
                  in (emit_tool_execution_end env finalized s, TaskDone finalized))
             | Prepared tool args \<Rightarrow> (s, TaskExecute c tool args))
      in if aborted (le_signal env) s then (s, [entry])
         else let (s, entries) = prepare_entries env config ctx am cs s in (s, entry # entries))"

fun result_messages ::
  "('w, 'm, 'r) loop_env \<Rightarrow> finalized_tool_call list \<Rightarrow> 'w run \<Rightarrow> 'w run \<times> tool_result_message list" where
  "result_messages env [] s = (s, [])"
| "result_messages env (f # fs) s =
     (let message = create_tool_result_message env f s;
          (s, messages) = result_messages env fs (emit_tool_result_message env message s)
      in (s, message # messages))"

definition execute_tool_calls_parallel ::
  "('w, 'm, 'r) loop_env \<Rightarrow> ('w, 'm, 'r) agent_loop_config \<Rightarrow> 'w agent_context \<Rightarrow> assistant_message \<Rightarrow>
   tool_call list \<Rightarrow> 'w run \<Rightarrow> 'w run \<times> executed_tool_call_batch" where
  "execute_tool_calls_parallel env config ctx am calls s =
     (let (s, entries) = prepare_entries env config ctx am calls s;
          (s, ordered) = join_all env config ctx am entries s;
          (s, messages) = result_messages env ordered s
      in (s, \<lparr>ba_messages = messages, ba_terminate = should_terminate_tool_batch ordered\<rparr>))"

definition has_sequential :: "'w agent_context \<Rightarrow> tool_call list \<Rightarrow> bool" where
  "has_sequential ctx calls \<longleftrightarrow>
     list_ex (\<lambda>c. Option.bind (find_tool ctx (call_name c)) tool_execution_mode = Some Sequential) calls"

definition execute_tool_calls ::
  "('w, 'm, 'r) loop_env \<Rightarrow> ('w, 'm, 'r) agent_loop_config \<Rightarrow> 'w agent_context \<Rightarrow> assistant_message \<Rightarrow>
   tool_call list \<Rightarrow> 'w run \<Rightarrow> 'w run \<times> executed_tool_call_batch" where
  "execute_tool_calls env config ctx am calls s =
     (if cf_tool_execution config = Sequential \<or> has_sequential ctx calls
      then execute_tool_calls_sequential env config ctx am calls s
      else execute_tool_calls_parallel env config ctx am calls s)"

section \<open>The loop over turns\<close>

record ('w, 'm, 'r) loop_state =
  ls_context :: "'w agent_context"
  ls_config :: "('w, 'm, 'r) agent_loop_config"
  ls_first_turn :: bool
  ls_pending :: "agent_message list"
  ls_new :: "agent_message list"
  ls_run :: "'w run"

definition ls_emit :: "('w, 'm, 'r) loop_env \<Rightarrow> agent_event \<Rightarrow> ('w, 'm, 'r) loop_state \<Rightarrow> ('w, 'm, 'r) loop_state" where
  "ls_emit env ev ls = ls\<lparr>ls_run := emit env ev (ls_run ls)\<rparr>"

definition begin_turn :: "('w, 'm, 'r) loop_env \<Rightarrow> ('w, 'm, 'r) loop_state \<Rightarrow> ('w, 'm, 'r) loop_state" where
  "begin_turn env ls =
     (if ls_first_turn ls then ls\<lparr>ls_first_turn := False\<rparr> else ls_emit env TurnStart ls)"

definition push_message ::
  "agent_message \<Rightarrow> ('w, 'm, 'r) loop_state \<Rightarrow> ('w, 'm, 'r) loop_state" where
  "push_message m ls =
     ls\<lparr>ls_context := (ls_context ls)\<lparr>ac_messages := ac_messages (ls_context ls) @ [m]\<rparr>,
        ls_new := ls_new ls @ [m]\<rparr>"

definition inject_message ::
  "('w, 'm, 'r) loop_env \<Rightarrow> agent_message \<Rightarrow> ('w, 'm, 'r) loop_state \<Rightarrow> ('w, 'm, 'r) loop_state" where
  "inject_message env m ls = push_message m (ls_emit env (MessageEnd m) (ls_emit env (MessageStart m) ls))"

definition inject_pending ::
  "('w, 'm, 'r) loop_env \<Rightarrow> ('w, 'm, 'r) loop_state \<Rightarrow> ('w, 'm, 'r) loop_state" where
  "inject_pending env ls = fold (inject_message env) (ls_pending ls) (ls\<lparr>ls_pending := []\<rparr>)"

text \<open>Running the tool calls of a response; the flag says whether another request is due.\<close>

definition run_tool_calls ::
  "('w, 'm, 'r) loop_env \<Rightarrow> assistant_message \<Rightarrow> ('w, 'm, 'r) loop_state \<Rightarrow>
   ('w, 'm, 'r) loop_state \<times> tool_result_message list \<times> bool" where
  "run_tool_calls env message ls =
     (if tool_calls message = [] then (ls, [], False)
      else
        let (s, batch) =
              (if am_stop_reason message = SRLength
               then fail_tool_calls_from_truncated_message env (tool_calls message) (ls_run ls)
               else execute_tool_calls env (ls_config ls) (ls_context ls) message (tool_calls message)
                      (ls_run ls))
        in (fold push_message (map AToolResult (ba_messages batch)) (ls\<lparr>ls_run := s\<rparr>),
            ba_messages batch, \<not> ba_terminate batch))"

definition apply_turn_update ::
  "('w, 'm) agent_loop_turn_update \<Rightarrow> ('w, 'm, 'r) loop_state \<Rightarrow> ('w, 'm, 'r) loop_state" where
  "apply_turn_update u ls =
     (let ls = (case tu_context u of Some ctx \<Rightarrow> ls\<lparr>ls_context := ctx\<rparr> | None \<Rightarrow> ls);
          ls = (case tu_model u of Some m \<Rightarrow> ls\<lparr>ls_config := (ls_config ls)\<lparr>cf_model := m\<rparr>\<rparr> | None \<Rightarrow> ls)
      in case tu_thinking_level u of
           Some level \<Rightarrow> ls\<lparr>ls_config := set_thinking_level level (ls_config ls)\<rparr>
         | None \<Rightarrow> ls)"

definition run_prepare_hook ::
  "'w turn_context \<Rightarrow> ('w, 'm, 'r) loop_state \<Rightarrow> ('w, 'm, 'r) loop_state" where
  "run_prepare_hook turn ls =
     (case cf_prepare_next_turn (ls_config ls) of
        None \<Rightarrow> ls
      | Some hook \<Rightarrow>
          let (s, update) = call_world (hook turn) (ls_run ls);
              ls = ls\<lparr>ls_run := s\<rparr>
          in case update of None \<Rightarrow> ls | Some u \<Rightarrow> apply_turn_update u ls)"

definition run_stop_hook ::
  "'w turn_context \<Rightarrow> ('w, 'm, 'r) loop_state \<Rightarrow> ('w, 'm, 'r) loop_state \<times> bool" where
  "run_stop_hook turn ls =
     (case cf_should_stop_after_turn (ls_config ls) of
        None \<Rightarrow> (ls, False)
      | Some hook \<Rightarrow>
          let (s, stop) = call_world (hook (turn\<lparr>tcn_context := ls_context ls\<rparr>)) (ls_run ls)
          in (ls\<lparr>ls_run := s\<rparr>, stop))"

datatype turn_outcome =
    Continue bool
  | Return
  | Fail agent_error

definition end_agent ::
  "('w, 'm, 'r) loop_env \<Rightarrow> ('w, 'm, 'r) loop_state \<Rightarrow> ('w, 'm, 'r) loop_state" where
  "end_agent env ls = ls_emit env (AgentEnd (ls_new ls)) ls"

text \<open>What follows a response that is neither an error nor aborted.\<close>

definition complete_turn ::
  "('w, 'm, 'r) loop_env \<Rightarrow> assistant_message \<Rightarrow> ('w, 'm, 'r) loop_state \<Rightarrow>
   ('w, 'm, 'r) loop_state \<times> turn_outcome" where
  "complete_turn env message ls =
     (let (ls, tool_results, has_more_tool_calls) = run_tool_calls env message ls;
          ls = ls_emit env (TurnEnd (AAssistant message) tool_results) ls;
          turn = \<lparr>tcn_message = AAssistant message, tcn_tool_results = tool_results,
                  tcn_context = ls_context ls, tcn_new_messages = ls_new ls\<rparr>;
          ls = run_prepare_hook turn ls;
          (ls, stop) = run_stop_hook turn ls
      in if stop then (end_agent env ls, Return)
         else
           let (s, pending) = poll_source (cf_get_steering_messages (ls_config ls)) (ls_run ls)
           in (ls\<lparr>ls_run := s, ls_pending := pending\<rparr>, Continue has_more_tool_calls))"

definition run_turn ::
  "('w, 'm, 'r) loop_env \<Rightarrow> ('w, 'm, 'r) loop_state \<Rightarrow> ('w, 'm, 'r) loop_state \<times> turn_outcome" where
  "run_turn env ls =
     (let ls = inject_pending env (begin_turn env ls) in
      case stream_assistant_response env (ls_config ls) (ls_context ls) (ls_run ls) of
        (ctx, s, Inl e) \<Rightarrow> (ls\<lparr>ls_context := ctx, ls_run := s\<rparr>, Fail e)
      | (ctx, s, Inr message) \<Rightarrow>
          let ls = ls\<lparr>ls_context := ctx, ls_run := s, ls_new := ls_new ls @ [AAssistant message]\<rparr>
          in if am_stop_reason message \<in> {SRError, SRAborted}
             then (end_agent env (ls_emit env (TurnEnd (AAssistant message) []) ls), Return)
             else complete_turn env message ls)"

text \<open>The two nested loops, from the test of the inner one.\<close>

fun run_turns ::
  "('w, 'm, 'r) loop_env \<Rightarrow> nat \<Rightarrow> bool \<Rightarrow> ('w, 'm, 'r) loop_state \<Rightarrow>
   ('w, 'm, 'r) loop_state \<times> (agent_error + unit) option" where
  "run_turns env 0 has_more_tool_calls ls = (ls, None)"
| "run_turns env (Suc n) has_more_tool_calls ls =
     (if has_more_tool_calls \<or> ls_pending ls \<noteq> []
      then
        (case run_turn env ls of
           (ls, Continue again) \<Rightarrow> run_turns env n again ls
         | (ls, Return) \<Rightarrow> (ls, Some (Inr ()))
         | (ls, Fail e) \<Rightarrow> (ls, Some (Inl e)))
      else
        let (s, follow_ups) = poll_source (cf_get_follow_up_messages (ls_config ls)) (ls_run ls);
            ls = ls\<lparr>ls_run := s\<rparr>
        in if follow_ups \<noteq> [] then run_turns env n True (ls\<lparr>ls_pending := follow_ups\<rparr>)
           else (end_agent env ls, Some (Inr ())))"

definition run_loop ::
  "('w, 'm, 'r) loop_env \<Rightarrow> nat \<Rightarrow> ('w, 'm, 'r) agent_loop_config \<Rightarrow> 'w agent_context \<Rightarrow>
   agent_message list \<Rightarrow> 'w run \<Rightarrow> ('w, 'm, 'r) loop_state \<times> (agent_error + unit) option" where
  "run_loop env n config ctx new_messages s =
     (let (s, pending) = poll_source (cf_get_steering_messages config) s
      in run_turns env n True
           \<lparr>ls_context = ctx, ls_config = config, ls_first_turn = True, ls_pending = pending,
            ls_new = new_messages, ls_run = s\<rparr>)"

definition loop_result ::
  "('w, 'm, 'r) loop_state \<times> (agent_error + unit) option \<Rightarrow>
   'w run \<times> (agent_error + agent_message list) option" where
  "loop_result r =
     (ls_run (fst r), map_option (\<lambda>x. case x of Inl e \<Rightarrow> Inl e | Inr _ \<Rightarrow> Inr (ls_new (fst r))) (snd r))"

definition run_agent_loop ::
  "('w, 'm, 'r) loop_env \<Rightarrow> nat \<Rightarrow> agent_message list \<Rightarrow> ('w, 'm, 'r) agent_loop_config \<Rightarrow>
   'w agent_context \<Rightarrow> 'w \<Rightarrow> 'w run \<times> (agent_error + agent_message list) option" where
  "run_agent_loop env n prompts config ctx w =
     (let s = emit env TurnStart (emit env AgentStart \<lparr>rn_world = w, rn_events = []\<rparr>);
          s = fold (\<lambda>p s. emit env (MessageEnd p) (emit env (MessageStart p) s)) prompts s
      in loop_result (run_loop env n config
           (ctx\<lparr>ac_messages := ac_messages ctx @ prompts\<rparr>) prompts s))"

definition check_continuable :: "'w agent_context \<Rightarrow> agent_error + unit" where
  "check_continuable ctx =
     (if ac_messages ctx = [] then Inl (AEInvalidState ''Cannot continue: no messages in context'')
      else
        case last (ac_messages ctx) of
          AAssistant _ \<Rightarrow> Inl (AEInvalidState ''Cannot continue from message role: assistant'')
        | _ \<Rightarrow> Inr ())"

definition run_agent_loop_continue ::
  "('w, 'm, 'r) loop_env \<Rightarrow> nat \<Rightarrow> ('w, 'm, 'r) agent_loop_config \<Rightarrow> 'w agent_context \<Rightarrow> 'w \<Rightarrow>
   'w run \<times> (agent_error + agent_message list) option" where
  "run_agent_loop_continue env n config ctx w =
     (case check_continuable ctx of
        Inl e \<Rightarrow> (\<lparr>rn_world = w, rn_events = []\<rparr>, Some (Inl e))
      | Inr _ \<Rightarrow>
          loop_result (run_loop env n config ctx []
            (emit env TurnStart (emit env AgentStart \<lparr>rn_world = w, rn_events = []\<rparr>))))"

end
