(* ===== verification/Agent_Protocol.thy ===== *)
theory Agent_Protocol
  imports Agent_Loop "HOL-Library.Multiset"
begin

text \<open>
  The contract of the agent loop with its listeners and with the transcript. \<open>protocol_step\<close> is the
  protocol of the events: a run is a sequence of turns, a turn a sequence of messages and tool
  executions that do not overlap with messages, a message has one start and one end, and every
  tool execution that starts ends within its turn. \<open>steps\<close> relates two runs when the events
  between them follow the protocol and end the given messages; the lemmas prove it for each
  operation and compose.
\<close>

section \<open>The protocol of the events\<close>

datatype phase =
    Outside
  | BetweenTurns
  | InTurn
  | InMessage agent_message
  | Ended

fun is_assistant :: "agent_message \<Rightarrow> bool" where
  "is_assistant (AAssistant _) = True"
| "is_assistant _ = False"

fun protocol_step :: "phase \<times> string multiset \<Rightarrow> agent_event \<Rightarrow> (phase \<times> string multiset) option" where
  "protocol_step (ph, running) AgentStart =
     (if ph = Outside then Some (BetweenTurns, running) else None)"
| "protocol_step (ph, running) (AgentEnd _) =
     (if ph = BetweenTurns then Some (Ended, running) else None)"
| "protocol_step (ph, running) TurnStart =
     (if ph = BetweenTurns then Some (InTurn, running) else None)"
| "protocol_step (ph, running) (TurnEnd _ _) =
     (if ph = InTurn \<and> running = {#} then Some (BetweenTurns, running) else None)"
| "protocol_step (ph, running) (MessageStart m) =
     (if ph = InTurn \<and> running = {#} then Some (InMessage m, running) else None)"
| "protocol_step (ph, running) (MessageUpdate m _) =
     (case ph of
        InMessage m' \<Rightarrow> if is_assistant m' \<and> is_assistant m then Some (InMessage m, running) else None
      | _ \<Rightarrow> None)"
| "protocol_step (ph, running) (MessageEnd m) =
     (case ph of
        InMessage m' \<Rightarrow>
          if m' = m \<or> is_assistant m' \<and> is_assistant m then Some (InTurn, running) else None
      | _ \<Rightarrow> None)"
| "protocol_step (ph, running) (ToolExecutionStart i _ _) =
     (if ph = InTurn then Some (InTurn, add_mset i running) else None)"
| "protocol_step (ph, running) (ToolExecutionUpdate i _ _ _) =
     (if ph = InTurn \<and> i \<in># running then Some (InTurn, running) else None)"
| "protocol_step (ph, running) (ToolExecutionEnd i _ _ _) =
     (if ph = InTurn \<and> i \<in># running then Some (InTurn, running - {#i#}) else None)"

fun follows :: "phase \<times> string multiset \<Rightarrow> agent_event list \<Rightarrow> (phase \<times> string multiset) option" where
  "follows p [] = Some p"
| "follows p (ev # evs) = (case protocol_step p ev of None \<Rightarrow> None | Some q \<Rightarrow> follows q evs)"

lemma follows_append:
  "follows p (xs @ ys) = (case follows p xs of None \<Rightarrow> None | Some q \<Rightarrow> follows q ys)"
  by (induction xs arbitrary: p) (simp_all split: option.splits)

fun message_ended :: "agent_event \<Rightarrow> agent_message option" where
  "message_ended (MessageEnd m) = Some m"
| "message_ended _ = None"

definition message_ends :: "agent_event list \<Rightarrow> agent_message list" where
  "message_ends evs = List.map_filter message_ended evs"

lemma message_ends_simps [simp]:
  "message_ends [] = []" "message_ends (xs @ ys) = message_ends xs @ message_ends ys"
  "message_ends (ev # evs) = (case message_ended ev of Some m \<Rightarrow> [m] | None \<Rightarrow> []) @ message_ends evs"
  by (simp_all add: message_ends_def map_filter_append map_filter_Cons split: option.splits)

section \<open>Runs that follow the protocol\<close>

definition steps ::
  "phase \<times> string multiset \<Rightarrow> 'w run \<Rightarrow> agent_message list \<Rightarrow> 'w run \<Rightarrow> phase \<times> string multiset \<Rightarrow> bool" where
  "steps p s ms s' q \<longleftrightarrow>
     (\<exists>evs. rn_events s' = rn_events s @ evs \<and> follows p evs = Some q \<and> message_ends evs = ms)"

lemma steps_refl: "rn_events s' = rn_events s \<Longrightarrow> steps p s [] s' p"
  by (auto simp: steps_def)

lemma steps_trans:
  assumes "steps p s ms s' q" and "steps q s' ms' s'' r"
  shows "steps p s (ms @ ms') s'' r"
  using assms by (fastforce simp: steps_def follows_append)

lemma steps_emit:
  "protocol_step p ev = Some q \<Longrightarrow>
     steps p s (case message_ended ev of Some m \<Rightarrow> [m] | None \<Rightarrow> []) (emit env ev s) q"
  by (auto simp: steps_def emit_def intro!: exI [of _ "[ev]"])

lemma steps_emit_silent:
  "\<lbrakk>protocol_step p ev = Some q; message_ended ev = None\<rbrakk> \<Longrightarrow> steps p s [] (emit env ev s) q"
  using steps_emit [of p ev q s env] by simp

lemma call_world_events [simp]: "rn_events (fst (call_world f s)) = rn_events s"
  by (simp add: call_world_def split_beta)

lemma call_world_eventsD: "call_world f s = (s', x) \<Longrightarrow> rn_events s' = rn_events s"
  using call_world_events [of f s] by simp

lemma poll_source_events: "poll_source src s = (s', ms) \<Longrightarrow> rn_events s' = rn_events s"
  by (auto simp: poll_source_def dest: call_world_eventsD split: option.splits)

lemma steps_message:
  "steps (InTurn, {#}) s [m] (emit env (MessageEnd m) (emit env (MessageStart m) s)) (InTurn, {#})"
  using steps_trans [OF steps_emit [of "(InTurn, {#})" "MessageStart m" "(InMessage m, {#})" s env]
      steps_emit [of "(InMessage m, {#})" "MessageEnd m" "(InTurn, {#})" "emit env (MessageStart m) s" env]]
  by simp

section \<open>Streaming\<close>

fun is_start :: "assistant_message_event \<Rightarrow> bool" where
  "is_start (AMStart _) = True"
| "is_start _ = False"

text \<open>Providers start a response at most once.\<close>

definition starts_once :: "assistant_message_event list \<Rightarrow> bool" where
  "starts_once es \<longleftrightarrow> length (filter is_start es) \<le> 1"

definition single_start :: "('w, 'm, 'r) loop_env \<Rightarrow> bool" where
  "single_start env \<longleftrightarrow>
     (\<forall>m c opts w w' es. le_stream env m c opts w = (w', Inr es) \<longrightarrow> starts_once es)"

lemma set_last_snoc [simp]: "set_last x (xs @ [y]) = xs @ [x]"
  by (simp add: set_last_def)

text \<open>After the start: the partial message is at the end of the context until it is replaced.\<close>

lemma stream_events_started:
  assumes "filter is_start es = []" and "ac_messages ctx = base @ [AAssistant p]"
    and "stream_events env ctx True es s = (ctx', s', r)"
  shows "\<exists>p' ph. ac_messages ctx' = base @ [AAssistant p'] \<and>
    (case r of Inr m \<Rightarrow> p' = m \<and> ph = InTurn | Inl e \<Rightarrow> ph \<noteq> Ended) \<and>
    ac_tools ctx' = ac_tools ctx \<and>
    steps (InMessage (AAssistant p), {#}) s (case r of Inr m \<Rightarrow> [AAssistant m] | Inl _ \<Rightarrow> []) s' (ph, {#})"
  using assms
proof (induction es arbitrary: ctx p s)
  case Nil
  then show ?case by (auto intro!: exI [of _ "InMessage (AAssistant p)"] steps_refl)
next
  case (Cons e es)
  have update: ?case
    if "partial e = Some q" "terminal_message e = None" "\<not> is_start e" for q
  proof -
    let ?s = "emit env (MessageUpdate (AAssistant q) e) s"
    let ?ctx = "ctx\<lparr>ac_messages := base @ [AAssistant q]\<rparr>"
    have "stream_events env ?ctx True es ?s = (ctx', s', r)"
      using that Cons.prems by (cases e) auto
    with Cons.IH [of ?ctx q ?s] Cons.prems(1) obtain p' ph where IH:
      "ac_messages ctx' = base @ [AAssistant p']" "ac_tools ctx' = ac_tools ctx"
      "case r of Inr m \<Rightarrow> p' = m \<and> ph = InTurn | Inl e \<Rightarrow> ph \<noteq> Ended"
      "steps (InMessage (AAssistant q), {#}) ?s
         (case r of Inr m \<Rightarrow> [AAssistant m] | Inl _ \<Rightarrow> []) s' (ph, {#})"
      by (auto split: if_splits)
    from steps_trans [OF steps_emit IH(4), of "(InMessage (AAssistant p), {#})"] IH(1-3)
    show ?thesis by auto
  qed
  have finish: ?case if "terminal_message e = Some m" for m
  proof -
    have "r = Inr m" "ctx' = ctx\<lparr>ac_messages := base @ [AAssistant m]\<rparr>"
      "s' = emit env (MessageEnd (AAssistant m)) s"
      using that Cons.prems by (cases e; auto simp: finish_assistant_message_def)+
    then show ?thesis
      using steps_emit [of "(InMessage (AAssistant p), {#})" "MessageEnd (AAssistant m)" _ s env] by auto
  qed
  show ?case using update finish Cons.prems(1) by (cases e) auto
qed
lemma stream_events_fresh:
  assumes "starts_once es" and "stream_events env ctx False es s = (ctx', s', r)"
  shows "\<exists>ph. (case r of Inr m \<Rightarrow> ac_messages ctx' = ac_messages ctx @ [AAssistant m] \<and> ph = InTurn
      | Inl e \<Rightarrow> ph \<noteq> Ended) \<and> ac_tools ctx' = ac_tools ctx \<and>
    steps (InTurn, {#}) s (case r of Inr m \<Rightarrow> [AAssistant m] | Inl _ \<Rightarrow> []) s' (ph, {#})"
  using assms
proof (induction es arbitrary: s)
  case Nil
  then show ?case by (auto intro!: exI [of _ InTurn] steps_refl)
next
  case (Cons e es)
  have begun: ?case if "e = AMStart p" for p
  proof -
    let ?s = "emit env (MessageStart (AAssistant p)) s"
    let ?ctx = "ctx\<lparr>ac_messages := ac_messages ctx @ [AAssistant p]\<rparr>"
    have "stream_events env ?ctx True es ?s = (ctx', s', r)" "filter is_start es = []"
      using that Cons.prems by (auto simp: starts_once_def)
    from stream_events_started [OF this(2) _ this(1), of "ac_messages ctx" p] obtain p' ph where
      "ac_messages ctx' = ac_messages ctx @ [AAssistant p']" "ac_tools ctx' = ac_tools ctx"
      "case r of Inr m \<Rightarrow> p' = m \<and> ph = InTurn | Inl e \<Rightarrow> ph \<noteq> Ended" and
      st: "steps (InMessage (AAssistant p), {#}) ?s
         (case r of Inr m \<Rightarrow> [AAssistant m] | Inl _ \<Rightarrow> []) s' (ph, {#})"
      by auto
    with steps_trans [OF steps_emit st, of "(InTurn, {#})"] show ?thesis
      by (auto split: sum.splits)
  qed
  have finish: ?case if "terminal_message e = Some m" for m
  proof -
    have "r = Inr m" "ctx' = ctx\<lparr>ac_messages := ac_messages ctx @ [AAssistant m]\<rparr>"
      "s' = emit env (MessageEnd (AAssistant m)) (emit env (MessageStart (AAssistant m)) s)"
      using that Cons.prems by (cases e; auto simp: finish_assistant_message_def)+
    then show ?thesis using steps_message [of s "AAssistant m" env] by auto
  qed
  have skip: ?case if "\<not> is_start e" "terminal_message e = None"
  proof -
    have "stream_events env ctx False es s = (ctx', s', r)" "starts_once es"
      using that Cons.prems by (cases e; auto simp: starts_once_def)+
    then show ?thesis using Cons.IH by blast
  qed
  show ?case using begun finish skip by (cases e) auto
qed

lemma steps_cong: "rn_events s1 = rn_events s \<Longrightarrow> steps p s1 ms s' q \<Longrightarrow> steps p s ms s' q"
  by (simp add: steps_def)

lemma stream_assistant_response_steps:
  assumes "single_start env" and "stream_assistant_response env config ctx s = (ctx', s', r)"
  shows "\<exists>ph. (case r of Inr m \<Rightarrow> ac_messages ctx' = ac_messages ctx @ [AAssistant m] \<and> ph = InTurn
      | Inl e \<Rightarrow> ph \<noteq> Ended) \<and> ac_tools ctx' = ac_tools ctx \<and>
    steps (InTurn, {#}) s (case r of Inr m \<Rightarrow> [AAssistant m] | Inl _ \<Rightarrow> []) s' (ph, {#})"
proof -
  obtain s1 messages where 1: "(case cf_transform_context config of
      Some transform \<Rightarrow> call_world (transform (ac_messages ctx) (le_signal env)) s
    | None \<Rightarrow> (s, ac_messages ctx)) = (s1, messages)" by fastforce
  obtain s2 llm_messages where 2: "call_world (cf_convert_to_llm config messages) s1 = (s2, llm_messages)"
    by fastforce
  obtain s3 key where 3: "(case cf_get_api_key config of
      Some provider \<Rightarrow> call_world (provider (le_provider env (cf_model config))) s2
    | None \<Rightarrow> (s2, None)) = (s3, key)" by fastforce
  let ?llm = "\<lparr>lc_system_prompt = Some (ac_system_prompt ctx), lc_messages = llm_messages,
    lc_tools = Some (map declaration_of (ac_tools ctx))\<rparr>"
  let ?options = "(cf_stream_options config)\<lparr>so_api_key :=
      (case key of Some k \<Rightarrow> Some k | None \<Rightarrow> so_api_key (cf_stream_options config)),
    so_signal := le_signal env\<rparr>"
  obtain s4 stream where 4: "call_world (le_stream env (cf_model config) ?llm ?options) s3 = (s4, stream)"
    by fastforce
  have "rn_events s1 = rn_events s" "rn_events s3 = rn_events s2"
    using 1 3 by (auto dest: call_world_eventsD split: option.splits)
  with call_world_eventsD [OF 2] call_world_eventsD [OF 4]
  have ev: "rn_events s4 = rn_events s" by simp
  have res: "(case stream of Inl (code, message) \<Rightarrow> (ctx, s4, Inl (AEStream code message))
      | Inr events \<Rightarrow> stream_events env ctx False events s4) = (ctx', s', r)"
    using assms(2) by (simp add: stream_assistant_response_def 1 2 3 4)
  show ?thesis
  proof (cases stream)
    case (Inl a)
    with res ev show ?thesis by (auto intro!: exI [of _ InTurn] steps_refl split: prod.splits)
  next
    case (Inr es)
    have "starts_once es"
      using 4 assms(1) by (auto simp: call_world_def single_start_def Inr split: prod.splits)
    then obtain ph where "(case r of Inr m \<Rightarrow> ac_messages ctx' = ac_messages ctx @ [AAssistant m] \<and> ph = InTurn
      | Inl e \<Rightarrow> ph \<noteq> Ended) \<and> ac_tools ctx' = ac_tools ctx"
      and "steps (InTurn, {#}) s4 (case r of Inr m \<Rightarrow> [AAssistant m] | Inl _ \<Rightarrow> []) s' (ph, {#})"
      using stream_events_fresh [of es env ctx s4 ctx' s' r] res Inr by auto
    with steps_cong [OF ev] show ?thesis by blast
  qed
qed

section \<open>Tool calls\<close>

lemma prepare_tool_call_events [simp]:
  "rn_events (fst (prepare_tool_call env config ctx am c s)) = rn_events s"
proof -
  have "rn_events (fst (run_before_tool_call env config ctx am c args s)) = rn_events s" for args
    by (simp add: run_before_tool_call_def Let_def split_beta split: option.splits)
  then show ?thesis
    by (auto simp: prepare_tool_call_def Let_def split: option.splits sum.splits prod.splits)
      (metis fst_conv)+
qed

lemma run_tool_events [simp]: "rn_events (fst (run_tool env ctx tool c args s)) = rn_events s"
  by (simp add: run_tool_def Let_def split_beta)

lemma run_tool_eventsD: "run_tool env ctx tool c args s = (s', x) \<Longrightarrow> rn_events s' = rn_events s"
  using run_tool_events [of env ctx tool c args s] by simp

lemma finalize_events [simp]:
  "rn_events (fst (finalize_executed_tool_call env config ctx am c args ex s)) = rn_events s"
  "fin_tool_call (snd (finalize_executed_tool_call env config ctx am c args ex s)) = c"
  by (simp_all add: finalize_executed_tool_call_def Let_def split_beta split: option.splits)

lemma finalize_eventsD:
  assumes "finalize_executed_tool_call env config ctx am c args ex s = (s', f)"
  shows "rn_events s' = rn_events s" and "fin_tool_call f = c"
  using finalize_events [of env config ctx am c args ex s] assms by simp_all

lemma steps_start:
  "steps (InTurn, R) s [] (emit_tool_execution_start env c s) (InTurn, add_mset (call_id c) R)"
  by (simp add: emit_tool_execution_start_def steps_emit_silent)

lemma steps_update:
  "call_id c \<in># R \<Longrightarrow> steps (InTurn, R) s [] (emit_update env c u s) (InTurn, R)"
  by (simp add: emit_update_def steps_emit_silent)

lemma steps_updates:
  "call_id c \<in># R \<Longrightarrow> steps (InTurn, R) s [] (fold (emit_update env c) us s) (InTurn, R)"
proof (induction us arbitrary: s)
  case (Cons u us)
  with steps_trans [OF steps_update Cons.IH] show ?case by fastforce
qed (simp add: steps_refl)

lemma steps_end:
  "call_id (fin_tool_call f) \<in># R \<Longrightarrow>
     steps (InTurn, R) s [] (emit_tool_execution_end env f s) (InTurn, R - {#call_id (fin_tool_call f)#})"
  by (simp add: emit_tool_execution_end_def steps_emit_silent)

lemma steps_result:
  "steps (InTurn, {#}) s [AToolResult m] (emit_tool_result_message env m s) (InTurn, {#})"
  by (simp add: emit_tool_result_message_def steps_message)

lemma created_call_id [simp]:
  "tr_tool_call_id (create_tool_result_message env f s) = call_id (fin_tool_call f)"
  "tr_is_error (create_tool_result_message env f s) = fin_is_error f"
  by (simp_all add: create_tool_result_message_def)

text \<open>The end of a call and its message, as the sequential and the truncated batch have them.\<close>

lemma steps_end_result:
  assumes "fin_tool_call f = c"
  shows "steps (InTurn, {#call_id c#}) s [AToolResult m]
    (emit_tool_result_message env m (emit_tool_execution_end env f s)) (InTurn, {#})"
proof -
  have "steps (InTurn, {#call_id c#}) s [] (emit_tool_execution_end env f s) (InTurn, {#})"
    using steps_end [of f "{#call_id c#}"] assms by simp
  from steps_trans [OF this steps_result] show ?thesis by simp
qed

lemma fail_truncated_calls_steps:
  assumes "fail_truncated_calls env cs s = (s', ms)"
  shows "steps (InTurn, {#}) s (map AToolResult ms) s' (InTurn, {#}) \<and>
    map tr_tool_call_id ms = map call_id cs \<and> list_all tr_is_error ms"
  using assms
proof (induction cs arbitrary: s ms)
  case Nil
  then show ?case by (simp add: steps_refl)
next
  case (Cons c cs)
  let ?f = "\<lparr>fin_tool_call = c, fin_result = error_tool_result (truncated_message (call_name c)), fin_is_error = True\<rparr>"
  let ?s = "emit_tool_execution_start env c s"
  let ?m = "create_tool_result_message env ?f (emit_tool_execution_end env ?f ?s)"
  let ?s' = "emit_tool_result_message env ?m (emit_tool_execution_end env ?f ?s)"
  obtain ms' where rest: "fail_truncated_calls env cs ?s' = (s', ms')" "ms = ?m # ms'"
    using Cons.prems by (auto simp: Let_def split: prod.splits)
  have "steps (InTurn, {#call_id c#}) ?s [AToolResult ?m] ?s' (InTurn, {#})"
    by (rule steps_end_result) simp
  with steps_trans [OF steps_start this] have "steps (InTurn, {#}) s [AToolResult ?m] ?s' (InTurn, {#})"
    by simp
  from steps_trans [OF this] Cons.IH [OF rest(1)] rest(2) show ?case by fastforce
qed

text \<open>One call of a sequential batch, from its start to its result.\<close>

definition sequential_call ::
  "('w, 'm, 'r) loop_env \<Rightarrow> ('w, 'm, 'r) agent_loop_config \<Rightarrow> 'w agent_context \<Rightarrow> assistant_message \<Rightarrow>
   tool_call \<Rightarrow> 'w run \<Rightarrow> 'w run \<times> finalized_tool_call" where
  "sequential_call env config ctx am c s =
     (let (s, preparation) = prepare_tool_call env config ctx am c (emit_tool_execution_start env c s)
      in case preparation of
           Immediate result is_error \<Rightarrow> (s, immediate_call c result is_error)
         | Prepared tool args \<Rightarrow>
             let (s, executed) = execute_prepared_tool_call env ctx tool c args s
             in finalize_executed_tool_call env config ctx am c args executed s)"

lemma sequential_calls_Cons:
  "sequential_calls env config ctx am (c # cs) s =
     (let (s, finalized) = sequential_call env config ctx am c s;
          s = emit_tool_execution_end env finalized s;
          message = create_tool_result_message env finalized s;
          s = emit_tool_result_message env message s
      in if aborted (le_signal env) s then (s, [finalized], [message])
         else
           let (s, finalized_calls, messages) = sequential_calls env config ctx am cs s
           in (s, finalized # finalized_calls, message # messages))"
proof -
  obtain s1 prep where p: "prepare_tool_call env config ctx am c (emit_tool_execution_start env c s) = (s1, prep)"
    by fastforce
  show ?thesis
    unfolding sequential_calls.simps sequential_call_def Let_def p by (cases prep) (simp_all add: Let_def)
qed

declare sequential_calls.simps(2) [simp del]

lemma sequential_call_steps:
  assumes "sequential_call env config ctx am c s = (s', f)"
  shows "steps (InTurn, {#}) s [] s' (InTurn, {#call_id c#}) \<and> fin_tool_call f = c"
proof -
  obtain s1 prep where p: "prepare_tool_call env config ctx am c (emit_tool_execution_start env c s) = (s1, prep)"
    by fastforce
  have "rn_events s1 = rn_events (emit_tool_execution_start env c s)"
    using prepare_tool_call_events [of env config ctx am c "emit_tool_execution_start env c s"] p by simp
  from steps_trans [OF steps_start steps_refl [OF this]]
  have st: "steps (InTurn, {#}) s [] s1 (InTurn, {#call_id c#})" by fastforce
  show ?thesis
  proof (cases prep)
    case (Immediate r e)
    with assms p st show ?thesis by (auto simp: sequential_call_def immediate_call_def)
  next
    case (Prepared tool args)
    obtain s2 us ex where r: "run_tool env ctx tool c args s1 = (s2, us, ex)" by (metis prod_cases3)
    let ?s3 = "fold (emit_update env c) us s2"
    have "rn_events s2 = rn_events s1" using run_tool_events [of env ctx tool c args s1] r by simp
    from steps_trans [OF st steps_refl [OF this]] have "steps (InTurn, {#}) s [] s2 (InTurn, {#call_id c#})"
      by simp
    from steps_trans [OF this steps_updates [of c "{#call_id c#}" s2 env us]]
    have st3: "steps (InTurn, {#}) s [] ?s3 (InTurn, {#call_id c#})" by simp
    have fin: "finalize_executed_tool_call env config ctx am c args ex ?s3 = (s', f)"
      using assms by (simp add: sequential_call_def p Prepared execute_prepared_tool_call_def r)
    have "rn_events s' = rn_events ?s3" "fin_tool_call f = c"
      using finalize_events [of env config ctx am c args ex ?s3] fin by simp_all
    with steps_trans [OF st3 steps_refl] show ?thesis by fastforce
  qed
qed

lemma sequential_calls_steps:
  assumes "sequential_calls env config ctx am cs s = (s', fs, ms)"
  shows "steps (InTurn, {#}) s (map AToolResult ms) s' (InTurn, {#}) \<and>
    (\<exists>k. (0 < k \<or> cs = []) \<and> (le_signal env = None \<longrightarrow> k \<ge> length cs) \<and>
      map fin_tool_call fs = take k cs \<and> map tr_tool_call_id ms = map call_id (take k cs) \<and>
      map tr_is_error ms = map fin_is_error fs)"
  using assms
proof (induction cs arbitrary: s fs ms)
  case Nil
  then show ?case by (simp add: steps_refl)
next
  case (Cons c cs)
  obtain s1 f where c: "sequential_call env config ctx am c s = (s1, f)" by fastforce
  let ?s2 = "emit_tool_execution_end env f s1"
  let ?m = "create_tool_result_message env f ?s2"
  let ?s3 = "emit_tool_result_message env ?m ?s2"
  note first = sequential_call_steps [OF c]
  have st: "steps (InTurn, {#}) s [AToolResult ?m] ?s3 (InTurn, {#})"
    using steps_trans [OF conjunct1 [OF first] steps_end_result [OF conjunct2 [OF first]]] by simp
  show ?case
  proof (cases "aborted (le_signal env) ?s3")
    case True
    then have "le_signal env \<noteq> None" by (cases "le_signal env") (auto simp: aborted_def)
    moreover have "s' = ?s3 \<and> fs = [f] \<and> ms = [?m]"
      using Cons.prems True by (simp add: sequential_calls_Cons c Let_def)
    ultimately show ?thesis using st first by (auto intro!: exI [of _ 1])
  next
    case False
    obtain fs' ms' where rest: "sequential_calls env config ctx am cs ?s3 = (s', fs', ms')"
      "fs = f # fs'" "ms = ?m # ms'"
      using Cons.prems False by (auto simp: sequential_calls_Cons c Let_def split: prod.splits)
    note IH = Cons.IH [OF rest(1)]
    from conjunct2 [OF IH] obtain k where
      "(0 < k \<or> cs = []) \<and> (le_signal env = None \<longrightarrow> k \<ge> length cs) \<and>
        map fin_tool_call fs' = take k cs \<and> map tr_tool_call_id ms' = map call_id (take k cs) \<and>
        map tr_is_error ms' = map fin_is_error fs'" ..
    moreover have "steps (InTurn, {#}) s (map AToolResult ms) s' (InTurn, {#})"
      using steps_trans [OF st conjunct1 [OF IH]] by (simp add: rest)
    ultimately show ?thesis
      using first by (intro conjI exI [of _ "Suc k"]) (simp_all add: rest)
  qed
qed

section \<open>Parallel batches\<close>

fun task_call :: "'w task \<Rightarrow> tool_call" where
  "task_call (TaskExecute c _ _) = c"
| "task_call (TaskUpdates c _ _ _) = c"
| "task_call (TaskEnd f) = fin_tool_call f"
| "task_call (TaskDone f) = fin_tool_call f"

definition task_running :: "'w task \<Rightarrow> string multiset" where
  "task_running t = (if task_finished t then {#} else {#call_id (task_call t)#})"

definition running :: "'w task list \<Rightarrow> string multiset" where
  "running tasks = sum_list (map task_running tasks)"

lemma running_simps [simp]:
  "running [] = {#}" "running (t # ts) = task_running t + running ts"
  by (simp_all add: running_def)

lemma sum_list_map_update:
  fixes f :: "'a \<Rightarrow> 'b multiset"
  assumes "j < length xs"
  shows "\<exists>rest. sum_list (map f xs) = f (xs ! j) + rest \<and> sum_list (map f (xs[j := y])) = f y + rest"
proof (intro exI conjI)
  let ?rest = "sum_list (map f (take j xs)) + sum_list (map f (drop (Suc j) xs))"
  show "sum_list (map f xs) = f (xs ! j) + ?rest"
    by (subst id_take_nth_drop [OF assms]) (simp add: ac_simps)
  show "sum_list (map f (xs[j := y])) = f y + ?rest"
    by (simp add: upd_conv_take_nth_drop [OF assms] ac_simps)
qed

lemma running_update:
  assumes "j < length tasks"
  shows "\<exists>rest. running tasks = task_running (tasks ! j) + rest \<and>
    running (tasks[j := t]) = task_running t + rest"
  unfolding running_def by (rule sum_list_map_update [OF assms])

lemma task_step_steps:
  assumes "\<not> task_finished t" and "task_step env config ctx am t s = (s', t')"
  shows "steps (InTurn, task_running t + R) s [] s' (InTurn, task_running t' + R) \<and>
    task_call t' = task_call t"
proof (cases "(env, config, ctx, am, t, s)" rule: task_step.cases)
  case (1 env' config' ctx' am' c tool args s'')
  with assms(2) show ?thesis
    by (auto simp: task_running_def Let_def split: prod.splits intro!: steps_refl dest: run_tool_eventsD)
next
  case (2 env' config' ctx' am' c args u us ex s'')
  with assms(2) show ?thesis
    using steps_update [of c "add_mset (call_id c) R" s env u]
    by (auto simp: task_running_def)
next
  case (3 env' config' ctx' am' c args ex s'')
  with assms(2) show ?thesis
    by (auto simp: task_running_def Let_def finalize_eventsD split: prod.splits intro!: steps_refl)
next
  case (4 env' config' ctx' am' f s'')
  with assms(2) show ?thesis
    using steps_end [of f "add_mset (call_id (fin_tool_call f)) R" s env]
    by (auto simp: task_running_def)
qed (use assms in simp)

lemma unfinished_Nil: "unfinished tasks = [] \<Longrightarrow> running tasks = {#} \<and> list_all task_finished tasks"
proof -
  assume "unfinished tasks = []"
  then have "\<forall>i<length tasks. task_finished (tasks ! i)"
    by (auto simp: unfinished_def filter_empty_conv)
  then have fin: "\<forall>t\<in>set tasks. task_finished t" by (metis in_set_conv_nth)
  then have "running tasks = {#}" by (induction tasks) (auto simp: task_running_def)
  with fin show ?thesis by (simp add: list_all_iff)
qed

lemma join_all_steps:
  assumes "join_all env config ctx am tasks s = (s', fs)"
  shows "steps (InTurn, running tasks) s [] s' (InTurn, {#}) \<and> map fin_tool_call fs = map task_call tasks"
  using assms
proof (induction env config ctx am tasks s rule: join_all.induct)
  case (1 env config ctx am tasks s)
  show ?case
  proof (cases "unfinished tasks = []")
    case True
    have "fin_tool_call (task_result t) = task_call t" if "task_finished t" for t :: "'a task"
      using that by (cases t) auto
    with True 1(2) unfinished_Nil [OF True] show ?thesis
      by (auto simp: join_all.simps [of env config ctx am tasks s] list_all_iff intro!: steps_refl)
  next
    case False
    let ?j = "next_task env tasks s"
    obtain s1 t where st: "task_step env config ctx am (tasks ! ?j) s = (s1, t)" by fastforce
    have rest: "join_all env config ctx am (tasks[?j := t]) s1 = (s', fs)"
      using 1(2) False st by (simp add: join_all.simps [of env config ctx am tasks s])
    note IH = 1(1) [OF False st [symmetric] rest]
    note j = next_task_unfinished [OF False, of env s]
    obtain R where R: "running tasks = task_running (tasks ! ?j) + R"
      "running (tasks[?j := t]) = task_running t + R"
      using running_update [OF j(1)] by blast
    note step = task_step_steps [OF j(2) st, of R]
    have "steps (InTurn, running tasks) s [] s' (InTurn, {#})"
      using steps_trans [OF conjunct1 [OF step [folded R]] conjunct1 [OF IH]] by simp
    moreover have "map task_call (tasks[?j := t]) = map task_call tasks"
      using step j(1) by (metis list_update_id map_update nth_map)
    ultimately show ?thesis using IH by simp
  qed
qed

text \<open>The entry of one call of a parallel batch.\<close>

definition prepare_entry ::
  "('w, 'm, 'r) loop_env \<Rightarrow> ('w, 'm, 'r) agent_loop_config \<Rightarrow> 'w agent_context \<Rightarrow> assistant_message \<Rightarrow>
   tool_call \<Rightarrow> 'w run \<Rightarrow> 'w run \<times> 'w task" where
  "prepare_entry env config ctx am c s =
     (case prepare_tool_call env config ctx am c (emit_tool_execution_start env c s) of
        (s, Immediate result is_error) \<Rightarrow>
          (emit_tool_execution_end env (immediate_call c result is_error) s,
           TaskDone (immediate_call c result is_error))
      | (s, Prepared tool args) \<Rightarrow> (s, TaskExecute c tool args))"

lemma prepare_entries_Cons:
  "prepare_entries env config ctx am (c # cs) s =
     (let (s, entry) = prepare_entry env config ctx am c s
      in if aborted (le_signal env) s then (s, [entry])
         else let (s, entries) = prepare_entries env config ctx am cs s in (s, entry # entries))"
proof -
  obtain s1 prep where p: "prepare_tool_call env config ctx am c (emit_tool_execution_start env c s) = (s1, prep)"
    by fastforce
  show ?thesis
    by (cases prep) (simp_all add: prepare_entry_def p Let_def)
qed

declare prepare_entries.simps(2) [simp del]

lemma prepare_entry_steps:
  assumes "prepare_entry env config ctx am c s = (s', t)"
  shows "steps (InTurn, R) s [] s' (InTurn, task_running t + R) \<and> task_call t = c"
proof -
  obtain s1 prep where p: "prepare_tool_call env config ctx am c (emit_tool_execution_start env c s) = (s1, prep)"
    by fastforce
  have "rn_events s1 = rn_events (emit_tool_execution_start env c s)"
    using prepare_tool_call_events [of env config ctx am c "emit_tool_execution_start env c s"] p by simp
  from steps_trans [OF steps_start steps_refl [OF this], of R]
  have st: "steps (InTurn, R) s [] s1 (InTurn, add_mset (call_id c) R)" by simp
  show ?thesis
  proof (cases prep)
    case (Immediate r b)
    with assms p have e: "s' = emit_tool_execution_end env (immediate_call c r b) s1"
      "t = TaskDone (immediate_call c r b)"
      by (simp_all add: prepare_entry_def)
    have "steps (InTurn, add_mset (call_id c) R) s1 [] s' (InTurn, R)"
      using steps_end [of "immediate_call c r b" "add_mset (call_id c) R" s1 env]
      by (simp add: e immediate_call_def)
    from steps_trans [OF st this] show ?thesis by (simp add: e task_running_def immediate_call_def)
  next
    case (Prepared tool args)
    with assms p st show ?thesis by (auto simp: prepare_entry_def task_running_def)
  qed
qed

lemma prepare_entries_steps:
  assumes "prepare_entries env config ctx am cs s = (s', ts)"
  shows "steps (InTurn, R) s [] s' (InTurn, running ts + R) \<and>
    (\<exists>k. (0 < k \<or> cs = []) \<and> (le_signal env = None \<longrightarrow> k \<ge> length cs) \<and> map task_call ts = take k cs)"
  using assms
proof (induction cs arbitrary: s ts R)
  case Nil
  then show ?case by (simp add: steps_refl)
next
  case (Cons c cs)
  obtain s1 t where e: "prepare_entry env config ctx am c s = (s1, t)" by fastforce
  note entry = prepare_entry_steps [OF e, of R]
  show ?case
  proof (cases "aborted (le_signal env) s1")
    case True
    then have "le_signal env \<noteq> None" by (cases "le_signal env") (auto simp: aborted_def)
    moreover have "s' = s1 \<and> ts = [t]" using Cons.prems True by (simp add: prepare_entries_Cons e)
    ultimately show ?thesis using entry by (auto intro!: exI [of _ 1])
  next
    case False
    obtain ts' where rest: "prepare_entries env config ctx am cs s1 = (s', ts')" "ts = t # ts'"
      using Cons.prems False by (auto simp: prepare_entries_Cons e split: prod.splits)
    note IH = Cons.IH [OF rest(1), of "task_running t + R"]
    from conjunct2 [OF IH] obtain k where
      "(0 < k \<or> cs = []) \<and> (le_signal env = None \<longrightarrow> k \<ge> length cs) \<and> map task_call ts' = take k cs" ..
    moreover have "steps (InTurn, R) s [] s' (InTurn, running ts + R)"
      using steps_trans [OF conjunct1 [OF entry] conjunct1 [OF IH]] by (simp add: rest ac_simps)
    ultimately show ?thesis
      using entry by (intro conjI exI [of _ "Suc k"]) (simp_all add: rest)
  qed
qed

lemma result_messages_steps:
  assumes "result_messages env fs s = (s', ms)"
  shows "steps (InTurn, {#}) s (map AToolResult ms) s' (InTurn, {#}) \<and>
    map tr_tool_call_id ms = map (\<lambda>f. call_id (fin_tool_call f)) fs \<and>
    map tr_is_error ms = map fin_is_error fs"
  using assms
proof (induction fs arbitrary: s ms)
  case Nil
  then show ?case by (simp add: steps_refl)
next
  case (Cons f fs)
  let ?m = "create_tool_result_message env f s"
  obtain ms' where rest: "result_messages env fs (emit_tool_result_message env ?m s) = (s', ms')"
    "ms = ?m # ms'"
    using Cons.prems by (auto simp: Let_def split: prod.splits)
  note IH = Cons.IH [OF rest(1)]
  have "steps (InTurn, {#}) s (map AToolResult ms) s' (InTurn, {#})"
    using steps_trans [OF steps_result conjunct1 [OF IH]] by (simp add: rest(2))
  with IH show ?case by (simp add: rest(2))
qed

section \<open>Batches answer the calls in order\<close>

text \<open>
  Result messages that answer a list of calls: those of a prefix of it, in order; of at least one
  call; and of all of them when the run cannot be aborted.
\<close>

definition answers :: "bool \<Rightarrow> tool_call list \<Rightarrow> tool_result_message list \<Rightarrow> bool" where
  "answers abortable calls ms \<longleftrightarrow>
     map tr_tool_call_id ms = map call_id (take (length ms) calls) \<and>
     (ms \<noteq> [] \<or> calls = []) \<and> (\<not> abortable \<longrightarrow> length ms = length calls)"

lemma answersI:
  assumes "map tr_tool_call_id ms = map call_id (take k calls)" and "0 < k \<or> calls = []"
    and "\<not> abortable \<longrightarrow> k \<ge> length calls"
  shows "answers abortable calls ms"
proof -
  have "length ms = min (length calls) k" using arg_cong [OF assms(1), of length] by simp
  with assms show ?thesis by (auto simp: answers_def min_def)
qed

lemma execute_tool_calls_steps:
  assumes "execute_tool_calls env config ctx am calls s = (s', batch)"
  shows "steps (InTurn, {#}) s (map AToolResult (ba_messages batch)) s' (InTurn, {#}) \<and>
    answers (le_signal env \<noteq> None) calls (ba_messages batch) \<and>
    (\<exists>fs. map fin_tool_call fs = take (length (ba_messages batch)) calls \<and>
      map tr_is_error (ba_messages batch) = map fin_is_error fs \<and>
      (ba_terminate batch \<longleftrightarrow> should_terminate_tool_batch fs))"
proof (cases "cf_tool_execution config = Sequential \<or> has_sequential ctx calls")
  case True
  obtain fs where seq: "sequential_calls env config ctx am calls s = (s', fs, ba_messages batch)"
    and stops: "ba_terminate batch \<longleftrightarrow> should_terminate_tool_batch fs"
    using assms True
    by (auto simp: execute_tool_calls_def execute_tool_calls_sequential_def split: prod.splits)
  note st = sequential_calls_steps [OF seq]
  from conjunct2 [OF st] obtain k where k: "0 < k \<or> calls = []"
    "le_signal env = None \<longrightarrow> k \<ge> length calls" "map fin_tool_call fs = take k calls"
    "map tr_tool_call_id (ba_messages batch) = map call_id (take k calls)"
    "map tr_is_error (ba_messages batch) = map fin_is_error fs" by (elim exE conjE) (rule that)
  moreover have "take (length (ba_messages batch)) calls = take k calls"
    using arg_cong [OF k(4), of length] by (simp add: min_def)
  ultimately show ?thesis
    using answersI [OF k(4,1), of "le_signal env \<noteq> None"] k(2) conjunct1 [OF st] stops by (intro conjI exI [of _ fs]) simp_all
next
  case False
  obtain s1 ts where prep: "prepare_entries env config ctx am calls s = (s1, ts)" by fastforce
  obtain s2 fs where join: "join_all env config ctx am ts s1 = (s2, fs)" by fastforce
  have res: "result_messages env fs s2 = (s', ba_messages batch)"
    and stops: "ba_terminate batch \<longleftrightarrow> should_terminate_tool_batch fs"
    using assms False
    by (auto simp: execute_tool_calls_def execute_tool_calls_parallel_def prep join split: prod.splits)
  note p = prepare_entries_steps [OF prep, of "{#}"] and j = join_all_steps [OF join]
    and r = result_messages_steps [OF res]
  from conjunct2 [OF p] obtain k where k: "0 < k \<or> calls = []"
    "le_signal env = None \<longrightarrow> k \<ge> length calls" "map task_call ts = take k calls"
    by (elim exE conjE) (rule that)
  have fs: "map fin_tool_call fs = take k calls" using j k(3) by simp
  have "map (\<lambda>f. call_id (fin_tool_call f)) fs = map call_id (map fin_tool_call fs)" by simp
  then have ids: "map tr_tool_call_id (ba_messages batch) = map call_id (take k calls)"
    using r fs by metis
  have "take (length (ba_messages batch)) calls = take k calls"
    using arg_cong [OF ids, of length] by (simp add: min_def)
  moreover have "steps (InTurn, {#}) s [] s1 (InTurn, running ts)" using p by simp
  from steps_trans [OF steps_trans [OF this conjunct1 [OF j]] conjunct1 [OF r]]
  have "steps (InTurn, {#}) s (map AToolResult (ba_messages batch)) s' (InTurn, {#})" by simp
  ultimately show ?thesis
    using answersI [OF ids k(1), of "le_signal env \<noteq> None"] k(2) stops fs r by (intro conjI exI [of _ fs]) simp_all
qed

section \<open>Turns\<close>

record turn_record =
  tn_injected :: "agent_message list"
  tn_assistant :: assistant_message
  tn_results :: "tool_result_message list"

definition turn_messages :: "turn_record \<Rightarrow> agent_message list" where
  "turn_messages t = tn_injected t @ AAssistant (tn_assistant t) # map AToolResult (tn_results t)"

definition turn_answered :: "bool \<Rightarrow> turn_record \<Rightarrow> bool" where
  "turn_answered abortable t \<longleftrightarrow>
     (if am_stop_reason (tn_assistant t) \<in> {SRError, SRAborted} then tn_results t = []
      else
        answers abortable (tool_calls (tn_assistant t)) (tn_results t) \<and>
        (am_stop_reason (tn_assistant t) = SRLength \<longrightarrow>
           answers False (tool_calls (tn_assistant t)) (tn_results t) \<and> list_all tr_is_error (tn_results t)))"

lemma inject_fold:
  "(let ls' = fold (inject_message env) ms ls in
    steps (InTurn, {#}) (ls_run ls) ms (ls_run ls') (InTurn, {#}) \<and>
    ls_new ls' = ls_new ls @ ms \<and>
    ac_messages (ls_context ls') = ac_messages (ls_context ls) @ ms \<and>
    ac_tools (ls_context ls') = ac_tools (ls_context ls) \<and>
    ls_config ls' = ls_config ls \<and> ls_first_turn ls' = ls_first_turn ls \<and> ls_pending ls' = ls_pending ls)"
proof (induction ms arbitrary: ls)
  case Nil
  then show ?case by (simp add: steps_refl)
next
  case (Cons m ms)
  have "steps (InTurn, {#}) (ls_run ls) [m] (ls_run (inject_message env m ls)) (InTurn, {#})"
    by (simp add: inject_message_def push_message_def ls_emit_def steps_message)
  from steps_trans [OF this] Cons.IH [of "inject_message env m ls"] show ?case
    by (force simp: Let_def inject_message_def push_message_def ls_emit_def)
qed

lemma push_fold:
  "fold push_message ms ls =
     ls\<lparr>ls_context := (ls_context ls)\<lparr>ac_messages := ac_messages (ls_context ls) @ ms\<rparr>,
        ls_new := ls_new ls @ ms\<rparr>"
  by (induction ms arbitrary: ls) (simp_all add: push_message_def)

lemma run_tool_calls_steps:
  assumes "run_tool_calls env message ls = (ls', results, flag)"
    and "am_stop_reason message \<notin> {SRError, SRAborted}"
  shows "steps (InTurn, {#}) (ls_run ls) (map AToolResult results) (ls_run ls') (InTurn, {#}) \<and>
    ls_new ls' = ls_new ls @ map AToolResult results \<and>
    ac_messages (ls_context ls') = ac_messages (ls_context ls) @ map AToolResult results \<and>
    ls_config ls' = ls_config ls \<and> ls_first_turn ls' = ls_first_turn ls \<and>
    turn_answered (le_signal env \<noteq> None) \<lparr>tn_injected = ms, tn_assistant = message, tn_results = results\<rparr>"
proof (cases "tool_calls message = []")
  case True
  with assms show ?thesis
    by (auto simp: run_tool_calls_def turn_answered_def answers_def intro!: steps_refl)
next
  case False
  define b where "b = (if am_stop_reason message = SRLength
    then fail_tool_calls_from_truncated_message env (tool_calls message) (ls_run ls)
    else execute_tool_calls env (ls_config ls) (ls_context ls) message (tool_calls message) (ls_run ls))"
  have res: "results = ba_messages (snd b)" "ls' = fold push_message (map AToolResult results) (ls\<lparr>ls_run := fst b\<rparr>)"
    using assms(1) False by (auto simp: run_tool_calls_def b_def Let_def split_beta)
  have batch: "steps (InTurn, {#}) (ls_run ls) (map AToolResult results) (fst b) (InTurn, {#}) \<and>
    turn_answered (le_signal env \<noteq> None) \<lparr>tn_injected = ms, tn_assistant = message, tn_results = results\<rparr>"
  proof (cases "am_stop_reason message = SRLength")
    case True
    obtain s1 where t: "fail_truncated_calls env (tool_calls message) (ls_run ls) = (s1, results)" "fst b = s1"
      using True res(1) by (auto simp: b_def fail_tool_calls_from_truncated_message_def split: prod.splits)
    note f = fail_truncated_calls_steps [OF t(1)]
    have "answers ab (tool_calls message) results" for ab
      by (rule answersI [of _ "length (tool_calls message)"]) (use f False in auto)
    with f t True show ?thesis by (simp add: turn_answered_def)
  next
    case other: False
    with assms(2) res execute_tool_calls_steps [of env "ls_config ls" "ls_context ls" message
        "tool_calls message" "ls_run ls" "fst b" "snd b"] show ?thesis
      by (auto simp: b_def turn_answered_def)
  qed
  with res show ?thesis by (simp add: push_fold)
qed

lemma run_prepare_hook_frame:
  "rn_events (ls_run (run_prepare_hook turn ls)) = rn_events (ls_run ls)"
  "ls_new (run_prepare_hook turn ls) = ls_new ls"
  "ls_first_turn (run_prepare_hook turn ls) = ls_first_turn ls"
  "cf_prepare_next_turn (ls_config (run_prepare_hook turn ls)) = cf_prepare_next_turn (ls_config ls)"
  "cf_prepare_next_turn (ls_config ls) = None \<Longrightarrow> run_prepare_hook turn ls = ls"
  by (auto simp: run_prepare_hook_def apply_turn_update_def set_thinking_level_def Let_def split_beta
      split: option.splits)

lemma run_stop_hook_frame:
  "rn_events (ls_run (fst (run_stop_hook turn ls))) = rn_events (ls_run ls)"
  "ls_new (fst (run_stop_hook turn ls)) = ls_new ls"
  "ls_first_turn (fst (run_stop_hook turn ls)) = ls_first_turn ls"
  "ls_config (fst (run_stop_hook turn ls)) = ls_config ls"
  "ls_context (fst (run_stop_hook turn ls)) = ls_context ls"
  by (auto simp: run_stop_hook_def Let_def split_beta split: option.splits)

lemmas hook_frame = run_prepare_hook_frame(1-4) run_stop_hook_frame

text \<open>Where the protocol is after a turn with the given outcome.\<close>

fun after_turn :: "turn_outcome \<Rightarrow> phase" where
  "after_turn (Continue _) = BetweenTurns"
| "after_turn _ = Ended"

definition ends_agent :: "('w, 'm, 'r) loop_state \<Rightarrow> bool" where
  "ends_agent ls \<longleftrightarrow> (\<exists>evs. rn_events (ls_run ls) = evs @ [AgentEnd (ls_new ls)])"

lemma end_agent_steps:
  "steps (BetweenTurns, {#}) (ls_run ls) [] (ls_run (end_agent env ls)) (Ended, {#}) \<and>
   ls_new (end_agent env ls) = ls_new ls \<and> ls_context (end_agent env ls) = ls_context ls \<and>
   ls_config (end_agent env ls) = ls_config ls \<and> ends_agent (end_agent env ls)"
  by (auto simp: end_agent_def ls_emit_def ends_agent_def emit_def steps_def)

lemma turn_end_steps:
  "steps (InTurn, {#}) s [] (emit env (TurnEnd m rs) s) (BetweenTurns, {#})"
  by (simp add: steps_emit_silent)

text \<open>The context is the transcript as long as no hook replaces it.\<close>

abbreviation keeps_context :: "('w, 'm, 'r) loop_state \<Rightarrow> ('w, 'm, 'r) loop_state \<Rightarrow> agent_message list \<Rightarrow> bool" where
  "keeps_context ls ls' ms \<equiv>
     cf_prepare_next_turn (ls_config ls') = cf_prepare_next_turn (ls_config ls) \<and>
     (cf_prepare_next_turn (ls_config ls) = None \<longrightarrow>
        ac_messages (ls_context ls') = ac_messages (ls_context ls) @ ms)"

lemma complete_turn_steps:
  assumes "complete_turn env message ls = (ls', out)"
    and "am_stop_reason message \<notin> {SRError, SRAborted}" and "\<not> ls_first_turn ls"
  shows "\<exists>rs. steps (InTurn, {#}) (ls_run ls) (map AToolResult rs) (ls_run ls') (after_turn out, {#}) \<and>
    ls_new ls' = ls_new ls @ map AToolResult rs \<and> keeps_context ls ls' (map AToolResult rs) \<and>
    turn_answered (le_signal env \<noteq> None) \<lparr>tn_injected = ms, tn_assistant = message, tn_results = rs\<rparr> \<and>
    \<not> ls_first_turn ls' \<and> (out = Return \<longrightarrow> ends_agent ls') \<and> (\<forall>e. out \<noteq> Fail e)"
proof -
  obtain ls1 rs flag where 1: "run_tool_calls env message ls = (ls1, rs, flag)" by (metis prod_cases3)
  note tools = run_tool_calls_steps [OF 1 assms(2), of ms]
  define ls2 where "ls2 = ls_emit env (TurnEnd (AAssistant message) rs) ls1"
  define turn where "turn = \<lparr>tcn_message = AAssistant message, tcn_tool_results = rs,
    tcn_context = ls_context ls2, tcn_new_messages = ls_new ls2\<rparr>"
  define ls3 where "ls3 = run_prepare_hook turn ls2"
  obtain ls4 stop where 4: "run_stop_hook turn ls3 = (ls4, stop)" by fastforce
  have fr: "rn_events (ls_run ls4) = rn_events (ls_run ls2)" "ls_new ls4 = ls_new ls2"
    "ls_first_turn ls4 = ls_first_turn ls1" "keeps_context ls1 ls4 []"
    using hook_frame [of turn ls2] run_stop_hook_frame [of turn ls3] run_prepare_hook_frame(5) [of ls2 turn] 4
    by (auto simp: ls3_def ls2_def ls_emit_def)
  have "steps (InTurn, {#}) (ls_run ls1) [] (ls_run ls2) (BetweenTurns, {#})"
    by (simp add: ls2_def ls_emit_def turn_end_steps)
  from steps_trans [OF steps_trans [OF conjunct1 [OF tools] this] steps_refl [OF fr(1)]]
  have st: "steps (InTurn, {#}) (ls_run ls) (map AToolResult rs) (ls_run ls4) (BetweenTurns, {#})" by simp
  have new: "ls_new ls4 = ls_new ls @ map AToolResult rs" and kc: "keeps_context ls ls4 (map AToolResult rs)"
    and first: "\<not> ls_first_turn ls4"
    using tools fr assms(3) by (auto simp: ls2_def ls_emit_def)
  have out: "(if stop then (end_agent env ls4, Return)
      else let (s, pending) = poll_source (cf_get_steering_messages (ls_config ls4)) (ls_run ls4)
           in (ls4\<lparr>ls_run := s, ls_pending := pending\<rparr>, Continue flag)) = (ls', out)"
    using assms(1) by (simp add: complete_turn_def 1 4 ls2_def [symmetric] turn_def [symmetric] ls3_def [symmetric])
  show ?thesis
  proof (cases stop)
    case True
    with out have "ls' = end_agent env ls4" "out = Return" by simp_all
    moreover have "ls_first_turn (end_agent env ls4) = ls_first_turn ls4"
      by (simp add: end_agent_def ls_emit_def)
    ultimately show ?thesis
      using steps_trans [OF st conjunct1 [OF end_agent_steps]] end_agent_steps [of ls4 env] new kc first tools
      by (intro exI [of _ rs]) simp
  next
    case False
    obtain s pending where p: "poll_source (cf_get_steering_messages (ls_config ls4)) (ls_run ls4) = (s, pending)"
      by fastforce
    with out False have "ls' = ls4\<lparr>ls_run := s, ls_pending := pending\<rparr>" "out = Continue flag" by simp_all
    with steps_trans [OF st steps_refl [OF poll_source_events [OF p]]] new kc first tools show ?thesis
      by (intro exI [of _ rs]) simp
  qed
qed

text \<open>Where the protocol is when the inner loop is tested: the first turn has already started.\<close>

definition loop_phase :: "('w, 'm, 'r) loop_state \<Rightarrow> phase" where
  "loop_phase ls = (if ls_first_turn ls then InTurn else BetweenTurns)"

lemma begin_turn_steps:
  "steps (loop_phase ls, {#}) (ls_run ls) [] (ls_run (begin_turn env ls)) (InTurn, {#}) \<and>
   ls_new (begin_turn env ls) = ls_new ls \<and> ls_context (begin_turn env ls) = ls_context ls \<and>
   ls_config (begin_turn env ls) = ls_config ls \<and> ls_pending (begin_turn env ls) = ls_pending ls \<and>
   \<not> ls_first_turn (begin_turn env ls)"
  by (simp add: begin_turn_def ls_emit_def loop_phase_def steps_refl steps_emit_silent)

lemma opened_turn:
  "let ls' = inject_pending env (begin_turn env ls) in
   steps (loop_phase ls, {#}) (ls_run ls) (ls_pending ls) (ls_run ls') (InTurn, {#}) \<and>
   ls_new ls' = ls_new ls @ ls_pending ls \<and> ls_config ls' = ls_config ls \<and>
   ac_messages (ls_context ls') = ac_messages (ls_context ls) @ ls_pending ls \<and> \<not> ls_first_turn ls'"
  using begin_turn_steps [of ls env]
    inject_fold [of env "ls_pending ls" "(begin_turn env ls)\<lparr>ls_pending := []\<rparr>"]
    steps_trans [of "(loop_phase ls, {#})" "ls_run ls" "[]" "ls_run (begin_turn env ls)" "(InTurn, {#})"
      "ls_pending ls" "ls_run (inject_pending env (begin_turn env ls))" "(InTurn, {#})"]
  by (simp add: inject_pending_def Let_def)

text \<open>What a turn does, for each of its outcomes.\<close>

definition turn_result ::
  "('w, 'm, 'r) loop_env \<Rightarrow> ('w, 'm, 'r) loop_state \<Rightarrow> ('w, 'm, 'r) loop_state \<Rightarrow> turn_outcome \<Rightarrow> turn_record \<Rightarrow> bool" where
  "turn_result env ls ls' out t \<longleftrightarrow>
     tn_injected t = ls_pending ls \<and> turn_answered (le_signal env \<noteq> None) t \<and>
     steps (loop_phase ls, {#}) (ls_run ls) (turn_messages t) (ls_run ls') (after_turn out, {#}) \<and>
     ls_new ls' = ls_new ls @ turn_messages t \<and> keeps_context ls ls' (turn_messages t) \<and>
     \<not> ls_first_turn ls' \<and> (out = Return \<longrightarrow> ends_agent ls')"

lemma failed_turn:
  fixes env :: "('w, 'm, 'r) loop_env" and ls l2 :: "('w, 'm, 'r) loop_state"
  assumes "am_stop_reason m \<in> {SRError, SRAborted}"
    and "steps (loop_phase ls, {#}) (ls_run ls) (ls_pending ls @ [AAssistant m]) (ls_run l2) (InTurn, {#})"
    and "ls_new l2 = ls_new ls @ ls_pending ls @ [AAssistant m]" and "ls_config l2 = ls_config ls"
    and "ac_messages (ls_context l2) = ac_messages (ls_context ls) @ ls_pending ls @ [AAssistant m]"
    and "\<not> ls_first_turn l2"
  shows "turn_result env ls (end_agent env (ls_emit env (TurnEnd (AAssistant m) []) l2)) Return
    \<lparr>tn_injected = ls_pending ls, tn_assistant = m, tn_results = []\<rparr>"
proof -
  let ?l3 = "ls_emit env (TurnEnd (AAssistant m) []) l2"
  have "steps (InTurn, {#}) (ls_run l2) [] (ls_run ?l3) (BetweenTurns, {#})"
    by (simp add: ls_emit_def turn_end_steps)
  from steps_trans [OF assms(2) steps_trans [OF this conjunct1 [OF end_agent_steps [of ?l3 env]]]]
  show ?thesis
    using assms end_agent_steps [of ?l3 env]
    by (simp add: turn_result_def turn_messages_def turn_answered_def)
      (simp add: ls_emit_def end_agent_def)
qed

lemma run_turn_steps:
  assumes "single_start env" and "run_turn env ls = (ls', out)"
  shows "case out of
      Fail e \<Rightarrow> \<exists>ph. ph \<noteq> Ended \<and> steps (loop_phase ls, {#}) (ls_run ls) (ls_pending ls) (ls_run ls') (ph, {#})
    | _ \<Rightarrow> \<exists>t. turn_result env ls ls' out t"
proof -
  define l1 where "l1 = inject_pending env (begin_turn env ls)"
  have l1: "steps (loop_phase ls, {#}) (ls_run ls) (ls_pending ls) (ls_run l1) (InTurn, {#})"
    "ls_new l1 = ls_new ls @ ls_pending ls" "ls_config l1 = ls_config ls"
    "ac_messages (ls_context l1) = ac_messages (ls_context ls) @ ls_pending ls" "\<not> ls_first_turn l1"
    using opened_turn [of env ls] by (simp_all add: l1_def Let_def)
  obtain ctx s r where resp: "stream_assistant_response env (ls_config l1) (ls_context l1) (ls_run l1) = (ctx, s, r)"
    by (metis prod_cases3)
  note turn = assms(2) [unfolded run_turn_def Let_def, folded l1_def, unfolded resp prod.case]
  from stream_assistant_response_steps [OF assms(1) resp] obtain ph where
    ph: "case r of Inr m \<Rightarrow> ac_messages ctx = ac_messages (ls_context l1) @ [AAssistant m] \<and> ph = InTurn
      | Inl e \<Rightarrow> ph \<noteq> Ended"
    and st: "steps (InTurn, {#}) (ls_run l1) (case r of Inr m \<Rightarrow> [AAssistant m] | Inl _ \<Rightarrow> []) s (ph, {#})"
    by blast
  note st1 = steps_trans [OF l1(1) st]
  show ?thesis
  proof (cases r)
    case (Inl e)
    with turn st1 ph show ?thesis by auto
  next
    case (Inr m)
    define l2 where "l2 = l1\<lparr>ls_context := ctx, ls_run := s, ls_new := ls_new l1 @ [AAssistant m]\<rparr>"
    have l2: "steps (loop_phase ls, {#}) (ls_run ls) (ls_pending ls @ [AAssistant m]) (ls_run l2) (InTurn, {#})"
      "ls_new l2 = ls_new ls @ ls_pending ls @ [AAssistant m]" "ls_config l2 = ls_config ls"
      "ac_messages (ls_context l2) = ac_messages (ls_context ls) @ ls_pending ls @ [AAssistant m]"
      "\<not> ls_first_turn l2"
      using st1 ph l1 by (simp_all add: Inr l2_def)
    note turn2 = turn [unfolded Inr sum.case, folded l2_def]
    show ?thesis
    proof (cases "am_stop_reason m \<in> {SRError, SRAborted}")
      case True
      with turn2 have "ls' = end_agent env (ls_emit env (TurnEnd (AAssistant m) []) l2)" and out: "out = Return"
        by auto
      with failed_turn [OF True l2] have
        "turn_result env ls ls' out \<lparr>tn_injected = ls_pending ls, tn_assistant = m, tn_results = []\<rparr>" by simp
      then show ?thesis by (auto simp: out)
    next
      case False
      with turn2 have ct: "complete_turn env m l2 = (ls', out)" by simp
      from complete_turn_steps [OF ct False l2(5), of "ls_pending ls"] obtain rs where
        "steps (InTurn, {#}) (ls_run l2) (map AToolResult rs) (ls_run ls') (after_turn out, {#}) \<and>
         ls_new ls' = ls_new l2 @ map AToolResult rs \<and> keeps_context l2 ls' (map AToolResult rs) \<and>
         turn_answered (le_signal env \<noteq> None) \<lparr>tn_injected = ls_pending ls, tn_assistant = m, tn_results = rs\<rparr> \<and>
         \<not> ls_first_turn ls' \<and> (out = Return \<longrightarrow> ends_agent ls') \<and> (\<forall>e. out \<noteq> Fail e)" ..
      note rs = this
      from steps_trans [OF l2(1) conjunct1 [OF rs]]
      have "turn_result env ls ls' out \<lparr>tn_injected = ls_pending ls, tn_assistant = m, tn_results = rs\<rparr>"
        using rs l2 by (simp add: turn_result_def turn_messages_def)
      with rs show ?thesis by (cases out) auto
    qed
  qed
qed

section \<open>The loop\<close>

definition transcript :: "turn_record list \<Rightarrow> agent_message list" where
  "transcript turns = concat (map turn_messages turns)"

lemma transcript_simps [simp]:
  "transcript [] = []" "transcript (t # ts) = turn_messages t @ transcript ts"
  by (simp_all add: transcript_def)

text \<open>What the loop has done when it returned, when it failed and when it is still running.\<close>

definition loop_trace ::
  "('w, 'm, 'r) loop_env \<Rightarrow> ('w, 'm, 'r) loop_state \<Rightarrow> ('w, 'm, 'r) loop_state \<Rightarrow>
   (agent_error + unit) option \<Rightarrow> turn_record list \<Rightarrow> bool" where
  "loop_trace env ls ls' r turns \<longleftrightarrow>
     list_all (turn_answered (le_signal env \<noteq> None)) turns \<and>
     (case r of
        Some (Inl e) \<Rightarrow> \<exists>ph ms. ph \<noteq> Ended \<and>
          steps (loop_phase ls, {#}) (ls_run ls) (transcript turns @ ms) (ls_run ls') (ph, {#})
      | _ \<Rightarrow>
          steps (loop_phase ls, {#}) (ls_run ls) (transcript turns) (ls_run ls')
            (if r = None then loop_phase ls' else Ended, {#}) \<and>
          ls_new ls' = ls_new ls @ transcript turns \<and> keeps_context ls ls' (transcript turns) \<and>
          (r = None \<or> ends_agent ls'))"

lemma loop_trace_Cons:
  assumes "turn_result env ls ls1 (Continue flag) t" and "loop_trace env ls1 ls' r turns"
  shows "loop_trace env ls ls' r (t # turns)"
proof -
  have t: "turn_answered (le_signal env \<noteq> None) t" "ls_new ls1 = ls_new ls @ turn_messages t"
    "keeps_context ls ls1 (turn_messages t)"
    and st: "steps (loop_phase ls, {#}) (ls_run ls) (turn_messages t) (ls_run ls1) (loop_phase ls1, {#})"
    using assms(1) by (simp_all add: turn_result_def loop_phase_def)
  show ?thesis
  proof (cases "\<exists>e. r = Some (Inl e)")
    case True
    with assms(2) obtain ph ms where "ph \<noteq> Ended"
      "steps (loop_phase ls1, {#}) (ls_run ls1) (transcript turns @ ms) (ls_run ls') (ph, {#})"
      by (auto simp: loop_trace_def)
    with steps_trans [OF st] True t(1) assms(2) show ?thesis
      by (fastforce simp: loop_trace_def)
  next
    case False
    then have r: "(case r of Some (Inl e) \<Rightarrow> P e | _ \<Rightarrow> Q) = Q" for P Q
      by (auto split: option.splits sum.splits)
    from assms(2) have "steps (loop_phase ls1, {#}) (ls_run ls1) (transcript turns) (ls_run ls')
        (if r = None then loop_phase ls' else Ended, {#})"
      by (simp add: loop_trace_def r)
    from steps_trans [OF st this] t assms(2) show ?thesis by (simp add: loop_trace_def r)
  qed
qed

lemma loop_trace_polled:
  assumes "rn_events s = rn_events (ls_run ls)"
    and "loop_trace env (ls\<lparr>ls_run := s, ls_pending := p\<rparr>) ls' r turns"
  shows "loop_trace env ls ls' r turns"
proof -
  have "steps q s = steps q (ls_run ls)" for q
    using assms(1) by (intro ext) (simp add: steps_def)
  moreover have "loop_phase (ls\<lparr>ls_run := s, ls_pending := p\<rparr>) = loop_phase ls"
    by (simp add: loop_phase_def)
  ultimately show ?thesis
    using assms(2) by (auto simp: loop_trace_def split: option.splits sum.splits)
qed

lemma loop_trace_end:
  assumes "rn_events s = rn_events (ls_run ls)" and "\<not> ls_first_turn ls"
  shows "loop_trace env ls (end_agent env (ls\<lparr>ls_run := s\<rparr>)) (Some (Inr ())) []"
  using end_agent_steps [of "ls\<lparr>ls_run := s\<rparr>" env] assms
  by (simp add: loop_trace_def loop_phase_def steps_def)

lemma loop_trace_fail:
  assumes "steps (loop_phase ls, {#}) (ls_run ls) ms (ls_run ls') (ph, {#})" and "ph \<noteq> Ended"
  shows "loop_trace env ls ls' (Some (Inl e)) []"
  using assms by (auto simp: loop_trace_def)

lemma run_turns_trace:
  assumes "single_start env" and "run_turns env n flag ls = (ls', r)" and "flag \<or> \<not> ls_first_turn ls"
  shows "\<exists>turns. loop_trace env ls ls' r turns"
  using assms(2,3)
proof (induction n arbitrary: flag ls)
  case 0
  then show ?case by (auto simp: loop_trace_def steps_refl intro!: exI [of _ "[]"])
next
  case (Suc n)
  show ?case
  proof (cases "flag \<or> ls_pending ls \<noteq> []")
    case True
    obtain ls1 out where turn: "run_turn env ls = (ls1, out)" by fastforce
    note st = run_turn_steps [OF assms(1) turn]
    show ?thesis
    proof (cases out)
      case (Continue again)
      with st obtain t where t: "turn_result env ls ls1 (Continue again) t" by auto
      from Suc.IH [of again ls1] Suc.prems True turn Continue t
      obtain turns where "loop_trace env ls1 ls' r turns" by (auto simp: turn_result_def)
      from loop_trace_Cons [OF t this] show ?thesis ..
    next
      case Return
      with st obtain t where "turn_result env ls ls1 Return t" by auto
      then have "loop_trace env ls ls' r [t]"
        using Suc.prems True turn Return by (auto simp: turn_result_def loop_trace_def)
      then show ?thesis ..
    next
      case (Fail e)
      with st Suc.prems True turn loop_trace_fail show ?thesis by fastforce
    qed
  next
    case False
    obtain s follow_ups where poll:
      "poll_source (cf_get_follow_up_messages (ls_config ls)) (ls_run ls) = (s, follow_ups)" by fastforce
    note ev = poll_source_events [OF poll]
    show ?thesis
      using Suc.prems False poll Suc.IH [of True "ls\<lparr>ls_run := s, ls_pending := follow_ups\<rparr>"]
        loop_trace_end [OF ev] loop_trace_polled [OF ev]
      by (cases "follow_ups = []") (auto, blast+)
  qed
qed

lemma run_loop_trace:
  assumes "single_start env" and "run_loop env n config ctx new s = (ls', r)"
  shows "\<exists>turns ls. loop_trace env ls ls' r turns \<and> ls_new ls = new \<and> ls_context ls = ctx \<and>
    ls_config ls = config \<and> loop_phase ls = InTurn \<and> rn_events (ls_run ls) = rn_events s"
proof -
  obtain s1 pending where poll: "poll_source (cf_get_steering_messages config) s = (s1, pending)"
    by fastforce
  let ?ls = "\<lparr>ls_context = ctx, ls_config = config, ls_first_turn = True, ls_pending = pending,
    ls_new = new, ls_run = s1\<rparr>"
  have "run_turns env n True ?ls = (ls', r)" using assms(2) poll by (simp add: run_loop_def)
  from run_turns_trace [OF assms(1) this] poll_source_events [OF poll] show ?thesis
    by (auto simp: loop_phase_def intro!: exI [of _ ?ls])
qed

lemma steps_prompts:
  "steps (InTurn, {#}) s ps (fold (\<lambda>p s. emit env (MessageEnd p) (emit env (MessageStart p) s)) ps s) (InTurn, {#})"
proof (induction ps arbitrary: s)
  case (Cons p ps)
  from steps_trans [OF steps_message Cons.IH] show ?case by simp
qed (simp add: steps_refl)

text \<open>The run of the loop from its first event, with the turns it consists of.\<close>

lemma run_agent_loop_trace:
  assumes "single_start env" and "run_agent_loop env n prompts config ctx w = (s, r)"
  shows "\<exists>turns. list_all (turn_answered (le_signal env \<noteq> None)) turns \<and>
    (case r of
       Some (Inr ms) \<Rightarrow>
         follows (Outside, {#}) (rn_events s) = Some (Ended, {#}) \<and> ms = prompts @ transcript turns \<and>
         message_ends (rn_events s) = ms \<and> (\<exists>evs. rn_events s = evs @ [AgentEnd ms])
     | Some (Inl e) \<Rightarrow>
         \<exists>ph ms. follows (Outside, {#}) (rn_events s) = Some (ph, {#}) \<and> ph \<noteq> Ended \<and>
           message_ends (rn_events s) = prompts @ transcript turns @ ms
     | None \<Rightarrow>
         \<exists>ph. follows (Outside, {#}) (rn_events s) = Some (ph, {#}) \<and> ph \<noteq> Ended \<and>
           message_ends (rn_events s) = prompts @ transcript turns)"
proof -
  define s0 where "s0 = fold (\<lambda>p s. emit env (MessageEnd p) (emit env (MessageStart p) s)) prompts
    (emit env TurnStart (emit env AgentStart \<lparr>rn_world = w, rn_events = []\<rparr>))"
  let ?start = "\<lparr>rn_world = w, rn_events = []\<rparr>"
  have "steps (Outside, {#}) ?start [] (emit env TurnStart (emit env AgentStart ?start)) (InTurn, {#})"
    by (simp add: steps_def emit_def)
  from steps_trans [OF this steps_prompts] have st0: "steps (Outside, {#}) ?start prompts s0 (InTurn, {#})"
    by (simp add: s0_def)
  obtain ls' x where run: "run_loop env n config (ctx\<lparr>ac_messages := ac_messages ctx @ prompts\<rparr>) prompts s0 = (ls', x)"
    by fastforce
  have sr: "s = ls_run ls'" "r = map_option (\<lambda>x. case x of Inl e \<Rightarrow> Inl e | Inr _ \<Rightarrow> Inr (ls_new ls')) x"
    using assms(2) by (simp_all add: run_agent_loop_def s0_def [symmetric] run loop_result_def)
  from run_loop_trace [OF assms(1) run] obtain turns ls where
    tr: "loop_trace env ls ls' x turns" and ls: "ls_new ls = prompts" "loop_phase ls = InTurn"
    "rn_events (ls_run ls) = rn_events s0"
    by (elim exE conjE) (rule that)
  have whole: "steps (InTurn, {#}) (ls_run ls) ms (ls_run ls') q \<Longrightarrow>
      follows (Outside, {#}) (rn_events s) = Some q \<and> message_ends (rn_events s) = prompts @ ms" for ms q
    using steps_trans [OF st0 steps_cong [OF ls(3)], of ms "ls_run ls'" q] by (simp add: steps_def sr(1))
  have answered: "list_all (turn_answered (le_signal env \<noteq> None)) turns"
    using tr by (simp add: loop_trace_def)
  show ?thesis
  proof (cases x)
    case None
    have "loop_phase ls' \<noteq> Ended" by (simp add: loop_phase_def)
    with answered tr whole [of "transcript turns" "(loop_phase ls', {#})"] show ?thesis
      by (intro exI [of _ turns] conjI) (simp_all add: loop_trace_def None ls sr(2))
  next
    case (Some y)
    show ?thesis
    proof (cases y)
      case (Inl e)
      with tr Some obtain ph ms where "ph \<noteq> Ended"
        "steps (InTurn, {#}) (ls_run ls) (transcript turns @ ms) (ls_run ls') (ph, {#})"
        by (auto simp: loop_trace_def ls)
      with answered whole [OF this(2)] show ?thesis
        by (intro exI [of _ turns] conjI) (auto simp: Some Inl sr(2))
    next
      case (Inr u)
      with answered tr Some whole [of "transcript turns" "(Ended, {#})"] show ?thesis
        by (intro exI [of _ turns] conjI) (auto simp: loop_trace_def ls ends_agent_def sr)
    qed
  qed
qed

end
