(* ===== verification/Agent_Run.thy ===== *)
theory Agent_Run
  imports Agent_Protocol
begin

text \<open>
  The properties of the agent loop: its events follow the protocol, its result is the transcript
  the listeners saw, every tool call is answered in source order, calls of a truncated response are
  never run, the context it sends is the transcript, and it returns when its providers and queues
  run dry.
\<close>

section \<open>A concrete run\<close>

text \<open>
  A provider that asks for two tool calls and then stops; the world counts its requests and the
  tool executions.
\<close>

definition demo_reply :: "nat \<Rightarrow> assistant_message" where
  "demo_reply n =
     (assistant_message_pending 0 ''api'' ''p'' ''m'')
       \<lparr>am_stop_reason := if n = 0 then SRToolUse else SRStop,
        am_content := if n = 0 then map ACToolCall [tool_call_new ''a'' ''echo'', tool_call_new ''b'' ''echo'']
          else []\<rparr>"

definition demo_tool :: "(nat \<times> nat) agent_tool" where
  "demo_tool =
     \<lparr>tool_name = ''echo'', tool_description = [], tool_parameters = JNull, tool_execution_mode = None,
      tool_prepare_arguments = (\<lambda>a. a),
      tool_execute = (\<lambda>_ _ _ (k, n). ((k, n + 1), [tool_result_default], Inr tool_result_default))\<rparr>"

definition demo_env :: "(nat \<times> nat, unit, unit) loop_env" where
  "demo_env =
     \<lparr>le_sink = (\<lambda>_ w. w), le_now_ms = (\<lambda>_. 0), le_provider = (\<lambda>_. ''p''),
      le_stream = (\<lambda>_ _ _ (k, n).
        ((k + 1, n), Inr [AMStart (demo_reply k), AMDone DRStop (demo_reply k)])),
      le_validate = (\<lambda>_ c. Inr (call_arguments c)), le_pick = (\<lambda>_ k. k - 1), le_signal = None\<rparr>"

definition demo_config :: "(nat \<times> nat, unit, unit) agent_loop_config" where
  "demo_config =
     agent_loop_config_new () \<lparr>so_reasoning = None, so_api_key = None, so_signal = None, so_rest = ()\<rparr>"

definition demo_context :: "(nat \<times> nat) agent_context" where
  "demo_context = \<lparr>ac_system_prompt = [], ac_messages = [], ac_tools = [demo_tool], ac_env = 0\<rparr>"

definition demo_prompt :: agent_message where
  "demo_prompt = AUser \<lparr>um_content = UCText ''hi'', um_timestamp = 0\<rparr>"

definition demo_run :: "(nat \<times> nat) run \<times> (agent_error + agent_message list) option" where
  "demo_run = run_agent_loop demo_env 3 [demo_prompt] demo_config demo_context (0, 0)"

lemma demo_single_start: "single_start demo_env"
  by (auto simp: single_start_def demo_env_def starts_once_def split: prod.splits)

lemma demo_env_simps [simp]:
  "le_sink demo_env ev w = w" "le_now_ms demo_env w = 0" "le_signal demo_env = None"
  "le_stream demo_env m c opts (k, n) =
     ((k + 1, n), Inr [AMStart (demo_reply k), AMDone DRStop (demo_reply k)])"
  "le_validate demo_env d tc = Inr (call_arguments tc)" "le_pick demo_env w i = i - 1"
  by (simp_all add: demo_env_def)

lemma demo_config_simps [simp]:
  "cf_tool_execution demo_config = Parallel" "cf_convert_to_llm demo_config = default_convert"
  "cf_transform_context demo_config = None" "cf_get_api_key demo_config = None"
  "cf_before_tool_call demo_config = None" "cf_after_tool_call demo_config = None"
  "cf_should_stop_after_turn demo_config = None" "cf_prepare_next_turn demo_config = None"
  "cf_get_steering_messages demo_config = None" "cf_get_follow_up_messages demo_config = None"
  by (simp_all add: demo_config_def agent_loop_config_new_def)

lemma demo_tool_simps [simp]:
  "tool_name demo_tool = ''echo''" "tool_execution_mode demo_tool = None"
  "tool_prepare_arguments demo_tool a = a"
  "tool_execute demo_tool a c sg (k, n) = ((k, n + 1), [tool_result_default], Inr tool_result_default)"
  by (simp_all add: demo_tool_def)

lemma demo_reply_simps [simp]:
  "tool_calls (demo_reply 0) = [tool_call_new ''a'' ''echo'', tool_call_new ''b'' ''echo'']"
  "tool_calls (demo_reply (Suc n)) = []"
  "am_stop_reason (demo_reply 0) = SRToolUse" "am_stop_reason (demo_reply (Suc n)) = SRStop"
  by (simp_all add: demo_reply_def tool_calls_def map_filter_simps)

lemma call_new_simps [simp]:
  "call_id (tool_call_new i name) = i" "call_name (tool_call_new i name) = name"
  "call_arguments (tool_call_new i name) = []"
  by (simp_all add: tool_call_new_def)

lemma join_all_step:
  "unfinished tasks \<noteq> [] \<Longrightarrow>
     join_all env config ctx am tasks s =
       join_all env config ctx am
         (tasks[next_task env tasks s := snd (task_step env config ctx am (tasks ! next_task env tasks s) s)])
         (fst (task_step env config ctx am (tasks ! next_task env tasks s) s))"
  by (subst join_all.simps) (simp add: split_beta)

lemma join_all_done: "unfinished tasks = [] \<Longrightarrow> join_all env config ctx am tasks s = (s, map task_result tasks)"
  by (simp add: join_all.simps)

definition demo_result :: "string \<Rightarrow> tool_result_message" where
  "demo_result i = tool_result_text 0 i ''echo'' [] False\<lparr>tr_content := []\<rparr>"

text \<open>The calls finish in the opposite order, their messages come in source order.\<close>

definition demo_batch_events :: "agent_event list" where
  "demo_batch_events =
     [ToolExecutionStart ''a'' ''echo'' (JObject []), ToolExecutionStart ''b'' ''echo'' (JObject []),
      ToolExecutionUpdate ''b'' ''echo'' (JObject []) tool_result_default,
      ToolExecutionEnd ''b'' ''echo'' tool_result_default False,
      ToolExecutionUpdate ''a'' ''echo'' (JObject []) tool_result_default,
      ToolExecutionEnd ''a'' ''echo'' tool_result_default False,
      MessageStart (AToolResult (demo_result ''a'')), MessageEnd (AToolResult (demo_result ''a'')),
      MessageStart (AToolResult (demo_result ''b'')), MessageEnd (AToolResult (demo_result ''b''))]"

lemma demo_echo_batch:
  assumes "ac_tools ctx = [demo_tool]"
  shows "execute_tool_calls demo_env demo_config ctx m
      [tool_call_new ''a'' ''echo'', tool_call_new ''b'' ''echo''] \<lparr>rn_world = (k, n), rn_events = evs\<rparr> =
    (\<lparr>rn_world = (k, n + 2), rn_events = evs @ demo_batch_events\<rparr>,
     \<lparr>ba_messages = [demo_result ''a'', demo_result ''b''], ba_terminate = False\<rparr>)"
proof -
  let ?ev = "[ToolExecutionStart ''a'' ''echo'' (JObject []), ToolExecutionStart ''b'' ''echo'' (JObject [])]"
  have "prepare_entries demo_env demo_config ctx m [tool_call_new ''a'' ''echo'', tool_call_new ''b'' ''echo'']
      \<lparr>rn_world = (k, n), rn_events = evs\<rparr> =
    (\<lparr>rn_world = (k, n), rn_events = evs @ ?ev\<rparr>,
     [TaskExecute (tool_call_new ''a'' ''echo'') demo_tool (JObject []),
      TaskExecute (tool_call_new ''b'' ''echo'') demo_tool (JObject [])])"
    using assms
    by (simp add: prepare_entries_Cons prepare_entry_def find_tool_def emit_def
        emit_tool_execution_start_def prepare_tool_call_def run_before_tool_call_def aborted_def Let_def)
  moreover have "cf_tool_execution demo_config \<noteq> Sequential"
    "\<not> has_sequential ctx [tool_call_new ''a'' ''echo'', tool_call_new ''b'' ''echo'']"
    using assms by (simp_all add: has_sequential_def find_tool_def)
  ultimately show ?thesis
    by (simp add: execute_tool_calls_def execute_tool_calls_parallel_def join_all_step join_all_done
        next_task_def unfinished_def Let_def run_tool_def call_world_def finalize_executed_tool_call_def
        emit_update_def emit_tool_execution_end_def emit_def emit_tool_result_message_def
        create_tool_result_message_def demo_result_def tool_result_text_def tool_result_default_def
        should_terminate_tool_batch_def demo_batch_events_def)
qed

lemma demo_run_eval:
  "snd demo_run = Some (Inr [demo_prompt, AAssistant (demo_reply 0), AToolResult (demo_result ''a''),
      AToolResult (demo_result ''b''), AAssistant (demo_reply 1)])"
  "rn_world (fst demo_run) = (2, 2)"
  by (simp_all add: demo_run_def run_agent_loop_def run_loop_def poll_source_def loop_result_def
      eval_nat_numeral run_turn_def begin_turn_def inject_pending_def stream_assistant_response_def
      call_world_def default_convert_def finish_assistant_message_def complete_turn_def
      run_tool_calls_def demo_echo_batch demo_context_def emit_def ls_emit_def push_message_def
      run_prepare_hook_def run_stop_hook_def end_agent_def Let_def)

section \<open>Events and transcript\<close>

text \<open>
  C10. At every moment of a run the events emitted so far follow the protocol: the run starts once,
  turns do not overlap, a message starts and ends inside a turn while no tool runs, every update
  and end of a tool execution belongs to a started one, and a turn ends only when no execution is
  open, whatever the tools, hooks, listeners and the scheduler do. The protocol is at its end
  exactly when the loop has returned its messages; these are then the messages whose end was
  announced, in this order, and the last event carries them.
\<close>

theorem agent_events_protocol:
  assumes "single_start env" and "run_agent_loop env n prompts config ctx w = (s, r)"
  shows "\<exists>ph. follows (Outside, {#}) (rn_events s) = Some (ph, {#}) \<and>
    (ph = Ended \<longleftrightarrow> (\<exists>ms. r = Some (Inr ms))) \<and>
    (\<forall>ms. r = Some (Inr ms) \<longrightarrow>
       message_ends (rn_events s) = ms \<and> (\<exists>evs. rn_events s = evs @ [AgentEnd ms]))"
proof -
  obtain turns where trace: "case r of
       Some (Inr ms) \<Rightarrow>
         follows (Outside, {#}) (rn_events s) = Some (Ended, {#}) \<and> ms = prompts @ transcript turns \<and>
         message_ends (rn_events s) = ms \<and> (\<exists>evs. rn_events s = evs @ [AgentEnd ms])
     | Some (Inl e) \<Rightarrow>
         \<exists>ph ms. follows (Outside, {#}) (rn_events s) = Some (ph, {#}) \<and> ph \<noteq> Ended \<and>
           message_ends (rn_events s) = prompts @ transcript turns @ ms
     | None \<Rightarrow>
         \<exists>ph. follows (Outside, {#}) (rn_events s) = Some (ph, {#}) \<and> ph \<noteq> Ended \<and>
           message_ends (rn_events s) = prompts @ transcript turns"
    using run_agent_loop_trace [OF assms] by blast
  show ?thesis
  proof (cases "\<exists>ms. r = Some (Inr ms)")
    case True
    with trace show ?thesis by auto
  next
    case False
    with trace have "\<exists>ph. follows (Outside, {#}) (rn_events s) = Some (ph, {#}) \<and> ph \<noteq> Ended"
      by (auto split: option.splits sum.splits)
    with False show ?thesis by blast
  qed
qed

theorem agent_events_protocol_witness:
  "follows (Outside, {#}) (rn_events (fst demo_run)) = Some (Ended, {#}) \<and>
   length (message_ends (rn_events (fst demo_run))) = 5"
proof -
  have run: "run_agent_loop demo_env 3 [demo_prompt] demo_config demo_context (0, 0) =
      (fst demo_run, snd demo_run)"
    by (simp add: demo_run_def)
  show ?thesis using agent_events_protocol [OF demo_single_start run] demo_run_eval(1) by auto
qed

text \<open>
  C11. The messages a run returns are its prompts followed by complete turns: the messages injected
  before the request, one assistant message and the results of its tool calls, in source order. A
  turn that failed or was aborted has no results; a call is left unanswered only when the run can be
  aborted, and at least one call of a batch is answered even then; the calls of a truncated
  response are all answered, by errors.
\<close>

theorem agent_transcript_answered:
  assumes "single_start env" and "run_agent_loop env n prompts config ctx w = (s, Some (Inr ms))"
  shows "\<exists>turns. ms = prompts @ transcript turns \<and> list_all (turn_answered (le_signal env \<noteq> None)) turns"
  using run_agent_loop_trace [OF assms] by auto

theorem agent_transcript_answered_witness:
  "\<exists>turns. [demo_prompt, AAssistant (demo_reply 0), AToolResult (demo_result ''a''),
      AToolResult (demo_result ''b''), AAssistant (demo_reply 1)] = [demo_prompt] @ transcript turns \<and>
     list_all (turn_answered False) turns"
proof -
  have "run_agent_loop demo_env 3 [demo_prompt] demo_config demo_context (0, 0) =
      (fst demo_run, Some (Inr [demo_prompt, AAssistant (demo_reply 0), AToolResult (demo_result ''a''),
         AToolResult (demo_result ''b''), AAssistant (demo_reply 1)]))"
    using demo_run_eval(1) by (metis demo_run_def prod.collapse)
  from agent_transcript_answered [OF demo_single_start this] show ?thesis by simp
qed

section \<open>What the batches announce\<close>

text \<open>The executions that have ended: the call, the result and the error flag.\<close>

fun execution_ended :: "agent_event \<Rightarrow> (string \<times> tool_result \<times> bool) option" where
  "execution_ended (ToolExecutionEnd i _ r e) = Some (i, r, e)"
| "execution_ended _ = None"

definition tool_ends :: "agent_event list \<Rightarrow> (string \<times> tool_result \<times> bool) multiset" where
  "tool_ends evs = mset (List.map_filter execution_ended evs)"

lemma tool_ends_simps [simp]:
  "tool_ends [] = {#}" "tool_ends (xs @ ys) = tool_ends xs + tool_ends ys"
  "tool_ends (ev # evs) = (case execution_ended ev of Some x \<Rightarrow> {#x#} | None \<Rightarrow> {#}) + tool_ends evs"
  by (simp_all add: tool_ends_def map_filter_append map_filter_Cons split: option.splits)

definition end_of :: "finalized_tool_call \<Rightarrow> string \<times> tool_result \<times> bool" where
  "end_of f = (call_id (fin_tool_call f), fin_result f, fin_is_error f)"

abbreviation ended :: "'w run \<Rightarrow> (string \<times> tool_result \<times> bool) multiset" where
  "ended s \<equiv> tool_ends (rn_events s)"

lemma ended_emit [simp]:
  "ended (emit env ev s) = ended s + (case execution_ended ev of Some x \<Rightarrow> {#x#} | None \<Rightarrow> {#})"
  by (simp add: emit_def)

lemma ended_ops [simp]:
  "ended (emit_tool_execution_start env c s) = ended s"
  "ended (emit_tool_execution_end env f s) = ended s + {#end_of f#}"
  "ended (emit_tool_result_message env m s) = ended s"
  "ended (emit_update env c u s) = ended s"
  by (simp_all add: emit_tool_execution_start_def emit_tool_execution_end_def emit_update_def
      emit_tool_result_message_def end_of_def)

lemma ended_updates [simp]: "ended (fold (emit_update env c) us s) = ended s"
  by (induction us arbitrary: s) simp_all

lemma ended_sequential_call: "sequential_call env config ctx am c s = (s', f) \<Longrightarrow> ended s' = ended s"
proof -
  assume call: "sequential_call env config ctx am c s = (s', f)"
  obtain s1 prep where p: "prepare_tool_call env config ctx am c (emit_tool_execution_start env c s) = (s1, prep)"
    by fastforce
  have "ended s1 = ended s"
    using prepare_tool_call_events [of env config ctx am c "emit_tool_execution_start env c s"] p by simp
  with call show ?thesis
    by (cases prep)
      (auto simp: sequential_call_def p execute_prepared_tool_call_def Let_def split: prod.splits
        dest!: run_tool_eventsD finalize_eventsD(1))
qed

lemma ended_sequential:
  "sequential_calls env config ctx am cs s = (s', fs, ms) \<Longrightarrow> ended s' = ended s + mset (map end_of fs)"
proof (induction cs arbitrary: s fs ms)
  case (Cons c cs)
  obtain s1 f where c: "sequential_call env config ctx am c s = (s1, f)" by fastforce
  from ended_sequential_call [OF c] Cons.prems Cons.IH show ?case
    by (fastforce simp: sequential_calls_Cons c Let_def split: if_splits prod.splits)
qed simp

lemma ended_result_messages: "result_messages env fs s = (s', ms) \<Longrightarrow> ended s' = ended s"
proof (induction fs arbitrary: s ms)
  case (Cons f fs)
  then show ?case by (fastforce simp: Let_def split: prod.splits)
qed simp

text \<open>The results of the tasks of a batch that have finished.\<close>

definition task_ended :: "'w task \<Rightarrow> (string \<times> tool_result \<times> bool) multiset" where
  "task_ended t = (if task_finished t then {#end_of (task_result t)#} else {#})"

lemma ended_prepare_entry:
  "prepare_entry env config ctx am c s = (s', t) \<Longrightarrow> ended s' = ended s + task_ended t"
proof -
  assume entry: "prepare_entry env config ctx am c s = (s', t)"
  obtain s1 prep where p: "prepare_tool_call env config ctx am c (emit_tool_execution_start env c s) = (s1, prep)"
    by fastforce
  have "ended s1 = ended s"
    using prepare_tool_call_events [of env config ctx am c "emit_tool_execution_start env c s"] p by simp
  with entry show ?thesis by (cases prep) (auto simp: prepare_entry_def p task_ended_def)
qed

lemma ended_prepare:
  "prepare_entries env config ctx am cs s = (s', ts) \<Longrightarrow> ended s' = ended s + (\<Sum>t\<leftarrow>ts. task_ended t)"
proof (induction cs arbitrary: s ts)
  case (Cons c cs)
  obtain s1 t where e: "prepare_entry env config ctx am c s = (s1, t)" by fastforce
  from ended_prepare_entry [OF e] Cons.prems Cons.IH show ?case
    by (fastforce simp: prepare_entries_Cons e Let_def split: if_splits prod.splits)
qed simp

lemma ended_task_step:
  assumes "\<not> task_finished t" and "task_step env config ctx am t s = (s', t')"
  shows "ended s' = ended s + task_ended t'"
  using assms
  by (cases "(env, config, ctx, am, t, s)" rule: task_step.cases)
    (auto simp: task_ended_def Let_def split: prod.splits dest!: run_tool_eventsD finalize_eventsD(1))

lemma ended_join:
  "join_all env config ctx am tasks s = (s', fs) \<Longrightarrow>
     ended s' + (\<Sum>t\<leftarrow>tasks. task_ended t) = ended s + mset (map end_of fs)"
proof (induction env config ctx am tasks s rule: join_all.induct)
  case (1 env config ctx am tasks s)
  show ?case
  proof (cases "unfinished tasks = []")
    case True
    then have "list_all task_finished tasks" by (simp add: unfinished_Nil)
    then have "(\<Sum>t\<leftarrow>tasks. task_ended t) = mset (map end_of (map task_result tasks))"
      by (induction tasks) (simp_all add: task_ended_def)
    with 1(2) True show ?thesis by (simp add: join_all_done)
  next
    case False
    let ?j = "next_task env tasks s"
    obtain s1 t where st: "task_step env config ctx am (tasks ! ?j) s = (s1, t)" by fastforce
    note j = next_task_unfinished [OF False, of env s]
    have "join_all env config ctx am (tasks[?j := t]) s1 = (s', fs)"
      using 1(2) False st by (simp add: join_all_step)
    note IH = 1(1) [OF False st [symmetric] this]
    obtain rest where "(\<Sum>t\<leftarrow>tasks. task_ended t) = task_ended (tasks ! ?j) + rest"
      "(\<Sum>t\<leftarrow>tasks[?j := t]. task_ended t) = task_ended t + rest"
      using sum_list_map_update [OF j(1), of task_ended t] by blast
    with IH ended_task_step [OF j(2) st] j(2) show ?thesis
      by (simp add: task_ended_def [of "tasks ! ?j"] ac_simps)
  qed
qed

lemma map_pair_eq:
  "\<lbrakk>map a xs = map c ys; map b xs = map d ys\<rbrakk> \<Longrightarrow> map (\<lambda>x. (a x, b x)) xs = map (\<lambda>y. (c y, d y)) ys"
proof (induction xs arbitrary: ys)
  case (Cons x xs)
  then show ?case by (cases ys) auto
qed simp

lemma execute_tool_calls_ended:
  assumes "execute_tool_calls env config ctx am calls s = (s', batch)"
  shows "\<exists>fs. ended s' = ended s + mset (map end_of fs) \<and>
    map (\<lambda>f. (call_id (fin_tool_call f), fin_is_error f)) fs =
      map (\<lambda>m. (tr_tool_call_id m, tr_is_error m)) (ba_messages batch) \<and>
    ba_terminate batch = should_terminate_tool_batch fs"
proof (cases "cf_tool_execution config = Sequential \<or> has_sequential ctx calls")
  case True
  obtain fs where seq: "sequential_calls env config ctx am calls s = (s', fs, ba_messages batch)"
    "ba_terminate batch = should_terminate_tool_batch fs"
    using assms True
    by (auto simp: execute_tool_calls_def execute_tool_calls_sequential_def split: prod.splits)
  from conjunct2 [OF sequential_calls_steps [OF seq(1)]] obtain k where k:
    "map fin_tool_call fs = take k calls" "map tr_tool_call_id (ba_messages batch) = map call_id (take k calls)"
    "map tr_is_error (ba_messages batch) = map fin_is_error fs" by (elim exE conjE) (rule that)
  have "map (\<lambda>f. call_id (fin_tool_call f)) fs = map tr_tool_call_id (ba_messages batch)"
    using arg_cong [OF k(1), of "map call_id"] k(2) by (simp add: comp_def)
  from map_pair_eq [OF this k(3) [symmetric]] ended_sequential [OF seq(1)] seq(2) show ?thesis by blast
next
  case False
  obtain s1 ts where prep: "prepare_entries env config ctx am calls s = (s1, ts)" by fastforce
  obtain s2 fs where join: "join_all env config ctx am ts s1 = (s2, fs)" by fastforce
  have res: "result_messages env fs s2 = (s', ba_messages batch)"
    "ba_terminate batch = should_terminate_tool_batch fs"
    using assms False
    by (auto simp: execute_tool_calls_def execute_tool_calls_parallel_def prep join split: prod.splits)
  from ended_prepare [OF prep] ended_join [OF join] ended_result_messages [OF res(1)]
  have "ended s' = ended s + mset (map end_of fs)" by simp
  moreover have "map (\<lambda>f. (call_id (fin_tool_call f), fin_is_error f)) fs =
      map (\<lambda>m. (tr_tool_call_id m, tr_is_error m)) (ba_messages batch)"
    using result_messages_steps [OF res(1)] by (intro map_pair_eq) simp_all
  ultimately show ?thesis using res(2) by blast
qed

text \<open>
  C24. Whatever mode a batch runs in, and however the scheduler interleaves its tasks, its result
  messages answer the calls in the order of the response; the executions it announces as ended are,
  in some order, those of its messages, with the same error flags; the events follow the protocol;
  and the batch asks to terminate exactly when it has a result and every result that was announced
  asks for it.
\<close>

theorem tool_batch_ordered:
  assumes "execute_tool_calls env config ctx am calls s = (s', batch)"
  shows "answers (le_signal env \<noteq> None) calls (ba_messages batch) \<and>
    (\<exists>evs. rn_events s' = rn_events s @ evs \<and> follows (InTurn, {#}) evs = Some (InTurn, {#}) \<and>
       message_ends evs = map AToolResult (ba_messages batch) \<and>
       image_mset (\<lambda>(i, r, e). (i, e)) (tool_ends evs) =
         mset (map (\<lambda>m. (tr_tool_call_id m, tr_is_error m)) (ba_messages batch)) \<and>
       (ba_terminate batch \<longleftrightarrow>
          ba_messages batch \<noteq> [] \<and> (\<forall>(i, r, e) \<in># tool_ends evs. res_terminate r = Some True)))"
proof -
  from execute_tool_calls_steps [OF assms] obtain evs where
    ans: "answers (le_signal env \<noteq> None) calls (ba_messages batch)" and
    evs: "rn_events s' = rn_events s @ evs" "follows (InTurn, {#}) evs = Some (InTurn, {#})"
      "message_ends evs = map AToolResult (ba_messages batch)"
    unfolding steps_def by blast
  from execute_tool_calls_ended [OF assms] evs(1) obtain fs where
    ends: "tool_ends evs = mset (map end_of fs)" and
    fs: "map (\<lambda>f. (call_id (fin_tool_call f), fin_is_error f)) fs =
      map (\<lambda>m. (tr_tool_call_id m, tr_is_error m)) (ba_messages batch)" and
    stops: "ba_terminate batch = should_terminate_tool_batch fs"
    by auto
  have "image_mset (\<lambda>(i, r, e). (i, e)) (tool_ends evs) =
      mset (map (\<lambda>f. (call_id (fin_tool_call f), fin_is_error f)) fs)"
    unfolding ends by (induction fs) (simp_all add: end_of_def)
  moreover have "fs = [] \<longleftrightarrow> ba_messages batch = []" using arg_cong [OF fs, of length] by auto
  ultimately show ?thesis
    using ans evs by (auto simp: fs stops should_terminate_tool_batch_def list_all_iff ends end_of_def)
qed

theorem tool_batch_ordered_witness:
  "answers False [tool_call_new ''a'' ''echo'', tool_call_new ''b'' ''echo'']
     [demo_result ''a'', demo_result ''b''] \<and>
   follows (InTurn, {#}) demo_batch_events = Some (InTurn, {#})"
proof -
  have "ac_tools demo_context = [demo_tool]" by (simp add: demo_context_def)
  from tool_batch_ordered [OF demo_echo_batch [OF this, of "demo_reply 0" 0 0 "[]"]]
  show ?thesis by auto
qed

section \<open>Truncated responses\<close>

lemma emit_world: "rn_world (emit env ev s) = le_sink env ev (rn_world s)"
  by (simp add: emit_def)

lemma fail_truncated_world:
  "fail_truncated_calls env cs s = (s', ms) \<Longrightarrow>
     \<exists>evs. rn_events s' = rn_events s @ evs \<and> rn_world s' = fold (le_sink env) evs (rn_world s) \<and>
       (\<forall>(i, r, e) \<in># tool_ends evs. e)"
proof (induction cs arbitrary: s ms)
  case (Cons c cs)
  let ?f = "\<lparr>fin_tool_call = c, fin_result = error_tool_result (truncated_message (call_name c)), fin_is_error = True\<rparr>"
  let ?s = "emit_tool_execution_end env ?f (emit_tool_execution_start env c s)"
  let ?m = "create_tool_result_message env ?f ?s"
  obtain ms' where "fail_truncated_calls env cs (emit_tool_result_message env ?m ?s) = (s', ms')"
    using Cons.prems by (auto simp: Let_def split: prod.splits)
  from Cons.IH [OF this] show ?case
    by (auto simp: emit_def emit_tool_execution_start_def emit_tool_execution_end_def
        emit_tool_result_message_def)
qed simp

text \<open>
  C25. The tool calls of a response that hit the output limit are never run: while they are
  answered the world changes only through the listeners of the announced events, so no tool, hook,
  validation or argument shim was called. Each call gets exactly one result, an error, in order, and
  another request follows.
\<close>

theorem truncated_calls_not_run:
  assumes "am_stop_reason message = SRLength" and "run_tool_calls env message ls = (ls', results, again)"
  shows "(\<exists>evs. rn_events (ls_run ls') = rn_events (ls_run ls) @ evs \<and>
       rn_world (ls_run ls') = fold (le_sink env) evs (rn_world (ls_run ls)) \<and>
       (\<forall>(i, r, e) \<in># tool_ends evs. e)) \<and>
    map tr_tool_call_id results = map call_id (tool_calls message) \<and> list_all tr_is_error results \<and>
    (again \<longleftrightarrow> tool_calls message \<noteq> [])"
proof (cases "tool_calls message = []")
  case True
  with assms show ?thesis by (auto simp: run_tool_calls_def)
next
  case False
  obtain s1 where t: "fail_truncated_calls env (tool_calls message) (ls_run ls) = (s1, results)"
    "ls_run ls' = s1" "again"
    using assms False
    by (auto simp: run_tool_calls_def fail_tool_calls_from_truncated_message_def push_fold Let_def
        split: prod.splits)
  with fail_truncated_world [OF t(1)] fail_truncated_calls_steps [OF t(1)] False show ?thesis by auto
qed

theorem truncated_calls_not_run_witness:
  "let ls = \<lparr>ls_context = demo_context, ls_config = demo_config, ls_first_turn = False, ls_pending = [],
        ls_new = [], ls_run = \<lparr>rn_world = (0, 0), rn_events = []\<rparr>\<rparr>;
       r = run_tool_calls demo_env (demo_reply 0\<lparr>am_stop_reason := SRLength\<rparr>) ls
   in rn_world (ls_run (fst r)) = (0, 0) \<and> map tr_tool_call_id (fst (snd r)) = [''a'', ''b'']"
proof -
  let ?ls = "\<lparr>ls_context = demo_context, ls_config = demo_config, ls_first_turn = False, ls_pending = [],
    ls_new = [], ls_run = \<lparr>rn_world = (0, 0), rn_events = []\<rparr>\<rparr>"
  let ?m = "demo_reply 0\<lparr>am_stop_reason := SRLength\<rparr>"
  have id: "fold (le_sink demo_env) evs w = w" for evs w by (induction evs) simp_all
  have calls: "map call_id (tool_calls ?m) = [''a'', ''b'']"
    by (simp add: demo_reply_def tool_calls_def map_filter_simps)
  obtain ls' results again where run: "run_tool_calls demo_env ?m ?ls = (ls', results, again)"
    by (metis prod_cases3)
  from truncated_calls_not_run [OF _ run] show ?thesis by (auto simp: run id calls Let_def)
qed

section \<open>The context of a request\<close>

text \<open>
  C26. As long as no hook replaces the context, what the next request is built from is the context
  the run started with followed by exactly the messages of the run: streamed partial messages never
  stay behind, and every tool result is there before the next request. This holds whenever the loop
  is between two turns and when it has returned.
\<close>

theorem agent_context_is_transcript:
  assumes "single_start env" and "cf_prepare_next_turn config = None"
    and "run_loop env n config (ctx\<lparr>ac_messages := ac_messages ctx @ prompts\<rparr>) prompts s = (ls, r)"
    and "r \<in> {None, Some (Inr ())}"
  shows "ac_messages (ls_context ls) = ac_messages ctx @ ls_new ls"
proof -
  from run_loop_trace [OF assms(1,3)] obtain turns ls0 where "loop_trace env ls0 ls r turns"
    "ls_new ls0 = prompts" "ls_context ls0 = ctx\<lparr>ac_messages := ac_messages ctx @ prompts\<rparr>"
    "ls_config ls0 = config"
    by (elim exE conjE) (rule that)
  with assms(2,4) show ?thesis by (auto simp: loop_trace_def)
qed

theorem agent_context_is_transcript_witness:
  "\<exists>ls. run_loop demo_env 3 demo_config (demo_context\<lparr>ac_messages := [] @ [demo_prompt]\<rparr>) [demo_prompt]
        \<lparr>rn_world = (0, 0), rn_events = []\<rparr> = (ls, Some (Inr ())) \<and>
      length (ls_new ls) = 5 \<and> ac_messages (ls_context ls) = ls_new ls"
proof -
  obtain ls r where run: "run_loop demo_env 3 demo_config (demo_context\<lparr>ac_messages := ac_messages demo_context @ [demo_prompt]\<rparr>)
      [demo_prompt] \<lparr>rn_world = (0, 0), rn_events = []\<rparr> = (ls, r)" by fastforce
  then have "r = Some (Inr ())" "length (ls_new ls) = 5"
    by (auto simp: run_loop_def poll_source_def eval_nat_numeral run_turn_def begin_turn_def
        inject_pending_def stream_assistant_response_def call_world_def default_convert_def
        finish_assistant_message_def complete_turn_def run_tool_calls_def demo_echo_batch demo_context_def
        emit_def ls_emit_def push_message_def run_prepare_hook_def run_stop_hook_def end_agent_def Let_def)
  with agent_context_is_transcript [OF demo_single_start _ run] run show ?thesis
    by (auto simp: demo_context_def)
qed

end
