(* ===== verification/Agent_Frame.thy ===== *)
theory Agent_Frame
  imports Agent_Run
begin

text \<open>
  What holds of a whole run because it holds of its pieces. The locale \<open>run_frame\<close> is the contract
  between the loop and the code it calls: a preorder on runs that every emitted event, every
  request and every good tool respects. Each operation of the loop then respects it too, provided
  the hooks do. The budget of the liveness proof and the state that the agent handle reduces from
  the events are two such preorders.
\<close>

definition abides :: "('w run \<Rightarrow> 'w run \<Rightarrow> bool) \<Rightarrow> ('w \<Rightarrow> 'w \<times> 'a) \<Rightarrow> bool" where
  "abides R f \<longleftrightarrow> (\<forall>s. R s (fst (call_world f s)))"

definition hooks_abide ::
  "('w run \<Rightarrow> 'w run \<Rightarrow> bool) \<Rightarrow> ('w agent_tool \<Rightarrow> bool) \<Rightarrow> ('w, 'm, 'r) agent_loop_config \<Rightarrow> bool" where
  "hooks_abide R good config \<longleftrightarrow>
     (\<forall>ms. abides R (cf_convert_to_llm config ms)) \<and>
     (\<forall>f\<in>set_option (cf_transform_context config). \<forall>ms sg. abides R (f ms sg)) \<and>
     (\<forall>f\<in>set_option (cf_get_api_key config). \<forall>p. abides R (f p)) \<and>
     (\<forall>f\<in>set_option (cf_before_tool_call config). \<forall>c sg. abides R (f c sg)) \<and>
     (\<forall>f\<in>set_option (cf_after_tool_call config). \<forall>c sg. abides R (f c sg)) \<and>
     (\<forall>f\<in>set_option (cf_should_stop_after_turn config). \<forall>t. abides R (f t)) \<and>
     (\<forall>f\<in>set_option (cf_prepare_next_turn config). \<forall>t. abides R (f t) \<and>
        (\<forall>w u ctx. snd (f t w) = Some u \<longrightarrow> tu_context u = Some ctx \<longrightarrow> list_all good (ac_tools ctx))) \<and>
     (\<forall>f\<in>set_option (cf_get_steering_messages config). abides R f) \<and>
     (\<forall>f\<in>set_option (cf_get_follow_up_messages config). abides R f)"

lemma hooks_abideD:
  assumes "hooks_abide R good config"
  shows "abides R (cf_convert_to_llm config ms)"
    and "cf_transform_context config = Some f1 \<Longrightarrow> abides R (f1 ms sg)"
    and "cf_get_api_key config = Some f2 \<Longrightarrow> abides R (f2 p)"
    and "cf_before_tool_call config = Some f3 \<Longrightarrow> abides R (f3 c3 sg)"
    and "cf_after_tool_call config = Some f4 \<Longrightarrow> abides R (f4 c4 sg)"
    and "cf_should_stop_after_turn config = Some f5 \<Longrightarrow> abides R (f5 t5)"
    and "cf_prepare_next_turn config = Some f6 \<Longrightarrow> abides R (f6 t6)"
    and "\<lbrakk>cf_prepare_next_turn config = Some f6; snd (f6 t6 w) = Some u; tu_context u = Some ctx\<rbrakk>
      \<Longrightarrow> list_all good (ac_tools ctx)"
    and "cf_get_steering_messages config = Some f7 \<Longrightarrow> abides R f7"
    and "cf_get_follow_up_messages config = Some f8 \<Longrightarrow> abides R f8"
  using assms by (simp_all add: hooks_abide_def)

lemma abidesD: "abides R f \<Longrightarrow> call_world f s = (s', x) \<Longrightarrow> R s s'"
  unfolding abides_def by (metis fst_conv)

lemma find_tool_in: "find_tool ctx name = Some t \<Longrightarrow> t \<in> set (ac_tools ctx)"
  by (auto simp: find_tool_def find_Some_iff)

fun task_tool :: "'w task \<Rightarrow> 'w agent_tool set" where
  "task_tool (TaskExecute _ tool _) = {tool}"
| "task_tool _ = {}"

locale run_frame =
  fixes env :: "('w, 'm, 'r) loop_env" and R :: "'w run \<Rightarrow> 'w run \<Rightarrow> bool"
    and good :: "'w agent_tool \<Rightarrow> bool"
  assumes frame_refl: "R s s" and frame_trans: "R s s1 \<Longrightarrow> R s1 s2 \<Longrightarrow> R s s2"
    and frame_emit: "R s (emit env ev s)"
    and frame_stream: "abides R (le_stream env m c opts)"
    and frame_tool: "good t \<Longrightarrow> abides R (tool_execute t a tc sg)"
begin

lemma frame_emits:
  "R s (emit_tool_execution_start env c s)" "R s (emit_tool_execution_end env f s)"
  "R s (emit_update env c u s)" "R s (emit_tool_result_message env m s)"
  "R s (fold (emit_update env c) us s)"
proof -
  show "R s (emit_tool_execution_start env c s)" "R s (emit_tool_execution_end env f s)"
    and u: "\<And>s u. R s (emit_update env c u s)"
    by (simp_all add: emit_tool_execution_start_def emit_tool_execution_end_def emit_update_def frame_emit)
  show "R s (emit_tool_result_message env m s)"
    unfolding emit_tool_result_message_def by (rule frame_trans [OF frame_emit frame_emit])
  show "R s (fold (emit_update env c) us s)"
    by (induction us arbitrary: s) (auto intro: frame_refl frame_trans [OF u])
qed

lemma frame_run_before:
  assumes "hooks_abide R good config" and "run_before_tool_call env config ctx am c args s = (s', r)"
  shows "R s s'"
  using assms(2) frame_refl hooks_abideD(4) [OF assms(1), THEN abidesD]
  by (auto simp: run_before_tool_call_def Let_def split: option.splits prod.splits if_splits)

lemma frame_prepare:
  assumes "hooks_abide R good config" and "prepare_tool_call env config ctx am c s = (s', p)"
  shows "R s s' \<and> (\<forall>t args. p = Prepared t args \<longrightarrow> t \<in> set (ac_tools ctx))"
proof (cases "find_tool ctx (call_name c)")
  case None
  with assms(2) show ?thesis by (auto simp: prepare_tool_call_def frame_refl)
next
  case (Some tool)
  define pc where "pc = c\<lparr>call_arguments := (case tool_prepare_arguments tool (JObject (call_arguments c)) of
    JObject m \<Rightarrow> m | _ \<Rightarrow> call_arguments c)\<rparr>"
  show ?thesis
  proof (cases "le_validate env (declaration_of tool) pc")
    case (Inl e)
    with assms(2) Some show ?thesis by (auto simp: prepare_tool_call_def pc_def [symmetric] frame_refl)
  next
    case (Inr v)
    obtain s1 r where r: "run_before_tool_call env config ctx am c (JObject v) s = (s1, r)" by fastforce
    from frame_run_before [OF assms(1) r] show ?thesis
      using assms(2) Some Inr find_tool_in [OF Some]
      by (cases r) (auto simp: prepare_tool_call_def pc_def [symmetric] r split: if_splits)
  qed
qed

lemma frame_run_tool:
  assumes "good tool" and "run_tool env ctx tool c args s = (s', x)"
  shows "R s s'"
  using assms(2) frame_tool [OF assms(1), THEN abidesD]
  by (auto simp: run_tool_def Let_def split: prod.splits)

lemma frame_finalize:
  assumes "hooks_abide R good config" and "finalize_executed_tool_call env config ctx am c args ex s = (s', f)"
  shows "R s s'"
  using assms(2) frame_refl hooks_abideD(5) [OF assms(1), THEN abidesD]
  by (auto simp: finalize_executed_tool_call_def Let_def split: option.splits prod.splits)

lemma frame_sequential_call:
  assumes "hooks_abide R good config" and "list_all good (ac_tools ctx)"
    and "sequential_call env config ctx am c s = (s', f)"
  shows "R s s'"
proof -
  let ?s = "emit_tool_execution_start env c s"
  obtain s1 prep where p: "prepare_tool_call env config ctx am c ?s = (s1, prep)" by fastforce
  note prep = frame_prepare [OF assms(1) p]
  have s1: "R s s1" using prep frame_emits(1) frame_trans by blast
  show ?thesis
  proof (cases prep)
    case (Immediate r e)
    with s1 assms(3) show ?thesis by (simp add: sequential_call_def p)
  next
    case (Prepared tool args)
    obtain s2 us ex where r: "run_tool env ctx tool c args s1 = (s2, us, ex)" by (metis prod_cases3)
    have "R s1 s2"
      using prep Prepared assms(2) by (intro frame_run_tool [OF _ r]) (auto simp: list_all_iff)
    moreover have "R (fold (emit_update env c) us s2) s'"
      using assms(3) by (intro frame_finalize [OF assms(1)])
        (simp add: sequential_call_def p Prepared execute_prepared_tool_call_def r)
    ultimately show ?thesis using s1 frame_emits(5) frame_trans by meson
  qed
qed

lemma frame_sequential_calls:
  assumes "hooks_abide R good config" and "list_all good (ac_tools ctx)"
  shows "R s (fst (sequential_calls env config ctx am cs s))"
proof (induction cs arbitrary: s)
  case (Cons c cs)
  obtain s1 f where c: "sequential_call env config ctx am c s = (s1, f)" by fastforce
  let ?s2 = "emit_tool_execution_end env f s1"
  let ?s3 = "emit_tool_result_message env (create_tool_result_message env f ?s2) ?s2"
  have "R s ?s3"
    using frame_sequential_call [OF assms c] frame_emits(2,4) frame_trans by meson
  with Cons.IH [of ?s3] show ?case
    by (auto simp: sequential_calls_Cons c Let_def split_beta intro: frame_trans)
qed (simp add: frame_refl)

lemma frame_task_step:
  assumes "hooks_abide R good config" and "Ball (task_tool t) good"
    and "task_step env config ctx am t s = (s', t')"
  shows "R s s' \<and> task_tool t' = {}"
  using assms(2,3) frame_run_tool frame_finalize [OF assms(1)] frame_emits
  by (cases "(env, config, ctx, am, t, s)" rule: task_step.cases)
    (auto simp: Let_def split: prod.splits intro: frame_refl)

lemma frame_prepare_entries:
  assumes "hooks_abide R good config" and "list_all good (ac_tools ctx)"
    and "prepare_entries env config ctx am cs s = (s', ts)"
  shows "R s s' \<and> (\<forall>t\<in>set ts. Ball (task_tool t) good)"
  using assms(3)
proof (induction cs arbitrary: s ts)
  case (Cons c cs)
  let ?s = "emit_tool_execution_start env c s"
  obtain s1 prep where p: "prepare_tool_call env config ctx am c ?s = (s1, prep)" by fastforce
  obtain s2 t where e: "prepare_entry env config ctx am c s = (s2, t)" by fastforce
  have "R s s1" using frame_prepare [OF assms(1) p] frame_emits(1) frame_trans by blast
  then have "R s s2 \<and> Ball (task_tool t) good"
    using e frame_prepare [OF assms(1) p] assms(2)
    by (cases prep) (auto simp: prepare_entry_def p list_all_iff intro: frame_trans frame_emits(2))
  with Cons show ?case
    by (fastforce simp: prepare_entries_Cons e Let_def split: if_splits prod.splits intro: frame_trans)
qed (auto simp: frame_refl)

lemma frame_join_all:
  assumes "hooks_abide R good config" and "\<forall>t\<in>set tasks. Ball (task_tool t) good"
    and "join_all env config ctx am tasks s = (s', fs)"
  shows "R s s'"
  using assms
proof (induction e \<equiv> env config ctx am tasks s rule: join_all.induct)
  case (1 config ctx am tasks s)
  show ?case
  proof (cases "unfinished tasks = []")
    case True
    with 1(4) show ?thesis by (simp add: join_all_done frame_refl)
  next
    case False
    let ?j = "next_task env tasks s"
    obtain s1 t where st: "task_step env config ctx am (tasks ! ?j) s = (s1, t)" by fastforce
    have "Ball (task_tool (tasks ! ?j)) good" using 1(3) nth_mem [OF next_task_unfinished(1) [OF False, of env s]] by blast
    from frame_task_step [OF 1(2) this st] have s1: "R s s1" "task_tool t = {}" by simp_all
    have "\<forall>t'\<in>set (tasks[?j := t]). Ball (task_tool t') good"
      using 1(3) s1(2) set_update_subset_insert [of tasks ?j t] by auto
    from 1(1) [OF False st [symmetric] 1(2) this] s1(1) 1(4) False st show ?thesis
      by (simp add: join_all_step frame_trans)
  qed
qed

lemma frame_result_messages: "R s (fst (result_messages env fs s))"
proof (induction fs arbitrary: s)
  case (Cons f fs)
  let ?s = "emit_tool_result_message env (create_tool_result_message env f s) s"
  show ?case
    using frame_trans [OF frame_emits(4) Cons.IH [of ?s]] by (simp add: Let_def split_beta)
qed (simp add: frame_refl)

lemma frame_fail_truncated: "R s (fst (fail_truncated_calls env cs s))"
proof (induction cs arbitrary: s)
  case (Cons c cs)
  show ?case
    by (auto simp: Let_def split_beta intro!: frame_trans [OF _ Cons.IH])
      (meson frame_emits frame_trans)
qed (simp add: frame_refl)

lemma frame_execute_tool_calls:
  assumes "hooks_abide R good config" and "list_all good (ac_tools ctx)"
  shows "R s (fst (execute_tool_calls env config ctx am calls s))"
proof (cases "cf_tool_execution config = Sequential \<or> has_sequential ctx calls")
  case True
  with frame_sequential_calls [OF assms, of s am calls] show ?thesis
    by (simp add: execute_tool_calls_def execute_tool_calls_sequential_def split_beta Let_def)
next
  case False
  obtain s1 ts where prep: "prepare_entries env config ctx am calls s = (s1, ts)" by fastforce
  obtain s2 fs where join: "join_all env config ctx am ts s1 = (s2, fs)" by fastforce
  note p = frame_prepare_entries [OF assms prep]
  from frame_trans [OF conjunct1 [OF p] frame_trans [OF frame_join_all [OF assms(1) conjunct2 [OF p] join]
      frame_result_messages]] False
  show ?thesis
    by (simp add: execute_tool_calls_def execute_tool_calls_parallel_def prep join split_beta Let_def)
qed

section \<open>Responses and turns\<close>

lemma frame_stream_events:
  assumes "stream_events env ctx added es s = (ctx', s', r)"
  shows "R s s' \<and> ac_tools ctx' = ac_tools ctx"
  using assms
proof (induction es arbitrary: ctx added s)
  case (Cons e es)
  have cont: ?case
    if "stream_events env ctx1 added1 es s1 = (ctx', s', r)" "R s s1" "ac_tools ctx1 = ac_tools ctx"
    for ctx1 added1 s1
    using Cons.IH [OF that(1)] that(2,3) by (auto intro: frame_trans)
  have fin: ?case if "terminal_message e = Some m" for m
    using that Cons.prems frame_emit frame_trans [OF frame_emit frame_emit]
    by (cases e) (auto simp: finish_assistant_message_def Let_def split: if_splits)
  have update: ?case if "\<not> is_start e" "terminal_message e = None"
  proof (cases added)
    case True
    with that Cons.prems obtain p where
      "stream_events env (ctx\<lparr>ac_messages := set_last (AAssistant p) (ac_messages ctx)\<rparr>) added es
         (emit env (MessageUpdate (AAssistant p) e) s) = (ctx', s', r)"
      by (cases e) auto
    from cont [OF this frame_emit] show ?thesis by simp
  next
    case False
    with that Cons.prems have "stream_events env ctx added es s = (ctx', s', r)" by (cases e) auto
    from cont [OF this frame_refl] show ?thesis by simp
  qed
  have "?case" if "e = AMStart p" for p
    using that Cons.prems
      cont [of "ctx\<lparr>ac_messages := ac_messages ctx @ [AAssistant p]\<rparr>" True "emit env (MessageStart (AAssistant p)) s"]
      frame_emit by simp
  with fin update show ?case by (cases e) auto
qed (auto simp: frame_refl)

text \<open>The run before the request is sent, and the request.\<close>

lemma frame_request:
  assumes "hooks_abide R good config" and "stream_assistant_response env config ctx s = (ctx', s', r)"
  shows "\<exists>s1 s2 llm opts stream. R s s1 \<and>
    call_world (le_stream env (cf_model config) llm opts) s1 = (s2, stream) \<and>
    (case stream of
       Inl (code, message) \<Rightarrow> ctx' = ctx \<and> s' = s2 \<and> r = Inl (AEStream code message)
     | Inr es \<Rightarrow> stream_events env ctx False es s2 = (ctx', s', r))"
proof -
  obtain s1 messages where 1: "(case cf_transform_context config of
      Some transform \<Rightarrow> call_world (transform (ac_messages ctx) (le_signal env)) s
    | None \<Rightarrow> (s, ac_messages ctx)) = (s1, messages)" by fastforce
  obtain s2 llm_messages where 2: "call_world (cf_convert_to_llm config messages) s1 = (s2, llm_messages)"
    by fastforce
  obtain s3 key where 3: "(case cf_get_api_key config of
      Some provider \<Rightarrow> call_world (provider (le_provider env (cf_model config))) s2
    | None \<Rightarrow> (s2, None)) = (s3, key)" by fastforce
  have "R s s1" "R s2 s3"
    using 1 3 hooks_abideD(2,3) [OF assms(1), THEN abidesD] by (auto simp: frame_refl split: option.splits)
  with hooks_abideD(1) [OF assms(1), THEN abidesD, OF 2] have "R s s3" by (meson frame_trans)
  then show ?thesis
    using assms(2) unfolding stream_assistant_response_def 1 2 3 Let_def prod.case
    by (cases "call_world (le_stream env (cf_model config)
      \<lparr>lc_system_prompt = Some (ac_system_prompt ctx), lc_messages = llm_messages,
        lc_tools = Some (map declaration_of (ac_tools ctx))\<rparr>
      ((cf_stream_options config)\<lparr>so_api_key :=
          (case key of Some k \<Rightarrow> Some k | None \<Rightarrow> so_api_key (cf_stream_options config)),
        so_signal := le_signal env\<rparr>)) s3")
      (fastforce split: sum.splits prod.splits)
qed

lemma frame_response:
  assumes "hooks_abide R good config" and "stream_assistant_response env config ctx s = (ctx', s', r)"
  shows "R s s' \<and> ac_tools ctx' = ac_tools ctx"
proof -
  from frame_request [OF assms] obtain s1 s2 llm opts stream where
    pre: "R s s1" and req: "call_world (le_stream env (cf_model config) llm opts) s1 = (s2, stream)"
    and res: "case stream of Inl (code, message) \<Rightarrow> ctx' = ctx \<and> s' = s2 \<and> r = Inl (AEStream code message)
      | Inr es \<Rightarrow> stream_events env ctx False es s2 = (ctx', s', r)"
    by (elim exE conjE) (rule that)
  have "R s s2" using pre abidesD [OF frame_stream req] by (rule frame_trans)
  with res show ?thesis
    by (auto dest: frame_stream_events intro: frame_trans split: sum.splits prod.splits)
qed

lemma frame_prompts: "R s (fold (\<lambda>p s. emit env (MessageEnd p) (emit env (MessageStart p) s)) ps s)"
proof (induction ps arbitrary: s)
  case (Cons p ps)
  from frame_trans [OF frame_trans [OF frame_emit frame_emit] Cons.IH] show ?case by simp
qed (simp add: frame_refl)

lemma frame_opened_turn:
  "let ls' = inject_pending env (begin_turn env ls) in
   R (ls_run ls) (ls_run ls') \<and> ac_tools (ls_context ls') = ac_tools (ls_context ls)"
proof -
  have "R (ls_run l) (ls_run (fold (inject_message env) ms l))" for ms and l :: "('w, 'm, 'r) loop_state"
  proof (induction ms arbitrary: l)
    case (Cons m ms)
    have "R (ls_run l) (ls_run (inject_message env m l))"
      using frame_trans [OF frame_emit frame_emit] by (simp add: inject_message_def push_message_def ls_emit_def)
    with Cons.IH [of "inject_message env m l"] show ?case by (auto intro: frame_trans)
  qed (simp add: frame_refl)
  from this [of "(begin_turn env ls)\<lparr>ls_pending := []\<rparr>" "ls_pending (begin_turn env ls)"]
  have inject: "R (ls_run (begin_turn env ls)) (ls_run (inject_pending env (begin_turn env ls)))"
    by (simp add: inject_pending_def)
  have "R (ls_run ls) (ls_run (begin_turn env ls))"
    by (simp add: begin_turn_def ls_emit_def frame_emit frame_refl)
  moreover have "ac_tools (ls_context (inject_pending env (begin_turn env ls))) = ac_tools (ls_context ls)"
  proof -
    have "ac_tools (ls_context (inject_pending env l)) = ac_tools (ls_context l)" for l
      using inject_fold [of env "ls_pending l" "l\<lparr>ls_pending := []\<rparr>"] by (simp add: inject_pending_def Let_def)
    then show ?thesis by (simp add: begin_turn_def ls_emit_def)
  qed
  ultimately show ?thesis using inject by (auto simp: Let_def intro: frame_trans)
qed

lemma frame_run_tool_calls:
  assumes "hooks_abide R good (ls_config ls)" and "list_all good (ac_tools (ls_context ls))"
    and "run_tool_calls env message ls = (ls', results, again)"
  shows "R (ls_run ls) (ls_run ls') \<and> ac_tools (ls_context ls') = ac_tools (ls_context ls) \<and>
    ls_config ls' = ls_config ls \<and> (again \<longrightarrow> tool_calls message \<noteq> [])"
  using assms(3) frame_execute_tool_calls [OF assms(1,2)] frame_fail_truncated frame_refl
  by (auto simp: run_tool_calls_def fail_tool_calls_from_truncated_message_def Let_def push_fold split_beta
      split: if_splits)

lemma frame_poll:
  assumes "\<And>f. src = Some f \<Longrightarrow> abides R f" and "poll_source src s = (s', ms)"
  shows "R s s'"
  using assms abidesD by (cases src) (auto simp: poll_source_def frame_refl)

lemma frame_prepare_hook:
  assumes "hooks_abide R good (ls_config ls)" and "list_all good (ac_tools (ls_context ls))"
  shows "R (ls_run ls) (ls_run (run_prepare_hook turn ls)) \<and>
    hooks_abide R good (ls_config (run_prepare_hook turn ls)) \<and>
    list_all good (ac_tools (ls_context (run_prepare_hook turn ls)))"
proof (cases "cf_prepare_next_turn (ls_config ls)")
  case None
  with assms show ?thesis by (simp add: run_prepare_hook_def frame_refl)
next
  case (Some hook)
  obtain s1 u where c: "call_world (hook turn) (ls_run ls) = (s1, u)" by fastforce
  then have "snd (hook turn (rn_world (ls_run ls))) = u" by (auto simp: call_world_def split: prod.splits)
  then show ?thesis
    using assms abidesD [OF hooks_abideD(7) [OF assms(1) Some] c] hooks_abideD(8) [OF assms(1) Some]
    by (auto simp: run_prepare_hook_def Some c apply_turn_update_def set_thinking_level_def Let_def
        hooks_abide_def split: option.splits)
qed

lemma frame_stop_hook:
  assumes "hooks_abide R good (ls_config ls)" and "run_stop_hook turn ls = (ls', stop)"
  shows "R (ls_run ls) (ls_run ls') \<and> ls_config ls' = ls_config ls \<and> ls_context ls' = ls_context ls"
  using assms(2) frame_refl hooks_abideD(6) [OF assms(1), THEN abidesD]
  by (auto simp: run_stop_hook_def Let_def split: option.splits prod.splits)

lemma frame_complete_turn:
  assumes "hooks_abide R good (ls_config ls)" and "list_all good (ac_tools (ls_context ls))"
    and "complete_turn env message ls = (ls', out)"
  shows "R (ls_run ls) (ls_run ls') \<and> hooks_abide R good (ls_config ls') \<and>
    list_all good (ac_tools (ls_context ls'))"
proof -
  obtain ls1 rs flag where 1: "run_tool_calls env message ls = (ls1, rs, flag)" by (metis prod_cases3)
  note tools = frame_run_tool_calls [OF assms(1,2) 1]
  define ls2 where "ls2 = ls_emit env (TurnEnd (AAssistant message) rs) ls1"
  define turn where "turn = \<lparr>tcn_message = AAssistant message, tcn_tool_results = rs,
    tcn_context = ls_context ls2, tcn_new_messages = ls_new ls2\<rparr>"
  define ls3 where "ls3 = run_prepare_hook turn ls2"
  have "R (ls_run ls) (ls_run ls2)" "hooks_abide R good (ls_config ls2)" "list_all good (ac_tools (ls_context ls2))"
    using tools assms frame_trans [OF _ frame_emit] by (auto simp: ls2_def ls_emit_def)
  with frame_prepare_hook [of ls2 turn] have 3: "R (ls_run ls) (ls_run ls3)"
    "hooks_abide R good (ls_config ls3)" "list_all good (ac_tools (ls_context ls3))"
    unfolding ls3_def by (auto intro: frame_trans)
  obtain ls4 stop where 4: "run_stop_hook turn ls3 = (ls4, stop)" by fastforce
  from frame_stop_hook [OF 3(2) 4] 3 have s4: "R (ls_run ls) (ls_run ls4)"
    "hooks_abide R good (ls_config ls4)" "list_all good (ac_tools (ls_context ls4))"
    by (auto intro: frame_trans)
  obtain s pending where p: "poll_source (cf_get_steering_messages (ls_config ls4)) (ls_run ls4) = (s, pending)"
    by fastforce
  have "ls' = (if stop then end_agent env ls4 else ls4\<lparr>ls_run := s, ls_pending := pending\<rparr>)"
    using assms(3) by (auto simp: complete_turn_def 1 ls2_def [symmetric] turn_def [symmetric]
        ls3_def [symmetric] 4 p Let_def split: if_splits)
  then show ?thesis
    using s4 frame_trans [OF s4(1) frame_emit] frame_trans [OF s4(1) frame_poll [OF hooks_abideD(9) [OF s4(2)] p]]
    by (auto simp: end_agent_def ls_emit_def)
qed

lemma frame_run_turn:
  assumes "hooks_abide R good (ls_config ls)" and "list_all good (ac_tools (ls_context ls))"
    and "run_turn env ls = (ls', out)"
  shows "R (ls_run ls) (ls_run ls') \<and> hooks_abide R good (ls_config ls') \<and>
    list_all good (ac_tools (ls_context ls'))"
proof -
  define l1 where "l1 = inject_pending env (begin_turn env ls)"
  have l1: "ls_config l1 = ls_config ls" "ac_tools (ls_context l1) = ac_tools (ls_context ls)"
    "R (ls_run ls) (ls_run l1)"
    using opened_turn [of env ls] frame_opened_turn [of ls] by (simp_all add: l1_def Let_def)
  obtain ctx s r where resp: "stream_assistant_response env (ls_config l1) (ls_context l1) (ls_run l1) = (ctx, s, r)"
    by (metis prod_cases3)
  have st: "R (ls_run l1) s" "ac_tools ctx = ac_tools (ls_context l1)"
    using frame_response [OF _ resp] assms(1) by (simp_all add: l1)
  note s = frame_trans [OF l1(3) st(1)]
  note turn = assms(3) [unfolded run_turn_def Let_def, folded l1_def, unfolded resp prod.case]
  show ?thesis
  proof (cases r)
    case (Inl e)
    with turn have "ls' = l1\<lparr>ls_context := ctx, ls_run := s\<rparr>" by auto
    with s st l1 assms show ?thesis by simp
  next
    case (Inr m)
    define l2 where "l2 = l1\<lparr>ls_context := ctx, ls_run := s, ls_new := ls_new l1 @ [AAssistant m]\<rparr>"
    have l2: "R (ls_run ls) (ls_run l2)" "hooks_abide R good (ls_config l2)"
      "list_all good (ac_tools (ls_context l2))"
      using s st l1 assms by (simp_all add: l2_def)
    show ?thesis
    proof (cases "am_stop_reason m \<in> {SRError, SRAborted}")
      case True
      with turn Inr have "ls' = end_agent env (ls_emit env (TurnEnd (AAssistant m) []) l2)"
        by (simp add: l2_def split: if_splits)
      with l2 frame_trans [OF l2(1) frame_trans [OF frame_emit frame_emit]] show ?thesis
        by (simp add: end_agent_def ls_emit_def)
    next
      case False
      with turn Inr have "complete_turn env m l2 = (ls', out)" by (simp add: l2_def)
      from frame_complete_turn [OF l2(2,3) this] l2(1) show ?thesis by (auto intro: frame_trans)
    qed
  qed
qed

lemma frame_run_turns:
  assumes "hooks_abide R good (ls_config ls)" and "list_all good (ac_tools (ls_context ls))"
    and "run_turns env n again ls = (ls', r)"
  shows "R (ls_run ls) (ls_run ls')"
  using assms
proof (induction n arbitrary: again ls)
  case (Suc n)
  show ?case
  proof (cases "again \<or> ls_pending ls \<noteq> []")
    case True
    obtain l out where run: "run_turn env ls = (l, out)" by fastforce
    note turn = frame_run_turn [OF Suc.prems(1,2) run]
    show ?thesis
      using Suc.prems(3) True run turn Suc.IH [of l] by (cases out) (auto intro: frame_trans)
  next
    case False
    obtain s ms where p: "poll_source (cf_get_follow_up_messages (ls_config ls)) (ls_run ls) = (s, ms)" by fastforce
    note poll = frame_poll [OF hooks_abideD(10) [OF Suc.prems(1)] p]
    show ?thesis
    proof (cases "ms = []")
      case True
      with Suc.prems(3) False p have "ls' = end_agent env (ls\<lparr>ls_run := s\<rparr>)" by (simp add: Let_def)
      with poll show ?thesis by (auto simp: end_agent_def ls_emit_def intro: frame_trans frame_emit)
    next
      case more: False
      with Suc.prems(3) False p have "run_turns env n True (ls\<lparr>ls_run := s, ls_pending := ms\<rparr>) = (ls', r)"
        by (simp add: Let_def)
      from Suc.IH [OF _ _ this] Suc.prems(1,2) poll show ?thesis by (auto intro: frame_trans)
    qed
  qed
qed (simp add: frame_refl)

lemma frame_run_loop:
  assumes "hooks_abide R good config" and "list_all good (ac_tools ctx)"
    and "run_loop env n config ctx new s = (ls, r)"
  shows "R s (ls_run ls)"
proof -
  obtain s1 ms where p: "poll_source (cf_get_steering_messages config) s = (s1, ms)" by fastforce
  have "run_turns env n True \<lparr>ls_context = ctx, ls_config = config, ls_first_turn = True, ls_pending = ms,
      ls_new = new, ls_run = s1\<rparr> = (ls, r)"
    using assms(3) by (simp add: run_loop_def p)
  from frame_run_turns [OF _ _ this] assms(1,2) frame_poll [OF hooks_abideD(9) [OF assms(1)] p]
  show ?thesis by (auto intro: frame_trans)
qed

lemma frame_loop:
  assumes "hooks_abide R good config" and "list_all good (ac_tools ctx)"
  shows "run_agent_loop env n prompts config ctx w = (s, r) \<Longrightarrow> R \<lparr>rn_world = w, rn_events = []\<rparr> s"
    and "run_agent_loop_continue env n config ctx w = (s, r) \<Longrightarrow> R \<lparr>rn_world = w, rn_events = []\<rparr> s"
proof -
  let ?s0 = "emit env TurnStart (emit env AgentStart \<lparr>rn_world = w, rn_events = []\<rparr>)"
  let ?s1 = "fold (\<lambda>p s. emit env (MessageEnd p) (emit env (MessageStart p) s)) prompts ?s0"
  have s0: "R \<lparr>rn_world = w, rn_events = []\<rparr> ?s0" by (rule frame_trans [OF frame_emit frame_emit])
  have s1: "R \<lparr>rn_world = w, rn_events = []\<rparr> ?s1" by (rule frame_trans [OF s0 frame_prompts])
  show "R \<lparr>rn_world = w, rn_events = []\<rparr> s" if "run_agent_loop env n prompts config ctx w = (s, r)"
  proof -
    let ?ctx = "ctx\<lparr>ac_messages := ac_messages ctx @ prompts\<rparr>"
    obtain ls r' where run: "run_loop env n config ?ctx prompts ?s1 = (ls, r')" by fastforce
    from frame_trans [OF s1 frame_run_loop [OF assms(1) _ run]] assms(2) that run show ?thesis
      by (auto simp: run_agent_loop_def loop_result_def Let_def)
  qed
  show "R \<lparr>rn_world = w, rn_events = []\<rparr> s" if "run_agent_loop_continue env n config ctx w = (s, r)"
  proof -
    obtain ls r' where run: "run_loop env n config ctx [] ?s0 = (ls, r')" by fastforce
    from frame_trans [OF s0 frame_run_loop [OF assms run]] that run show ?thesis
      by (auto simp: run_agent_loop_continue_def loop_result_def Let_def frame_refl split: sum.splits)
  qed
qed

end

end
