(* ===== verification/Agent_Liveness.thy ===== *)
theory Agent_Liveness
  imports Agent_Frame
begin

text \<open>
  The agent loop returns. It runs as long as the provider asks for tools or messages arrive, so the
  hypothesis is that these run dry: \<open>budget\<close> measures the requests that are still answered with tool
  calls and the messages still to come; a request that is answered with tool calls and a source that
  hands out messages use some of it up, and nothing adds to it.
\<close>

definition keeps :: "('w \<Rightarrow> nat) \<Rightarrow> ('w \<Rightarrow> 'w \<times> 'a) \<Rightarrow> bool" where
  "keeps b f \<longleftrightarrow> (\<forall>w. b (fst (f w)) \<le> b w)"

definition request_spends ::
  "('w \<Rightarrow> nat) \<Rightarrow> ('w \<Rightarrow> 'w \<times> ((string \<times> string) + assistant_message_event list)) \<Rightarrow> bool" where
  "request_spends b f \<longleftrightarrow>
     (\<forall>w. b (fst (f w)) \<le> b w \<and>
        (case snd (f w) of
           Inl _ \<Rightarrow> True
         | Inr es \<Rightarrow> b (fst (f w)) < b w \<or>
             (\<forall>e\<in>set es. \<forall>m. terminal_message e = Some m \<longrightarrow> tool_calls m = [])))"

definition source_dries :: "('w \<Rightarrow> nat) \<Rightarrow> ('w \<Rightarrow> 'w \<times> agent_message list) \<Rightarrow> bool" where
  "source_dries b f \<longleftrightarrow> keeps b f \<and> (\<forall>w. snd (f w) \<noteq> [] \<longrightarrow> b (fst (f w)) < b w)"

definition runs_dry ::
  "('w \<Rightarrow> nat) \<Rightarrow> ('w, 'm, 'r) loop_env \<Rightarrow> ('w, 'm, 'r) agent_loop_config \<Rightarrow> 'w agent_tool list \<Rightarrow> bool" where
  "runs_dry b env config tools \<longleftrightarrow>
     (\<forall>ev w. b (le_sink env ev w) \<le> b w) \<and>
     (\<forall>m c opts. request_spends b (le_stream env m c opts)) \<and>
     (\<forall>ms. keeps b (cf_convert_to_llm config ms)) \<and>
     (\<forall>f\<in>set_option (cf_transform_context config). \<forall>ms sg. keeps b (f ms sg)) \<and>
     (\<forall>f\<in>set_option (cf_get_api_key config). \<forall>p. keeps b (f p)) \<and>
     (\<forall>f\<in>set_option (cf_before_tool_call config). \<forall>c sg. keeps b (f c sg)) \<and>
     (\<forall>f\<in>set_option (cf_after_tool_call config). \<forall>c sg. keeps b (f c sg)) \<and>
     (\<forall>f\<in>set_option (cf_should_stop_after_turn config). \<forall>t. keeps b (f t)) \<and>
     (\<forall>f\<in>set_option (cf_get_steering_messages config). source_dries b f) \<and>
     (\<forall>f\<in>set_option (cf_get_follow_up_messages config). source_dries b f) \<and>
     (\<forall>t\<in>set tools. \<forall>a c sg. keeps b (tool_execute t a c sg)) \<and>
     cf_prepare_next_turn config = None"

section \<open>Nothing adds to the budget\<close>

abbreviation spends :: "('w \<Rightarrow> nat) \<Rightarrow> 'w run \<Rightarrow> 'w run \<Rightarrow> bool" where
  "spends b s s' \<equiv> b (rn_world s') \<le> b (rn_world s)"

lemma runs_dryD:
  assumes "runs_dry b env config tools"
  shows "b (le_sink env ev w) \<le> b w" and "request_spends b (le_stream env m ctx opts)"
    and "keeps b (cf_convert_to_llm config ms)"
    and "cf_transform_context config = Some f1 \<Longrightarrow> keeps b (f1 ms sg)"
    and "cf_get_api_key config = Some f2 \<Longrightarrow> keeps b (f2 p)"
    and "cf_before_tool_call config = Some f3 \<Longrightarrow> keeps b (f3 c3 sg)"
    and "cf_after_tool_call config = Some f4 \<Longrightarrow> keeps b (f4 c4 sg)"
    and "cf_should_stop_after_turn config = Some f5 \<Longrightarrow> keeps b (f5 t5)"
    and "cf_get_steering_messages config = Some f6 \<Longrightarrow> source_dries b f6"
    and "cf_get_follow_up_messages config = Some f7 \<Longrightarrow> source_dries b f7"
    and "t \<in> set tools \<Longrightarrow> keeps b (tool_execute t a c sg)"
    and "cf_prepare_next_turn config = None"
  using assms by (simp_all add: runs_dry_def)

definition thrifty :: "('w \<Rightarrow> nat) \<Rightarrow> 'w agent_tool \<Rightarrow> bool" where
  "thrifty b t \<longleftrightarrow> (\<forall>a c sg. keeps b (tool_execute t a c sg))"

lemma keeps_abides: "keeps b f \<Longrightarrow> abides (spends b) f"
  by (simp add: keeps_def abides_def call_world_def split_beta)

text \<open>The budget is a frame of the loop, so every operation spends of it.\<close>

lemma runs_dry_frame:
  assumes "runs_dry b env config tools"
  shows "run_frame env (spends b) (thrifty b)" and "hooks_abide (spends b) (thrifty b) config"
    and "list_all (thrifty b) tools"
proof -
  have "abides (spends b) (le_stream env m c opts)" for m c opts
    using runs_dryD(2) [OF assms] by (intro keeps_abides) (simp add: request_spends_def keeps_def)
  then show "run_frame env (spends b) (thrifty b)"
    using runs_dryD(1) [OF assms] by unfold_locales (auto simp: emit_def thrifty_def keeps_abides)
  show "hooks_abide (spends b) (thrifty b) config" "list_all (thrifty b) tools"
    using assms by (auto simp: hooks_abide_def runs_dry_def source_dries_def thrifty_def list_all_iff
        intro: keeps_abides)
qed

section \<open>A turn spends something, or asks for nothing\<close>

lemma stream_events_terminal:
  "stream_events env ctx added es s = (ctx', s', Inr m) \<Longrightarrow> \<exists>e\<in>set es. terminal_message e = Some m"
proof (induction es arbitrary: ctx added s)
  case (Cons e es)
  then show ?case by (cases e) (auto split: if_splits prod.splits)
qed simp

lemma stream_assistant_response_spends:
  assumes "runs_dry b env config tools" and "stream_assistant_response env config ctx s = (ctx', s', r)"
  shows "spends b s s' \<and> ac_tools ctx' = ac_tools ctx \<and>
    (\<forall>m. r = Inr m \<longrightarrow> b (rn_world s') < b (rn_world s) \<or> tool_calls m = [])"
proof -
  note frame = runs_dry_frame [OF assms(1)]
  from run_frame.frame_request [OF frame(1,2) assms(2)] obtain s1 s2 llm opts stream where
    pre: "spends b s s1" and req: "call_world (le_stream env (cf_model config) llm opts) s1 = (s2, stream)"
    and res: "case stream of Inl (code, message) \<Rightarrow> ctx' = ctx \<and> s' = s2 \<and> r = Inl (AEStream code message)
      | Inr es \<Rightarrow> stream_events env ctx False es s2 = (ctx', s', r)"
    by (elim exE conjE) (rule that)
  have w: "le_stream env (cf_model config) llm opts (rn_world s1) = (rn_world s2, stream)"
    using req by (auto simp: call_world_def split: prod.splits)
  have spent: "b (rn_world s2) < b (rn_world s1) \<or> tool_calls m = []" if "r = Inr m" for m
  proof (cases stream)
    case (Inr es)
    with res that obtain e where e: "e \<in> set es" "terminal_message e = Some m"
      using stream_events_terminal by fastforce
    show ?thesis
      using spec [OF runs_dryD(2) [OF assms(1), of "cf_model config" llm opts, unfolded request_spends_def], of "rn_world s1"]
        e by (auto simp: w Inr)
  qed (use res that in auto)
  have "spends b s2 s'"
    using res run_frame.frame_stream_events [OF frame(1)] by (fastforce split: sum.splits prod.splits)
  with pre spent have "b (rn_world s') < b (rn_world s) \<or> tool_calls m = []" if "r = Inr m" for m
    using that by fastforce
  with run_frame.frame_response [OF frame(1,2) assms(2)] show ?thesis by blast
qed

lemma poll_source_spends:
  assumes "\<And>f. src = Some f \<Longrightarrow> source_dries b f" and "poll_source src s = (s', ms)"
  shows "spends b s s' \<and> (ms \<noteq> [] \<longrightarrow> b (rn_world s') < b (rn_world s))"
proof (cases src)
  case (Some f)
  with assms have "source_dries b f" "call_world f s = (s', ms)" by (simp_all add: poll_source_def)
  moreover from this have "f (rn_world s) = (rn_world s', ms)" by (auto simp: call_world_def split: prod.splits)
  ultimately show ?thesis
    unfolding source_dries_def keeps_def by (metis fst_conv snd_conv)
qed (use assms in \<open>simp add: poll_source_def\<close>)

lemma complete_turn_spends:
  assumes "runs_dry b env (ls_config ls) (ac_tools (ls_context ls))"
    and "complete_turn env message ls = (ls', Continue again)"
  shows "ls_config ls' = ls_config ls \<and> ac_tools (ls_context ls') = ac_tools (ls_context ls) \<and>
    spends b (ls_run ls) (ls_run ls') \<and> (again \<longrightarrow> tool_calls message \<noteq> []) \<and>
    (ls_pending ls' \<noteq> [] \<longrightarrow> b (rn_world (ls_run ls')) < b (rn_world (ls_run ls)))"
proof -
  obtain ls1 rs flag where 1: "run_tool_calls env message ls = (ls1, rs, flag)" by (metis prod_cases3)
  note tools = run_frame.frame_run_tool_calls [OF runs_dry_frame [OF assms(1)] 1]
  define ls2 where "ls2 = ls_emit env (TurnEnd (AAssistant message) rs) ls1"
  define turn where "turn = \<lparr>tcn_message = AAssistant message, tcn_tool_results = rs,
    tcn_context = ls_context ls2, tcn_new_messages = ls_new ls2\<rparr>"
  have c2: "ls_config ls2 = ls_config ls" "ac_tools (ls_context ls2) = ac_tools (ls_context ls)"
    using tools by (simp_all add: ls2_def ls_emit_def)
  have w2: "spends b (ls_run ls) (ls_run ls2)"
    using tools le_trans [OF runs_dryD(1) [OF assms(1)]] by (auto simp: ls2_def ls_emit_def emit_def)
  have prep: "run_prepare_hook turn ls2 = ls2"
    using runs_dryD(12) [OF assms(1)] by (simp add: run_prepare_hook_frame(5) c2)
  obtain ls4 stop where 4: "run_stop_hook turn ls2 = (ls4, stop)" by fastforce
  have "hooks_abide (spends b) (thrifty b) (ls_config ls2)" using runs_dry_frame(2) [OF assms(1)] by (simp add: c2)
  from run_frame.frame_stop_hook [OF runs_dry_frame(1) [OF assms(1)] this 4] w2 c2
  have w4: "spends b (ls_run ls) (ls_run ls4)" and c4: "ls_config ls4 = ls_config ls" "ls_context ls4 = ls_context ls2"
    by (auto intro: le_trans)
  obtain s pending where p: "poll_source (cf_get_steering_messages (ls_config ls4)) (ls_run ls4) = (s, pending)"
    by fastforce
  note poll = poll_source_spends [OF _ p, of b]
  have "ls' = ls4\<lparr>ls_run := s, ls_pending := pending\<rparr>" "again = flag"
    using assms(2)
    by (simp_all add: complete_turn_def 1 ls2_def [symmetric] turn_def [symmetric] prep 4 p split: if_splits)
  with c2 c4 w4 tools poll runs_dryD(9) [OF assms(1)] show ?thesis by (auto intro: le_trans)
qed

lemma run_turn_spends:
  assumes "runs_dry b env (ls_config ls) (ac_tools (ls_context ls))" and "run_turn env ls = (ls', Continue again)"
  shows "ls_config ls' = ls_config ls \<and> ac_tools (ls_context ls') = ac_tools (ls_context ls) \<and>
    (b (rn_world (ls_run ls')) < b (rn_world (ls_run ls)) \<or>
     spends b (ls_run ls) (ls_run ls') \<and> \<not> again \<and> ls_pending ls' = [])"
proof -
  define l1 where "l1 = inject_pending env (begin_turn env ls)"
  have l1: "ls_config l1 = ls_config ls" "ac_tools (ls_context l1) = ac_tools (ls_context ls)"
    "spends b (ls_run ls) (ls_run l1)"
    using opened_turn [of env ls] run_frame.frame_opened_turn [OF runs_dry_frame(1) [OF assms(1)], of ls] by (simp_all add: l1_def Let_def)
  obtain ctx s r where resp: "stream_assistant_response env (ls_config l1) (ls_context l1) (ls_run l1) = (ctx, s, r)"
    by (metis prod_cases3)
  have dry1: "runs_dry b env (ls_config l1) (ac_tools (ls_context l1))" using assms(1) by (simp add: l1)
  note st = stream_assistant_response_spends [OF dry1 resp]
  note turn = assms(2) [unfolded run_turn_def Let_def, folded l1_def, unfolded resp prod.case]
  obtain m where r: "r = Inr m" using turn by (cases r) auto
  define l2 where "l2 = l1\<lparr>ls_context := ctx, ls_run := s, ls_new := ls_new l1 @ [AAssistant m]\<rparr>"
  have "complete_turn env m l2 = (ls', Continue again)"
    using turn [unfolded r sum.case, folded l2_def] by (simp split: if_splits)
  moreover have "runs_dry b env (ls_config l2) (ac_tools (ls_context l2))"
    using dry1 st by (simp add: l2_def)
  ultimately have ct: "ls_config ls' = ls_config l2 \<and> ac_tools (ls_context ls') = ac_tools (ls_context l2) \<and>
      spends b (ls_run l2) (ls_run ls') \<and> (again \<longrightarrow> tool_calls m \<noteq> []) \<and>
      (ls_pending ls' \<noteq> [] \<longrightarrow> b (rn_world (ls_run ls')) < b (rn_world (ls_run l2)))"
    by (intro complete_turn_spends)
  have "spends b (ls_run l1) s"
    "b (rn_world s) < b (rn_world (ls_run l1)) \<or> tool_calls m = []"
    using st r by auto
  with ct l1 st show ?thesis by (auto simp: l2_def)
qed

section \<open>The loop returns\<close>

definition returns :: "('w, 'm, 'r) loop_env \<Rightarrow> nat \<Rightarrow> bool \<Rightarrow> ('w, 'm, 'r) loop_state \<Rightarrow> bool" where
  "returns env n again ls \<longleftrightarrow> snd (run_turns env n again ls) \<noteq> None"

lemma idle_returns:
  assumes "runs_dry b env (ls_config ls) (ac_tools (ls_context ls))" and "ls_pending ls = []"
    and "\<And>ls'. \<lbrakk>runs_dry b env (ls_config ls') (ac_tools (ls_context ls'));
      b (rn_world (ls_run ls')) < b (rn_world (ls_run ls))\<rbrakk> \<Longrightarrow> returns env n True ls'"
  shows "returns env (Suc n) False ls"
proof -
  obtain s ms where p: "poll_source (cf_get_follow_up_messages (ls_config ls)) (ls_run ls) = (s, ms)"
    by fastforce
  from poll_source_spends [OF runs_dryD(10) [OF assms(1)] p] assms(1)
    assms(3) [of "ls\<lparr>ls_run := s, ls_pending := ms\<rparr>"]
  show ?thesis using assms(2) p by (cases "ms = []") (auto simp: returns_def Let_def)
qed

lemma turn_returns:
  assumes "runs_dry b env (ls_config ls) (ac_tools (ls_context ls))" and "again \<or> ls_pending ls \<noteq> []"
    and "\<And>ls' again'. \<lbrakk>runs_dry b env (ls_config ls') (ac_tools (ls_context ls'));
      b (rn_world (ls_run ls')) < b (rn_world (ls_run ls)) \<or>
      spends b (ls_run ls) (ls_run ls') \<and> \<not> again' \<and> ls_pending ls' = []\<rbrakk> \<Longrightarrow> returns env n again' ls'"
  shows "returns env (Suc n) again ls"
proof -
  obtain ls' out where run: "run_turn env ls = (ls', out)" by fastforce
  show ?thesis
  proof (cases out)
    case (Continue flag)
    note sp = run_turn_spends [OF assms(1) run [unfolded Continue]]
    have "returns env n flag ls'" using sp assms(1) by (intro assms(3)) auto
    with run Continue assms(2) show ?thesis by (simp add: returns_def)
  qed (use run assms(2) in \<open>auto simp: returns_def\<close>)
qed

lemma run_turns_returns:
  assumes "runs_dry b env (ls_config ls) (ac_tools (ls_context ls))" and "2 * b (rn_world (ls_run ls)) + 2 \<le> n"
  shows "returns env n again ls"
  using assms
proof (induction "b (rn_world (ls_run ls))" arbitrary: ls again n rule: less_induct)
  case less
  obtain m where n: "n = Suc (Suc m)" "2 * b (rn_world (ls_run ls)) \<le> m"
    using less.prems(2) by (cases n; cases "n - 1") auto
  have later: "returns env k flag l"
    if "runs_dry b env (ls_config l) (ac_tools (ls_context l))"
      "b (rn_world (ls_run l)) < b (rn_world (ls_run ls))" "m \<le> k" for l k flag
    using that n by (intro less.hyps) auto
  have idle: "returns env (Suc k) False l"
    if "runs_dry b env (ls_config l) (ac_tools (ls_context l))" "ls_pending l = []"
      "spends b (ls_run ls) (ls_run l)" "m \<le> k" for l k
    using that by (intro idle_returns [OF that(1,2)] later) auto
  show ?case
  proof (cases "again \<or> ls_pending ls \<noteq> []")
    case True
    show ?thesis
      unfolding n by (rule turn_returns [OF less.prems(1) True]) (use later idle in auto)
  next
    case False
    with idle [OF less.prems(1), of "Suc m"] show ?thesis by (simp add: n)
  qed
qed

lemma run_turns_mono:
  "run_turns env n again ls = (ls', Some r) \<Longrightarrow> n \<le> m \<Longrightarrow> run_turns env m again ls = (ls', Some r)"
proof (induction n arbitrary: again ls m)
  case (Suc n)
  obtain k where m: "m = Suc k" "n \<le> k" using Suc.prems(2) by (cases m) auto
  show ?case
  proof (cases "again \<or> ls_pending ls \<noteq> []")
    case True
    obtain l out where run: "run_turn env ls = (l, out)" by fastforce
    with Suc True m show ?thesis by (cases out) auto
  next
    case False
    with Suc m show ?thesis by (auto simp: Let_def split: prod.splits if_splits)
  qed
qed simp

text \<open>
  The loop returns. If the provider and the message sources run dry, the loop returns, with its
  messages or with a stream error, within an explicit number of iterations, and allowing more
  changes nothing.
\<close>

lemma run_loop_returns:
  assumes "runs_dry b env config (ac_tools ctx)" and "b (rn_world s) \<le> B"
  shows "\<exists>ls r. \<forall>n \<ge> 2 * B + 2. run_loop env n config ctx new s = (ls, Some r)"
proof -
  obtain s1 pending where p: "poll_source (cf_get_steering_messages config) s = (s1, pending)" by fastforce
  define ls where "ls = \<lparr>ls_context = ctx, ls_config = config, ls_first_turn = True, ls_pending = pending,
    ls_new = new, ls_run = s1\<rparr>"
  have "b (rn_world (ls_run ls)) \<le> B"
    using poll_source_spends [OF runs_dryD(9) [OF assms(1)] p] assms(2) by (simp add: ls_def)
  with run_turns_returns [of b env ls "2 * B + 2" True] assms(1) obtain l r where
    run: "run_turns env (2 * B + 2) True ls = (l, Some r)"
    by (cases "run_turns env (2 * B + 2) True ls") (auto simp: returns_def ls_def)
  show ?thesis
    using run_turns_mono [OF run] by (intro exI allI impI) (simp add: run_loop_def p ls_def)
qed

lemma agent_loop_returns:
  assumes "runs_dry b env config (ac_tools ctx)"
  shows "\<exists>s r. \<forall>n \<ge> 2 * b w + 2. run_agent_loop env n prompts config ctx w = (s, Some r)"
    and "\<exists>s r. \<forall>n \<ge> 2 * b w + 2. run_agent_loop_continue env n config ctx w = (s, Some r)"
proof -
  let ?start = "emit env TurnStart (emit env AgentStart \<lparr>rn_world = w, rn_events = []\<rparr>)"
  let ?s0 = "fold (\<lambda>p s. emit env (MessageEnd p) (emit env (MessageStart p) s)) prompts ?start"
  let ?ctx = "ctx\<lparr>ac_messages := ac_messages ctx @ prompts\<rparr>"
  note frame = runs_dry_frame(1) [OF assms]
  note em = run_frame.frame_emit [OF frame]
  have start: "b (rn_world ?start) \<le> b w" using le_trans [OF em em, where s1 = "\<lparr>rn_world = w, rn_events = []\<rparr>"] by simp
  have "b (rn_world ?s0) \<le> b w"
    using le_trans [OF run_frame.frame_prompts [OF frame, where s = ?start and ps = prompts] start] .
  then have "\<exists>ls r. \<forall>n \<ge> 2 * b w + 2. run_loop env n config ?ctx prompts ?s0 = (ls, Some r)"
    using assms by (intro run_loop_returns) simp_all
  then show "\<exists>s r. \<forall>n \<ge> 2 * b w + 2. run_agent_loop env n prompts config ctx w = (s, Some r)"
    by (auto simp: run_agent_loop_def loop_result_def)
  obtain ls r where run: "\<forall>n \<ge> 2 * b w + 2. run_loop env n config ctx [] ?start = (ls, Some r)"
    using run_loop_returns [OF assms start] by blast
  show "\<exists>s r. \<forall>n \<ge> 2 * b w + 2. run_agent_loop_continue env n config ctx w = (s, Some r)"
  proof (cases "check_continuable ctx")
    case (Inr u)
    with run show ?thesis by (intro exI allI impI) (simp add: run_agent_loop_continue_def loop_result_def)
  qed (simp add: run_agent_loop_continue_def)
qed

end
