(* ===== verification/Agent_Handle.thy ===== *)
theory Agent_Handle
  imports Agent_Liveness
begin

text \<open>
  The agent handle, \<^verbatim>\<open>pi-rs/crates/pi-agent/src/agent.rs\<close> with \<^verbatim>\<open>stream_fn.rs\<close>: the shared object that
  owns the transcript, the listeners and the message queues, starts runs of the loop and reduces
  their events into its state.

  The handle is the world of the loop it starts: \<open>agent_inner\<close> holds the fields behind its locks, and
  \<open>in_outer\<close> everything else. Tools, listeners and stream functions are shared pointers, so the state
  holds addresses and \<open>agent_wiring\<close> what they point to, together with the hooks of
  \<^verbatim>\<open>AgentOptions\<close>, which are never replaced. An abort channel is its number; \<open>in_aborted\<close> are the
  channels that were told to abort. Starting and finishing a run takes several critical sections;
  \<open>others\<close> is what other threads do in the gaps between them.
\<close>

section \<open>Message queues\<close>

datatype queue_mode = QAll | QOneAtATime

record pending_message_queue =
  pq_messages :: "agent_message list"
  pq_mode :: queue_mode

definition pq_new :: "queue_mode \<Rightarrow> pending_message_queue" where
  "pq_new mode = \<lparr>pq_messages = [], pq_mode = mode\<rparr>"

definition pq_enqueue :: "agent_message \<Rightarrow> pending_message_queue \<Rightarrow> pending_message_queue" where
  "pq_enqueue message q = q\<lparr>pq_messages := pq_messages q @ [message]\<rparr>"

definition pq_has_items :: "pending_message_queue \<Rightarrow> bool" where
  "pq_has_items q \<longleftrightarrow> pq_messages q \<noteq> []"

definition pq_drain :: "pending_message_queue \<Rightarrow> pending_message_queue \<times> agent_message list" where
  "pq_drain q =
     (case pq_mode q of
        QAll \<Rightarrow> (q\<lparr>pq_messages := []\<rparr>, pq_messages q)
      | QOneAtATime \<Rightarrow>
          (case pq_messages q of
             [] \<Rightarrow> (q, [])
           | m # ms \<Rightarrow> (q\<lparr>pq_messages := ms\<rparr>, [m])))"

definition pq_clear :: "pending_message_queue \<Rightarrow> pending_message_queue" where
  "pq_clear q = q\<lparr>pq_messages := []\<rparr>"

section \<open>The state\<close>

record 'm agent_state =
  st_system_prompt :: string
  st_model :: 'm
  st_thinking_level :: model_thinking_level
  st_tools :: "nat list"
  st_env :: nat
  st_messages :: "agent_message list"
  st_is_streaming :: bool
  st_streaming_message :: "agent_message option"
  st_pending_tool_calls :: "string set"
  st_error_message :: "string option"

record ('m, 'o) agent_inner =
  in_state :: "'m agent_state"
  in_listeners :: "(64 word \<times> nat) list"
  in_next_listener_id :: "64 word"
  in_steering :: pending_message_queue
  in_follow_up :: pending_message_queue
  in_active_run :: "nat option"
  in_running :: bool
  in_session_id :: "string option"
  in_tool_execution :: "tool_execution_mode option"
  in_default_stream_fn :: "nat option"
  in_skip_first :: bool
  in_aborted :: "nat set"
  in_next_channel :: nat
  in_outer :: 'o

text \<open>The provider options the handle sets; the others keep their defaults.\<close>

record thinking_budgets =
  tb_minimal :: "32 word option"
  tb_low :: "32 word option"
  tb_medium :: "32 word option"
  tb_high :: "32 word option"

datatype transport = TSse | TWebsocket | TWebsocketCached | TAuto

record request_options =
  ro_thinking_budgets :: "thinking_budgets option"
  ro_session_id :: "string option"
  ro_transport :: "transport option"
  ro_max_retry_delay_ms :: "64 word option"

type_synonym ('m, 'o) agent_config = "(('m, 'o) agent_inner, 'm, request_options) agent_loop_config"
type_synonym ('m, 'o) agent_env = "(('m, 'o) agent_inner, 'm, request_options) loop_env"
type_synonym ('m, 'o) stream_fn =
  "'m \<Rightarrow> llm_context \<Rightarrow> (('m, 'o) agent_inner, request_options) simple_stream_options \<Rightarrow>
   ('m, 'o) agent_inner \<Rightarrow> ('m, 'o) agent_inner \<times> ((string \<times> string) + assistant_message_event list)"

record 'm initial_agent_state =
  is_system_prompt :: "string option"
  is_model :: "'m option"
  is_thinking_level :: "model_thinking_level option"
  is_tools :: "nat list option"
  is_env :: "nat option"
  is_messages :: "agent_message list option"

record ('m, 'o) agent_options =
  ao_initial_state :: "'m initial_agent_state option"
  ao_convert_to_llm ::
    "(agent_message list \<Rightarrow> ('m, 'o) agent_inner \<Rightarrow> ('m, 'o) agent_inner \<times> message list) option"
  ao_transform_context ::
    "(agent_message list \<Rightarrow> ('m, 'o) agent_inner abort_signal option \<Rightarrow> ('m, 'o) agent_inner \<Rightarrow>
      ('m, 'o) agent_inner \<times> agent_message list) option"
  ao_stream_fn :: "('m, 'o) stream_fn option"
  ao_get_api_key :: "(string \<Rightarrow> ('m, 'o) agent_inner \<Rightarrow> ('m, 'o) agent_inner \<times> string option) option"
  ao_before_tool_call ::
    "(('m, 'o) agent_inner before_tool_call_context \<Rightarrow> ('m, 'o) agent_inner abort_signal option \<Rightarrow>
      ('m, 'o) agent_inner \<Rightarrow> ('m, 'o) agent_inner \<times> before_tool_call_result option) option"
  ao_after_tool_call ::
    "(('m, 'o) agent_inner after_tool_call_context \<Rightarrow> ('m, 'o) agent_inner abort_signal option \<Rightarrow>
      ('m, 'o) agent_inner \<Rightarrow>
      ('m, 'o) agent_inner \<times> (agent_error + after_tool_call_result option)) option"
  ao_should_stop_after_turn ::
    "(('m, 'o) agent_inner turn_context \<Rightarrow> ('m, 'o) agent_inner \<Rightarrow> ('m, 'o) agent_inner \<times> bool) option"
  ao_prepare_next_turn ::
    "(('m, 'o) agent_inner turn_context \<Rightarrow> ('m, 'o) agent_inner \<Rightarrow>
      ('m, 'o) agent_inner \<times> (('m, 'o) agent_inner, 'm) agent_loop_turn_update option) option"
  ao_steering_mode :: "queue_mode option"
  ao_follow_up_mode :: "queue_mode option"
  ao_session_id :: "string option"
  ao_thinking_budgets :: "thinking_budgets option"
  ao_transport :: "transport option"
  ao_max_retry_delay_ms :: "64 word option"
  ao_tool_execution :: "tool_execution_mode option"

text \<open>
  What the addresses point to, the options of the handle, and the parts of a \<^verbatim>\<open>Model\<close> that the handle
  reads; the clock, the validation of arguments and the scheduler are those of the loop.
\<close>

record ('m, 'o) agent_wiring =
  aw_options :: "('m, 'o) agent_options"
  aw_tool :: "nat \<Rightarrow> ('m, 'o) agent_inner agent_tool"
  aw_listener :: "nat \<Rightarrow> agent_event \<Rightarrow> ('m, 'o) agent_inner abort_signal \<Rightarrow>
    ('m, 'o) agent_inner \<Rightarrow> ('m, 'o) agent_inner"
  aw_stream_fn :: "nat \<Rightarrow> ('m, 'o) stream_fn"
  aw_default_model :: 'm
  aw_default_env :: nat
  aw_model_api :: "'m \<Rightarrow> string"
  aw_model_provider :: "'m \<Rightarrow> string"
  aw_model_id :: "'m \<Rightarrow> string"
  aw_now_ms :: "('m, 'o) agent_inner \<Rightarrow> int"
  aw_validate :: "tool_declaration \<Rightarrow> tool_call \<Rightarrow> string + json_map"
  aw_pick :: "('m, 'o) agent_inner \<Rightarrow> nat \<Rightarrow> nat"

definition agent_state_default :: "('m, 'o) agent_wiring \<Rightarrow> 'm agent_state" where
  "agent_state_default A =
     \<lparr>st_system_prompt = [], st_model = aw_default_model A, st_thinking_level = MTLOff, st_tools = [],
      st_env = aw_default_env A, st_messages = [], st_is_streaming = False,
      st_streaming_message = None, st_pending_tool_calls = {}, st_error_message = None\<rparr>"

definition or_default :: "'a option \<Rightarrow> 'a \<Rightarrow> 'a" where
  "or_default x d = (case x of Some v \<Rightarrow> v | None \<Rightarrow> d)"

text \<open>\<^verbatim>\<open>Agent::new\<close>; the rest of the world is there already.\<close>

definition agent_new :: "('m, 'o) agent_wiring \<Rightarrow> nat option \<Rightarrow> 'o \<Rightarrow> ('m, 'o) agent_inner" where
  "agent_new A default_stream_fn outer =
     (let options = aw_options A;
          initial = or_default (ao_initial_state options)
            \<lparr>is_system_prompt = None, is_model = None, is_thinking_level = None, is_tools = None,
             is_env = None, is_messages = None\<rparr>;
          state = (agent_state_default A)
            \<lparr>st_system_prompt := or_default (is_system_prompt initial) [],
             st_model := or_default (is_model initial) (aw_default_model A),
             st_thinking_level := or_default (is_thinking_level initial) MTLOff,
             st_tools := or_default (is_tools initial) [],
             st_env := or_default (is_env initial) (aw_default_env A),
             st_messages := or_default (is_messages initial) []\<rparr>
      in \<lparr>in_state = state, in_listeners = [], in_next_listener_id = 0,
          in_steering = pq_new (or_default (ao_steering_mode options) QOneAtATime),
          in_follow_up = pq_new (or_default (ao_follow_up_mode options) QOneAtATime),
          in_active_run = None, in_running = False, in_session_id = ao_session_id options,
          in_tool_execution = ao_tool_execution options, in_default_stream_fn = default_stream_fn,
          in_skip_first = False, in_aborted = {}, in_next_channel = 0, in_outer = outer\<rparr>)"

section \<open>Operations that only touch the handle\<close>

definition subscribe :: "nat \<Rightarrow> ('m, 'o) agent_inner \<Rightarrow> ('m, 'o) agent_inner \<times> 64 word" where
  "subscribe listener w =
     (w\<lparr>in_next_listener_id := in_next_listener_id w + 1,
        in_listeners := in_listeners w @ [(in_next_listener_id w, listener)]\<rparr>,
      in_next_listener_id w)"

definition unsubscribe :: "64 word \<Rightarrow> ('m, 'o) agent_inner \<Rightarrow> ('m, 'o) agent_inner" where
  "unsubscribe i w = w\<lparr>in_listeners := filter (\<lambda>(k, _). k \<noteq> i) (in_listeners w)\<rparr>"

definition set_messages :: "agent_message list \<Rightarrow> ('m, 'o) agent_inner \<Rightarrow> ('m, 'o) agent_inner" where
  "set_messages ms w = w\<lparr>in_state := (in_state w)\<lparr>st_messages := ms\<rparr>\<rparr>"

definition agent_push_message :: "agent_message \<Rightarrow> ('m, 'o) agent_inner \<Rightarrow> ('m, 'o) agent_inner" where
  "agent_push_message m w = w\<lparr>in_state := (in_state w)\<lparr>st_messages := st_messages (in_state w) @ [m]\<rparr>\<rparr>"

definition set_system_prompt :: "string \<Rightarrow> ('m, 'o) agent_inner \<Rightarrow> ('m, 'o) agent_inner" where
  "set_system_prompt p w = w\<lparr>in_state := (in_state w)\<lparr>st_system_prompt := p\<rparr>\<rparr>"

definition set_model :: "'m \<Rightarrow> ('m, 'o) agent_inner \<Rightarrow> ('m, 'o) agent_inner" where
  "set_model m w = w\<lparr>in_state := (in_state w)\<lparr>st_model := m\<rparr>\<rparr>"

definition agent_set_thinking_level ::
  "model_thinking_level \<Rightarrow> ('m, 'o) agent_inner \<Rightarrow> ('m, 'o) agent_inner" where
  "agent_set_thinking_level l w = w\<lparr>in_state := (in_state w)\<lparr>st_thinking_level := l\<rparr>\<rparr>"

definition set_tools :: "nat list \<Rightarrow> ('m, 'o) agent_inner \<Rightarrow> ('m, 'o) agent_inner" where
  "set_tools ts w = w\<lparr>in_state := (in_state w)\<lparr>st_tools := ts\<rparr>\<rparr>"

definition set_env :: "nat \<Rightarrow> ('m, 'o) agent_inner \<Rightarrow> ('m, 'o) agent_inner" where
  "set_env e w = w\<lparr>in_state := (in_state w)\<lparr>st_env := e\<rparr>\<rparr>"

definition set_session_id :: "string option \<Rightarrow> ('m, 'o) agent_inner \<Rightarrow> ('m, 'o) agent_inner" where
  "set_session_id i w = w\<lparr>in_session_id := i\<rparr>"

definition set_tool_execution :: "tool_execution_mode \<Rightarrow> ('m, 'o) agent_inner \<Rightarrow> ('m, 'o) agent_inner" where
  "set_tool_execution mode w = w\<lparr>in_tool_execution := Some mode\<rparr>"

definition set_default_stream_fn :: "nat option \<Rightarrow> ('m, 'o) agent_inner \<Rightarrow> ('m, 'o) agent_inner" where
  "set_default_stream_fn f w = w\<lparr>in_default_stream_fn := f\<rparr>"

definition steer :: "agent_message \<Rightarrow> ('m, 'o) agent_inner \<Rightarrow> ('m, 'o) agent_inner" where
  "steer m w = w\<lparr>in_steering := pq_enqueue m (in_steering w)\<rparr>"

definition follow_up :: "agent_message \<Rightarrow> ('m, 'o) agent_inner \<Rightarrow> ('m, 'o) agent_inner" where
  "follow_up m w = w\<lparr>in_follow_up := pq_enqueue m (in_follow_up w)\<rparr>"

definition set_steering_mode :: "queue_mode \<Rightarrow> ('m, 'o) agent_inner \<Rightarrow> ('m, 'o) agent_inner" where
  "set_steering_mode mode w = w\<lparr>in_steering := (in_steering w)\<lparr>pq_mode := mode\<rparr>\<rparr>"

definition set_follow_up_mode :: "queue_mode \<Rightarrow> ('m, 'o) agent_inner \<Rightarrow> ('m, 'o) agent_inner" where
  "set_follow_up_mode mode w = w\<lparr>in_follow_up := (in_follow_up w)\<lparr>pq_mode := mode\<rparr>\<rparr>"

definition clear_steering_queue :: "('m, 'o) agent_inner \<Rightarrow> ('m, 'o) agent_inner" where
  "clear_steering_queue w = w\<lparr>in_steering := pq_clear (in_steering w)\<rparr>"

definition clear_follow_up_queue :: "('m, 'o) agent_inner \<Rightarrow> ('m, 'o) agent_inner" where
  "clear_follow_up_queue w = w\<lparr>in_follow_up := pq_clear (in_follow_up w)\<rparr>"

definition clear_all_queues :: "('m, 'o) agent_inner \<Rightarrow> ('m, 'o) agent_inner" where
  "clear_all_queues w = clear_follow_up_queue (clear_steering_queue w)"

definition has_queued_messages :: "('m, 'o) agent_inner \<Rightarrow> bool" where
  "has_queued_messages w \<longleftrightarrow> pq_has_items (in_steering w) \<or> pq_has_items (in_follow_up w)"

text \<open>The signal of an abort channel, \<^verbatim>\<open>Agent::abort\<close> and \<^verbatim>\<open>Agent::reset\<close>.\<close>

definition channel_signal :: "nat \<Rightarrow> ('m, 'o) agent_inner abort_signal" where
  "channel_signal c w \<longleftrightarrow> c \<in> in_aborted w"

definition abort :: "('m, 'o) agent_inner \<Rightarrow> ('m, 'o) agent_inner" where
  "abort w =
     (case in_active_run w of
        Some c \<Rightarrow> w\<lparr>in_aborted := insert c (in_aborted w)\<rparr>
      | None \<Rightarrow> w)"

text \<open>
  The gaps between the critical sections of one thread: after the check of an entry point; in a reset,
  after the state is cleared; in a continuation, after the last message is read and after each queue is
  drained; in a run, after it is claimed, after its flag is set, after the state is settled and after
  the run is released.
\<close>

datatype run_gap =
    GapCheck | GapReset | GapRead | GapSteering | GapFollowUp | GapClaimed | GapMarked | GapSettled | GapReleased

definition reset_state :: "('m, 'o) agent_inner \<Rightarrow> ('m, 'o) agent_inner" where
  "reset_state w = w\<lparr>in_state := (in_state w)
     \<lparr>st_messages := [], st_is_streaming := False, st_streaming_message := None,
      st_pending_tool_calls := {}, st_error_message := None\<rparr>\<rparr>"

definition reset ::
  "(run_gap \<Rightarrow> ('m, 'o) agent_inner \<Rightarrow> ('m, 'o) agent_inner) \<Rightarrow> ('m, 'o) agent_inner \<Rightarrow>
   ('m, 'o) agent_inner \<times> (agent_error + unit)" where
  "reset others w =
     (if in_active_run w \<noteq> None
      then (w, Inl (AEInvalidState ''Agent is already processing. Wait for completion before resetting.''))
      else (clear_all_queues (others GapReset (reset_state (others GapCheck w))), Inr ()))"

section \<open>Runs\<close>

text \<open>\<^verbatim>\<open>process_event\<close>: the reduction of an event into the state, then the listeners.\<close>

fun reduce_event :: "agent_event \<Rightarrow> 'm agent_state \<Rightarrow> 'm agent_state" where
  "reduce_event (MessageStart m) st = st\<lparr>st_streaming_message := Some m\<rparr>"
| "reduce_event (MessageUpdate m _) st = st\<lparr>st_streaming_message := Some m\<rparr>"
| "reduce_event (MessageEnd m) st =
     st\<lparr>st_streaming_message := None, st_messages := st_messages st @ [m]\<rparr>"
| "reduce_event (ToolExecutionStart i _ _) st =
     st\<lparr>st_pending_tool_calls := insert i (st_pending_tool_calls st)\<rparr>"
| "reduce_event (ToolExecutionEnd i _ _ _) st =
     st\<lparr>st_pending_tool_calls := st_pending_tool_calls st - {i}\<rparr>"
| "reduce_event (TurnEnd m _) st =
     (case as_assistant m of
        Some a \<Rightarrow>
          (case am_error_message a of
             Some e \<Rightarrow> st\<lparr>st_error_message := Some e\<rparr>
           | None \<Rightarrow> st)
      | None \<Rightarrow> st)"
| "reduce_event (AgentEnd _) st = st\<lparr>st_streaming_message := None\<rparr>"
| "reduce_event _ st = st"

definition process_event ::
  "('m, 'o) agent_wiring \<Rightarrow> agent_event \<Rightarrow> ('m, 'o) agent_inner \<Rightarrow> ('m, 'o) agent_inner" where
  "process_event A ev w =
     (let w = w\<lparr>in_state := reduce_event ev (in_state w)\<rparr>
      in case in_active_run w of
           None \<Rightarrow> w
         | Some c \<Rightarrow> fold (\<lambda>(_, l). aw_listener A l ev (channel_signal c)) (in_listeners w) w)"

text \<open>\<^verbatim>\<open>QueueSource::take_messages\<close> of the two sources of a run.\<close>

definition take_steering :: "('m, 'o) agent_inner \<Rightarrow> ('m, 'o) agent_inner \<times> agent_message list" where
  "take_steering w =
     (if in_skip_first w then (w\<lparr>in_skip_first := False\<rparr>, [])
      else let (q, ms) = pq_drain (in_steering w) in (w\<lparr>in_steering := q\<rparr>, ms))"

definition take_follow_up :: "('m, 'o) agent_inner \<Rightarrow> ('m, 'o) agent_inner \<times> agent_message list" where
  "take_follow_up w =
     (let (q, ms) = pq_drain (in_follow_up w) in (w\<lparr>in_follow_up := q\<rparr>, ms))"

definition resolve_stream_fn ::
  "('m, 'o) agent_wiring \<Rightarrow> ('m, 'o) agent_inner \<Rightarrow> agent_error + ('m, 'o) stream_fn" where
  "resolve_stream_fn A w =
     (case ao_stream_fn (aw_options A) of
        Some f \<Rightarrow> Inr f
      | None \<Rightarrow>
          (case in_default_stream_fn w of
             Some a \<Rightarrow> Inr (aw_stream_fn A a)
           | None \<Rightarrow> Inl AENoStreamFn))"

definition context_snapshot ::
  "('m, 'o) agent_wiring \<Rightarrow> ('m, 'o) agent_inner \<Rightarrow> ('m, 'o) agent_inner agent_context" where
  "context_snapshot A w =
     \<lparr>ac_system_prompt = st_system_prompt (in_state w), ac_messages = st_messages (in_state w),
      ac_tools = map (aw_tool A) (st_tools (in_state w)), ac_env = st_env (in_state w)\<rparr>"

definition loop_config :: "('m, 'o) agent_wiring \<Rightarrow> ('m, 'o) agent_inner \<Rightarrow> ('m, 'o) agent_config" where
  "loop_config A w =
     (let options = aw_options A;
          config = set_thinking_level (st_thinking_level (in_state w))
            (agent_loop_config_new (st_model (in_state w))
               \<lparr>so_reasoning = None, so_api_key = None, so_signal = None,
                so_rest = \<lparr>ro_thinking_budgets = ao_thinking_budgets options,
                  ro_session_id = in_session_id w, ro_transport = ao_transport options,
                  ro_max_retry_delay_ms = ao_max_retry_delay_ms options\<rparr>\<rparr>)
      in config
         \<lparr>cf_tool_execution := or_default (in_tool_execution w) Parallel,
          cf_convert_to_llm := or_default (ao_convert_to_llm options) default_convert,
          cf_transform_context := ao_transform_context options,
          cf_get_api_key := ao_get_api_key options,
          cf_before_tool_call := ao_before_tool_call options,
          cf_after_tool_call := ao_after_tool_call options,
          cf_should_stop_after_turn := ao_should_stop_after_turn options,
          cf_prepare_next_turn := ao_prepare_next_turn options,
          cf_get_steering_messages := Some take_steering,
          cf_get_follow_up_messages := Some take_follow_up\<rparr>)"

text \<open>The surroundings of the run on channel \<open>c\<close>: its events go to \<open>process_event\<close>.\<close>

definition run_env :: "('m, 'o) agent_wiring \<Rightarrow> nat \<Rightarrow> ('m, 'o) stream_fn \<Rightarrow> ('m, 'o) agent_env" where
  "run_env A c stream =
     \<lparr>le_sink = process_event A, le_now_ms = aw_now_ms A, le_provider = aw_model_provider A,
      le_stream = stream, le_validate = aw_validate A, le_pick = aw_pick A,
      le_signal = Some (channel_signal c)\<rparr>"

definition assistant_text :: "string \<Rightarrow> assistant_content" where
  "assistant_text s = ACText \<lparr>tc_text = s, tc_text_signature = None\<rparr>"

definition failure_message ::
  "('m, 'o) agent_wiring \<Rightarrow> agent_error \<Rightarrow> ('m, 'o) agent_inner \<Rightarrow> assistant_message" where
  "failure_message A error w =
     (let aborted = (case in_active_run w of Some c \<Rightarrow> channel_signal c w | None \<Rightarrow> False);
          model = st_model (in_state w)
      in \<lparr>am_content = [assistant_text []], am_api = aw_model_api A model,
          am_provider = aw_model_provider A model, am_model = aw_model_id A model,
          am_response_model = None, am_response_id = None, am_diagnostics = None,
          am_usage = usage_default, am_stop_reason = (if aborted then SRAborted else SRError),
          am_deferred = None, am_error_message = Some (agent_error_message error),
          am_raw_stop_reason = None, am_end_turn = None, am_timestamp = aw_now_ms A w\<rparr>)"

definition failure_events :: "assistant_message \<Rightarrow> agent_event list" where
  "failure_events failure =
     [MessageStart (AAssistant failure), MessageEnd (AAssistant failure), TurnEnd (AAssistant failure) [],
      AgentEnd [AAssistant failure]]"

definition log_event ::
  "('m, 'o) agent_wiring \<Rightarrow> agent_event \<Rightarrow> ('m, 'o) agent_inner run \<Rightarrow> ('m, 'o) agent_inner run" where
  "log_event A ev s = \<lparr>rn_world = process_event A ev (rn_world s), rn_events = rn_events s @ [ev]\<rparr>"

definition handle_run_failure ::
  "('m, 'o) agent_wiring \<Rightarrow> agent_error \<Rightarrow> ('m, 'o) agent_inner run \<Rightarrow> ('m, 'o) agent_inner run" where
  "handle_run_failure A error s =
     fold (log_event A) (failure_events (failure_message A error (rn_world s))) s"

text \<open>Finishing a run: the state is settled, the run released and the flag cleared, one after the other.\<close>

definition settle_state :: "('m, 'o) agent_inner \<Rightarrow> ('m, 'o) agent_inner" where
  "settle_state w =
     w\<lparr>in_state := (in_state w)\<lparr>st_is_streaming := False, st_streaming_message := None,
         st_pending_tool_calls := {}\<rparr>\<rparr>"

definition release_run :: "('m, 'o) agent_inner \<Rightarrow> ('m, 'o) agent_inner" where
  "release_run w = w\<lparr>in_active_run := None\<rparr>"

definition mark_stopped :: "('m, 'o) agent_inner \<Rightarrow> ('m, 'o) agent_inner" where
  "mark_stopped w = w\<lparr>in_running := False\<rparr>"

definition finish_run ::
  "(run_gap \<Rightarrow> ('m, 'o) agent_inner \<Rightarrow> ('m, 'o) agent_inner) \<Rightarrow> ('m, 'o) agent_inner \<Rightarrow> ('m, 'o) agent_inner" where
  "finish_run others w =
     mark_stopped (others GapReleased (release_run (others GapSettled (settle_state w))))"

text \<open>Starting a run: it is claimed with its abort channel, the flag set, and the state made ready.\<close>

definition claim_active :: "('m, 'o) agent_inner \<Rightarrow> ('m, 'o) agent_inner" where
  "claim_active w = w\<lparr>in_active_run := Some (in_next_channel w), in_next_channel := in_next_channel w + 1\<rparr>"

definition mark_running :: "('m, 'o) agent_inner \<Rightarrow> ('m, 'o) agent_inner" where
  "mark_running w = w\<lparr>in_running := True\<rparr>"

definition begin_streaming :: "('m, 'o) agent_inner \<Rightarrow> ('m, 'o) agent_inner" where
  "begin_streaming w =
     w\<lparr>in_state := (in_state w)\<lparr>st_is_streaming := True, st_streaming_message := None,
         st_error_message := None\<rparr>\<rparr>"

definition claim_run ::
  "(run_gap \<Rightarrow> ('m, 'o) agent_inner \<Rightarrow> ('m, 'o) agent_inner) \<Rightarrow> ('m, 'o) agent_inner \<Rightarrow> ('m, 'o) agent_inner" where
  "claim_run others w =
     begin_streaming (others GapMarked (mark_running (others GapClaimed (claim_active w))))"

definition run_with_lifecycle ::
  "('m, 'o) agent_wiring \<Rightarrow> (run_gap \<Rightarrow> ('m, 'o) agent_inner \<Rightarrow> ('m, 'o) agent_inner) \<Rightarrow>
   (nat \<Rightarrow> ('m, 'o) agent_inner \<Rightarrow> ('m, 'o) agent_inner run \<times> (agent_error + unit) option) \<Rightarrow>
   ('m, 'o) agent_inner \<Rightarrow> ('m, 'o) agent_inner run \<times> (agent_error + unit) option" where
  "run_with_lifecycle A others executor w =
     (if in_active_run w \<noteq> None
      then (\<lparr>rn_world = w, rn_events = []\<rparr>, Some (Inl (AEInvalidState ''Agent is already processing.'')))
      else
        case executor (in_next_channel w) (claim_run others w) of
          (s, None) \<Rightarrow> (s, None)
        | (s, Some outcome) \<Rightarrow>
            let s = (case outcome of Inl e \<Rightarrow> handle_run_failure A e s | Inr _ \<Rightarrow> s)
            in (s\<lparr>rn_world := finish_run others (rn_world s)\<rparr>, Some (Inr ())))"

definition drop_result :: "'a run \<times> (agent_error + 'b) option \<Rightarrow> 'a run \<times> (agent_error + unit) option" where
  "drop_result r = (fst r, map_option (map_sum id (\<lambda>_. ())) (snd r))"

definition run_prompt_messages ::
  "('m, 'o) agent_wiring \<Rightarrow> nat \<Rightarrow> (run_gap \<Rightarrow> ('m, 'o) agent_inner \<Rightarrow> ('m, 'o) agent_inner) \<Rightarrow>
   agent_message list \<Rightarrow> bool \<Rightarrow> ('m, 'o) agent_inner \<Rightarrow>
   ('m, 'o) agent_inner run \<times> (agent_error + unit) option" where
  "run_prompt_messages A n others messages skip_initial_steering_poll =
     run_with_lifecycle A others (\<lambda>c w.
       let w' = w\<lparr>in_skip_first := skip_initial_steering_poll\<rparr>
       in case resolve_stream_fn A w of
            Inl e \<Rightarrow> (\<lparr>rn_world = w', rn_events = []\<rparr>, Some (Inl e))
          | Inr stream \<Rightarrow>
              drop_result (run_agent_loop (run_env A c stream) n messages (loop_config A w)
                (context_snapshot A w) w'))"

definition run_continuation ::
  "('m, 'o) agent_wiring \<Rightarrow> nat \<Rightarrow> (run_gap \<Rightarrow> ('m, 'o) agent_inner \<Rightarrow> ('m, 'o) agent_inner) \<Rightarrow>
   ('m, 'o) agent_inner \<Rightarrow>
   ('m, 'o) agent_inner run \<times> (agent_error + unit) option" where
  "run_continuation A n others =
     run_with_lifecycle A others (\<lambda>c w.
       let w' = w\<lparr>in_skip_first := False\<rparr>
       in case resolve_stream_fn A w of
            Inl e \<Rightarrow> (\<lparr>rn_world = w', rn_events = []\<rparr>, Some (Inl e))
          | Inr stream \<Rightarrow>
              drop_result (run_agent_loop_continue (run_env A c stream) n (loop_config A w)
                (context_snapshot A w) w'))"

section \<open>Entry points\<close>

definition agent_prompt ::
  "('m, 'o) agent_wiring \<Rightarrow> nat \<Rightarrow> (run_gap \<Rightarrow> ('m, 'o) agent_inner \<Rightarrow> ('m, 'o) agent_inner) \<Rightarrow>
   agent_message list \<Rightarrow> ('m, 'o) agent_inner \<Rightarrow> ('m, 'o) agent_inner run \<times> (agent_error + unit) option" where
  "agent_prompt A n others messages w =
     (if in_active_run w \<noteq> None
      then (\<lparr>rn_world = w, rn_events = []\<rparr>, Some (Inl (AEInvalidState
        ''Agent is already processing a prompt. Use steer() or followUp() to queue messages, or wait for completion.'')))
      else run_prompt_messages A n others messages False (others GapCheck w))"

definition prompt_text ::
  "('m, 'o) agent_wiring \<Rightarrow> nat \<Rightarrow> (run_gap \<Rightarrow> ('m, 'o) agent_inner \<Rightarrow> ('m, 'o) agent_inner) \<Rightarrow>
   string \<Rightarrow> image_content list \<Rightarrow> ('m, 'o) agent_inner \<Rightarrow>
   ('m, 'o) agent_inner run \<times> (agent_error + unit) option" where
  "prompt_text A n others input images w =
     agent_prompt A n others
       [AUser \<lparr>um_content = UCBlocks (input_text input # map ICImage images), um_timestamp = aw_now_ms A w\<rparr>] w"

definition continue_run ::
  "('m, 'o) agent_wiring \<Rightarrow> nat \<Rightarrow> (run_gap \<Rightarrow> ('m, 'o) agent_inner \<Rightarrow> ('m, 'o) agent_inner) \<Rightarrow>
   ('m, 'o) agent_inner \<Rightarrow> ('m, 'o) agent_inner run \<times> (agent_error + unit) option" where
  "continue_run A n others w =
     (let refuse = (\<lambda>w e. (\<lparr>rn_world = w, rn_events = []\<rparr>, Some (Inl (AEInvalidState e))))
      in if in_active_run w \<noteq> None
         then refuse w ''Agent is already processing. Wait for completion before continuing.''
         else
           let w0 = others GapCheck w
           in if st_messages (in_state w0) = [] then refuse w0 ''No messages to continue from''
              else
                let wr = others GapRead w0
                in case last (st_messages (in_state w0)) of
                     AAssistant _ \<Rightarrow>
                       (let (sq, steering) = pq_drain (in_steering wr);
                            w1 = others GapSteering (wr\<lparr>in_steering := sq\<rparr>)
                        in if steering \<noteq> [] then run_prompt_messages A n others steering True w1
                           else
                             let (fq, follow_ups) = pq_drain (in_follow_up w1);
                                 w2 = others GapFollowUp (w1\<lparr>in_follow_up := fq\<rparr>)
                             in if follow_ups \<noteq> [] then run_prompt_messages A n others follow_ups False w2
                                else refuse w2 ''Cannot continue from message role: assistant'')
                   | _ \<Rightarrow> run_continuation A n others wr)"

end
