(* ===== verification/Agent_Lifecycle.thy ===== *)
theory Agent_Lifecycle
  imports Agent_Handle
begin

text \<open>
  The life of an agent handle. \<open>quiet_step\<close> and \<open>interface_step\<close> are what code outside a run can do
  to the handle while a run is active: every operation of its interface, the first relation without
  those that write the transcript. Tools, hooks, listeners and stream functions are assumed to use
  no other way (\<open>outside\<close>), and the frame of the loop carries facts about the handle through whole
  runs: that the run stays claimed, and that its state is the reduction of the events.
\<close>

section \<open>What happens to the handle during a run\<close>

inductive quiet_step :: "('m, 'o) agent_inner \<Rightarrow> ('m, 'o) agent_inner \<Rightarrow> bool" where
  qs_outer: "quiet_step w (w\<lparr>in_outer := x\<rparr>)"
| qs_subscribe: "quiet_step w (fst (subscribe l w))"
| qs_unsubscribe: "quiet_step w (unsubscribe i w)"
| qs_system_prompt: "quiet_step w (set_system_prompt p w)"
| qs_model: "quiet_step w (set_model m w)"
| qs_thinking: "quiet_step w (agent_set_thinking_level level w)"
| qs_tools: "quiet_step w (set_tools ts w)"
| qs_env: "quiet_step w (set_env e w)"
| qs_session: "quiet_step w (set_session_id sid w)"
| qs_execution: "quiet_step w (set_tool_execution mode w)"
| qs_default: "quiet_step w (set_default_stream_fn f w)"
| qs_steer: "quiet_step w (steer msg w)"
| qs_follow_up: "quiet_step w (follow_up msg w)"
| qs_steering_mode: "quiet_step w (set_steering_mode qm w)"
| qs_follow_up_mode: "quiet_step w (set_follow_up_mode qm w)"
| qs_clear: "quiet_step w (clear_all_queues w)"
| qs_clear_steering: "quiet_step w (clear_steering_queue w)"
| qs_clear_follow_up: "quiet_step w (clear_follow_up_queue w)"
| qs_take_steering: "quiet_step w (fst (take_steering w))"
| qs_take_follow_up: "quiet_step w (fst (take_follow_up w))"
| qs_abort: "quiet_step w (abort w)"
| qs_reset: "quiet_step w (fst (reset (\<lambda>_ v. v) w))"

inductive interface_step :: "('m, 'o) agent_inner \<Rightarrow> ('m, 'o) agent_inner \<Rightarrow> bool" where
  is_quiet: "quiet_step w w' \<Longrightarrow> interface_step w w'"
| is_set_messages: "interface_step w (set_messages ms w)"
| is_push_message: "interface_step w (agent_push_message m w)"

lemmas handle_op_defs = subscribe_def unsubscribe_def set_system_prompt_def set_model_def
  agent_set_thinking_level_def set_tools_def set_env_def set_session_id_def set_tool_execution_def
  set_default_stream_fn_def steer_def follow_up_def set_steering_mode_def set_follow_up_mode_def
  clear_all_queues_def clear_steering_queue_def clear_follow_up_queue_def take_steering_def
  take_follow_up_def abort_def reset_def reset_state_def set_messages_def agent_push_message_def

text \<open>The code a wiring points to changes the handle only by steps of \<open>S\<close>.\<close>

definition within :: "('w \<Rightarrow> 'w \<Rightarrow> bool) \<Rightarrow> ('w \<Rightarrow> 'w \<times> 'a) \<Rightarrow> bool" where
  "within S f \<longleftrightarrow> (\<forall>w. S\<^sup>*\<^sup>* w (fst (f w)))"

definition agent_stream :: "('m, 'o) agent_wiring \<Rightarrow> ('m, 'o) stream_fn \<Rightarrow> bool" where
  "agent_stream A f \<longleftrightarrow> ao_stream_fn (aw_options A) = Some f \<or> f \<in> range (aw_stream_fn A)"

definition outside :: "(('m, 'o) agent_inner \<Rightarrow> ('m, 'o) agent_inner \<Rightarrow> bool) \<Rightarrow> ('m, 'o) agent_wiring \<Rightarrow> bool" where
  "outside S A \<longleftrightarrow>
     (\<forall>l ev sg w. S\<^sup>*\<^sup>* w (aw_listener A l ev sg w)) \<and>
     (\<forall>f m c opts. agent_stream A f \<longrightarrow> within S (f m c opts)) \<and>
     (\<forall>i a tc sg. within S (tool_execute (aw_tool A i) a tc sg)) \<and>
     (\<forall>f\<in>set_option (ao_convert_to_llm (aw_options A)). \<forall>ms. within S (f ms)) \<and>
     (\<forall>f\<in>set_option (ao_transform_context (aw_options A)). \<forall>ms sg. within S (f ms sg)) \<and>
     (\<forall>f\<in>set_option (ao_get_api_key (aw_options A)). \<forall>p. within S (f p)) \<and>
     (\<forall>f\<in>set_option (ao_before_tool_call (aw_options A)). \<forall>c sg. within S (f c sg)) \<and>
     (\<forall>f\<in>set_option (ao_after_tool_call (aw_options A)). \<forall>c sg. within S (f c sg)) \<and>
     (\<forall>f\<in>set_option (ao_should_stop_after_turn (aw_options A)). \<forall>t. within S (f t)) \<and>
     (\<forall>f\<in>set_option (ao_prepare_next_turn (aw_options A)). \<forall>t. within S (f t) \<and>
        (\<forall>w u ctx. snd (f t w) = Some u \<longrightarrow> tu_context u = Some ctx \<longrightarrow>
           list_all (\<lambda>t. t \<in> range (aw_tool A)) (ac_tools ctx)))"

text \<open>An invariant of a run: kept by the steps of \<open>S\<close> and by the reduction of an event.\<close>

definition reduce_run :: "agent_event \<Rightarrow> ('m, 'o) agent_inner run \<Rightarrow> ('m, 'o) agent_inner run" where
  "reduce_run ev s =
     \<lparr>rn_world = (rn_world s)\<lparr>in_state := reduce_event ev (in_state (rn_world s))\<rparr>, rn_events = rn_events s @ [ev]\<rparr>"

definition run_invariant ::
  "(('m, 'o) agent_inner \<Rightarrow> ('m, 'o) agent_inner \<Rightarrow> bool) \<Rightarrow> (('m, 'o) agent_inner run \<Rightarrow> bool) \<Rightarrow> bool" where
  "run_invariant S P \<longleftrightarrow>
     (\<forall>s w. P s \<longrightarrow> S (rn_world s) w \<longrightarrow> P (s\<lparr>rn_world := w\<rparr>)) \<and>
     (\<forall>s ev. P s \<longrightarrow> P (reduce_run ev s)) \<and>
     (\<forall>w. S w (fst (take_steering w)) \<and> S w (fst (take_follow_up w)))"

lemma run_invariant_steps:
  assumes "run_invariant S P" and "S\<^sup>*\<^sup>* w w'" and "P \<lparr>rn_world = w, rn_events = evs\<rparr>"
  shows "P \<lparr>rn_world = w', rn_events = evs\<rparr>"
  using assms(2,3)
proof (induction rule: rtranclp_induct)
  case (step y z)
  have "P (\<lparr>rn_world = y, rn_events = evs\<rparr>\<lparr>rn_world := z\<rparr>)"
    using assms(1) step unfolding run_invariant_def by (metis run.select_convs(1))
  then show ?case by simp
qed

lemma run_invariant_log:
  assumes "run_invariant S P" and "outside S A" and "P s"
  shows "P (log_event A ev s)"
proof -
  let ?w = "(rn_world s)\<lparr>in_state := reduce_event ev (in_state (rn_world s))\<rparr>"
  have red: "P \<lparr>rn_world = ?w, rn_events = rn_events s @ [ev]\<rparr>"
    using assms(1,3) by (simp add: run_invariant_def reduce_run_def)
  have listen: "S\<^sup>*\<^sup>* w (aw_listener A l e sg w)" for l e sg w using assms(2) by (simp add: outside_def)
  have "P \<lparr>rn_world = fold (\<lambda>(_, l). aw_listener A l ev sg) ls w, rn_events = evs\<rparr>"
    if "P \<lparr>rn_world = w, rn_events = evs\<rparr>" for sg ls w evs
    using that by (induction ls arbitrary: w) (auto intro: run_invariant_steps [OF assms(1) listen])
  from this [OF red] red show ?thesis
    by (auto simp: log_event_def process_event_def Let_def split: option.splits)
qed

definition handle_frame ::
  "('m, 'o) agent_wiring \<Rightarrow> (('m, 'o) agent_inner \<Rightarrow> ('m, 'o) agent_inner \<Rightarrow> bool) \<Rightarrow>
   (('m, 'o) agent_inner run \<Rightarrow> bool) \<Rightarrow> ('m, 'o) stream_fn \<Rightarrow>
   ('m, 'o) agent_inner run \<Rightarrow> ('m, 'o) agent_inner run \<Rightarrow> bool" where
  "handle_frame A S P stream s s' \<longleftrightarrow>
     (outside S A \<and> run_invariant S P \<and> agent_stream A stream \<longrightarrow> P s \<longrightarrow> P s')"

lemma emit_run_env: "emit (run_env A c stream) ev s = log_event A ev s"
  by (simp add: emit_def run_env_def log_event_def)

lemma within_abides:
  assumes "\<lbrakk>outside S A; run_invariant S P; agent_stream A stream\<rbrakk> \<Longrightarrow> within S f"
  shows "abides (handle_frame A S P stream) f"
  unfolding abides_def handle_frame_def
proof (intro allI impI, elim conjE)
  fix s assume a: "outside S A" "run_invariant S P" "agent_stream A stream" "P s"
  have "S\<^sup>*\<^sup>* (rn_world s) (fst (f (rn_world s)))" using assms a by (simp add: within_def)
  from run_invariant_steps [OF a(2) this, of "rn_events s"] a(4)
  show "P (fst (call_world f s))" by (cases s) (simp add: call_world_def split_beta)
qed

interpretation handle_run: run_frame "run_env A c stream" "handle_frame A S P stream" "\<lambda>t. t \<in> range (aw_tool A)"
  for A :: "('m, 'o) agent_wiring" and c S P stream
proof unfold_locales
  fix s s1 s2 ev m ct opts t a tc sg
  show "handle_frame A S P stream s s" by (simp add: handle_frame_def)
  show "handle_frame A S P stream s s1 \<Longrightarrow> handle_frame A S P stream s1 s2 \<Longrightarrow> handle_frame A S P stream s s2"
    by (simp add: handle_frame_def)
  show "handle_frame A S P stream s (emit (run_env A c stream) ev s)"
    by (auto simp: handle_frame_def emit_run_env intro: run_invariant_log)
  show "abides (handle_frame A S P stream) (le_stream (run_env A c stream) m ct opts)"
    by (rule within_abides) (simp add: outside_def run_env_def)
  show "t \<in> range (aw_tool A) \<Longrightarrow> abides (handle_frame A S P stream) (tool_execute t a tc sg)"
    by (rule within_abides) (auto simp: outside_def)
qed

lemma loop_config_simps [simp]:
  "cf_convert_to_llm (loop_config A w) = or_default (ao_convert_to_llm (aw_options A)) default_convert"
  "cf_transform_context (loop_config A w) = ao_transform_context (aw_options A)"
  "cf_get_api_key (loop_config A w) = ao_get_api_key (aw_options A)"
  "cf_before_tool_call (loop_config A w) = ao_before_tool_call (aw_options A)"
  "cf_after_tool_call (loop_config A w) = ao_after_tool_call (aw_options A)"
  "cf_should_stop_after_turn (loop_config A w) = ao_should_stop_after_turn (aw_options A)"
  "cf_prepare_next_turn (loop_config A w) = ao_prepare_next_turn (aw_options A)"
  "cf_get_steering_messages (loop_config A w) = Some take_steering"
  "cf_get_follow_up_messages (loop_config A w) = Some take_follow_up"
  by (simp_all add: loop_config_def Let_def)

lemma handle_hooks_abide:
  assumes "outside S A"
  shows "hooks_abide (handle_frame A S P stream) (\<lambda>t. t \<in> range (aw_tool A)) (loop_config A w)"
proof -
  note ab = within_abides [of S A P stream]
  have "abides (handle_frame A S P stream) take_steering" "abides (handle_frame A S P stream) take_follow_up"
    by (rule ab; auto simp: run_invariant_def within_def)+
  moreover have "abides (handle_frame A S P stream) (or_default (ao_convert_to_llm (aw_options A)) default_convert ms)" for ms
    using assms by (intro ab) (auto simp: or_default_def outside_def within_def default_convert_def split: option.splits)
  ultimately show ?thesis
    using assms by (auto simp: hooks_abide_def outside_def intro!: ab)
qed

lemma context_snapshot_tools: "list_all (\<lambda>t. t \<in> range (aw_tool A)) (ac_tools (context_snapshot A w))"
  by (auto simp: context_snapshot_def list_all_iff)

lemma resolve_agent_stream: "resolve_stream_fn A w = Inr stream \<Longrightarrow> agent_stream A stream"
  by (auto simp: resolve_stream_fn_def agent_stream_def split: option.splits)

text \<open>An invariant of runs holds when the run settles, up to the fields that settling resets.\<close>

definition settled ::
  "(run_gap \<Rightarrow> ('m, 'o) agent_inner \<Rightarrow> ('m, 'o) agent_inner) \<Rightarrow> (('m, 'o) agent_inner run \<Rightarrow> bool) \<Rightarrow>
   ('m, 'o) agent_inner run \<Rightarrow> (agent_error + unit) option \<Rightarrow> bool" where
  "settled others P s r \<longleftrightarrow>
     (r = None \<and> P s \<or>
      r = Some (Inr ()) \<and> (\<exists>s0. P s0 \<and> s = s0\<lparr>rn_world := finish_run others (rn_world s0)\<rparr>))"

lemma handle_run_failure_keeps:
  assumes "run_invariant S P" and "outside S A" and "P s"
  shows "P (handle_run_failure A e s)"
proof -
  have "P (fold (log_event A) evs s)" for evs
    using assms(3) by (induction evs arbitrary: s) (simp_all add: run_invariant_log [OF assms(1,2)])
  then show ?thesis by (simp add: handle_run_failure_def)
qed

lemma run_with_lifecycle_settles:
  assumes "run_invariant S P" and "outside S A" and "in_active_run w = None"
    and "P (fst (executor (in_next_channel w) (claim_run others w)))"
    and "run_with_lifecycle A others executor w = (s, r)"
  shows "settled others P s r"
proof -
  obtain s1 out where ex: "executor (in_next_channel w) (claim_run others w) = (s1, out)" by fastforce
  show ?thesis
  proof (cases out)
    case None
    with assms(3-) ex show ?thesis by (auto simp: run_with_lifecycle_def settled_def)
  next
    case (Some o1)
    define s0 where "s0 = (case o1 of Inl e \<Rightarrow> handle_run_failure A e s1 | Inr _ \<Rightarrow> s1)"
    have "P s0"
      using assms(4) handle_run_failure_keeps [OF assms(1,2)] by (auto simp: s0_def ex split: sum.splits)
    moreover have "s = s0\<lparr>rn_world := finish_run others (rn_world s0)\<rparr>" "r = Some (Inr ())"
      using assms(3,5) Some ex by (auto simp: run_with_lifecycle_def s0_def Let_def)
    ultimately show ?thesis by (auto simp: settled_def)
  qed
qed

lemma run_invariant_loop:
  assumes "run_invariant S P" and "outside S A" and "resolve_stream_fn A w = Inr stream"
    and "P \<lparr>rn_world = w', rn_events = []\<rparr>"
  shows "P (fst (run_agent_loop (run_env A c stream) n ms (loop_config A w) (context_snapshot A w) w'))"
    and "P (fst (run_agent_loop_continue (run_env A c stream) n (loop_config A w) (context_snapshot A w) w'))"
proof -
  note frame = handle_run.frame_loop [OF handle_hooks_abide [OF assms(2)] context_snapshot_tools]
  have "handle_frame A S P stream s s' \<Longrightarrow> P s \<Longrightarrow> P s'" for s s'
    using assms resolve_agent_stream by (auto simp: handle_frame_def)
  then show "P (fst (run_agent_loop (run_env A c stream) n ms (loop_config A w) (context_snapshot A w) w'))"
    and "P (fst (run_agent_loop_continue (run_env A c stream) n (loop_config A w) (context_snapshot A w) w'))"
    using frame(1) [OF surjective_pairing] frame(2) [OF surjective_pairing] assms(4) by blast+
qed

lemma runs_settle:
  assumes "run_invariant S P" and "outside S A" and "in_active_run w = None"
  shows "\<lbrakk>P \<lparr>rn_world = (claim_run others w)\<lparr>in_skip_first := skip\<rparr>, rn_events = []\<rparr>;
      run_prompt_messages A n others ms skip w = (s, r)\<rbrakk> \<Longrightarrow> settled others P s r"
    and "\<lbrakk>P \<lparr>rn_world = (claim_run others w)\<lparr>in_skip_first := False\<rparr>, rn_events = []\<rparr>;
      run_continuation A n others w = (s, r)\<rbrakk> \<Longrightarrow> settled others P s r"
proof -
  note life = run_with_lifecycle_settles [OF assms]
  show "settled others P s r" if "P \<lparr>rn_world = (claim_run others w)\<lparr>in_skip_first := skip\<rparr>, rn_events = []\<rparr>"
    "run_prompt_messages A n others ms skip w = (s, r)"
    by (rule life [OF _ that(2) [unfolded run_prompt_messages_def]])
      (use that(1) in \<open>auto simp: Let_def drop_result_def intro: run_invariant_loop [OF assms(1,2)] split: sum.splits\<close>)
  show "settled others P s r" if "P \<lparr>rn_world = (claim_run others w)\<lparr>in_skip_first := False\<rparr>, rn_events = []\<rparr>"
    "run_continuation A n others w = (s, r)"
    by (rule life [OF _ that(2) [unfolded run_continuation_def]])
      (use that(1) in \<open>auto simp: Let_def drop_result_def intro: run_invariant_loop [OF assms(1,2)] split: sum.splits\<close>)
qed

section \<open>Idle handles\<close>

definition handle_idle :: "('m, 'o) agent_inner \<Rightarrow> bool" where
  "handle_idle w \<longleftrightarrow>
     in_active_run w = None \<and> \<not> in_running w \<and> \<not> st_is_streaming (in_state w) \<and>
     st_streaming_message (in_state w) = None \<and> st_pending_tool_calls (in_state w) = {}"

lemma quiet_step_frame:
  assumes "quiet_step w w'"
  shows "in_active_run w' = in_active_run w" and "in_next_channel w' = in_next_channel w"
    and "in_running w' = in_running w"
    and "in_aborted w' \<subseteq> in_aborted w \<union> set_option (in_active_run w)"
    and "in_active_run w \<noteq> None \<Longrightarrow> st_is_streaming (in_state w') = st_is_streaming (in_state w)"
    and "handle_idle w \<Longrightarrow> handle_idle w'"
  using assms
  by (cases rule: quiet_step.cases;
      auto simp: handle_op_defs handle_idle_def pq_clear_def split_beta Let_def split: option.splits if_splits)+

section \<open>The state is the reduction of the events\<close>

text \<open>The part of the state that the events of a run determine.\<close>

definition run_view :: "'m agent_state \<Rightarrow> agent_message list \<times> agent_message option \<times> string set \<times> string option" where
  "run_view st = (st_messages st, st_streaming_message st, st_pending_tool_calls st, st_error_message st)"

definition tracks :: "nat \<Rightarrow> 'm agent_state \<Rightarrow> ('m, 'o) agent_inner run \<Rightarrow> bool" where
  "tracks c st0 s \<longleftrightarrow>
     in_active_run (rn_world s) = Some c \<and>
     run_view (in_state (rn_world s)) = run_view (fold reduce_event (rn_events s) st0)"

lemma reduce_event_view: "run_view st = run_view st' \<Longrightarrow> run_view (reduce_event ev st) = run_view (reduce_event ev st')"
  by (cases ev) (auto simp: run_view_def split: option.splits)

lemma quiet_step_view:
  "quiet_step w w' \<Longrightarrow> in_active_run w \<noteq> None \<Longrightarrow> run_view (in_state w') = run_view (in_state w)"
  by (cases rule: quiet_step.cases, assumption)
    (auto simp: handle_op_defs run_view_def split_beta Let_def split: option.splits if_splits)

lemma tracks_invariant: "run_invariant quiet_step (tracks c st0)"
  by (auto simp: run_invariant_def tracks_def reduce_run_def quiet_step_view quiet_step_frame(1)
      intro: reduce_event_view qs_take_steering qs_take_follow_up)

lemma reduced_messages: "st_messages (fold reduce_event evs st) = st_messages st @ message_ends evs"
proof (induction evs arbitrary: st)
  case (Cons ev evs)
  then show ?case by (cases ev) (auto split: option.splits)
qed simp

text \<open>The error of a turn, and the last one of a run.\<close>

fun turn_error :: "agent_event \<Rightarrow> string option" where
  "turn_error (TurnEnd m _) = Option.bind (as_assistant m) am_error_message"
| "turn_error _ = None"

fun last_error :: "string option \<Rightarrow> agent_event list \<Rightarrow> string option" where
  "last_error e [] = e"
| "last_error e (ev # evs) = last_error (case turn_error ev of Some e' \<Rightarrow> Some e' | None \<Rightarrow> e) evs"

lemma reduced_error: "st_error_message (fold reduce_event evs st) = last_error (st_error_message st) evs"
proof (induction evs arbitrary: st)
  case (Cons ev evs)
  then show ?case by (cases ev) (auto split: option.splits)
qed simp

text \<open>What a run of a prompt leaves behind.\<close>

lemma quiet_steps_frame:
  assumes "quiet_step\<^sup>*\<^sup>* w w'" and "in_active_run w = Some c"
  shows "in_active_run w' = Some c \<and> run_view (in_state w') = run_view (in_state w) \<and>
    st_is_streaming (in_state w') = st_is_streaming (in_state w)"
  using assms by (induction rule: rtranclp_induct) (auto simp: quiet_step_view quiet_step_frame)

text \<open>The other threads write no transcript while the run is claimed, and nothing after its release.\<close>

definition quiet_others :: "(run_gap \<Rightarrow> ('m, 'o) agent_inner \<Rightarrow> ('m, 'o) agent_inner) \<Rightarrow> bool" where
  "quiet_others others \<longleftrightarrow>
     (\<forall>g v. g \<in> {GapClaimed, GapMarked, GapSettled} \<longrightarrow> quiet_step\<^sup>*\<^sup>* v (others g v)) \<and> (\<forall>v. others GapReleased v = v)"

lemma settled_tracks:
  assumes "settled others (tracks c st0) s (Some (Inr ()))" and "st_error_message st0 = None" and "quiet_others others"
  shows "handle_idle (rn_world s) \<and>
    st_messages (in_state (rn_world s)) = st_messages st0 @ message_ends (rn_events s) \<and>
    st_error_message (in_state (rn_world s)) = last_error None (rn_events s)"
proof -
  from assms(1) obtain s0 where s0: "tracks c st0 s0" "s = s0\<lparr>rn_world := finish_run others (rn_world s0)\<rparr>"
    by (auto simp: settled_def)
  let ?v = "settle_state (rn_world s0)"
  have "quiet_step\<^sup>*\<^sup>* ?v (others GapSettled ?v)" using assms(3) by (simp add: quiet_others_def)
  moreover have "in_active_run ?v = Some c" using s0(1) by (simp add: tracks_def settle_state_def)
  ultimately have v: "run_view (in_state (others GapSettled ?v)) = run_view (in_state ?v)"
    "st_is_streaming (in_state (others GapSettled ?v)) = st_is_streaming (in_state ?v)"
    using quiet_steps_frame by blast+
  with s0 assms(2,3) reduced_messages [of "rn_events s" st0] reduced_error [of "rn_events s" st0] show ?thesis
    by (auto simp: tracks_def run_view_def handle_idle_def finish_run_def quiet_others_def settle_state_def
        release_run_def mark_stopped_def)
qed

definition streams_start_once :: "('m, 'o) agent_wiring \<Rightarrow> bool" where
  "streams_start_once A \<longleftrightarrow> (\<forall>f c. agent_stream A f \<longrightarrow> single_start (run_env A c f))"

text \<open>The events of a settled prompt: those of the loop, and those of a failure.\<close>

definition prompt_events :: "agent_message list \<Rightarrow> agent_event list \<Rightarrow> turn_record list \<Rightarrow> bool" where
  "prompt_events prompts evs turns \<longleftrightarrow>
     list_all (turn_answered True) turns \<and>
     (follows (Outside, {#}) evs = Some (Ended, {#}) \<and> message_ends evs = prompts @ transcript turns \<or>
      (\<exists>before f. evs = before @ failure_events f \<and> am_stop_reason f \<in> {SRError, SRAborted} \<and>
         (before = [] \<or> (\<exists>rest. message_ends before = prompts @ transcript turns @ rest))))"

lemma failure_run_events:
  "\<exists>f. rn_events (handle_run_failure A e s) = rn_events s @ failure_events f \<and> am_stop_reason f \<in> {SRError, SRAborted}"
proof -
  have "rn_events (fold (log_event A) evs s) = rn_events s @ evs" for evs
    by (induction evs arbitrary: s) (simp_all add: log_event_def)
  then show ?thesis
    by (intro exI [of _ "failure_message A e (rn_world s)"]) (simp add: handle_run_failure_def failure_message_def Let_def)
qed

lemma run_prompt_events:
  assumes "streams_start_once A" and "in_active_run w = None"
    and "run_prompt_messages A n others prompts skip w = (s, Some (Inr ()))"
  shows "\<exists>turns. prompt_events prompts (rn_events s) turns"
proof -
  let ?w = "(claim_run others w)\<lparr>in_skip_first := skip\<rparr>"
  show ?thesis
  proof (cases "resolve_stream_fn A (claim_run others w)")
    case (Inl e)
    then have "s = (handle_run_failure A e \<lparr>rn_world = ?w, rn_events = []\<rparr>)
        \<lparr>rn_world := finish_run others (rn_world (handle_run_failure A e \<lparr>rn_world = ?w, rn_events = []\<rparr>))\<rparr>"
      using assms(2,3) by (simp add: run_prompt_messages_def run_with_lifecycle_def Let_def)
    with failure_run_events [of A e "\<lparr>rn_world = ?w, rn_events = []\<rparr>"] show ?thesis
      by (auto simp: prompt_events_def intro!: exI [of _ "[]"])
  next
    case (Inr stream)
    obtain s1 r where run: "run_agent_loop (run_env A (in_next_channel w) stream) n prompts
        (loop_config A (claim_run others w)) (context_snapshot A (claim_run others w)) ?w = (s1, r)" by fastforce
    have once: "single_start (run_env A (in_next_channel w) stream)"
      using assms(1) resolve_agent_stream [OF Inr] by (simp add: streams_start_once_def)
    from run_agent_loop_trace [OF once run] obtain turns where
      turns: "list_all (turn_answered True) turns" and
      trace: "case r of
         Some (Inr ms) \<Rightarrow>
           follows (Outside, {#}) (rn_events s1) = Some (Ended, {#}) \<and> ms = prompts @ transcript turns \<and>
           message_ends (rn_events s1) = ms \<and> (\<exists>evs. rn_events s1 = evs @ [AgentEnd ms])
       | Some (Inl e) \<Rightarrow>
           \<exists>ph ms. follows (Outside, {#}) (rn_events s1) = Some (ph, {#}) \<and> ph \<noteq> Ended \<and>
             message_ends (rn_events s1) = prompts @ transcript turns @ ms
       | None \<Rightarrow>
           \<exists>ph. follows (Outside, {#}) (rn_events s1) = Some (ph, {#}) \<and> ph \<noteq> Ended \<and>
             message_ends (rn_events s1) = prompts @ transcript turns"
      by (auto simp: run_env_def)
    have s: "\<exists>x. r = Some x \<and> rn_events s = rn_events (case x of Inl e \<Rightarrow> handle_run_failure A e s1 | Inr _ \<Rightarrow> s1)"
      using assms(2,3) Inr run
      by (auto simp: run_prompt_messages_def run_with_lifecycle_def Let_def drop_result_def
          split: option.splits sum.splits)
    show ?thesis
    proof (cases "\<exists>ms. r = Some (Inr ms)")
      case True
      with turns trace s show ?thesis by (auto simp: prompt_events_def)
    next
      case False
      from s obtain x where x: "r = Some x"
        "rn_events s = rn_events (case x of Inl e \<Rightarrow> handle_run_failure A e s1 | Inr _ \<Rightarrow> s1)" by blast
      with False obtain e where e: "r = Some (Inl e)" "rn_events s = rn_events (handle_run_failure A e s1)"
        by (cases x) auto
      with turns trace failure_run_events [of A e s1] show ?thesis by (fastforce simp: prompt_events_def)
    qed
  qed
qed

lemma claim_tracks:
  assumes "quiet_others others"
  shows "tracks (in_next_channel w) (in_state (claim_run others w))
      \<lparr>rn_world = (claim_run others w)\<lparr>in_skip_first := b\<rparr>, rn_events = []\<rparr>"
    and "st_messages (in_state (claim_run others w)) = st_messages (in_state w)"
    and "st_error_message (in_state (claim_run others w)) = None"
proof -
  let ?v = "claim_active w" and ?c = "in_next_channel w"
  have q: "quiet_step\<^sup>*\<^sup>* v (others GapClaimed v)" "quiet_step\<^sup>*\<^sup>* v (others GapMarked v)" for v
    using assms by (simp_all add: quiet_others_def)
  have 1: "in_active_run (others GapClaimed ?v) = Some ?c" "run_view (in_state (others GapClaimed ?v)) = run_view (in_state ?v)"
    using quiet_steps_frame [OF q(1), of ?v ?c] by (simp_all add: claim_active_def)
  let ?u = "mark_running (others GapClaimed ?v)"
  have 2: "in_active_run (others GapMarked ?u) = Some ?c" "run_view (in_state (others GapMarked ?u)) = run_view (in_state ?u)"
    using quiet_steps_frame [OF q(2), of ?u ?c] 1(1) by (simp_all add: mark_running_def)
  show "tracks ?c (in_state (claim_run others w)) \<lparr>rn_world = (claim_run others w)\<lparr>in_skip_first := b\<rparr>, rn_events = []\<rparr>"
    using 2(1) by (simp add: tracks_def claim_run_def begin_streaming_def)
  show "st_messages (in_state (claim_run others w)) = st_messages (in_state w)"
    using 1(2) 2(2) by (simp add: claim_run_def begin_streaming_def mark_running_def claim_active_def run_view_def)
  show "st_error_message (in_state (claim_run others w)) = None"
    by (simp add: claim_run_def begin_streaming_def)
qed

section \<open>Prompts are processed\<close>

text \<open>
  The budget of a handle: what the world has, and the queued messages. A wiring runs dry when
  requests answered with tool calls spend of it and nothing else adds to it.
\<close>

definition handle_budget :: "('o \<Rightarrow> nat) \<Rightarrow> ('m, 'o) agent_inner \<Rightarrow> nat" where
  "handle_budget b w = b (in_outer w) + length (pq_messages (in_steering w)) + length (pq_messages (in_follow_up w))"

definition wiring_dry :: "('o \<Rightarrow> nat) \<Rightarrow> ('m, 'o) agent_wiring \<Rightarrow> bool" where
  "wiring_dry b A \<longleftrightarrow>
     (\<forall>l ev sg w. handle_budget b (aw_listener A l ev sg w) \<le> handle_budget b w) \<and>
     (\<forall>f m c opts. agent_stream A f \<longrightarrow> request_spends (handle_budget b) (f m c opts)) \<and>
     (\<forall>i a tc sg. keeps (handle_budget b) (tool_execute (aw_tool A i) a tc sg)) \<and>
     (\<forall>f\<in>set_option (ao_convert_to_llm (aw_options A)). \<forall>ms. keeps (handle_budget b) (f ms)) \<and>
     (\<forall>f\<in>set_option (ao_transform_context (aw_options A)). \<forall>ms sg. keeps (handle_budget b) (f ms sg)) \<and>
     (\<forall>f\<in>set_option (ao_get_api_key (aw_options A)). \<forall>p. keeps (handle_budget b) (f p)) \<and>
     (\<forall>f\<in>set_option (ao_before_tool_call (aw_options A)). \<forall>c sg. keeps (handle_budget b) (f c sg)) \<and>
     (\<forall>f\<in>set_option (ao_after_tool_call (aw_options A)). \<forall>c sg. keeps (handle_budget b) (f c sg)) \<and>
     (\<forall>f\<in>set_option (ao_should_stop_after_turn (aw_options A)). \<forall>t. keeps (handle_budget b) (f t)) \<and>
     ao_prepare_next_turn (aw_options A) = None"

lemma drained_length:
  "length (pq_messages (fst (pq_drain q))) + length (snd (pq_drain q)) = length (pq_messages q)"
  by (simp add: pq_drain_def split: queue_mode.splits list.splits)

lemma source_driesI:
  assumes "\<And>w. b (fst (f w)) + length (snd (f w)) = b w"
  shows "source_dries b f"
  unfolding source_dries_def keeps_def
proof (intro conjI allI impI)
  fix w
  show "b (fst (f w)) \<le> b w" using assms [of w] by linarith
  show "b (fst (f w)) < b w" if "snd (f w) \<noteq> []" using assms [of w] that by (cases "snd (f w)") auto
qed

lemma takes_spend:
  "source_dries (handle_budget b) take_steering" "source_dries (handle_budget b) take_follow_up"
proof -
  show "source_dries (handle_budget b) take_steering"
    by (intro source_driesI) (simp add: take_steering_def handle_budget_def Let_def split_beta drained_length)
  show "source_dries (handle_budget b) take_follow_up"
    by (intro source_driesI) (simp add: take_follow_up_def handle_budget_def Let_def split_beta drained_length)
qed

lemma process_event_budget:
  assumes "wiring_dry b A"
  shows "handle_budget b (process_event A ev w) \<le> handle_budget b w"
proof -
  have "handle_budget b (fold (\<lambda>(_, l). aw_listener A l ev sg) ls v) \<le> handle_budget b v" for sg ls v
  proof (induction ls arbitrary: v)
    case (Cons l ls)
    show ?case
      using le_trans [OF Cons.IH] assms by (auto simp: wiring_dry_def split_beta)
  qed simp
  from this [of _ _ "w\<lparr>in_state := reduce_event ev (in_state w)\<rparr>"] show ?thesis
    by (auto simp: process_event_def Let_def split: option.splits) (simp_all add: handle_budget_def)
qed

lemma wiring_runs_dry:
  assumes "wiring_dry b A" and "agent_stream A stream"
  shows "runs_dry (handle_budget b) (run_env A c stream) (loop_config A w) (ac_tools (context_snapshot A w))"
proof -
  have "keeps (handle_budget b) (or_default (ao_convert_to_llm (aw_options A)) default_convert ms)" for ms
    using assms(1) by (auto simp: wiring_dry_def or_default_def keeps_def default_convert_def split: option.splits)
  then show ?thesis
    using assms process_event_budget [OF assms(1)]
    by (simp add: runs_dry_def run_env_def context_snapshot_def takes_spend) (simp add: wiring_dry_def)
qed

lemma section_budget [simp]:
  "handle_budget b (claim_active w) = handle_budget b w" "handle_budget b (mark_running w) = handle_budget b w"
  "handle_budget b (begin_streaming w) = handle_budget b w"
  by (simp_all add: handle_budget_def claim_active_def mark_running_def begin_streaming_def)

lemma runs_return:
  assumes "wiring_dry b A" and "in_active_run w = None" and "\<And>g v. handle_budget b (others g v) \<le> handle_budget b v"
  shows "\<exists>s. \<forall>n \<ge> 2 * handle_budget b w + 2. run_prompt_messages A n others prompts skip w = (s, Some (Inr ()))"
    and "\<exists>s. \<forall>n \<ge> 2 * handle_budget b w + 2. run_continuation A n others w = (s, Some (Inr ()))"
proof -
  let ?v = "claim_run others w"
  have "handle_budget b ?v \<le> handle_budget b w"
    using assms(3) [of GapMarked "mark_running (others GapClaimed (claim_active w))"] assms(3) [of GapClaimed "claim_active w"]
    by (simp add: claim_run_def)
  then have budget: "handle_budget b (?v\<lparr>in_skip_first := x\<rparr>) \<le> handle_budget b w" for x by (simp add: handle_budget_def)
  have returns: "\<exists>s r. \<forall>n \<ge> 2 * handle_budget b w + 2. run_agent_loop (run_env A (in_next_channel w) stream) n prompts
        (loop_config A ?v) (context_snapshot A ?v) (?v\<lparr>in_skip_first := x\<rparr>) = (s, Some r)"
    "\<exists>s r. \<forall>n \<ge> 2 * handle_budget b w + 2. run_agent_loop_continue (run_env A (in_next_channel w) stream) n
        (loop_config A ?v) (context_snapshot A ?v) (?v\<lparr>in_skip_first := x\<rparr>) = (s, Some r)"
    if "resolve_stream_fn A ?v = Inr stream" for x stream
    using agent_loop_returns [OF wiring_runs_dry [OF assms(1) resolve_agent_stream [OF that]],
        where w = "?v\<lparr>in_skip_first := x\<rparr>"] budget [of x] by (meson add_le_mono1 le_trans mult_le_mono2)+
  show "\<exists>s. \<forall>n \<ge> 2 * handle_budget b w + 2. run_prompt_messages A n others prompts skip w = (s, Some (Inr ()))"
    using assms(2) returns(1) [of _ skip]
    by (cases "resolve_stream_fn A ?v") (fastforce simp: run_prompt_messages_def run_with_lifecycle_def drop_result_def Let_def
        split: sum.splits)+
  show "\<exists>s. \<forall>n \<ge> 2 * handle_budget b w + 2. run_continuation A n others w = (s, Some (Inr ()))"
    using assms(2) returns(2) [of _ False]
    by (cases "resolve_stream_fn A ?v") (fastforce simp: run_continuation_def run_with_lifecycle_def drop_result_def Let_def
        split: sum.splits)+
qed

lemma drained_budget:
  "handle_budget b (w\<lparr>in_steering := fst (pq_drain (in_steering w))\<rparr>) \<le> handle_budget b w"
  "handle_budget b (w\<lparr>in_follow_up := fst (pq_drain (in_follow_up w))\<rparr>) \<le> handle_budget b w"
  using drained_length [of "in_steering w"] drained_length [of "in_follow_up w"]
  by (simp_all add: handle_budget_def)

section \<open>A concrete handle\<close>

text \<open>A provider that asks for tools as often as the world says, and then stops.\<close>

definition demo_stream_fn :: "(unit, nat) stream_fn" where
  "demo_stream_fn = (\<lambda>_ _ _ w.
     (w\<lparr>in_outer := in_outer w - 1\<rparr>, Inr [AMDone DRStop (demo_reply (if in_outer w = 0 then 1 else 0))]))"

definition demo_wiring :: "(unit, nat) agent_wiring" where
  "demo_wiring =
     \<lparr>aw_options = \<lparr>ao_initial_state = None, ao_convert_to_llm = None, ao_transform_context = None,
        ao_stream_fn = Some demo_stream_fn, ao_get_api_key = None, ao_before_tool_call = None,
        ao_after_tool_call = None, ao_should_stop_after_turn = None, ao_prepare_next_turn = None,
        ao_steering_mode = None, ao_follow_up_mode = None, ao_session_id = None,
        ao_thinking_budgets = None, ao_transport = None, ao_max_retry_delay_ms = None,
        ao_tool_execution = None\<rparr>,
      aw_tool = (\<lambda>_. \<lparr>tool_name = ''echo'', tool_description = [], tool_parameters = JNull,
        tool_execution_mode = None, tool_prepare_arguments = (\<lambda>a. a),
        tool_execute = (\<lambda>_ _ _ w. (w, [], Inr tool_result_default))\<rparr>),
      aw_listener = (\<lambda>_ _ _ w. w), aw_stream_fn = (\<lambda>_. demo_stream_fn), aw_default_model = (),
      aw_default_env = 0, aw_model_api = (\<lambda>_. []), aw_model_provider = (\<lambda>_. []), aw_model_id = (\<lambda>_. []),
      aw_now_ms = (\<lambda>_. 0), aw_validate = (\<lambda>_ c. Inr (call_arguments c)), aw_pick = (\<lambda>_ _. 0)\<rparr>"

definition demo_handle :: "nat \<Rightarrow> (unit, nat) agent_inner" where
  "demo_handle k = agent_new demo_wiring None k"

lemma demo_agent_stream: "agent_stream demo_wiring f \<longleftrightarrow> f = demo_stream_fn"
  by (auto simp: agent_stream_def demo_wiring_def)

lemma demo_outside: "outside quiet_step demo_wiring" "outside interface_step demo_wiring"
proof -
  have "quiet_step\<^sup>*\<^sup>* w (w\<lparr>in_outer := x\<rparr>)" "interface_step\<^sup>*\<^sup>* w (w\<lparr>in_outer := x\<rparr>)"
    for w :: "(unit, nat) agent_inner" and x by (blast intro: qs_outer is_quiet)+
  then show "outside quiet_step demo_wiring" "outside interface_step demo_wiring"
    by (auto simp: outside_def demo_agent_stream within_def demo_stream_fn_def) (simp_all add: demo_wiring_def)
qed

lemma demo_starts_once: "streams_start_once demo_wiring"
  by (auto simp: streams_start_once_def demo_agent_stream single_start_def run_env_def demo_stream_fn_def starts_once_def)

lemma demo_dry: "wiring_dry id demo_wiring"
proof -
  have "request_spends (handle_budget id) (demo_stream_fn m c opts)" for m c opts
    by (auto simp: request_spends_def demo_stream_fn_def handle_budget_def)
  then show ?thesis by (simp add: wiring_dry_def demo_agent_stream) (simp add: demo_wiring_def keeps_def)
qed

lemma demo_handle_simps [simp]:
  "in_active_run (demo_handle k) = None" "in_outer (demo_handle k) = k"
  "st_messages (in_state (demo_handle k)) = []" "handle_budget id (demo_handle k) = k"
  by (simp_all add: demo_handle_def agent_new_def agent_state_default_def demo_wiring_def or_default_def
      handle_budget_def pq_new_def Let_def)



text \<open>
  C14. Every prompt is processed. If requests answered with tool calls spend of a budget that nothing
  refills, and the code the handle calls queues no messages without paying for them, then a prompt to
  an idle handle returns within an explicit number of iterations of its loop, as a run that settled;
  and \<^verbatim>\<open>continue_run\<close> returns, as a run or as a refusal. The queued messages are part of the budget.
  Other threads may act in the gaps, as long as they refill no budget and do not claim the run first.
\<close>

theorem agent_runs_return:
  assumes "wiring_dry b A" and "in_active_run w = None"
    and "\<And>g v. g \<in> {GapCheck, GapRead, GapSteering, GapFollowUp} \<Longrightarrow> in_active_run v = None \<Longrightarrow>
      in_active_run (others g v) = None"
    and "\<And>g v. handle_budget b (others g v) \<le> handle_budget b v"
  shows "(\<exists>s. \<forall>n \<ge> 2 * handle_budget b w + 2. agent_prompt A n others prompts w = (s, Some (Inr ()))) \<and>
    (\<exists>s r. \<forall>n \<ge> 2 * handle_budget b w + 2. continue_run A n others w = (s, Some r))"
proof
  let ?N = "2 * handle_budget b w + 2"
  have prompt: "\<exists>s. \<forall>n \<ge> ?N. run_prompt_messages A n others ms skip v = (s, Some (Inr ()))"
    and continuation: "\<exists>s. \<forall>n \<ge> ?N. run_continuation A n others v = (s, Some (Inr ()))"
    if "in_active_run v = None" "handle_budget b v \<le> handle_budget b w" for ms skip v
    using runs_return(1) [where others = others and prompts = ms and skip = skip, OF assms(1) that(1) assms(4)]
      runs_return(2) [where others = others, OF assms(1) that(1) assms(4)] that(2)
    by (meson add_le_mono1 le_trans mult_le_mono2)+
  let ?w0 = "others GapCheck w"
  have w0: "in_active_run ?w0 = None" "handle_budget b ?w0 \<le> handle_budget b w"
    using assms(2-4) by simp_all
  show "\<exists>s. \<forall>n \<ge> ?N. agent_prompt A n others prompts w = (s, Some (Inr ()))"
    using prompt [OF w0, of prompts False] assms(2) by (simp add: agent_prompt_def)
  let ?wr = "others GapRead ?w0"
  let ?d1 = "?wr\<lparr>in_steering := fst (pq_drain (in_steering ?wr))\<rparr>"
  let ?w1 = "others GapSteering ?d1"
  let ?d2 = "?w1\<lparr>in_follow_up := fst (pq_drain (in_follow_up ?w1))\<rparr>"
  let ?w2 = "others GapFollowUp ?d2"
  have wr: "in_active_run ?wr = None" "handle_budget b ?wr \<le> handle_budget b w"
    using w0 assms(3) assms(4) [of GapRead ?w0] by simp_all
  have w1: "in_active_run ?w1 = None" "handle_budget b ?w1 \<le> handle_budget b w"
    using wr assms(3) [of GapSteering ?d1] assms(4) [of GapSteering ?d1] drained_budget(1) [of b ?wr] by simp_all
  have w2: "in_active_run ?w2 = None" "handle_budget b ?w2 \<le> handle_budget b w"
    using w1 assms(3) [of GapFollowUp ?d2] assms(4) [of GapFollowUp ?d2] drained_budget(2) [of b ?w1] by simp_all
  show "\<exists>s r. \<forall>n \<ge> ?N. continue_run A n others w = (s, Some r)"
  proof (cases "st_messages (in_state ?w0) = []")
    case True
    with assms(2) show ?thesis by (simp add: continue_run_def)
  next
    case False
    show ?thesis
    proof (cases "\<exists>m. last (st_messages (in_state ?w0)) = AAssistant m")
      case True
      with False prompt [OF w1, of "snd (pq_drain (in_steering ?wr))" True]
        prompt [OF w2, of "snd (pq_drain (in_follow_up ?w1))" False] assms(2) show ?thesis
        by (cases "snd (pq_drain (in_steering ?wr)) = []"; cases "snd (pq_drain (in_follow_up ?w1)) = []")
          (fastforce simp: continue_run_def Let_def split_beta)+
    next
      case other: False
      with False continuation [OF wr] assms(2) show ?thesis
        by (cases "last (st_messages (in_state ?w0))") (auto simp: continue_run_def Let_def)
    qed
  qed
qed

theorem agent_runs_return_witness:
  "\<exists>s. \<forall>n \<ge> 12. agent_prompt demo_wiring n (\<lambda>_ v. v) [demo_prompt] (demo_handle 5) = (s, Some (Inr ()))"
  using agent_runs_return [OF demo_dry, of "demo_handle 5" "\<lambda>_ v. v" "[demo_prompt]"] by simp

section \<open>The state and the protocol\<close>

text \<open>No execution is started under the id of one that is still open.\<close>

definition distinct_open :: "agent_event list \<Rightarrow> bool" where
  "distinct_open evs \<longleftrightarrow>
     (\<forall>k ph open_calls. follows (Outside, {#}) (take k evs) = Some (ph, open_calls) \<longrightarrow>
        (\<forall>i. count open_calls i \<le> 1))"

fun phase_message :: "phase \<Rightarrow> agent_message option" where
  "phase_message (InMessage m) = Some m"
| "phase_message _ = None"

lemma distinct_open_snoc: "distinct_open (evs @ [ev]) \<Longrightarrow> distinct_open evs"
  unfolding distinct_open_def by (metis append_Nil2 diff_is_0_eq' nle_le take0 take_all_iff take_append)

lemma reduce_step_simulates:
  assumes "protocol_step (ph, open_calls) ev = Some (ph', open_calls')"
    and "\<forall>i. count open_calls' i \<le> 1" and "\<forall>i. count open_calls i \<le> 1"
    and "st_streaming_message st = phase_message ph" and "st_pending_tool_calls st = set_mset open_calls"
  shows "st_streaming_message (reduce_event ev st) = phase_message ph' \<and>
    st_pending_tool_calls (reduce_event ev st) = set_mset open_calls'"
proof -
  have "j \<in># open_calls - {#i#} \<longleftrightarrow> j \<in># open_calls \<and> j \<noteq> i" for i j
    using assms(3) [rule_format, of j] by (auto simp flip: count_greater_zero_iff)
  then have "set_mset open_calls - {i} = set_mset (open_calls - {#i#})" for i by blast
  with assms show ?thesis
    by (cases ev) (auto split: if_splits phase.splits option.splits)
qed

text \<open>
  C15. The state of the handle refines the protocol. After any events that follow it and do not start a
  call that is still running, the handle shows a streaming message exactly while a message is open,
  and it is that message; its pending tool calls are the executions that have started and not ended;
  and its transcript has grown by the messages that ended.
\<close>

theorem reduced_state_refines_protocol:
  assumes "follows (Outside, {#}) evs = Some (ph, open_calls)" and "distinct_open evs"
    and "st_streaming_message st = None" and "st_pending_tool_calls st = {}"
  shows "st_streaming_message (fold reduce_event evs st) = phase_message ph \<and>
    st_pending_tool_calls (fold reduce_event evs st) = set_mset open_calls \<and>
    st_messages (fold reduce_event evs st) = st_messages st @ message_ends evs"
  using assms(1,2)
proof (induction evs arbitrary: ph open_calls rule: rev_induct)
  case Nil
  with assms(3,4) show ?case by simp
next
  case (snoc ev evs)
  from snoc.prems(1) obtain ph1 open1 where f: "follows (Outside, {#}) evs = Some (ph1, open1)"
    and p: "protocol_step (ph1, open1) ev = Some (ph, open_calls)"
    by (auto simp: follows_append split: option.splits)
  note IH = snoc.IH [OF f distinct_open_snoc [OF snoc.prems(2)]]
  have "\<forall>i. count open_calls i \<le> 1" "\<forall>i. count open1 i \<le> 1"
    using snoc.prems f distinct_open_snoc [OF snoc.prems(2)]
    unfolding distinct_open_def by (metis order_refl take_all)+
  from reduce_step_simulates [OF p this, of "fold reduce_event evs st"] IH
    reduced_messages [of "evs @ [ev]" st] show ?case by simp
qed

theorem reduced_state_refines_protocol_witness:
  "st_pending_tool_calls (fold reduce_event [AgentStart, TurnStart, ToolExecutionStart ''a'' ''echo'' JNull]
     (agent_state_default demo_wiring)) = {''a''}"
proof -
  let ?evs = "[AgentStart, TurnStart, ToolExecutionStart ''a'' ''echo'' JNull]"
  have "distinct_open ?evs"
    unfolding distinct_open_def by (auto simp: take_Cons' split: if_splits)
  from reduced_state_refines_protocol [OF _ this, of InTurn "{#''a''#}" "agent_state_default demo_wiring"]
  show ?thesis by (simp add: agent_state_default_def)
qed

text \<open>Another thread claims the run after the queue was drained.\<close>

definition other_claims :: "run_gap \<Rightarrow> ('m, 'o) agent_inner \<Rightarrow> ('m, 'o) agent_inner" where
  "other_claims g w = (if g = GapSteering then claim_active w else w)"

text \<open>
  C39. \<^verbatim>\<open>continue_run\<close> takes messages off the queue before it claims the run. When another thread claims
  the run in between, it is refused, and the messages it took are neither in the queue nor in the
  transcript.
\<close>

theorem continue_run_race_drops:
  assumes "in_active_run w = None" and "st_messages (in_state w) = ms @ [AAssistant m]"
    and "pq_messages (in_steering w) \<noteq> []"
  shows "\<exists>s lost. continue_run A n other_claims w = (s, Some (Inl (AEInvalidState ''Agent is already processing.''))) \<and>
    lost \<noteq> [] \<and> pq_messages (in_steering w) = lost @ pq_messages (in_steering (rn_world s)) \<and>
    st_messages (in_state (rn_world s)) = st_messages (in_state w) \<and> rn_events s = []"
proof -
  obtain q lost where d: "pq_drain (in_steering w) = (q, lost)" by fastforce
  with assms(3) have "lost \<noteq> []" "pq_messages (in_steering w) = lost @ pq_messages q"
    by (auto simp: pq_drain_def split: queue_mode.splits list.splits)
  with assms d show ?thesis
    by (simp add: continue_run_def run_prompt_messages_def run_with_lifecycle_def other_claims_def claim_active_def Let_def)
qed

theorem continue_run_race_drops_witness:
  "\<exists>w s. st_messages (in_state w) = [AAssistant (demo_reply 1)] \<and> pq_messages (in_steering w) = [demo_prompt] \<and>
     continue_run demo_wiring 3 other_claims w = (s, Some (Inl (AEInvalidState ''Agent is already processing.''))) \<and>
     pq_messages (in_steering (rn_world s)) = []"
proof -
  let ?w = "steer demo_prompt (set_messages [AAssistant (demo_reply 1)] (demo_handle 0))"
  have "in_active_run ?w = None" "st_messages (in_state ?w) = [] @ [AAssistant (demo_reply 1)]"
    "pq_messages (in_steering ?w) = [demo_prompt]"
    by (simp_all add: steer_def set_messages_def pq_enqueue_def demo_handle_def agent_new_def pq_new_def Let_def)
  from continue_run_race_drops [OF this(1,2), of demo_wiring 3] this show ?thesis
    by (fastforce simp: Cons_eq_append_conv)
qed

end
