(* ===== verification/Agent_Threads.thy ===== *)
theory Agent_Threads
  imports Agent_Lifecycle
begin

text \<open>
  Threads that share an agent handle. Starting, finishing and resetting take several critical sections
  each (\<^verbatim>\<open>run_with_lifecycle\<close>, \<^verbatim>\<open>finish_run\<close> and \<^verbatim>\<open>reset\<close> of \<^verbatim>\<open>agent.rs\<close>), and here each section is a step
  of its own, so that threads interleave between any two of them. \<open>ta_stage\<close> is where each thread is.

  The lemmas show that the run has one owner at a time whatever the interleaving, that the operations
  of the handle are made of these steps, and how far its two other flags can be trusted: they agree with
  the run unless it is claimed while another thread is between its last two steps, in which case the
  watch flag stays cleared during the new run.
\<close>

section \<open>Steps of threads\<close>

datatype stage = Out | Resetting | Claimed | Marked | Running | Settled | Released

record ('m, 'o) agent_threads =
  ta_handle :: "('m, 'o) agent_inner"
  ta_stage :: "nat \<Rightarrow> stage"

definition owns :: "stage \<Rightarrow> bool" where
  "owns st \<longleftrightarrow> st \<in> {Claimed, Marked, Running, Settled}"

definition at :: "('m, 'o) agent_inner \<Rightarrow> (nat \<Rightarrow> stage) \<Rightarrow> ('m, 'o) agent_threads" where
  "at w stages = \<lparr>ta_handle = w, ta_stage = stages\<rparr>"

lemma at_simps [simp]: "ta_handle (at w stages) = w" "ta_stage (at w stages) = stages"
  by (simp_all add: at_def)

text \<open>
  Without \<open>overlap\<close> no run is claimed while another thread still has to clear the flag of its run or has
  passed the check of a reset.
\<close>

inductive handle_step :: "bool \<Rightarrow> ('m, 'o) agent_threads \<Rightarrow> ('m, 'o) agent_threads \<Rightarrow> bool" for overlap where
  hs_interface: "interface_step w w' \<Longrightarrow> handle_step overlap (at w st) (at w' st)"
| hs_drain_steering: "handle_step overlap (at w st) (at (w\<lparr>in_steering := fst (pq_drain (in_steering w))\<rparr>) st)"
| hs_drain_follow_up: "handle_step overlap (at w st) (at (w\<lparr>in_follow_up := fst (pq_drain (in_follow_up w))\<rparr>) st)"
| hs_check: "\<lbrakk>st t = Out; in_active_run w = None\<rbrakk> \<Longrightarrow> handle_step overlap (at w st) (at w (st(t := Resetting)))"
| hs_reset: "st t = Resetting \<Longrightarrow> handle_step overlap (at w st) (at (reset_state w) (st(t := Out)))"
| hs_claim: "\<lbrakk>st t = Out; in_active_run w = None; overlap \<or> (\<forall>u. st u \<notin> {Released, Resetting})\<rbrakk> \<Longrightarrow>
    handle_step overlap (at w st) (at (claim_active w) (st(t := Claimed)))"
| hs_mark: "st t = Claimed \<Longrightarrow> handle_step overlap (at w st) (at (mark_running w) (st(t := Marked)))"
| hs_begin: "st t = Marked \<Longrightarrow> handle_step overlap (at w st) (at (begin_streaming w) (st(t := Running)))"
| hs_skip: "st t = Running \<Longrightarrow> handle_step overlap (at w st) (at (w\<lparr>in_skip_first := b\<rparr>) st)"
| hs_event: "st t = Running \<Longrightarrow>
    handle_step overlap (at w st) (at (w\<lparr>in_state := reduce_event ev (in_state w)\<rparr>) st)"
| hs_settle: "st t = Running \<Longrightarrow> handle_step overlap (at w st) (at (settle_state w) (st(t := Settled)))"
| hs_release: "st t = Settled \<Longrightarrow> handle_step overlap (at w st) (at (release_run w) (st(t := Released)))"
| hs_stop: "st t = Released \<Longrightarrow> handle_step overlap (at w st) (at (mark_stopped w) (st(t := Out)))"

inductive threads_reachable :: "bool \<Rightarrow> ('m, 'o) agent_wiring \<Rightarrow> ('m, 'o) agent_threads \<Rightarrow> bool" for overlap A where
  tr_new: "threads_reachable overlap A (at (agent_new A d x) (\<lambda>_. Out))"
| tr_step: "threads_reachable overlap A c \<Longrightarrow> handle_step overlap c c' \<Longrightarrow> threads_reachable overlap A c'"

section \<open>The run has one owner\<close>

lemma interface_step_frame:
  assumes "interface_step w w'"
  shows "in_active_run w' = in_active_run w" and "in_next_channel w' = in_next_channel w"
    and "in_running w' = in_running w"
    and "in_aborted w' \<subseteq> in_aborted w \<union> set_option (in_active_run w)"
    and "in_active_run w \<noteq> None \<Longrightarrow> st_is_streaming (in_state w') = st_is_streaming (in_state w)"
    and "st_is_streaming (in_state w') \<Longrightarrow> st_is_streaming (in_state w)"
    and "\<not> st_is_streaming (in_state w) \<and> st_streaming_message (in_state w) = None \<and> st_pending_tool_calls (in_state w) = {} \<Longrightarrow>
      \<not> st_is_streaming (in_state w') \<and> st_streaming_message (in_state w') = None \<and> st_pending_tool_calls (in_state w') = {}"
  using assms
  by (cases rule: interface_step.cases; auto simp: set_messages_def agent_push_message_def handle_op_defs pq_clear_def
      split_beta Let_def elim!: quiet_step.cases split: option.splits if_splits)+

definition one_owner :: "('m, 'o) agent_threads \<Rightarrow> bool" where
  "one_owner c \<longleftrightarrow>
     (\<forall>t u. owns (ta_stage c t) \<longrightarrow> owns (ta_stage c u) \<longrightarrow> t = u) \<and>
     (in_active_run (ta_handle c) \<noteq> None \<longleftrightarrow> (\<exists>t. owns (ta_stage c t))) \<and>
     (\<forall>ch. in_active_run (ta_handle c) = Some ch \<longrightarrow> ch < in_next_channel (ta_handle c)) \<and>
     in_aborted (ta_handle c) \<subseteq> {..<in_next_channel (ta_handle c)}"

definition settled_unless_running :: "('m, 'o) agent_threads \<Rightarrow> bool" where
  "settled_unless_running c \<longleftrightarrow>
     (\<exists>t. ta_stage c t = Running) \<or>
     \<not> st_is_streaming (in_state (ta_handle c)) \<and> st_streaming_message (in_state (ta_handle c)) = None \<and>
     st_pending_tool_calls (in_state (ta_handle c)) = {}"

definition past_claim :: "stage \<Rightarrow> bool" where
  "past_claim st \<longleftrightarrow> owns st \<or> st = Released"

definition past_mark :: "stage \<Rightarrow> bool" where
  "past_mark st \<longleftrightarrow> past_claim st \<and> st \<noteq> Claimed"

definition flags_agree :: "('m, 'o) agent_threads \<Rightarrow> bool" where
  "flags_agree c \<longleftrightarrow>
     (in_running (ta_handle c) \<longleftrightarrow> (\<exists>t. past_mark (ta_stage c t))) \<and>
     (st_is_streaming (in_state (ta_handle c)) \<longleftrightarrow> (\<exists>t. ta_stage c t = Running)) \<and>
     (\<forall>t u. past_claim (ta_stage c t) \<longrightarrow> past_claim (ta_stage c u) \<longrightarrow> t = u) \<and>
     (\<forall>t u. ta_stage c t = Resetting \<longrightarrow> \<not> owns (ta_stage c u))"

lemmas stage_defs = owns_def past_claim_def past_mark_def

lemma reduce_event_streaming [simp]: "st_is_streaming (reduce_event ev st) = st_is_streaming st"
  by (cases ev) (auto split: option.splits)

lemma one_owner_move:
  assumes "one_owner (at w st)" and "owns s = owns (st t)"
    and "in_active_run w' = in_active_run w" "in_next_channel w' = in_next_channel w" "in_aborted w' = in_aborted w"
  shows "one_owner (at w' (st(t := s)))"
proof -
  have "owns ((st(t := s)) u) = owns (st u)" for u using assms(2) by simp
  with assms(1,3-5) show ?thesis unfolding one_owner_def at_simps by presburger
qed

lemma one_owner_step: "handle_step overlap c c' \<Longrightarrow> one_owner c \<Longrightarrow> one_owner c'"
proof (induction rule: handle_step.induct)
  case (hs_interface w w' st)
  with interface_step_frame(1-4) [OF hs_interface(1)] show ?case by (fastforce simp: one_owner_def)
next
  case (hs_claim st t w)
  then have "\<not> owns (st u)" for u by (auto simp: one_owner_def)
  then have "owns ((st(t := Claimed)) u) \<longleftrightarrow> u = t" for u by (simp add: owns_def)
  with hs_claim show ?case by (auto simp: one_owner_def claim_active_def simp del: fun_upd_apply)
next
  case (hs_release st t w)
  then have "owns (st t)" by (simp add: owns_def)
  with hs_release have "\<not> owns ((st(t := Released)) u)" for u by (auto simp: one_owner_def owns_def)
  with hs_release show ?case by (simp only: one_owner_def at_simps) (simp add: release_run_def)
next
  case (hs_drain_steering w st)
  then show ?case by (simp add: one_owner_def)
next
  case (hs_drain_follow_up w st)
  then show ?case by (simp add: one_owner_def)
next
  case (hs_skip st t w b)
  with one_owner_move [of w st "st t" t "w\<lparr>in_skip_first := b\<rparr>"] show ?case by (simp add: fun_upd_idem)
next
  case (hs_event st t w ev)
  with one_owner_move [of w st "st t" t "w\<lparr>in_state := reduce_event ev (in_state w)\<rparr>"] show ?case
    by (simp add: fun_upd_idem)
qed (rule one_owner_move; simp add: owns_def reset_state_def mark_running_def begin_streaming_def settle_state_def
    mark_stopped_def)+

lemma settled_move:
  assumes "settled_unless_running (at w st)" and "st t \<noteq> Running"
    and "in_state w' = in_state w \<or> w' = reset_state w"
  shows "settled_unless_running (at w' (st(t := s)))"
proof -
  show ?thesis
  proof (cases "\<exists>u. st u = Running")
    case True
    with assms(2) have "\<exists>u. (st(t := s)) u = Running" by (metis fun_upd_other)
    then show ?thesis by (simp only: settled_unless_running_def at_simps simp_thms)
  next
    case False
    with assms(1,3) show ?thesis by (auto simp: settled_unless_running_def reset_state_def)
  qed
qed

lemma settled_step: "handle_step overlap c c' \<Longrightarrow> settled_unless_running c \<Longrightarrow> settled_unless_running c'"
proof (induction rule: handle_step.induct)
  case (hs_interface w w' st)
  with interface_step_frame(7) [OF hs_interface(1)] show ?case by (auto simp: settled_unless_running_def)
next
  case (hs_begin st t w)
  then show ?case by (auto simp: settled_unless_running_def)
next
  case (hs_settle st t w)
  then show ?case by (auto simp: settled_unless_running_def settle_state_def)
next
  case (hs_drain_steering w st)
  then show ?case by (simp add: settled_unless_running_def)
next
  case (hs_drain_follow_up w st)
  then show ?case by (simp add: settled_unless_running_def)
next
  case (hs_skip st t w b)
  then show ?case by (auto simp: settled_unless_running_def)
next
  case (hs_event st t w ev)
  then show ?case by (auto simp: settled_unless_running_def)
qed (erule settled_move; simp add: claim_active_def mark_running_def release_run_def mark_stopped_def)+

text \<open>Without overlap one thread at most is past its claim, and the flags say where it is.\<close>

lemma flagsI:
  assumes "\<And>u. u \<noteq> t \<Longrightarrow> \<not> past_claim (st u)"
    and "in_running w \<longleftrightarrow> past_mark (st t)"
    and "st_is_streaming (in_state w) \<longleftrightarrow> st t = Running"
    and "\<And>u. owns (st t) \<Longrightarrow> st u \<noteq> Resetting"
  shows "flags_agree (at w st)"
proof -
  have sole: "past_claim (st u) \<Longrightarrow> u = t" for u using assms(1) by blast
  have "past_mark (st u) \<Longrightarrow> u = t" "st u = Running \<Longrightarrow> u = t" "owns (st u) \<Longrightarrow> u = t" for u
    using sole [of u] by (auto simp: stage_defs)
  with sole assms(2-4) show ?thesis unfolding flags_agree_def at_simps by metis
qed

lemma flagsD:
  assumes "flags_agree (at w st)" and "past_claim (st t)"
  shows "u \<noteq> t \<Longrightarrow> \<not> past_claim (st u)"
    and "in_running w \<longleftrightarrow> past_mark (st t)"
    and "st_is_streaming (in_state w) \<longleftrightarrow> st t = Running"
    and "owns (st t) \<Longrightarrow> st u \<noteq> Resetting"
proof -
  have sole: "past_claim (st v) \<Longrightarrow> v = t" for v using assms unfolding flags_agree_def at_simps by blast
  then have "past_mark (st v) \<Longrightarrow> v = t" "st v = Running \<Longrightarrow> v = t" for v
    by (auto simp: stage_defs)
  with sole assms(1) show "u \<noteq> t \<Longrightarrow> \<not> past_claim (st u)" "in_running w \<longleftrightarrow> past_mark (st t)"
    "st_is_streaming (in_state w) \<longleftrightarrow> st t = Running" "owns (st t) \<Longrightarrow> st u \<noteq> Resetting"
    unfolding flags_agree_def at_simps by metis+
qed

text \<open>A step by which no thread enters or leaves a run.\<close>

lemma flags_move:
  assumes "flags_agree (at w st)" and "st t \<in> {Out, Resetting}" and "s \<in> {Out, Resetting}"
    and "in_running w' = in_running w" and "st_is_streaming (in_state w') = st_is_streaming (in_state w)"
    and "\<And>u. \<not> owns (st u)"
  shows "flags_agree (at w' (st(t := s)))"
proof -
  have "past_mark ((st(t := s)) u) = past_mark (st u)" "past_claim ((st(t := s)) u) = past_claim (st u)"
    "((st(t := s)) u = Running) = (st u = Running)" "\<not> owns ((st(t := s)) u)" for u
    using assms(2,3,6) by (auto simp: stage_defs)
  with assms(1,4,5) show ?thesis unfolding flags_agree_def at_simps by presburger
qed

lemma flags_step:
  assumes "handle_step False c c'" and "flags_agree c" and "one_owner c"
  shows "flags_agree c'"
  using assms
proof (induction rule: handle_step.induct)
  case (hs_interface w w' st)
  have "st_is_streaming (in_state w') = st_is_streaming (in_state w)"
  proof (cases "in_active_run w")
    case None
    with hs_interface have "\<not> st_is_streaming (in_state w)" by (auto simp: flags_agree_def one_owner_def owns_def)
    then show ?thesis using interface_step_frame(6) [OF hs_interface(1)] by blast
  qed (use interface_step_frame(5) [OF hs_interface(1)] in simp)
  with hs_interface interface_step_frame(3) [OF hs_interface(1)] show ?case by (simp add: flags_agree_def)
next
  case (hs_check st t w)
  then show ?case by (intro flags_move [OF hs_check(3)]) (auto simp: one_owner_def)
next
  case (hs_reset st t w)
  then have no: "\<not> owns (st u)" for u by (auto simp: flags_agree_def)
  then have "\<not> st_is_streaming (in_state w)" using hs_reset by (auto simp: flags_agree_def owns_def)
  with hs_reset no show ?case by (intro flags_move [OF hs_reset(2)]) (auto simp: reset_state_def)
next
  case (hs_claim st t w)
  then have no: "\<not> owns (st u)" "\<not> past_claim (st u)" "st u \<noteq> Resetting" for u by (auto simp: one_owner_def past_claim_def)
  with hs_claim(4) have "\<not> in_running w" "\<not> st_is_streaming (in_state w)"
    by (auto simp: flags_agree_def past_mark_def owns_def)
  with no show ?case by (intro flagsI [of t]) (auto simp: claim_active_def stage_defs)
next
  case (hs_mark st t w)
  then have "past_claim (st t)" by (simp add: stage_defs)
  note D = flagsD [OF hs_mark(2) this]
  from D hs_mark(1) show ?case by (intro flagsI [of t]) (auto simp: mark_running_def stage_defs)
next
  case (hs_begin st t w)
  then have "past_claim (st t)" by (simp add: stage_defs)
  note D = flagsD [OF hs_begin(2) this]
  from D hs_begin(1) show ?case by (intro flagsI [of t]) (auto simp: begin_streaming_def stage_defs)
next
  case (hs_settle st t w)
  then have "past_claim (st t)" by (simp add: stage_defs)
  note D = flagsD [OF hs_settle(2) this]
  from D hs_settle(1) show ?case by (intro flagsI [of t]) (auto simp: settle_state_def stage_defs)
next
  case (hs_release st t w)
  then have "past_claim (st t)" by (simp add: stage_defs)
  note D = flagsD [OF hs_release(2) this]
  from D hs_release(1) show ?case by (intro flagsI [of t]) (auto simp: release_run_def stage_defs)
next
  case (hs_stop st t w)
  then have "past_claim (st t)" by (simp add: stage_defs)
  note D = flagsD [OF hs_stop(2) this]
  from D hs_stop(1) show ?case by (intro flagsI [of t]) (auto simp: mark_stopped_def stage_defs)
qed (auto simp: flags_agree_def)

lemma threads_ok:
  assumes "threads_reachable overlap A c"
  shows "one_owner c \<and> settled_unless_running c \<and> (overlap \<or> flags_agree c)"
  using assms
proof (induction rule: threads_reachable.induct)
  case (tr_new d x)
  show ?case
    by (simp add: one_owner_def settled_unless_running_def flags_agree_def stage_defs agent_new_def agent_state_default_def Let_def)
next
  case (tr_step c c')
  have "flags_agree c'" if "\<not> overlap"
    using flags_step [of c c'] tr_step(2,3) that by simp
  with tr_step one_owner_step settled_step show ?case by blast
qed

section \<open>The operations are made of these steps\<close>

text \<open>Thread \<open>t\<close> is at a stage of a reachable state, and in the gaps of an operation the others only make steps.\<close>

definition reaches :: "('m, 'o) agent_wiring \<Rightarrow> nat \<Rightarrow> stage \<Rightarrow> ('m, 'o) agent_inner \<Rightarrow> bool" where
  "reaches A t g w \<longleftrightarrow> (\<exists>c. threads_reachable True A c \<and> ta_handle c = w \<and> ta_stage c t = g)"

definition steps_others ::
  "('m, 'o) agent_wiring \<Rightarrow> nat \<Rightarrow> (run_gap \<Rightarrow> ('m, 'o) agent_inner \<Rightarrow> ('m, 'o) agent_inner) \<Rightarrow> bool" where
  "steps_others A t others \<longleftrightarrow> (\<forall>gap g w. reaches A t g w \<longrightarrow> reaches A t g (others gap w))"

lemma reaches_step:
  assumes "reaches A t g w" and "\<And>st. st t = g \<Longrightarrow> handle_step True (at w st) (at w' (st(t := g')))"
  shows "reaches A t g' w'"
proof -
  obtain c where c: "threads_reachable True A c" "ta_handle c = w" "ta_stage c t = g" using assms(1) by (auto simp: reaches_def)
  obtain st where st: "c = at w st" using c(2) by (cases c) (simp add: at_def)
  then have "st t = g" using c(3) by simp
  from c(1) [unfolded st] assms(2) [of st, OF this] have "threads_reachable True A (at w' (st(t := g')))"
    by (rule tr_step)
  then show ?thesis unfolding reaches_def by (intro exI [of _ "at w' (st(t := g'))"]) simp
qed

lemma reaches_stay:
  assumes "reaches A t g w" and "\<And>st. st t = g \<Longrightarrow> handle_step True (at w st) (at w' st)"
  shows "reaches A t g w'"
proof (rule reaches_step [OF assms(1)])
  fix st :: "nat \<Rightarrow> stage"
  assume g: "st t = g"
  then have "st(t := g) = st" by (rule fun_upd_idem)
  with assms(2) [of st, OF g] show "handle_step True (at w st) (at w' (st(t := g)))" by (simp only:)
qed

lemma reaches_claim:
  assumes "reaches A t Out w" and "in_active_run w = None" and "steps_others A t others"
  shows "reaches A t Running ((claim_run others w)\<lparr>in_skip_first := b\<rparr>)"
proof -
  note others = assms(3) [unfolded steps_others_def, rule_format]
  have "reaches A t Claimed (claim_active w)"
    by (rule reaches_step [OF assms(1)]) (simp add: assms(2) hs_claim)
  then have "reaches A t Marked (mark_running (others GapClaimed (claim_active w)))"
    by (intro reaches_step [OF others hs_mark])
  then have "reaches A t Running (claim_run others w)"
    unfolding claim_run_def by (intro reaches_step [OF others hs_begin])
  then show ?thesis by (rule reaches_stay) (rule hs_skip)
qed

lemma reaches_finish:
  assumes "reaches A t Running w" and "steps_others A t others"
  shows "reaches A t Out (finish_run others w)"
proof -
  note others = assms(2) [unfolded steps_others_def, rule_format]
  have "reaches A t Settled (settle_state w)" by (rule reaches_step [OF assms(1) hs_settle])
  then have "reaches A t Released (release_run (others GapSettled (settle_state w)))"
    by (intro reaches_step [OF others hs_release])
  then show ?thesis unfolding finish_run_def by (intro reaches_step [OF others hs_stop])
qed

lemma reaches_invariant: "run_invariant interface_step (\<lambda>s. reaches A t Running (rn_world s))"
  unfolding run_invariant_def reduce_run_def
  by (auto intro: reaches_stay hs_interface hs_event is_quiet qs_take_steering qs_take_follow_up)

lemma reaches_settled:
  assumes "settled others (\<lambda>s. reaches A t Running (rn_world s)) s r" and "steps_others A t others"
  shows "\<exists>g. reaches A t g (rn_world s)"
  using assms reaches_finish by (fastforce simp: settled_def)

lemma reaches_run:
  assumes "outside interface_step A" and "steps_others A t others" and "reaches A t Out w"
  shows "run_prompt_messages A n others ms skip w = (s, r) \<Longrightarrow> \<exists>g. reaches A t g (rn_world s)"
    and "run_continuation A n others w = (s, r) \<Longrightarrow> \<exists>g. reaches A t g (rn_world s)"
proof -
  note settle = runs_settle [OF reaches_invariant assms(1), THEN reaches_settled [OF _ assms(2)]]
  have claim: "reaches A t Running (rn_world \<lparr>rn_world = (claim_run others w)\<lparr>in_skip_first := b\<rparr>, rn_events = []\<rparr>)"
    if "in_active_run w = None" for b using reaches_claim [OF assms(3) that assms(2)] by simp
  show "\<exists>g. reaches A t g (rn_world s)" if "run_prompt_messages A n others ms skip w = (s, r)"
  proof (cases "in_active_run w")
    case None
    from settle(1) [OF None claim [OF None] that] show ?thesis .
  next
    case (Some c)
    with that assms(3) show ?thesis by (auto simp: run_prompt_messages_def run_with_lifecycle_def)
  qed
  show "\<exists>g. reaches A t g (rn_world s)" if "run_continuation A n others w = (s, r)"
  proof (cases "in_active_run w")
    case None
    from settle(2) [OF None claim [OF None] that] show ?thesis .
  next
    case (Some c)
    with that assms(3) show ?thesis by (auto simp: run_continuation_def run_with_lifecycle_def)
  qed
qed

lemma operations_are_steps:
  assumes "outside interface_step A" and "steps_others A t others" and "reaches A t Out w"
  shows "agent_prompt A n others ms w = (s, r) \<Longrightarrow> \<exists>g. reaches A t g (rn_world s)"
    and "continue_run A n others w = (s, r) \<Longrightarrow> \<exists>g. reaches A t g (rn_world s)"
    and "\<exists>g. reaches A t g (fst (reset others w))"
proof -
  note others = assms(2) [unfolded steps_others_def, rule_format]
  note run = reaches_run [OF assms(1,2)]
  show "agent_prompt A n others ms w = (s, r) \<Longrightarrow> \<exists>g. reaches A t g (rn_world s)"
    using run(1) [OF others [OF assms(3)]] assms(3) by (auto simp: agent_prompt_def split: if_splits)
  let ?w0 = "others GapCheck w"
  let ?wr = "others GapRead ?w0"
  let ?w1 = "others GapSteering (?wr\<lparr>in_steering := fst (pq_drain (in_steering ?wr))\<rparr>)"
  let ?w2 = "others GapFollowUp (?w1\<lparr>in_follow_up := fst (pq_drain (in_follow_up ?w1))\<rparr>)"
  have w0: "reaches A t Out ?w0" and wr: "reaches A t Out ?wr" using assms(3) by (simp_all add: others)
  have w1: "reaches A t Out ?w1" by (rule others, rule reaches_stay [OF wr hs_drain_steering])
  have w2: "reaches A t Out ?w2" by (rule others, rule reaches_stay [OF w1 hs_drain_follow_up])
  show "continue_run A n others w = (s, r) \<Longrightarrow> \<exists>g. reaches A t g (rn_world s)"
    using run [OF wr] run [OF w1] run [OF w2] assms(3) w0 w2
    by (auto simp: continue_run_def Let_def split_beta split: if_splits agent_message.splits)
  show "\<exists>g. reaches A t g (fst (reset others w))"
  proof (cases "in_active_run w")
    case None
    have "reaches A t Resetting w" by (rule reaches_step [OF assms(3)]) (simp add: None hs_check)
    then have "reaches A t Out (reset_state (others GapCheck w))" by (intro reaches_step [OF others hs_reset])
    then have "reaches A t Out (clear_all_queues (others GapReset (reset_state (others GapCheck w))))"
      by (rule reaches_stay [OF others hs_interface [OF is_quiet [OF qs_clear]]])
    with None show ?thesis by (auto simp: reset_def)
  next
    case (Some c)
    with assms(3) show ?thesis by (auto simp: reset_def)
  qed
qed

section \<open>Properties\<close>

text \<open>
  C13. Whatever threads do with a handle, and however the critical sections of their operations
  interleave: one thread at most owns the run, and the handle is busy exactly while one does; a run that
  starts next is not aborted, whatever was aborted before; while a run is owned, prompts, continuations
  and resets are refused and change nothing; and while no thread is inside its run, no message streams,
  no call is pending and the streaming flag is down. If no run is claimed while another thread is between
  the last two sections of its own or has passed the check of a reset, the two flags say where the owner
  is: the watch flag is up from its setting until it is cleared, the streaming flag while the run goes on.
\<close>

theorem handle_invariant:
  assumes "threads_reachable overlap A c"
  shows "(\<forall>t u. owns (ta_stage c t) \<longrightarrow> owns (ta_stage c u) \<longrightarrow> t = u) \<and>
    (in_active_run (ta_handle c) \<noteq> None \<longleftrightarrow> (\<exists>t. owns (ta_stage c t))) \<and>
    \<not> channel_signal (in_next_channel (ta_handle c)) (ta_handle c) \<and>
    ((\<exists>t. owns (ta_stage c t)) \<longrightarrow>
      (\<exists>e. reset others (ta_handle c) = (ta_handle c, Inl e)) \<and>
      (\<exists>e. agent_prompt A n others prompts (ta_handle c) = (\<lparr>rn_world = ta_handle c, rn_events = []\<rparr>, Some (Inl e))) \<and>
      (\<exists>e. continue_run A n others (ta_handle c) = (\<lparr>rn_world = ta_handle c, rn_events = []\<rparr>, Some (Inl e)))) \<and>
    ((\<exists>t. ta_stage c t = Running) \<or>
      \<not> st_is_streaming (in_state (ta_handle c)) \<and> st_streaming_message (in_state (ta_handle c)) = None \<and>
      st_pending_tool_calls (in_state (ta_handle c)) = {}) \<and>
    (overlap \<or>
      (in_running (ta_handle c) \<longleftrightarrow> (\<exists>t. ta_stage c t \<in> {Marked, Running, Settled, Released})) \<and>
      (st_is_streaming (in_state (ta_handle c)) \<longleftrightarrow> (\<exists>t. ta_stage c t = Running)))"
proof -
  note ok = threads_ok [OF assms]
  have mark: "past_mark g \<longleftrightarrow> g \<in> {Marked, Running, Settled, Released}" for g by (cases g) (simp_all add: stage_defs)
  have busy: "in_active_run (ta_handle c) \<noteq> None \<longleftrightarrow> (\<exists>t. owns (ta_stage c t))"
    and fresh: "\<not> channel_signal (in_next_channel (ta_handle c)) (ta_handle c)"
    using ok by (auto simp: one_owner_def channel_signal_def)
  have refused: "(\<exists>e. reset others (ta_handle c) = (ta_handle c, Inl e)) \<and>
      (\<exists>e. agent_prompt A n others prompts (ta_handle c) = (\<lparr>rn_world = ta_handle c, rn_events = []\<rparr>, Some (Inl e))) \<and>
      (\<exists>e. continue_run A n others (ta_handle c) = (\<lparr>rn_world = ta_handle c, rn_events = []\<rparr>, Some (Inl e)))"
    if "\<exists>t. owns (ta_stage c t)"
    using that busy by (simp add: reset_def agent_prompt_def continue_run_def Let_def)
  from ok busy fresh refused show ?thesis
    unfolding one_owner_def settled_unless_running_def flags_agree_def mark by blast
qed

text \<open>A new handle, claimed by thread 0.\<close>

lemma first_claim:
  "threads_reachable overlap A (at (claim_active (agent_new A d x)) ((\<lambda>_. Out)(0 := Claimed)))"
proof (rule tr_step)
  show "threads_reachable overlap A (at (agent_new A d x) (\<lambda>_. Out))" by (rule tr_new)
  show "handle_step overlap (at (agent_new A d x) (\<lambda>_. Out))
    (at (claim_active (agent_new A d x)) ((\<lambda>_. Out)(0 := Claimed)))"
    by (rule hs_claim) (simp_all add: agent_new_def Let_def)
qed

theorem handle_invariant_witness:
  "in_active_run (claim_active (demo_handle 0)) \<noteq> None \<and>
   (\<exists>e. agent_prompt demo_wiring 3 (\<lambda>_ v. v) [demo_prompt] (claim_active (demo_handle 0)) =
      (\<lparr>rn_world = claim_active (demo_handle 0), rn_events = []\<rparr>, Some (Inl e))) \<and>
   \<not> in_running (claim_active (demo_handle 0))"
proof -
  obtain c where c: "threads_reachable False demo_wiring c" "ta_handle c = claim_active (demo_handle 0)"
    "owns (ta_stage c 0)" "\<And>t. ta_stage c t \<notin> {Marked, Running, Settled, Released}"
    by (rule that [OF first_claim [of False demo_wiring None 0]]) (simp_all add: owns_def demo_handle_def)
  from handle_invariant [OF c(1), of "\<lambda>_ v. v" 3 "[demo_prompt]"] c(3,4) show ?thesis
    unfolding c(2) by blast
qed

text \<open>
  The flag \<^verbatim>\<open>wait_for_idle\<close> watches can be down during a run: a thread releases its run, another one claims
  the run and sets the flag, and only then the first one clears it.
\<close>

lemma running_flag_race:
  "\<exists>c. threads_reachable True A c \<and> ta_stage c 1 = Running \<and> (\<forall>t. t \<noteq> 1 \<longrightarrow> ta_stage c t = Out) \<and>
     in_active_run (ta_handle c) \<noteq> None \<and> st_is_streaming (in_state (ta_handle c)) \<and> \<not> in_running (ta_handle c)"
proof -
  let ?w = "claim_active (agent_new A d x)" and ?c = "(\<lambda>_. Out)(0 := Claimed)"
  let ?r = "release_run (settle_state (begin_streaming (mark_running ?w)))"
  let ?b = "begin_streaming (mark_running (claim_active ?r))"
  have stage: "threads_reachable True A (at w' st')" if "threads_reachable True A (at w st)"
    "handle_step True (at w st) (at w' st')" for w st w' st'
    using that by (rule tr_step)
  have m: "threads_reachable True A (at (mark_running ?w) (?c(0 := Marked)))"
    by (rule stage [OF first_claim]) (rule hs_mark, simp)
  have g: "threads_reachable True A (at (begin_streaming (mark_running ?w)) (?c(0 := Marked, 0 := Running)))"
    by (rule stage [OF m]) (rule hs_begin, simp)
  have e: "threads_reachable True A (at (settle_state (begin_streaming (mark_running ?w)))
      (?c(0 := Marked, 0 := Running, 0 := Settled)))"
    by (rule stage [OF g]) (rule hs_settle, simp)
  have r: "threads_reachable True A (at ?r (?c(0 := Marked, 0 := Running, 0 := Settled, 0 := Released)))"
    by (rule stage [OF e]) (rule hs_release, simp)
  let ?q = "?c(0 := Marked, 0 := Running, 0 := Settled, 0 := Released)"
  have c1: "threads_reachable True A (at (claim_active ?r) (?q(1 := Claimed)))"
    by (rule stage [OF r]) (rule hs_claim, simp_all add: release_run_def)
  have m1: "threads_reachable True A (at (mark_running (claim_active ?r)) (?q(1 := Claimed, 1 := Marked)))"
    by (rule stage [OF c1]) (rule hs_mark, simp)
  have g1: "threads_reachable True A (at ?b (?q(1 := Claimed, 1 := Marked, 1 := Running)))"
    by (rule stage [OF m1]) (rule hs_begin, simp)
  have s: "threads_reachable True A (at (mark_stopped ?b) (?q(1 := Claimed, 1 := Marked, 1 := Running, 0 := Out)))"
    by (rule stage [OF g1]) (rule hs_stop, simp)
  have "in_active_run (mark_stopped ?b) \<noteq> None" "st_is_streaming (in_state (mark_stopped ?b))" "\<not> in_running (mark_stopped ?b)"
    by (simp_all add: mark_stopped_def begin_streaming_def mark_running_def claim_active_def)
  with s show ?thesis
    by (intro exI [of _ "at (mark_stopped ?b) (?q(1 := Claimed, 1 := Marked, 1 := Running, 0 := Out))"]) simp
qed

end
