(* ===== verification/Tool_Error.thy ===== *)
theory Tool_Error
  imports Prelude
begin

text \<open>
  The errors of the file system, the shell and the tools, \<^verbatim>\<open>pi-rs/crates/pi-tools/src/error.rs\<close>, with
  the stable code and the message of each.
\<close>

datatype file_error_code =
  FAborted | FNotFound | FPermissionDenied | FNotDirectory | FIsDirectory | FInvalid | FNotSupported | FUnknown

fun file_error_code_as_str :: "file_error_code \<Rightarrow> string" where
  "file_error_code_as_str FAborted = ''aborted''"
| "file_error_code_as_str FNotFound = ''not_found''"
| "file_error_code_as_str FPermissionDenied = ''permission_denied''"
| "file_error_code_as_str FNotDirectory = ''not_directory''"
| "file_error_code_as_str FIsDirectory = ''is_directory''"
| "file_error_code_as_str FInvalid = ''invalid''"
| "file_error_code_as_str FNotSupported = ''not_supported''"
| "file_error_code_as_str FUnknown = ''unknown''"

record file_error =
  fe_code :: file_error_code
  fe_message :: string
  fe_path :: "string option"

text \<open>The kinds of \<^verbatim>\<open>std::io::ErrorKind\<close> that the mapping tells apart, and the raw error number.\<close>

datatype io_error_kind =
  IoNotFound | IoPermissionDenied | IoIsADirectory | IoNotADirectory | IoInvalidInput | IoInvalidData
| IoUnsupported | IoInterrupted | IoOther

record io_error =
  io_kind :: io_error_kind
  io_raw_os_error :: "int option"
  io_text :: string

definition from_io :: "io_error \<Rightarrow> string option \<Rightarrow> file_error" where
  "from_io err path =
     (let code =
        (case io_kind err of
           IoNotFound \<Rightarrow> FNotFound
         | IoPermissionDenied \<Rightarrow> FPermissionDenied
         | IoIsADirectory \<Rightarrow> FIsDirectory
         | IoNotADirectory \<Rightarrow> FNotDirectory
         | IoInvalidInput \<Rightarrow> FInvalid
         | IoInvalidData \<Rightarrow> FInvalid
         | IoUnsupported \<Rightarrow> FNotSupported
         | IoInterrupted \<Rightarrow> FAborted
         | IoOther \<Rightarrow>
             (case io_raw_os_error err of
                None \<Rightarrow> FUnknown
              | Some n \<Rightarrow>
                  if n = 20 then FNotDirectory
                  else if n = 21 then FIsDirectory
                  else if n = 22 then FInvalid
                  else if n = 39 \<or> n = 66 then FInvalid
                  else FUnknown))
      in \<lparr>fe_code = code, fe_message = io_text err, fe_path = path\<rparr>)"

datatype execution_error_code =
  XAborted | XTimeout | XShellUnavailable | XSpawnError | XCallbackError | XUnknown

fun execution_error_code_as_str :: "execution_error_code \<Rightarrow> string" where
  "execution_error_code_as_str XAborted = ''aborted''"
| "execution_error_code_as_str XTimeout = ''timeout''"
| "execution_error_code_as_str XShellUnavailable = ''shell_unavailable''"
| "execution_error_code_as_str XSpawnError = ''spawn_error''"
| "execution_error_code_as_str XCallbackError = ''callback_error''"
| "execution_error_code_as_str XUnknown = ''unknown''"

record execution_error =
  xe_code :: execution_error_code
  xe_message :: string

datatype tool_error =
  TInvalidArguments string | TAborted | TFile file_error | TExecution execution_error | TFailed string

fun tool_error_code :: "tool_error \<Rightarrow> string" where
  "tool_error_code (TInvalidArguments _) = ''invalid_arguments''"
| "tool_error_code TAborted = ''aborted''"
| "tool_error_code (TFile e) = file_error_code_as_str (fe_code e)"
| "tool_error_code (TExecution e) = execution_error_code_as_str (xe_code e)"
| "tool_error_code (TFailed _) = ''failed''"

fun tool_error_message :: "tool_error \<Rightarrow> string" where
  "tool_error_message (TInvalidArguments message) = message"
| "tool_error_message TAborted = ''Operation aborted''"
| "tool_error_message (TFile e) = fe_message e"
| "tool_error_message (TExecution e) = xe_message e"
| "tool_error_message (TFailed message) = message"

fun tool_error_is_aborted :: "tool_error \<Rightarrow> bool" where
  "tool_error_is_aborted TAborted = True"
| "tool_error_is_aborted (TFile e) = (fe_code e = FAborted)"
| "tool_error_is_aborted (TExecution e) = (xe_code e = XAborted)"
| "tool_error_is_aborted _ = False"

lemma file_error_code_inj: "file_error_code_as_str a = file_error_code_as_str b \<longleftrightarrow> a = b"
  by (cases a; cases b) simp_all

lemma execution_error_code_inj: "execution_error_code_as_str a = execution_error_code_as_str b \<longleftrightarrow> a = b"
  by (cases a; cases b) simp_all

text \<open>A caller that only sees the code can tell an aborted call from every other failure.\<close>

lemma is_aborted_by_code: "tool_error_is_aborted e \<longleftrightarrow> tool_error_code e = ''aborted''"
proof (cases e)
  case (TFile f)
  then show ?thesis using file_error_code_inj [of "fe_code f" FAborted] by simp
next
  case (TExecution x)
  then show ?thesis using execution_error_code_inj [of "xe_code x" XAborted] by simp
qed simp_all

end
