(* ===== verification/Tool_Truncate.thy ===== *)
theory Tool_Truncate
  imports Tool_Error "HOL-Library.Sublist"
begin

text \<open>
  Limits on tool output, \<^verbatim>\<open>pi-rs/crates/pi-tools/src/truncate.rs\<close>, and the capture of shell output,
  \<^verbatim>\<open>shell_output.rs\<close>, which keeps a bounded tail in memory and spills everything to a file. A
  \<^verbatim>\<open>usize\<close> is a natural number here: all of them are lengths or limits.

  The lemmas say what the two truncations keep, as a function of the lines of the text, and that
  the capture, fed in any chunks, shows what truncating the whole output would show.
\<close>

section \<open>Truncation\<close>

definition DEFAULT_MAX_LINES :: nat where
  "DEFAULT_MAX_LINES = 2000"

definition DEFAULT_MAX_BYTES :: nat where
  "DEFAULT_MAX_BYTES = 50 * 1024"

datatype truncated_by = TLines | TBytes

record truncation_result =
  tn_content :: string
  tn_truncated :: bool
  tn_truncated_by :: "truncated_by option"
  tn_total_lines :: nat
  tn_total_bytes :: nat
  tn_output_lines :: nat
  tn_output_bytes :: nat
  tn_last_line_partial :: bool
  tn_first_line_exceeds_limit :: bool
  tn_max_lines :: nat
  tn_max_bytes :: nat

record truncation_options =
  to_max_lines :: nat
  to_max_bytes :: nat

definition truncation_options_default :: truncation_options where
  "truncation_options_default = \<lparr>to_max_lines = DEFAULT_MAX_LINES, to_max_bytes = DEFAULT_MAX_BYTES\<rparr>"

definition truncation_options_new :: "nat \<Rightarrow> nat \<Rightarrow> truncation_options" where
  "truncation_options_new max_lines max_bytes = \<lparr>to_max_lines = max_lines, to_max_bytes = max_bytes\<rparr>"

definition bytes_only :: "nat \<Rightarrow> truncation_options" where
  "bytes_only max_bytes = \<lparr>to_max_lines = 2 ^ 64 - 1, to_max_bytes = max_bytes\<rparr>"

definition split_lines_for_counting :: "string \<Rightarrow> string list" where
  "split_lines_for_counting content =
     (if content = [] then []
      else if last content = newline then butlast (split_lines content)
      else split_lines content)"

definition untruncated :: "string \<Rightarrow> truncation_options \<Rightarrow> nat \<Rightarrow> truncation_result" where
  "untruncated content options lines =
     \<lparr>tn_content = content, tn_truncated = False, tn_truncated_by = None, tn_total_lines = lines,
      tn_total_bytes = length content, tn_output_lines = lines, tn_output_bytes = length content,
      tn_last_line_partial = False, tn_first_line_exceeds_limit = False,
      tn_max_lines = to_max_lines options, tn_max_bytes = to_max_bytes options\<rparr>"

text \<open>The loop of \<open>truncate_head\<close>: the lines that are kept, their bytes, and the limit that was hit.\<close>

fun head_lines ::
  "truncation_options \<Rightarrow> nat \<Rightarrow> nat \<Rightarrow> string list \<Rightarrow> string list \<times> nat \<times> truncated_by" where
  "head_lines options i count [] = ([], count, TLines)"
| "head_lines options i count (line # rest) =
     (if i \<ge> to_max_lines options then ([], count, TLines)
      else
        let line_bytes = length line + (if i > 0 then 1 else 0)
        in if count + line_bytes > to_max_bytes options then ([], count, TBytes)
           else
             let (output, total, by) = head_lines options (Suc i) (count + line_bytes) rest
             in (line # output, total, by))"

definition truncate_head :: "string \<Rightarrow> truncation_options \<Rightarrow> truncation_result" where
  "truncate_head content options =
     (let total_bytes = length content;
          lines = split_lines_for_counting content;
          total_lines = length lines
      in if total_lines \<le> to_max_lines options \<and> total_bytes \<le> to_max_bytes options
         then untruncated content options total_lines
         else if (case lines of [] \<Rightarrow> 0 | l # _ \<Rightarrow> length l) > to_max_bytes options
         then
           \<lparr>tn_content = [], tn_truncated = True, tn_truncated_by = Some TBytes,
            tn_total_lines = total_lines, tn_total_bytes = total_bytes, tn_output_lines = 0,
            tn_output_bytes = 0, tn_last_line_partial = False, tn_first_line_exceeds_limit = True,
            tn_max_lines = to_max_lines options, tn_max_bytes = to_max_bytes options\<rparr>
         else
           let (output, count, by) = head_lines options 0 0 lines;
               by = (if length output \<ge> to_max_lines options \<and> count \<le> to_max_bytes options
                     then TLines else by);
               output_content = join_lines output
           in \<lparr>tn_content = output_content, tn_truncated = True, tn_truncated_by = Some by,
               tn_total_lines = total_lines, tn_total_bytes = total_bytes,
               tn_output_lines = length output, tn_output_bytes = length output_content,
               tn_last_line_partial = False, tn_first_line_exceeds_limit = False,
               tn_max_lines = to_max_lines options, tn_max_bytes = to_max_bytes options\<rparr>)"

definition is_char_boundary :: "string \<Rightarrow> nat \<Rightarrow> bool" where
  "is_char_boundary s i \<longleftrightarrow> i = 0 \<or> i = length s \<or> i < length s \<and> \<not> is_cont_char (s ! i)"

text \<open>The loop that moves \<open>start\<close> up to the next character boundary.\<close>

function next_boundary :: "string \<Rightarrow> nat \<Rightarrow> nat" where
  "next_boundary s start =
     (if start < length s \<and> \<not> is_char_boundary s start then next_boundary s (Suc start) else start)"
  by pat_completeness auto
termination
  by (relation "measure (\<lambda>(s, start). length s - start)") auto

definition truncate_str_to_bytes_from_end :: "string \<Rightarrow> nat \<Rightarrow> string" where
  "truncate_str_to_bytes_from_end s max_bytes =
     (if max_bytes = 0 \<or> s = [] then []
      else if length s \<le> max_bytes then s
      else drop (next_boundary s (length s - max_bytes)) s)"

text \<open>The loop of \<open>truncate_tail\<close> over the lines from the last one; \<open>output\<close> is in that order.\<close>

fun tail_lines ::
  "truncation_options \<Rightarrow> string list \<Rightarrow> nat \<Rightarrow> string list \<Rightarrow> string list \<times> nat \<times> truncated_by \<times> bool" where
  "tail_lines options output count [] = (output, count, TLines, False)"
| "tail_lines options output count (line # rest) =
     (if length output \<ge> to_max_lines options then (output, count, TLines, False)
      else
        let line_bytes = length line + (if output \<noteq> [] then 1 else 0)
        in if count + line_bytes > to_max_bytes options
           then
             (if output = []
              then let cut = truncate_str_to_bytes_from_end line (to_max_bytes options)
                   in ([cut], length cut, TBytes, True)
              else (output, count, TBytes, False))
           else tail_lines options (output @ [line]) (count + line_bytes) rest)"

definition truncate_tail :: "string \<Rightarrow> truncation_options \<Rightarrow> truncation_result" where
  "truncate_tail content options =
     (let total_bytes = length content;
          lines = split_lines_for_counting content;
          total_lines = length lines
      in if total_lines \<le> to_max_lines options \<and> total_bytes \<le> to_max_bytes options
         then untruncated content options total_lines
         else
           let (output, count, by, last_line_partial) = tail_lines options [] 0 (rev lines);
               output = rev output;
               by = (if length output \<ge> to_max_lines options \<and> count \<le> to_max_bytes options
                     then TLines else by);
               output_content = join_lines output
           in \<lparr>tn_content = output_content, tn_truncated = True, tn_truncated_by = Some by,
               tn_total_lines = total_lines, tn_total_bytes = total_bytes,
               tn_output_lines = length output, tn_output_bytes = length output_content,
               tn_last_line_partial = last_line_partial, tn_first_line_exceeds_limit = False,
               tn_max_lines = to_max_lines options, tn_max_bytes = to_max_bytes options\<rparr>)"

definition truncate_line :: "string \<Rightarrow> nat \<Rightarrow> string \<times> bool" where
  "truncate_line line max_chars =
     (if chars_count line \<le> max_chars then (line, False)
      else (take_chars max_chars line @ ''... [truncated]'', True))"

section \<open>Capturing shell output\<close>

text \<open>
  The characters of a text. \<^verbatim>\<open>sanitize_binary_output\<close> drops control characters, apart from tab, LF and
  CR, and U+FFF9 to U+FFFB, whose encodings are \<open>EF BF B9\<close> to \<open>EF BF BB\<close>.
\<close>

fun char_pieces :: "string \<Rightarrow> string list" where
  "char_pieces [] = []"
| "char_pieces (c # s) =
     (case char_pieces s of
        (d # p) # ps \<Rightarrow> if is_cont_char d then (c # d # p) # ps else [c] # (d # p) # ps
      | ps \<Rightarrow> [c] # ps)"

definition keeps_char :: "string \<Rightarrow> bool" where
  "keeps_char p \<longleftrightarrow>
     (if p \<in> {[CHR 0x09], [CHR 0x0A], [CHR 0x0D]} then True
      else if length p = 1 \<and> (of_char (hd p) :: nat) \<le> 0x1F then False
      else p \<notin> {[CHR 0xEF, CHR 0xBF, CHR 0xB9], [CHR 0xEF, CHR 0xBF, CHR 0xBA], [CHR 0xEF, CHR 0xBF, CHR 0xBB]})"

definition sanitize_binary_output :: "string \<Rightarrow> string" where
  "sanitize_binary_output s = concat (filter keeps_char (char_pieces s))"

definition trim_to_last_utf8_bytes :: "string \<Rightarrow> nat \<Rightarrow> string" where
  "trim_to_last_utf8_bytes s max_bytes =
     (if length s \<le> max_bytes then s else drop (next_boundary s (length s - max_bytes)) s)"

record capture_state =
  cs_tail_output :: string
  cs_total_bytes :: nat
  cs_completed_lines :: nat
  cs_has_open_line :: bool
  cs_current_line_bytes :: nat
  cs_full_output_path :: "string option"
  cs_full_output_requested :: bool

definition capture_state_default :: capture_state where
  "capture_state_default =
     \<lparr>cs_tail_output = [], cs_total_bytes = 0, cs_completed_lines = 0, cs_has_open_line = False,
      cs_current_line_bytes = 0, cs_full_output_path = None, cs_full_output_requested = False\<rparr>"

record shell_capture_progress =
  pg_output :: string
  pg_truncation :: truncation_result
  pg_full_output_path :: "string option"
  pg_last_line_bytes :: nat

definition capture_lines :: "capture_state \<Rightarrow> nat" where
  "capture_lines st = cs_completed_lines st + (if cs_has_open_line st then 1 else 0)"

definition progress :: "capture_state \<Rightarrow> shell_capture_progress" where
  "progress st =
     (let tail_truncation = truncate_tail (cs_tail_output st) truncation_options_default;
          total_lines = capture_lines st;
          truncated = (total_lines > DEFAULT_MAX_LINES \<or> cs_total_bytes st > DEFAULT_MAX_BYTES);
          by = (if truncated
                then (case tn_truncated_by tail_truncation of
                        Some b \<Rightarrow> Some b
                      | None \<Rightarrow> Some (if cs_total_bytes st > DEFAULT_MAX_BYTES then TBytes else TLines))
                else None);
          truncation = tail_truncation\<lparr>tn_truncated := truncated, tn_truncated_by := by,
            tn_total_lines := total_lines, tn_total_bytes := cs_total_bytes st\<rparr>
      in \<lparr>pg_output = (if truncated then tn_content truncation else cs_tail_output st),
          pg_truncation = truncation, pg_full_output_path = cs_full_output_path st,
          pg_last_line_bytes = cs_current_line_bytes st\<rparr>)"

text \<open>
  The temporary file: its contents, or none yet. The outcomes of the two file operations are
  arguments, an error being given by its message; an append that fails leaves the file as it is.
\<close>

definition unknown_error :: "string \<Rightarrow> execution_error" where
  "unknown_error message = \<lparr>xe_code = XUnknown, xe_message = message\<rparr>"

record capture_io =
  ci_create :: "string + string"
  ci_append :: "string option"

definition ensure_full_output_file ::
  "capture_io \<Rightarrow> capture_state \<Rightarrow> string \<Rightarrow> string option \<Rightarrow>
   capture_state \<times> string option \<times> (execution_error + unit)" where
  "ensure_full_output_file io st initial_content file =
     (if cs_full_output_requested st then (st, file, Inr ())
      else
        let st = st\<lparr>cs_full_output_requested := True\<rparr>
        in case ci_create io of
             Inl e \<Rightarrow> (st, file, Inl (unknown_error e))
           | Inr path \<Rightarrow>
               (case ci_append io of
                  Some e \<Rightarrow> (st, Some [], Inl (unknown_error e))
                | None \<Rightarrow> (st\<lparr>cs_full_output_path := Some path\<rparr>, Some initial_content, Inr ())))"

definition count_line :: "string \<Rightarrow> capture_state \<Rightarrow> capture_state" where
  "count_line t st =
     (let st = st\<lparr>cs_total_bytes := cs_total_bytes st + length t,
                 cs_completed_lines := cs_completed_lines st + count_list t newline\<rparr>
      in if newline \<in> set t then
           let trailing = last (split_lines t)
           in st\<lparr>cs_current_line_bytes := length trailing, cs_has_open_line := trailing \<noteq> []\<rparr>
         else if t \<noteq> [] then
           st\<lparr>cs_current_line_bytes := cs_current_line_bytes st + length t, cs_has_open_line := True\<rparr>
         else st)"

text \<open>One chunk in the consumer task; after an error the later chunks are only received.\<close>

definition capture_text :: "string \<Rightarrow> string" where
  "capture_text chunk = filter (\<lambda>c. c \<noteq> CHR 0x0D) (sanitize_binary_output chunk)"

definition capture_chunk ::
  "capture_io \<times> string \<Rightarrow> capture_state \<times> string option \<times> execution_error option \<Rightarrow>
   capture_state \<times> string option \<times> execution_error option" where
  "capture_chunk inp c =
     (let (io, chunk) = inp; (st, file, capture_error) = c
      in if capture_error \<noteq> None then c
         else
           let t = capture_text chunk;
               st = count_line t st;
               st = st\<lparr>cs_tail_output := cs_tail_output st @ t\<rparr>;
               over_limit = (cs_total_bytes st > DEFAULT_MAX_BYTES \<or> capture_lines st > DEFAULT_MAX_LINES);
               (st, file, write) =
                 (if over_limit \<and> \<not> cs_full_output_requested st
                  then ensure_full_output_file io st (cs_tail_output st) file
                  else if cs_full_output_requested st
                  then (case ci_append io of
                          Some e \<Rightarrow> (st, file, Inl (unknown_error e))
                        | None \<Rightarrow> (st, map_option (\<lambda>f. f @ t) file, Inr ()))
                  else (st, file, Inr ()))
           in case write of
                Inl e \<Rightarrow> (st, file, Some e)
              | Inr _ \<Rightarrow>
                  (st\<lparr>cs_tail_output := trim_to_last_utf8_bytes (cs_tail_output st) (DEFAULT_MAX_BYTES * 2)\<rparr>,
                   file, None))"

text \<open>
  The whole command: \<open>chunks\<close> is what the consumer task receives before the end-of-stream sentinel, each
  with the outcomes of the file operations it leads to, and \<open>exec\<close> is what \<^verbatim>\<open>env.exec\<close> returns.
\<close>

record shell_capture_result =
  cr_output :: string
  cr_truncation :: truncation_result
  cr_full_output_path :: "string option"
  cr_last_line_bytes :: nat
  cr_exit_code :: "int option"
  cr_cancelled :: bool
  cr_truncated :: bool
  cr_execution_error :: "execution_error option"

definition capture_result ::
  "shell_capture_progress \<Rightarrow> int option \<Rightarrow> bool \<Rightarrow> execution_error option \<Rightarrow> shell_capture_result" where
  "capture_result pg exit_code cancelled err =
     \<lparr>cr_output = pg_output pg, cr_truncation = pg_truncation pg, cr_full_output_path = pg_full_output_path pg,
      cr_last_line_bytes = pg_last_line_bytes pg, cr_exit_code = exit_code, cr_cancelled = cancelled,
      cr_truncated = tn_truncated (pg_truncation pg), cr_execution_error = err\<rparr>"

definition execute_shell_with_capture ::
  "(capture_io \<times> string) list \<Rightarrow> capture_io \<Rightarrow> execution_error + int \<Rightarrow> bool \<Rightarrow> bool \<Rightarrow>
   string option \<times> (execution_error + shell_capture_result)" where
  "execute_shell_with_capture chunks io exec aborted return_execution_errors =
     (let (st, file, capture_error) = fold capture_chunk chunks (capture_state_default, None, None);
          (st, file, spill) =
            (if tn_truncated (pg_truncation (progress st)) \<and> \<not> cs_full_output_requested st
             then ensure_full_output_file io st (cs_tail_output st) file
             else (st, file, Inr ()))
      in (file,
          case spill of
            Inl e \<Rightarrow> Inl e
          | Inr _ \<Rightarrow>
              (case capture_error of
                 Some e \<Rightarrow> Inl e
               | None \<Rightarrow>
                   (case exec of
                      Inl e \<Rightarrow>
                        if xe_code e = XAborted \<or> aborted then Inr (capture_result (progress st) None True None)
                        else if return_execution_errors then Inr (capture_result (progress st) None False (Some e))
                        else Inl e
                    | Inr exit_code \<Rightarrow>
                        Inr (capture_result (progress st) (if aborted then None else Some exit_code) aborted None)))))"

section \<open>What truncation keeps\<close>

lemma length_join_lines: "length (join_lines ls) = sum_list (map length ls) + (length ls - 1)"
  by (induction ls rule: join_lines.induct) auto

lemma prefix_join_take: "prefix (join_lines (take k ls)) (join_lines ls)"
proof (cases "take k ls = [] \<or> drop k ls = []")
  case False
  then have "join_lines ls = join_lines (take k ls) @ newline # join_lines (drop k ls)"
    using join_lines_append [of "take k ls" "drop k ls"] by (metis append_take_drop_id)
  then show ?thesis by (metis prefixI)
qed (auto simp: not_less)

lemma suffix_join_drop: "suffix (join_lines (drop k ls)) (join_lines ls)"
proof (cases "take k ls = [] \<or> drop k ls = []")
  case False
  then have "join_lines ls = join_lines (take k ls) @ newline # join_lines (drop k ls)"
    using join_lines_append [of "take k ls" "drop k ls"] by (metis append_take_drop_id)
  then show ?thesis by (metis suffixI append_Cons append_Nil append_assoc)
qed auto

lemma split_lines_snoc: "split_lines (s @ [newline]) = split_lines s @ [[]]"
proof (induction s)
  case (Cons c s)
  obtain l ls where "split_lines s = l # ls" using split_lines_ne [of s] by (cases "split_lines s") auto
  with Cons show ?case by simp
qed simp

lemma counted_lines:
  "split_lines_for_counting content = (if content = [] then [] else split_lines (
     if last content = newline then butlast content else content))"
  by (cases content rule: rev_cases) (auto simp: split_lines_for_counting_def split_lines_snoc)

lemma counted_join:
  "join_lines (split_lines_for_counting content) =
     (if content \<noteq> [] \<and> last content = newline then butlast content else content)"
  by (simp add: counted_lines)

lemma head_lines_spec:
  "head_lines options i count lines = (out, tot, b) \<Longrightarrow> count \<le> to_max_bytes options \<Longrightarrow>
   \<exists>k. out = take k lines \<and> k \<le> length lines \<and> (k > 0 \<longrightarrow> i + k \<le> to_max_lines options) \<and>
     tot = count + sum_list (map length out) + (if i = 0 then k - 1 else k) \<and>
     tot \<le> to_max_bytes options \<and>
     (k < length lines \<longrightarrow> i + k < to_max_lines options \<longrightarrow>
        tot + length (lines ! k) + (if i + k > 0 then 1 else 0) > to_max_bytes options)"
proof (induction lines arbitrary: i count out tot b)
  case (Cons line rest)
  let ?b = "length line + (if i > 0 then 1 else 0)"
  show ?case
  proof (cases "i \<ge> to_max_lines options \<or> count + ?b > to_max_bytes options")
    case True
    with Cons.prems show ?thesis by (intro exI [of _ 0]) (auto simp: Let_def split: if_splits)
  next
    case False
    obtain out1 t1 b1 where rec: "head_lines options (Suc i) (count + ?b) rest = (out1, t1, b1)"
      by (metis prod_cases3)
    with False Cons.prems have r: "out = line # out1" "tot = t1" by (auto simp: Let_def split: if_splits)
    have "count + ?b \<le> to_max_bytes options" using False by auto
    from Cons.IH [OF rec this] obtain k where k: "out1 = take k rest" "k \<le> length rest"
      "k > 0 \<longrightarrow> Suc i + k \<le> to_max_lines options"
      "t1 = count + ?b + sum_list (map length out1) + k" "t1 \<le> to_max_bytes options"
      "k < length rest \<longrightarrow> Suc i + k < to_max_lines options \<longrightarrow> t1 + length (rest ! k) + 1 > to_max_bytes options"
      by auto
    show ?thesis
      using False r k by (intro exI [of _ "Suc k"]) auto
  qed
qed auto

text \<open>
  \<^verbatim>\<open>truncate_head\<close> keeps the beginning of a text as whole lines: the result is the text itself when
  it is within both limits, and otherwise the longest run of first lines that is within both; it is
  always a prefix of the text and never exceeds the limits.
\<close>

theorem truncate_head_keeps:
  "let r = truncate_head content options; ls = split_lines_for_counting content; k = tn_output_lines r in
     tn_truncated r = (to_max_lines options < length ls \<or> to_max_bytes options < length content) \<and>
     tn_content r = (if tn_truncated r then join_lines (take k ls) else content) \<and>
     prefix (tn_content r) content \<and> k \<le> min (to_max_lines options) (length ls) \<and>
     tn_output_bytes r = length (tn_content r) \<and> tn_output_bytes r \<le> to_max_bytes options \<and>
     (k < min (to_max_lines options) (length ls) \<longrightarrow> to_max_bytes options < length (join_lines (take (Suc k) ls)))"
proof -
  let ?ls = "split_lines_for_counting content"
  have pre: "prefix (join_lines (take k ?ls)) content" for k
    using prefix_join_take [of k ?ls] counted_join [of content]
    by (metis append_butlast_last_id prefix_append prefix_order.trans prefix_prefix)
  show ?thesis
  proof (cases "to_max_lines options < length ?ls \<or> to_max_bytes options < length content")
    case False
    then show ?thesis by (auto simp: truncate_head_def untruncated_def Let_def)
  next
    case over: True
    show ?thesis
    proof (cases "(case ?ls of [] \<Rightarrow> 0 | l # _ \<Rightarrow> length l) > to_max_bytes options")
      case True
      with over show ?thesis by (cases ?ls) (auto simp: truncate_head_def Let_def)
    next
      case False
      obtain out tot b where h: "head_lines options 0 0 ?ls = (out, tot, b)" by (metis prod_cases3)
      from head_lines_spec [OF h] obtain k where k: "out = take k ?ls" "k \<le> length ?ls"
        "k > 0 \<longrightarrow> k \<le> to_max_lines options" "tot = sum_list (map length out) + (k - 1)"
        "tot \<le> to_max_bytes options"
        "k < length ?ls \<longrightarrow> k < to_max_lines options \<longrightarrow>
           tot + length (?ls ! k) + (if k > 0 then 1 else 0) > to_max_bytes options" by auto
      have len: "length (join_lines (take k ?ls)) = tot" using k by (simp add: length_join_lines)
      have more_lines: "length (join_lines (take (Suc k) ?ls)) = tot + length (?ls ! k) + (if k > 0 then 1 else 0)"
        if "k < length ?ls" using that k by (simp add: length_join_lines take_Suc_conv_app_nth)
      show ?thesis
        using over False h k len more_lines pre [of k] by (auto simp: truncate_head_def Let_def)
    qed
  qed
qed

theorem truncate_head_keeps_witness:
  "let content = ''ab'' @ newline # ''cd'' @ newline # ''ef''; options = truncation_options_new 3 4;
       r = truncate_head content options in
     tn_truncated r \<and> tn_content r = ''ab'' \<and> prefix (tn_content r) content \<and> tn_output_lines r = 1 \<and>
     to_max_bytes options < length (join_lines (take 2 (split_lines_for_counting content)))"
proof -
  let ?c = "''ab'' @ newline # ''cd'' @ newline # ''ef''" and ?o = "truncation_options_new 3 4"
  have "tn_output_lines (truncate_head ?c ?o) = 1" "split_lines_for_counting ?c = [''ab'', ''cd'', ''ef'']"
    by (code_simp, code_simp)
  then show ?thesis
    using truncate_head_keeps [of ?c ?o] by (simp add: Let_def truncation_options_new_def numeral_2_eq_2)
qed

declare next_boundary.simps [simp del]

lemma next_boundary_ge: "start \<le> next_boundary s start"
proof (induction s start rule: next_boundary.induct)
  case (1 s start)
  then show ?case
    by (cases "start < length s \<and> \<not> is_char_boundary s start") (auto simp: next_boundary.simps [of s start])
qed

lemma next_boundary_dropWhile:
  "0 < start \<Longrightarrow> start \<le> length s \<Longrightarrow> drop (next_boundary s start) s = dropWhile is_cont_char (drop start s)"
proof (induction s start rule: next_boundary.induct)
  case (1 s start)
  show ?case
  proof (cases "start < length s")
    case True
    with 1 show ?thesis
      by (auto simp: next_boundary.simps [of s start] is_char_boundary_def Cons_nth_drop_Suc [symmetric])
  qed (use 1 next_boundary_ge [of "length s" s] in simp)
qed

lemma cut_from_end:
  assumes "max_bytes < length s"
  shows "truncate_str_to_bytes_from_end s max_bytes = dropWhile is_cont_char (drop (length s - max_bytes) s)"
  using assms next_boundary_dropWhile [of "length s - max_bytes" s]
  by (auto simp: truncate_str_to_bytes_from_end_def)

lemma cut_length: "length (truncate_str_to_bytes_from_end s max_bytes) \<le> max_bytes"
  using next_boundary_ge [of "length s - max_bytes" s] by (auto simp: truncate_str_to_bytes_from_end_def)

lemma cut_suffix: "suffix (truncate_str_to_bytes_from_end s max_bytes) s"
  by (auto simp: truncate_str_to_bytes_from_end_def suffix_drop)

lemma tail_lines_spec:
  "tail_lines options out count ls = (out', tot, b, part) \<Longrightarrow>
   count = sum_list (map length out) + (length out - 1) \<Longrightarrow> count \<le> to_max_bytes options \<Longrightarrow>
   length out \<le> to_max_lines options \<Longrightarrow>
   (if part then
      out = [] \<and> 0 < to_max_lines options \<and>
      (\<exists>l rest. ls = l # rest \<and> to_max_bytes options < length l \<and>
         out' = [truncate_str_to_bytes_from_end l (to_max_bytes options)])
    else
      \<exists>k. out' = out @ take k ls \<and> k \<le> length ls \<and> length out' \<le> to_max_lines options \<and>
        tot = sum_list (map length out') + (length out' - 1) \<and> tot \<le> to_max_bytes options \<and>
        (k < length ls \<longrightarrow> length out' < to_max_lines options \<longrightarrow>
           out' \<noteq> [] \<and> to_max_bytes options < tot + length (ls ! k) + 1))"
proof (induction ls arbitrary: out count)
  case (Cons l ls)
  let ?b = "length l + (if out \<noteq> [] then 1 else 0)"
  show ?case
  proof (cases "length out \<ge> to_max_lines options \<or> count + ?b > to_max_bytes options")
    case True
    with Cons.prems show ?thesis
      by (cases "length out \<ge> to_max_lines options"; cases "out = []")
        (auto simp: Let_def intro!: exI [of _ 0])
  next
    case False
    with Cons.prems(1) have rec: "tail_lines options (out @ [l]) (count + ?b) ls = (out', tot, b, part)"
      by (simp add: Let_def)
    have "count + ?b = sum_list (map length (out @ [l])) + (length (out @ [l]) - 1)"
      using Cons.prems(2) by (cases out) auto
    moreover have "count + ?b \<le> to_max_bytes options" "length (out @ [l]) \<le> to_max_lines options"
      using False by auto
    ultimately have IH: "if part then
        out @ [l] = [] \<and> 0 < to_max_lines options \<and>
        (\<exists>l' rest. ls = l' # rest \<and> to_max_bytes options < length l' \<and>
           out' = [truncate_str_to_bytes_from_end l' (to_max_bytes options)])
      else \<exists>k. out' = (out @ [l]) @ take k ls \<and> k \<le> length ls \<and> length out' \<le> to_max_lines options \<and>
        tot = sum_list (map length out') + (length out' - 1) \<and> tot \<le> to_max_bytes options \<and>
        (k < length ls \<longrightarrow> length out' < to_max_lines options \<longrightarrow>
           out' \<noteq> [] \<and> to_max_bytes options < tot + length (ls ! k) + 1)"
      by (rule Cons.IH [OF rec])
    show ?thesis
    proof (cases part)
      case True
      with IH False show ?thesis by auto
    next
      case np: False
      from IH [unfolded if_not_P [OF np]] obtain k where "out' = (out @ [l]) @ take k ls" "k \<le> length ls"
        "length out' \<le> to_max_lines options" "tot = sum_list (map length out') + (length out' - 1)"
        "tot \<le> to_max_bytes options"
        "k < length ls \<longrightarrow> length out' < to_max_lines options \<longrightarrow>
           out' \<noteq> [] \<and> to_max_bytes options < tot + length (ls ! k) + 1"
        by blast
      with np show ?thesis by (auto intro!: exI [of _ "Suc k"])
    qed
  qed
qed auto

lemma truncate_tail_over:
  assumes "to_max_lines options < length (split_lines_for_counting content) \<or> to_max_bytes options < length content"
    and "tail_lines options [] 0 (rev (split_lines_for_counting content)) = (out, tot, b, part)"
  shows "tn_truncated (truncate_tail content options)"
    and "tn_content (truncate_tail content options) = join_lines (rev out)"
    and "tn_output_lines (truncate_tail content options) = length out"
    and "tn_output_bytes (truncate_tail content options) = length (join_lines (rev out))"
    and "tn_last_line_partial (truncate_tail content options) = part"
    and "tn_total_lines (truncate_tail content options) = length (split_lines_for_counting content)"
    and "tn_total_bytes (truncate_tail content options) = length content"
  using assms by (auto simp: truncate_tail_def Let_def)

lemma tail_lines_whole: "out \<noteq> [] \<Longrightarrow> tail_lines options out count ls = (out', tot, b, part) \<Longrightarrow> \<not> part"
  by (induction ls arbitrary: out count) (auto simp: Let_def split: if_splits)

lemma tail_lines_partial:
  assumes "tail_lines options [] 0 (rev ls) = (out, tot, b, part)"
  shows "part \<longleftrightarrow> 0 < to_max_lines options \<and> ls \<noteq> [] \<and> to_max_bytes options < length (last ls)"
proof (cases ls rule: rev_cases)
  case (snoc ys l)
  with assms tail_lines_whole [of "[l]" options "length l" "rev ys" out tot b part] show ?thesis
    by (auto simp: Let_def split: if_splits)
qed (use assms in simp)

lemma length_last_line:
  assumes "split_lines_for_counting content \<noteq> []"
  shows "length (last (split_lines_for_counting content)) \<le> length content"
proof -
  let ?ls = "split_lines_for_counting content"
  have "length (last ?ls) \<le> sum_list (map length ?ls)"
    using assms by (intro member_le_sum_list) simp_all
  also have "\<dots> \<le> length (join_lines ?ls)" by (simp add: length_join_lines)
  also have "\<dots> \<le> length content" by (simp add: counted_join)
  finally show ?thesis .
qed

text \<open>
  C20. \<^verbatim>\<open>truncate_tail\<close> keeps the end of a text: the text itself when it is within both limits, and
  otherwise the longest run of last lines that is within both. Exactly when the last line alone exceeds
  the byte limit (and a line may be kept at all) it is cut instead, to the longest end of it that starts
  at a character and fits, and counts as one line. The totals are those of the text.
\<close>

theorem truncate_tail_keeps:
  "let r = truncate_tail content options; ls = split_lines_for_counting content; n = length ls;
       k = tn_output_lines r in
     tn_truncated r = (to_max_lines options < n \<or> to_max_bytes options < length content) \<and>
     tn_content r =
       (if \<not> tn_truncated r then content
        else if tn_last_line_partial r then
          dropWhile is_cont_char (drop (length (last ls) - to_max_bytes options) (last ls))
        else join_lines (drop (n - k) ls)) \<and>
     (tn_last_line_partial r \<longleftrightarrow>
        0 < to_max_lines options \<and> ls \<noteq> [] \<and> to_max_bytes options < length (last ls)) \<and>
     (tn_last_line_partial r \<longrightarrow> k = 1) \<and>
     tn_total_lines r = n \<and> tn_total_bytes r = length content \<and>
     k \<le> min (to_max_lines options) n \<and>
     tn_output_bytes r = length (tn_content r) \<and> tn_output_bytes r \<le> to_max_bytes options \<and>
     (k < min (to_max_lines options) n \<longrightarrow> to_max_bytes options < length (join_lines (drop (n - Suc k) ls)))"
proof -
  let ?ls = "split_lines_for_counting content"
  show ?thesis
  proof (cases "to_max_lines options < length ?ls \<or> to_max_bytes options < length content")
    case False
    then have "?ls = [] \<or> length (last ?ls) \<le> to_max_bytes options" using length_last_line [of content] by fastforce
    with False show ?thesis by (auto simp: truncate_tail_def untruncated_def Let_def)
  next
    case over: True
    obtain out tot b part where t: "tail_lines options [] 0 (rev ?ls) = (out, tot, b, part)" by (metis prod_cases4)
    note spec = tail_lines_spec [OF t]
    note partial = tail_lines_partial [OF t]
    show ?thesis
    proof (cases part)
      case True
      with spec obtain l rest where l: "rev ?ls = l # rest" "to_max_bytes options < length l"
        "out = [truncate_str_to_bytes_from_end l (to_max_bytes options)]" "0 < to_max_lines options" by auto
      then have ls: "?ls = rev rest @ [l]" by (metis rev.simps(2) rev_rev_ident)
      have "to_max_bytes options < length (join_lines (drop (length ?ls - Suc 1) ?ls))"
        if "1 < length ?ls" using that l(2) by (auto simp: ls length_join_lines)
      then show ?thesis
        using over t True l(2-4) cut_length [of l "to_max_bytes options"]
        by (auto simp: truncate_tail_def ls cut_from_end Let_def)
    next
      case False
      have "\<exists>k. out = [] @ take k (rev ?ls) \<and> k \<le> length (rev ?ls) \<and> length out \<le> to_max_lines options \<and>
        tot = sum_list (map length out) + (length out - 1) \<and> tot \<le> to_max_bytes options \<and>
        (k < length (rev ?ls) \<longrightarrow> length out < to_max_lines options \<longrightarrow>
           out \<noteq> [] \<and> to_max_bytes options < tot + length (rev ?ls ! k) + 1)"
        using tail_lines_spec [OF t] False by (simp only: if_False) simp
      then obtain k where k: "out = take k (rev ?ls)" "k \<le> length ?ls" "length out \<le> to_max_lines options"
        "tot = sum_list (map length out) + (length out - 1)" "tot \<le> to_max_bytes options"
        "k < length ?ls \<longrightarrow> length out < to_max_lines options \<longrightarrow>
           out \<noteq> [] \<and> to_max_bytes options < tot + length (rev ?ls ! k) + 1"
        by (elim exE conjE) (rule that, simp_all only: length_rev append.simps)
      have lo: "length out = k" using k(1,2) by simp
      have kept: "rev out = drop (length ?ls - k) ?ls" using k(1,2) by (simp add: rev_take)
      have len: "length (join_lines (rev out)) = tot" using k(4) by (simp add: length_join_lines rev_map [symmetric])
      have "to_max_bytes options < length (join_lines (drop (length ?ls - Suc k) ?ls))"
        if "k < length ?ls" "k < to_max_lines options"
      proof -
        have "drop (length ?ls - Suc k) ?ls = rev ?ls ! k # rev out"
          using that(1) kept Cons_nth_drop_Suc [of "length ?ls - Suc k" ?ls]
          by (simp add: rev_nth Suc_diff_Suc)
        then have "length (join_lines (drop (length ?ls - Suc k) ?ls)) =
            length (rev ?ls ! k) + sum_list (map length out) + length out"
          by (simp add: length_join_lines rev_map [symmetric])
        moreover have "out \<noteq> []" "to_max_bytes options < tot + length (rev ?ls ! k) + 1"
          using that k(6) lo by simp_all
        ultimately show ?thesis using k(4) by (cases out) simp_all
      qed
      moreover have "\<not> (0 < to_max_lines options \<and> ?ls \<noteq> [] \<and> to_max_bytes options < length (last ?ls))"
        using False partial by blast
      moreover have "\<not> tn_last_line_partial (truncate_tail content options)"
        using False truncate_tail_over(5) [OF over t] by simp
      ultimately show ?thesis
        using over k(2,3,5) lo kept len truncate_tail_over(1-4,6,7) [OF over t] by (simp add: Let_def)
    qed
  qed
qed

theorem truncate_tail_keeps_witness:
  "let content = ''ab'' @ newline # ''cdefgh''; options = truncation_options_new 3 4; r = truncate_tail content options in
     tn_truncated r \<and> tn_last_line_partial r \<and> tn_content r = ''efgh'' \<and> tn_output_lines r = 1 \<and> tn_total_lines r = 2"
proof -
  let ?c = "''ab'' @ newline # ''cdefgh''" and ?o = "truncation_options_new 3 4"
  have "split_lines_for_counting ?c = [''ab'', ''cdefgh'']" by code_simp
  then show ?thesis
    using truncate_tail_keeps [of ?c ?o] by (simp add: Let_def truncation_options_new_def is_cont_char_def utf8_cont_def)
qed

section \<open>Characters of a text\<close>

text \<open>The number of continuation bytes that a first byte announces, and a whole character.\<close>

definition char_conts :: "nat \<Rightarrow> nat" where
  "char_conts b = (if b < 128 then 0 else if b < 224 then 1 else if b < 240 then 2 else 3)"

definition char_ok :: "string \<Rightarrow> bool" where
  "char_ok p \<longleftrightarrow>
     (\<exists>c cs. p = c # cs \<and> \<not> is_cont_char c \<and> (\<forall>d\<in>set cs. is_cont_char d) \<and>
        length cs = char_conts (of_char c)) \<and> utf8_text p"

lemma char_conts_le: "char_conts b \<le> 3"
  by (simp add: char_conts_def)

lemma utf8_chunk_cont:
  assumes "utf8_chunk b rest = Some r"
  shows "char_conts b \<le> length rest" "r = drop (char_conts b) rest" "\<forall>x\<in>set (take (char_conts b) rest). utf8_cont x"
    "\<not> utf8_cont b"
  using assms by (auto simp: utf8_chunk.simps utf8_cont_def char_conts_def split: if_splits list.splits)

lemma utf8_chunk_alone: "utf8_chunk b rest = Some r \<Longrightarrow> utf8_chunk b (take (char_conts b) rest) = Some []"
  by (auto simp: utf8_chunk.simps char_conts_def split: if_splits list.splits)

lemma utf8_text_scan: "utf8_text s \<longleftrightarrow> utf8_scan (map of_char s)"
  by (simp add: utf8_text_def utf8_valid_def as_bytes_def comp_def unsigned_of_nat take_bit_nat_eq_self)

lemma utf8_scan_chars: "utf8_scan (map of_char s) \<Longrightarrow> \<exists>ps. s = concat ps \<and> list_all char_ok ps"
proof (induction "map of_char s :: nat list" arbitrary: s rule: utf8_scan.induct)
  case 1
  then show ?case by (auto intro: exI [of _ "[]"])
next
  case (2 b rest)
  from 2(2) obtain c s' where s: "s = c # s'" "b = of_char c" "rest = map of_char s'" by (cases s) auto
  from 2(3) s obtain r where r: "utf8_chunk b rest = Some r" "utf8_scan r" by (auto split: option.splits)
  define cs s2 where "cs = take (char_conts b) s'" and "s2 = drop (char_conts b) s'"
  have cs: "s' = cs @ s2" "r = map of_char s2" "char_ok (c # cs)"
    using utf8_chunk_cont [OF r(1)] utf8_chunk_alone [OF r(1)] s
    by (auto simp: cs_def s2_def drop_map take_map char_ok_def is_cont_char_def utf8_text_scan)
  from 2(1) [OF r(1) [unfolded cs(2)]] r(2) cs(2) obtain ps where "s2 = concat ps" "list_all char_ok ps" by auto
  with s cs show ?case by (intro exI [of _ "(c # cs) # ps"]) simp
qed

lemma utf8_text_chars: "utf8_text s \<Longrightarrow> \<exists>ps. s = concat ps \<and> list_all char_ok ps"
  using utf8_scan_chars [of s] by (simp add: utf8_text_scan)

lemma char_pieces_head:
  "char_pieces (c # s) = (c # takeWhile is_cont_char s) # char_pieces (dropWhile is_cont_char s)"
proof (induction s arbitrary: c)
  case (Cons d s)
  then have "char_pieces (c # d # s) = (if is_cont_char d
      then (c # d # takeWhile is_cont_char s) # char_pieces (dropWhile is_cont_char s)
      else [c] # (d # takeWhile is_cont_char s) # char_pieces (dropWhile is_cont_char s))"
    by (simp only: char_pieces.simps(2) [of c] list.case)
  then show ?case
    by (cases "is_cont_char d")
      (simp_all only: Cons [of d] takeWhile.simps dropWhile.simps if_True if_False)
qed simp

declare char_pieces.simps(2) [simp del]

lemma concat_starts: "list_all char_ok ps \<Longrightarrow> concat ps = [] \<or> \<not> is_cont_char (hd (concat ps))"
  by (cases ps) (auto simp: char_ok_def)

lemma run_stops: "s = [] \<or> \<not> P (hd s) \<Longrightarrow> takeWhile P s = [] \<and> dropWhile P s = s"
  by (cases s) auto

lemma char_pieces_concat: "list_all char_ok ps \<Longrightarrow> char_pieces (concat ps) = ps"
proof (induction ps)
  case (Cons p ps)
  then obtain c cs where p: "p = c # cs" "\<forall>d\<in>set cs. is_cont_char d" by (auto simp: char_ok_def)
  from Cons.prems have "takeWhile is_cont_char (concat ps) = [] \<and> dropWhile is_cont_char (concat ps) = concat ps"
    by (intro run_stops concat_starts) simp
  with Cons p show ?case by (simp add: char_pieces_head)
qed simp

lemma filter_char_ok: "char_ok p \<Longrightarrow> filter (\<lambda>c. c \<noteq> CHR 0x0D) p = (if p = [CHR 0x0D] then [] else p)"
  by (force simp: char_ok_def char_conts_def filter_id_conv is_cont_char_def utf8_cont_def split: if_splits)

lemma capture_text_chars:
  assumes "utf8_text chunk"
  shows "\<exists>ps. capture_text chunk = concat ps \<and> list_all char_ok ps"
proof -
  from utf8_text_chars [OF assms] obtain ps where ps: "chunk = concat ps" "list_all char_ok ps" by blast
  let ?qs = "filter (\<lambda>p. p \<noteq> [CHR 0x0D]) (filter keeps_char ps)"
  have "filter (\<lambda>c. c \<noteq> CHR 0x0D) (concat qs) = concat (filter (\<lambda>p. p \<noteq> [CHR 0x0D]) qs)"
    if "list_all char_ok qs" for qs using that by (induction qs) (auto simp: filter_char_ok)
  moreover have "list_all char_ok (filter keeps_char ps)" using ps(2) by (auto simp: list_all_iff)
  ultimately have "capture_text chunk = concat ?qs"
    by (simp add: capture_text_def sanitize_binary_output_def ps(1) char_pieces_concat ps(2))
  moreover have "list_all char_ok ?qs" using ps(2) by (auto simp: list_all_iff)
  ultimately show ?thesis by blast
qed

lemma cont_run: "list_all char_ok ps \<Longrightarrow> suffix u (concat ps) \<Longrightarrow> length (takeWhile is_cont_char u) \<le> 3"
proof (induction ps)
  case (Cons p ps)
  from Cons.prems(1) obtain c cs where p: "p = c # cs" "\<not> is_cont_char c" "\<forall>d\<in>set cs. is_cont_char d" "length cs \<le> 3"
    by (auto simp: char_ok_def char_conts_le)
  from Cons.prems(1) have stop: "takeWhile is_cont_char (concat ps) = []"
    using run_stops [of "concat ps" is_cont_char] concat_starts [of ps] by simp
  from Cons.prems(2) consider (rest) "suffix u (concat ps)" | (part) v where "u = v @ concat ps" "suffix v p"
    by (auto simp: suffix_append)
  then show ?case
  proof cases
    case rest
    with Cons show ?thesis by simp
  next
    case part
    show ?thesis
    proof (cases "suffix v cs")
      case True
      then have "takeWhile is_cont_char u = v" "length v \<le> 3"
        using p part stop suffix_length_le [OF True] by (auto simp: set_mono_suffix subset_iff takeWhile_append2 dest: set_mono_suffix)
      then show ?thesis by simp
    next
      case False
      with part(2) p(1) have "v = p" by (auto simp: suffix_Cons)
      with part p show ?thesis by simp
    qed
  qed
qed simp

lemma trim_length:
  assumes "list_all char_ok ps" "suffix s (concat ps)" "0 < m"
  shows "length (trim_to_last_utf8_bytes s m) \<le> m" and "suffix (trim_to_last_utf8_bytes s m) s"
    and "trim_to_last_utf8_bytes s m = s \<or> m \<le> length (trim_to_last_utf8_bytes s m) + 3"
proof -
  show "length (trim_to_last_utf8_bytes s m) \<le> m"
    using next_boundary_ge [of "length s - m" s] by (auto simp: trim_to_last_utf8_bytes_def)
  show "suffix (trim_to_last_utf8_bytes s m) s"
    by (auto simp: trim_to_last_utf8_bytes_def suffix_drop)
  show "trim_to_last_utf8_bytes s m = s \<or> m \<le> length (trim_to_last_utf8_bytes s m) + 3"
  proof (cases "length s \<le> m")
    case False
    let ?d = "drop (length s - m) s"
    have "length (takeWhile is_cont_char ?d) \<le> 3"
      using assms(2) by (intro cont_run [OF assms(1)]) (metis suffix_drop suffix_order.trans)
    moreover have "length (takeWhile is_cont_char ?d) + length (dropWhile is_cont_char ?d) = m"
      using False by (metis length_append takeWhile_dropWhile_id length_drop diff_diff_cancel nat_le_linear)
    ultimately show ?thesis
      using False next_boundary_dropWhile [of "length s - m" s] assms(3) by (simp add: trim_to_last_utf8_bytes_def)
  qed (simp add: trim_to_last_utf8_bytes_def)
qed

section \<open>The capture shows what the whole output would\<close>

lemma split_lines_append:
  "split_lines (a @ t) =
     butlast (split_lines a) @ (last (split_lines a) @ hd (split_lines t)) # tl (split_lines t)"
proof (induction a)
  case Nil
  then show ?case using split_lines_ne [of t] by simp
next
  case (Cons c a)
  obtain l ls where "split_lines a = l # ls" using split_lines_ne [of a] by (cases "split_lines a") auto
  with Cons show ?case by (auto split: list.splits)
qed

lemma last_split_append:
  "last (split_lines (w @ t)) = (if newline \<in> set t then last (split_lines t) else last (split_lines w) @ t)"
proof (cases "newline \<in> set t")
  case True
  then have "tl (split_lines t) \<noteq> []"
    using length_split_lines [of t] by (cases "split_lines t") (auto simp: count_list_0_iff)
  with True show ?thesis by (simp add: split_lines_append last_tl)
qed (simp add: split_lines_append split_lines_no)

text \<open>
  Where the lines of a text and those of an end of it, both from the last, first differ, the loop of
  \<open>truncate_tail\<close> stops, provided that the end alone exceeds the byte limit.
\<close>

lemma tail_lines_same:
  "suffix l' l \<Longrightarrow> out = [] \<longrightarrow> count = 0 \<Longrightarrow>
   to_max_bytes options < count + sum_list (map length xs) + length xs + length l' + (if out = [] then 0 else 1) \<Longrightarrow>
   tail_lines options out count (xs @ l # rest) = tail_lines options out count (xs @ [l'])"
proof (induction xs arbitrary: out count)
  case Nil
  note le = suffix_length_le [OF Nil.prems(1)]
  have "truncate_str_to_bytes_from_end l m = truncate_str_to_bytes_from_end l' m" if "m < length l'" for m
    using that le Nil.prems(1) by (auto simp: cut_from_end suffix_def)
  with le Nil.prems(2,3) show ?case by (auto simp: Let_def)
next
  case (Cons x xs)
  have "tail_lines options (out @ [x]) n (xs @ l # rest) = tail_lines options (out @ [x]) n (xs @ [l'])"
    if "n = count + (length x + (if out \<noteq> [] then 1 else 0))" for n
    using Cons.prems that by (intro Cons.IH) auto
  then show ?case by (simp add: Let_def)
qed

lemma tail_lines_of_suffix:
  assumes "suffix t w" "t \<noteq> []" "to_max_bytes options + 1 < length t"
  shows "tail_lines options [] 0 (rev (split_lines_for_counting w)) =
         tail_lines options [] 0 (rev (split_lines_for_counting t))"
proof -
  define body where "body s = (if last s = newline then butlast s else s)" for s :: string
  from assms(1,2) obtain a where w: "w = a @ t" by (auto simp: suffix_def)
  have bw: "body w = a @ body t" using assms(2) by (simp add: w body_def butlast_append)
  obtain h hs where t: "split_lines (body t) = h # hs"
    using split_lines_ne [of "body t"] by (cases "split_lines (body t)") auto
  have "length (join_lines (split_lines (body t))) = sum_list (map length (h # hs)) + length hs"
    by (simp only: t length_join_lines) simp
  moreover have "to_max_bytes options < length (body t)" using assms(3) by (auto simp: body_def)
  ultimately have big: "to_max_bytes options < 0 + sum_list (map length (rev hs)) + length (rev hs) + length h"
    by (simp add: rev_map [symmetric])
  have "rev (split_lines_for_counting w) = rev hs @ (last (split_lines a) @ h) # rev (butlast (split_lines a))"
    "rev (split_lines_for_counting t) = rev hs @ [h]"
    unfolding counted_lines body_def [symmetric] bw using assms(2) t w by (simp_all add: split_lines_append)
  moreover have "suffix h (last (split_lines a) @ h)" by (simp add: suffix_def)
  ultimately show ?thesis using big tail_lines_same by simp
qed

definition over_limit :: "string \<Rightarrow> bool" where
  "over_limit w \<longleftrightarrow> DEFAULT_MAX_BYTES < length w \<or> DEFAULT_MAX_LINES < length (split_lines_for_counting w)"

definition captured :: "string \<Rightarrow> string \<Rightarrow> capture_state \<Rightarrow> string option \<Rightarrow> bool" where
  "captured path w st file \<longleftrightarrow>
     suffix (cs_tail_output st) w \<and> length (cs_tail_output st) \<le> DEFAULT_MAX_BYTES * 2 \<and>
     (cs_tail_output st = w \<or> DEFAULT_MAX_BYTES * 2 \<le> length (cs_tail_output st) + 3) \<and>
     cs_total_bytes st = length w \<and> cs_completed_lines st = count_list w newline \<and>
     cs_has_open_line st = (w \<noteq> [] \<and> last w \<noteq> newline) \<and>
     cs_current_line_bytes st = length (last (split_lines w)) \<and>
     cs_full_output_requested st = over_limit w \<and>
     cs_full_output_path st = (if over_limit w then Some path else None) \<and>
     file = (if over_limit w then Some w else None)"

lemma counted_length: "length (split_lines_for_counting w) = count_list w newline + (if w \<noteq> [] \<and> last w \<noteq> newline then 1 else 0)"
  by (simp add: split_lines_for_counting_def length_split_lines)

lemma captured_progress:
  assumes "captured path w st file"
  shows "pg_truncation (progress st) = truncate_tail w truncation_options_default"
    and "pg_output (progress st) = tn_content (truncate_tail w truncation_options_default)"
proof -
  let ?o = truncation_options_default and ?t = "cs_tail_output st"
  have c: "capture_lines st = length (split_lines_for_counting w)" "cs_total_bytes st = length w"
    "suffix ?t w" "?t = w \<or> DEFAULT_MAX_BYTES * 2 \<le> length ?t + 3"
    using assms by (auto simp: captured_def capture_lines_def counted_length)
  have "pg_truncation (progress st) = truncate_tail w ?o \<and> pg_output (progress st) = tn_content (truncate_tail w ?o)"
  proof (cases "?t = w")
    case True
    with c show ?thesis
      by (auto simp: progress_def truncate_tail_def untruncated_def truncation_options_default_def Let_def
               split: prod.splits)
  next
    case False
    with c(3,4) have big: "DEFAULT_MAX_BYTES + 1 < length ?t" "DEFAULT_MAX_BYTES + 1 < length w"
      using suffix_length_le [OF c(3)] by (auto simp: DEFAULT_MAX_BYTES_def)
    then have "tail_lines ?o [] 0 (rev (split_lines_for_counting w)) = tail_lines ?o [] 0 (rev (split_lines_for_counting ?t))"
      using c(3) by (intro tail_lines_of_suffix) (auto simp: truncation_options_default_def)
    with c big show ?thesis
      by (auto simp: progress_def truncate_tail_def truncation_options_default_def Let_def split: prod.splits)
  qed
  then show "pg_truncation (progress st) = truncate_tail w ?o" "pg_output (progress st) = tn_content (truncate_tail w ?o)"
    by simp_all
qed

lemma counted_mono: "length (split_lines_for_counting w) \<le> length (split_lines_for_counting (w @ t))"
proof (cases "t = []")
  case False
  have "count_list t newline = 0 \<Longrightarrow> last t \<noteq> newline" using False by (metis count_list_0_iff last_in_set)
  with False show ?thesis by (cases "count_list t newline") (auto simp: counted_length)
qed simp

lemma over_limit_append: "over_limit w \<Longrightarrow> over_limit (w @ t)"
  using counted_mono [of w t] by (auto simp: over_limit_def)

lemma last_newline: "(last (split_lines t) = []) = (t = [] \<or> last t = newline)"
  by (cases t rule: rev_cases) (auto simp: split_lines_append)

lemma captured_step:
  assumes "captured path w st file" "list_all char_ok ps" "concat ps = w @ capture_text chunk"
    and "ci_create io = Inr path" "ci_append io = None"
  shows "\<exists>st' file'. capture_chunk (io, chunk) (st, file, None) = (st', file', None) \<and>
           captured path (w @ capture_text chunk) st' file'"
proof -
  let ?t = "capture_text chunk" and ?tail = "cs_tail_output st" and ?m = "DEFAULT_MAX_BYTES * 2"
  note c = assms(1) [unfolded captured_def]
  have suf: "suffix (?tail @ ?t) (w @ ?t)" using c by (auto simp: suffix_def)
  have m: "0 < ?m" by (simp add: DEFAULT_MAX_BYTES_def)
  note trim = trim_length [OF assms(2) suf [folded assms(3)] m]
  define tail' where "tail' = trim_to_last_utf8_bytes (?tail @ ?t) ?m"
  have tail': "suffix tail' (w @ ?t)" "length tail' \<le> ?m" "tail' = w @ ?t \<or> ?m \<le> length tail' + 3"
    using trim suf c by (auto simp: tail'_def intro: suffix_order.trans)
  have whole: "?tail = w" if "\<not> over_limit w"
    using that c suffix_length_le [of ?tail w] by (auto simp: over_limit_def DEFAULT_MAX_BYTES_def)
  have open_line: "last ?t \<noteq> newline" if "newline \<notin> set ?t" "?t \<noteq> []" using that by (metis last_in_set)
  define st1 where "st1 = (count_line ?t st)\<lparr>cs_tail_output := ?tail @ ?t\<rparr>"
  have st1: "cs_total_bytes st1 = length (w @ ?t)" "cs_completed_lines st1 = count_list (w @ ?t) newline"
    "cs_has_open_line st1 = (w @ ?t \<noteq> [] \<and> last (w @ ?t) \<noteq> newline)"
    "cs_current_line_bytes st1 = length (last (split_lines (w @ ?t)))"
    "cs_full_output_requested st1 = over_limit w" "cs_tail_output st1 = ?tail @ ?t"
    "cs_full_output_path st1 = (if over_limit w then Some path else None)"
    using c open_line by (auto simp: st1_def count_line_def Let_def last_split_append last_newline)
  have lim: "(cs_total_bytes st1 > DEFAULT_MAX_BYTES \<or> capture_lines st1 > DEFAULT_MAX_LINES) = over_limit (w @ ?t)"
    using st1 by (simp add: over_limit_def capture_lines_def counted_length)
  have "(count_line ?t st)\<lparr>cs_tail_output := cs_tail_output (count_line ?t st) @ ?t\<rparr> = st1"
    by (simp add: st1_def count_line_def Let_def)
  note unfold = capture_chunk_def Let_def prod.case this lim st1(5,6) assms(5) option.case simp_thms if_True if_False
  show ?thesis
  proof (cases "over_limit w")
    case True
    with over_limit_append [OF True, of ?t] c have "capture_chunk (io, chunk) (st, file, None) =
        (st1\<lparr>cs_tail_output := tail'\<rparr>, Some (w @ ?t), None)"
      by (simp only: unfold) (simp add: tail'_def)
    with True over_limit_append [OF True, of ?t] tail' st1 show ?thesis by (simp add: captured_def)
  next
    case False
    with c whole have "capture_chunk (io, chunk) (st, file, None) =
        ((if over_limit (w @ ?t) then st1\<lparr>cs_full_output_requested := True, cs_full_output_path := Some path\<rparr>
          else st1)\<lparr>cs_tail_output := tail'\<rparr>, if over_limit (w @ ?t) then Some (w @ ?t) else None, None)"
      by (simp only: unfold) (simp add: tail'_def ensure_full_output_file_def assms(4,5) st1 Let_def)
    with False tail' st1 show ?thesis by (simp add: captured_def)
  qed
qed

abbreviation capture_start :: "capture_state \<times> string option \<times> execution_error option" where
  "capture_start \<equiv> (capture_state_default, None, None)"

definition all_text :: "(capture_io \<times> string) list \<Rightarrow> string" where
  "all_text chunks = concat (map (\<lambda>(io, chunk). capture_text chunk) chunks)"

definition chunk_ok :: "string \<Rightarrow> capture_io \<times> string \<Rightarrow> bool" where
  "chunk_ok path inp \<longleftrightarrow>
     ci_create (fst inp) = Inr path \<and> ci_append (fst inp) = None \<and> utf8_text (snd inp)"

lemma all_text_chars: "list_all (chunk_ok path) chunks \<Longrightarrow> \<exists>ps. concat ps = all_text chunks \<and> list_all char_ok ps"
proof (induction chunks)
  case (Cons inp chunks)
  then obtain ps where ps: "concat ps = all_text chunks" "list_all char_ok ps" by auto
  obtain io chunk where inp: "inp = (io, chunk)" by fastforce
  with Cons.prems obtain qs where qs: "capture_text chunk = concat qs" "list_all char_ok qs"
    using capture_text_chars [of chunk] by (auto simp: chunk_ok_def)
  with ps inp show ?case by (intro exI [of _ "qs @ ps"]) (simp add: all_text_def)
qed (auto simp: all_text_def intro: exI [of _ "[]"])

lemma captured_all:
  "list_all (chunk_ok path) chunks \<Longrightarrow>
   \<exists>st f. fold capture_chunk chunks capture_start = (st, f, None) \<and> captured path (all_text chunks) st f"
proof (induction chunks rule: rev_induct)
  case Nil
  then show ?case
    by (simp add: all_text_def captured_def capture_state_default_def over_limit_def split_lines_for_counting_def)
next
  case (snoc inp chunks)
  then obtain st f where st: "fold capture_chunk chunks capture_start = (st, f, None)"
    "captured path (all_text chunks) st f" by auto
  obtain io chunk where inp: "inp = (io, chunk)" by fastforce
  have whole_text: "all_text (chunks @ [inp]) = all_text chunks @ capture_text chunk" by (simp add: all_text_def inp)
  from all_text_chars [OF snoc.prems] obtain ps where "concat ps = all_text chunks @ capture_text chunk" "list_all char_ok ps"
    by (auto simp: whole_text)
  with captured_step [OF st(2), of ps chunk io] snoc.prems obtain st' f' where
    "capture_chunk (io, chunk) (st, f, None) = (st', f', None)" "captured path (all_text chunks @ capture_text chunk) st' f'"
    by (auto simp: inp chunk_ok_def)
  with st(1) show ?case by (simp add: inp whole_text [unfolded inp])
qed

lemma truncated_over: "tn_truncated (truncate_tail w truncation_options_default) = over_limit w"
  by (auto simp: truncate_tail_def truncation_options_default_def over_limit_def untruncated_def Let_def
           split: prod.splits)

text \<open>
  C19. Capturing a command's output shows what truncating all of it would: however the output is cut
  into chunks, if the file operations succeed, the result is \<^verbatim>\<open>truncate_tail\<close> of the whole (sanitized)
  output, the log file has all of it exactly when it was truncated, and at no moment is more than
  twice the byte limit held in memory.
\<close>

theorem capture_reference:
  assumes "list_all (chunk_ok path) chunks"
  shows "let w = all_text chunks; whole = truncate_tail w truncation_options_default in
      execute_shell_with_capture chunks io (Inr exit_code) aborted return_execution_errors =
        (if tn_truncated whole then Some w else None,
         Inr \<lparr>cr_output = tn_content whole, cr_truncation = whole,
              cr_full_output_path = (if tn_truncated whole then Some path else None),
              cr_last_line_bytes = length (last (split_lines w)),
              cr_exit_code = (if aborted then None else Some exit_code), cr_cancelled = aborted,
              cr_truncated = tn_truncated whole, cr_execution_error = None\<rparr>) \<and>
      length (cs_tail_output (fst (fold capture_chunk (take k chunks) capture_start))) \<le> DEFAULT_MAX_BYTES * 2"
proof -
  obtain st f where st: "fold capture_chunk chunks capture_start = (st, f, None)" "captured path (all_text chunks) st f"
    using captured_all [OF assms] by blast
  note pr = captured_progress [OF st(2)]
  have more_pr: "pg_full_output_path (progress st) = cs_full_output_path st" "pg_last_line_bytes (progress st) = cs_current_line_bytes st"
    by (simp_all add: progress_def Let_def)
  from st pr more_pr have "execute_shell_with_capture chunks io (Inr exit_code) aborted return_execution_errors =
      (if over_limit (all_text chunks) then Some (all_text chunks) else None,
       Inr (capture_result (progress st) (if aborted then None else Some exit_code) aborted None))"
    by (auto simp: execute_shell_with_capture_def truncated_over captured_def)
  moreover have "list_all (chunk_ok path) (take k chunks)"
    using assms by (auto simp: list_all_iff dest: in_set_takeD)
  from captured_all [OF this] have "length (cs_tail_output (fst (fold capture_chunk (take k chunks) capture_start))) \<le> DEFAULT_MAX_BYTES * 2"
    by (auto simp: captured_def)
  ultimately show ?thesis
    using st(2) pr more_pr by (simp add: Let_def capture_result_def truncated_over captured_def)
qed

theorem capture_reference_witness:
  "list_all (chunk_ok ''/tmp/bash-1.log'')
     [(\<lparr>ci_create = Inr ''/tmp/bash-1.log'', ci_append = None\<rparr>, ''ab'' @ [CHR 0x0D, newline]),
      (\<lparr>ci_create = Inr ''/tmp/bash-1.log'', ci_append = None\<rparr>, ''c'')] \<and>
   (case execute_shell_with_capture
       [(\<lparr>ci_create = Inr ''/tmp/bash-1.log'', ci_append = None\<rparr>, ''ab'' @ [CHR 0x0D, newline]),
        (\<lparr>ci_create = Inr ''/tmp/bash-1.log'', ci_append = None\<rparr>, ''c'')]
       \<lparr>ci_create = Inl ''full'', ci_append = None\<rparr> (Inr 0) False False of
      (f, Inr r) \<Rightarrow> f = None \<and> cr_output r = ''ab'' @ newline # ''c'' \<and> cr_exit_code r = Some 0 | _ \<Rightarrow> False)"
proof -
  let ?io = "\<lparr>ci_create = Inr ''/tmp/bash-1.log'', ci_append = None\<rparr> :: capture_io"
  let ?cs = "[(?io, ''ab'' @ [CHR 0x0D, newline]), (?io, ''c'')]"
  have ok: "list_all (chunk_ok ''/tmp/bash-1.log'') ?cs" by (simp add: chunk_ok_def utf8_text_ascii)
  have w: "all_text ?cs = ''ab'' @ newline # ''c''" by code_simp
  have t: "truncate_tail (''ab'' @ newline # ''c'') truncation_options_default =
      untruncated (''ab'' @ newline # ''c'') truncation_options_default 2"
    by (simp add: truncate_tail_def truncation_options_default_def DEFAULT_MAX_BYTES_def DEFAULT_MAX_LINES_def
        split_lines_for_counting_def numeral_2_eq_2)
  show ?thesis
    using ok capture_reference [OF ok, of "\<lparr>ci_create = Inl ''full'', ci_append = None\<rparr>" 0 False False 0]
    unfolding w Let_def t by (simp add: untruncated_def)
qed

end
