(* ===== verification/Tool_Edit.thy ===== *)
theory Tool_Edit
  imports Tool_Truncate "HOL-Library.Multiset"
begin

text \<open>
  The edit tool: matching and replacing, \<^verbatim>\<open>pi-rs/crates/pi-tools/src/edit_diff.rs\<close>, and the whole tool,
  \<^verbatim>\<open>tools/edit.rs\<close>. Texts are their UTF-8 bytes and offsets are byte offsets, as in the code. NFKC comes
  from the \<^verbatim>\<open>unicode_normalization\<close> crate and is an argument, \<open>nfkc\<close>. A panic of the code (a slice or a
  replaced range that is out of bounds or inside a character) is the value \<^term>\<open>None\<close>; an error is \<open>Inl\<close>.

  The lemmas show that no edit panics, that edits found exactly replace their old texts and change
  nothing else, down to the line endings and the byte order mark, and that edits found after
  normalization leave every line they do not touch as it was.
\<close>

section \<open>Searching and replacing\<close>

text \<open>\<^verbatim>\<open>str::find\<close>, \<^verbatim>\<open>str::matches\<close> (counted) and \<^verbatim>\<open>str::replace\<close>.\<close>

fun find_str :: "string \<Rightarrow> string \<Rightarrow> nat option" where
  "find_str pat [] = (if pat = [] then Some 0 else None)"
| "find_str pat (c # s) = (if prefix pat (c # s) then Some 0 else map_option Suc (find_str pat s))"

function count_matches :: "string \<Rightarrow> string \<Rightarrow> nat" where
  "count_matches pat s =
     (if pat = [] \<or> s = [] then 0
      else if prefix pat s then Suc (count_matches pat (drop (length pat) s))
      else count_matches pat (tl s))"
  by pat_completeness auto
termination
  by (relation "measure (\<lambda>(pat, s). length s)") (auto simp: diff_less)

function replace_str :: "string \<Rightarrow> string \<Rightarrow> string \<Rightarrow> string" where
  "replace_str pat rep s =
     (if pat = [] \<or> s = [] then s
      else if prefix pat s then rep @ replace_str pat rep (drop (length pat) s)
      else hd s # replace_str pat rep (tl s))"
  by pat_completeness auto
termination
  by (relation "measure (\<lambda>(pat, rep, s). length s)") (auto simp: diff_less)

declare count_matches.simps [simp del] replace_str.simps [simp del]

section \<open>Line endings and normalization\<close>

datatype line_ending = Lf | Crlf

abbreviation carriage :: char where
  "carriage \<equiv> CHR 0x0D"

definition detect_line_ending :: "string \<Rightarrow> line_ending" where
  "detect_line_ending content =
     (case (find_str [carriage, newline] content, find_str [newline] content) of
        (Some crlf, Some lf) \<Rightarrow> if crlf < lf then Crlf else Lf
      | _ \<Rightarrow> Lf)"

definition normalize_to_lf :: "string \<Rightarrow> string" where
  "normalize_to_lf t = replace_str [carriage] [newline] (replace_str [carriage, newline] [newline] t)"

fun restore_line_endings :: "string \<Rightarrow> line_ending \<Rightarrow> string" where
  "restore_line_endings t Crlf = replace_str [newline] [carriage, newline] t"
| "restore_line_endings t Lf = t"

text \<open>
  \<^verbatim>\<open>str::trim_end\<close>: the characters with the property White\_Space, U+0009 to U+000D, U+0020, U+0085,
  U+00A0, U+1680, U+2000 to U+200A, U+2028, U+2029, U+202F, U+205F and U+3000, by their encodings.
\<close>

definition general :: "char \<Rightarrow> string" where
  "general c = [CHR 0xE2, CHR 0x80, c]"

definition is_whitespace :: "string \<Rightarrow> bool" where
  "is_whitespace p \<longleftrightarrow>
     p \<in> set (map (\<lambda>c. [c]) [CHR 0x09, CHR 0x0A, CHR 0x0B, CHR 0x0C, CHR 0x0D, CHR 0x20] @
       map (\<lambda>c. [CHR 0xC2, c]) [CHR 0x85, CHR 0xA0] @ [[CHR 0xE1, CHR 0x9A, CHR 0x80]] @
       map general [CHR 0x80, CHR 0x81, CHR 0x82, CHR 0x83, CHR 0x84, CHR 0x85] @
       map general [CHR 0x86, CHR 0x87, CHR 0x88, CHR 0x89, CHR 0x8A, CHR 0xA8, CHR 0xA9, CHR 0xAF] @
       [[CHR 0xE2, CHR 0x81, CHR 0x9F], [CHR 0xE3, CHR 0x80, CHR 0x80]])"

definition trim_end :: "string \<Rightarrow> string" where
  "trim_end line = concat (rev (dropWhile is_whitespace (rev (char_pieces line))))"

text \<open>Smart quotes, dashes and exotic spaces, by their encodings: \<open>E2 80 98\<close> is U+2018, and so on.\<close>

definition fuzzy_char :: "string \<Rightarrow> string" where
  "fuzzy_char p =
     (if p \<in> set (map general [CHR 0x98, CHR 0x99, CHR 0x9A, CHR 0x9B]) then [CHR 0x27]
      else if p \<in> set (map general [CHR 0x9C, CHR 0x9D, CHR 0x9E, CHR 0x9F]) then [CHR 0x22]
      else if p \<in> set (map general [CHR 0x90, CHR 0x91, CHR 0x92, CHR 0x93, CHR 0x94, CHR 0x95] @
                       [[CHR 0xE2, CHR 0x88, CHR 0x92]]) then [CHR 0x2D]
      else if p \<in> set ([[CHR 0xC2, CHR 0xA0]] @ map general [CHR 0x82, CHR 0x83, CHR 0x84, CHR 0x85, CHR 0x86] @
                       map general [CHR 0x87, CHR 0x88, CHR 0x89, CHR 0x8A, CHR 0xAF] @
                       [[CHR 0xE2, CHR 0x81, CHR 0x9F], [CHR 0xE3, CHR 0x80, CHR 0x80]]) then [CHR 0x20]
      else p)"

definition normalize_for_fuzzy_match :: "(string \<Rightarrow> string) \<Rightarrow> string \<Rightarrow> string" where
  "normalize_for_fuzzy_match nfkc t =
     (let trimmed = join_lines (map trim_end (split_lines (nfkc t)))
      in concat (map fuzzy_char (char_pieces trimmed)))"

section \<open>Lines and replacements\<close>

definition split_lines_with_endings :: "string \<Rightarrow> string list" where
  "split_lines_with_endings content =
     (let ls = split_lines content
      in map (\<lambda>l. l @ [newline]) (butlast ls) @ (if last ls = [] then [] else [last ls]))"

record line_span =
  ls_start :: nat
  ls_end :: nat

record text_replacement =
  tr_match_index :: nat
  tr_match_length :: nat
  tr_new_text :: string

fun spans_from :: "nat \<Rightarrow> string list \<Rightarrow> line_span list" where
  "spans_from offset [] = []"
| "spans_from offset (line # rest) =
     \<lparr>ls_start = offset, ls_end = offset + length line\<rparr> # spans_from (offset + length line) rest"

definition get_line_spans :: "string \<Rightarrow> line_span list" where
  "get_line_spans content = spans_from 0 (split_lines_with_endings content)"

fun position :: "('a \<Rightarrow> bool) \<Rightarrow> 'a list \<Rightarrow> nat option" where
  "position P [] = None"
| "position P (x # xs) = (if P x then Some 0 else map_option Suc (position P xs))"

text \<open>The loop that moves \<open>end_line\<close> to the line where the replacement ends.\<close>

function scan_end_line :: "line_span list \<Rightarrow> nat \<Rightarrow> nat \<Rightarrow> nat" where
  "scan_end_line lines replacement_end end_line =
     (if end_line < length lines \<and> ls_end (lines ! end_line) < replacement_end
      then scan_end_line lines replacement_end (Suc end_line) else end_line)"
  by pat_completeness auto
termination
  by (relation "measure (\<lambda>(lines, e, i). length lines - i)") auto

declare scan_end_line.simps [simp del]

definition outside_base :: tool_error where
  "outside_base = TFailed ''Replacement range is outside the base content.''"

definition get_replacement_line_range :: "line_span list \<Rightarrow> text_replacement \<Rightarrow> tool_error + nat \<times> nat" where
  "get_replacement_line_range lines r =
     (let replacement_start = tr_match_index r;
          replacement_end = tr_match_index r + tr_match_length r
      in case position (\<lambda>line. replacement_start \<ge> ls_start line \<and> replacement_start < ls_end line) lines of
           None \<Rightarrow> Inl outside_base
         | Some start_line \<Rightarrow>
             let end_line = scan_end_line lines replacement_end start_line
             in if end_line \<ge> length lines then Inl outside_base else Inr (start_line, end_line + 1))"

text \<open>\<^verbatim>\<open>String::replace_range\<close> with its assertions.\<close>

definition replace_range :: "string \<Rightarrow> nat \<Rightarrow> nat \<Rightarrow> string \<Rightarrow> string option" where
  "replace_range s lo hi new_text =
     (if lo \<le> hi \<and> hi \<le> length s \<and> is_char_boundary s lo \<and> is_char_boundary s hi
      then Some (take lo s @ new_text @ drop hi s) else None)"

definition apply_replacement :: "nat \<Rightarrow> text_replacement \<Rightarrow> string option \<Rightarrow> string option" where
  "apply_replacement offset r res =
     (case res of
        None \<Rightarrow> None
      | Some s \<Rightarrow>
          if tr_match_index r < offset then None
          else
            let match_index = tr_match_index r - offset
            in replace_range s match_index (match_index + tr_match_length r) (tr_new_text r))"

definition apply_replacements :: "string \<Rightarrow> text_replacement list \<Rightarrow> nat \<Rightarrow> string option" where
  "apply_replacements content rs offset = foldr (apply_replacement offset) rs (Some content)"

record replacement_group =
  gr_start_line :: nat
  gr_end_line :: nat
  gr_replacements :: "text_replacement list"

fun group_replacements ::
  "line_span list \<Rightarrow> replacement_group list \<Rightarrow> text_replacement list \<Rightarrow> tool_error + replacement_group list" where
  "group_replacements base_lines groups [] = Inr groups"
| "group_replacements base_lines groups (r # rs) =
     (case get_replacement_line_range base_lines r of
        Inl e \<Rightarrow> Inl e
      | Inr (start_line, end_line) \<Rightarrow>
          if groups \<noteq> [] \<and> start_line < gr_end_line (last groups)
          then
            let current = last groups;
                current = current\<lparr>gr_end_line := max (gr_end_line current) end_line,
                                  gr_replacements := gr_replacements current @ [r]\<rparr>
            in group_replacements base_lines (butlast groups @ [current]) rs
          else
            group_replacements base_lines
              (groups @ [\<lparr>gr_start_line = start_line, gr_end_line = end_line, gr_replacements = [r]\<rparr>]) rs)"

definition slice :: "'a list \<Rightarrow> nat \<Rightarrow> nat \<Rightarrow> 'a list option" where
  "slice xs lo hi = (if lo \<le> hi \<and> hi \<le> length xs then Some (take (hi - lo) (drop lo xs)) else None)"

text \<open>A slice of a \<^verbatim>\<open>str\<close> also has to start and end at character boundaries.\<close>

definition str_slice :: "string \<Rightarrow> nat \<Rightarrow> nat \<Rightarrow> string option" where
  "str_slice s lo hi =
     (if is_char_boundary s lo \<and> is_char_boundary s hi then slice s lo hi else None)"

fun overlay_groups ::
  "string list \<Rightarrow> string \<Rightarrow> line_span list \<Rightarrow> nat \<Rightarrow> replacement_group list \<Rightarrow> string option" where
  "overlay_groups original_lines base_content base_lines i [] =
     map_option concat (slice original_lines i (length original_lines))"
| "overlay_groups original_lines base_content base_lines i (g # gs) =
     (if gr_start_line g < length base_lines \<and> 0 < gr_end_line g \<and> gr_end_line g - 1 < length base_lines
      then
        let group_start_offset = ls_start (base_lines ! gr_start_line g);
            group_end_offset = ls_end (base_lines ! (gr_end_line g - 1))
        in case slice original_lines i (gr_start_line g) of
             None \<Rightarrow> None
           | Some kept \<Rightarrow>
               (case str_slice base_content group_start_offset group_end_offset of
                  None \<Rightarrow> None
                | Some block \<Rightarrow>
                    (case apply_replacements block (gr_replacements g) group_start_offset of
                       None \<Rightarrow> None
                     | Some new_block \<Rightarrow>
                         map_option (\<lambda>rest. concat kept @ new_block @ rest)
                           (overlay_groups original_lines base_content base_lines (gr_end_line g) gs)))
      else None)"

definition line_count_error :: tool_error where
  "line_count_error =
     TFailed ''Cannot preserve unchanged lines because the base content has a different line count.''"

definition apply_replacements_preserving_unchanged_lines ::
  "string \<Rightarrow> string \<Rightarrow> text_replacement list \<Rightarrow> (tool_error + string) option" where
  "apply_replacements_preserving_unchanged_lines original_content base_content replacements =
     (let original_lines = split_lines_with_endings original_content;
          base_lines = get_line_spans base_content
      in if length original_lines \<noteq> length base_lines then Some (Inl line_count_error)
         else
           case group_replacements base_lines [] (sort_key tr_match_index replacements) of
             Inl e \<Rightarrow> Some (Inl e)
           | Inr groups \<Rightarrow> map_option Inr (overlay_groups original_lines base_content base_lines 0 groups))"

section \<open>Matching\<close>

record fuzzy_match_result =
  fm_index :: "nat option"
  fm_match_length :: nat
  fm_used_fuzzy_match :: bool
  fm_content_for_replacement :: string

definition fm_found :: "fuzzy_match_result \<Rightarrow> bool" where
  "fm_found m \<longleftrightarrow> fm_index m \<noteq> None"

record edit =
  ed_old_text :: string
  ed_new_text :: string

record applied_edits_result =
  ae_base_content :: string
  ae_new_content :: string

record matched_edit =
  me_edit_index :: nat
  me_replacement :: text_replacement

definition fuzzy_find_text :: "(string \<Rightarrow> string) \<Rightarrow> string \<Rightarrow> string \<Rightarrow> fuzzy_match_result" where
  "fuzzy_find_text nfkc content old_text =
     (case find_str old_text content of
        Some exact_index \<Rightarrow>
          \<lparr>fm_index = Some exact_index, fm_match_length = length old_text, fm_used_fuzzy_match = False,
           fm_content_for_replacement = content\<rparr>
      | None \<Rightarrow>
          let fuzzy_content = normalize_for_fuzzy_match nfkc content;
              fuzzy_old_text = normalize_for_fuzzy_match nfkc old_text
          in case find_str fuzzy_old_text fuzzy_content of
               None \<Rightarrow>
                 \<lparr>fm_index = None, fm_match_length = 0, fm_used_fuzzy_match = False,
                  fm_content_for_replacement = content\<rparr>
             | Some fuzzy_index \<Rightarrow>
                 \<lparr>fm_index = Some fuzzy_index, fm_match_length = length fuzzy_old_text,
                  fm_used_fuzzy_match = True, fm_content_for_replacement = fuzzy_content\<rparr>)"

definition BOM :: string where
  "BOM = [CHR 0xEF, CHR 0xBB, CHR 0xBF]"

definition strip_bom :: "string \<Rightarrow> string \<times> string" where
  "strip_bom content = (if prefix BOM content then (BOM, drop (length BOM) content) else ([], content))"

definition count_occurrences :: "(string \<Rightarrow> string) \<Rightarrow> string \<Rightarrow> string \<Rightarrow> nat" where
  "count_occurrences nfkc content old_text =
     (let fuzzy_content = normalize_for_fuzzy_match nfkc content;
          fuzzy_old_text = normalize_for_fuzzy_match nfkc old_text
      in if fuzzy_old_text = [] then 0 else count_matches fuzzy_old_text fuzzy_content)"

definition not_found_error :: "string \<Rightarrow> nat \<Rightarrow> nat \<Rightarrow> tool_error" where
  "not_found_error path edit_index total_edits =
     TFailed (if total_edits = 1
       then ''Could not find the exact text in '' @ path @
         ''. The old text must match exactly including all whitespace and newlines.''
       else ''Could not find edits['' @ show_nat edit_index @ ''] in '' @ path @
         ''. The oldText must match exactly including all whitespace and newlines.'')"

definition duplicate_error :: "string \<Rightarrow> nat \<Rightarrow> nat \<Rightarrow> nat \<Rightarrow> tool_error" where
  "duplicate_error path edit_index total_edits occurrences =
     TFailed (if total_edits = 1
       then ''Found '' @ show_nat occurrences @ '' occurrences of the text in '' @ path @
         ''. The text must be unique. Please provide more context to make it unique.''
       else ''Found '' @ show_nat occurrences @ '' occurrences of edits['' @ show_nat edit_index @ ''] in '' @ path @
         ''. Each oldText must be unique. Please provide more context to make it unique.'')"

definition empty_old_text_error :: "string \<Rightarrow> nat \<Rightarrow> nat \<Rightarrow> tool_error" where
  "empty_old_text_error path edit_index total_edits =
     TFailed (if total_edits = 1
       then ''oldText must not be empty in '' @ path @ ''.''
       else ''edits['' @ show_nat edit_index @ ''].oldText must not be empty in '' @ path @ ''.'')"

definition no_change_error :: "string \<Rightarrow> nat \<Rightarrow> tool_error" where
  "no_change_error path total_edits =
     TFailed (if total_edits = 1
       then ''No changes made to '' @ path @ ''. The replacement produced identical content. '' @
         ''This might indicate an issue with special characters or the text not existing as expected.''
       else ''No changes made to '' @ path @ ''. The replacements produced identical content.'')"

definition overlap_error :: "string \<Rightarrow> nat \<Rightarrow> nat \<Rightarrow> tool_error" where
  "overlap_error path i j =
     TFailed (''edits['' @ show_nat i @ ''] and edits['' @ show_nat j @ ''] overlap in '' @ path @
       ''. Merge them into one edit or target disjoint regions.'')"

fun match_edits ::
  "(string \<Rightarrow> string) \<Rightarrow> string \<Rightarrow> string \<Rightarrow> nat \<Rightarrow> nat \<Rightarrow> edit list \<Rightarrow> tool_error + matched_edit list" where
  "match_edits nfkc base path total_edits i [] = Inr []"
| "match_edits nfkc base path total_edits i (e # es) =
     (let match_result = fuzzy_find_text nfkc base (ed_old_text e)
      in case fm_index match_result of
           None \<Rightarrow> Inl (not_found_error path i total_edits)
         | Some index \<Rightarrow>
             let occurrences = count_occurrences nfkc base (ed_old_text e)
             in if occurrences > 1 then Inl (duplicate_error path i total_edits occurrences)
                else
                  case match_edits nfkc base path total_edits (Suc i) es of
                    Inl err \<Rightarrow> Inl err
                  | Inr ms \<Rightarrow>
                      Inr (\<lparr>me_edit_index = i,
                           me_replacement = \<lparr>tr_match_index = index, tr_match_length = fm_match_length match_result,
                             tr_new_text = ed_new_text e\<rparr>\<rparr> # ms))"

fun find_overlap :: "string \<Rightarrow> matched_edit list \<Rightarrow> tool_error option" where
  "find_overlap path (previous # current # ms) =
     (if tr_match_index (me_replacement previous) + tr_match_length (me_replacement previous)
           > tr_match_index (me_replacement current)
      then Some (overlap_error path (me_edit_index previous) (me_edit_index current))
      else find_overlap path (current # ms))"
| "find_overlap path _ = None"

definition normalize_edit :: "edit \<Rightarrow> edit" where
  "normalize_edit e =
     \<lparr>ed_old_text = normalize_to_lf (ed_old_text e), ed_new_text = normalize_to_lf (ed_new_text e)\<rparr>"

definition apply_edits_to_normalized_content ::
  "(string \<Rightarrow> string) \<Rightarrow> string \<Rightarrow> edit list \<Rightarrow> string \<Rightarrow> (tool_error + applied_edits_result) option" where
  "apply_edits_to_normalized_content nfkc normalized_content edits path =
     (let normalized_edits = map normalize_edit edits;
          total_edits = length normalized_edits
      in case position (\<lambda>e. ed_old_text e = []) normalized_edits of
           Some i \<Rightarrow> Some (Inl (empty_old_text_error path i total_edits))
         | None \<Rightarrow>
             let used_fuzzy_match =
                   list_ex (\<lambda>e. fm_used_fuzzy_match (fuzzy_find_text nfkc normalized_content (ed_old_text e)))
                     normalized_edits;
                 replacement_base_content =
                   (if used_fuzzy_match then normalize_for_fuzzy_match nfkc normalized_content
                    else normalized_content)
             in case match_edits nfkc replacement_base_content path total_edits 0 normalized_edits of
                  Inl e \<Rightarrow> Some (Inl e)
                | Inr matched \<Rightarrow>
                    let matched = sort_key (\<lambda>m. tr_match_index (me_replacement m)) matched
                    in case find_overlap path matched of
                         Some e \<Rightarrow> Some (Inl e)
                       | None \<Rightarrow>
                           let replacements = map me_replacement matched
                           in case
                                (if used_fuzzy_match
                                 then apply_replacements_preserving_unchanged_lines normalized_content
                                        replacement_base_content replacements
                                 else map_option Inr (apply_replacements replacement_base_content replacements 0)) of
                                None \<Rightarrow> None
                              | Some (Inl e) \<Rightarrow> Some (Inl e)
                              | Some (Inr new_content) \<Rightarrow>
                                  if normalized_content = new_content
                                  then Some (Inl (no_change_error path total_edits))
                                  else Some (Inr \<lparr>ae_base_content = normalized_content,
                                                 ae_new_content = new_content\<rparr>))"

section \<open>The edit tool\<close>

text \<open>
  The environment answers each call of the tool: the paths, the kind and contents of the file, the
  outcome of the write, and what the abort signal says at each of the four checks. The tool's lock on
  the file (\<^verbatim>\<open>file_mutation_queue.rs\<close>) makes the read and the write one step; its key is computed here.
\<close>

datatype file_kind = KFile | KDirectory | KSymlink

record edit_env =
  en_absolute_path :: "string \<Rightarrow> file_error + string"
  en_canonical_path :: "string \<Rightarrow> file_error + string"
  en_file_info :: "string \<Rightarrow> file_error + file_kind"
  en_read_text_file :: "string \<Rightarrow> file_error + string"
  en_write_file :: "string \<Rightarrow> string \<Rightarrow> file_error option"
  en_aborted :: "nat \<Rightarrow> bool"

definition tool_space :: "string \<Rightarrow> bool" where
  "tool_space p \<longleftrightarrow>
     p \<in> set ([[CHR 0xC2, CHR 0xA0]] @
       map general [CHR 0x80, CHR 0x81, CHR 0x82, CHR 0x83, CHR 0x84, CHR 0x85, CHR 0x86] @
       map general [CHR 0x87, CHR 0x88, CHR 0x89, CHR 0x8A, CHR 0xAF] @
       [[CHR 0xE2, CHR 0x81, CHR 0x9F], [CHR 0xE3, CHR 0x80, CHR 0x80]])"

definition normalize_tool_path :: "string \<Rightarrow> string" where
  "normalize_tool_path path =
     (let normalized = concat (map (\<lambda>p. if tool_space p then '' '' else p) (char_pieces path))
      in if prefix ''@'' normalized then tl normalized else normalized)"

definition resolve_tool_path :: "edit_env \<Rightarrow> string \<Rightarrow> file_error + string" where
  "resolve_tool_path env path = en_absolute_path env (normalize_tool_path path)"

definition mutation_queue_key :: "edit_env \<Rightarrow> string \<Rightarrow> tool_error + string" where
  "mutation_queue_key env path =
     (case en_absolute_path env path of
        Inl e \<Rightarrow> Inl (TFile e)
      | Inr absolute \<Rightarrow>
          (case en_canonical_path env absolute of
             Inr canonical \<Rightarrow> Inr canonical
           | Inl e \<Rightarrow>
               if fe_code e = FNotFound \<or> fe_code e = FNotSupported then Inr absolute else Inl (TFile e)))"

definition edit_access_error :: "string \<Rightarrow> file_error \<Rightarrow> tool_error" where
  "edit_access_error path e =
     TFailed (''Could not edit file: '' @ path @ ''. Error code: '' @ file_error_code_as_str (fe_code e) @ ''.'')"

definition edited_file ::
  "(string \<Rightarrow> string) \<Rightarrow> string \<Rightarrow> edit list \<Rightarrow> string \<Rightarrow> (tool_error + string) option" where
  "edited_file nfkc read edits path =
     (let (bom, content) = strip_bom read;
          original_ending = detect_line_ending content
      in case apply_edits_to_normalized_content nfkc (normalize_to_lf content) edits path of
           None \<Rightarrow> None
         | Some (Inl e) \<Rightarrow> Some (Inl e)
         | Some (Inr applied) \<Rightarrow> Some (Inr (bom @ restore_line_endings (ae_new_content applied) original_ending)))"

definition edit_locked ::
  "(string \<Rightarrow> string) \<Rightarrow> edit_env \<Rightarrow> string \<Rightarrow> string \<Rightarrow> edit list \<Rightarrow> (string option \<times> (tool_error + string)) option" where
  "edit_locked nfkc env path absolute_path edits =
     (if en_aborted env 0 then Some (None, Inl TAborted)
      else
        case en_file_info env absolute_path of
          Inl e \<Rightarrow> Some (None, Inl (edit_access_error path e))
        | Inr kind \<Rightarrow>
            if kind \<noteq> KFile \<and> kind \<noteq> KSymlink
            then Some (None, Inl (TFailed (''Could not edit file: '' @ path @ ''. Path is not a file.'')))
            else
              case en_read_text_file env absolute_path of
                Inl e \<Rightarrow> Some (None, Inl (edit_access_error path e))
              | Inr read \<Rightarrow>
                  if en_aborted env 1 then Some (None, Inl TAborted)
                  else
                    case edited_file nfkc read edits path of
                      None \<Rightarrow> None
                    | Some (Inl e) \<Rightarrow> Some (None, Inl e)
                    | Some (Inr final_content) \<Rightarrow>
                        if en_aborted env 2 then Some (None, Inl TAborted)
                        else
                          case en_write_file env absolute_path final_content of
                            Some e \<Rightarrow> Some (None, Inl (edit_access_error path e))
                          | None \<Rightarrow>
                              if en_aborted env 3 then Some (Some final_content, Inl TAborted)
                              else Some (Some final_content,
                                Inr (''Successfully replaced '' @ show_nat (length edits) @ '' block(s) in '' @ path @ ''.'')))"

definition edit_execute ::
  "(string \<Rightarrow> string) \<Rightarrow> edit_env \<Rightarrow> string \<Rightarrow> edit list \<Rightarrow> (string option \<times> (tool_error + string)) option" where
  "edit_execute nfkc env path edits =
     (if edits = []
      then Some (None, Inl (TInvalidArguments ''Edit tool input is invalid. edits must contain at least one replacement.''))
      else
        case resolve_tool_path env path of
          Inl e \<Rightarrow> Some (None, Inl (TFile e))
        | Inr absolute_path \<Rightarrow>
            (case mutation_queue_key env absolute_path of
               Inl e \<Rightarrow> Some (None, Inl e)
             | Inr _ \<Rightarrow> edit_locked nfkc env path absolute_path edits))"

section \<open>Texts made of whole characters\<close>

lemma utf8_concat: "list_all char_ok ps \<Longrightarrow> utf8_text (concat ps)"
  by (induction ps) (auto simp: char_ok_def)

lemma utf8_text_iff: "utf8_text s \<longleftrightarrow> (\<exists>ps. s = concat ps \<and> list_all char_ok ps)"
  using utf8_text_chars utf8_concat by blast

abbreviation starts_char :: "string \<Rightarrow> bool" where
  "starts_char s \<equiv> s = [] \<or> \<not> is_cont_char (hd s)"

lemma char_text_starts: "utf8_text s \<Longrightarrow> starts_char s"
  unfolding utf8_text_iff using concat_starts by blast

lemma char_text_piece: "char_ok p \<Longrightarrow> utf8_text p"
  by (simp add: char_ok_def)

lemma char_ok_ascii [simp]: "(of_char c :: nat) < 128 \<Longrightarrow> char_ok [c]"
  by (simp add: char_ok_def is_cont_char_def utf8_cont_def char_conts_def utf8_text_ascii)

lemma char_text_newline [simp]: "utf8_text [newline]"
  by (rule char_text_piece) simp

text \<open>A text can be cut where a character starts.\<close>

lemma char_text_cut:
  assumes "utf8_text (a @ u)" "starts_char u"
  shows "utf8_text a \<and> utf8_text u"
proof -
  from assms(1) obtain ps where "a @ u = concat ps" "list_all char_ok ps" by (auto simp: utf8_text_iff)
  then show ?thesis
  proof (induction ps arbitrary: a)
    case (Cons p ps)
    then have eq: "p @ concat ps = a @ u" and p: "char_ok p" "list_all char_ok ps" by simp_all
    from eq consider (longer) a' where "a = p @ a'" "concat ps = a' @ u" | (inside) v where "p = a @ v" "u = v @ concat ps"
      by (auto simp: append_eq_append_conv2)
    then show ?case
    proof cases
      case longer
      then show ?thesis using Cons.IH [of a'] p char_text_piece [of p] by auto
    next
      case inside
      show ?thesis
      proof (cases "a = [] \<or> v = []")
        case True
        with inside p show ?thesis
          using utf8_concat [OF p(2)] char_text_piece [OF p(1)]
          by (auto intro: char_text_piece utf8_concat)
      next
        case False
        with inside p have "is_cont_char (hd u)" "u \<noteq> []"
          by (cases a; cases v; auto simp: char_ok_def)+
        with assms(2) show ?thesis by simp
      qed
    qed
  qed simp
qed

lemma boundary_starts: "i \<le> length s \<Longrightarrow> i = 0 \<or> starts_char (drop i s) \<longleftrightarrow> is_char_boundary s i"
  by (auto simp: is_char_boundary_def hd_drop_conv_nth)

lemma find_str_Some: "find_str pat s = Some i \<Longrightarrow> i \<le> length s \<and> prefix pat (drop i s) \<and> (pat = [] \<longrightarrow> i = 0)"
proof (induction s arbitrary: i)
  case (Cons c s)
  then show ?case by (cases "prefix pat (c # s)") auto
qed (simp split: if_splits)

lemma find_str_None: "find_str pat s = None \<longleftrightarrow> (\<forall>i. \<not> prefix pat (drop i s))"
proof (induction s)
  case (Cons c s)
  show ?case
  proof (cases "prefix pat (c # s)")
    case True
    then show ?thesis by (auto intro: exI [of _ 0])
  next
    case False
    with Cons show ?thesis by (auto simp: drop_Cons' split: if_splits)
  qed
qed simp

lemma match_boundaries:
  assumes "utf8_text s" "utf8_text pat" "find_str pat s = Some i"
  shows "i + length pat \<le> length s" "is_char_boundary s i" "is_char_boundary s (i + length pat)"
    "take (length pat) (drop i s) = pat"
proof -
  from find_str_Some [OF assms(3)] obtain b where i: "i \<le> length s" "drop i s = pat @ b" "pat = [] \<longrightarrow> i = 0"
    by (auto simp: prefix_def)
  show len: "i + length pat \<le> length s" using i(1) arg_cong [OF i(2), of length] by simp
  have st: "i = 0 \<or> starts_char (drop i s)"
    using i char_text_starts [OF assms(2)] by (cases pat) auto
  then show "is_char_boundary s i" using boundary_starts [OF i(1)] by blast
  have "utf8_text (drop i s)"
    using st assms(1) char_text_cut [of "take i s" "drop i s"] by auto
  with i(2) assms(2) have "utf8_text b" by simp
  moreover have "drop (i + length pat) s = b" using i(2) by (metis drop_drop add.commute append_eq_conv_conj)
  ultimately show "is_char_boundary s (i + length pat)"
    using boundary_starts [OF len] char_text_starts by simp
  show "take (length pat) (drop i s) = pat" by (simp add: i(2))
qed

section \<open>Simultaneous replacement\<close>

text \<open>
  The reference: all replacements at once, from left to right. \<open>replaceable\<close> says that they are in
  order, disjoint, within the text and at character boundaries.
\<close>

fun patch :: "string \<Rightarrow> nat \<Rightarrow> nat \<Rightarrow> text_replacement list \<Rightarrow> string" where
  "patch s offset pos [] = drop pos s"
| "patch s offset pos (r # rs) =
     take (tr_match_index r - offset - pos) (drop pos s) @ tr_new_text r @
     patch s offset (tr_match_index r - offset + tr_match_length r) rs"

fun replaceable :: "string \<Rightarrow> nat \<Rightarrow> nat \<Rightarrow> text_replacement list \<Rightarrow> bool" where
  "replaceable s offset pos [] \<longleftrightarrow> pos \<le> length s"
| "replaceable s offset pos (r # rs) \<longleftrightarrow>
     offset + pos \<le> tr_match_index r \<and> utf8_text (tr_new_text r) \<and>
     is_char_boundary s (tr_match_index r - offset) \<and>
     is_char_boundary s (tr_match_index r - offset + tr_match_length r) \<and>
     replaceable s offset (tr_match_index r - offset + tr_match_length r) rs"

lemma replaceable_pos: "replaceable s offset pos rs \<Longrightarrow> pos \<le> length s"
  by (induction rs arbitrary: pos) fastforce+

lemma starts_char_append: "starts_char a \<Longrightarrow> starts_char b \<Longrightarrow> starts_char (a @ b)"
  by (cases a) auto

lemma starts_char_take: "starts_char a \<Longrightarrow> starts_char (take n a)"
  by (cases a; cases n) auto

lemma patch_starts:
  "replaceable s offset pos rs \<Longrightarrow> starts_char (drop pos s) \<Longrightarrow> starts_char (patch s offset pos rs)"
proof (induction rs arbitrary: pos)
  case (Cons r rs)
  let ?e = "tr_match_index r - offset + tr_match_length r"
  have e: "?e \<le> length s" using Cons.prems(1) replaceable_pos by auto
  have rep: "replaceable s offset ?e rs" using Cons.prems(1) by (simp only: replaceable.simps)
  have "starts_char (tr_new_text r)" using Cons.prems(1) char_text_starts by auto
  moreover have "starts_char (patch s offset ?e rs)"
  proof (cases "?e = 0")
    case True
    with Cons.prems have "pos = 0" by auto
    with True Cons.prems(2) Cons.IH [OF rep] show ?thesis by simp
  next
    case False
    with e Cons.prems boundary_starts [of ?e s] have "starts_char (drop ?e s)" by auto
    from Cons.IH [OF rep this] show ?thesis .
  qed
  moreover have "starts_char (take (tr_match_index r - offset - pos) (drop pos s))"
    using Cons.prems(2) by (rule starts_char_take)
  ultimately show ?case by (simp only: patch.simps starts_char_append)
qed simp

lemma replace_range_patch:
  assumes "p \<le> e" "e \<le> length s" "is_char_boundary s p" "p = 0 \<and> e = 0 \<or> starts_char rest"
  shows "replace_range (take e s @ rest) p e new_text = Some (take p s @ new_text @ rest)"
proof -
  have "is_char_boundary (take e s @ rest) p"
    using assms by (cases "p = e") (auto simp: is_char_boundary_def nth_append hd_conv_nth split: if_splits)
  moreover have "is_char_boundary (take e s @ rest) e"
    using assms by (auto simp: is_char_boundary_def nth_append hd_conv_nth)
  ultimately show ?thesis using assms by (simp add: replace_range_def min_absorb1)
qed

lemma apply_replacements_patch:
  "replaceable s offset pos rs \<Longrightarrow> apply_replacements s rs offset = Some (take pos s @ patch s offset pos rs)"
proof (induction rs arbitrary: pos)
  case (Cons r rs)
  let ?m = "tr_match_index r - offset" and ?e = "tr_match_index r - offset + tr_match_length r"
  have e: "?e \<le> length s" using Cons.prems replaceable_pos by auto
  have rep: "replaceable s offset ?e rs" using Cons.prems by (simp only: replaceable.simps)
  have st: "?m = 0 \<and> ?e = 0 \<or> starts_char (patch s offset ?e rs)"
  proof (cases "?e = 0")
    case False
    with e Cons.prems boundary_starts [of ?e s] have "starts_char (drop ?e s)" by auto
    from patch_starts [OF rep this] show ?thesis by blast
  qed simp
  note Cons.IH [OF rep]
  moreover have "replace_range (take ?e s @ patch s offset ?e rs) ?m ?e (tr_new_text r) =
      Some (take ?m s @ tr_new_text r @ patch s offset ?e rs)"
    using Cons.prems e st by (intro replace_range_patch) auto
  moreover have "take ?m s = take pos s @ take (?m - pos) (drop pos s)"
    using Cons.prems take_add [of pos "?m - pos" s] by simp
  ultimately show ?case
    using Cons.prems by (simp add: apply_replacements_def apply_replacement_def Let_def)
qed (simp add: apply_replacements_def)

section \<open>Normalization keeps texts and is stable\<close>

lemma replace_str_skip:
  "pat \<noteq> [] \<Longrightarrow> starts_char pat \<Longrightarrow> \<forall>c\<in>set cs. is_cont_char c \<Longrightarrow>
   replace_str pat rep (cs @ s) = cs @ replace_str pat rep s"
proof (induction cs)
  case (Cons c cs)
  then have "\<not> prefix pat (c # cs @ s)" by (cases pat) auto
  with Cons show ?case by (simp add: replace_str.simps [of pat rep "c # cs @ s"])
qed simp

lemma utf8_text_first: "utf8_text s \<Longrightarrow> s \<noteq> [] \<Longrightarrow> \<exists>p rest. s = p @ rest \<and> char_ok p \<and> utf8_text rest"
  unfolding utf8_text_iff by (elim exE conjE, case_tac ps) auto

lemma replace_str_utf8: "utf8_text pat \<Longrightarrow> utf8_text rep \<Longrightarrow> utf8_text s \<Longrightarrow> utf8_text (replace_str pat rep s)"
proof (induction "length s" arbitrary: s rule: less_induct)
  case less
  show ?case
  proof (cases "pat = [] \<or> s = []")
    case True
    with less.prems show ?thesis by (simp add: replace_str.simps)
  next
    case ne: False
    show ?thesis
    proof (cases "prefix pat s")
      case True
      then obtain rest where s: "s = pat @ rest" by (auto simp: prefix_def)
      with less.prems have "utf8_text rest" by simp
      with less.hyps [of rest] less.prems ne s show ?thesis by (simp add: replace_str.simps [of pat rep "pat @ rest"])
    next
      case False
      obtain p rest where p: "s = p @ rest" "char_ok p" "utf8_text rest"
        using utf8_text_first less.prems(3) ne by blast
      then obtain c cs where c: "p = c # cs" "\<forall>d\<in>set cs. is_cont_char d" by (auto simp: char_ok_def)
      have "replace_str pat rep s = p @ replace_str pat rep rest"
        using ne False p(1) c replace_str_skip [of pat cs rep rest] char_text_starts [OF less.prems(1)]
        by (simp add: replace_str.simps [of pat rep "c # cs @ rest"])
      moreover have "utf8_text (replace_str pat rep rest)"
        using less.hyps [of rest] less.prems p c by simp
      ultimately show ?thesis using p(2) char_text_piece [of p] by simp
    qed
  qed
qed

lemma char_ok_single: "char_ok [c] \<longleftrightarrow> (of_char c :: nat) < 128"
  by (auto simp: char_ok_def char_conts_def is_cont_char_def utf8_cont_def utf8_text_ascii split: if_splits)

lemma normalize_to_lf_utf8: "utf8_text s \<Longrightarrow> utf8_text (normalize_to_lf s)"
  unfolding normalize_to_lf_def by (intro replace_str_utf8) (simp_all add: utf8_text_ascii)

lemma split_lines_utf8: "utf8_text s \<Longrightarrow> l \<in> set (split_lines s) \<Longrightarrow> utf8_text l"
proof (induction "length s" arbitrary: s rule: less_induct)
  case less
  show ?case
  proof (cases "newline \<in> set s")
    case True
    then obtain a b where s: "s = a @ newline # b" "newline \<notin> set a" by (metis split_list_first)
    have "\<not> is_cont_char newline" by (simp add: is_cont_char_def utf8_cont_def)
    with less.prems(1) s(1) char_text_cut [of a "newline # b"] have "utf8_text a" "utf8_text ([newline] @ b)" by auto
    then have "utf8_text b" using utf8_text_append [OF char_text_newline, of b] by simp
    with less.hyps [of b] less.prems(2) s \<open>utf8_text a\<close> show ?thesis by (auto simp: split_lines_line)
  qed (use less in \<open>simp add: split_lines_no\<close>)
qed

lemma join_lines_utf8: "\<forall>l\<in>set ls. utf8_text l \<Longrightarrow> utf8_text (join_lines ls)"
proof (induction ls rule: join_lines.induct)
  case (3 l l2 ls)
  then have "utf8_text l" "utf8_text (join_lines (l2 # ls))" by simp_all
  then show ?case using utf8_text_append [OF char_text_newline, of "join_lines (l2 # ls)"] by simp
qed simp_all

abbreviation trimmed :: "string list \<Rightarrow> bool" where
  "trimmed ps \<equiv> ps = [] \<or> \<not> is_whitespace (last ps)"

lemma trim_end_pieces:
  assumes "utf8_text l"
  shows "\<exists>ps. trim_end l = concat ps \<and> list_all char_ok ps \<and> trimmed ps \<and> set (trim_end l) \<subseteq> set l"
proof -
  obtain ps where ps: "l = concat ps" "list_all char_ok ps" using assms utf8_text_chars by blast
  let ?qs = "rev (dropWhile is_whitespace (rev ps))"
  have "trim_end l = concat ?qs" by (simp add: trim_end_def ps char_pieces_concat)
  moreover have sub: "set ?qs \<subseteq> set ps" using set_dropWhileD by fastforce
  then have "list_all char_ok ?qs" using ps(2) by (auto simp: list_all_iff)
  moreover have "trimmed ?qs" using hd_dropWhile [of is_whitespace "rev ps"] by (auto simp: last_rev)
  moreover have "set (concat ?qs) \<subseteq> set l" using sub by (auto simp: ps)
  ultimately show ?thesis by (intro exI [of _ ?qs]) simp
qed

lemma trim_end_trimmed: "list_all char_ok ps \<Longrightarrow> trimmed ps \<Longrightarrow> trim_end (concat ps) = concat ps"
  by (simp only: trim_end_def char_pieces_concat) (cases ps rule: rev_cases; simp)

lemma fuzzy_char_ok: "char_ok p \<Longrightarrow> char_ok (fuzzy_char p)"
  by (simp add: fuzzy_char_def char_ok_single)

definition fuzzy_text :: "string \<Rightarrow> string" where
  "fuzzy_text s = concat (map fuzzy_char (char_pieces s))"

lemma fuzzy_text_pieces: "list_all char_ok ps \<Longrightarrow> fuzzy_text (concat ps) = concat (map fuzzy_char ps)"
  by (simp add: fuzzy_text_def char_pieces_concat)

lemma fuzzy_char_single: "fuzzy_char [c] = [c]"
  by (simp add: fuzzy_char_def general_def)

lemma fuzzy_char_facts:
  shows "fuzzy_char (fuzzy_char p) = fuzzy_char p" "is_whitespace (fuzzy_char p) = is_whitespace p"
    "newline \<in> set (fuzzy_char p) \<Longrightarrow> newline \<in> set p"
proof -
  show "fuzzy_char (fuzzy_char p) = fuzzy_char p"
    by (subst (2 3) fuzzy_char_def) (simp add: fuzzy_char_single fuzzy_char_def [of p])
  show "is_whitespace (fuzzy_char p) = is_whitespace p"
    by (auto simp: fuzzy_char_def is_whitespace_def general_def)
  show "newline \<in> set p" if "newline \<in> set (fuzzy_char p)"
    using that by (auto simp: fuzzy_char_def split: if_splits)
qed

lemma fuzzy_text_append: "utf8_text a \<Longrightarrow> utf8_text b \<Longrightarrow> fuzzy_text (a @ b) = fuzzy_text a @ fuzzy_text b"
  unfolding utf8_text_iff
proof (elim exE conjE)
  fix ps qs
  assume "a = concat ps" "b = concat qs" "list_all char_ok ps" "list_all char_ok qs"
  then show "fuzzy_text (a @ b) = fuzzy_text a @ fuzzy_text b"
    using fuzzy_text_pieces [of "ps @ qs"] fuzzy_text_pieces [of ps] fuzzy_text_pieces [of qs] by simp
qed

lemma fuzzy_text_newline: "fuzzy_text [newline] = [newline]"
  using fuzzy_text_pieces [of "[[newline]]"] by (simp add: fuzzy_char_single)

lemma fuzzy_text_join: "\<forall>l\<in>set ls. utf8_text l \<Longrightarrow> fuzzy_text (join_lines ls) = join_lines (map fuzzy_text ls)"
proof (induction ls rule: join_lines.induct)
  case (3 l l2 ls)
  let ?j = "join_lines (l2 # ls)"
  have j: "utf8_text ?j" using 3 by (intro join_lines_utf8) simp
  then have "fuzzy_text (newline # ?j) = newline # fuzzy_text ?j"
    using fuzzy_text_append [of "[newline]" ?j] by (simp add: fuzzy_text_newline)
  moreover have "utf8_text (newline # ?j)" using j utf8_text_append [OF char_text_newline, of ?j] by simp
  ultimately show ?case using 3 fuzzy_text_append [of l "newline # ?j"] by simp
qed (simp_all add: fuzzy_text_def)

text \<open>A normalized line: of whole characters, without newlines or trailing whitespace, already folded.\<close>

definition normal_line :: "string \<Rightarrow> bool" where
  "normal_line l \<longleftrightarrow>
     utf8_text l \<and> newline \<notin> set l \<and> trim_end l = l \<and> fuzzy_text l = l"

lemma normal_line_intro:
  assumes "utf8_text l" "newline \<notin> set l"
  shows "normal_line (fuzzy_text (trim_end l))"
proof -
  from trim_end_pieces [OF assms(1)] obtain ps where ps: "trim_end l = concat ps" "list_all char_ok ps" "trimmed ps"
    "set (trim_end l) \<subseteq> set l" by blast
  let ?qs = "map fuzzy_char ps"
  have t: "fuzzy_text (trim_end l) = concat ?qs" by (simp add: ps fuzzy_text_pieces)
  have ok: "list_all char_ok ?qs" using ps(2) by (simp add: list_all_iff fuzzy_char_ok)
  moreover have "trimmed ?qs" using ps(3) by (auto simp: last_map fuzzy_char_facts)
  ultimately have "trim_end (concat ?qs) = concat ?qs" by (rule trim_end_trimmed)
  moreover have "fuzzy_text (concat ?qs) = concat ?qs"
    using ok by (simp add: fuzzy_text_pieces fuzzy_char_facts comp_def)
  moreover have "newline \<notin> set (concat ?qs)"
    using ps(1,4) assms(2) fuzzy_char_facts(3) by fastforce
  ultimately show ?thesis using utf8_concat [OF ok] by (simp add: normal_line_def t)
qed

lemma normalize_lines:
  assumes "utf8_text (nfkc s)"
  shows "\<exists>ls. ls \<noteq> [] \<and> list_all normal_line ls \<and> normalize_for_fuzzy_match nfkc s = join_lines ls"
proof -
  let ?ls = "map (\<lambda>l. fuzzy_text (trim_end l)) (split_lines (nfkc s))"
  have line: "utf8_text l \<and> newline \<notin> set l" if "l \<in> set (split_lines (nfkc s))" for l
    using that split_lines_utf8 [OF assms] split_lines_clean by blast
  then have "utf8_text (trim_end l)" if "l \<in> set (split_lines (nfkc s))" for l
    using that trim_end_pieces utf8_concat by metis
  then have "normalize_for_fuzzy_match nfkc s = join_lines ?ls"
    by (simp add: normalize_for_fuzzy_match_def fuzzy_text_def [symmetric] fuzzy_text_join comp_def)
  moreover have "list_all normal_line ?ls" using line by (simp add: list_all_iff normal_line_intro)
  moreover have "?ls \<noteq> []" by (simp add: split_lines_ne)
  ultimately show ?thesis by blast
qed

text \<open>
  What the code relies on of NFKC: it maps texts to texts, and a text that was normalized, trimmed and
  folded is in normal form already.
\<close>

definition nfkc_ok :: "(string \<Rightarrow> string) \<Rightarrow> bool" where
  "nfkc_ok nfkc \<longleftrightarrow>
     (\<forall>s. utf8_text s \<longrightarrow> utf8_text (nfkc s) \<and>
        nfkc (normalize_for_fuzzy_match nfkc s) = normalize_for_fuzzy_match nfkc s)"

lemma normalize_stable:
  assumes "nfkc_ok nfkc" "utf8_text s"
  shows "utf8_text (normalize_for_fuzzy_match nfkc s)"
    and "normalize_for_fuzzy_match nfkc (normalize_for_fuzzy_match nfkc s) = normalize_for_fuzzy_match nfkc s"
proof -
  have n: "utf8_text (nfkc s)" "nfkc (normalize_for_fuzzy_match nfkc s) = normalize_for_fuzzy_match nfkc s"
    using assms by (auto simp: nfkc_ok_def)
  from normalize_lines [of nfkc s] n(1) obtain ls where ls: "ls \<noteq> []" "list_all normal_line ls"
    "normalize_for_fuzzy_match nfkc s = join_lines ls" by blast
  show "utf8_text (normalize_for_fuzzy_match nfkc s)"
    using ls(2) by (auto simp: ls(3) list_all_iff normal_line_def intro: join_lines_utf8)
  have "split_lines (join_lines ls) = ls"
    using ls by (intro split_join_lines) (auto simp: list_all_iff normal_line_def)
  moreover have "map trim_end ls = ls" "map fuzzy_text ls = ls"
    using ls(2) by (auto simp: list_all_iff normal_line_def intro: map_idI)
  moreover have "fuzzy_text (join_lines ls) = join_lines (map fuzzy_text ls)"
    using ls(2) by (intro fuzzy_text_join) (auto simp: list_all_iff normal_line_def)
  ultimately show "normalize_for_fuzzy_match nfkc (normalize_for_fuzzy_match nfkc s) = normalize_for_fuzzy_match nfkc s"
    using n(2) by (simp add: ls(3) normalize_for_fuzzy_match_def [of nfkc "join_lines ls"] fuzzy_text_def [symmetric])
qed

section \<open>Matched edits can be replaced\<close>

text \<open>
  \<open>weave gaps xs\<close> puts \<open>xs\<close> into the gaps: two texts woven with the same gaps are the same outside the
  woven parts.
\<close>

fun weave :: "'a list list \<Rightarrow> 'a list list \<Rightarrow> 'a list" where
  "weave (g # gs) (x # xs) = g @ x @ weave gs xs"
| "weave gs [] = concat gs"
| "weave [] xs = concat xs"

text \<open>Where the \<open>k\<close>-th text stands in such a string.\<close>

definition match_start :: "'a list list \<Rightarrow> 'a list list \<Rightarrow> nat \<Rightarrow> nat" where
  "match_start gaps xs k = length (weave (take (Suc k) gaps) (take k xs))"

lemma match_start_simps [simp]:
  "match_start (g # gs) xs 0 = length g"
  "match_start (g # gs) (x # xs) (Suc k) = length g + length x + match_start gs xs k"
  by (simp_all add: match_start_def)

lemma patch_weave:
  "replaceable s offset pos rs \<Longrightarrow>
   \<exists>gaps. length gaps = Suc (length rs) \<and>
     drop pos s = weave gaps (map (\<lambda>r. take (tr_match_length r) (drop (tr_match_index r - offset) s)) rs) \<and>
     patch s offset pos rs = weave gaps (map tr_new_text rs) \<and>
     (\<forall>k<length rs. pos + match_start gaps (map (\<lambda>r. take (tr_match_length r) (drop (tr_match_index r - offset) s)) rs) k =
        tr_match_index (rs ! k) - offset)"
proof (induction rs arbitrary: pos)
  case Nil
  then show ?case by (intro exI [of _ "[drop pos s]"]) simp
next
  case (Cons r rs)
  let ?m = "tr_match_index r - offset" and ?e = "tr_match_index r - offset + tr_match_length r"
  have "replaceable s offset ?e rs" using Cons.prems by (simp only: replaceable.simps)
  from Cons.IH [OF this] obtain gaps where g: "length gaps = Suc (length rs)"
    "drop ?e s = weave gaps (map (\<lambda>r. take (tr_match_length r) (drop (tr_match_index r - offset) s)) rs)"
    "patch s offset ?e rs = weave gaps (map tr_new_text rs)"
    "\<forall>k<length rs. ?e + match_start gaps (map (\<lambda>r. take (tr_match_length r) (drop (tr_match_index r - offset) s)) rs) k =
        tr_match_index (rs ! k) - offset" by blast
  have "pos \<le> ?m" using Cons.prems by auto
  then have "drop ?m s = drop (?m - pos) (drop pos s)" by (simp only: drop_drop le_add_diff_inverse2)
  then have "drop pos s = take (?m - pos) (drop pos s) @ drop ?m s" by (metis append_take_drop_id)
  also have "drop ?m s = take (tr_match_length r) (drop ?m s) @ drop ?e s"
    by (metis append_take_drop_id drop_drop add.commute)
  finally have d: "drop pos s = take (?m - pos) (drop pos s) @ take (tr_match_length r) (drop ?m s) @ drop ?e s" .
  have e: "?e \<le> length s" using Cons.prems replaceable_pos by auto
  have starts: "pos + match_start (take (?m - pos) (drop pos s) # gaps)
      (map (\<lambda>r. take (tr_match_length r) (drop (tr_match_index r - offset) s)) (r # rs)) k =
      tr_match_index ((r # rs) ! k) - offset" if "k < length (r # rs)" for k
  proof (cases k)
    case 0
    then show ?thesis using \<open>pos \<le> ?m\<close> e by (simp add: min_absorb1)
  next
    case (Suc j)
    then show ?thesis using \<open>pos \<le> ?m\<close> e g(4) [rule_format, of j] that by (simp add: min_absorb1)
  qed
  show ?case
    by (intro exI [of _ "take (?m - pos) (drop pos s) # gaps"] conjI allI impI starts)
      (simp add: g(1), subst d, simp only: g(2) list.map weave.simps, simp only: patch.simps g(3) list.map weave.simps, simp)
qed

text \<open>The text that a match found in the base: the old text, or its normal form.\<close>

definition found_text :: "(string \<Rightarrow> string) \<Rightarrow> string \<Rightarrow> edit \<Rightarrow> string" where
  "found_text nfkc base e =
     (if find_str (ed_old_text e) base \<noteq> None then ed_old_text e else normalize_for_fuzzy_match nfkc (ed_old_text e))"

definition found_in :: "(string \<Rightarrow> string) \<Rightarrow> string \<Rightarrow> edit \<Rightarrow> text_replacement \<Rightarrow> bool" where
  "found_in nfkc base e r \<longleftrightarrow>
     tr_new_text r = ed_new_text e \<and> find_str (found_text nfkc base e) base = Some (tr_match_index r) \<and>
     tr_match_length r = length (found_text nfkc base e)"

lemma fuzzy_find_found:
  assumes "fm_index (fuzzy_find_text nfkc base (ed_old_text e)) = Some i"
    and "normalize_for_fuzzy_match nfkc base = base \<or> \<not> fm_used_fuzzy_match (fuzzy_find_text nfkc base (ed_old_text e))"
  shows "find_str (found_text nfkc base e) base = Some i \<and>
    fm_match_length (fuzzy_find_text nfkc base (ed_old_text e)) = length (found_text nfkc base e)"
  using assms by (auto simp: fuzzy_find_text_def found_text_def Let_def split: option.splits)

lemma match_edits_found:
  "match_edits nfkc base path total_edits i es = Inr ms \<Longrightarrow>
   (\<forall>e\<in>set es. normalize_for_fuzzy_match nfkc base = base \<or>
      \<not> fm_used_fuzzy_match (fuzzy_find_text nfkc base (ed_old_text e))) \<Longrightarrow>
   list_all2 (found_in nfkc base) es (map me_replacement ms)"
proof (induction es arbitrary: i ms)
  case (Cons e es)
  from Cons.prems(1) obtain j ms' where j: "fm_index (fuzzy_find_text nfkc base (ed_old_text e)) = Some j"
    "match_edits nfkc base path total_edits (Suc i) es = Inr ms'"
    "ms = \<lparr>me_edit_index = i, me_replacement = \<lparr>tr_match_index = j,
       tr_match_length = fm_match_length (fuzzy_find_text nfkc base (ed_old_text e)), tr_new_text = ed_new_text e\<rparr>\<rparr> # ms'"
    by (auto simp: Let_def split: option.splits if_splits sum.splits)
  with Cons.prems(2) fuzzy_find_found [OF j(1)] have "found_in nfkc base e (me_replacement (hd ms))"
    by (auto simp: found_in_def)
  with j Cons show ?case by simp
qed simp

definition replaced :: "string \<Rightarrow> text_replacement \<Rightarrow> string \<times> string" where
  "replaced base r = (take (tr_match_length r) (drop (tr_match_index r) base), tr_new_text r)"

lemma found_boundaries:
  assumes "found_in nfkc base e r" "utf8_text base" "utf8_text (ed_old_text e)" "utf8_text (ed_new_text e)" "nfkc_ok nfkc"
  shows "tr_match_index r + tr_match_length r \<le> length base" "is_char_boundary base (tr_match_index r)"
    "is_char_boundary base (tr_match_index r + tr_match_length r)" "utf8_text (tr_new_text r)"
    "replaced base r = (found_text nfkc base e, ed_new_text e)"
proof -
  have "utf8_text (found_text nfkc base e)"
    using assms(3) normalize_stable(1) [OF assms(5,3)] by (simp add: found_text_def)
  with assms(1,4) match_boundaries [OF assms(2) this]
  show "tr_match_index r + tr_match_length r \<le> length base" "is_char_boundary base (tr_match_index r)"
    "is_char_boundary base (tr_match_index r + tr_match_length r)" "utf8_text (tr_new_text r)"
    "replaced base r = (found_text nfkc base e, ed_new_text e)"
    by (simp_all add: found_in_def replaced_def)
qed

lemma no_overlap_replaceable:
  "find_overlap path ms = None \<Longrightarrow>
   \<forall>r\<in>set (map me_replacement ms). tr_match_index r + tr_match_length r \<le> length base \<and>
     is_char_boundary base (tr_match_index r) \<and> is_char_boundary base (tr_match_index r + tr_match_length r) \<and>
     utf8_text (tr_new_text r) \<Longrightarrow>
   pos \<le> length base \<Longrightarrow> ms \<noteq> [] \<longrightarrow> pos \<le> tr_match_index (me_replacement (hd ms)) \<Longrightarrow>
   replaceable base 0 pos (map me_replacement ms)"
  by (induction path ms arbitrary: pos rule: find_overlap.induct) (auto split: if_splits)

text \<open>The matched edits of a call, as the edits in the order of their matches.\<close>

lemma matched_in_order:
  assumes "list_all2 (found_in nfkc base) es (map me_replacement ms)"
  obtains es' where "mset es' = mset es"
    "list_all2 (found_in nfkc base) es' (map me_replacement (sort_key k ms))"
proof -
  have "list_all2 (\<lambda>m e. found_in nfkc base e (me_replacement m)) ms es"
    using assms by (auto simp: list_all2_conv_all_nth)
  from list_all2_reorder_left_invariance [OF this, of "sort_key k ms"] obtain es' where
    "list_all2 (\<lambda>m e. found_in nfkc base e (me_replacement m)) (sort_key k ms) es'" "mset es' = mset es" by auto
  then show thesis using that [of es'] by (auto simp: list_all2_conv_all_nth)
qed

lemma sorted_replaceable:
  assumes "list_all2 (found_in nfkc base) es (map me_replacement ms)" "find_overlap path ms = None"
    and "nfkc_ok nfkc" "utf8_text base" "\<forall>e\<in>set es. utf8_text (ed_old_text e) \<and> utf8_text (ed_new_text e)"
  shows "replaceable base 0 0 (map me_replacement ms)"
proof (rule no_overlap_replaceable [OF assms(2)])
  show "\<forall>r\<in>set (map me_replacement ms). tr_match_index r + tr_match_length r \<le> length base \<and>
     is_char_boundary base (tr_match_index r) \<and> is_char_boundary base (tr_match_index r + tr_match_length r) \<and>
     utf8_text (tr_new_text r)"
  proof
    fix r assume "r \<in> set (map me_replacement ms)"
    then obtain e where "e \<in> set es" "found_in nfkc base e r" using assms(1)
      by (metis in_set_conv_nth list_all2_conv_all_nth)
    with found_boundaries(1-4) [of nfkc base e r] assms(3-5)
    show "tr_match_index r + tr_match_length r \<le> length base \<and> is_char_boundary base (tr_match_index r) \<and>
      is_char_boundary base (tr_match_index r + tr_match_length r) \<and> utf8_text (tr_new_text r)" by simp
  qed
qed simp_all

section \<open>Overlaying replaced blocks\<close>

text \<open>The spans of the lines of a text: adjacent, in order and within the text.\<close>

lemma length_spans_from [simp]: "length (spans_from offset ls) = length ls"
  by (induction ls arbitrary: offset) simp_all

lemma spans_from_nth:
  "i < length ls \<Longrightarrow> spans_from offset ls ! i =
     \<lparr>ls_start = offset + length (concat (take i ls)), ls_end = offset + length (concat (take (Suc i) ls))\<rparr>"
proof (induction ls arbitrary: offset i)
  case (Cons l ls)
  then show ?case by (cases i) simp_all
qed simp

lemma concat_lines_with_endings [simp]: "concat (split_lines_with_endings s) = s"
proof -
  have "concat (map (\<lambda>l. l @ [newline]) (butlast ls) @ (if last ls = [] then [] else [last ls])) = join_lines ls"
    if "ls \<noteq> []" for ls using that
  proof (induction ls rule: join_lines.induct)
    case (3 l l2 ls)
    then show ?case by auto
  qed simp_all
  then show ?thesis using split_lines_ne [of s] by (simp add: split_lines_with_endings_def Let_def)
qed

lemma line_spans_nth:
  "i < length (get_line_spans s) \<Longrightarrow>
   ls_start (get_line_spans s ! i) = length (concat (take i (split_lines_with_endings s))) \<and>
   ls_end (get_line_spans s ! i) = length (concat (take (Suc i) (split_lines_with_endings s)))"
  by (simp add: get_line_spans_def spans_from_nth)

lemma length_concat_take_mono: "i \<le> j \<Longrightarrow> length (concat (take i ls)) \<le> length (concat (take j ls))"
  by (metis concat_append le_add1 length_append take_add le_add_diff_inverse)

lemma position_Some: "position P xs = Some i \<Longrightarrow> i < length xs \<and> P (xs ! i)"
  by (induction xs arbitrary: i) (auto split: if_splits)

lemma scan_end_line_le:
  "e \<le> scan_end_line lines stop e \<and>
   (\<forall>k. e \<le> k \<and> k < scan_end_line lines stop e \<longrightarrow> ls_end (lines ! k) < stop) \<and>
   (scan_end_line lines stop e < length lines \<longrightarrow> stop \<le> ls_end (lines ! scan_end_line lines stop e))"
proof (induction lines stop e rule: scan_end_line.induct)
  case (1 lines stop e)
  show ?case
  proof (cases "e < length lines \<and> ls_end (lines ! e) < stop")
    case True
    have "ls_end (lines ! k) < stop" if "e \<le> k" "k < scan_end_line lines stop (Suc e)" for k
      using that 1 [OF True] True by (cases "k = e") simp_all
    with 1 [OF True] True show ?thesis by (simp add: scan_end_line.simps [of lines stop e])
  qed (auto simp: scan_end_line.simps [of lines stop e])
qed

lemma line_range:
  assumes "get_replacement_line_range lines r = Inr (a, b)"
  shows "a < b" "b \<le> length lines" "ls_start (lines ! a) \<le> tr_match_index r"
    "tr_match_index r + tr_match_length r \<le> ls_end (lines ! (b - 1))"
  using assms scan_end_line_le [of a lines "tr_match_index r + tr_match_length r"]
  by (auto simp: get_replacement_line_range_def Let_def split: option.splits if_splits dest!: position_Some)

text \<open>A match of \<open>n\<close> bytes at \<open>p\<close> touches a line: it starts in it, or before it and reaches into it.\<close>

definition touches :: "nat \<Rightarrow> nat \<Rightarrow> nat \<Rightarrow> nat \<Rightarrow> bool" where
  "touches lo hi p n \<longleftrightarrow> lo \<le> p \<and> p < hi \<or> p < lo \<and> lo < p + n"

lemma line_range_touched:
  assumes "get_replacement_line_range (get_line_spans base) r = Inr (a, b)" and "a \<le> k" and "k < b"
  shows "touches (ls_start (get_line_spans base ! k)) (ls_end (get_line_spans base ! k)) (tr_match_index r) (tr_match_length r)"
proof -
  let ?lines = "get_line_spans base" and ?stop = "tr_match_index r + tr_match_length r"
  from assms(1) have a: "a < length ?lines" "ls_start (?lines ! a) \<le> tr_match_index r" "tr_match_index r < ls_end (?lines ! a)"
    and b: "b = Suc (scan_end_line ?lines ?stop a)" "b \<le> length ?lines"
    by (auto simp: get_replacement_line_range_def Let_def split: option.splits if_splits dest!: position_Some)
  show ?thesis
  proof (cases "k = a")
    case True
    with a show ?thesis by (simp add: touches_def)
  next
    case False
    then have k: "a \<le> k - 1" "k - 1 < scan_end_line ?lines ?stop a" using assms(2,3) b(1) by simp_all
    then have "ls_end (?lines ! (k - 1)) < ?stop" using scan_end_line_le [of a ?lines ?stop] by blast
    moreover have "ls_start (?lines ! k) = ls_end (?lines ! (k - 1))"
      using False assms(2,3) b(2) line_spans_nth [of k base] line_spans_nth [of "k - 1" base] by simp
    moreover have "ls_end (?lines ! a) \<le> ls_end (?lines ! (k - 1))"
      using k(1) assms(3) b(2) a(1) line_spans_nth [of a base] line_spans_nth [of "k - 1" base]
        length_concat_take_mono [of "Suc a" "Suc (k - 1)"] by simp
    ultimately show ?thesis using a(3) by (simp add: touches_def)
  qed
qed

definition group_fits :: "line_span list \<Rightarrow> replacement_group \<Rightarrow> bool" where
  "group_fits lines g \<longleftrightarrow>
     gr_start_line g < gr_end_line g \<and> gr_end_line g \<le> length lines \<and> gr_replacements g \<noteq> [] \<and>
     (\<forall>r\<in>set (gr_replacements g). ls_start (lines ! gr_start_line g) \<le> tr_match_index r \<and>
        tr_match_index r + tr_match_length r \<le> ls_end (lines ! (gr_end_line g - 1))) \<and>
     (\<forall>k. gr_start_line g \<le> k \<and> k < gr_end_line g \<longrightarrow>
        (\<exists>r\<in>set (gr_replacements g).
           touches (ls_start (lines ! k)) (ls_end (lines ! k)) (tr_match_index r) (tr_match_length r)))"

fun groups_ok :: "line_span list \<Rightarrow> nat \<Rightarrow> replacement_group list \<Rightarrow> bool" where
  "groups_ok lines i [] \<longleftrightarrow> i \<le> length lines"
| "groups_ok lines i (g # gs) \<longleftrightarrow> i \<le> gr_start_line g \<and> group_fits lines g \<and> groups_ok lines (gr_end_line g) gs"

lemma groups_ok_snoc:
  "groups_ok lines i (gs @ [g]) \<longleftrightarrow>
   groups_ok lines i gs \<and> (if gs = [] then i else gr_end_line (last gs)) \<le> gr_start_line g \<and> group_fits lines g"
  by (induction gs arbitrary: i) (auto simp: group_fits_def)

lemma group_replacements_ok:
  "group_replacements (get_line_spans base) groups rs = Inr groups' \<Longrightarrow>
   groups_ok (get_line_spans base) 0 groups \<Longrightarrow>
   sorted (map tr_match_index (concat (map gr_replacements groups) @ rs)) \<Longrightarrow>
   groups_ok (get_line_spans base) 0 groups' \<and>
   concat (map gr_replacements groups') = concat (map gr_replacements groups) @ rs"
proof (induction rs arbitrary: groups)
  case (Cons r rs)
  let ?lines = "get_line_spans base"
  from Cons.prems(1) obtain a b where range: "get_replacement_line_range ?lines r = Inr (a, b)"
    by (auto split: sum.splits)
  note ab = line_range [OF range]
  show ?case
  proof (cases "groups \<noteq> [] \<and> a < gr_end_line (last groups)")
    case True
    let ?g = "last groups" and ?gs = "butlast groups"
    let ?new = "?g\<lparr>gr_end_line := max (gr_end_line ?g) b, gr_replacements := gr_replacements ?g @ [r]\<rparr>"
    have groups: "groups = ?gs @ [?g]" using True by simp
    then have ok: "groups_ok ?lines 0 (?gs @ [?g])" using Cons.prems(2) by simp
    have all: "concat (map gr_replacements groups) = concat (map gr_replacements ?gs) @ gr_replacements ?g"
      by (subst groups) simp
    have fit: "group_fits ?lines ?g" using ok by (simp add: groups_ok_snoc)
    then obtain r0 where r0: "r0 \<in> set (gr_replacements ?g)" by (metis group_fits_def hd_in_set)
    with Cons.prems(3) all have "tr_match_index r0 \<le> tr_match_index r" by (auto simp: sorted_append)
    with r0 fit have start: "ls_start (?lines ! gr_start_line ?g) \<le> tr_match_index r" by (fastforce simp: group_fits_def)
    have mono: "ls_end (?lines ! (n - 1)) \<le> ls_end (?lines ! (max (gr_end_line ?g) b - 1))"
      if "0 < n" "n \<le> max (gr_end_line ?g) b" for n
      using that fit ab(1,2) by (auto simp: line_spans_nth group_fits_def max_def intro!: length_concat_take_mono)
    have "gr_start_line ?g < gr_end_line ?g" "gr_end_line ?g \<le> length ?lines" using fit by (simp_all add: group_fits_def)
    with mono [of "gr_end_line ?g"] mono [of b] ab(1,4)
    have ends: "ls_end (?lines ! (gr_end_line ?g - 1)) \<le> ls_end (?lines ! (max (gr_end_line ?g) b - 1))"
      "tr_match_index r + tr_match_length r \<le> ls_end (?lines ! (max (gr_end_line ?g) b - 1))" by simp_all
    have touched: "\<exists>q\<in>set (gr_replacements ?g @ [r]).
        touches (ls_start (?lines ! k)) (ls_end (?lines ! k)) (tr_match_index q) (tr_match_length q)"
      if "gr_start_line ?g \<le> k" "k < max (gr_end_line ?g) b" for k
    proof (cases "k < gr_end_line ?g")
      case False
      with that True have "a \<le> k" "k < b" by simp_all
      with line_range_touched [OF range] show ?thesis by auto
    qed (use that fit in \<open>auto simp: group_fits_def\<close>)
    have "group_fits ?lines ?new"
      unfolding group_fits_def using fit [unfolded group_fits_def] ab(1,2) start ends touched by (auto intro: le_trans)
    with ok have "groups_ok ?lines 0 (?gs @ [?new])" by (simp add: groups_ok_snoc)
    moreover have "group_replacements ?lines (?gs @ [?new]) rs = Inr groups'"
      using Cons.prems(1) True range by (simp add: Let_def)
    ultimately show ?thesis using Cons.IH [of "?gs @ [?new]"] Cons.prems(3) all by simp
  next
    case False
    let ?new = "\<lparr>gr_start_line = a, gr_end_line = b, gr_replacements = [r]\<rparr>"
    have "group_replacements ?lines (groups @ [?new]) rs = Inr groups'"
      using Cons.prems(1) False range by auto
    moreover have "groups_ok ?lines 0 (groups @ [?new])"
      using Cons.prems(2) False ab line_range_touched [OF range] by (auto simp: groups_ok_snoc group_fits_def)
    ultimately show ?thesis using Cons.IH [of "groups @ [?new]"] Cons.prems(3) by simp
  qed
qed simp

lemma replaceable_earlier: "replaceable s offset pos rs \<Longrightarrow> pos' \<le> pos \<Longrightarrow> replaceable s offset pos' rs"
  by (cases rs) auto

lemma replaceable_append:
  "replaceable s offset pos (xs @ ys) \<Longrightarrow> replaceable s offset pos xs \<and> replaceable s offset 0 ys"
proof (induction xs arbitrary: pos)
  case Nil
  then show ?case using replaceable_pos replaceable_earlier [of s offset pos ys 0] by auto
next
  case (Cons x xs)
  have "replaceable s offset (tr_match_index x - offset + tr_match_length x) (xs @ ys)"
    using Cons.prems by (simp only: append_Cons replaceable.simps)
  from Cons.IH [OF this] Cons.prems show ?case by (simp only: append_Cons replaceable.simps)
qed

lemma replaceable_block:
  "replaceable base 0 pos rs \<Longrightarrow>
   \<forall>r\<in>set rs. lo \<le> tr_match_index r \<and> tr_match_index r + tr_match_length r \<le> hi \<Longrightarrow>
   lo \<le> hi \<Longrightarrow> hi \<le> length base \<Longrightarrow> pos \<le> hi \<Longrightarrow>
   replaceable (take (hi - lo) (drop lo base)) lo (pos - lo) rs"
proof (induction rs arbitrary: pos)
  case (Cons r rs)
  let ?block = "take (hi - lo) (drop lo base)"
  have b: "is_char_boundary ?block (j - lo)" if "is_char_boundary base j" "lo \<le> j" "j \<le> hi" for j
    using that Cons.prems(3,4) by (auto simp: is_char_boundary_def)
  have e: "tr_match_index r - lo + tr_match_length r = tr_match_index r + tr_match_length r - lo"
    using Cons.prems(2) by simp
  have "replaceable ?block lo (tr_match_index r + tr_match_length r - lo) rs"
    using Cons.prems by (intro Cons.IH) simp_all
  with Cons.prems b [of "tr_match_index r"] b [of "tr_match_index r + tr_match_length r"] show ?case
    unfolding replaceable.simps e by auto
qed auto

text \<open>
  A block of lines that edits touch: the lines as they were, their normal form, what is replaced
  there by what, and the text the block becomes. Every line of it is touched by one of its edits.
\<close>

record edit_block =
  eb_original :: "string list"
  eb_normalized :: "string list"
  eb_edits :: "(string \<times> string) list"
  eb_result :: string

definition block_ok :: "edit_block \<Rightarrow> bool" where
  "block_ok b \<longleftrightarrow>
     eb_original b \<noteq> [] \<and> length (eb_original b) = length (eb_normalized b) \<and> eb_edits b \<noteq> [] \<and>
     (\<exists>gaps. length gaps = Suc (length (eb_edits b)) \<and>
        concat (eb_normalized b) = weave gaps (map fst (eb_edits b)) \<and>
        eb_result b = weave gaps (map snd (eb_edits b)) \<and>
        (\<forall>j<length (eb_normalized b). \<exists>k<length (eb_edits b).
           touches (length (concat (take j (eb_normalized b)))) (length (concat (take (Suc j) (eb_normalized b))))
             (match_start gaps (map fst (eb_edits b)) k) (length (fst (eb_edits b ! k)))))"

lemma concat_slice:
  "concat (take (b - a) (drop a ls)) =
     take (length (concat (take b ls)) - length (concat (take a ls))) (drop (length (concat (take a ls))) (concat ls))"
  if "a \<le> b"
proof -
  have "take b ls = take a ls @ take (b - a) (drop a ls)" using that take_add [of a "b - a" ls] by simp
  then have "concat (take b ls) = concat (take a ls) @ concat (take (b - a) (drop a ls))" by simp
  moreover have "concat ls = concat (take a ls) @ concat (take (b - a) (drop a ls)) @ concat (drop (b - a) (drop a ls))"
    by (metis append_take_drop_id concat_append)
  ultimately show ?thesis by simp
qed

lemma line_with_ending_utf8: "utf8_text s \<Longrightarrow> l \<in> set (split_lines_with_endings s) \<Longrightarrow> utf8_text l"
  using split_lines_ne [of s] split_lines_utf8 [of s]
  by (auto simp: split_lines_with_endings_def Let_def utf8_text_append dest: in_set_butlastD split: if_splits)

lemma line_boundary:
  assumes "utf8_text base"
  shows "is_char_boundary base (length (concat (take a (split_lines_with_endings base))))"
proof -
  let ?ls = "split_lines_with_endings base"
  have base: "base = concat (take a ?ls) @ concat (drop a ?ls)"
    by (metis append_take_drop_id concat_append concat_lines_with_endings)
  have cat: "\<forall>l\<in>set ls. utf8_text l \<Longrightarrow> utf8_text (concat ls)" for ls
    by (induction ls) (auto simp: utf8_text_append)
  have "utf8_text (concat (drop a ?ls))"
    by (rule cat) (use assms line_with_ending_utf8 in_set_dropD in fast)
  then have "starts_char (drop (length (concat (take a ?ls))) base)"
    using char_text_starts by (metis base append_eq_conv_conj)
  moreover have "length (concat (take a ?ls)) \<le> length base" by (metis base le_add1 length_append)
  ultimately show ?thesis using boundary_starts by blast
qed

lemma length_concat_drop:
  assumes "a + j \<le> length ls"
  shows "length (concat (take a ls)) + length (concat (take j (drop a ls))) = length (concat (take (a + j) ls))"
  by (simp add: take_add)

lemma group_block:
  assumes "group_fits (get_line_spans base) g" "replaceable base 0 0 (gr_replacements g)" and "utf8_text base"
    and "length original = length (split_lines_with_endings base)"
  obtains b where "block_ok b"
    "eb_original b = take (gr_end_line g - gr_start_line g) (drop (gr_start_line g) original)"
    "eb_normalized b = take (gr_end_line g - gr_start_line g) (drop (gr_start_line g) (split_lines_with_endings base))"
    "eb_edits b = map (replaced base) (gr_replacements g)"
    "str_slice base (ls_start (get_line_spans base ! gr_start_line g)) (ls_end (get_line_spans base ! (gr_end_line g - 1))) =
       Some (concat (eb_normalized b))"
    "apply_replacements (concat (eb_normalized b)) (gr_replacements g)
       (ls_start (get_line_spans base ! gr_start_line g)) = Some (eb_result b)"
proof -
  let ?ls = "split_lines_with_endings base" and ?rs = "gr_replacements g"
  let ?a = "gr_start_line g" and ?b = "gr_end_line g"
  have fit: "?a < ?b" "?b \<le> length ?ls" "?rs \<noteq> []"
    using assms(1) by (simp_all add: group_fits_def get_line_spans_def)
  define lo hi where "lo = length (concat (take ?a ?ls))" and "hi = length (concat (take ?b ?ls))"
  have spans: "ls_start (get_line_spans base ! ?a) = lo" "ls_end (get_line_spans base ! (?b - 1)) = hi"
    using fit line_spans_nth [of ?a base] line_spans_nth [of "?b - 1" base] by (simp_all add: lo_def hi_def get_line_spans_def)
  have le: "lo \<le> hi" "hi \<le> length base"
    using fit length_concat_take_mono [of ?a ?b ?ls] length_concat_take_mono [of ?b "length ?ls" ?ls]
    by (simp_all add: lo_def hi_def)
  have within: "\<forall>r\<in>set ?rs. lo \<le> tr_match_index r \<and> tr_match_index r + tr_match_length r \<le> hi"
    using assms(1) unfolding group_fits_def spans by blast
  let ?block = "take (hi - lo) (drop lo base)"
  have block: "concat (take (?b - ?a) (drop ?a ?ls)) = ?block"
    using concat_slice [of ?a ?b ?ls] fit(1) by (simp add: lo_def hi_def)
  have rep: "replaceable ?block lo 0 ?rs"
    using replaceable_block [OF assms(2) within le] by simp
  have found: "take (tr_match_length r) (drop (tr_match_index r - lo) ?block) =
      take (tr_match_length r) (drop (tr_match_index r) base)" if "r \<in> set ?rs" for r
    using within that by (auto simp: drop_take min_absorb1)
  from patch_weave [OF rep] obtain gaps where gaps: "length gaps = Suc (length ?rs)"
    "?block = weave gaps (map (\<lambda>r. take (tr_match_length r) (drop (tr_match_index r - lo) ?block)) ?rs)"
    "patch ?block lo 0 ?rs = weave gaps (map tr_new_text ?rs)"
    "\<forall>k<length ?rs. match_start gaps (map (\<lambda>r. take (tr_match_length r) (drop (tr_match_index r - lo) ?block)) ?rs) k =
        tr_match_index (?rs ! k) - lo" by auto
  define blk where "blk = \<lparr>eb_original = take (?b - ?a) (drop ?a original), eb_normalized = take (?b - ?a) (drop ?a ?ls),
    eb_edits = map (replaced base) ?rs, eb_result = patch ?block lo 0 ?rs\<rparr>"
  have m: "map (\<lambda>r. take (tr_match_length r) (drop (tr_match_index r - lo) ?block)) ?rs = map fst (map (replaced base) ?rs)"
    "map tr_new_text ?rs = map snd (map (replaced base) ?rs)"
    using found by (simp_all add: replaced_def)
  let ?norm = "take (?b - ?a) (drop ?a ?ls)"
  have touched: "\<exists>k<length ?rs. touches (length (concat (take j ?norm))) (length (concat (take (Suc j) ?norm)))
      (match_start gaps (map fst (map (replaced base) ?rs)) k) (length (fst (map (replaced base) ?rs ! k)))"
    if "j < length ?norm" for j
  proof -
    have j: "?a + j < ?b" "?a + j < length ?ls" using that fit by simp_all
    then obtain k where k: "k < length ?rs" "touches (ls_start (get_line_spans base ! (?a + j)))
        (ls_end (get_line_spans base ! (?a + j))) (tr_match_index (?rs ! k)) (tr_match_length (?rs ! k))"
      using assms(1) unfolding group_fits_def by (metis in_set_conv_nth le_add1)
    have line: "ls_start (get_line_spans base ! (?a + j)) = lo + length (concat (take j ?norm))"
      "ls_end (get_line_spans base ! (?a + j)) = lo + length (concat (take (Suc j) ?norm))"
      using j line_spans_nth [of "?a + j" base] length_concat_drop [of ?a j ?ls] length_concat_drop [of ?a "Suc j" ?ls]
      by (simp_all add: lo_def get_line_spans_def min_def)
    have r: "lo \<le> tr_match_index (?rs ! k)" "tr_match_index (?rs ! k) + tr_match_length (?rs ! k) \<le> hi"
      using within k(1) by simp_all
    moreover have "match_start gaps (map fst (map (replaced base) ?rs)) k = tr_match_index (?rs ! k) - lo"
      using gaps(4) k(1) unfolding m by simp
    moreover have "length (fst (map (replaced base) ?rs ! k)) = tr_match_length (?rs ! k)"
      using k(1) r le(2) by (simp add: replaced_def)
    ultimately show ?thesis using k unfolding line by (intro exI [of _ k]) (auto simp: touches_def)
  qed
  have "block_ok blk"
    unfolding block_ok_def blk_def edit_block.simps block
    using fit assms(4) gaps(1) gaps(2,3) [unfolded m] touched by auto
  moreover have "is_char_boundary base lo" "is_char_boundary base hi"
    unfolding lo_def hi_def by (rule line_boundary [OF assms(3)])+
  ultimately show thesis
    using le apply_replacements_patch [OF rep]
    by (intro that [of blk]) (simp_all only: blk_def edit_block.simps block spans, simp_all add: str_slice_def slice_def)
qed

lemma overlay_groups_blocks:
  "groups_ok (get_line_spans base) i gs \<Longrightarrow> replaceable base 0 0 (concat (map gr_replacements gs)) \<Longrightarrow>
   length original = length (split_lines_with_endings base) \<Longrightarrow> utf8_text base \<Longrightarrow>
   \<exists>gaps gaps' blocks.
     overlay_groups original base (get_line_spans base) i gs = Some (weave (map concat gaps) (map eb_result blocks)) \<and>
     drop i original = weave gaps (map eb_original blocks) \<and>
     drop i (split_lines_with_endings base) = weave gaps' (map eb_normalized blocks) \<and>
     length gaps = Suc (length blocks) \<and> map length gaps' = map length gaps \<and> list_all block_ok blocks \<and>
     concat (map eb_edits blocks) = map (replaced base) (concat (map gr_replacements gs))"
proof (induction gs arbitrary: i)
  case Nil
  then show ?case
    by (intro exI [of _ "[drop i original]"] exI [of _ "[drop i (split_lines_with_endings base)]"] exI [of _ "[]"])
      (simp add: slice_def get_line_spans_def)
next
  case (Cons g gs)
  let ?ls = "split_lines_with_endings base" and ?a = "gr_start_line g" and ?b = "gr_end_line g"
  have g: "i \<le> ?a" "group_fits (get_line_spans base) g" "groups_ok (get_line_spans base) ?b gs"
    using Cons.prems(1) by simp_all
  then have ab: "?a < ?b" "?b \<le> length ?ls" by (simp_all add: group_fits_def get_line_spans_def)
  have rep: "replaceable base 0 0 (gr_replacements g)" "replaceable base 0 0 (concat (map gr_replacements gs))"
    using Cons.prems(2) replaceable_append [of base 0 0 "gr_replacements g" "concat (map gr_replacements gs)"] by simp_all
  from group_block [OF g(2) rep(1) Cons.prems(4,3)] obtain b where b: "block_ok b"
    "eb_original b = take (?b - ?a) (drop ?a original)" "eb_normalized b = take (?b - ?a) (drop ?a ?ls)"
    "eb_edits b = map (replaced base) (gr_replacements g)"
    "str_slice base (ls_start (get_line_spans base ! ?a)) (ls_end (get_line_spans base ! (?b - 1))) =
       Some (concat (eb_normalized b))"
    "apply_replacements (concat (eb_normalized b)) (gr_replacements g)
       (ls_start (get_line_spans base ! ?a)) = Some (eb_result b)" by blast
  from Cons.IH [OF g(3) rep(2) Cons.prems(3,4)] obtain gaps gaps' blocks where IH:
    "overlay_groups original base (get_line_spans base) ?b gs = Some (weave (map concat gaps) (map eb_result blocks))"
    "drop ?b original = weave gaps (map eb_original blocks)" "drop ?b ?ls = weave gaps' (map eb_normalized blocks)"
    "length gaps = Suc (length blocks)" "map length gaps' = map length gaps" "list_all block_ok blocks"
    "concat (map eb_edits blocks) = map (replaced base) (concat (map gr_replacements gs))" by (elim exE conjE) (rule that)
  have split: "drop i xs = take (?a - i) (drop i xs) @ take (?b - ?a) (drop ?a xs) @ drop ?b xs" for xs :: "string list"
  proof -
    have "drop i xs = take (?a - i) (drop i xs) @ drop ?a xs"
      using append_take_drop_id [of "?a - i" "drop i xs"] g(1) by simp
    also have "drop ?a xs = take (?b - ?a) (drop ?a xs) @ drop ?b xs"
      using append_take_drop_id [of "?b - ?a" "drop ?a xs"] ab(1) by simp
    finally show ?thesis .
  qed
  have "overlay_groups original base (get_line_spans base) i (g # gs) =
      Some (concat (take (?a - i) (drop i original)) @ eb_result b @ weave (map concat gaps) (map eb_result blocks))"
    using g(1) ab Cons.prems(3) b(5,6) IH(1) by (simp add: slice_def [of original] get_line_spans_def [symmetric])
       (simp add: get_line_spans_def)
  moreover have "drop i original = weave (take (?a - i) (drop i original) # gaps) (map eb_original (b # blocks))"
    using split [of original] by (simp add: b(2) IH(2))
  moreover have "drop i ?ls = weave (take (?a - i) (drop i ?ls) # gaps') (map eb_normalized (b # blocks))"
    using split [of ?ls] by (simp add: b(3) IH(3))
  ultimately show ?case
    using b(1,4) IH(4-7) Cons.prems(3)
    by (intro exI [of _ "take (?a - i) (drop i original) # gaps"] exI [of _ "take (?a - i) (drop i ?ls) # gaps'"]
        exI [of _ "b # blocks"]) simp
qed

section \<open>What a call to apply edits does\<close>

abbreviation edits_utf8 :: "edit list \<Rightarrow> bool" where
  "edits_utf8 edits \<equiv> list_all (\<lambda>e. utf8_text (ed_old_text e) \<and> utf8_text (ed_new_text e)) edits"

definition uses_fuzzy_match :: "(string \<Rightarrow> string) \<Rightarrow> string \<Rightarrow> edit list \<Rightarrow> bool" where
  "uses_fuzzy_match nfkc content edits \<longleftrightarrow>
     list_ex (\<lambda>e. fm_used_fuzzy_match (fuzzy_find_text nfkc content (ed_old_text e))) (map normalize_edit edits)"

definition edit_base :: "(string \<Rightarrow> string) \<Rightarrow> string \<Rightarrow> edit list \<Rightarrow> string" where
  "edit_base nfkc content edits =
     (if uses_fuzzy_match nfkc content edits then normalize_for_fuzzy_match nfkc content else content)"

definition by_index :: "matched_edit list \<Rightarrow> matched_edit list" where
  "by_index ms = sort_key (\<lambda>m. tr_match_index (me_replacement m)) ms"

lemma edits_matched:
  assumes "nfkc_ok nfkc" "utf8_text content" "edits_utf8 edits"
    and "match_edits nfkc (edit_base nfkc content edits) path n 0 (map normalize_edit edits) = Inr ms"
    and "find_overlap path (by_index ms) = None"
  obtains es where "mset es = mset (map normalize_edit edits)"
    "replaceable (edit_base nfkc content edits) 0 0 (map me_replacement (by_index ms))"
    "map (replaced (edit_base nfkc content edits)) (map me_replacement (by_index ms)) =
       map (\<lambda>e. (found_text nfkc (edit_base nfkc content edits) e, ed_new_text e)) es"
proof -
  let ?base = "edit_base nfkc content edits"
  have base: "utf8_text ?base" using assms(1,2) normalize_stable(1) by (simp add: edit_base_def)
  have "\<forall>e\<in>set (map normalize_edit edits). normalize_for_fuzzy_match nfkc ?base = ?base \<or>
      \<not> fm_used_fuzzy_match (fuzzy_find_text nfkc ?base (ed_old_text e))"
    using normalize_stable(2) [OF assms(1,2)] by (auto simp: edit_base_def uses_fuzzy_match_def list_ex_iff)
  from match_edits_found [OF assms(4) this] obtain es where es: "mset es = mset (map normalize_edit edits)"
    "list_all2 (found_in nfkc ?base) es (map me_replacement (by_index ms))"
    unfolding by_index_def by (rule matched_in_order)
  have utf8: "\<forall>e\<in>set es. utf8_text (ed_old_text e) \<and> utf8_text (ed_new_text e)"
    using assms(3) mset_eq_setD [OF es(1)] by (auto simp: list_all_iff normalize_edit_def normalize_to_lf_utf8)
  have "map (replaced ?base) (map me_replacement (by_index ms)) = map (\<lambda>e. (found_text nfkc ?base e, ed_new_text e)) es"
    using es(2) utf8 found_boundaries(5) [OF _ base _ _ assms(1)]
    by (auto simp: list_all2_conv_all_nth list_eq_iff_nth_eq simp del: map_map)
  with es(1) sorted_replaceable [OF es(2) assms(5,1) base utf8] show thesis by (intro that)
qed

lemma overlay_result:
  assumes "replaceable base 0 0 (map me_replacement (by_index ms))" and "utf8_text base"
  shows "apply_replacements_preserving_unchanged_lines content base (map me_replacement (by_index ms)) \<noteq> None"
    and "apply_replacements_preserving_unchanged_lines content base (map me_replacement (by_index ms)) = Some (Inr new_content) \<Longrightarrow>
      \<exists>gaps gaps' blocks. new_content = weave (map concat gaps) (map eb_result blocks) \<and>
        split_lines_with_endings content = weave gaps (map eb_original blocks) \<and>
        split_lines_with_endings base = weave gaps' (map eb_normalized blocks) \<and>
        length gaps = Suc (length blocks) \<and> map length gaps' = map length gaps \<and> list_all block_ok blocks \<and>
        concat (map eb_edits blocks) = map (replaced base) (map me_replacement (by_index ms))"
proof -
  let ?rs = "map me_replacement (by_index ms)"
  have sorted: "sorted (map tr_match_index ?rs)" by (simp add: by_index_def comp_def)
  then have sort: "sort_key tr_match_index ?rs = ?rs" by (simp add: sort_key_id_if_sorted)
  have blocks: "\<exists>gaps gaps' blocks.
      overlay_groups (split_lines_with_endings content) base (get_line_spans base) 0 gs = Some (weave (map concat gaps) (map eb_result blocks)) \<and>
      split_lines_with_endings content = weave gaps (map eb_original blocks) \<and>
      split_lines_with_endings base = weave gaps' (map eb_normalized blocks) \<and>
      length gaps = Suc (length blocks) \<and> map length gaps' = map length gaps \<and> list_all block_ok blocks \<and>
      concat (map eb_edits blocks) = map (replaced base) ?rs"
    if "length (split_lines_with_endings content) = length (get_line_spans base)"
      "group_replacements (get_line_spans base) [] ?rs = Inr gs" for gs
  proof -
    have "groups_ok (get_line_spans base) 0 gs" "concat (map gr_replacements gs) = ?rs"
      using group_replacements_ok [OF that(2)] sorted by simp_all
    with overlay_groups_blocks [of base 0 gs "split_lines_with_endings content"] assms that(1)
    show ?thesis by (simp add: get_line_spans_def)
  qed
  show "apply_replacements_preserving_unchanged_lines content base ?rs \<noteq> None"
    using blocks unfolding apply_replacements_preserving_unchanged_lines_def Let_def sort
    by (auto split: sum.splits)
  show "\<exists>gaps gaps' blocks. new_content = weave (map concat gaps) (map eb_result blocks) \<and>
        split_lines_with_endings content = weave gaps (map eb_original blocks) \<and>
        split_lines_with_endings base = weave gaps' (map eb_normalized blocks) \<and>
        length gaps = Suc (length blocks) \<and> map length gaps' = map length gaps \<and> list_all block_ok blocks \<and>
        concat (map eb_edits blocks) = map (replaced base) ?rs"
    if "apply_replacements_preserving_unchanged_lines content base ?rs = Some (Inr new_content)"
  proof -
    from that obtain gs where gs: "length (split_lines_with_endings content) = length (get_line_spans base)"
      "group_replacements (get_line_spans base) [] ?rs = Inr gs"
      "overlay_groups (split_lines_with_endings content) base (get_line_spans base) 0 gs = Some new_content"
      unfolding apply_replacements_preserving_unchanged_lines_def Let_def sort by (auto split: if_splits sum.splits)
    from blocks [OF gs(1,2)] show ?thesis unfolding gs(3) option.inject .
  qed
qed

lemma apply_edits_unfold:
  "apply_edits_to_normalized_content nfkc content edits path =
     (case position (\<lambda>e. ed_old_text e = []) (map normalize_edit edits) of
        Some i \<Rightarrow> Some (Inl (empty_old_text_error path i (length edits)))
      | None \<Rightarrow>
          (case match_edits nfkc (edit_base nfkc content edits) path (length edits) 0 (map normalize_edit edits) of
             Inl e \<Rightarrow> Some (Inl e)
           | Inr ms \<Rightarrow>
               (case find_overlap path (by_index ms) of
                  Some e \<Rightarrow> Some (Inl e)
                | None \<Rightarrow>
                    (case
                       (if uses_fuzzy_match nfkc content edits
                        then apply_replacements_preserving_unchanged_lines content (edit_base nfkc content edits)
                               (map me_replacement (by_index ms))
                        else map_option Inr
                               (apply_replacements (edit_base nfkc content edits) (map me_replacement (by_index ms)) 0)) of
                       None \<Rightarrow> None
                     | Some (Inl e) \<Rightarrow> Some (Inl e)
                     | Some (Inr new_content) \<Rightarrow>
                         if content = new_content then Some (Inl (no_change_error path (length edits)))
                         else Some (Inr \<lparr>ae_base_content = content, ae_new_content = new_content\<rparr>)))))"
  unfolding apply_edits_to_normalized_content_def edit_base_def uses_fuzzy_match_def [symmetric] by_index_def Let_def
    length_map ..

text \<open>
  C16. Applying edits never panics: on valid text, every slice and every replaced range is within its
  text and at character boundaries, with exact and with normalized matches, in whatever order the
  edits come and whether or not they overlap.
\<close>

theorem apply_edits_never_panics:
  assumes "nfkc_ok nfkc" "utf8_text content" "edits_utf8 edits"
  shows "apply_edits_to_normalized_content nfkc content edits path \<noteq> None"
proof (cases "match_edits nfkc (edit_base nfkc content edits) path (length edits) 0 (map normalize_edit edits)")
  case (Inr ms)
  have base: "utf8_text (edit_base nfkc content edits)" using assms(1,2) normalize_stable(1) by (simp add: edit_base_def)
  show ?thesis
  proof (cases "find_overlap path (by_index ms)")
    case None
    from edits_matched [OF assms Inr None] have rep:
      "replaceable (edit_base nfkc content edits) 0 0 (map me_replacement (by_index ms))" by blast
    with Inr None overlay_result(1) [OF rep base, of content] apply_replacements_patch [OF rep] show ?thesis
      by (auto simp: apply_edits_unfold split: option.splits sum.splits if_splits)
  qed (simp add: apply_edits_unfold Inr split: option.splits)
qed (simp add: apply_edits_unfold split: option.splits)

lemma apply_edits_Inr:
  assumes "nfkc_ok nfkc" "utf8_text content" "edits_utf8 edits"
    and "apply_edits_to_normalized_content nfkc content edits path = Some (Inr r)"
  obtains ms es where "mset es = mset (map normalize_edit edits)"
    "replaceable (edit_base nfkc content edits) 0 0 (map me_replacement (by_index ms))"
    "map (replaced (edit_base nfkc content edits)) (map me_replacement (by_index ms)) =
       map (\<lambda>e. (found_text nfkc (edit_base nfkc content edits) e, ed_new_text e)) es"
    "(if uses_fuzzy_match nfkc content edits
      then apply_replacements_preserving_unchanged_lines content (edit_base nfkc content edits)
             (map me_replacement (by_index ms))
      else map_option Inr
             (apply_replacements (edit_base nfkc content edits) (map me_replacement (by_index ms)) 0)) =
       Some (Inr (ae_new_content r))"
    "ae_base_content r = content" "ae_new_content r \<noteq> content"
proof -
  from assms(4) obtain ms where ms:
    "match_edits nfkc (edit_base nfkc content edits) path (length edits) 0 (map normalize_edit edits) = Inr ms"
    "find_overlap path (by_index ms) = None"
    by (auto simp: apply_edits_unfold split: option.splits sum.splits if_splits)
  from edits_matched [OF assms(1-3) ms] obtain es where es: "mset es = mset (map normalize_edit edits)"
    "replaceable (edit_base nfkc content edits) 0 0 (map me_replacement (by_index ms))"
    "map (replaced (edit_base nfkc content edits)) (map me_replacement (by_index ms)) =
       map (\<lambda>e. (found_text nfkc (edit_base nfkc content edits) e, ed_new_text e)) es" by blast
  show thesis
    using assms(4) ms by (intro that [OF es])
      (auto simp: apply_edits_unfold split: option.splits sum.splits if_splits)
qed

text \<open>
  C18. When an edit needed a normalized match, every line that no edit touches is kept byte for byte: the
  lines of the content fall into gaps, which are copied, and blocks, all of whose lines are touched by an
  edit of the block; each block becomes the normal form of its lines, line for line, with the matched
  texts replaced and nothing else changed. Every edit is applied exactly once.
\<close>

theorem fuzzy_edits_keep_lines:
  assumes "nfkc_ok nfkc" "utf8_text content" "edits_utf8 edits"
    and "apply_edits_to_normalized_content nfkc content edits path = Some (Inr r)"
    and "uses_fuzzy_match nfkc content edits"
  shows "\<exists>gaps gaps' blocks es. ae_new_content r = weave (map concat gaps) (map eb_result blocks) \<and>
     split_lines_with_endings content = weave gaps (map eb_original blocks) \<and>
     split_lines_with_endings (normalize_for_fuzzy_match nfkc content) = weave gaps' (map eb_normalized blocks) \<and>
     length gaps = Suc (length blocks) \<and> map length gaps' = map length gaps \<and> list_all block_ok blocks \<and>
     mset es = mset (map normalize_edit edits) \<and>
     concat (map eb_edits blocks) =
       map (\<lambda>e. (found_text nfkc (normalize_for_fuzzy_match nfkc content) e, ed_new_text e)) es"
proof -
  have base: "edit_base nfkc content edits = normalize_for_fuzzy_match nfkc content"
    using assms(5) by (simp add: edit_base_def)
  from apply_edits_Inr [OF assms(1-4)] obtain ms es where m: "mset es = mset (map normalize_edit edits)"
    "replaceable (normalize_for_fuzzy_match nfkc content) 0 0 (map me_replacement (by_index ms))"
    "map (replaced (normalize_for_fuzzy_match nfkc content)) (map me_replacement (by_index ms)) =
       map (\<lambda>e. (found_text nfkc (normalize_for_fuzzy_match nfkc content) e, ed_new_text e)) es"
    "apply_replacements_preserving_unchanged_lines content (normalize_for_fuzzy_match nfkc content)
       (map me_replacement (by_index ms)) = Some (Inr (ae_new_content r))"
    unfolding base if_P [OF assms(5)] by blast
  have "utf8_text (normalize_for_fuzzy_match nfkc content)" using normalize_stable(1) [OF assms(1,2)] .
  from overlay_result(2) [OF m(2) this m(4)] m(1) show ?thesis unfolding m(3) by blast
qed

lemma nfkc_ok_id: "nfkc_ok (\<lambda>s. s)"
  by (simp add: nfkc_ok_def)

definition sample_edit :: edit where
  "sample_edit = \<lparr>ed_old_text = ''a'' @ newline # ''b'', ed_new_text = ''c''\<rparr>"

definition sample_content :: string where
  "sample_content = ''x '' @ newline # ''a '' @ newline # ''b'' @ [newline]"

lemma sample_applied:
  "apply_edits_to_normalized_content (\<lambda>s. s) sample_content [sample_edit] ''f'' =
     Some (Inr \<lparr>ae_base_content = sample_content, ae_new_content = ''x '' @ newline # ''c'' @ [newline]\<rparr>)"
  by code_simp

lemma sample_texts: "utf8_text sample_content" "edits_utf8 [sample_edit]"
  by (simp_all add: sample_content_def sample_edit_def utf8_text_ascii)

theorem apply_edits_never_panics_witness:
  "nfkc_ok (\<lambda>s. s) \<and> utf8_text sample_content \<and> edits_utf8 [sample_edit] \<and>
   apply_edits_to_normalized_content (\<lambda>s. s) sample_content [sample_edit] ''f'' \<noteq> None"
  using apply_edits_never_panics [OF nfkc_ok_id sample_texts] nfkc_ok_id sample_texts by simp

theorem fuzzy_edits_keep_lines_witness:
  "\<exists>gaps blocks. ''x '' @ newline # ''c'' @ [newline] = weave (map concat gaps) (map eb_result blocks) \<and>
     split_lines_with_endings sample_content = weave gaps (map eb_original blocks) \<and> list_all block_ok blocks"
proof -
  have "uses_fuzzy_match (\<lambda>s. s) sample_content [sample_edit]" by code_simp
  from fuzzy_edits_keep_lines [OF nfkc_ok_id sample_texts sample_applied this] show ?thesis by auto
qed

section \<open>An exact edit changes nothing else in the file\<close>

text \<open>A file whose every line ends in CRLF, with no CR elsewhere.\<close>

fun crlf_only :: "string \<Rightarrow> bool" where
  "crlf_only [] = True"
| "crlf_only (c # s) =
     (if c = carriage then (case s of [] \<Rightarrow> False | d # s' \<Rightarrow> d = newline \<and> crlf_only s')
      else c \<noteq> newline \<and> crlf_only s)"

lemma replace_char: "replace_str [a] rep s = concat (map (\<lambda>c. if c = a then rep else [c]) s)"
proof (induction s)
  case (Cons c s)
  then show ?case by (auto simp: replace_str.simps [of "[a]" rep "c # s"])
qed (simp add: replace_str.simps)

lemma replace_char_none: "a \<notin> set s \<Longrightarrow> replace_str [a] rep s = s"
  unfolding replace_char by (induction s) auto

lemma restore_append [simp]: "restore_line_endings (a @ b) e = restore_line_endings a e @ restore_line_endings b e"
  by (cases e) (simp_all add: replace_char)

lemma restore_Nil [simp]: "restore_line_endings [] e = []"
  by (cases e) (simp_all add: replace_char)

lemma restore_weave:
  "restore_line_endings (weave gs xs) e =
     weave (map (\<lambda>t. restore_line_endings t e) gs) (map (\<lambda>t. restore_line_endings t e) xs)"
proof -
  have "restore_line_endings (concat gs) e = concat (map (\<lambda>t. restore_line_endings t e) gs)" for gs
    by (induction gs) simp_all
  then show ?thesis by (induction gs xs rule: weave.induct) simp_all
qed

lemma no_carriage_normalize: "carriage \<notin> set s \<Longrightarrow> normalize_to_lf s = s"
proof -
  assume no: "carriage \<notin> set s"
  then have "replace_str [carriage, newline] [newline] s = s"
  proof (induction s)
    case (Cons c s)
    then show ?case by (simp add: replace_str.simps [of "[carriage, newline]" _ "c # s"])
  qed (simp add: replace_str.simps)
  with no show ?thesis by (simp add: normalize_to_lf_def replace_char_none)
qed

lemma normalize_crlf_only:
  "crlf_only s \<Longrightarrow> carriage \<notin> set (replace_str [carriage, newline] [newline] s) \<and>
     replace_str [newline] [carriage, newline] (replace_str [carriage, newline] [newline] s) = s"
proof (induction s rule: crlf_only.induct)
  case (2 c s)
  show ?case
  proof (cases "c = carriage")
    case True
    with 2 obtain s' where "s = newline # s'" "crlf_only s'" by (auto split: list.splits)
    with True 2 show ?thesis by (simp add: replace_str.simps [of _ _ "carriage # newline # s'"] replace_char)
  next
    case False
    with 2 show ?thesis by (simp add: replace_str.simps [of "[carriage, newline]" _ "c # s"] replace_char)
  qed
qed (simp add: replace_str.simps)

lemma crlf_only_detect: "crlf_only s \<Longrightarrow> newline \<in> set s \<Longrightarrow> detect_line_ending s = Crlf"
proof -
  have "\<exists>i. find_str [carriage, newline] s = Some i \<and> find_str [newline] s = Some (Suc i)"
    if "crlf_only s" "newline \<in> set s" for s using that
  proof (induction s rule: crlf_only.induct)
    case (2 c s)
    then show ?case by (cases s) (auto split: if_splits)
  qed simp
  then show "crlf_only s \<Longrightarrow> newline \<in> set s \<Longrightarrow> detect_line_ending s = Crlf"
    by (fastforce simp: detect_line_ending_def)
qed

lemma crlf_only_no_newline: "crlf_only s \<Longrightarrow> newline \<notin> set s \<Longrightarrow> carriage \<notin> set s"
  by (induction s rule: crlf_only.induct) (auto split: if_splits list.splits)

lemma no_carriage_detect: "carriage \<notin> set s \<Longrightarrow> detect_line_ending s = Lf"
proof -
  assume "carriage \<notin> set s"
  then have "find_str [carriage, newline] s = None"
    by (induction s) auto
  then show ?thesis by (simp add: detect_line_ending_def)
qed

lemma line_endings_roundtrip:
  assumes "carriage \<notin> set s \<or> crlf_only s"
  shows "restore_line_endings (normalize_to_lf s) (detect_line_ending s) = s"
proof (cases "carriage \<in> set s")
  case False
  then show ?thesis by (simp add: no_carriage_normalize no_carriage_detect)
next
  case True
  with assms crlf_only_no_newline have c: "crlf_only s" "newline \<in> set s" by auto
  with normalize_crlf_only show ?thesis by (simp add: normalize_to_lf_def crlf_only_detect replace_char_none)
qed

lemma strip_bom_parts: "strip_bom s = (bom, content) \<Longrightarrow> s = bom @ content \<and> bom \<in> {[], BOM}"
  by (auto simp: strip_bom_def prefix_def split: if_splits)

lemma utf8_BOM: "utf8_text BOM"
  by (simp add: BOM_def utf8_text_scan utf8_chunk.simps utf8_cont_def)

lemma exact_edits_weave:
  assumes "nfkc_ok nfkc" "utf8_text content" "edits_utf8 edits"
    and "apply_edits_to_normalized_content nfkc content edits path = Some (Inr r)"
    and "\<forall>e\<in>set edits. find_str (normalize_to_lf (ed_old_text e)) content \<noteq> None"
  shows "\<exists>gaps es. mset es = mset (map normalize_edit edits) \<and> length gaps = Suc (length es) \<and>
     content = weave gaps (map ed_old_text es) \<and> ae_new_content r = weave gaps (map ed_new_text es)"
proof -
  have exact: "\<not> uses_fuzzy_match nfkc content edits"
    using assms(5) by (auto simp: uses_fuzzy_match_def list_ex_iff normalize_edit_def fuzzy_find_text_def split: option.splits)
  have base: "edit_base nfkc content edits = content" using exact by (simp add: edit_base_def)
  show ?thesis
  proof (rule apply_edits_Inr [OF assms(1-4), unfolded base if_not_P [OF exact]])
    fix ms es
    assume m: "mset es = mset (map normalize_edit edits)"
      "replaceable content 0 0 (map me_replacement (by_index ms))"
      "map (replaced content) (map me_replacement (by_index ms)) = map (\<lambda>e. (found_text nfkc content e, ed_new_text e)) es"
      "map_option Inr (apply_replacements content (map me_replacement (by_index ms)) 0) =
         (Some (Inr (ae_new_content r)) :: (tool_error + string) option)"
    let ?rs = "map me_replacement (by_index ms)"
    have "\<forall>e\<in>set es. find_str (ed_old_text e) content \<noteq> None"
      using assms(5) mset_eq_setD [OF m(1)] by (auto simp: normalize_edit_def)
    then have pairs: "map (replaced content) ?rs = map (\<lambda>e. (ed_old_text e, ed_new_text e)) es"
      unfolding m(3) by (auto simp: found_text_def)
    from arg_cong [OF pairs, of "map fst"] arg_cong [OF pairs, of "map snd"] arg_cong [OF pairs, of length]
    have parts: "map (\<lambda>r. take (tr_match_length r) (drop (tr_match_index r) content)) ?rs = map ed_old_text es"
      "map tr_new_text ?rs = map ed_new_text es" "length ?rs = length es"
      by (simp_all add: replaced_def comp_def)
    from patch_weave [OF m(2)] apply_replacements_patch [OF m(2)] m(4) parts m(1)
    show ?thesis by (auto simp del: map_map)
  qed
qed

lemma edit_execute_written:
  assumes "edit_execute nfkc env path edits = Some (Some final_content, res)"
  shows "\<exists>absolute_path read_text. resolve_tool_path env path = Inr absolute_path \<and>
     en_read_text_file env absolute_path = Inr read_text \<and> edited_file nfkc read_text edits path = Some (Inr final_content) \<and>
     en_write_file env absolute_path final_content = None"
  using assms by (auto simp: edit_execute_def edit_locked_def split: if_splits sum.splits option.splits)

text \<open>
  C17. When all old texts of a call occur in the file, an edit that writes the file changes exactly the
  old texts into the new ones: for a file with uniform line endings (no CR at all, or CRLF everywhere),
  with or without a byte order mark, every other byte of the file stays, and both texts take the line
  ending of the file.
\<close>

theorem exact_edit_changes_only_matches:
  assumes "nfkc_ok nfkc" "edits_utf8 edits"
    and "edit_execute nfkc env path edits = Some (Some final_content, res)"
    and "resolve_tool_path env path = Inr absolute_path" "en_read_text_file env absolute_path = Inr (bom @ content)"
    and "utf8_text (bom @ content)"
    and "bom = BOM \<or> bom = [] \<and> \<not> prefix BOM content"
    and "carriage \<notin> set content \<or> crlf_only content"
    and "\<forall>e\<in>set edits. find_str (normalize_to_lf (ed_old_text e)) (normalize_to_lf content) \<noteq> None"
  shows "\<exists>gaps es. mset es = mset (map normalize_edit edits) \<and> length gaps = Suc (length es) \<and>
     content = weave gaps (map (\<lambda>e. restore_line_endings (ed_old_text e) (detect_line_ending content)) es) \<and>
     final_content = bom @ weave gaps (map (\<lambda>e. restore_line_endings (ed_new_text e) (detect_line_ending content)) es)"
proof -
  let ?r = "\<lambda>t. restore_line_endings t (detect_line_ending content)"
  have strip: "strip_bom (bom @ content) = (bom, content)" using assms(7) by (auto simp: strip_bom_def)
  have "utf8_text content" using assms(6,7) utf8_BOM by auto
  then have utf8: "utf8_text (normalize_to_lf content)" by (rule normalize_to_lf_utf8)
  from edit_execute_written [OF assms(3)] assms(4,5) have "edited_file nfkc (bom @ content) edits path = Some (Inr final_content)"
    by auto
  then obtain r where r: "apply_edits_to_normalized_content nfkc (normalize_to_lf content) edits path = Some (Inr r)"
    "final_content = bom @ ?r (ae_new_content r)"
    by (auto simp: edited_file_def strip split: option.splits sum.splits)
  from exact_edits_weave [OF assms(1) utf8 assms(2) r(1) assms(9)] obtain gaps es where
    w: "mset es = mset (map normalize_edit edits)" "length gaps = Suc (length es)"
      "normalize_to_lf content = weave gaps (map ed_old_text es)" "ae_new_content r = weave gaps (map ed_new_text es)"
    by blast
  have "content = weave (map ?r gaps) (map (\<lambda>e. ?r (ed_old_text e)) es)"
    using line_endings_roundtrip [OF assms(8)] by (simp add: w(3) restore_weave comp_def)
  moreover have "final_content = bom @ weave (map ?r gaps) (map (\<lambda>e. ?r (ed_new_text e)) es)"
    by (simp add: r(2) w(4) restore_weave comp_def)
  ultimately show ?thesis using w(1,2) by (intro exI [of _ "map ?r gaps"] exI [of _ es]) simp
qed

definition sample_env :: edit_env where
  "sample_env = \<lparr>en_absolute_path = (\<lambda>p. Inr (CHR ''/'' # p)), en_canonical_path = Inr, en_file_info = (\<lambda>_. Inr KFile),
     en_read_text_file = (\<lambda>_. Inr (BOM @ ''x'' @ [carriage, newline] @ ''y'' @ [carriage, newline])),
     en_write_file = (\<lambda>_ _. None), en_aborted = (\<lambda>_. False)\<rparr>"

definition sample_exact_edit :: edit where
  "sample_exact_edit = \<lparr>ed_old_text = newline # ''y'', ed_new_text = newline # ''z''\<rparr>"

theorem exact_edit_changes_only_matches_witness:
  "edit_execute (\<lambda>s. s) sample_env ''f'' [sample_exact_edit] =
     Some (Some (BOM @ ''x'' @ [carriage, newline] @ ''z'' @ [carriage, newline]),
       Inr ''Successfully replaced 1 block(s) in f.'') \<and>
   (\<exists>gaps. length gaps = Suc (Suc 0) \<and>
     ''x'' @ [carriage, newline] @ ''y'' @ [carriage, newline] = weave gaps [[carriage, newline] @ ''y''] \<and>
     ''x'' @ [carriage, newline] @ ''z'' @ [carriage, newline] = weave gaps [[carriage, newline] @ ''z''])"
proof -
  let ?c = "''x'' @ [carriage, newline] @ ''y'' @ [carriage, newline]"
  have run: "edit_execute (\<lambda>s. s) sample_env ''f'' [sample_exact_edit] =
     Some (Some (BOM @ ''x'' @ [carriage, newline] @ ''z'' @ [carriage, newline]),
       Inr ''Successfully replaced 1 block(s) in f.'')" by code_simp
  have env: "resolve_tool_path sample_env ''f'' = Inr ''/f''" by code_simp
  have "utf8_text ?c" by (simp add: utf8_text_ascii)
  then have text_ok: "utf8_text (BOM @ ?c)" using utf8_BOM by simp
  have ed: "edits_utf8 [sample_exact_edit]" by (simp add: sample_exact_edit_def utf8_text_ascii)
  have found: "\<forall>e\<in>set [sample_exact_edit]. find_str (normalize_to_lf (ed_old_text e)) (normalize_to_lf ?c) \<noteq> None"
    by code_simp
  have ends: "detect_line_ending ?c = Crlf" "crlf_only ?c" by (code_simp, code_simp)
  have norm: "normalize_edit sample_exact_edit = sample_exact_edit" by code_simp
  have restored: "restore_line_endings (newline # ''y'') Crlf = [carriage, newline] @ ''y''"
    "restore_line_endings (newline # ''z'') Crlf = [carriage, newline] @ ''z''" by (code_simp, code_simp)
  from exact_edit_changes_only_matches [OF nfkc_ok_id ed run env _ text_ok _ _ found] ends norm restored run
  show ?thesis by (auto simp: sample_env_def sample_exact_edit_def)
qed

text \<open>
  Two cases the code does not handle as its errors promise. An old text of spaces that the file does not
  have normalizes to the empty text, which is found at offset 0, is counted 0 times and so passes for
  unique: the new text is inserted at the start of the file.
\<close>

lemma blank_old_text_inserts:
  "apply_edits_to_normalized_content (\<lambda>s. s) ''ab'' [\<lparr>ed_old_text = ''  '', ed_new_text = ''X''\<rparr>] ''f'' =
     Some (Inr \<lparr>ae_base_content = ''ab'', ae_new_content = ''Xab''\<rparr>)"
  by code_simp

text \<open>A last line of only spaces has no counterpart in the normal form, so that no normalized match is applied.\<close>

lemma blank_last_line_refused:
  "apply_edits_to_normalized_content (\<lambda>s. s) (''a b '' @ newline # '' '')
     [\<lparr>ed_old_text = ''a b'' @ [newline], ed_new_text = ''X''\<rparr>] ''f'' = Some (Inl line_count_error)"
  by code_simp

end
