(* ===== verification/Spec2Isabelle.thy ===== *)
theory Spec2Isabelle
  imports Protocol_Codec Session_Context Session_Recovery Session_Jsonl_Storage Session_Summary Sse_Parser
    Agent_Threads Tool_Edit
begin

text \<open>
  Form is an agent application whose Rust core lives in \<^verbatim>\<open>pi-rs/crates\<close>: clients and servers
  exchange framed CBOR messages; an agent loop sends the context of a conversation to a model,
  reads the streamed reply and runs the tools it calls; and every conversation is an event-sourced
  session kept in memory or in a file, from which the agent's context and, after a crash, its
  pending work are rebuilt.
  This library models that core and proves it correct. Paths below are relative to
  \<^verbatim>\<open>src/pi-rs/crates\<close>.

  \<^bold>\<open>Wire protocol\<close> (\<^verbatim>\<open>pi-protocol\<close>).
  \<^item> \<open>Framing\<close> is \<^verbatim>\<open>framing.rs\<close>: \<open>encode_frame\<close>, \<open>assert_complete_frame\<close> and the incremental
    \<open>frame_decoder\<close> (its buffers, counters and terminal failure). Its loop is a partial function that
    is proved to return for every reachable decoder.
  \<^item> \<open>Float64\<close>, \<open>Cbor_Value\<close> and \<open>Cbor_Codec\<close> are \<^verbatim>\<open>cbor/options.rs\<close>, \<^verbatim>\<open>value.rs\<close>, \<^verbatim>\<open>encoder.rs\<close> and
    \<^verbatim>\<open>decoder.rs\<close>: bytes as words, doubles as their bit patterns, maps in the JavaScript property
    order, every limit and error.
  \<^item> \<open>Protocol_Codec\<close> is \<^verbatim>\<open>codec.rs\<close>: encoding, parsing and the validated message decoders over the
    two layers. The serde form and the schema check of a message type are parameters.
  \<^item> \<open>Stream_Decoder\<close> states, as the locale \<open>incremental_decoder\<close>, what a decoder fed in pieces
    promises; the frame decoder and the message decoder interpret it, and chunking independence
    and the stream round trips follow once for both. The locale \<open>incremental_parser\<close> is the same
    contract for parsers that never fail.
  \<^item> \<open>Sse_Parser\<close> is \<^verbatim>\<open>pi-http/src/sse.rs\<close>: the server-sent-events parser through which provider
    replies arrive. It interprets \<open>incremental_parser\<close>; the lemmas compare it with a reading of the
    whole text, give the round trip of rendered events and say what a byte that is not UTF-8 does.

  \<^bold>\<open>Sessions\<close> (\<^verbatim>\<open>pi-session\<close>, with the message types of \<^verbatim>\<open>pi-core\<close>).
  \<^item> \<open>Session_Types\<close>: content blocks, messages, entries, lane records, queries, errors.
  \<^item> \<open>Session_State\<close> is \<^verbatim>\<open>state.rs\<close>: the state record, one function per mutation, the queries, forks and
    the checks of durable payloads. \<open>Session_Invariant\<close> holds its invariant and that every accepted
    mutation keeps it; \<open>Session_Queries\<close> the specifications of the queries, pagination and the
    termination of the parent walk; \<open>Session_Fork\<close> that forks replay and what they contain.
  \<^item> \<open>Session_Json\<close>: the hand-written JSON forms of entries and records (\<^verbatim>\<open>types.rs\<close>) and their round
    trips.
  \<^item> \<open>Session_Storage\<close> is \<^verbatim>\<open>repo.rs\<close>, \<^verbatim>\<open>memory.rs\<close> and \<^verbatim>\<open>session.rs\<close>: the storage interface, the in-memory
    backend and the session handle. The locale \<open>session_backend\<close> states what a backend promises its
    handle; the in-memory backend interprets it. Reachability is an inductive relation over the
    writes and forks.
  \<^item> \<open>Session_Jsonl\<close> and \<open>Session_Jsonl_Storage\<close> are \<^verbatim>\<open>jsonl/codec.rs\<close> and \<^verbatim>\<open>jsonl/storage.rs\<close>: the lines of
    a session file and the backend that appends them. The outcome of each file-system call is an
    argument, so that torn and failing writes are cases of the model. The lemmas show that files
    read back to the state in memory, what a torn write costs, and that the backend refines the
    in-memory one.
  \<^item> \<open>Session_Context\<close> is \<^verbatim>\<open>messages.rs\<close> and \<^verbatim>\<open>context.rs\<close>: the messages a provider sees for a branch.
  \<^item> \<open>Session_Compaction\<close> and \<open>Session_Summary\<close> are \<^verbatim>\<open>compaction/compaction.rs\<close>, \<^verbatim>\<open>utils.rs\<close> and
    \<^verbatim>\<open>branch_summarization.rs\<close>: how much context there is, where it is cut, what is summarised and
    what is kept, and the requests to the summarising model, which is a parameter. The locale
    \<open>branch_reader\<close> states what leaving a branch asks of a storage. The lemmas show that no message
    is lost, that the budget holds, and what the provider sees afterwards.
  \<^item> \<open>Session_Reducer\<close> and \<open>Session_Recovery\<close> are \<^verbatim>\<open>reducer.rs\<close>: validation of a lane's record log and
    the rebuilt lane state, against a declarative account of what is pending.
  \<^item> This theory: recovery of a lane from a stored session, across storage and reducer.

  \<^bold>\<open>The agent loop\<close> (\<^verbatim>\<open>pi-agent\<close>).
  \<^item> \<open>Agent_Types\<close>: the streaming protocol of providers (\<^verbatim>\<open>pi-core/src/event.rs\<close>), tools
    (\<^verbatim>\<open>pi-tools/src/tool.rs\<close>) and the loop's contexts, hooks, configuration and events (\<^verbatim>\<open>types.rs\<close>,
    \<^verbatim>\<open>error.rs\<close>).
  \<^item> \<open>Agent_Loop\<close> is \<^verbatim>\<open>agent_loop.rs\<close>: \<open>stream_assistant_response\<close>, the preparation, execution and
    finalisation of tool calls, sequential and parallel batches and \<open>run_loop\<close>. Tools, hooks, listeners
    and providers are functions on a world; the tasks of a parallel batch are interleaved by a
    scheduler that every theorem quantifies over.
  \<^item> \<open>Agent_Protocol\<close> states the protocol of the events and the shape of a turn and proves them for
    every operation; \<open>Agent_Run\<close> has the statements about whole runs and batches. \<open>Agent_Frame\<close> states,
    as the locale \<open>run_frame\<close>, that what every called function keeps is kept by the loop;
    \<open>Agent_Liveness\<close> uses it to show that the loop returns when the provider and the message sources
    run dry.
  \<^item> \<open>Agent_Handle\<close> is \<^verbatim>\<open>agent.rs\<close> and \<^verbatim>\<open>stream_fn.rs\<close>: the shared handle with its transcript, queues and
    listeners, which starts runs of the loop and reduces their events. \<open>Agent_Lifecycle\<close> interprets
    \<open>run_frame\<close> for it: a settled run leaves exactly the announced messages in the transcript, prompts
    return, and the reduced state refines the protocol. \<open>Agent_Threads\<close> interleaves the critical
    sections of threads that share a handle: a run has one owner at a time, and the handle's other
    flags agree with it except in the races it describes.

  \<^bold>\<open>Tools\<close> (\<^verbatim>\<open>pi-tools\<close>).
  \<^item> \<open>Tool_Error\<close> is \<^verbatim>\<open>error.rs\<close>.
  \<^item> \<open>Tool_Truncate\<close> is \<^verbatim>\<open>truncate.rs\<close> and \<^verbatim>\<open>shell_output.rs\<close>: the limits on tool output and the capture of a
    command, which keeps a bounded tail and spills the rest to a file. The lemmas say what the two
    truncations keep, and that the capture shows what truncating the whole output would.
  \<^item> \<open>Tool_Edit\<close> is \<^verbatim>\<open>edit_diff.rs\<close> and \<^verbatim>\<open>tools/edit.rs\<close>: matching old texts, exactly or after
    normalization, replacing them, and the edit of a file. No edit panics; an exact edit changes
    nothing but its matches; a normalized one keeps every line it does not touch.

  \<^bold>\<open>Conventions.\<close> A Rust \<^verbatim>\<open>Result\<close> is a sum with the error on the left, a panic is \<open>None\<close> of an outer
  option, strings are their UTF-8 bytes as characters, \<^verbatim>\<open>i64\<close> arithmetic that can wrap is written with
  \<open>i64_wrap\<close>, clocks and fresh ids are arguments. An operation that holds its lock throughout is one
  step; where starting, finishing, resetting or continuing a run lets go of its locks, what the other
  threads do in between is an argument (\<open>others\<close>) or, in \<open>Agent_Threads\<close>, a step of theirs. Loops
  are structural, have a termination measure, or are option-valued partial functions with a proof that
  they return. Only the loop over turns takes a number of iterations, because a model may
  ask for tools for ever; with a budget \<open>b\<close> that requests spend, \<open>2 * b + 2\<close> iterations are enough,
  and the safety theorems hold for every number.

  \<^bold>\<open>Parameters.\<close> The derived serde forms of payload structs, JSON text, the schema checks of protocol
  messages, custom context projectors, in the agent loop the validation of tool arguments and, in the
  edit tool, Unicode normalization and the file environment are arguments; theorems name what they ask
  of them, and their witnesses instantiate them.

  \<^bold>\<open>Not modelled.\<close> Sockets and asynchronous routing (\<^verbatim>\<open>pi-client\<close>, \<^verbatim>\<open>pi-server\<close>), HTTP providers,
  credentials, the SQL backend, telemetry and the user interface are I/O or calls of other
  libraries. Of the agent the spawning of runs on a channel, of the HTTP layer the retry policy and the
  partial JSON reader, and of the tools the processes and files themselves, the rendered diffs and the
  tools other than edit are not modelled.
\<close>

section \<open>Recovering a stored session\<close>

lemma open_ref_starts: "r \<in> set (open_ref lane rs) \<Longrightarrow> \<exists>s. r_payload r = RPOperationStarted s"
proof (induction rs)
  case (Cons x rs)
  then show ?case
    by (cases "r_payload x") (auto simp: starts_in_def record_type_of_def split: if_splits)
qed simp

lemma distinct_map_limit_take:
  "distinct (map f xs) \<Longrightarrow> distinct (map f (limit_take limit (filter p xs)))"
  by (auto simp: limit_take_def distinct_map_filter simp flip: take_map split: option.splits)

lemma find_records_distinct:
  assumes "state_wf s" and "find_records s q = Inr rs"
  shows "distinct (map r_seq rs)"
proof -
  have "sorted_wrt (<) (map r_seq (ss_records s))"
    using records_sorted [OF assms(1)] by (simp add: sorted_wrt_map)
  then have "distinct (map r_seq (ss_records s))" by (simp add: strict_sorted_iff)
  then have "distinct (map r_seq (in_order (rq_order q) (ss_records s)))"
    by (auto simp: in_order_def distinct_map split: option.splits entry_order.splits)
  with assms(2) show ?thesis
    by (auto simp: find_records_spec result_simps distinct_map_limit_take)
qed

text \<open>
  C7. Recovering a lane of a session. For every session that storage can be in, with the slice
  filled from the storage's own queries (the open operations of the lane, and the records of any
  query), \<open>reduce_lane_state\<close> returns: it meets no record of another kind among the open operations
  and is never refused for having two of them; and the slice is accepted exactly when every
  record is permitted by the ones before it and every deferred assistant entry has its handle.
\<close>

theorem session_recovery_verdict:
  assumes "im_reachable st"
    and "find_open_operations (im_state st) lane limit = Inr (sl_open_operations (in_slice input))"
    and "find_records (im_state st) q = Inr (sl_records (in_slice input))"
  shows "(\<exists>res. reduce_lane_state input = Some res) \<and>
    (validate_record_log (in_slice input) = Inr () \<longleftrightarrow>
       list_all handle_ok (sl_entries (in_slice input)) \<and>
       (\<forall>i < length (sl_records (in_slice input)).
          record_ok (entries_by_id (sl_entries (in_slice input)))
            (take i (by_sequence (sl_records (in_slice input))))
            (by_sequence (sl_records (in_slice input)) ! i)))"
proof -
  have wf: "state_wf (im_state st)" and one: "single_open (im_state st)"
    using im_reachable_keeps [OF assms(1)] by auto
  have ops: "sl_open_operations (in_slice input) =
      limit_take limit (rev (open_ref lane (ss_records (im_state st))))"
    using assms(2) wf
    by (auto simp: find_open_operations_spec result_simps state_wf_def open_wf_def)
  then have sub: "set (sl_open_operations (in_slice input)) \<subseteq>
      set (open_ref lane (ss_records (im_state st)))"
    by (auto simp: limit_take_def dest: in_set_takeD split: option.splits)
  have le: "length (sl_open_operations (in_slice input)) \<le> 1"
    using one ops by (auto simp: single_open_def limit_take_def split: option.splits
        intro: le_trans [OF min.cobounded1])
  have "\<exists>res. reduce_lane_state input = Some res"
  proof (cases "sl_open_operations (in_slice input)")
    case Nil
    then show ?thesis
      by (cases "validate_record_log (in_slice input)") (simp_all add: reduce_lane_state_def Let_def)
  next
    case (Cons r rs)
    with sub obtain s where "r_payload r = RPOperationStarted s" using open_ref_starts by fastforce
    with Cons show ?thesis
      by (cases "validate_record_log (in_slice input)")
        (simp_all add: reduce_lane_state_def Let_def as_operation_started_def split: prod.splits)
  qed
  with validate_record_log_ok [OF find_records_distinct [OF wf assms(3)]] le show ?thesis by simp
qed

theorem session_recovery_verdict_witness:
  "\<exists>st c input. im_append_record 5 (new_record_new ''o1'' ''main'' demo_start)
       (in_memory_new (session_metadata_new ''s'' 0)) = Inr (st, c) \<and>
     find_open_operations (im_state st) ''main'' None = Inr (sl_open_operations (in_slice input)) \<and>
     find_records (im_state st) record_query_default = Inr (sl_records (in_slice input)) \<and>
     (\<exists>res. reduce_lane_state input = Some res)"
proof -
  obtain st c where app: "im_append_record 5 (new_record_new ''o1'' ''main'' demo_start)
       (in_memory_new (session_metadata_new ''s'' 0)) = Inr (st, c)" using demo_append_start by blast
  then have reach: "im_reachable st" by (rule im_reachable.imr_record [OF im_reachable.imr_new])
  obtain ops where ops: "find_open_operations (im_state st) ''main'' None = Inr ops"
    by (simp add: find_open_operations_spec validate_limit_def)
  obtain rs where rs: "find_records (im_state st) record_query_default = Inr rs"
    by (simp add: find_records_spec record_query_validate_def record_query_default_def
        validate_limit_def validate_cursor_def)
  define input :: lane_reduction_input where "input =
    \<lparr>in_slice = \<lparr>sl_lane = ''main'', sl_open_operations = ops, sl_records = rs, sl_entries = []\<rparr>,
     in_leaf_id = None, in_own_entries = [], in_configuration_entries = [], in_defaults = None\<rparr>"
  have "find_open_operations (im_state st) ''main'' None = Inr (sl_open_operations (in_slice input))"
    and "find_records (im_state st) record_query_default = Inr (sl_records (in_slice input))"
    by (simp_all add: input_def ops rs)
  with session_recovery_verdict [OF reach this] app show ?thesis by blast
qed

end
